(* ===== verification/KPrelude.thy ===== *)
theory KPrelude
  imports Main "HOL-Library.Word"
begin

text \<open>
  Shared vocabulary of the development.

  \<^item> The C integer types of \<^verbatim>\<open>include/types.h\<close> as machine words of their width. The target is
    i686, so \<^verbatim>\<open>uintptr_t\<close>, \<^verbatim>\<open>size_t\<close> and \<^verbatim>\<open>unsigned long\<close> are 32 bits wide.
  \<^item> The result type of code that can stop the machine: \<^verbatim>\<open>kpanic\<close> never returns, a failed
    \<^verbatim>\<open>assert\<close> is a \<^verbatim>\<open>kpanic\<close> (the default build is the debug build, without \<^verbatim>\<open>NDEBUG\<close>), and a
    dereference outside the objects the code owns is a fault.
  \<^item> The alignment and rounding macros of \<^verbatim>\<open>include/utils/kmacro.h\<close> at 32 bits.
  \<^item> Lemmas on words, lists and results that the component theories share.
\<close>

unbundle bit_operations_syntax

section \<open>Types\<close>

type_synonym u8 = "8 word"
type_synonym u16 = "16 word"
type_synonym u32 = "32 word"
type_synonym u64 = "64 word"

text \<open>
  How an execution can stop: \<^verbatim>\<open>kpanic\<close> (with the function that raised it), a failed
  \<^verbatim>\<open>assert\<close>, an access through a null or dangling pointer or past the end of an array, or a loop
  that never ends.
\<close>

datatype kerr = Panic string | AssertFail string | NullDeref | OutOfBounds | Diverges

type_synonym 'a kres = "kerr + 'a"

definition kbind :: "'a kres \<Rightarrow> ('a \<Rightarrow> 'b kres) \<Rightarrow> 'b kres" where
  "kbind m f = (case m of Inl e \<Rightarrow> Inl e | Inr a \<Rightarrow> f a)"

definition kassert :: "string \<Rightarrow> bool \<Rightarrow> 'a kres \<Rightarrow> 'a kres" where
  "kassert what b k = (if b then k else Inl (AssertFail what))"

section \<open>Macros of kmacro.h and memory.h\<close>

definition PAGE_SIZE :: u32 where
  "PAGE_SIZE = 4096"

definition ALIGN :: "u32 \<Rightarrow> u32 \<Rightarrow> u32" where
  "ALIGN x a = (x + (a - 1)) AND NOT (a - 1)"

definition ALIGN_DOWN :: "u32 \<Rightarrow> u32 \<Rightarrow> u32" where
  "ALIGN_DOWN x a = x AND NOT (a - 1)"

definition IS_ALIGNED :: "u32 \<Rightarrow> u32 \<Rightarrow> bool" where
  "IS_ALIGNED x a \<longleftrightarrow> ALIGN x a = x"

definition DIV_ROUND_UP :: "u32 \<Rightarrow> u32 \<Rightarrow> u32" where
  "DIV_ROUND_UP x y = (x + y - 1) div y"

definition FLAG_IS_SET :: "u32 \<Rightarrow> u32 \<Rightarrow> bool" where
  "FLAG_IS_SET flags flag \<longleftrightarrow> flags AND flag \<noteq> 0"

definition KERNEL_VADDR_BASE :: u32 where
  "KERNEL_VADDR_BASE = 0xC0000000"

text \<open>The linear map of low physical memory at \<^verbatim>\<open>KERNEL_VADDR_BASE\<close>; both directions assert.\<close>

definition PHYS_TO_VIRT_LINEAR :: "u32 \<Rightarrow> u32 kres" where
  "PHYS_TO_VIRT_LINEAR p =
     kassert ''PHYS_TO_VIRT_LINEAR'' (p \<le> NOT KERNEL_VADDR_BASE) (Inr (p + KERNEL_VADDR_BASE))"

definition VIRT_TO_PHYS_LINEAR :: "u32 \<Rightarrow> u32 kres" where
  "VIRT_TO_PHYS_LINEAR v =
     kassert ''VIRT_TO_PHYS_LINEAR'' (KERNEL_VADDR_BASE \<le> v) (Inr (v - KERNEL_VADDR_BASE))"

section \<open>Results\<close>

named_theorems kres_simps "evaluation and inversion of results"

lemma kbind_Inr [kres_simps, simp]: "kbind (Inr a) f = f a"
  by (simp add: kbind_def)

lemma kbind_Inl [kres_simps, simp]: "kbind (Inl e) f = Inl e"
  by (simp add: kbind_def)

lemma kbind_eq_Inr [kres_simps]:
  "kbind m f = Inr b \<longleftrightarrow> (\<exists>a. m = Inr a \<and> f a = Inr b)"
  by (cases m) auto

lemma kbind_eq_Inl [kres_simps]:
  "kbind m f = Inl e \<longleftrightarrow> m = Inl e \<or> (\<exists>a. m = Inr a \<and> f a = Inl e)"
  by (cases m) auto

lemma kassert_eq_Inr [kres_simps]: "kassert w b k = Inr a \<longleftrightarrow> b \<and> k = Inr a"
  by (simp add: kassert_def)

lemma kassert_True [kres_simps, simp]: "kassert w True k = k"
  by (simp add: kassert_def)

section \<open>Words\<close>

named_theorems unat_simps "unat of the operations, where they do not wrap"

lemma unat_32_bound [simp]: "unat (x :: u32) < 4294967296"
  using unsigned_less [of x] by simp

lemma unat_add_nowrap [unat_simps]:
  "unat a + unat b < 2 ^ LENGTH('a) \<Longrightarrow> unat (a + b) = unat a + unat (b :: 'a::len word)"
  by (simp add: unat_word_ariths)

lemma unat_mult_nowrap [unat_simps]:
  "unat a * unat b < 2 ^ LENGTH('a) \<Longrightarrow> unat (a * b) = unat a * unat (b :: 'a::len word)"
  by (simp add: unat_word_ariths)

lemma unat_sub_le [unat_simps]: "b \<le> a \<Longrightarrow> unat (a - b) = unat a - unat (b :: 'a::len word)"
  by (rule unat_sub)

lemma unat_suc_nowrap:
  "unat (x :: u32) + 1 < 2 ^ 32 \<Longrightarrow> unat (x + 1) = unat x + 1"
  by (simp add: unat_word_ariths)

lemma unat_of_nat_lt:
  "n < 2 ^ LENGTH('a) \<Longrightarrow> unat (of_nat n :: 'a::len word) = n"
  by (simp add: unat_of_nat take_bit_nat_eq_self)

lemma unat_of_nat32 [simp]: "n < 4294967296 \<Longrightarrow> unat (of_nat n :: u32) = n"
  by (rule unat_of_nat_lt) simp

lemma unat_neg1 [simp]: "unat (-1 :: u32) = 4294967295"
  by (simp add: unsigned_minus_1_eq_mask mask_eq_exp_minus_1)

lemma small_not_neg1: "unat x < n \<Longrightarrow> n < 2 ^ 31 \<Longrightarrow> (x :: u32) \<noteq> -1"
  by (rule notI) simp

lemma unat_and_not_mask: "unat (x AND NOT (mask n) :: u32) = unat x div 2 ^ n * 2 ^ n"
proof -
  have "x AND NOT (mask n) = push_bit n (drop_bit n x)"
    by (rule bit_eqI) (auto simp: bit_simps)
  moreover have "push_bit n (drop_bit n x) + take_bit n x = x" by (rule bits_ident)
  ultimately have "x AND NOT (mask n) = x - take_bit n x" by (metis add_diff_cancel_right')
  moreover have le: "unat (take_bit n x) = unat x mod 2 ^ n" 
    unfolding unsigned_take_bit_eq by (rule take_bit_eq_mod)
  moreover have "take_bit n x \<le> x" using le by (simp add: word_le_nat_alt)
  ultimately have "unat (x AND NOT (mask n)) = unat x - unat x mod 2 ^ n" by (simp add: unat_sub)
  then show ?thesis by (simp add: minus_mod_eq_div_mult)
qed

lemma unat_ALIGN_DOWN:
  "a = 2 ^ n \<Longrightarrow> unat (ALIGN_DOWN x a) = unat x div 2 ^ n * 2 ^ n"
  using unat_and_not_mask [of x n] by (simp add: ALIGN_DOWN_def mask_eq_exp_minus_1)

text \<open>Two masks without a common bit.\<close>

lemma disjoint_masks_bit: "m AND k = 0 \<Longrightarrow> bit (m :: 'a::len word) n \<Longrightarrow> \<not> bit k n"
  by (metis bit_and_iff bit_0_eq bot_apply bot_bool_def)

lemma mask_update:
  fixes f s m k :: "'a::len word"
  shows "(f AND NOT m OR (s AND m)) AND m = s AND m"
    and "m AND k = 0 \<Longrightarrow> (f AND NOT m OR (s AND m)) AND k = f AND k"
proof -
  show "(f AND NOT m OR (s AND m)) AND m = s AND m"
    by (rule bit_eqI) (auto simp: bit_simps)
  assume "m AND k = 0"
  from disjoint_masks_bit [OF this] show "(f AND NOT m OR (s AND m)) AND k = f AND k"
    by (intro bit_eqI) (auto simp: bit_simps)
qed

end
