(* ===== verification/List_Head.thy ===== *)
theory List_Head
  imports KPrelude
begin

text \<open>
  \<^verbatim>\<open>include/list.h\<close>: the circular doubly linked intrusive list every queue of the kernel is
  made of (free lists of the buddy allocator, slab lists, VM areas, run queue, wait queues, task
  hierarchy). Nodes live in an explicit heap from addresses to \<^verbatim>\<open>struct list_head\<close>; address 0 is
  \<^verbatim>\<open>NULL\<close> and reading or writing through it is a fault.

  \<open>dll h head xs\<close> says that the heap holds, from the sentinel \<open>head\<close>, exactly the nodes \<open>xs\<close>
  in this order. Every operation is shown to implement the operation on \<open>xs\<close> that the other
  theories use, and to leave every other list alone; the laws are collected in the locale
  \<open>intrusive_list\<close>, which this theory interprets on the heap operations.
\<close>

section \<open>Nodes and heap\<close>

record list_head =
  lh_next :: u32
  lh_prev :: u32

type_synonym lheap = "u32 \<Rightarrow> list_head"

definition rd :: "lheap \<Rightarrow> u32 \<Rightarrow> list_head kres" where
  "rd h p = (if p = 0 then Inl NullDeref else Inr (h p))"

definition wr_next :: "u32 \<Rightarrow> u32 \<Rightarrow> lheap \<Rightarrow> lheap kres" where
  "wr_next p v h = (if p = 0 then Inl NullDeref else Inr (h(p := (h p)\<lparr>lh_next := v\<rparr>)))"

definition wr_prev :: "u32 \<Rightarrow> u32 \<Rightarrow> lheap \<Rightarrow> lheap kres" where
  "wr_prev p v h = (if p = 0 then Inl NullDeref else Inr (h(p := (h p)\<lparr>lh_prev := v\<rparr>)))"

section \<open>Operations\<close>

definition INIT_SENTINEL :: "u32 \<Rightarrow> lheap \<Rightarrow> lheap kres" where
  "INIT_SENTINEL p h =
     (if p = 0 then Inl NullDeref else Inr (h(p := \<lparr>lh_next = p, lh_prev = p\<rparr>)))"

definition list_is_empty :: "u32 \<Rightarrow> lheap \<Rightarrow> bool kres" where
  "list_is_empty head h = kbind (rd h head) (\<lambda>n. Inr (head = lh_next n))"

definition list_first_entry :: "u32 \<Rightarrow> lheap \<Rightarrow> u32 kres" where
  "list_first_entry head h =
     kbind (list_is_empty head h) (\<lambda>e.
     if e then Inr 0 else kbind (rd h head) (\<lambda>n. Inr (lh_next n)))"

definition list_add_head :: "u32 \<Rightarrow> u32 \<Rightarrow> lheap \<Rightarrow> lheap kres" where
  "list_add_head new_node head h =
     kbind (rd h head) (\<lambda>hd0.
     let old_next = lh_next hd0 in
     kbind (wr_next new_node old_next h) (\<lambda>h.
     kbind (wr_prev new_node head h) (\<lambda>h.
     kbind (wr_prev old_next new_node h) (\<lambda>h.
     wr_next head new_node h))))"

definition list_node_is_linked :: "u32 \<Rightarrow> lheap \<Rightarrow> bool" where
  "list_node_is_linked node h \<longleftrightarrow>
     node \<noteq> 0 \<and> lh_next (h node) \<noteq> 0 \<and> lh_prev (h node) \<noteq> 0 \<and> lh_next (h node) \<noteq> node"

definition list_insert :: "u32 \<Rightarrow> u32 \<Rightarrow> u32 \<Rightarrow> lheap \<Rightarrow> lheap kres" where
  "list_insert new_node prev next h =
     kbind (wr_prev next new_node h) (\<lambda>h.
     kbind (wr_next new_node next h) (\<lambda>h.
     kbind (wr_prev new_node prev h) (\<lambda>h.
     wr_next prev new_node h)))"

definition list_add_tail :: "u32 \<Rightarrow> u32 \<Rightarrow> lheap \<Rightarrow> lheap kres" where
  "list_add_tail new_node head h =
     kbind (rd h head) (\<lambda>n. list_insert new_node (lh_prev n) head h)"

definition pop_node :: "u32 \<Rightarrow> lheap \<Rightarrow> lheap kres" where
  "pop_node node h =
     kbind (rd h node) (\<lambda>n.
     kbind (wr_next (lh_prev n) (lh_next n) h) (\<lambda>h.
     kbind (rd h node) (\<lambda>n.
     kbind (wr_prev (lh_next n) (lh_prev n) h) (\<lambda>h.
     kbind (wr_next node 0 h) (\<lambda>h.
     wr_prev node 0 h)))))"

text \<open>
  \<^verbatim>\<open>list_for_each_entry\<close>: the nodes visited, in order. The loop runs until it is back at the head
  and never ends on a corrupted list, so the traversal is a partial function.
\<close>

partial_function (option) list_walk :: "u32 \<Rightarrow> u32 \<Rightarrow> lheap \<Rightarrow> u32 list option" where
  "list_walk pos head h =
     (if pos = 0 \<or> pos = head then Some []
      else Option.bind (list_walk (lh_next (h pos)) head h) (\<lambda>r. Some (pos # r)))"

definition list_for_each :: "u32 \<Rightarrow> lheap \<Rightarrow> u32 list option" where
  "list_for_each head h =
     (case list_first_entry head h of Inl _ \<Rightarrow> None | Inr first \<Rightarrow> list_walk first head h)"

text \<open>\<^verbatim>\<open>list_count_nodes\<close> of the slab allocator, the length of the same traversal.\<close>

partial_function (option) list_count_from :: "u32 \<Rightarrow> u32 \<Rightarrow> lheap \<Rightarrow> u32 \<Rightarrow> u32 option" where
  "list_count_from iter head h count =
     (if iter = head then Some count
      else if iter = 0 then None
      else list_count_from (lh_next (h iter)) head h (count + 1))"

definition list_count_nodes :: "u32 \<Rightarrow> lheap \<Rightarrow> u32 option" where
  "list_count_nodes head h = list_count_from (lh_next (h head)) head h 0"

section \<open>Well-formed lists\<close>

fun lseg :: "lheap \<Rightarrow> u32 \<Rightarrow> u32 list \<Rightarrow> u32 \<Rightarrow> bool" where
  "lseg h a [] b \<longleftrightarrow> lh_next (h a) = b \<and> lh_prev (h b) = a"
| "lseg h a (x # xs) b \<longleftrightarrow> lh_next (h a) = x \<and> lh_prev (h x) = a \<and> lseg h x xs b"

definition dll :: "lheap \<Rightarrow> u32 \<Rightarrow> u32 list \<Rightarrow> bool" where
  "dll h head xs \<longleftrightarrow> lseg h head xs head \<and> distinct (head # xs) \<and> 0 \<notin> set (head # xs)"

text \<open>The heap changes at the nodes of \<open>S\<close> only.\<close>

definition changes_only :: "lheap \<Rightarrow> lheap \<Rightarrow> u32 set \<Rightarrow> bool" where
  "changes_only h h' S \<longleftrightarrow> (\<forall>p. p \<notin> S \<longrightarrow> h' p = h p)"

lemmas heap_defs = rd_def wr_next_def wr_prev_def

lemma lseg_append:
  "lseg h a (xs @ x # ys) b \<longleftrightarrow> lseg h a xs x \<and> lseg h x ys b"
  by (induction xs arbitrary: a) auto

lemma lseg_frame_next:
  "p \<notin> set (a # xs) \<Longrightarrow> lseg (h(p := (h p)\<lparr>lh_next := v\<rparr>)) a xs b = lseg h a xs b"
  by (induction xs arbitrary: a) auto

lemma lseg_frame_prev:
  "p \<notin> set (xs @ [b]) \<Longrightarrow> lseg (h(p := (h p)\<lparr>lh_prev := v\<rparr>)) a xs b = lseg h a xs b"
  by (induction xs arbitrary: a) auto

lemma lseg_cong:
  "(\<And>p. p \<in> set (a # xs) \<Longrightarrow> lh_next (h' p) = lh_next (h p)) \<Longrightarrow>
   (\<And>p. p \<in> set (xs @ [b]) \<Longrightarrow> lh_prev (h' p) = lh_prev (h p)) \<Longrightarrow>
   lseg h' a xs b = lseg h a xs b"
  by (induction xs arbitrary: a) auto

lemma dll_frame:
  assumes "dll h head xs" and "changes_only h h' S" and "S \<inter> set (head # xs) = {}"
  shows "dll h' head xs"
proof -
  have "\<And>p. p \<in> set (head # xs) \<Longrightarrow> h' p = h p"
    using assms(2,3) by (auto simp: changes_only_def)
  then have "lseg h' head xs head = lseg h head xs head"
    by (intro lseg_cong) auto
  then show ?thesis
    using assms(1) by (simp add: dll_def)
qed

lemma lseg_last_prev: "lseg h a xs b \<Longrightarrow> lh_prev (h b) = last (a # xs)"
  by (induction xs arbitrary: a) auto

lemma lseg_first_next: "lseg h a xs b \<Longrightarrow> lh_next (h a) = hd (xs @ [b])"
  by (cases xs) auto

section \<open>Each operation on a well-formed list\<close>

lemma INIT_SENTINEL_dll:
  "p \<noteq> 0 \<Longrightarrow> INIT_SENTINEL p h = Inr h' \<Longrightarrow> dll h' p []"
  by (auto simp: INIT_SENTINEL_def dll_def)

lemma list_is_empty_dll: "dll h head xs \<Longrightarrow> list_is_empty head h = Inr (xs = [])"
  by (cases xs) (auto simp: list_is_empty_def heap_defs dll_def)

lemma list_first_entry_dll:
  assumes "dll h head xs"
  shows "list_first_entry head h = Inr (case xs of [] \<Rightarrow> 0 | x # _ \<Rightarrow> x)"
proof -
  have "rd h head = Inr (h head)"
    using assms by (auto simp: rd_def dll_def)
  then show ?thesis
    using assms
    by (cases xs) (auto simp: list_first_entry_def list_is_empty_dll [OF assms] dll_def)
qed

lemma lseg_prefix:
  assumes "lseg h a (xs @ ys) b"
    and "\<And>p. p \<in> set (butlast (a # xs)) \<Longrightarrow> lh_next (h' p) = lh_next (h p)"
    and "\<And>p. p \<in> set xs \<Longrightarrow> lh_prev (h' p) = lh_prev (h p)"
    and "lh_next (h' (last (a # xs))) = n" and "lh_prev (h' n) = last (a # xs)"
  shows "lseg h' a xs n"
  using assms by (induction xs arbitrary: a) auto

lemma lseg_suffix:
  assumes "lseg h a (xs @ ys) b"
    and "lh_next (h' n) = hd (ys @ [b])" and "lh_prev (h' (hd (ys @ [b]))) = n"
    and "\<And>p. p \<in> set ys \<Longrightarrow> lh_next (h' p) = lh_next (h p)"
    and "\<And>p. p \<in> set (tl (ys @ [b])) \<Longrightarrow> lh_prev (h' p) = lh_prev (h p)"
  shows "lseg h' n ys b"
proof (cases ys)
  case Nil
  then show ?thesis using assms(2,3) by simp
next
  case (Cons y ys')
  have "lseg h y ys' b"
    using assms(1) by (simp add: Cons lseg_append)
  then have "lseg h' y ys' b"
    using lseg_cong [of y ys' h' h b] assms(4,5) Cons by auto
  then show ?thesis using assms(2,3) Cons by simp
qed

lemma hd_snoc_in: "hd (ys @ [b]) \<in> set (ys @ [b])"
  by (cases ys) auto

lemma list_insert_dll:
  assumes "dll h head (xs @ ys)" and "new \<noteq> 0" and "new \<notin> set (head # xs @ ys)"
  defines "prev \<equiv> last (head # xs)" and "next \<equiv> hd (ys @ [head])"
  shows "\<exists>h'. list_insert new prev next h = Inr h' \<and> dll h' head (xs @ new # ys)
            \<and> changes_only h h' (insert new (set (head # xs @ ys)))"
proof -
  have d: "distinct (head # xs @ ys)" "0 \<notin> set (head # xs @ ys)"
    and segs: "lseg h head (xs @ ys) head"
    using assms(1) by (auto simp: dll_def)
  have prev_in: "prev \<in> set (head # xs)" and next_in: "next \<in> set (ys @ [head])"
    unfolding prev_def next_def by (rule last_in_set, simp, rule hd_snoc_in)
  have nz: "prev \<noteq> 0" "next \<noteq> 0" "prev \<noteq> new" "next \<noteq> new"
    using prev_in next_in d assms(3) by auto
  define h' where "h' = (\<lambda>p. \<lparr>lh_next = (if p = prev then new else if p = new then next else lh_next (h p)),
     lh_prev = (if p = next then new else if p = new then prev else lh_prev (h p))\<rparr>)"
  have eq: "list_insert new prev next h = Inr h'"
    using nz assms(2) by (auto simp: list_insert_def heap_defs h'_def fun_eq_iff)
  have b: "prev \<notin> set (butlast (head # xs))"
    using d(1) unfolding prev_def
    by (metis append_butlast_last_id distinct_append distinct.simps(2) list.distinct(1)
        not_distinct_conv_prefix append_Cons)
  have t: "next \<notin> set (tl (ys @ [head]))"
    using d(1) by (cases ys) (auto simp: next_def)
  have b': "set (butlast (head # xs)) \<subseteq> set (head # xs)"
    by (meson in_set_butlastD subsetI)
  have t': "new \<notin> set (tl (ys @ [head]))"
    using assms(3) by (cases ys) auto
  have pys: "prev \<notin> set ys" and nxs: "next \<notin> set xs"
    using d(1) prev_in next_in by auto
  have "lseg h' head xs new"
    by (rule lseg_prefix [OF segs]) (use b b' nz assms(3) nxs in \<open>auto simp: h'_def prev_def\<close>)
  moreover have "lseg h' new ys head"
    by (rule lseg_suffix [OF segs])
      (use t t' nz assms(3) pys in \<open>auto simp: h'_def next_def\<close>)
  ultimately have "lseg h' head (xs @ new # ys) head"
    by (simp add: lseg_append)
  then have "dll h' head (xs @ new # ys)"
    using d assms(2,3) by (auto simp: dll_def)
  moreover have "changes_only h h' (insert new (set (head # xs @ ys)))"
    using prev_in next_in by (auto simp: changes_only_def h'_def)
  ultimately show ?thesis using eq by blast
qed

lemma list_add_head_is_insert:
  assumes "dll h head xs" and "new \<noteq> 0" and "new \<notin> set (head # xs)"
  shows "list_add_head new head h = list_insert new head (hd (xs @ [head])) h"
proof -
  have n: "lh_next (h head) = hd (xs @ [head])" "head \<noteq> 0"
    using assms(1) lseg_first_next by (auto simp: dll_def)
  moreover have "hd (xs @ [head]) \<noteq> 0" "hd (xs @ [head]) \<noteq> new"
    using assms hd_snoc_in [of xs head] by (auto simp: dll_def)
  ultimately show ?thesis
    using assms(2,3)
    by (auto simp: list_add_head_def list_insert_def heap_defs Let_def fun_eq_iff)
qed

lemma list_add_head_dll:
  assumes "dll h head xs" and "new \<noteq> 0" and "new \<notin> set (head # xs)"
  shows "\<exists>h'. list_add_head new head h = Inr h' \<and> dll h' head (new # xs)
            \<and> changes_only h h' (insert new (set (head # xs)))"
  using list_insert_dll [of h head "[]" xs new] assms list_add_head_is_insert [OF assms]
  by simp

lemma list_add_tail_dll:
  assumes "dll h head xs" and "new \<noteq> 0" and "new \<notin> set (head # xs)"
  shows "\<exists>h'. list_add_tail new head h = Inr h' \<and> dll h' head (xs @ [new])
            \<and> changes_only h h' (insert new (set (head # xs)))"
proof -
  have "lh_prev (h head) = last (head # xs)" "head \<noteq> 0"
    using assms(1) lseg_last_prev by (auto simp: dll_def)
  then have "list_add_tail new head h = list_insert new (last (head # xs)) head h"
    by (simp add: list_add_tail_def rd_def)
  then show ?thesis
    using list_insert_dll [of h head xs "[]" new] assms by simp
qed

lemma pop_node_dll:
  assumes "dll h head (xs @ x # ys)"
  shows "\<exists>h'. pop_node x h = Inr h' \<and> dll h' head (xs @ ys)
            \<and> lh_next (h' x) = 0 \<and> lh_prev (h' x) = 0
            \<and> changes_only h h' (set (head # xs @ x # ys))"
proof -
  let ?prev = "last (head # xs)" and ?next = "hd (ys @ [head])"
  have d: "distinct (head # xs @ x # ys)" "0 \<notin> set (head # xs @ x # ys)"
    and segs: "lseg h head (xs @ x # ys) head"
    using assms by (auto simp: dll_def)
  have sx: "lseg h head xs x" "lseg h x ys head"
    using segs by (simp_all add: lseg_append)
  have links: "lh_prev (h x) = ?prev" "lh_next (h x) = ?next"
    using sx lseg_last_prev lseg_first_next by blast+
  have ins: "?prev \<in> set (head # xs)" "?next \<in> set (ys @ [head])"
    by (rule last_in_set, simp, rule hd_snoc_in)
  have nz: "?prev \<noteq> 0" "?next \<noteq> 0" "?prev \<noteq> x" "?next \<noteq> x" "x \<noteq> 0"
    using ins d by auto
  define h' where "h' = (\<lambda>p. \<lparr>lh_next = (if p = ?prev then ?next else if p = x then 0 else lh_next (h p)),
     lh_prev = (if p = ?next then ?prev else if p = x then 0 else lh_prev (h p))\<rparr>)"
  have eq: "pop_node x h = Inr h'"
    using nz links by (auto simp: pop_node_def heap_defs h'_def fun_eq_iff)
  have b: "?prev \<notin> set (butlast (head # xs))"
    using d(1)
    by (metis append_butlast_last_id distinct_append distinct.simps(2) list.distinct(1)
        not_distinct_conv_prefix append_Cons)
  have b': "set (butlast (head # xs)) \<subseteq> set (head # xs)"
    by (meson in_set_butlastD subsetI)
  have out: "?prev \<notin> set ys" "?next \<notin> set xs"
    using d(1) ins by auto
  have left: "lseg h' head xs ?next"
    by (rule lseg_prefix [OF segs]) (use b b' out d nz in \<open>auto simp: h'_def\<close>)
  have "lseg h' head (xs @ ys) head"
  proof (cases ys)
    case Nil
    then show ?thesis using left by simp
  next
    case (Cons y ys')
    have "lseg h y ys' head"
      using sx(2) Cons by simp
    moreover have "lseg h' y ys' head = lseg h y ys' head"
      by (rule lseg_cong) (use d out Cons nz in \<open>auto simp: h'_def\<close>)
    ultimately have "lseg h' y ys' head" by simp
    then show ?thesis using left by (simp add: Cons lseg_append)
  qed
  then have "dll h' head (xs @ ys)"
    using d by (auto simp: dll_def)
  moreover have "changes_only h h' (set (head # xs @ x # ys))"
    using ins by (auto simp: changes_only_def h'_def)
  ultimately show ?thesis using eq nz by (auto simp: h'_def)
qed

lemma list_node_is_linked_dll:
  assumes "dll h head (xs @ x # ys)"
  shows "list_node_is_linked x h"
proof -
  have segs: "lseg h head xs x" "lseg h x ys head"
    using assms by (auto simp: dll_def lseg_append)
  then have "lh_next (h x) = hd (ys @ [head])" "lh_prev (h x) = last (head # xs)"
    using lseg_first_next lseg_last_prev by blast+
  moreover have "hd (ys @ [head]) \<in> set (ys @ [head])" "last (head # xs) \<in> set (head # xs)"
    by (rule hd_snoc_in, rule last_in_set, simp)
  ultimately show ?thesis
    using assms unfolding list_node_is_linked_def dll_def by auto
qed

section \<open>Traversal\<close>

lemma list_walk_lseg:
  "lseg h a xs head \<Longrightarrow> 0 \<notin> set xs \<Longrightarrow> head \<notin> set xs \<Longrightarrow>
   list_walk (lh_next (h a)) head h = Some xs"
proof (induction xs arbitrary: a)
  case Nil
  then show ?case by (subst list_walk.simps) simp
next
  case (Cons x xs)
  then have "list_walk (lh_next (h x)) head h = Some xs" by simp
  with Cons.prems show ?case by (subst list_walk.simps) auto
qed

lemma list_for_each_dll:
  assumes "dll h head xs"
  shows "list_for_each head h = Some xs"
proof (cases xs)
  case Nil
  then show ?thesis
    using list_first_entry_dll [OF assms] by (simp add: list_for_each_def list_walk.simps)
next
  case (Cons x ys)
  have "list_walk (lh_next (h head)) head h = Some xs"
    using assms by (intro list_walk_lseg) (auto simp: dll_def)
  moreover have "lh_next (h head) = x"
    using assms Cons by (simp add: dll_def)
  ultimately show ?thesis
    using list_first_entry_dll [OF assms] Cons by (simp add: list_for_each_def)
qed

lemma list_count_lseg:
  "lseg h a xs head \<Longrightarrow> 0 \<notin> set xs \<Longrightarrow> head \<notin> set xs \<Longrightarrow>
   list_count_from (lh_next (h a)) head h c = Some (c + of_nat (length xs))"
proof (induction xs arbitrary: a c)
  case Nil
  then show ?case by (subst list_count_from.simps) simp
next
  case (Cons x xs)
  then have "list_count_from (lh_next (h x)) head h (c + 1) = Some (c + 1 + of_nat (length xs))"
    by simp
  with Cons.prems show ?case by (subst list_count_from.simps) (auto simp: add.assoc)
qed

lemma list_count_nodes_dll:
  "dll h head xs \<Longrightarrow> list_count_nodes head h = Some (of_nat (length xs))"
  using list_count_lseg [of h head xs head 0] by (auto simp: list_count_nodes_def dll_def)

section \<open>The interface the other components rely on\<close>

text \<open>
  The contract of an intrusive list: \<open>rep h l xs\<close> relates a heap, a list handle and the nodes on
  the list. The components above this one model their queues as the sequence \<open>xs\<close> and use only
  these laws.
\<close>

locale intrusive_list =
  fixes rep :: "'h \<Rightarrow> 'n \<Rightarrow> 'n list \<Rightarrow> bool"
    and ok :: "'n \<Rightarrow> bool"
    and add_head :: "'n \<Rightarrow> 'n \<Rightarrow> 'h \<Rightarrow> 'h kres"
    and add_tail :: "'n \<Rightarrow> 'n \<Rightarrow> 'h \<Rightarrow> 'h kres"
    and pop :: "'n \<Rightarrow> 'h \<Rightarrow> 'h kres"
    and nodes :: "'n \<Rightarrow> 'h \<Rightarrow> 'n list option"
  assumes rep_distinct: "rep h l xs \<Longrightarrow> distinct (l # xs) \<and> (\<forall>x \<in> set (l # xs). ok x)"
    and add_head_rep: "rep h l xs \<Longrightarrow> ok x \<Longrightarrow> x \<notin> set (l # xs) \<Longrightarrow>
          \<exists>h'. add_head x l h = Inr h' \<and> rep h' l (x # xs) \<and>
               (\<forall>m ys. rep h m ys \<longrightarrow> set (m # ys) \<inter> insert x (set (l # xs)) = {} \<longrightarrow> rep h' m ys)"
    and add_tail_rep: "rep h l xs \<Longrightarrow> ok x \<Longrightarrow> x \<notin> set (l # xs) \<Longrightarrow>
          \<exists>h'. add_tail x l h = Inr h' \<and> rep h' l (xs @ [x]) \<and>
               (\<forall>m ys. rep h m ys \<longrightarrow> set (m # ys) \<inter> insert x (set (l # xs)) = {} \<longrightarrow> rep h' m ys)"
    and pop_rep: "rep h l (xs @ x # ys) \<Longrightarrow>
          \<exists>h'. pop x h = Inr h' \<and> rep h' l (xs @ ys) \<and>
               (\<forall>m zs. rep h m zs \<longrightarrow> set (m # zs) \<inter> set (l # xs @ x # ys) = {} \<longrightarrow> rep h' m zs)"
    and nodes_rep: "rep h l xs \<Longrightarrow> nodes l h = Some xs"
begin

lemma rep_unique: "rep h l xs \<Longrightarrow> rep h l ys \<Longrightarrow> xs = ys"
  by (metis nodes_rep option.inject)

text \<open>Putting a node back where it was taken from: push then unlink is the identity on the list.\<close>

lemma push_pop:
  assumes "rep h l xs" and "ok x" and "x \<notin> set (l # xs)" and "add_head x l h = Inr h'"
  shows "\<exists>h''. pop x h' = Inr h'' \<and> rep h'' l xs"
proof -
  have "rep h' l ([] @ x # xs)"
    using add_head_rep [OF assms(1-3)] assms(4) by auto
  from pop_rep [OF this] show ?thesis by auto
qed

text \<open>A queue built by \<open>add_tail\<close> is served in arrival order.\<close>

fun add_all :: "'n list \<Rightarrow> 'n \<Rightarrow> 'h \<Rightarrow> 'h kres" where
  "add_all [] l h = Inr h"
| "add_all (x # xs) l h = kbind (add_tail x l h) (add_all xs l)"

lemma add_all_fifo:
  "rep h l ys \<Longrightarrow> distinct (l # ys @ xs) \<Longrightarrow> (\<forall>x \<in> set xs. ok x) \<Longrightarrow>
   \<exists>h'. add_all xs l h = Inr h' \<and> nodes l h' = Some (ys @ xs)"
proof (induction xs arbitrary: h ys)
  case Nil
  then show ?case by (simp add: nodes_rep)
next
  case (Cons x xs)
  then obtain h1 where h1: "add_tail x l h = Inr h1" "rep h1 l (ys @ [x])"
    using add_tail_rep [of h l ys x] by auto
  with Cons.IH [of h1 "ys @ [x]"] Cons.prems show ?case by auto
qed

text \<open>
  Moving a node from one list to the head of another, as the slab and task code does with
  \<^verbatim>\<open>pop_node\<close> followed by \<^verbatim>\<open>list_add_head\<close>.
\<close>

lemma move_rep:
  assumes "rep h l (xs @ x # ys)" and "rep h m zs"
    and "set (l # xs @ x # ys) \<inter> set (m # zs) = {}"
  shows "\<exists>h' h''. pop x h = Inr h' \<and> add_head x m h' = Inr h'' \<and>
           rep h'' l (xs @ ys) \<and> rep h'' m (x # zs)"
proof -
  obtain h' where h': "pop x h = Inr h'" "rep h' l (xs @ ys)"
    and keep: "\<forall>m zs. rep h m zs \<longrightarrow> set (m # zs) \<inter> set (l # xs @ x # ys) = {} \<longrightarrow> rep h' m zs"
    using pop_rep [OF assms(1)] by blast
  have m: "rep h' m zs"
    using keep assms(2,3) by blast
  have x: "ok x" "x \<notin> set (m # zs)"
    using rep_distinct [OF assms(1)] assms(3) by auto
  obtain h'' where h'': "add_head x m h' = Inr h''" "rep h'' m (x # zs)"
    and keep': "\<forall>k ks. rep h' k ks \<longrightarrow> set (k # ks) \<inter> insert x (set (m # zs)) = {} \<longrightarrow> rep h'' k ks"
    using add_head_rep [OF m x] by blast
  have "set (l # xs @ ys) \<inter> insert x (set (m # zs)) = {}"
    using rep_distinct [OF assms(1)] assms(3) by auto
  with keep' h'(2) have "rep h'' l (xs @ ys)" by blast
  with h' h'' show ?thesis by blast
qed

end

interpretation lh: intrusive_list dll "\<lambda>p. p \<noteq> 0" list_add_head list_add_tail pop_node list_for_each
proof
  fix h :: lheap and l x :: u32 and xs ys :: "u32 list"
  show "dll h l xs \<Longrightarrow> distinct (l # xs) \<and> (\<forall>x \<in> set (l # xs). x \<noteq> 0)"
    by (auto simp: dll_def)
  show "dll h l xs \<Longrightarrow> list_for_each l h = Some xs"
    by (rule list_for_each_dll)
  show "dll h l xs \<Longrightarrow> x \<noteq> 0 \<Longrightarrow> x \<notin> set (l # xs) \<Longrightarrow>
    \<exists>h'. list_add_head x l h = Inr h' \<and> dll h' l (x # xs) \<and>
      (\<forall>m ys. dll h m ys \<longrightarrow> set (m # ys) \<inter> insert x (set (l # xs)) = {} \<longrightarrow> dll h' m ys)"
    using list_add_head_dll [of h l xs x] dll_frame by (metis Int_commute)
  show "dll h l xs \<Longrightarrow> x \<noteq> 0 \<Longrightarrow> x \<notin> set (l # xs) \<Longrightarrow>
    \<exists>h'. list_add_tail x l h = Inr h' \<and> dll h' l (xs @ [x]) \<and>
      (\<forall>m ys. dll h m ys \<longrightarrow> set (m # ys) \<inter> insert x (set (l # xs)) = {} \<longrightarrow> dll h' m ys)"
    using list_add_tail_dll [of h l xs x] dll_frame by (metis Int_commute)
  show "dll h l (xs @ x # ys) \<Longrightarrow>
    \<exists>h'. pop_node x h = Inr h' \<and> dll h' l (xs @ ys) \<and>
      (\<forall>m zs. dll h m zs \<longrightarrow> set (m # zs) \<inter> set (l # xs @ x # ys) = {} \<longrightarrow> dll h' m zs)"
    using pop_node_dll [of h l xs x ys] dll_frame by (metis Int_commute)
qed

section \<open>Properties\<close>

text \<open>C23. \<^verbatim>\<open>list_add_tail\<close> appends to the represented list without a fault, and every other list
  of the heap that shares no node with it stays as it was.\<close>

theorem list_add_tail_refines:
  assumes "dll h head xs" and "new \<noteq> 0" and "new \<notin> set (head # xs)"
  shows "\<exists>h'. list_add_tail new head h = Inr h' \<and> dll h' head (xs @ [new]) \<and>
    (\<forall>m ys. dll h m ys \<longrightarrow> set (m # ys) \<inter> insert new (set (head # xs)) = {} \<longrightarrow> dll h' m ys)"
  using assms by (rule lh.add_tail_rep)

definition one_node_heap :: lheap where
  "one_node_heap = (\<lambda>p. if p = 4 then \<lparr>lh_next = 8, lh_prev = 8\<rparr>
     else if p = 8 then \<lparr>lh_next = 4, lh_prev = 4\<rparr> else \<lparr>lh_next = 0, lh_prev = 0\<rparr>)"

theorem list_add_tail_refines_witness:
  "\<exists>h'. list_add_tail 12 4 one_node_heap = Inr h' \<and> dll h' 4 [8, 12]"
proof -
  have "dll one_node_heap 4 [8]" by (simp add: dll_def one_node_heap_def)
  from list_add_tail_refines [OF this, of 12] show ?thesis by auto
qed

text \<open>C24. \<^verbatim>\<open>pop_node\<close> unlinks exactly the given node, clears both of its links (so that
  \<^verbatim>\<open>list_node_is_linked\<close> no longer holds of it) and leaves the order of the others unchanged;
  no node outside the list is written, so other lists are untouched.\<close>

theorem pop_node_refines:
  assumes "dll h head (xs @ x # ys)"
  shows "\<exists>h'. pop_node x h = Inr h' \<and> dll h' head (xs @ ys) \<and>
    list_node_is_linked x h \<and> \<not> list_node_is_linked x h' \<and> h' x = \<lparr>lh_next = 0, lh_prev = 0\<rparr> \<and>
    (\<forall>p. p \<notin> set (head # xs @ x # ys) \<longrightarrow> h' p = h p) \<and>
    (\<forall>m zs. dll h m zs \<longrightarrow> set (m # zs) \<inter> set (head # xs @ x # ys) = {} \<longrightarrow> dll h' m zs)"
proof -
  obtain h' where h': "pop_node x h = Inr h'" "dll h' head (xs @ ys)" "lh_next (h' x) = 0"
    "changes_only h h' (set (head # xs @ x # ys))" "lh_prev (h' x) = 0"
    using pop_node_dll [OF assms] by blast
  have "\<forall>m zs. dll h m zs \<longrightarrow> set (m # zs) \<inter> set (head # xs @ x # ys) = {} \<longrightarrow> dll h' m zs"
    using dll_frame [OF _ h'(4)] by (metis Int_commute)
  moreover have "\<not> list_node_is_linked x h'" using h'(3) by (simp add: list_node_is_linked_def)
  moreover have "h' x = \<lparr>lh_next = 0, lh_prev = 0\<rparr>" using h'(3,5) by simp
  ultimately show ?thesis using h'(1,2) list_node_is_linked_dll [OF assms] h'(4) [unfolded changes_only_def] by blast
qed

theorem pop_node_refines_witness:
  "\<exists>h'. pop_node 8 one_node_heap = Inr h' \<and> dll h' 4 [] \<and> h' 8 = \<lparr>lh_next = 0, lh_prev = 0\<rparr>"
proof -
  have "dll one_node_heap 4 ([] @ 8 # [])" by (simp add: dll_def one_node_heap_def)
  from pop_node_refines [OF this] show ?thesis by auto
qed

end
