(* ===== verification/Lst.thy ===== *)
theory Lst
  imports KPrelude
begin

text \<open>
  \<^verbatim>\<open>lib/data_structs/lst\<close>: singly linked lists. The nodes are in a heap from addresses to \<^verbatim>\<open>t_list\<close>; an
  access through a pointer to no node is a fault. A \<^verbatim>\<open>t_list **\<close> is the pointer it points to, \<open>None\<close> when it is
  \<^verbatim>\<open>NULL\<close>. The loops run to the null pointer and are partial functions: on a cyclic list the result is
  \<open>None\<close>. The callbacks of the caller act on a state of their own, and \<open>km n\<close> is what the \<open>n\<close>-th call of \<^verbatim>\<open>kmalloc\<close>
  returns.

  Every operation is related to lists of addresses and contents (\<open>sll\<close>).
\<close>

record t_list =
  content :: u32
  lst_next :: u32

type_synonym lst_nodes = "u32 \<rightharpoonup> t_list"

record 'w lst_state =
  nodes :: lst_nodes
  lst_allocs :: nat
  world :: 'w

definition nth_node :: "lst_nodes \<Rightarrow> u32 \<Rightarrow> t_list kres" where
  "nth_node h p = (case h p of None \<Rightarrow> Inl NullDeref | Some n \<Rightarrow> Inr n)"

section \<open>Operations\<close>

partial_function (option) size_from :: "lst_nodes \<Rightarrow> u32 \<Rightarrow> u32 \<Rightarrow> u32 kres option" where
  "size_from h lst i =
     (if lst = 0 then Some (Inr i)
      else case h lst of None \<Rightarrow> Some (Inl NullDeref) | Some n \<Rightarrow> size_from h (lst_next n) (i + 1))"

definition ft_lstsize :: "u32 \<Rightarrow> lst_nodes \<Rightarrow> u32 kres option" where
  "ft_lstsize lst h = size_from h lst 0"

partial_function (option) last_from :: "lst_nodes \<Rightarrow> u32 \<Rightarrow> u32 kres option" where
  "last_from h lst =
     (case h lst of None \<Rightarrow> Some (Inl NullDeref)
      | Some n \<Rightarrow> if lst_next n = 0 then Some (Inr lst) else last_from h (lst_next n))"

definition ft_lstlast :: "u32 \<Rightarrow> lst_nodes \<Rightarrow> u32 kres option" where
  "ft_lstlast lst h = (if lst = 0 then Some (Inr 0) else last_from h lst)"

definition set_next :: "u32 \<Rightarrow> u32 \<Rightarrow> lst_nodes \<Rightarrow> lst_nodes kres" where
  "set_next p q h = kbind (nth_node h p) (\<lambda>n. Inr (h(p \<mapsto> n\<lparr>lst_next := q\<rparr>)))"

text \<open>\<^verbatim>\<open>*alst\<close> is read before \<^verbatim>\<open>alst\<close> is tested.\<close>

definition ft_lstadd_back :: "u32 option \<Rightarrow> u32 \<Rightarrow> lst_nodes \<Rightarrow> (u32 \<times> lst_nodes) kres option" where
  "ft_lstadd_back alst new h =
     (case alst of None \<Rightarrow> Some (Inl NullDeref)
      | Some l \<Rightarrow> if l \<noteq> 0
          then map_option (\<lambda>r. kbind r (\<lambda>li. kbind (set_next li new h) (\<lambda>h. Inr (l, h)))) (last_from h l)
          else Some (Inr (new, h)))"

definition ft_lstadd_front :: "u32 option \<Rightarrow> u32 \<Rightarrow> lst_nodes \<Rightarrow> (u32 option \<times> lst_nodes) kres" where
  "ft_lstadd_front alst start h =
     (case alst of None \<Rightarrow> Inr (None, h)
      | Some l \<Rightarrow> kbind (if l \<noteq> 0 then set_next start l h else Inr h) (\<lambda>h. Inr (Some start, h)))"

text \<open>The result, the new head of the list and the nodes.\<close>

definition ft_lst_pop :: "u32 option \<Rightarrow> lst_nodes \<Rightarrow> (u32 \<times> u32 \<times> lst_nodes) kres" where
  "ft_lst_pop list h =
     (case list of None \<Rightarrow> Inl NullDeref
      | Some first \<Rightarrow> if first = 0 then Inr (0, first, h)
          else kbind (nth_node h first) (\<lambda>n. kbind (set_next first 0 h) (\<lambda>h. Inr (first, lst_next n, h))))"

text \<open>The callback on the content of a node, then \<^verbatim>\<open>kfree\<close> of the node.\<close>

definition ft_lstdelone :: "(u32 \<Rightarrow> 'w \<Rightarrow> 'w) \<Rightarrow> u32 \<Rightarrow> 'w lst_state \<Rightarrow> 'w lst_state kres" where
  "ft_lstdelone del lst S =
     kbind (nth_node (nodes S) lst) (\<lambda>n.
     Inr (S\<lparr>world := del (content n) (world S), nodes := (nodes S)(lst := None)\<rparr>))"

text \<open>The loop of \<^verbatim>\<open>ft_lstclear\<close>, from \<^verbatim>\<open>li\<close> and \<^verbatim>\<open>*alst\<close>. The removal of a node there is the body of \<^verbatim>\<open>ft_lstdelone\<close>.\<close>

partial_function (option) clear_from ::
  "(u32 \<Rightarrow> 'w \<Rightarrow> 'w) \<Rightarrow> u32 \<Rightarrow> u32 \<Rightarrow> 'w lst_state \<Rightarrow> (u32 \<times> 'w lst_state) kres option" where
  "clear_from del li a S =
     (if li = 0 then Some (Inr (a, S))
      else case nodes S li of None \<Rightarrow> Some (Inl NullDeref)
      | Some n \<Rightarrow>
          (case ft_lstdelone del a S of Inl e \<Rightarrow> Some (Inl e)
           | Inr S \<Rightarrow> clear_from del (lst_next n) (lst_next n) S))"

definition ft_lstclear :: "u32 option \<Rightarrow> (u32 \<Rightarrow> 'w \<Rightarrow> 'w) \<Rightarrow> 'w lst_state \<Rightarrow> (u32 \<times> 'w lst_state) kres option" where
  "ft_lstclear alst del S =
     (case alst of None \<Rightarrow> Some (Inl NullDeref)
      | Some l \<Rightarrow> if l \<noteq> 0 then clear_from del l l S else Some (Inr (l, S)))"

partial_function (option) ft_lstiter ::
  "u32 \<Rightarrow> (u32 \<Rightarrow> 'w \<Rightarrow> 'w) \<Rightarrow> 'w lst_state \<Rightarrow> 'w lst_state kres option" where
  "ft_lstiter lst f S =
     (if lst = 0 then Some (Inr S)
      else case nodes S lst of None \<Rightarrow> Some (Inl NullDeref)
      | Some n \<Rightarrow> ft_lstiter (lst_next n) f (S\<lparr>world := f (content n) (world S)\<rparr>))"

definition ft_lstnew :: "(nat \<Rightarrow> u32) \<Rightarrow> u32 \<Rightarrow> 'w lst_state \<Rightarrow> u32 \<times> 'w lst_state" where
  "ft_lstnew km c S =
     (let li = km (lst_allocs S); S = S\<lparr>lst_allocs := lst_allocs S + 1\<rparr> in
      if li = 0 then (0, S) else (li, S\<lparr>nodes := (nodes S)(li \<mapsto> \<lparr>content = c, lst_next = 0\<rparr>)\<rparr>))"

text \<open>The failure of \<^verbatim>\<open>ft_lstmap\<close>: both lists are cleared, the second is the null pointer.\<close>

definition map_fail :: "(u32 \<Rightarrow> 'w \<Rightarrow> 'w) \<Rightarrow> u32 \<Rightarrow> 'w lst_state \<Rightarrow> (u32 \<times> 'w lst_state) kres option" where
  "map_fail del li S =
     Option.bind (ft_lstclear (Some li) del S) (\<lambda>r.
     case r of Inl e \<Rightarrow> Some (Inl e)
     | Inr (_, S) \<Rightarrow> map_option (\<lambda>r. kbind r (\<lambda>(_, S). Inr (0, S))) (ft_lstclear (Some 0) del S))"

partial_function (option) map_from ::
  "(nat \<Rightarrow> u32) \<Rightarrow> (u32 \<Rightarrow> 'w \<Rightarrow> u32 \<times> 'w) \<Rightarrow> (u32 \<Rightarrow> 'w \<Rightarrow> 'w) \<Rightarrow> u32 \<Rightarrow> u32 \<Rightarrow> 'w lst_state \<Rightarrow>
     (u32 \<times> 'w lst_state) kres option" where
  "map_from km f del lst li S =
     (if lst = 0 then Some (Inr (li, S))
      else case nodes S lst of None \<Rightarrow> Some (Inl NullDeref)
      | Some n \<Rightarrow>
          (let (c, w) = f (content n) (world S); (tmp, S) = ft_lstnew km c (S\<lparr>world := w\<rparr>) in
           if tmp = 0 then map_fail del li S
           else Option.bind (ft_lstadd_back (Some li) tmp (nodes S)) (\<lambda>r.
             case r of Inl e \<Rightarrow> Some (Inl e)
             | Inr (li, h) \<Rightarrow>
                 (case h lst of None \<Rightarrow> Some (Inl NullDeref)
                  | Some n \<Rightarrow> map_from km f del (lst_next n) li (S\<lparr>nodes := h\<rparr>)))))"

definition ft_lstmap ::
  "(nat \<Rightarrow> u32) \<Rightarrow> u32 \<Rightarrow> (u32 \<Rightarrow> 'w \<Rightarrow> u32 \<times> 'w) \<Rightarrow> (u32 \<Rightarrow> 'w \<Rightarrow> 'w) \<Rightarrow> 'w lst_state \<Rightarrow> (u32 \<times> 'w lst_state) kres option" where
  "ft_lstmap km lst f del S = (if lst \<noteq> 0 then map_from km f del lst 0 S else Some (Inr (0, S)))"

section \<open>Lists in the heap\<close>

text \<open>From \<open>p\<close> on, the nodes with these addresses and contents, up to the null pointer.\<close>

fun sll :: "lst_nodes \<Rightarrow> u32 \<Rightarrow> (u32 \<times> u32) list \<Rightarrow> bool" where
  "sll h p [] \<longleftrightarrow> p = 0"
| "sll h p ((a, c) # xs) \<longleftrightarrow> p = a \<and> a \<noteq> 0 \<and> (\<exists>n. h a = Some n \<and> content n = c \<and> sll h (lst_next n) xs)"

abbreviation addrs :: "(u32 \<times> u32) list \<Rightarrow> u32 list" where
  "addrs \<equiv> map fst"

lemma sll_null [simp]: "sll h 0 xs \<longleftrightarrow> xs = []"
  by (cases xs) auto

lemma sll_zero: "sll h p xs \<Longrightarrow> p = 0 \<longleftrightarrow> xs = []"
  by (cases xs) auto

lemma sll_cong: "(\<And>a. a \<in> set (addrs xs) \<Longrightarrow> h' a = h a) \<Longrightarrow> sll h' p xs \<longleftrightarrow> sll h p xs"
  by (induction xs arbitrary: p) auto

lemma sll_det: "sll h p xs \<Longrightarrow> sll h p ys \<Longrightarrow> xs = ys"
proof (induction xs arbitrary: p ys)
  case (Cons x xs)
  then show ?case by (cases x; cases ys) auto
qed simp

lemma sll_suffix: "sll h p (us @ (a, c) # vs) \<Longrightarrow> sll h a ((a, c) # vs)"
  by (induction us arbitrary: p) auto

lemma sll_distinct: "sll h p xs \<Longrightarrow> distinct (addrs xs)"
proof (induction xs arbitrary: p)
  case (Cons x xs)
  obtain a c where x: "x = (a, c)" by (cases x)
  have "a \<notin> set (addrs xs)"
  proof
    assume "a \<in> set (addrs xs)"
    then obtain us d vs where xs: "xs = us @ (a, d) # vs" by (auto dest!: split_list)
    have "sll h a ((a, d) # vs)" using Cons.prems sll_suffix [of h p "x # us" a d vs] by (simp add: xs)
    moreover have "sll h a ((a, c) # xs)" using Cons.prems by (simp add: x)
    ultimately have "(a, d) # vs = (a, c) # xs" by (rule sll_det)
    then show False by (simp add: xs)
  qed
  then show ?case using Cons by (auto simp: x)
qed simp

lemma sll_snoc_upd:
  assumes "sll h p (xs @ [(a, c)])" "h a = Some n" "sll h q ys" "a \<notin> set (addrs ys)"
  shows "sll (h(a \<mapsto> n\<lparr>lst_next := q\<rparr>)) p (xs @ (a, c) # ys)"
  using assms(1)
proof (induction xs arbitrary: p)
  case Nil
  have "sll (h(a \<mapsto> n\<lparr>lst_next := q\<rparr>)) q ys" using assms(3,4) by (subst sll_cong [of _ _ h]) auto
  then show ?case using Nil assms(2) by (auto simp: fun_upd_def)
next
  case (Cons x xs)
  then show ?case using sll_distinct [OF Cons.prems] by (cases x) auto
qed

section \<open>What the operations do\<close>

lemma size_from_sll: "sll h p xs \<Longrightarrow> size_from h p i = Some (Inr (i + of_nat (length xs)))"
proof (induction xs arbitrary: p i)
  case Nil
  then show ?case by (simp add: size_from.simps)
next
  case (Cons x xs)
  then show ?case by (cases x, subst size_from.simps) (auto simp: algebra_simps)
qed

lemma last_from_sll: "sll h p (xs @ [(a, c)]) \<Longrightarrow> last_from h p = Some (Inr a)"
proof (induction xs arbitrary: p)
  case Nil
  then show ?case by (auto simp: last_from.simps)
next
  case (Cons x xs)
  obtain b d where x: "x = (b, d)" by (cases x)
  then obtain n where n: "p = b" "h b = Some n" "sll h (lst_next n) (xs @ [(a, c)])" using Cons.prems by auto
  moreover have "lst_next n \<noteq> 0" using sll_zero [OF n(3)] by simp
  ultimately show ?case using Cons.IH [OF n(3)] by (simp add: last_from.simps [of h b])
qed

text \<open>The length and the last node of a list; a list that runs in a circle has no length.\<close>

theorem ft_lstsize_correct: "sll h p xs \<Longrightarrow> ft_lstsize p h = Some (Inr (of_nat (length xs)))"
  by (simp add: ft_lstsize_def size_from_sll)

theorem ft_lstlast_correct: "sll h p xs \<Longrightarrow> ft_lstlast p h = Some (Inr (if xs = [] then 0 else fst (last xs)))"
  by (cases xs rule: rev_cases) (auto simp: ft_lstlast_def sll_zero dest!: last_from_sll)

lemma size_from_circle:
  assumes "\<forall>a \<in> A. a \<noteq> 0 \<and> (\<exists>n. h a = Some n \<and> lst_next n \<in> A)" "a \<in> A"
  shows "size_from h a i = None"
proof (rule ccontr)
  assume "size_from h a i \<noteq> None"
  then obtain r where "size_from h a i = Some r" by blast
  moreover have "h' = h \<longrightarrow> a \<notin> A" if "size_from h' a i = Some r" for h' a i r
    by (rule size_from.raw_induct [of "\<lambda>h' a i r. h' = h \<longrightarrow> a \<notin> A", OF _ that])
      (use assms(1) in \<open>auto split: if_splits option.splits\<close>)
  ultimately show False using assms(2) by blast
qed

theorem ft_lstsize_circle:
  "\<forall>a \<in> A. a \<noteq> 0 \<and> (\<exists>n. h a = Some n \<and> lst_next n \<in> A) \<Longrightarrow> a \<in> A \<Longrightarrow> ft_lstsize a h = None"
  by (simp add: ft_lstsize_def size_from_circle)

lemma ft_lstadd_back_sll:
  assumes "sll h l xs" "sll h new ys" "set (addrs xs) \<inter> set (addrs ys) = {}"
  obtains l' h' where "ft_lstadd_back (Some l) new h = Some (Inr (l', h'))" "sll h' l' (xs @ ys)"
    "\<And>a. a \<notin> set (addrs xs) \<Longrightarrow> h' a = h a" "xs \<noteq> [] \<Longrightarrow> l' = l"
proof (cases xs rule: rev_cases)
  case Nil
  then show ?thesis using assms that [of new h] by (simp add: ft_lstadd_back_def)
next
  case (snoc us x)
  obtain a c where x: "x = (a, c)" by (cases x)
  have l: "sll h l (us @ [(a, c)])" using assms(1) by (simp add: snoc x)
  obtain n where n: "h a = Some n" using sll_suffix [OF l] by auto
  have "sll (h(a \<mapsto> n\<lparr>lst_next := new\<rparr>)) l (us @ (a, c) # ys)"
    by (rule sll_snoc_upd [OF l n assms(2)]) (use assms(3) in \<open>auto simp: snoc x\<close>)
  then show ?thesis
    using that [of l "h(a \<mapsto> n\<lparr>lst_next := new\<rparr>)"] last_from_sll [OF l] sll_zero [OF l] n
    by (simp add: ft_lstadd_back_def set_next_def nth_node_def snoc x)
qed

text \<open>Appending a list to another, with the nodes of the second and all others as they were.\<close>

theorem ft_lstadd_back_correct:
  assumes "sll h l xs" "sll h new ys" "set (addrs xs) \<inter> set (addrs ys) = {}"
  shows "\<exists>l' h'. ft_lstadd_back (Some l) new h = Some (Inr (l', h')) \<and> sll h' l' (xs @ ys) \<and>
    (\<forall>a. a \<notin> set (addrs xs) \<longrightarrow> h' a = h a)"
  by (rule ft_lstadd_back_sll [OF assms]) blast

text \<open>
  A node is put in front of a list that is not empty whatever it points to. In front of the empty list it keeps its pointer: the list has
  one element only if that was the null pointer.
\<close>

theorem ft_lstadd_front_correct:
  assumes "sll h l xs" "h a = Some n" "a \<noteq> 0" "a \<notin> set (addrs xs)"
  shows "\<exists>h'. ft_lstadd_front (Some l) a h = Inr (Some a, h') \<and>
    (sll h' a ((a, content n) # xs) \<longleftrightarrow> xs \<noteq> [] \<or> lst_next n = 0)"
proof (cases "l = 0")
  case True
  then show ?thesis using assms by (simp add: ft_lstadd_front_def)
next
  case False
  have "sll (h(a \<mapsto> n\<lparr>lst_next := l\<rparr>)) l xs" using assms(1,4) by (subst sll_cong [of _ _ h]) auto
  then show ?thesis using False assms sll_zero [OF assms(1)]
    by (simp add: ft_lstadd_front_def set_next_def nth_node_def)
qed

theorem ft_lst_pop_correct:
  assumes "sll h l xs"
  shows "case xs of [] \<Rightarrow> ft_lst_pop (Some l) h = Inr (0, 0, h)
    | (a, c) # ys \<Rightarrow> \<exists>l' h'. ft_lst_pop (Some l) h = Inr (a, l', h') \<and> sll h' a [(a, c)] \<and> sll h' l' ys"
proof (cases xs)
  case Nil
  then show ?thesis using assms by (simp add: ft_lst_pop_def)
next
  case (Cons x ys)
  obtain a c where x: "x = (a, c)" by (cases x)
  obtain n where n: "l = a" "a \<noteq> 0" "h a = Some n" "content n = c" "sll h (lst_next n) ys" using assms by (auto simp: Cons x)
  have "sll (h(a \<mapsto> n\<lparr>lst_next := 0\<rparr>)) (lst_next n) ys"
    using sll_distinct [OF assms] n(5) by (subst sll_cong [of _ _ h]) (auto simp: Cons x)
  then show ?thesis using n by (simp add: Cons x ft_lst_pop_def set_next_def nth_node_def)
qed

lemma ft_lstiter_sll:
  "sll (nodes S) p xs \<Longrightarrow> ft_lstiter p f S = Some (Inr (S\<lparr>world := fold f (map snd xs) (world S)\<rparr>))"
proof (induction xs arbitrary: p S)
  case Nil
  then show ?case by (simp add: ft_lstiter.simps)
next
  case (Cons x xs)
  then show ?case by (cases x, subst ft_lstiter.simps) auto
qed

definition without :: "lst_nodes \<Rightarrow> u32 set \<Rightarrow> lst_nodes" where
  "without h A = (\<lambda>a. if a \<in> A then None else h a)"

lemma without_empty [simp]: "without h {} = h"
  by (simp add: without_def)

lemma clear_from_sll:
  "sll (nodes S) p xs \<Longrightarrow> clear_from del p p S =
     Some (Inr (0, S\<lparr>nodes := without (nodes S) (set (addrs xs)), world := fold del (map snd xs) (world S)\<rparr>))"
proof (induction xs arbitrary: p S)
  case Nil
  then show ?case by (simp add: clear_from.simps without_def)
next
  case (Cons x xs)
  obtain a c where x: "x = (a, c)" by (cases x)
  obtain n where n: "p = a" "a \<noteq> 0" "nodes S a = Some n" "content n = c" "sll (nodes S) (lst_next n) xs"
    using Cons.prems by (auto simp: x)
  let ?S = "S\<lparr>world := del c (world S), nodes := (nodes S)(a := None)\<rparr>"
  have "sll (nodes ?S) (lst_next n) xs"
    using sll_distinct [OF Cons.prems] n(5) by (subst sll_cong [of _ _ "nodes S"]) (auto simp: x)
  from Cons.IH [OF this] show ?case using n
    by (subst clear_from.simps) (auto simp: x ft_lstdelone_def nth_node_def without_def fun_eq_iff)
qed

text \<open>The callback runs on every content once, in order, and exactly the nodes of the list are released.\<close>

theorem ft_lstclear_correct:
  "sll (nodes S) p xs \<Longrightarrow> ft_lstclear (Some p) del S =
     Some (Inr (0, S\<lparr>nodes := without (nodes S) (set (addrs xs)), world := fold del (map snd xs) (world S)\<rparr>))"
  by (cases "p = 0") (simp_all add: ft_lstclear_def clear_from_sll without_def)

theorem ft_lstclear_null: "ft_lstclear None del S = Some (Inl NullDeref) \<and> ft_lstadd_back None a h = Some (Inl NullDeref)"
  by (simp add: ft_lstclear_def ft_lstadd_back_def)

section \<open>Mapping\<close>

text \<open>The contents of the new list, with the effects of the callback in the order of the list.\<close>

fun lst_mapped :: "(u32 \<Rightarrow> 'w \<Rightarrow> u32 \<times> 'w) \<Rightarrow> u32 list \<Rightarrow> 'w \<Rightarrow> u32 list \<times> 'w" where
  "lst_mapped f [] w = ([], w)"
| "lst_mapped f (c # cs) w = (let (d, w) = f c w; (ds, w) = lst_mapped f cs w in (d # ds, w))"

lemma lst_mapped_Cons:
  "fst (lst_mapped f (c # cs) w) = fst (f c w) # fst (lst_mapped f cs (snd (f c w)))"
  "snd (lst_mapped f (c # cs) w) = snd (lst_mapped f cs (snd (f c w)))"
  by (simp_all add: case_prod_beta Let_def)

declare lst_mapped.simps(2) [simp del]
declare lst_mapped_Cons [simp]

lemma length_lst_mapped [simp]: "length (fst (lst_mapped f cs w)) = length cs"
  by (induction cs arbitrary: w) simp_all

lemma sll_dom: "sll h p xs \<Longrightarrow> h a = None \<Longrightarrow> a \<notin> set (addrs xs)"
  by (induction xs arbitrary: p) force+

lemma map_fail_sll:
  "sll (nodes S) p xs \<Longrightarrow> map_fail del p S =
     Some (Inr (0, S\<lparr>nodes := without (nodes S) (set (addrs xs)), world := fold del (map snd xs) (world S)\<rparr>))"
  by (simp add: map_fail_def ft_lstclear_correct)

text \<open>One round of the loop that gets a node.\<close>

lemma map_from_step:
  assumes "sll (nodes S) p ((a, c) # xs)" "sll (nodes S) li ys" "set (addrs ((a, c) # xs)) \<inter> set (addrs ys) = {}"
    and t: "km (lst_allocs S) \<noteq> 0" "nodes S (km (lst_allocs S)) = None"
  obtains q li' h where
    "map_from km f del p li S =
       map_from km f del q li' (S\<lparr>world := snd (f c (world S)), lst_allocs := lst_allocs S + 1, nodes := h\<rparr>)"
    "sll h q xs" "sll h li' (ys @ [(km (lst_allocs S), fst (f c (world S)))])"
    "\<And>b. b \<notin> set (addrs ys) \<Longrightarrow> b \<noteq> km (lst_allocs S) \<Longrightarrow> h b = nodes S b"
proof -
  let ?t = "km (lst_allocs S)" and ?d = "fst (f c (world S))"
  let ?h = "(nodes S)(?t \<mapsto> \<lparr>content = ?d, lst_next = 0\<rparr>)"
  obtain n where n: "p = a" "a \<noteq> 0" "nodes S a = Some n" "content n = c" "sll (nodes S) (lst_next n) xs" using assms(1) by auto
  have nt: "?t \<notin> set (addrs ys)" "?t \<notin> set (addrs xs)" "?t \<noteq> a"
    using sll_dom [OF assms(2) t(2)] sll_dom [OF n(5) t(2)] n(3) t(2) by auto
  have "sll ?h li ys" by (subst sll_cong [of _ _ "nodes S"]) (use nt(1) assms(2) in \<open>auto simp del: set_map\<close>)
  moreover have "sll ?h ?t [(?t, ?d)]" using t(1) by simp
  ultimately obtain li' h where h: "ft_lstadd_back (Some li) ?t ?h = Some (Inr (li', h))" "sll h li' (ys @ [(?t, ?d)])"
    "\<And>b. b \<notin> set (addrs ys) \<Longrightarrow> h b = ?h b"
    by (rule ft_lstadd_back_sll) (use nt(1) in \<open>auto simp del: set_map\<close>)
  have "h a = Some n" using h(3) [of a] assms(3) nt(3) n(3) by simp
  moreover have "sll h (lst_next n) xs"
  proof (subst sll_cong [of _ _ "nodes S"])
    fix b
    assume "b \<in> set (addrs xs)"
    then have "b \<notin> set (addrs ys)" "b \<noteq> ?t" using assms(3) nt(2) by (auto simp del: set_map)
    then show "h b = nodes S b" using h(3) [of b] by simp
  qed (rule n(5))
  moreover have "h b = nodes S b" if "b \<notin> set (addrs ys)" "b \<noteq> ?t" for b using h(3) [OF that(1)] that(2) by simp
  ultimately show thesis
    using h(1,2) n t(1) by (intro that [of "lst_next n" li' h], subst map_from.simps)
      (simp_all add: ft_lstnew_def case_prod_beta Let_def)
qed

lemma map_from_ok:
  assumes "sll (nodes S) p xs" "sll (nodes S) li ys" "set (addrs xs) \<inter> set (addrs ys) = {}"
    and "\<forall>i \<in> {lst_allocs S..<lst_allocs S + length xs}. km i \<noteq> 0 \<and> nodes S (km i) = None"
    and "inj_on km {lst_allocs S..<lst_allocs S + length xs}"
  shows "\<exists>l S'. map_from km f del p li S = Some (Inr (l, S')) \<and>
    sll (nodes S') l (ys @ zip (map km [lst_allocs S..<lst_allocs S + length xs]) (fst (lst_mapped f (map snd xs) (world S)))) \<and>
    world S' = snd (lst_mapped f (map snd xs) (world S)) \<and>
    (\<forall>b. b \<notin> set (addrs ys) \<and> b \<notin> km ` {lst_allocs S..<lst_allocs S + length xs} \<longrightarrow> nodes S' b = nodes S b)"
  using assms
proof (induction xs arbitrary: p li ys S)
  case Nil
  then show ?case by (simp add: map_from.simps)
next
  case (Cons x xs)
  obtain a c where x: "x = (a, c)" by (cases x)
  let ?n = "lst_allocs S" and ?t = "km (lst_allocs S)"
  have t: "?t \<noteq> 0" "nodes S ?t = None" using Cons.prems(4) by auto
  obtain q li' h where h: "map_from km f del p li S =
       map_from km f del q li' (S\<lparr>world := snd (f c (world S)), lst_allocs := ?n + 1, nodes := h\<rparr>)" (is "_ = map_from _ _ _ _ _ ?S")
    "sll h q xs" "sll h li' (ys @ [(?t, fst (f c (world S)))])"
    "\<And>b. b \<notin> set (addrs ys) \<Longrightarrow> b \<noteq> ?t \<Longrightarrow> h b = nodes S b"
    using map_from_step [of S p a c xs li ys km f del] Cons.prems(1-3) t by (auto simp: x)
  have nt: "?t \<notin> set (addrs xs)" using sll_dom [OF Cons.prems(1) t(2)] by (simp add: x)
  have later: "km i \<noteq> 0 \<and> h (km i) = None" if "i \<in> {Suc ?n..<Suc ?n + length xs}" for i
  proof -
    have i: "km i \<noteq> 0" "nodes S (km i) = None" using Cons.prems(4) that by auto
    moreover have "km i \<noteq> ?t" using inj_onD [OF Cons.prems(5), of i ?n] that by auto
    moreover have "km i \<notin> set (addrs ys)" using sll_dom [OF Cons.prems(2) i(2)] .
    ultimately show ?thesis using h(4) by simp
  qed
  have "inj_on km {Suc ?n..<Suc ?n + length xs}" by (rule inj_on_subset [OF Cons.prems(5)]) auto
  then have "\<exists>l S'. map_from km f del q li' ?S = Some (Inr (l, S')) \<and>
    sll (nodes S') l ((ys @ [(?t, fst (f c (world S)))]) @
      zip (map km [Suc ?n..<Suc ?n + length xs]) (fst (lst_mapped f (map snd xs) (snd (f c (world S)))))) \<and>
    world S' = snd (lst_mapped f (map snd xs) (snd (f c (world S)))) \<and>
    (\<forall>b. b \<notin> set (addrs (ys @ [(?t, fst (f c (world S)))])) \<and> b \<notin> km ` {Suc ?n..<Suc ?n + length xs} \<longrightarrow> nodes S' b = h b)"
    using Cons.IH [of ?S q li' "ys @ [(?t, fst (f c (world S)))]"] h(2,3) Cons.prems(3) nt later by (simp add: x)
  moreover have "{?n..<?n + length (x # xs)} = insert ?n {Suc ?n..<Suc ?n + length xs}" by auto
  ultimately show ?case using h(1,4) by (auto simp: x upt_conv_Cons simp del: upt_Suc)
qed

lemma map_from_fail:
  assumes "sll (nodes S) p xs" "sll (nodes S) li ys" "set (addrs xs) \<inter> set (addrs ys) = {}" "k < length xs"
    and "\<forall>i \<in> {lst_allocs S..<lst_allocs S + k}. km i \<noteq> 0 \<and> nodes S (km i) = None"
    and "inj_on km {lst_allocs S..<lst_allocs S + k}" "km (lst_allocs S + k) = 0"
  shows "map_from km f del p li S = Some (Inr (0, S\<lparr>nodes := without (nodes S) (set (addrs ys)),
    lst_allocs := lst_allocs S + k + 1,
    world := fold del (map snd ys @ fst (lst_mapped f (map snd (take k xs)) (world S))) (snd (lst_mapped f (map snd (take (Suc k) xs)) (world S)))\<rparr>))"
  using assms
proof (induction k arbitrary: xs p li ys S)
  case 0
  obtain a c zs where xs: "xs = (a, c) # zs" using 0(4) by (cases xs) auto
  then obtain n where "p = a" "a \<noteq> 0" "nodes S a = Some n" "content n = c" using 0(1) by auto
  then show ?case using 0(2,7) by (subst map_from.simps)
    (simp add: xs ft_lstnew_def case_prod_beta Let_def map_fail_sll [of _ _ ys])
next
  case (Suc k)
  obtain a c zs where xs: "xs = (a, c) # zs" using Suc.prems(4) by (cases xs) auto
  let ?n = "lst_allocs S" and ?t = "km (lst_allocs S)"
  have t: "?t \<noteq> 0" "nodes S ?t = None" using Suc.prems(5) by auto
  obtain q li' h where h: "map_from km f del p li S =
       map_from km f del q li' (S\<lparr>world := snd (f c (world S)), lst_allocs := ?n + 1, nodes := h\<rparr>)" (is "_ = map_from _ _ _ _ _ ?S")
    "sll h q zs" "sll h li' (ys @ [(?t, fst (f c (world S)))])"
    "\<And>b. b \<notin> set (addrs ys) \<Longrightarrow> b \<noteq> ?t \<Longrightarrow> h b = nodes S b"
    using map_from_step [of S p a c zs li ys km f del] Suc.prems(1-3) t by (auto simp: xs)
  have nt: "?t \<notin> set (addrs zs)" using sll_dom [OF Suc.prems(1) t(2)] by (simp add: xs)
  have later: "km i \<noteq> 0 \<and> h (km i) = None" if "i \<in> {Suc ?n..<Suc ?n + k}" for i
  proof -
    have i: "km i \<noteq> 0" "nodes S (km i) = None" using Suc.prems(5) that by auto
    moreover have "km i \<noteq> ?t" using inj_onD [OF Suc.prems(6), of i ?n] that by auto
    moreover have "km i \<notin> set (addrs ys)" using sll_dom [OF Suc.prems(2) i(2)] .
    ultimately show ?thesis using h(4) by simp
  qed
  have "inj_on km {Suc ?n..<Suc ?n + k}" by (rule inj_on_subset [OF Suc.prems(6)]) auto
  moreover have "without h (insert ?t (set (addrs ys))) = without (nodes S) (set (addrs ys))"
    using h(4) t(2) by (auto simp: without_def fun_eq_iff)
  ultimately show ?case
    using Suc.IH [of ?S q zs li' "ys @ [(?t, fst (f c (world S)))]"] h Suc.prems(3,4,7) nt later by (simp add: xs)
qed

text \<open>
  Mapping a list is all or nothing. When there is memory for every node, the result is a new list of the contents the
  callback gave, and the old list is as it was. When the allocation of the node \<open>k\<close> fails, the result is the null pointer,
  the nodes are those from before, and \<open>del\<close> has run on the contents of the nodes that were built, but not
  on the one the callback gave last.
\<close>

theorem ft_lstmap_ok:
  assumes "sll (nodes S) p xs" "inj_on km {i. km i \<noteq> 0}" "\<forall>i. km i = 0 \<or> nodes S (km i) = None"
    and "\<forall>i < length xs. km (lst_allocs S + i) \<noteq> 0"
  shows "\<exists>l S' as. ft_lstmap km p f del S = Some (Inr (l, S')) \<and> sll (nodes S') p xs \<and>
    length as = length xs \<and> sll (nodes S') l (zip as (fst (lst_mapped f (map snd xs) (world S)))) \<and>
    world S' = snd (lst_mapped f (map snd xs) (world S))"
proof (cases "p = 0")
  case True
  then show ?thesis using assms(1) by (simp add: ft_lstmap_def)
next
  case False
  let ?I = "{lst_allocs S..<lst_allocs S + length xs}"
  have k: "km i \<noteq> 0 \<and> nodes S (km i) = None" if "i \<in> ?I" for i
    using assms(3,4) that by (metis atLeastLessThan_iff nat_add_left_cancel_less le_Suc_ex)
  have "inj_on km ?I" by (rule inj_on_subset [OF assms(2)]) (use k in auto)
  then obtain l S' where S': "map_from km f del p 0 S = Some (Inr (l, S'))"
    "sll (nodes S') l (zip (map km [lst_allocs S..<lst_allocs S + length xs]) (fst (lst_mapped f (map snd xs) (world S))))"
    "world S' = snd (lst_mapped f (map snd xs) (world S))" "\<And>b. b \<notin> km ` ?I \<Longrightarrow> nodes S' b = nodes S b"
    using map_from_ok [of S p xs 0 "[]" km f del] assms(1) k by auto
  moreover have "sll (nodes S') p xs"
  proof (subst sll_cong [of _ _ "nodes S"])
    fix b
    assume "b \<in> set (addrs xs)"
    then have "b \<notin> km ` ?I" using sll_dom [OF assms(1)] k by (auto simp del: set_map)
    then show "nodes S' b = nodes S b" by (rule S'(4))
  qed (rule assms(1))
  ultimately show ?thesis using False by (auto simp: ft_lstmap_def intro!: exI [of _ "map km [lst_allocs S..<lst_allocs S + length xs]"])
qed

theorem ft_lstmap_fail:
  assumes "sll (nodes S) p xs" "inj_on km {i. km i \<noteq> 0}" "\<forall>i. km i = 0 \<or> nodes S (km i) = None"
    and "k < length xs" "\<forall>i < k. km (lst_allocs S + i) \<noteq> 0" "km (lst_allocs S + k) = 0"
  shows "ft_lstmap km p f del S = Some (Inr (0, S\<lparr>lst_allocs := lst_allocs S + k + 1,
    world := fold del (fst (lst_mapped f (map snd (take k xs)) (world S))) (snd (lst_mapped f (map snd (take (Suc k) xs)) (world S)))\<rparr>))"
proof -
  let ?I = "{lst_allocs S..<lst_allocs S + k}"
  have k: "km i \<noteq> 0 \<and> nodes S (km i) = None" if "i \<in> ?I" for i
    using assms(3,5) that by (metis atLeastLessThan_iff nat_add_left_cancel_less le_Suc_ex)
  have "inj_on km ?I" by (rule inj_on_subset [OF assms(2)]) (use k in auto)
  then show ?thesis
    using map_from_fail [of S p xs 0 "[]" k km f del] assms(1,4,6) k sll_zero [OF assms(1)] by (auto simp: ft_lstmap_def)
qed

theorem ft_lstmap_fail_witness:
  fixes f :: "u32 \<Rightarrow> u32 list \<Rightarrow> u32 \<times> u32 list" and del :: "u32 \<Rightarrow> u32 list \<Rightarrow> u32 list"
  defines "S \<equiv> \<lparr>nodes = [0x10 \<mapsto> \<lparr>content = 1, lst_next = 0x20\<rparr>, 0x20 \<mapsto> \<lparr>content = 2, lst_next = 0\<rparr>], lst_allocs = 0, world = []\<rparr>"
    and "km \<equiv> \<lambda>i. if i = 0 then 0x30 else 0" and "f \<equiv> \<lambda>c w. (c + 10, w)" and "del \<equiv> \<lambda>c w. c # w"
  shows "ft_lstmap km 0x10 f del S = Some (Inr (0, S\<lparr>lst_allocs := 2, world := [11]\<rparr>))"
proof -
  have "sll (nodes S) 0x10 [(0x10, 1), (0x20, 2)]" by (simp add: S_def)
  moreover have "inj_on km {i. km i \<noteq> 0}" by (auto simp: km_def inj_on_def)
  ultimately show ?thesis
    using ft_lstmap_fail [of S "0x10" "[(0x10, 1), (0x20, 2)]" km 1 f del] by (simp add: S_def km_def f_def del_def)
qed

end
