(* ===== verification/Libk.thy ===== *)
theory Libk
  imports KPrelude
begin

text \<open>
  \<^verbatim>\<open>lib/libk\<close>: the memory and string routines of the kernel, over a memory of bytes addressed by
  32-bit pointers. Pointer arithmetic wraps at 4 GiB as it does on the target. A loop that is bounded by
  a length is a recursion on it; a loop that runs to a null byte is a partial function, so that a
  string without a null byte is the result \<open>None\<close>. A plain \<^verbatim>\<open>char\<close> is signed.
\<close>

type_synonym bmem = "u32 \<Rightarrow> u8"

section \<open>Characters\<close>

definition ft_isalpha :: "int \<Rightarrow> bool" where
  "ft_isalpha c \<longleftrightarrow> (65 \<le> c \<and> c \<le> 90) \<or> (97 \<le> c \<and> c \<le> 122)"

definition ft_isdigit :: "int \<Rightarrow> bool" where
  "ft_isdigit c \<longleftrightarrow> 48 \<le> c \<and> c \<le> 57"

definition ft_isalnum :: "int \<Rightarrow> bool" where
  "ft_isalnum c \<longleftrightarrow> ft_isalpha c \<or> ft_isdigit c"

definition ft_isascii :: "int \<Rightarrow> bool" where
  "ft_isascii c \<longleftrightarrow> 0 \<le> c \<and> c \<le> 127"

definition ft_isprint :: "int \<Rightarrow> bool" where
  "ft_isprint c \<longleftrightarrow> 32 \<le> c \<and> c \<le> 126"

definition ft_isspace :: "int \<Rightarrow> bool" where
  "ft_isspace c \<longleftrightarrow> c = 32 \<or> c = 9 \<or> c = 11 \<or> c = 10 \<or> c = 12 \<or> c = 13"

definition ft_tolower :: "int \<Rightarrow> int" where
  "ft_tolower c = (if 65 \<le> c \<and> c \<le> 90 then c + 32 else c)"

definition ft_toupper :: "int \<Rightarrow> int" where
  "ft_toupper c = (if 97 \<le> c \<and> c \<le> 122 then c - 32 else c)"

section \<open>Memory\<close>

fun memset_loop :: "u32 \<Rightarrow> u8 \<Rightarrow> nat \<Rightarrow> bmem \<Rightarrow> bmem" where
  "memset_loop s c 0 m = m"
| "memset_loop s c (Suc n) m = memset_loop s c n (m(s + of_nat n := c))"

definition ft_memset :: "u32 \<Rightarrow> int \<Rightarrow> u32 \<Rightarrow> bmem \<Rightarrow> bmem" where
  "ft_memset s c n m = memset_loop s (of_int c) (unat n) m"

definition ft_bzero :: "u32 \<Rightarrow> u32 \<Rightarrow> bmem \<Rightarrow> bmem" where
  "ft_bzero s n m = ft_memset s 0 n m"

fun memcpy_loop :: "u32 \<Rightarrow> u32 \<Rightarrow> nat \<Rightarrow> bmem \<Rightarrow> bmem" where
  "memcpy_loop d s 0 m = m"
| "memcpy_loop d s (Suc n) m = memcpy_loop (d + 1) (s + 1) n (m(d := m s))"

definition ft_memcpy :: "u32 \<Rightarrow> u32 \<Rightarrow> u32 \<Rightarrow> bmem \<Rightarrow> bmem" where
  "ft_memcpy dest src n m = memcpy_loop dest src (unat n) m"

text \<open>\<^verbatim>\<open>ft_memmove\<close>: upwards from index \<open>i\<close> when the destination is below, downwards when above.\<close>

fun memmove_up :: "u32 \<Rightarrow> u32 \<Rightarrow> nat \<Rightarrow> nat \<Rightarrow> bmem \<Rightarrow> bmem" where
  "memmove_up dest src i 0 m = m"
| "memmove_up dest src i (Suc k) m = memmove_up dest src (i + 1) k (m(dest + of_nat i := m (src + of_nat i)))"

fun memmove_down :: "u32 \<Rightarrow> u32 \<Rightarrow> nat \<Rightarrow> bmem \<Rightarrow> bmem" where
  "memmove_down dest src 0 m = m"
| "memmove_down dest src (Suc n) m = memmove_down dest src n (m(dest + of_nat n := m (src + of_nat n)))"

definition ft_memmove :: "u32 \<Rightarrow> u32 \<Rightarrow> u32 \<Rightarrow> bmem \<Rightarrow> bmem" where
  "ft_memmove dest src n m =
     (if dest < src then memmove_up dest src 0 (unat n) m
      else if src < dest then memmove_down dest src (unat n) m
      else m)"

fun memchr_loop :: "u32 \<Rightarrow> u8 \<Rightarrow> nat \<Rightarrow> nat \<Rightarrow> bmem \<Rightarrow> u32" where
  "memchr_loop s c i 0 m = 0"
| "memchr_loop s c i (Suc k) m = (if m (s + of_nat i) = c then s + of_nat i else memchr_loop s c (i + 1) k m)"

definition ft_memchr :: "u32 \<Rightarrow> int \<Rightarrow> u32 \<Rightarrow> bmem \<Rightarrow> u32" where
  "ft_memchr s c n m = memchr_loop s (of_int c) 0 (unat n) m"

fun memcmp_loop :: "u32 \<Rightarrow> u32 \<Rightarrow> nat \<Rightarrow> nat \<Rightarrow> bmem \<Rightarrow> int" where
  "memcmp_loop s1 s2 i 0 m = 0"
| "memcmp_loop s1 s2 i (Suc k) m =
     (if m (s1 + of_nat i) \<noteq> m (s2 + of_nat i) then uint (m (s1 + of_nat i)) - uint (m (s2 + of_nat i))
      else memcmp_loop s1 s2 (i + 1) k m)"

definition ft_memcmp :: "u32 \<Rightarrow> u32 \<Rightarrow> u32 \<Rightarrow> bmem \<Rightarrow> int" where
  "ft_memcmp s1 s2 n m = memcmp_loop s1 s2 0 (unat n) m"

section \<open>Strings\<close>

text \<open>The loop \<^verbatim>\<open>while (s[i]) i++\<close>.\<close>

partial_function (option) strlen_from :: "bmem \<Rightarrow> u32 \<Rightarrow> u32 \<Rightarrow> u32 option" where
  "strlen_from m s i = (if m (s + i) = 0 then Some i else strlen_from m s (i + 1))"

definition ft_strlen :: "u32 \<Rightarrow> bmem \<Rightarrow> u32 option" where
  "ft_strlen s m = strlen_from m s 0"

text \<open>\<^verbatim>\<open>ft_strslen\<close> counts the pointers of an array up to the null pointer.\<close>

partial_function (option) strslen_from :: "(u32 \<Rightarrow> u32) \<Rightarrow> u32 \<Rightarrow> u32 option" where
  "strslen_from str i = (if str i = 0 then Some i else strslen_from str (i + 1))"

definition ft_strslen :: "(u32 \<Rightarrow> u32) \<Rightarrow> u32 option" where
  "ft_strslen str = strslen_from str 0"

definition ft_strchr :: "u32 \<Rightarrow> int \<Rightarrow> bmem \<Rightarrow> u32 option" where
  "ft_strchr s c m = map_option (\<lambda>l. ft_memchr s c (l + 1) m) (ft_strlen s m)"

fun strrchr_loop :: "u32 \<Rightarrow> u8 \<Rightarrow> nat \<Rightarrow> bmem \<Rightarrow> u32" where
  "strrchr_loop s c 0 m = 0"
| "strrchr_loop s c (Suc i) m = (if m (s + of_nat i) = c then s + of_nat i else strrchr_loop s c i m)"

definition ft_strrchr :: "u32 \<Rightarrow> int \<Rightarrow> bmem \<Rightarrow> u32 option" where
  "ft_strrchr s c m = map_option (\<lambda>l. strrchr_loop s (of_int c) (unat (l + 1)) m) (ft_strlen s m)"

definition ft_strequ :: "u32 \<Rightarrow> u32 \<Rightarrow> bmem \<Rightarrow> bool option" where
  "ft_strequ s1 s2 m =
     Option.bind (ft_strlen s1 m) (\<lambda>len1. Option.bind (ft_strlen s2 m) (\<lambda>len2.
       Some (if len1 \<noteq> len2 then False else ft_memcmp s1 s2 (len1 + 1) m = 0)))"

partial_function (option) striteri_from :: "u32 \<Rightarrow> (u32 \<Rightarrow> u32 \<Rightarrow> bmem \<Rightarrow> bmem) \<Rightarrow> u32 \<Rightarrow> bmem \<Rightarrow> bmem option" where
  "striteri_from s f i m = (if m (s + i) = 0 then Some m else striteri_from s f (i + 1) (f i (s + i) m))"

definition ft_striteri :: "u32 \<Rightarrow> (u32 \<Rightarrow> u32 \<Rightarrow> bmem \<Rightarrow> bmem) option \<Rightarrow> bmem \<Rightarrow> bmem option" where
  "ft_striteri s f m = (case f of None \<Rightarrow> Some m | Some f \<Rightarrow> if s = 0 then Some m else striteri_from s f 0 m)"

text \<open>\<^verbatim>\<open>ft_strlcpy\<close>: the copying loop returns the index it stopped at.\<close>

partial_function (option) strlcpy_loop :: "u32 \<Rightarrow> u32 \<Rightarrow> u32 \<Rightarrow> u32 \<Rightarrow> bmem \<Rightarrow> (u32 \<times> bmem) option" where
  "strlcpy_loop dst src dsize i m =
     (if m (src + i) \<noteq> 0 \<and> i < dsize - 1 then strlcpy_loop dst src dsize (i + 1) (m(dst + i := m (src + i)))
      else Some (i, m(dst + i := 0)))"

definition ft_strlcpy :: "u32 \<Rightarrow> u32 \<Rightarrow> u32 \<Rightarrow> bmem \<Rightarrow> (u32 \<times> bmem) option" where
  "ft_strlcpy dst src dsize m =
     Option.bind (if 0 < dsize then strlcpy_loop dst src dsize 0 m else Some (0, m)) (\<lambda>(i, m).
     map_option (\<lambda>l. (l, m)) (strlen_from m src i))"

partial_function (option) strlcat_dst_len :: "u32 \<Rightarrow> u32 \<Rightarrow> u32 \<Rightarrow> bmem \<Rightarrow> u32 option" where
  "strlcat_dst_len dst dsize i m =
     (if m (dst + i) \<noteq> 0 \<and> i < dsize then strlcat_dst_len dst dsize (i + 1) m else Some i)"

partial_function (option) strlcat_loop :: "u32 \<Rightarrow> u32 \<Rightarrow> u32 \<Rightarrow> u32 \<Rightarrow> u32 \<Rightarrow> bmem \<Rightarrow> (u32 \<times> bmem) option" where
  "strlcat_loop dst src dsize i j m =
     (if m (src + j) \<noteq> 0 \<and> i < dsize - 1 then strlcat_loop dst src dsize (i + 1) (j + 1) (m(dst + i := m (src + j)))
      else Some (i, m))"

definition ft_strlcat :: "u32 \<Rightarrow> u32 \<Rightarrow> u32 \<Rightarrow> bmem \<Rightarrow> (u32 \<times> bmem) option" where
  "ft_strlcat dst src dsize m =
     (if src = 0 then Some (0, m)
      else Option.bind (strlcat_dst_len dst dsize 0 m) (\<lambda>dst_len.
        Option.bind (strlen_from m src 0) (\<lambda>src_len.
        if dst_len = dsize then Some (dsize + src_len, m)
        else Option.bind (strlcat_loop dst src dsize dst_len 0 m) (\<lambda>(i, m).
          Some (dst_len + src_len, if i < dsize then m(dst + i := 0) else m)))))"

text \<open>\<^verbatim>\<open>ft_strncmp\<close>: after the loop the bytes at the index it stopped at are compared, also when it stopped at \<open>n\<close>.\<close>

fun strncmp_loop :: "u32 \<Rightarrow> u32 \<Rightarrow> nat \<Rightarrow> nat \<Rightarrow> bmem \<Rightarrow> int" where
  "strncmp_loop s1 s2 i 0 m =
     (if m (s1 + of_nat i) \<noteq> m (s2 + of_nat i) then uint (m (s1 + of_nat i)) - uint (m (s2 + of_nat i)) else 0)"
| "strncmp_loop s1 s2 i (Suc k) m =
     (if m (s1 + of_nat i) \<noteq> 0 \<and> m (s2 + of_nat i) \<noteq> 0 \<and> m (s1 + of_nat i) = m (s2 + of_nat i)
      then strncmp_loop s1 s2 (i + 1) k m
      else if m (s1 + of_nat i) \<noteq> m (s2 + of_nat i) then uint (m (s1 + of_nat i)) - uint (m (s2 + of_nat i)) else 0)"

definition ft_strncmp :: "u32 \<Rightarrow> u32 \<Rightarrow> u32 \<Rightarrow> bmem \<Rightarrow> int" where
  "ft_strncmp s1 s2 n m = strncmp_loop s1 s2 0 (unat n) m"

text \<open>\<^verbatim>\<open>ft_strnstr\<close>: the inner loop returns the length of the match at \<open>i\<close>.\<close>

partial_function (option) strnstr_match :: "u32 \<Rightarrow> u32 \<Rightarrow> u32 \<Rightarrow> u32 \<Rightarrow> u32 \<Rightarrow> bmem \<Rightarrow> u32 option" where
  "strnstr_match str seg len i l m =
     (if m (seg + l) \<noteq> 0 \<and> m (str + (i + l)) = m (seg + l) \<and> i + l < len then strnstr_match str seg len i (l + 1) m
      else Some l)"

partial_function (option) strnstr_loop :: "u32 \<Rightarrow> u32 \<Rightarrow> u32 \<Rightarrow> u32 \<Rightarrow> bmem \<Rightarrow> u32 option" where
  "strnstr_loop str seg len i m =
     (if m (str + i) \<noteq> 0 \<and> i < len then
        Option.bind (strnstr_match str seg len i 0 m) (\<lambda>l.
        if m (seg + l) = 0 then Some (str + i) else strnstr_loop str seg len (i + 1) m)
      else Some 0)"

definition ft_strnstr :: "u32 \<Rightarrow> u32 \<Rightarrow> u32 \<Rightarrow> bmem \<Rightarrow> u32 option" where
  "ft_strnstr str seg len m =
     (if m seg = 0 then Some str else if len \<noteq> 0 then strnstr_loop str seg len 0 m else Some 0)"

text \<open>
  \<^verbatim>\<open>ft_atoi\<close>: the accumulator is a 32-bit \<^verbatim>\<open>int\<close>, kept here as its two's complement word.
\<close>

partial_function (option) atoi_spaces :: "bmem \<Rightarrow> u32 \<Rightarrow> u32 \<Rightarrow> u32 option" where
  "atoi_spaces m p i = (if ft_isspace (sint (m (p + i))) then atoi_spaces m p (i + 1) else Some i)"

partial_function (option) atoi_digits :: "bmem \<Rightarrow> u32 \<Rightarrow> u32 \<Rightarrow> u32 \<Rightarrow> u32 option" where
  "atoi_digits m p i num =
     (if ft_isdigit (sint (m (p + i))) then atoi_digits m p (i + 1) (num * 10 + of_int (sint (m (p + i)) - 48))
      else Some num)"

definition ft_atoi :: "u32 \<Rightarrow> bmem \<Rightarrow> int option" where
  "ft_atoi nptr m =
     Option.bind (atoi_spaces m nptr 0) (\<lambda>i.
     let c = m (nptr + i);
         sig = (if c = 45 then - 1 else 1 :: u32);
         i = (if c = 45 \<or> c = 43 then i + 1 else i) in
     map_option (\<lambda>num. sint (num * sig)) (atoi_digits m nptr i 0))"

end
