(* ===== verification/Libutils.thy ===== *)
theory Libutils
  imports Libk
begin

text \<open>
  \<^verbatim>\<open>lib/libutils\<close>: number formatting and the string functions that allocate their result. The
  allocator is a parameter \<open>km\<close>: it takes a size and the memory and returns a pointer, 0 when there is
  no memory, and the memory after the allocation, as \<^verbatim>\<open>kmalloc\<close> does.
\<close>

type_synonym allocator = "u32 \<Rightarrow> bmem \<Rightarrow> u32 \<times> bmem"

definition ft_calloc :: "allocator \<Rightarrow> u32 \<Rightarrow> u32 \<Rightarrow> bmem \<Rightarrow> u32 \<times> bmem" where
  "ft_calloc kmz count sz m = kmz (count * sz) m"

section \<open>Numbers\<close>

text \<open>The loop \<^verbatim>\<open>while (n != 0) { i++; n /= 10; }\<close> of a non-negative number.\<close>

fun count_digits :: "nat \<Rightarrow> nat" where
  "count_digits n = (if n = 0 then 0 else Suc (count_digits (n div 10)))"

declare count_digits.simps [simp del]

definition intlen :: "int \<Rightarrow> int" where
  "intlen n = (if n = 0 then 1 else int (count_digits (nat \<bar>n\<bar>)) + (if n < 0 then 1 else 0))"

fun makeit_loop :: "u32 \<Rightarrow> u32 \<Rightarrow> u32 \<Rightarrow> nat \<Rightarrow> bmem \<Rightarrow> bmem" where
  "makeit_loop str neg i n m =
     (if n \<noteq> 0 \<and> neg \<le> i then makeit_loop str neg (i - 1) (n div 10) (m(str + i := of_nat (n mod 10) + 48)) else m)"

declare makeit_loop.simps [simp del]

definition makeit :: "int \<Rightarrow> u32 \<Rightarrow> bmem \<Rightarrow> bmem" where
  "makeit n str m =
     (let i = of_int (intlen n); m = m(str + i := 0); i = i - 1 in
      if n < 0 then makeit_loop str 1 i (nat (- n)) (m(str := 45))
      else makeit_loop str 0 i (nat n) (if n = 0 then m(str := 48) else m))"

definition ft_itoa :: "allocator \<Rightarrow> int \<Rightarrow> bmem \<Rightarrow> u32 \<times> bmem" where
  "ft_itoa km n m =
     (let (str, m) = km (of_int (intlen n) + 1) m in
      if str = 0 then (0, m) else (str, makeit n str m))"

text \<open>\<^verbatim>\<open>ft_itoa_base\<close>: the divisions are by the length of \<^verbatim>\<open>base\<close>, which is computed anew each time;
  a base with fewer than two digits makes the loops run forever or divide by 0.\<close>

partial_function (option) countlen_loop :: "u64 \<Rightarrow> u64 \<Rightarrow> u32 \<Rightarrow> u32 option" where
  "countlen_loop nb len i = (if nb \<noteq> 0 then if len = 0 then None else countlen_loop (nb div len) len (i + 1) else Some i)"

definition ft_countlen :: "u64 \<Rightarrow> u32 \<Rightarrow> bmem \<Rightarrow> u32 option" where
  "ft_countlen nb base m =
     (if nb = 0 then Some 1 else Option.bind (ft_strlen base m) (\<lambda>len. countlen_loop nb (ucast len) 0))"

partial_function (option) makebase_loop :: "u64 \<Rightarrow> u64 \<Rightarrow> u32 \<Rightarrow> u32 \<Rightarrow> u32 \<Rightarrow> bmem \<Rightarrow> bmem option" where
  "makebase_loop nb len base str i m =
     (if nb \<noteq> 0 then if len = 0 then None
        else makebase_loop (nb div len) len base str (i - 1) (m(str + i := m (base + ucast (nb mod len))))
      else Some m)"

definition makebase :: "u64 \<Rightarrow> u32 \<Rightarrow> u32 \<Rightarrow> bmem \<Rightarrow> bmem option" where
  "makebase nb base str m =
     Option.bind (ft_countlen nb base m) (\<lambda>i.
     let m = m(str + i := 0); i = i - 1 in
     if nb = 0 then Some (m(str + i := 48))
     else Option.bind (ft_strlen base m) (\<lambda>len. makebase_loop nb (ucast len) base str i m))"

definition ft_itoa_base :: "allocator \<Rightarrow> u64 \<Rightarrow> u32 \<Rightarrow> bmem \<Rightarrow> (u32 \<times> bmem) option" where
  "ft_itoa_base km nb base m =
     Option.bind (ft_countlen nb base m) (\<lambda>l.
     let (str, m) = km (l + 1) m in
     if str = 0 then Some (0, m) else map_option (Pair str) (makebase nb base str m))"

section \<open>Strings in new memory\<close>

text \<open>The loop \<^verbatim>\<open>while (src[j]) str[i++] = src[j++]\<close>; it returns both indices.\<close>

partial_function (option) copy_str :: "u32 \<Rightarrow> u32 \<Rightarrow> u32 \<Rightarrow> u32 \<Rightarrow> bmem \<Rightarrow> (u32 \<times> bmem) option" where
  "copy_str str i src j m =
     (if m (src + j) = 0 then Some (i, m) else copy_str str (i + 1) src (j + 1) (m(str + i := m (src + j))))"

definition ft_strdup :: "allocator \<Rightarrow> u32 \<Rightarrow> bmem \<Rightarrow> (u32 \<times> bmem) option" where
  "ft_strdup km src m =
     Option.bind (ft_strlen src m) (\<lambda>l.
     let (str, m) = km (l + 1) m in
     if str = 0 then Some (0, m)
     else Option.bind (copy_str str 0 src 0 m) (\<lambda>(i, m). Some (str, m(str + i := 0))))"

definition ft_strjoin :: "allocator \<Rightarrow> u32 \<Rightarrow> u32 \<Rightarrow> bmem \<Rightarrow> (u32 \<times> bmem) option" where
  "ft_strjoin km s1 s2 m =
     (if s1 = 0 then Some (0, m)
      else Option.bind (ft_strlen s1 m) (\<lambda>l1. Option.bind (ft_strlen s2 m) (\<lambda>l2.
        let (str, m) = km (l1 + l2 + 1) m in
        if str = 0 then Some (0, m)
        else Option.bind (copy_str str 0 s1 0 m) (\<lambda>(i, m).
          Option.bind (copy_str str i s2 0 m) (\<lambda>(i, m). Some (str, m(str + i := 0)))))))"

text \<open>\<^verbatim>\<open>ft_join_and_free\<close> frees neither string; without \<open>s2\<close> a string allocated for \<open>s1\<close> is lost.\<close>

definition ft_join_and_free :: "allocator \<Rightarrow> allocator \<Rightarrow> u32 \<Rightarrow> u32 \<Rightarrow> bmem \<Rightarrow> (u32 \<times> bmem) option" where
  "ft_join_and_free km kmz s1 s2 m =
     (let (s1, m) = (if s1 = 0 then ft_calloc kmz 1 1 m else (s1, m)) in
      if s1 = 0 \<or> s2 = 0 then Some (0, m)
      else Option.bind (ft_strlen s1 m) (\<lambda>l1. Option.bind (ft_strlen s2 m) (\<lambda>l2.
        let (join, m) = km (l1 + l2 + 1) m in
        if join = 0 then Some (0, m)
        else Option.bind (copy_str join 0 s1 0 m) (\<lambda>(i, m).
          Option.bind (copy_str join i s2 0 m) (\<lambda>(i, m). Some (join, m(join + i := 0)))))))"

partial_function (option) strmapi_loop :: "u32 \<Rightarrow> u32 \<Rightarrow> (u32 \<Rightarrow> u8 \<Rightarrow> u8) \<Rightarrow> u32 \<Rightarrow> bmem \<Rightarrow> (u32 \<times> bmem) option" where
  "strmapi_loop str s f i m =
     (if m (s + i) = 0 then Some (i, m) else strmapi_loop str s f (i + 1) (m(str + i := f i (m (s + i)))))"

definition ft_strmapi :: "allocator \<Rightarrow> u32 \<Rightarrow> (u32 \<Rightarrow> u8 \<Rightarrow> u8) \<Rightarrow> bmem \<Rightarrow> (u32 \<times> bmem) option" where
  "ft_strmapi km s f m =
     (if s = 0 then Some (0, m)
      else Option.bind (ft_strlen s m) (\<lambda>l.
        let (str, m) = km (l + 1) m in
        if str = 0 then Some (0, m)
        else Option.bind (strmapi_loop str s f 0 m) (\<lambda>(i, m). Some (str, m(str + i := 0)))))"

text \<open>The loop \<^verbatim>\<open>while (i < len && s[start]) str[i++] = s[start++]\<close>.\<close>

partial_function (option) substr_loop :: "u32 \<Rightarrow> u32 \<Rightarrow> u32 \<Rightarrow> u32 \<Rightarrow> u32 \<Rightarrow> bmem \<Rightarrow> (u32 \<times> bmem) option" where
  "substr_loop str i len s start m =
     (if i < len \<and> m (s + start) \<noteq> 0 then substr_loop str (i + 1) len s (start + 1) (m(str + i := m (s + start)))
      else Some (i, m))"

definition ft_substr :: "allocator \<Rightarrow> allocator \<Rightarrow> u32 \<Rightarrow> u32 \<Rightarrow> u32 \<Rightarrow> bmem \<Rightarrow> (u32 \<times> bmem) option" where
  "ft_substr km kmz s start len m =
     (if s = 0 then Some (0, m)
      else Option.bind (ft_strlen s m) (\<lambda>l.
        if l \<le> start then Some (ft_calloc kmz 1 1 m)
        else if l < len then ft_strdup km (s + start) m
        else let (str, m) = km (len + 1) m in
          if str = 0 then Some (0, m)
          else Option.bind (substr_loop str 0 len s start m) (\<lambda>(i, m). Some (str, m(str + i := 0)))))"

text \<open>\<^verbatim>\<open>ft_strtrim\<close>\<close>

partial_function (option) is_sep_from :: "u8 \<Rightarrow> u32 \<Rightarrow> u32 \<Rightarrow> bmem \<Rightarrow> bool option" where
  "is_sep_from c charset i m =
     (if m (charset + i) = 0 then Some False
      else if c = m (charset + i) then Some True else is_sep_from c charset (i + 1) m)"

definition is_sep :: "u8 \<Rightarrow> u32 \<Rightarrow> bmem \<Rightarrow> bool option" where
  "is_sep c charset m = is_sep_from c charset 0 m"

partial_function (option) end_charset_loop :: "u32 \<Rightarrow> u32 \<Rightarrow> u32 \<Rightarrow> u32 \<Rightarrow> bmem \<Rightarrow> u32 option" where
  "end_charset_loop s charset j i m =
     Option.bind (is_sep (m (s + j)) charset m) (\<lambda>sep. if sep then end_charset_loop s charset (j - 1) (i + 1) m else Some i)"

definition end_charset :: "u32 \<Rightarrow> u32 \<Rightarrow> bmem \<Rightarrow> u32 option" where
  "end_charset s charset m = Option.bind (ft_strlen s m) (\<lambda>l. end_charset_loop s charset (l - 1) 0 m)"

partial_function (option) skip_seps :: "u32 \<Rightarrow> u32 \<Rightarrow> u32 \<Rightarrow> bmem \<Rightarrow> u32 option" where
  "skip_seps s charset i m =
     Option.bind (is_sep (m (s + i)) charset m) (\<lambda>sep. if sep then skip_seps s charset (i + 1) m else Some i)"

partial_function (option) strtrim_copy :: "u32 \<Rightarrow> u32 \<Rightarrow> u32 \<Rightarrow> u32 \<Rightarrow> u32 \<Rightarrow> bmem \<Rightarrow> (u32 \<times> bmem) option" where
  "strtrim_copy str j s i k m =
     Option.bind (ft_strlen s m) (\<lambda>l.
     if i < l - k then strtrim_copy str (j + 1) s (i + 1) k (m(str + j := m (s + i))) else Some (j, m))"

definition ft_strtrim :: "allocator \<Rightarrow> u32 \<Rightarrow> u32 \<Rightarrow> bmem \<Rightarrow> (u32 \<times> bmem) option" where
  "ft_strtrim km s charset m =
     (if s = 0 then Some (0, m)
      else Option.bind (ft_strlen s m) (\<lambda>j. Option.bind (end_charset s charset m) (\<lambda>k.
        Option.bind (skip_seps s charset 0 m) (\<lambda>i.
        let k = (if i = j then 0 else k); (str, m) = km (j - (k + i) + 1) m in
        if str = 0 then Some (0, m)
        else Option.bind (strtrim_copy str 0 s i k m) (\<lambda>(j, m). Some (str, m(str + j := 0)))))))"

section \<open>Splitting\<close>

fun strndup_loop :: "u32 \<Rightarrow> u32 \<Rightarrow> nat \<Rightarrow> nat \<Rightarrow> bmem \<Rightarrow> bmem" where
  "strndup_loop dest s i 0 m = m(dest + of_nat i := 0)"
| "strndup_loop dest s i (Suc k) m = strndup_loop dest s (i + 1) k (m(dest + of_nat i := m (s + of_nat i)))"

definition ft_strndup :: "allocator \<Rightarrow> u32 \<Rightarrow> u32 \<Rightarrow> bmem \<Rightarrow> u32 \<times> bmem" where
  "ft_strndup km s n m =
     (let (dest, m) = km (n + 1) m in if dest = 0 then (0, m) else (dest, strndup_loop dest s 0 (unat n) m))"

partial_function (option) countwords_loop :: "u32 \<Rightarrow> u8 \<Rightarrow> u32 \<Rightarrow> u32 \<Rightarrow> bmem \<Rightarrow> u32 option" where
  "countwords_loop str sep i len m =
     (if m (str + i) = 0 then Some len
      else countwords_loop str sep (i + 1)
        (if m (str + i) = sep \<and> m (str + (i + 1)) \<noteq> sep \<and> m (str + (i + 1)) \<noteq> 0 then len + 1 else len) m)"

definition ft_countwords :: "u32 \<Rightarrow> u8 \<Rightarrow> bmem \<Rightarrow> u32 option" where
  "ft_countwords str sep m =
     Option.bind (ft_strlen str m) (\<lambda>l.
     if l = 0 then Some 0 else countwords_loop str sep 0 (if m str \<noteq> sep then 1 else 0) m)"

partial_function (option) word_len :: "u32 \<Rightarrow> u8 \<Rightarrow> u32 \<Rightarrow> u32 \<Rightarrow> bmem \<Rightarrow> u32 option" where
  "word_len str sep i len m =
     (if m (str + (i + len)) \<noteq> sep \<and> m (str + (i + len)) \<noteq> 0 then word_len str sep i (len + 1) m else Some len)"

text \<open>
  The main loop; the pointers written into \<^verbatim>\<open>tab\<close> are returned as a list. \<open>i\<close> is the index after the
  increment of \<^verbatim>\<open>while (str[++i])\<close>.
\<close>

partial_function (option) split_loop :: "allocator \<Rightarrow> u32 \<Rightarrow> u8 \<Rightarrow> u32 \<Rightarrow> bmem \<Rightarrow> (u32 list \<times> bmem) option" where
  "split_loop km str sep i m =
     (if m (str + i) = 0 then Some ([], m)
      else if m (str + i) \<noteq> sep then
        Option.bind (word_len str sep i 0 m) (\<lambda>len_word.
        let (w, m) = ft_strndup km (str + i) len_word m in
        Option.bind (split_loop km str sep (i + len_word) m) (\<lambda>(ws, m). Some (w # ws, m)))
      else split_loop km str sep (i + 1) m)"

definition ft_split :: "allocator \<Rightarrow> allocator \<Rightarrow> u32 \<Rightarrow> u8 \<Rightarrow> bmem \<Rightarrow> (u32 list option \<times> bmem) option" where
  "ft_split km kmz str sep m =
     (if str = 0 then Some (None, m)
      else Option.bind (ft_countwords str sep m) (\<lambda>n.
        let (tab, m) = ft_calloc kmz 4 (n + 1) m in
        if tab = 0 then Some (None, m)
        else Option.bind (split_loop km str sep 0 m) (\<lambda>(ws, m). Some (Some ws, m))))"

text \<open>
  \<^verbatim>\<open>ft_free_strs\<close> frees the strings of an array and then the array. \<open>kf\<close> is \<^verbatim>\<open>kfree\<close> on the state of the heap, \<open>str\<close> the pointers
  of the array \<^verbatim>\<open>tab\<close>.
\<close>

partial_function (option) free_strs_from :: "(u32 \<Rightarrow> 's \<Rightarrow> 's kres) \<Rightarrow> (u32 \<Rightarrow> u32) \<Rightarrow> u32 \<Rightarrow> u32 \<Rightarrow> 's \<Rightarrow> 's kres option" where
  "free_strs_from kf str tab i s =
     (if str i = 0 then Some (kf tab s)
      else case kf (str i) s of Inl e \<Rightarrow> Some (Inl e) | Inr s \<Rightarrow> free_strs_from kf str tab (i + 1) s)"

definition ft_free_strs :: "(u32 \<Rightarrow> 's \<Rightarrow> 's kres) \<Rightarrow> (u32 \<Rightarrow> u32) \<Rightarrow> u32 \<Rightarrow> 's \<Rightarrow> 's kres option" where
  "ft_free_strs kf str tab s = free_strs_from kf str tab 0 s"

text \<open>It ends when the array has a null pointer, and frees each string before it once, in order, and the array last.\<close>

fun free_each :: "(u32 \<Rightarrow> 's \<Rightarrow> 's kres) \<Rightarrow> u32 list \<Rightarrow> 's \<Rightarrow> 's kres" where
  "free_each kf [] s = Inr s"
| "free_each kf (p # ps) s = kbind (kf p s) (free_each kf ps)"

lemma ft_free_strs_correct:
  assumes "str (of_nat n) = 0" "\<forall>i < n. str (of_nat i) \<noteq> 0"
  shows "ft_free_strs kf str tab s = Some (free_each kf (map (\<lambda>i. str (of_nat i)) [0..<n] @ [tab]) s)"
proof -
  have "free_strs_from kf str tab (of_nat k) s = Some (free_each kf (map (\<lambda>i. str (of_nat i)) [k..<n] @ [tab]) s)" if "k \<le> n" for k s
    using that
  proof (induction "n - k" arbitrary: k s)
    case 0
    then show ?case using assms(1) by (subst free_strs_from.simps) (simp add: kbind_def split: sum.split)
  next
    case (Suc d)
    then have k: "k < n" "[k..<n] = k # [Suc k..<n]" by (simp_all add: upt_conv_Cons)
    have IH: "free_strs_from kf str tab (of_nat (Suc k)) s = Some (free_each kf (map (\<lambda>i. str (of_nat i)) [Suc k..<n] @ [tab]) s)" for s
      using Suc(1) [of "Suc k"] Suc(2) k(1) by simp
    show ?case
      using assms(2) k IH by (subst free_strs_from.simps) (simp add: kbind_def add.commute split: sum.split)
  qed
  from this [of 0 s] show ?thesis by (simp add: ft_free_strs_def)
qed

end
