(* ===== verification/Libk_Spec.thy ===== *)
theory Libk_Spec
  imports Libutils
begin

text \<open>
  What the memory and string routines compute: block moves and copies pointwise, bounded string copy,
  the round trip between \<^verbatim>\<open>ft_itoa\<close> and \<^verbatim>\<open>ft_atoi\<close>, and the comparison of bounded strings.
\<close>

section \<open>Pointers\<close>

text \<open>An address relative to a base.\<close>

definition within :: "u32 \<Rightarrow> nat \<Rightarrow> u32 \<Rightarrow> bool" where
  "within p n a \<longleftrightarrow> unat p \<le> unat a \<and> unat a < unat p + n"

lemma unat_ptr: "unat p + i < 2 ^ 32 \<Longrightarrow> unat (p + of_nat i :: u32) = unat p + i"
  by (subst unat_add_nowrap) simp_all

lemma ptr_eq: "unat p + i < 2 ^ 32 \<Longrightarrow> a = p + of_nat i \<longleftrightarrow> unat (a :: u32) = unat p + i"
  using unat_ptr [of p i] by (metis word_unat_eq_iff)

lemma unat_rebase:
  assumes "unat p \<le> unat a" and "unat q + (unat a - unat p) < 2 ^ 32"
  shows "unat (q + (a - p) :: u32) = unat q + (unat a - unat p)"
proof -
  have "unat (a - p) = unat a - unat p" using assms(1) by (simp add: unat_sub word_le_nat_alt)
  then show ?thesis using assms(2) by (simp add: unat_add_nowrap)
qed

lemma rebase: "q + (p + of_nat i - p) = q + (of_nat i :: u32)"
  by simp

section \<open>Block moves\<close>

lemma memset_loop_spec: "memset_loop s c n m a = (if \<exists>i < n. a = s + of_nat i then c else m a)"
proof (induction n arbitrary: m)
  case (Suc n)
  have "(\<exists>i < Suc n. a = s + of_nat i) \<longleftrightarrow> a = s + of_nat n \<or> (\<exists>i < n. a = s + of_nat i)" by (auto simp: less_Suc_eq)
  then show ?case unfolding memset_loop.simps Suc.IH by (simp only: fun_upd_apply) auto
qed simp

lemma memmove_up_spec:
  assumes "unat src + i + k \<le> 2 ^ 32" and "unat dest < unat src"
  shows "memmove_up dest src i k m a =
    (if unat dest + i \<le> unat a \<and> unat a < unat dest + i + k then m (src + (a - dest)) else m a)"
  using assms(1)
proof (induction k arbitrary: i m)
  case 0
  then show ?case by auto
next
  case (Suc k)
  let ?m = "m(dest + of_nat i := m (src + of_nat i))"
  have inb: "unat dest + i < 2 ^ 32" using Suc.prems assms(2) by simp
  note d = ptr_eq [OF inb, of a]
  have IH: "memmove_up dest src (i + 1) k ?m a =
      (if unat dest + (i + 1) \<le> unat a \<and> unat a < unat dest + (i + 1) + k then ?m (src + (a - dest)) else ?m a)"
    by (rule Suc.IH) (use Suc.prems in simp)
  show ?case
  proof (cases "unat dest + (i + 1) \<le> unat a \<and> unat a < unat dest + (i + 1) + k")
    case True
    have "unat (src + (a - dest)) = unat src + (unat a - unat dest)"
      by (rule unat_rebase) (use True Suc.prems in auto)
    then have "src + (a - dest) \<noteq> dest + of_nat i"
      unfolding ptr_eq [OF inb] using True assms(2) by linarith
    then show ?thesis using IH True by simp
  next
    case False
    then show ?thesis using IH d by auto
  qed
qed

lemma memmove_down_spec:
  assumes "unat dest + n \<le> 2 ^ 32" and "unat src < unat dest"
  shows "memmove_down dest src n m a =
    (if unat dest \<le> unat a \<and> unat a < unat dest + n then m (src + (a - dest)) else m a)"
  using assms(1)
proof (induction n arbitrary: m)
  case 0
  then show ?case by auto
next
  case (Suc n)
  let ?m = "m(dest + of_nat n := m (src + of_nat n))"
  have inb: "unat dest + n < 2 ^ 32" using Suc.prems by simp
  note d = ptr_eq [OF inb, of a]
  have IH: "memmove_down dest src n ?m a =
      (if unat dest \<le> unat a \<and> unat a < unat dest + n then ?m (src + (a - dest)) else ?m a)"
    by (rule Suc.IH) (use Suc.prems in simp)
  show ?case
  proof (cases "unat dest \<le> unat a \<and> unat a < unat dest + n")
    case True
    have "unat (src + (a - dest)) = unat src + (unat a - unat dest)"
      by (rule unat_rebase) (use True Suc.prems assms(2) in auto)
    then have "src + (a - dest) \<noteq> dest + of_nat n"
      unfolding ptr_eq [OF inb] using True assms(2) by linarith
    then show ?thesis using IH True by simp
  next
    case False
    then show ?thesis using IH d by auto
  qed
qed

lemma memcpy_loop_spec:
  assumes "unat s + n \<le> 2 ^ 32" and "unat d + n \<le> 2 ^ 32" and "unat d \<le> unat s \<or> unat s + n \<le> unat d"
  shows "memcpy_loop d s n m a = (if within d n a then m (s + (a - d)) else m a)"
  using assms
proof (induction n arbitrary: d s m)
  case 0
  then show ?case by (auto simp: within_def)
next
  case (Suc n)
  let ?m = "m(d := m s)"
  show ?case
  proof (cases "n = 0")
    case True
    then show ?thesis using word_unat_eq_iff [of a d] by (cases "a = d") (auto simp: within_def)
  next
    case False
    have s1: "unat (d + 1) = unat d + 1" "unat (s + 1) = unat s + 1"
      using Suc.prems False by (simp_all add: unat_suc_nowrap)
    have IH: "memcpy_loop (d + 1) (s + 1) n ?m a = (if within (d + 1) n a then ?m (s + 1 + (a - (d + 1))) else ?m a)"
      by (rule Suc.IH) (use Suc.prems s1 in auto)
    have e: "s + 1 + (a - (d + 1)) = s + (a - d)" by simp
    show ?thesis
    proof (cases "within (d + 1) n a")
      case True
      have "unat (s + (a - d)) = unat s + (unat a - unat d)"
        by (rule unat_rebase) (use True Suc.prems s1 in \<open>auto simp: within_def\<close>)
      then have "unat (s + (a - d)) \<noteq> unat d" using True Suc.prems(3) s1 unfolding within_def by linarith
      then have "s + (a - d) \<noteq> d" by metis
      then show ?thesis using IH True e s1 by (simp add: within_def)
    next
      case False
      then show ?thesis using IH s1 word_unat_eq_iff [of a d] by (cases "a = d") (auto simp: within_def)
    qed
  qed
qed

lemma memmove_pointwise:
  assumes "unat dest + unat n \<le> 2 ^ 32" and "unat src + unat n \<le> 2 ^ 32"
  shows "ft_memmove dest src n m = (\<lambda>a. if within dest (unat n) a then m (src + (a - dest)) else m a)"
proof
  fix a
  consider "unat dest < unat src" | "unat src < unat dest" | "dest = src" by (meson linorder_neqE_nat word_unat_eq_iff)
  then show "ft_memmove dest src n m a = (if within dest (unat n) a then m (src + (a - dest)) else m a)"
    by cases (use memmove_up_spec [of src 0 "unat n" dest m a] memmove_down_spec [of dest "unat n" src m a] assms in
      \<open>simp_all add: ft_memmove_def word_less_nat_alt within_def\<close>)
qed

text \<open>C27. \<^verbatim>\<open>ft_memmove\<close> moves a block as if through a copy of it, however source and destination overlap:
  afterwards the destination holds the bytes the source held before and every other byte is unchanged.\<close>

theorem ft_memmove_correct:
  assumes "unat dest + unat n \<le> 2 ^ 32" and "unat src + unat n \<le> 2 ^ 32"
  shows "ft_memmove dest src n m = (\<lambda>a. if within dest (unat n) a then m (src + (a - dest)) else m a)"
  using assms by (rule memmove_pointwise)

theorem ft_memmove_correct_witness:
  "ft_memmove 0x1001 0x1000 3 (\<lambda>a. ucast a) 0x1002 = 1"
  using ft_memmove_correct [of "0x1001" 3 "0x1000" "\<lambda>a. ucast a"] by (simp add: within_def)

text \<open>\<^verbatim>\<open>ft_memcpy\<close> agrees with \<^verbatim>\<open>ft_memmove\<close> whenever the destination does not start inside the
  source.\<close>

theorem ft_memcpy_equals_memmove:
  assumes "unat dest + unat n \<le> 2 ^ 32" and "unat src + unat n \<le> 2 ^ 32"
    and "unat dest \<le> unat src \<or> unat src + unat n \<le> unat dest"
  shows "ft_memcpy dest src n m = ft_memmove dest src n m"
  unfolding memmove_pointwise [OF assms(1,2)] ft_memcpy_def by (rule ext) (rule memcpy_loop_spec [OF assms(2,1,3)])

theorem ft_memcpy_equals_memmove_witness:
  "ft_memcpy 0x1000 0x1001 3 (\<lambda>a. ucast a) = ft_memmove 0x1000 0x1001 3 (\<lambda>a. ucast a)"
  using ft_memcpy_equals_memmove [of "0x1000" 3 "0x1001" "\<lambda>a. ucast a"] by simp

section \<open>Strings\<close>

text \<open>The bytes \<open>xs\<close>, none of them null, followed by a null byte, without wrapping.\<close>

definition cstr :: "bmem \<Rightarrow> u32 \<Rightarrow> u8 list \<Rightarrow> bool" where
  "cstr m s xs \<longleftrightarrow> unat s + length xs < 2 ^ 32 \<and> 0 \<notin> set xs \<and>
     (\<forall>i < length xs. m (s + of_nat i) = xs ! i) \<and> m (s + of_nat (length xs)) = 0"

lemma cstr_nz: "cstr m s xs \<Longrightarrow> i < length xs \<Longrightarrow> m (s + of_nat i) \<noteq> 0"
  unfolding cstr_def by (metis nth_mem)

lemma cstr_cong: "(\<And>i. i \<le> length xs \<Longrightarrow> m' (s + of_nat i) = m (s + of_nat i)) \<Longrightarrow> cstr m s xs \<Longrightarrow> cstr m' s xs"
  by (simp add: cstr_def)

lemma strlen_from_spec:
  assumes "cstr m s xs" and "i \<le> length xs"
  shows "strlen_from m s (of_nat i) = Some (of_nat (length xs))"
  using assms(2)
proof (induction "length xs - i" arbitrary: i)
  case 0
  then show ?case using assms(1) by (subst strlen_from.simps) (simp add: cstr_def)
next
  case (Suc k)
  then have i: "i < length xs" by simp
  then have "m (s + of_nat i) \<noteq> 0" using assms(1) by (rule_tac cstr_nz)
  then show ?case using Suc.hyps(1) [of "Suc i"] Suc.hyps(2) i by (subst strlen_from.simps) (simp add: add.commute)
qed

lemma ft_strlen_spec: "cstr m s xs \<Longrightarrow> ft_strlen s m = Some (of_nat (length xs))"
  using strlen_from_spec [of m s xs 0] by (simp add: ft_strlen_def)

text \<open>The copying loop of \<^verbatim>\<open>ft_strlcpy\<close> from index \<open>i\<close> on.\<close>

lemma strlcpy_loop_spec:
  assumes "cstr m src xs" and "unat dst + unat dsize \<le> 2 ^ 32" and "0 < unat dsize"
    and "i \<le> min (length xs) (unat dsize - 1)"
    and "\<And>a. within dst (unat dsize) a \<Longrightarrow> \<not> within src (length xs + 1) a"
    and "k = min (length xs) (unat dsize - 1)"
  shows "strlcpy_loop dst src dsize (of_nat i) m = Some (of_nat k,
    (\<lambda>a. if unat dst + i \<le> unat a \<and> unat a < unat dst + k then m (src + (a - dst)) else if unat a = unat dst + k then 0 else m a))"
  using assms(1,4)
proof (induction "k - i" arbitrary: i m)
  case 0
  then have i: "i = k" using assms(6) by (intro le_antisym) simp_all
  have ub: "unat (of_nat i :: u32) = i" using 0(3) unat_32_bound [of dsize] by (intro unat_of_nat32) linarith
  have "\<not> (m (src + of_nat i) \<noteq> 0 \<and> (of_nat i :: u32) < dsize - 1)"
  proof (cases "length xs \<le> unat dsize - 1")
    case True
    then show ?thesis using 0(2) i assms(6) by (simp add: cstr_def)
  next
    case False
    then have "unat (of_nat i :: u32) = unat dsize - 1" using i assms(6) ub by simp
    moreover have "unat (dsize - 1) = unat dsize - 1" using assms(3) by (simp add: unat_sub word_le_nat_alt Suc_le_eq)
    ultimately show ?thesis by (simp add: word_less_nat_alt)
  qed
  then have "strlcpy_loop dst src dsize (of_nat i) m = Some (of_nat i, m(dst + of_nat i := 0))"
    by (subst strlcpy_loop.simps) (simp only: if_False)
  moreover have "m(dst + of_nat i := 0) = (\<lambda>a. if unat a = unat dst + k then 0 else m a)"
  proof -
    have "unat dst + k < 2 ^ 32" using 0(3) assms(2,3) i by linarith
    from ptr_eq [OF this] show ?thesis unfolding i by (auto simp: fun_eq_iff)
  qed
  moreover have "(\<lambda>a. if unat a = unat dst + k then 0 else m a) = (\<lambda>a. if unat dst + k \<le> unat a \<and> unat a < unat dst + k
      then m (src + (a - dst)) else if unat a = unat dst + k then 0 else m a)" by (auto simp: fun_eq_iff)
  ultimately show ?case using i by simp
next
  case (Suc j)
  have i: "i < k" using Suc.hyps(2) by simp
  have ik: "i < length xs" "i < unat dsize - 1" using i assms(6) by simp_all
  have ub: "unat (of_nat i :: u32) = i" using ik(2) unat_32_bound [of dsize] by (intro unat_of_nat32) linarith
  have nz: "m (src + of_nat i) \<noteq> 0" by (rule cstr_nz [OF Suc.prems(1) ik(1)])
  have lt: "(of_nat i :: u32) < dsize - 1"
    using ik(2) ub assms(3) by (simp add: word_less_nat_alt unat_sub word_le_nat_alt Suc_le_eq)
  let ?m = "m(dst + of_nat i := m (src + of_nat i))"
  have ne: "src + of_nat q \<noteq> dst + of_nat i" if "q \<le> length xs" for q
  proof
    assume e: "src + of_nat q = dst + of_nat i"
    have "within dst (unat dsize) (dst + of_nat i)" using unat_ptr [of dst i] ik(2) assms(2) by (simp add: within_def)
    moreover have "within src (length xs + 1) (src + of_nat q)"
      using unat_ptr [of src q] that Suc.prems(1) by (simp add: within_def cstr_def)
    ultimately show False using assms(5) e by simp
  qed
  have c': "cstr ?m src xs" by (rule cstr_cong [OF _ Suc.prems(1)]) (use ne in simp)
  have IH: "strlcpy_loop dst src dsize (of_nat (i + 1)) ?m = Some (of_nat k,
    (\<lambda>a. if unat dst + (i + 1) \<le> unat a \<and> unat a < unat dst + k then ?m (src + (a - dst)) else if unat a = unat dst + k then 0 else ?m a))"
    by (rule Suc.hyps(1)) (use Suc.hyps(2) c' i assms(6) in auto)
  have "strlcpy_loop dst src dsize (of_nat i) m = strlcpy_loop dst src dsize (of_nat (i + 1)) ?m"
    using nz lt by (subst strlcpy_loop.simps) (simp add: add.commute)
  moreover have "(\<lambda>a. if unat dst + (i + 1) \<le> unat a \<and> unat a < unat dst + k then ?m (src + (a - dst)) else if unat a = unat dst + k then 0 else ?m a) =
     (\<lambda>a. if unat dst + i \<le> unat a \<and> unat a < unat dst + k then m (src + (a - dst)) else if unat a = unat dst + k then 0 else m a)"
  proof
    fix a
    have ai: "a = dst + of_nat i \<longleftrightarrow> unat a = unat dst + i" using ptr_eq [of dst i a] ik(2) assms(2) by simp
    show "(if unat dst + (i + 1) \<le> unat a \<and> unat a < unat dst + k then ?m (src + (a - dst)) else if unat a = unat dst + k then 0 else ?m a) =
     (if unat dst + i \<le> unat a \<and> unat a < unat dst + k then m (src + (a - dst)) else if unat a = unat dst + k then 0 else m a)"
    proof (cases "unat dst + (i + 1) \<le> unat a \<and> unat a < unat dst + k")
      case True
      let ?q = "unat a - unat dst"
      have "a - dst = of_nat ?q" using True by (simp add: word_unat_eq_iff unat_sub word_le_nat_alt)
      moreover have "?q \<le> length xs" using True assms(6) by linarith
      ultimately have "src + (a - dst) \<noteq> dst + of_nat i" using ne by metis
      then show ?thesis using True by simp
    next
      case False
      then show ?thesis using ai i by auto
    qed
  qed
  ultimately show ?case using IH by simp
qed

text \<open>C28. \<^verbatim>\<open>ft_strlcpy\<close> into a buffer disjoint from the string: it returns the length of the whole source, copies
  as many of its bytes as fit beside the terminating null byte, always terminates a buffer that is not
  empty, and writes nothing outside the buffer.\<close>

theorem ft_strlcpy_correct:
  assumes "cstr m src xs" and "unat dst + unat dsize \<le> 2 ^ 32"
    and "\<And>a. within dst (unat dsize) a \<Longrightarrow> \<not> within src (length xs + 1) a"
  shows "\<exists>m'. ft_strlcpy dst src dsize m = Some (of_nat (length xs), m') \<and>
    (0 < dsize \<longrightarrow> cstr m' dst (take (unat dsize - 1) xs)) \<and> (\<forall>a. \<not> within dst (unat dsize) a \<longrightarrow> m' a = m a)"
proof (cases "dsize = 0")
  case True
  then show ?thesis using strlen_from_spec [OF assms(1), of 0] by (simp add: ft_strlcpy_def)
next
  case False
  then have pos: "0 < unat dsize" by (simp add: unat_gt_0)
  let ?k = "min (length xs) (unat dsize - 1)"
  let ?m = "\<lambda>a. if unat dst + 0 \<le> unat a \<and> unat a < unat dst + ?k then m (src + (a - dst)) else if unat a = unat dst + ?k then 0 else m a"
  have loop: "strlcpy_loop dst src dsize (of_nat 0) m = Some (of_nat ?k, ?m)"
    by (rule strlcpy_loop_spec [OF assms(1,2) pos _ assms(3) refl]) simp_all
  have out: "?m a = m a" if "\<not> within dst (unat dsize) a" for a
    using that pos by (auto simp: within_def)
  have src': "cstr ?m src xs"
  proof -
    have "?m (src + of_nat i) = m (src + of_nat i)" if "i \<le> length xs" for i
    proof (rule out, rule notI)
      assume "within dst (unat dsize) (src + of_nat i)"
      moreover have "within src (length xs + 1) (src + of_nat i)"
        using unat_ptr [of src i] that assms(1) by (simp add: within_def cstr_def)
      ultimately show False using assms(3) by blast
    qed
    then show ?thesis by (rule cstr_cong [OF _ assms(1)])
  qed
  have dst': "cstr ?m dst (take (unat dsize - 1) xs)"
    unfolding cstr_def
  proof (intro conjI allI impI)
    have len: "length (take (unat dsize - 1) xs) = ?k" by simp
    show "unat dst + length (take (unat dsize - 1) xs) < 2 ^ 32" using assms(2) pos unfolding len by linarith
    show "0 \<notin> set (take (unat dsize - 1) xs)" using assms(1) in_set_takeD [of 0 "unat dsize - 1" xs] unfolding cstr_def by linarith
    show "?m (dst + of_nat (length (take (unat dsize - 1) xs))) = 0"
      using unat_ptr [of dst ?k] assms(2) pos unfolding len by auto
    fix i assume "i < length (take (unat dsize - 1) xs)"
    then have i: "i < ?k" unfolding len .
    then have "unat (dst + of_nat i) = unat dst + i" using unat_ptr [of dst i] assms(2) by linarith
    then have "?m (dst + of_nat i) = m (src + of_nat i)" using i by simp
    then show "?m (dst + of_nat i) = take (unat dsize - 1) xs ! i" using assms(1) i by (simp add: cstr_def)
  qed
  have "ft_strlcpy dst src dsize m = Some (of_nat (length xs), ?m)"
    using loop strlen_from_spec [OF src', of ?k] False by (simp add: ft_strlcpy_def word_gt_0)
  then show ?thesis using dst' out by (intro exI [of _ ?m]) blast
qed

theorem ft_strlcpy_correct_witness:
  "\<exists>m'. ft_strlcpy 0x2000 0x1000 3 (\<lambda>a. if a = 0x1000 \<or> a = 0x1001 \<or> a = 0x1002 then 65 else 0) = Some (3, m') \<and>
     cstr m' 0x2000 [65, 65]"
proof -
  let ?m = "\<lambda>a :: u32. if a = 0x1000 \<or> a = 0x1001 \<or> a = 0x1002 then 65 else 0 :: u8"
  have c: "cstr ?m 0x1000 [65, 65, 65]" by (auto simp: cstr_def less_Suc_eq)
  have d: "\<not> within 0x1000 (length [65, 65, 65 :: u8] + 1) a" if "within 0x2000 (unat (3 :: u32)) a" for a
    using that by (simp add: within_def)
  have w: "unat (0x2000 :: u32) + unat (3 :: u32) \<le> 2 ^ 32" by simp
  obtain m' where m': "ft_strlcpy 0x2000 0x1000 3 ?m = Some (of_nat (length [65, 65, 65 :: u8]), m')"
    "cstr m' 0x2000 (take (unat (3 :: u32) - 1) [65, 65, 65])"
    using ft_strlcpy_correct [OF c w d] by auto
  have e: "of_nat (length [65, 65, 65 :: u8]) = (3 :: u32)" "take (unat (3 :: u32) - 1) [65, 65, 65] = [65, 65 :: u8]" by simp_all
  show ?thesis using m' unfolding e by (intro exI [of _ m'] conjI)
qed

text \<open>\<^verbatim>\<open>ft_strncmp\<close> looks at one byte too many: on strings that agree on their first \<open>n\<close> bytes, none of them
  null, it returns the difference of the bytes at index \<open>n\<close>, where the result should be 0.\<close>

theorem ft_strncmp_reads_past_n:
  assumes "\<forall>i < unat n. m (s1 + of_nat i) = m (s2 + of_nat i) \<and> m (s1 + of_nat i) \<noteq> 0"
  shows "ft_strncmp s1 s2 n m = uint (m (s1 + n)) - uint (m (s2 + n))"
proof -
  have "strncmp_loop s1 s2 i k m = uint (m (s1 + of_nat (i + k))) - uint (m (s2 + of_nat (i + k)))"
    if "\<forall>j. i \<le> j \<and> j < i + k \<longrightarrow> m (s1 + of_nat j) = m (s2 + of_nat j) \<and> m (s1 + of_nat j) \<noteq> 0" for i k
    using that
  proof (induction k arbitrary: i)
    case (Suc k)
    have "m (s1 + of_nat i) = m (s2 + of_nat i)" "m (s1 + of_nat i) \<noteq> 0" using Suc.prems by auto
    then have "strncmp_loop s1 s2 i (Suc k) m = strncmp_loop s1 s2 (i + 1) k m" by auto
    also have "\<dots> = uint (m (s1 + of_nat (i + 1 + k))) - uint (m (s2 + of_nat (i + 1 + k)))"
      by (rule Suc.IH) (metis Suc.prems Suc_eq_plus1 add_Suc_right add_Suc_shift le_Suc_eq le_SucI Suc_leD)
    finally show ?case by simp
  qed simp
  note loop = this [of 0 "unat n"]
  have "ft_strncmp s1 s2 n m = uint (m (s1 + of_nat (0 + unat n))) - uint (m (s2 + of_nat (0 + unat n)))"
    unfolding ft_strncmp_def by (rule loop) (use assms in force)
  then show ?thesis by simp
qed

theorem ft_strncmp_reads_past_n_witness:
  "ft_strncmp 0x1000 0x2000 2 (\<lambda>a. if a = 0x2002 then 2 else 1) = - 1"
proof -
  let ?m = "\<lambda>a :: u32. if a = 0x2002 then 2 else 1 :: u8"
  have "of_nat i \<noteq> (0x1002 :: u32) \<and> of_nat i \<noteq> (2 :: u32)" if "i < unat (2 :: u32)" for i
    using that by (auto simp: word_unat_eq_iff)
  then have "\<forall>i < unat (2 :: u32). ?m (0x1000 + of_nat i) = ?m (0x2000 + of_nat i) \<and> ?m (0x1000 + of_nat i) \<noteq> 0"
    by (auto simp: word_eq_iff_unsigned add.commute [of "0x1000"])
  then show ?thesis using ft_strncmp_reads_past_n [of 2 ?m "0x1000" "0x2000"] by simp
qed

end
