(* ===== verification/Number_Text.thy ===== *)
theory Number_Text
  imports Libk_Spec
begin

text \<open>
  The decimal text that \<^verbatim>\<open>ft_itoa\<close> writes, digit by digit, and the number that \<^verbatim>\<open>ft_atoi\<close> reads from it.
\<close>

section \<open>Writing\<close>

lemma count_digits_bound: "n < 10 ^ count_digits n"
proof (induction n rule: count_digits.induct)
  case (1 n)
  show ?case
  proof (cases "n = 0")
    case False
    then have "n div 10 < 10 ^ count_digits (n div 10)" using 1 by simp
    then show ?thesis using False by (subst count_digits.simps) (simp add: div_less_iff_less_mult mult.commute)
  qed (simp add: count_digits.simps)
qed

lemma count_digits_32: "n < 10 ^ k \<Longrightarrow> count_digits n \<le> k"
proof (induction k arbitrary: n)
  case 0
  then show ?case by (simp add: count_digits.simps)
next
  case (Suc k)
  then have "n div 10 < 10 ^ k" by (simp add: div_less_iff_less_mult mult.commute)
  from Suc.IH [OF this] show ?case by (subst count_digits.simps) simp
qed

text \<open>The digits of \<open>n\<close> at the \<open>L\<close> bytes from index \<open>off\<close>, most significant first.\<close>

definition digits_at :: "bmem \<Rightarrow> u32 \<Rightarrow> nat \<Rightarrow> nat \<Rightarrow> nat \<Rightarrow> bool" where
  "digits_at m p off L n \<longleftrightarrow> (\<forall>j < L. m (p + of_nat (off + j)) = 48 + of_nat (n div 10 ^ (L - 1 - j) mod 10))"

lemma ptr_inj: "unat p + i < 2 ^ 32 \<Longrightarrow> unat p + j < 2 ^ 32 \<Longrightarrow> p + of_nat i = p + (of_nat j :: u32) \<longleftrightarrow> i = j"
  using ptr_eq [of p j "p + of_nat i"] unat_ptr [of p i] by simp

lemma makeit_loop_spec:
  assumes "unat str + off + count_digits n < 2 ^ 32" and "i + 1 = of_nat (off + count_digits n)" and "unat str + q < 2 ^ 32"
  shows "makeit_loop str (of_nat off) i n m (str + of_nat q) =
    (if off \<le> q \<and> q < off + count_digits n then 48 + of_nat (n div 10 ^ (off + count_digits n - 1 - q) mod 10)
     else m (str + of_nat q))"
  using assms(1,2)
proof (induction n arbitrary: i m rule: count_digits.induct)
  case (1 n)
  show ?case
  proof (cases "n = 0")
    case True
    then have "\<not> (off \<le> q \<and> q < off + count_digits n)" by (simp add: count_digits.simps)
    moreover have "makeit_loop str (of_nat off) i n m = m" using True by (subst makeit_loop.simps) simp
    ultimately show ?thesis by (simp only: if_False)
  next
    case False
    let ?L = "count_digits (n div 10)"
    have L: "count_digits n = Suc ?L" using False by (subst count_digits.simps) simp
    have i: "i = of_nat (off + ?L)" using "1.prems"(2) L by simp
    let ?m = "m(str + i := of_nat (n mod 10) + 48)"
    have "(of_nat off :: u32) \<le> i" using i "1.prems"(1) L by (simp add: word_le_nat_alt del: of_nat_add)
    then have step: "makeit_loop str (of_nat off) i n m = makeit_loop str (of_nat off) (i - 1) (n div 10) ?m"
      using False by (subst makeit_loop.simps) simp
    have IH: "makeit_loop str (of_nat off) (i - 1) (n div 10) ?m (str + of_nat q) =
        (if off \<le> q \<and> q < off + ?L then 48 + of_nat (n div 10 div 10 ^ (off + ?L - 1 - q) mod 10) else ?m (str + of_nat q))"
      by (rule "1.IH") (use False "1.prems" L i in simp_all)
    have at: "str + of_nat q = str + i \<longleftrightarrow> q = off + ?L"
      unfolding i by (rule ptr_inj) (use assms(3) "1.prems"(1) L in simp_all)
    consider "q < off \<or> off + ?L < q" | "off \<le> q" "q < off + ?L" | "q = off + ?L" by linarith
    then show ?thesis
    proof cases
      case 1
      then show ?thesis unfolding step IH using at L by auto
    next
      case 2
      have "off + count_digits n - 1 - q = Suc (off + ?L - 1 - q)" using 2 L by simp
      then have "n div 10 div 10 ^ (off + ?L - 1 - q) = n div 10 ^ (off + count_digits n - 1 - q)"
        by (simp add: div_mult2_eq)
      then show ?thesis unfolding step IH using 2 L by simp
    next
      case 3
      then show ?thesis unfolding step IH using at L by (simp add: add.commute)
    qed
  qed
qed

section \<open>Reading\<close>

lemma digit_byte:
  assumes "d < 10" and "b = 48 + of_nat d"
  shows "sint (b :: u8) = 48 + int d"
proof -
  have "b = of_int (48 + int d)" using assms(2) by simp
  then show ?thesis using assms(1) by (simp only: sint_sbintrunc') (subst signed_take_bit_int_eq_self, simp_all)
qed

lemma atoi_digits_spec:
  assumes "digits_at m p off L n" and "m (p + of_nat (off + L)) = 0" and "k \<le> L"
  shows "atoi_digits m p (of_nat (off + k)) (of_nat (n div 10 ^ (L - k))) = Some (of_nat n)"
  using assms(3)
proof (induction "L - k" arbitrary: k)
  case 0
  then have "k = L" by simp
  then show ?case using assms(2) by (subst atoi_digits.simps) (simp add: ft_isdigit_def)
next
  case (Suc j)
  then have k: "k < L" by simp
  let ?d = "n div 10 ^ (L - 1 - k) mod 10"
  have "m (p + of_nat (off + k)) = 48 + of_nat ?d" using assms(1) k by (simp add: digits_at_def)
  from digit_byte [OF _ this] have b: "sint (m (p + of_nat (off + k))) = 48 + int ?d" by simp
  have e: "n div 10 ^ (L - k) = n div 10 ^ (L - 1 - k) div 10"
  proof -
    have "10 ^ (L - k) = 10 ^ (L - 1 - k) * (10 :: nat)" using k by (simp flip: power_Suc2 add: Suc_diff_Suc)
    then show ?thesis by (simp add: div_mult2_eq)
  qed
  have num: "of_nat (n div 10 ^ (L - k)) * 10 + of_int (48 + int ?d - 48) = (of_nat (n div 10 ^ (L - Suc k)) :: u32)"
  proof -
    have "n div 10 ^ (L - k) * 10 + ?d = n div 10 ^ (L - Suc k)" unfolding e by simp
    from arg_cong [OF this, of "of_nat :: nat \<Rightarrow> u32"] show ?thesis by simp
  qed
  have "atoi_digits m p (of_nat (off + k)) (of_nat (n div 10 ^ (L - k))) =
      atoi_digits m p (of_nat (off + Suc k)) (of_nat (n div 10 ^ (L - Suc k)))"
  proof -
    have "ft_isdigit (sint (m (p + of_nat (off + k))))" using mod_less_divisor [of 10 "n div 10 ^ (L - 1 - k)"]
      unfolding b ft_isdigit_def by linarith
    then show ?thesis using b num by (subst atoi_digits.simps) (simp add: add.commute)
  qed
  then show ?case using Suc.hyps(1) [of "Suc k"] Suc.hyps(2) k by simp
qed

lemma first_not_space: "\<not> ft_isspace (sint (m p)) \<Longrightarrow> atoi_spaces m p 0 = Some 0"
  by (subst atoi_spaces.simps) simp

lemma read_number:
  assumes d: "digits_at m p off L n" and z: "m (p + of_nat (off + L)) = 0" and "0 < L" and "n < 10 ^ L"
    and off: "off = (if neg then 1 else 0)" "neg \<Longrightarrow> m p = 45"
  shows "ft_atoi p m = Some (sint (of_nat n * (if neg then - 1 else 1) :: u32))"
proof -
  have dg: "sint (m (p + of_nat off)) = 48 + int (n div 10 ^ (L - 1) mod 10)"
    by (rule digit_byte) (use d assms(3) in \<open>auto simp: digits_at_def\<close>)
  have r: "atoi_digits m p (of_nat off) 0 = Some (of_nat n)"
    using atoi_digits_spec [OF d z, of 0] assms(4) by simp
  show ?thesis
  proof (cases neg)
    case True
    then have "m p = 45" "off = 1" using off by simp_all
    moreover from this have "atoi_spaces m p 0 = Some 0" by (intro first_not_space) (simp add: ft_isspace_def)
    ultimately show ?thesis using r True by (simp add: ft_atoi_def)
  next
    case False
    then have o: "off = 0" using off by simp
    then have s: "48 \<le> sint (m p)" using dg by simp
    then have "atoi_spaces m p 0 = Some 0" by (intro first_not_space) (simp add: ft_isspace_def)
    moreover have "m p \<noteq> 45" "m p \<noteq> 43" using s by auto
    ultimately show ?thesis using r False o by (simp add: ft_atoi_def)
  qed
qed

section \<open>Round trip\<close>

lemma makeit_read:
  assumes "- (2 ^ 31) \<le> n" and "n < 2 ^ 31" and str: "unat str + 12 \<le> 2 ^ 32"
  shows "ft_atoi str (makeit n str m) = Some n"
proof -
  define L where "L = (if n = 0 then 1 else count_digits (nat \<bar>n\<bar>))"
  define off :: nat where "off = (if n < 0 then 1 else 0)"
  have "nat \<bar>n\<bar> < 10 ^ 10" using assms(1,2) by simp
  then have Lb: "L \<le> 10" "0 < L" using count_digits_32 [of "nat \<bar>n\<bar>" 10]
    by (auto simp: L_def count_digits.simps [of "nat \<bar>n\<bar>"])
  have il: "intlen n = int (off + L)" by (simp add: intlen_def L_def off_def)
  let ?m0 = "m(str + of_nat (off + L) := 0)"
  let ?m1 = "if n < 0 then ?m0(str := 45) else if n = 0 then ?m0(str := 48) else ?m0"
  let ?m = "makeit n str m"
  have m: "?m = makeit_loop str (of_nat off) (of_nat (off + L) - 1) (nat \<bar>n\<bar>) ?m1"
    using il by (simp add: makeit_def off_def Let_def)
  have at: "?m (str + of_nat q) = (if off \<le> q \<and> q < off + count_digits (nat \<bar>n\<bar>)
      then 48 + of_nat (nat \<bar>n\<bar> div 10 ^ (off + count_digits (nat \<bar>n\<bar>) - 1 - q) mod 10) else ?m1 (str + of_nat q))"
    if q: "q \<le> 11" for q
  proof (cases "n = 0")
    case True
    then have "?m = ?m1" unfolding m by (subst makeit_loop.simps) simp
    moreover have "\<not> (off \<le> q \<and> q < off + count_digits (nat \<bar>n\<bar>))" using True by (simp add: count_digits.simps)
    ultimately show ?thesis by (simp only: if_False)
  next
    case False
    then have "count_digits (nat \<bar>n\<bar>) = L" by (simp add: L_def)
    then show ?thesis
      unfolding m using makeit_loop_spec [of str off "nat \<bar>n\<bar>" "of_nat (off + L) - 1" q ?m1] str q Lb
      by (simp add: off_def)
  qed
  have ne: "str + of_nat (off + L) \<noteq> str + of_nat 0" by (subst ptr_inj) (use str Lb in \<open>auto simp: off_def\<close>)
  have z: "?m (str + of_nat (off + L)) = 0"
    using at [of "off + L"] Lb ne by (auto simp: off_def L_def count_digits.simps [of 0])
  have dig: "digits_at ?m str off L (nat \<bar>n\<bar>)"
    unfolding digits_at_def
  proof (intro allI impI)
    fix j assume j: "j < L"
    show "?m (str + of_nat (off + j)) = 48 + of_nat (nat \<bar>n\<bar> div 10 ^ (L - 1 - j) mod 10)"
    proof (cases "n = 0")
      case True
      then show ?thesis using at [of 0] j by (simp add: off_def L_def count_digits.simps)
    next
      case False
      then have "count_digits (nat \<bar>n\<bar>) = L" by (simp add: L_def)
      then show ?thesis using at [of "off + j"] j Lb by (simp add: off_def)
    qed
  qed
  have small: "nat \<bar>n\<bar> < 10 ^ L" using count_digits_bound [of "nat \<bar>n\<bar>"] by (simp add: L_def)
  have "ft_atoi str ?m = Some (sint (of_nat (nat \<bar>n\<bar>) * (if n < 0 then - 1 else 1) :: u32))"
    by (rule read_number [OF dig z Lb(2) small]) (use at [of 0] in \<open>auto simp: off_def\<close>)
  moreover have "of_nat (nat \<bar>n\<bar>) * (if n < 0 then - 1 else 1) = (of_int n :: u32)" by (simp add: of_nat_nat)
  moreover have "sint (of_int n :: u32) = n" using assms(1,2) by (simp only: sint_sbintrunc') (subst signed_take_bit_int_eq_self, simp_all)
  ultimately show ?thesis by simp
qed

text \<open>C29. Printing and parsing: the text that \<^verbatim>\<open>ft_itoa\<close> writes for any \<^verbatim>\<open>int\<close>, the smallest included, is read
  back by \<^verbatim>\<open>ft_atoi\<close> as the same number, wherever the allocator put it.\<close>

theorem ft_itoa_atoi_roundtrip:
  assumes "- (2 ^ 31) \<le> n" and "n < 2 ^ 31" and "ft_itoa km n m = (str, m')" and "str \<noteq> 0" and "unat str + 12 \<le> 2 ^ 32"
  shows "ft_atoi str m' = Some n"
proof -
  obtain m1 where "m' = makeit n str m1"
    using assms(3,4) by (auto simp: ft_itoa_def Let_def split: prod.splits if_splits)
  then show ?thesis using makeit_read [OF assms(1,2,5)] by simp
qed

theorem ft_itoa_atoi_roundtrip_witness:
  "ft_atoi 0x1000 (snd (ft_itoa (\<lambda>_ m. (0x1000, m)) (- 2147483648) (\<lambda>_. 255))) = Some (- 2147483648)"
proof -
  have "ft_itoa (\<lambda>_ m. (0x1000, m)) (- 2147483648) (\<lambda>_. 255) =
      (0x1000, snd (ft_itoa (\<lambda>_ m. (0x1000, m)) (- 2147483648) (\<lambda>_. 255)))"
    by (simp add: ft_itoa_def)
  from ft_itoa_atoi_roundtrip [OF _ _ this] show ?thesis by simp
qed

end
