(* ===== verification/Boot_Allocator.thy ===== *)
theory Boot_Allocator
  imports KPrelude "HOL-Library.Multiset"
begin

text \<open>
  \<^verbatim>\<open>src/memory/boot_allocator.c\<close> and the memory-map walk of \<^verbatim>\<open>src/kernel/mb2_info.c\<close>: the tables of
  free, reserved and missing physical memory built at boot, and the allocator that serves requests
  from them until the buddy allocator takes over.

  An array together with its count is the list of its first \<^verbatim>\<open>count\<close> entries; a write at or past
  \<^verbatim>\<open>MAX_REGIONS\<close> that the code does not guard is the result \<open>Inl OutOfBounds\<close>. \<open>cover\<close> is the set of
  addresses a table stands for. The theory shows that sorting and merging keep that set, that free
  memory is computed as the complement of the reserved regions, and that an allocation moves
  exactly one block from the free to the reserved side.
\<close>

section \<open>Data\<close>

datatype zone_type = LOWMEM_ZONE | DMA_ZONE | HIGHMEM_ZONE | INVALID_ZONE

datatype mem_type = FREE_MEMORY | RESERVED_MEMORY | HOLES_MEMORY

record region =
  r_start :: u32
  r_end :: u32

record boot_alloc_entry =
  ba_addr :: u32
  ba_size :: u32
  ba_free :: bool

record boot_state =
  frozen :: bool
  allocations :: "boot_alloc_entry list"
  regions :: "mem_type \<Rightarrow> region list"
  free_zones :: "zone_type \<Rightarrow> region list"
  res_zones :: "zone_type \<Rightarrow> region list"
  total_pages :: u32
  total_RAM :: u32

definition MAX_REGIONS :: nat where
  "MAX_REGIONS = 256"

definition LOWMEM_START :: u32 where
  "LOWMEM_START = 0x01000000"

definition HIGHMEM_START :: u32 where
  "HIGHMEM_START = 0x38000000"

definition HIGHMEM_END :: u32 where
  "HIGHMEM_END = 0xFFFFFFFF"

section \<open>Operations on region tables\<close>

definition boot_alloc_get_addr_zone :: "u32 \<Rightarrow> zone_type" where
  "boot_alloc_get_addr_zone addr =
     (if HIGHMEM_START \<le> addr then HIGHMEM_ZONE
      else if LOWMEM_START \<le> addr then LOWMEM_ZONE else DMA_ZONE)"

definition boot_allocator_add_region :: "u32 \<Rightarrow> u32 \<Rightarrow> mem_type \<Rightarrow> boot_state \<Rightarrow> boot_state kres" where
  "boot_allocator_add_region start fin type b =
     (if fin < start \<and> fin \<noteq> 0 then Inl (Panic ''boot_allocator_add_region'')
      else if start = fin then Inr b
      else if MAX_REGIONS \<le> length (regions b type) then Inl (Panic ''boot_allocator_add_region'')
      else Inr (b\<lparr>regions := (regions b)(type := regions b type @ [\<lparr>r_start = start, r_end = fin\<rparr>])\<rparr>))"

text \<open>The inner loop of the insertion sort: shift the larger entries up, then store \<open>current\<close>.\<close>

fun sort_shift :: "region list \<Rightarrow> region \<Rightarrow> nat \<Rightarrow> region list" where
  "sort_shift reg current 0 = reg[0 := current]"
| "sort_shift reg current (Suc j) =
     (if r_start current < r_start (reg ! j) then sort_shift (reg[Suc j := reg ! j]) current j
      else reg[Suc j := current])"

function sort_from :: "region list \<Rightarrow> nat \<Rightarrow> region list" where
  "sort_from reg i =
     (if i < length reg then sort_from (sort_shift reg (reg ! i) i) (i + 1) else reg)"
  by pat_completeness auto

lemma sort_shift_length [simp]: "length (sort_shift reg cur j) = length reg"
  by (induction reg cur j rule: sort_shift.induct) simp_all

termination sort_from
  by (relation "measure (\<lambda>(reg, i). length reg - i)") auto

declare sort_from.simps [simp del]

definition boot_allocator_sort_regions :: "region list \<Rightarrow> region list" where
  "boot_allocator_sort_regions reg = sort_from reg 1"

text \<open>The merging loop; \<open>merged\<close> is an array of \<^verbatim>\<open>MAX_REGIONS\<close> entries on the stack.\<close>

fun merge_loop :: "region \<Rightarrow> region list \<Rightarrow> region list \<Rightarrow> region list kres" where
  "merge_loop cur [] merged =
     (if length merged < MAX_REGIONS then Inr (merged @ [cur]) else Inl OutOfBounds)"
| "merge_loop cur (r # rs) merged =
     (if r_end cur = r_start r then merge_loop (cur\<lparr>r_end := r_end r\<rparr>) rs merged
      else if length merged < MAX_REGIONS then merge_loop r rs (merged @ [cur]) else Inl OutOfBounds)"

definition boot_allocator_merge_contiguous_regions :: "region list \<Rightarrow> region list kres" where
  "boot_allocator_merge_contiguous_regions reg =
     (case reg of [] \<Rightarrow> Inr []
      | cur # _ \<Rightarrow> merge_loop cur (tl (boot_allocator_sort_regions reg)) [])"

definition BOOT_ALLOCATOR_SORT_AND_MERGE :: "region list \<Rightarrow> region list kres" where
  "BOOT_ALLOCATOR_SORT_AND_MERGE reg =
     boot_allocator_merge_contiguous_regions (boot_allocator_sort_regions reg)"

definition boot_allocator_add_to_zones :: "(zone_type \<Rightarrow> region list) \<Rightarrow> u32 \<Rightarrow> u32
    \<Rightarrow> (zone_type \<Rightarrow> region list) kres" where
  "boot_allocator_add_to_zones zones sz start =
     (let zone = boot_alloc_get_addr_zone start in
      if MAX_REGIONS \<le> length (zones zone) then Inl (Panic ''boot_allocator_add_to_zones'')
      else kbind (BOOT_ALLOCATOR_SORT_AND_MERGE (zones zone @ [\<lparr>r_start = start, r_end = start + sz\<rparr>]))
             (\<lambda>z. Inr (zones(zone := z))))"

definition boot_allocator_reserved_wrapper :: "u32 \<Rightarrow> u32 \<Rightarrow> boot_state \<Rightarrow> boot_state kres" where
  "boot_allocator_reserved_wrapper start fin b = boot_allocator_add_region start fin RESERVED_MEMORY b"

definition boot_allocator_range_overlaps :: "u32 \<Rightarrow> u32 \<Rightarrow> mem_type \<Rightarrow> boot_state \<Rightarrow> bool" where
  "boot_allocator_range_overlaps start fin type b =
     list_ex (\<lambda>r. \<not> (fin \<le> r_start r \<or> r_end r \<le> start)) (regions b type)"

fun free_handler_loop :: "region list \<Rightarrow> u32 \<Rightarrow> u32 \<Rightarrow> boot_state \<Rightarrow> boot_state kres" where
  "free_handler_loop [] cur fin b =
     (if cur < fin \<and> \<not> boot_allocator_range_overlaps cur fin FREE_MEMORY b
      then boot_allocator_add_region cur fin FREE_MEMORY b else Inr b)"
| "free_handler_loop (res # rs) cur fin b =
     (if r_end res \<le> cur \<or> fin \<le> r_start res then free_handler_loop rs cur fin b
      else kbind (if cur < r_start res \<and> \<not> boot_allocator_range_overlaps cur (r_start res) FREE_MEMORY b
                  then boot_allocator_add_region cur (r_start res) FREE_MEMORY b else Inr b) (\<lambda>b.
           let cur = (if cur < r_end res then r_end res else cur) in
           if fin \<le> cur then Inr b else free_handler_loop rs cur fin b))"

definition boot_allocator_free_handler :: "u32 \<Rightarrow> u32 \<Rightarrow> boot_state \<Rightarrow> boot_state kres" where
  "boot_allocator_free_handler start fin b =
     free_handler_loop (regions b RESERVED_MEMORY) start fin b"

definition boot_allocator_get_all_regions :: "boot_state \<Rightarrow> region list" where
  "boot_allocator_get_all_regions b =
     regions b FREE_MEMORY @ regions b RESERVED_MEMORY @ regions b HOLES_MEMORY"

text \<open>The gaps between consecutive regions become holes.\<close>

fun gaps_loop :: "region list \<Rightarrow> boot_state \<Rightarrow> boot_state kres" where
  "gaps_loop (r # s # rs) b =
     kbind (if r_end r < r_start s then boot_allocator_add_region (r_end r) (r_start s) HOLES_MEMORY b
            else Inr b) (gaps_loop (s # rs))"
| "gaps_loop _ b = Inr b"

definition boot_allocator_fill_gaps_as_holes :: "boot_state \<Rightarrow> boot_state kres" where
  "boot_allocator_fill_gaps_as_holes b =
     (let total_reg = length (regions b RESERVED_MEMORY) + length (regions b FREE_MEMORY) in
      if total_reg = 0 then Inr b
      else kbind (BOOT_ALLOCATOR_SORT_AND_MERGE (take total_reg (boot_allocator_get_all_regions b))) (\<lambda>all_reg.
           kbind (gaps_loop all_reg b) (\<lambda>b.
           kbind (BOOT_ALLOCATOR_SORT_AND_MERGE (regions b HOLES_MEMORY)) (\<lambda>h.
           Inr (b\<lparr>regions := (regions b)(HOLES_MEMORY := h)\<rparr>)))))"

definition boot_allocator_init_total_size :: "u32 \<Rightarrow> u32 \<Rightarrow> boot_state \<Rightarrow> boot_state kres" where
  "boot_allocator_init_total_size start fin b =
     (let fin = (if fin = 0 then 0xffffffff else fin) in
      Inr (b\<lparr>total_RAM := total_RAM b + (fin - start)\<rparr>))"

definition boot_allocator_get_total_visibale_ram :: "boot_state \<Rightarrow> u32 kres" where
  "boot_allocator_get_total_visibale_ram b =
     (let all_reg = boot_allocator_get_all_regions b in
      if all_reg = [] then Inl (Panic ''boot_allocator_get_total_visibale_ram'')
      else kbind (BOOT_ALLOCATOR_SORT_AND_MERGE all_reg) (\<lambda>m.
           let fin = r_end (last m) in Inr (if fin = 0 then 0xffffffff else fin)))"

text \<open>
  The cut of one region at the zone boundaries. \<^verbatim>\<open>cur_start\<close> grows in every round: it is below
  the end of its zone and below the end of the region.
\<close>

definition zone_end :: "u32 \<Rightarrow> u32" where
  "zone_end cur = (if HIGHMEM_START \<le> cur then HIGHMEM_END
     else if LOWMEM_START \<le> cur then HIGHMEM_START else LOWMEM_START)"

lemma zone_end_above: "cur < fin \<Longrightarrow> cur < (if fin < zone_end cur then fin else zone_end cur)"
proof -
  assume "cur < fin"
  moreover have "fin \<le> HIGHMEM_END"
    using unat_32_bound [of fin] by (simp add: HIGHMEM_END_def word_le_nat_alt del: unat_32_bound)
  ultimately show ?thesis
    by (auto simp: zone_end_def HIGHMEM_START_def LOWMEM_START_def)
qed

function split_zones :: "u32 \<Rightarrow> u32 \<Rightarrow> (zone_type \<Rightarrow> region list) \<Rightarrow> (zone_type \<Rightarrow> region list) kres" where
  "split_zones cur fin zones =
     (if cur < fin then
        let zone = boot_alloc_get_addr_zone cur;
            sub_end = (if fin < zone_end cur then fin else zone_end cur) in
        if cur < sub_end then
          if MAX_REGIONS \<le> length (zones zone) then Inl OutOfBounds
          else split_zones sub_end fin
            (zones(zone := zones zone @ [\<lparr>r_start = cur, r_end = sub_end\<rparr>]))
        else split_zones sub_end fin zones
      else Inr zones)"
  by pat_completeness auto
termination
proof (relation "measure (\<lambda>(cur, fin, zones). unat fin - unat cur)", goal_cases)
  case (2 cur fin zones zone sub_end)
  then show ?case using zone_end_above [of cur fin] by (auto simp: word_less_nat_alt)
next
  case (3 cur fin zones zone sub_end)
  then show ?case using zone_end_above [of cur fin] by auto
qed simp

declare split_zones.simps [simp del]

fun init_zones_loop :: "region list \<Rightarrow> (zone_type \<Rightarrow> region list) \<Rightarrow> (zone_type \<Rightarrow> region list) kres" where
  "init_zones_loop [] zones = Inr zones"
| "init_zones_loop (r # rs) zones = kbind (split_zones (r_start r) (r_end r) zones) (init_zones_loop rs)"

definition boot_allocator_init_zones :: "(zone_type \<Rightarrow> region list) \<Rightarrow> mem_type \<Rightarrow> boot_state
    \<Rightarrow> (zone_type \<Rightarrow> region list) kres" where
  "boot_allocator_init_zones zones type b = init_zones_loop (regions b type) zones"

definition boot_allocator_freeze :: "boot_state \<Rightarrow> boot_state" where
  "boot_allocator_freeze b = b\<lparr>frozen := True\<rparr>"

section \<open>The memory map and the initialisation\<close>

record mmap_entry =
  me_addr :: u64
  me_len :: u64
  me_type :: u32

fun mb2_mmap_iter :: "mmap_entry list \<Rightarrow> (u32 \<Rightarrow> u32 \<Rightarrow> 's \<Rightarrow> 's kres) \<Rightarrow> bool \<Rightarrow> 's \<Rightarrow> 's kres" where
  "mb2_mmap_iter [] handler free s = Inr s"
| "mb2_mmap_iter (e # es) handler free s =
     (if me_type e \<noteq> 1 \<and> free then mb2_mmap_iter es handler free s
      else if me_type e = 1 \<and> \<not> free then mb2_mmap_iter es handler free s
      else let region_start = ucast (me_addr e) :: u32;
               region_end = ucast (ucast region_start + me_len e) :: u32 in
        kbind (handler region_start region_end s) (mb2_mmap_iter es handler free))"

text \<open>
  What the initialisation reads from the processor, the linker script and the boot loader: base
  and limit of the descriptor tables, bounds of the kernel image, address and size of the boot
  information.
\<close>

record boot_env =
  gdt_base :: u32
  gdt_limit :: u16
  idt_base :: u32
  idt_limit :: u16
  kernel_start :: u32
  kernel_end :: u32
  mb2info :: u32
  mb2_total_size :: u32

definition add_virt_region :: "u32 \<Rightarrow> u32 \<Rightarrow> boot_state \<Rightarrow> boot_state kres" where
  "add_virt_region vstart vend b =
     kbind (VIRT_TO_PHYS_LINEAR vstart) (\<lambda>s. kbind (VIRT_TO_PHYS_LINEAR vend) (\<lambda>e.
     boot_allocator_add_region s e RESERVED_MEMORY b))"

definition add_reserved_ranges :: "boot_env \<Rightarrow> boot_state \<Rightarrow> boot_state kres" where
  "add_reserved_ranges e b =
     kbind (boot_allocator_add_region 0xa0000 0x100000 RESERVED_MEMORY b) (\<lambda>b.
     kbind (add_virt_region (gdt_base e) (gdt_base e + ucast (gdt_limit e) + 1) b) (\<lambda>b.
     kbind (add_virt_region (idt_base e) (idt_base e + ucast (idt_limit e) + 1) b) (\<lambda>b.
     kbind (boot_allocator_add_region 0 0x1000 RESERVED_MEMORY b) (\<lambda>b.
     kbind (boot_allocator_add_region 0x1000 0x9fc00 RESERVED_MEMORY b) (\<lambda>b.
     kbind (add_virt_region (kernel_start e) (kernel_end e) b) (\<lambda>b.
     boot_allocator_add_region (mb2info e) (mb2info e + mb2_total_size e) RESERVED_MEMORY b))))))"

definition sort_merge_regions :: "mem_type \<Rightarrow> boot_state \<Rightarrow> boot_state kres" where
  "sort_merge_regions type b =
     kbind (BOOT_ALLOCATOR_SORT_AND_MERGE (regions b type)) (\<lambda>r.
     Inr (b\<lparr>regions := (regions b)(type := r)\<rparr>))"

definition sort_merge_zones :: "zone_type \<Rightarrow> boot_state \<Rightarrow> boot_state kres" where
  "sort_merge_zones zone b =
     kbind (BOOT_ALLOCATOR_SORT_AND_MERGE (free_zones b zone)) (\<lambda>f.
     kbind (BOOT_ALLOCATOR_SORT_AND_MERGE (res_zones b zone)) (\<lambda>r.
     Inr (b\<lparr>free_zones := (free_zones b)(zone := f), res_zones := (res_zones b)(zone := r)\<rparr>)))"

definition boot_allocator_init :: "boot_env \<Rightarrow> mmap_entry list \<Rightarrow> boot_state \<Rightarrow> boot_state kres" where
  "boot_allocator_init e mmap b =
     (let b = b\<lparr>regions := (\<lambda>_. []), allocations := []\<rparr> in
      kbind (add_reserved_ranges e b) (\<lambda>b.
      kbind (mb2_mmap_iter mmap boot_allocator_reserved_wrapper False b) (\<lambda>b.
      kbind (sort_merge_regions RESERVED_MEMORY b) (\<lambda>b.
      kbind (mb2_mmap_iter mmap boot_allocator_free_handler True b) (\<lambda>b.
      kbind (sort_merge_regions FREE_MEMORY b) (\<lambda>b.
      kbind (boot_allocator_fill_gaps_as_holes b) (\<lambda>b.
      kbind (mb2_mmap_iter mmap boot_allocator_init_total_size False b) (\<lambda>b.
      kbind (mb2_mmap_iter mmap boot_allocator_init_total_size True b) (\<lambda>b.
      kbind (boot_allocator_get_total_visibale_ram b) (\<lambda>ram.
      let b = b\<lparr>total_pages := ram div PAGE_SIZE\<rparr> in
      kbind (boot_allocator_init_zones (free_zones b) FREE_MEMORY b) (\<lambda>fz.
      kbind (boot_allocator_init_zones (res_zones b) RESERVED_MEMORY b) (\<lambda>rz.
      kbind (sort_merge_zones LOWMEM_ZONE (b\<lparr>free_zones := fz, res_zones := rz\<rparr>)) (\<lambda>b.
      kbind (sort_merge_zones DMA_ZONE b)
        (sort_merge_zones HIGHMEM_ZONE))))))))))))))"

text \<open>
  \<^verbatim>\<open>mb2_init\<close>: the tags before the end tag, each with its type and, for the memory map (type 6),
  its entries.
\<close>

definition MULTIBOOT2_BOOTLOADER_MAGIC :: u32 where
  "MULTIBOOT2_BOOTLOADER_MAGIC = 0x36d76289"

definition MULTIBOOT_TAG_TYPE_MMAP :: u32 where
  "MULTIBOOT_TAG_TYPE_MMAP = 6"

fun mb2_tags :: "boot_env \<Rightarrow> (u32 \<times> mmap_entry list) list \<Rightarrow> nat \<Rightarrow> boot_state \<Rightarrow> (nat \<times> boot_state) kres" where
  "mb2_tags e [] tags_found b = Inr (tags_found, b)"
| "mb2_tags e ((type, mmap) # tags) tags_found b =
     (if type = MULTIBOOT_TAG_TYPE_MMAP
      then kbind (boot_allocator_init e mmap b) (mb2_tags e tags (tags_found + 1))
      else mb2_tags e tags tags_found b)"

definition mb2_init :: "u32 \<Rightarrow> boot_env \<Rightarrow> (u32 \<times> mmap_entry list) list \<Rightarrow> boot_state \<Rightarrow> boot_state kres" where
  "mb2_init mb2_magic e tags b =
     (if mb2_magic \<noteq> MULTIBOOT2_BOOTLOADER_MAGIC then Inl (Panic ''mb2_init'')
      else kbind (mb2_tags e tags 0 b) (\<lambda>(tags_found, b).
           if tags_found \<noteq> 1 then Inl (Panic ''mb2_init'') else Inr b))"

section \<open>Allocation\<close>

definition log_allocation :: "u32 \<Rightarrow> u32 \<Rightarrow> bool \<Rightarrow> boot_state \<Rightarrow> boot_state kres" where
  "log_allocation addr sz freeable b =
     (if MAX_REGIONS \<le> length (allocations b) then Inl OutOfBounds
      else Inr (b\<lparr>allocations := allocations b @ [\<lparr>ba_addr = addr, ba_size = sz, ba_free = freeable\<rparr>]\<rparr>))"

text \<open>Overwriting entry \<open>i\<close> by the last one and dropping the last, as \<^verbatim>\<open>*reg = zones[--count]\<close> does.\<close>

definition remove_swap :: "nat \<Rightarrow> 'a list \<Rightarrow> 'a list" where
  "remove_swap i xs = butlast (xs[i := last xs])"

text \<open>The search runs from the last region down; \<open>i\<close> is one more than the index in the code.\<close>

fun boot_alloc_loop :: "nat \<Rightarrow> u32 \<Rightarrow> zone_type \<Rightarrow> bool \<Rightarrow> boot_state \<Rightarrow> (u32 \<times> boot_state) kres" where
  "boot_alloc_loop 0 sz zone freeable b = Inr (0, b)"
| "boot_alloc_loop (Suc i) sz zone freeable b =
     (let reg = free_zones b zone ! i; region_size = r_end reg - r_start reg in
      if sz \<le> region_size \<and> \<not> r_end reg - sz < r_start reg then
        let ret = r_end reg - sz; reg' = reg\<lparr>r_end := ret\<rparr>;
            zs = (free_zones b zone)[i := reg'] in
        kbind (boot_allocator_add_to_zones (res_zones b) sz ret) (\<lambda>rz.
        let zs = (if r_start reg' = r_end reg' then remove_swap i zs else zs) in
        kbind (log_allocation ret sz freeable
                 (b\<lparr>res_zones := rz, free_zones := (free_zones b)(zone := zs)\<rparr>)) (\<lambda>b.
        Inr (ret, b)))
      else boot_alloc_loop i sz zone freeable b)"

definition boot_alloc :: "u32 \<Rightarrow> zone_type \<Rightarrow> bool \<Rightarrow> boot_state \<Rightarrow> (u32 \<times> boot_state) kres" where
  "boot_alloc sz zone freeable b =
     (if frozen b then Inr (0, b)
      else boot_alloc_loop (length (free_zones b zone)) sz zone freeable b)"

text \<open>\<open>align\<close> is \<open>None\<close> for the value \<^verbatim>\<open>-1\<close> of the code.\<close>

function boot_alloc_at_loop :: "nat \<Rightarrow> u32 \<Rightarrow> zone_type \<Rightarrow> bool \<Rightarrow> u32 \<Rightarrow> u32 \<Rightarrow> u32 option \<Rightarrow> boot_state
    \<Rightarrow> (u32 \<times> boot_state) kres" where
  "boot_alloc_at_loop i sz zone freeable start fin align b =
     (if i < length (free_zones b zone) then
        let reg = free_zones b zone ! i in
        if fin \<le> r_start reg \<or> r_end reg \<le> start
        then boot_alloc_at_loop (i + 1) sz zone freeable start fin align b
        else
          let s0 = (if start \<le> r_start reg then r_start reg else start);
              limit = (if r_end reg < fin then r_end reg else fin);
              alloc_start = (case align of None \<Rightarrow> s0 | Some a \<Rightarrow> ALIGN s0 a) in
          if alloc_start + sz \<le> limit then
            kbind (boot_allocator_add_to_zones (res_zones b) sz alloc_start) (\<lambda>rz.
            kbind (log_allocation alloc_start sz freeable (b\<lparr>res_zones := rz\<rparr>)) (\<lambda>b'.
            kbind (if alloc_start + sz < r_end reg
                   then if MAX_REGIONS \<le> length (free_zones b zone) then Inl (Panic ''boot_alloc_at'')
                     else Inr (free_zones b zone @ [\<lparr>r_start = alloc_start + sz, r_end = r_end reg\<rparr>])
                   else Inr (free_zones b zone)) (\<lambda>zs.
            let zs = zs[i := reg\<lparr>r_end := alloc_start\<rparr>];
                zs = (if alloc_start \<le> r_start reg then remove_swap i zs else zs) in
            Inr (alloc_start,
                 b'\<lparr>free_zones := (free_zones b')(zone := boot_allocator_sort_regions zs)\<rparr>))))
          else boot_alloc_at_loop (i + 1) sz zone freeable start fin align b
      else Inr (0, b))"
  by pat_completeness auto
termination
  by (relation "measure (\<lambda>(i, sz, zone, freeable, start, fin, align, b). length (free_zones b zone) - i)") auto

declare boot_alloc_at_loop.simps [simp del]

definition boot_alloc_at :: "u32 \<Rightarrow> zone_type \<Rightarrow> bool \<Rightarrow> u32 \<Rightarrow> u32 \<Rightarrow> u32 option \<Rightarrow> boot_state
    \<Rightarrow> (u32 \<times> boot_state) kres" where
  "boot_alloc_at sz zone freeable start fin align b =
     (if frozen b \<or> sz = 0 \<or> fin < start + sz then Inr (0, b)
      else boot_alloc_at_loop 0 sz zone freeable start fin align b)"

section \<open>Sorting\<close>

lemma sort_shift_split:
  "j < length reg \<Longrightarrow> \<exists>a b. take j reg = a @ b \<and>
     sort_shift reg cur j = a @ cur # b @ drop (Suc j) reg \<and>
     (\<forall>r \<in> set b. r_start cur < r_start r) \<and> (a \<noteq> [] \<longrightarrow> r_start (last a) \<le> r_start cur)"
proof (induction j arbitrary: reg)
  case 0
  then show ?case by (cases reg) auto
next
  case (Suc j)
  have tk: "take (Suc j) reg = take j reg @ [reg ! j]"
    using Suc.prems by (simp add: take_Suc_conv_app_nth)
  show ?case
  proof (cases "r_start cur < r_start (reg ! j)")
    case True
    let ?reg = "reg[Suc j := reg ! j]"
    obtain a b where ab: "take j ?reg = a @ b" "sort_shift ?reg cur j = a @ cur # b @ drop (Suc j) ?reg"
      "\<forall>r \<in> set b. r_start cur < r_start r" "a \<noteq> [] \<longrightarrow> r_start (last a) \<le> r_start cur"
      using Suc.IH [of ?reg] Suc.prems by auto
    have "drop (Suc j) ?reg = reg ! j # drop (Suc (Suc j)) reg"
      using Suc.prems by (simp add: drop_update_swap Cons_nth_drop_Suc [symmetric])
    then show ?thesis
      using ab True tk by (intro exI [of _ a] exI [of _ "b @ [reg ! j]"]) auto
  next
    case False
    have "reg[Suc j := cur] = take (Suc j) reg @ cur # drop (Suc (Suc j)) reg"
      using Suc.prems by (simp add: upd_conv_take_nth_drop)
    then show ?thesis
      using False tk by (intro exI [of _ "take (Suc j) reg"] exI [of _ "[]"]) auto
  qed
qed

definition sorted_regions :: "region list \<Rightarrow> bool" where
  "sorted_regions rs = sorted (map r_start rs)"

lemma sorted_regions_append:
  "sorted_regions (a @ b) \<longleftrightarrow> sorted_regions a \<and> sorted_regions b \<and>
     (\<forall>r \<in> set a. \<forall>s \<in> set b. r_start r \<le> r_start s)"
  by (auto simp: sorted_regions_def sorted_append)

lemma sorted_regions_last:
  "sorted_regions a \<Longrightarrow> r \<in> set a \<Longrightarrow> r_start r \<le> r_start (last a)"
  by (induction a) (auto simp: sorted_regions_def)

lemma sort_shift_sorts:
  assumes "j < length reg" and "sorted_regions (take j reg)"
  shows "sorted_regions (take (Suc j) (sort_shift reg (reg ! j) j))"
    and "mset (sort_shift reg (reg ! j) j) = mset reg"
proof -
  obtain a b where ab: "take j reg = a @ b"
    "sort_shift reg (reg ! j) j = a @ reg ! j # b @ drop (Suc j) reg"
    "\<forall>r \<in> set b. r_start (reg ! j) < r_start r" "a \<noteq> [] \<longrightarrow> r_start (last a) \<le> r_start (reg ! j)"
    using sort_shift_split [OF assms(1)] by blast
  have len: "length a + length b = j" using ab(1) assms(1) by (metis length_append length_take min.absorb4)
  have sa: "sorted_regions a" "sorted_regions b" "\<forall>r \<in> set a. \<forall>s \<in> set b. r_start r \<le> r_start s"
    using assms(2) ab(1) by (auto simp: sorted_regions_append)
  have "\<forall>r \<in> set a. r_start r \<le> r_start (reg ! j)"
    using sorted_regions_last [OF sa(1)] ab(4) by fastforce
  then have "sorted_regions (a @ reg ! j # b)"
    using sa ab(3) by (auto simp: sorted_regions_def sorted_append)
  moreover have "take (Suc j) (sort_shift reg (reg ! j) j) = a @ reg ! j # b"
    unfolding ab(2) using len by (simp add: Suc_diff_le len [symmetric])
  ultimately show "sorted_regions (take (Suc j) (sort_shift reg (reg ! j) j))" by simp
  have "reg = a @ b @ reg ! j # drop (Suc j) reg"
    using assms(1) ab(1) by (metis append_assoc id_take_nth_drop)
  then have "mset reg = mset (a @ b @ reg ! j # drop (Suc j) reg)" by simp
  then show "mset (sort_shift reg (reg ! j) j) = mset reg" unfolding ab(2) by simp
qed

lemma sort_from_sorts:
  "sorted_regions (take i reg) \<Longrightarrow> i \<le> length reg \<Longrightarrow>
   sorted_regions (sort_from reg i) \<and> mset (sort_from reg i) = mset reg"
proof (induction reg i rule: sort_from.induct)
  case (1 reg i)
  show ?case
  proof (cases "i < length reg")
    case True
    then show ?thesis
      using 1 sort_shift_sorts [OF True] by (subst (1 2) sort_from.simps) simp
  next
    case False
    then show ?thesis using 1 by (subst (1 2) sort_from.simps) simp
  qed
qed

lemma sort_regions_correct:
  "sorted_regions (boot_allocator_sort_regions reg)" "mset (boot_allocator_sort_regions reg) = mset reg"
proof -
  have "sorted_regions (boot_allocator_sort_regions reg) \<and> mset (boot_allocator_sort_regions reg) = mset reg"
  proof (cases reg)
    case Nil
    then show ?thesis by (simp add: boot_allocator_sort_regions_def sort_from.simps sorted_regions_def)
  next
    case (Cons r rs)
    then show ?thesis
      unfolding boot_allocator_sort_regions_def by (intro sort_from_sorts) (auto simp: sorted_regions_def)
  qed
  then show "sorted_regions (boot_allocator_sort_regions reg)" "mset (boot_allocator_sort_regions reg) = mset reg"
    by auto
qed

lemma sort_regions_set [simp]: "set (boot_allocator_sort_regions reg) = set reg"
  using sort_regions_correct(2) by (rule mset_eq_setD)

lemma sort_regions_length [simp]: "length (boot_allocator_sort_regions reg) = length reg"
  using sort_regions_correct(2) by (rule mset_eq_length)

section \<open>Merging\<close>

text \<open>The addresses a table stands for, and the tables without empty or wrapped regions.\<close>

definition cover :: "region list \<Rightarrow> u32 set" where
  "cover rs = {a. \<exists>r \<in> set rs. r_start r \<le> a \<and> a < r_end r}"

definition proper :: "region list \<Rightarrow> bool" where
  "proper rs \<longleftrightarrow> (\<forall>r \<in> set rs. r_start r \<le> r_end r)"

lemma cover_simps [simp]:
  "cover [] = {}" "cover (r # rs) = {r_start r ..< r_end r} \<union> cover rs" "cover (a @ b) = cover a \<union> cover b"
  by (auto simp: cover_def)

lemma cover_sort [simp]: "cover (boot_allocator_sort_regions reg) = cover reg"
  by (simp add: cover_def)

lemma proper_simps [simp]:
  "proper []" "proper (r # rs) \<longleftrightarrow> r_start r \<le> r_end r \<and> proper rs" "proper (a @ b) \<longleftrightarrow> proper a \<and> proper b"
  by (auto simp: proper_def)

lemma proper_sort [simp]: "proper (boot_allocator_sort_regions reg) = proper reg"
  by (simp add: proper_def)

definition strict :: "region list \<Rightarrow> bool" where
  "strict rs \<longleftrightarrow> (\<forall>r \<in> set rs. r_start r < r_end r)"

lemma strict_simps [simp]:
  "strict []" "strict (r # rs) \<longleftrightarrow> r_start r < r_end r \<and> strict rs" "strict (a @ b) \<longleftrightarrow> strict a \<and> strict b"
  by (auto simp: strict_def)

text \<open>How many regions of a table hold an address; the regions are disjoint when it is at most one.\<close>

definition hits :: "u32 \<Rightarrow> region list \<Rightarrow> nat" where
  "hits a rs = length (filter (\<lambda>r. r_start r \<le> a \<and> a < r_end r) rs)"

definition disjoint_regions :: "region list \<Rightarrow> bool" where
  "disjoint_regions rs \<longleftrightarrow> (\<forall>a. hits a rs \<le> 1)"

lemma hits_simps [simp]:
  "hits a [] = 0" "hits a (r # rs) = of_bool (r_start r \<le> a \<and> a < r_end r) + hits a rs"
  "hits a (xs @ ys) = hits a xs + hits a ys"
  by (simp_all add: hits_def)

lemma cover_hits: "cover rs = {a. 0 < hits a rs}"
  by (induction rs) auto

lemma hits_sort [simp]: "hits a (boot_allocator_sort_regions rs) = hits a rs"
proof -
  have "mset (filter P (boot_allocator_sort_regions rs)) = mset (filter P rs)" for P
    by (simp add: sort_regions_correct(2))
  then show ?thesis unfolding hits_def by (rule mset_eq_length)
qed

text \<open>
  A region that ends at 4 GiB has the end 0 in 32 bits. Such a region stands for no address; a table is tame when
  nothing ends where such a region starts, so that merging does not absorb another region into it.
\<close>

definition tame :: "region list \<Rightarrow> bool" where
  "tame rs \<longleftrightarrow> (\<forall>r \<in> set rs. r_start r \<le> r_end r \<or> r_end r = 0 \<and> (\<forall>s \<in> set rs. r_end s \<noteq> r_start r))"

lemma proper_tame: "proper rs \<Longrightarrow> tame rs"
  by (simp add: proper_def tame_def)

lemma strict_proper: "strict rs \<Longrightarrow> proper rs"
  by (auto simp: proper_def strict_def)

lemma tame_sort [simp]: "tame (boot_allocator_sort_regions reg) = tame reg"
  by (simp add: tame_def)

lemma strict_sort [simp]: "strict (boot_allocator_sort_regions reg) = strict reg"
  by (simp add: strict_def)

text \<open>Two regions of a tame sorted table that the loop merges.\<close>

lemma merge_two:
  assumes "sorted_regions (xs @ cur # r # rs)" and "tame (xs @ cur # r # rs)" and "r_end cur = r_start r"
  defines "m \<equiv> cur\<lparr>r_end := r_end r\<rparr>"
  shows "sorted_regions (xs @ m # rs)" and "tame (xs @ m # rs)"
    and "hits a (xs @ m # rs) = hits a (xs @ cur # r # rs)"
    and "proper (xs @ cur # r # rs) \<Longrightarrow> proper (xs @ m # rs)" and "strict (xs @ cur # r # rs) \<Longrightarrow> strict (xs @ m # rs)"
proof -
  have le: "r_start cur \<le> r_start r" using assms(1) by (simp add: sorted_regions_def sorted_append)
  have r: "r_start r \<le> r_end r" using assms(2,3) by (auto simp: tame_def)
  have cur: "r_start cur \<le> r_end cur" using assms(3) le by simp
  show "sorted_regions (xs @ m # rs)" using assms(1) by (auto simp: sorted_regions_def sorted_append m_def)
  have "r_start m \<le> r_end m" using le r by (simp add: m_def)
  then show "tame (xs @ m # rs)" using assms(2) by (auto simp: tame_def m_def)
  show "hits a (xs @ m # rs) = hits a (xs @ cur # r # rs)"
    using assms(3) r cur by (auto simp: m_def of_bool_def)
  show "proper (xs @ cur # r # rs) \<Longrightarrow> proper (xs @ m # rs)" using assms(3) by (auto simp: m_def)
  show "strict (xs @ cur # r # rs) \<Longrightarrow> strict (xs @ m # rs)" using assms(3) by (auto simp: m_def)
qed

lemma merge_loop_spec:
  assumes "sorted_regions (merged @ cur # rs)" and "tame (merged @ cur # rs)"
    and "merge_loop cur rs merged = Inr out"
  shows "sorted_regions out \<and> tame out \<and> length out \<le> MAX_REGIONS \<and> length out \<le> length (merged @ cur # rs) \<and>
    (\<forall>a. hits a out = hits a (merged @ cur # rs)) \<and>
    (proper (merged @ cur # rs) \<longrightarrow> proper out) \<and> (strict (merged @ cur # rs) \<longrightarrow> strict out)"
  using assms
proof (induction cur rs merged rule: merge_loop.induct)
  case (1 cur merged)
  then show ?case by (auto split: if_splits)
next
  case (2 cur r rs merged)
  show ?case
  proof (cases "r_end cur = r_start r")
    case True
    note m = merge_two [OF 2(3,4) True]
    show ?thesis using 2(1) [OF True m(1,2)] 2(5) True m(3-5) by simp
  next
    case False
    then show ?thesis using 2 by (auto split: if_splits)
  qed
qed

lemma merge_loop_returns:
  "length merged + length rs < MAX_REGIONS \<Longrightarrow> \<exists>out. merge_loop cur rs merged = Inr out"
  by (induction cur rs merged rule: merge_loop.induct) auto

lemma sort_sorted_hd:
  assumes "sorted_regions reg"
  shows "boot_allocator_sort_regions reg = reg"
proof -
  have id: "sort_shift r (r ! i) i = r" if "sorted_regions r" "i < length r" for r i
    using that
  proof (cases i)
    case (Suc j)
    then have "\<not> r_start (r ! i) < r_start (r ! j)"
      using that by (auto simp: sorted_regions_def sorted_iff_nth_mono not_less)
    then show ?thesis using Suc by simp
  qed simp
  have "sort_from r i = r" if "sorted_regions r" for r i
    using that
  proof (induction r i rule: sort_from.induct)
    case (1 r i)
    then show ?case using id [of r i] by (subst sort_from.simps) simp
  qed
  then show ?thesis using assms by (simp add: boot_allocator_sort_regions_def)
qed

lemma sort_merge_tame:
  assumes "tame reg" and "length reg \<le> MAX_REGIONS"
  shows "\<exists>out. BOOT_ALLOCATOR_SORT_AND_MERGE reg = Inr out \<and> (\<forall>a. hits a out = hits a reg) \<and>
    sorted_regions out \<and> tame out \<and> length out \<le> length reg \<and> (proper reg \<longrightarrow> proper out) \<and> (strict reg \<longrightarrow> strict out)"
proof (cases "boot_allocator_sort_regions reg")
  case Nil
  then have "reg = []" using sort_regions_length [of reg] by simp
  then show ?thesis
    using Nil by (simp add: BOOT_ALLOCATOR_SORT_AND_MERGE_def boot_allocator_merge_contiguous_regions_def
        sorted_regions_def tame_def)
next
  case (Cons cur rs)
  have sorted: "sorted_regions (cur # rs)" and tm: "tame (cur # rs)" and len: "length (cur # rs) = length reg"
    and h: "hits a (cur # rs) = hits a reg" and ps: "proper (cur # rs) = proper reg" "strict (cur # rs) = strict reg" for a
    using sort_regions_correct(1) [of reg] tame_sort [of reg] hits_sort [of a reg] sort_regions_length [of reg]
      proper_sort [of reg] strict_sort [of reg] assms unfolding Cons by auto
  have eq: "BOOT_ALLOCATOR_SORT_AND_MERGE reg = merge_loop cur rs []"
    using sort_sorted_hd [OF sorted]
    by (simp add: BOOT_ALLOCATOR_SORT_AND_MERGE_def boot_allocator_merge_contiguous_regions_def Cons)
  obtain out where out: "merge_loop cur rs [] = Inr out" using merge_loop_returns [of "[]" rs] len assms(2) by auto
  show ?thesis
    using merge_loop_spec [of "[]", OF _ _ out] sorted tm h ps len eq out by auto
qed

lemma cover_eqI: "(\<And>a. hits a xs = hits a ys) \<Longrightarrow> cover xs = cover ys"
  by (simp add: cover_hits)

lemma sort_merge_spec:
  assumes "proper reg" and "length reg \<le> MAX_REGIONS"
  shows "\<exists>out. BOOT_ALLOCATOR_SORT_AND_MERGE reg = Inr out \<and> cover out = cover reg \<and>
    sorted_regions out \<and> proper out \<and> length out \<le> MAX_REGIONS"
  using sort_merge_tame [OF proper_tame [OF assms(1)] assms(2)] assms by (metis cover_eqI le_trans)

section \<open>Free memory is the complement of the reserved regions\<close>

lemma add_region_spec:
  assumes "s < e" and "length (regions b t) < MAX_REGIONS"
  shows "boot_allocator_add_region s e t b =
    Inr (b\<lparr>regions := (regions b)(t := regions b t @ [\<lparr>r_start = s, r_end = e\<rparr>])\<rparr>)"
  using assms by (auto simp: boot_allocator_add_region_def)

lemma overlaps_cover:
  assumes "strict (regions b t)" and "s < e"
  shows "boot_allocator_range_overlaps s e t b \<longleftrightarrow> cover (regions b t) \<inter> {s ..< e} \<noteq> {}"
proof -
  have "\<not> (e \<le> r_start r \<or> r_end r \<le> s) \<longleftrightarrow> {r_start r ..< r_end r} \<inter> {s ..< e} \<noteq> {}"
    if "r_start r < r_end r" for r
  proof
    assume "\<not> (e \<le> r_start r \<or> r_end r \<le> s)"
    then have "max (r_start r) s \<in> {r_start r ..< r_end r} \<inter> {s ..< e}"
      using that assms(2) by auto
    then show "{r_start r ..< r_end r} \<inter> {s ..< e} \<noteq> {}" by blast
  qed auto
  then show ?thesis
    using assms(1) unfolding boot_allocator_range_overlaps_def list_ex_iff strict_def cover_def
    by fastforce
qed

text \<open>The state with another table of free regions.\<close>

definition with_free :: "region list \<Rightarrow> boot_state \<Rightarrow> boot_state" where
  "with_free fs b = b\<lparr>regions := (regions b)(FREE_MEMORY := fs)\<rparr>"

lemma with_free_simps [simp]:
  "regions (with_free fs b) FREE_MEMORY = fs" "with_free fs' (with_free fs b) = with_free fs' b"
  "with_free (regions b FREE_MEMORY) b = b"
  "k \<noteq> FREE_MEMORY \<Longrightarrow> regions (with_free fs b) k = regions b k"
  by (simp_all add: with_free_def)

text \<open>One step of the loop: the free piece below a reserved region.\<close>

lemma free_piece:
  assumes "strict (regions b FREE_MEMORY)" and "cover (regions b FREE_MEMORY) \<inter> {cur ..< fin} = {}"
    and "e \<le> fin" and "length (regions b FREE_MEMORY) < MAX_REGIONS"
  shows "\<exists>fs. (if cur < e \<and> \<not> boot_allocator_range_overlaps cur e FREE_MEMORY b
       then boot_allocator_add_region cur e FREE_MEMORY b else Inr b) = Inr (with_free fs b) \<and>
     (\<forall>a. hits a fs = hits a (regions b FREE_MEMORY) + of_bool (a \<in> {cur ..< e})) \<and>
     strict fs \<and> length fs \<le> Suc (length (regions b FREE_MEMORY))"
proof (cases "cur < e")
  case True
  have "{cur ..< e} \<subseteq> {cur ..< fin}" using assms(3) by auto
  then have "\<not> boot_allocator_range_overlaps cur e FREE_MEMORY b"
    using overlaps_cover [OF assms(1) True] assms(2) by blast
  then show ?thesis
    using True assms by (intro exI [of _ "regions b FREE_MEMORY @ [\<lparr>r_start = cur, r_end = e\<rparr>]"])
      (simp add: add_region_spec with_free_def)
next
  case False
  then show ?thesis using assms by (intro exI [of _ "regions b FREE_MEMORY"]) (auto simp: of_bool_def)
qed

lemma free_handler_loop_spec:
  assumes "sorted_regions rs" and "tame rs" and "strict (regions b FREE_MEMORY)"
    and "cover (regions b FREE_MEMORY) \<inter> {cur ..< fin} = {}"
    and "length (regions b FREE_MEMORY) + length rs < MAX_REGIONS"
  shows "\<exists>fs. free_handler_loop rs cur fin b = Inr (with_free fs b) \<and>
     (\<forall>a. hits a fs = hits a (regions b FREE_MEMORY) + of_bool (a \<in> {cur ..< fin} - cover rs)) \<and>
     strict fs \<and> length fs \<le> Suc (length (regions b FREE_MEMORY) + length rs)"
  using assms
proof (induction rs arbitrary: cur b)
  case Nil
  then show ?case using free_piece [OF Nil.prems(3,4), of fin] by auto
next
  case (Cons res rs)
  have srt: "sorted_regions rs" "\<forall>r \<in> set rs. r_start res \<le> r_start r" and tm: "tame rs"
    using Cons.prems(1,2) by (auto simp: sorted_regions_def tame_def)
  have above: "a \<notin> cover rs" if "a < r_start res" for a
    using srt(2) that by (auto simp: cover_def)
  show ?case
  proof (cases "r_end res \<le> cur \<or> fin \<le> r_start res")
    case True
    then have "{r_start res ..< r_end res} \<inter> {cur ..< fin} = {}" by auto
    then have cov: "{cur ..< fin} - cover (res # rs) = {cur ..< fin} - cover rs" unfolding cover_simps by blast
    have eq: "free_handler_loop (res # rs) cur fin b = free_handler_loop rs cur fin b"
      using True by simp
    show ?thesis
      unfolding cov eq using Cons.IH [OF srt(1) tm Cons.prems(3,4)] Cons.prems(5) by fastforce
  next
    case False
    then have pr: "r_start res \<le> r_end res" using Cons.prems(2) by (auto simp: tame_def)
    have "length (regions b FREE_MEMORY) < MAX_REGIONS" using Cons.prems(5) by simp
    then obtain fs where fs: "(if cur < r_start res \<and> \<not> boot_allocator_range_overlaps cur (r_start res) FREE_MEMORY b
       then boot_allocator_add_region cur (r_start res) FREE_MEMORY b else Inr b) = Inr (with_free fs b)"
      "\<And>a. hits a fs = hits a (regions b FREE_MEMORY) + of_bool (a \<in> {cur ..< r_start res})"
      "strict fs" "length fs \<le> Suc (length (regions b FREE_MEMORY))"
      using free_piece [OF Cons.prems(3,4), of "r_start res"] False by (meson linear)
    have step: "free_handler_loop (res # rs) cur fin b =
        (if fin \<le> r_end res then Inr (with_free fs b) else free_handler_loop rs (r_end res) fin (with_free fs b))"
      using False unfolding free_handler_loop.simps fs(1) by (auto simp: Let_def)
    have cov: "{cur ..< fin} - cover (res # rs) = {cur ..< r_start res} \<union> ({r_end res ..< fin} - cover rs)"
      using False above pr by auto
    show ?thesis
    proof (cases "fin \<le> r_end res")
      case True
      then show ?thesis using step fs cov by (intro exI [of _ fs]) auto
    next
      case more: False
      have d: "{r_end res ..< fin} \<subseteq> {cur ..< fin}" "{cur ..< r_start res} \<inter> {r_end res ..< fin} = {}"
        using False pr by auto
      have "cover fs = cover (regions b FREE_MEMORY) \<union> {cur ..< r_start res}" by (auto simp: cover_hits fs(2))
      then have "cover (regions (with_free fs b) FREE_MEMORY) \<inter> {r_end res ..< fin} = {}"
        using Cons.prems(4) d unfolding with_free_simps by blast
      then obtain gs where gs: "free_handler_loop rs (r_end res) fin (with_free fs b) = Inr (with_free gs b)"
        "\<And>a. hits a gs = hits a fs + of_bool (a \<in> {r_end res ..< fin} - cover rs)" "strict gs"
        "length gs \<le> Suc (length fs + length rs)"
        using Cons.IH [OF srt(1) tm, of "with_free fs b" "r_end res"] fs(3,4) Cons.prems(5) by auto
      have "of_bool (a \<in> {cur ..< r_start res}) + of_bool (a \<in> {r_end res ..< fin} - cover rs) =
          (of_bool (a \<in> {cur ..< fin} - cover (res # rs)) :: nat)" for a
        unfolding cov using d(2) by (auto simp: of_bool_def)
      then show ?thesis using gs fs(2,4) step more by (intro exI [of _ gs]) (auto simp: add.assoc)
    qed
  qed
qed

section \<open>Allocation moves a block from the free to the reserved side\<close>

lemma add_to_zones_spec:
  assumes "proper (z (boot_alloc_get_addr_zone s))" and "s \<le> s + n"
    and "length (z (boot_alloc_get_addr_zone s)) < MAX_REGIONS"
  shows "\<exists>z'. boot_allocator_add_to_zones z n s = Inr z' \<and>
     (\<Union>k. cover (z' k)) = (\<Union>k. cover (z k)) \<union> {s ..< s + n} \<and>
     (\<forall>k. proper (z k) \<longrightarrow> proper (z' k))"
proof -
  let ?k = "boot_alloc_get_addr_zone s" and ?r = "\<lparr>r_start = s, r_end = s + n\<rparr>"
  obtain out where out: "BOOT_ALLOCATOR_SORT_AND_MERGE (z ?k @ [?r]) = Inr out"
    "cover out = cover (z ?k) \<union> {s ..< s + n}" "proper out"
    using sort_merge_spec [of "z ?k @ [?r]"] assms by auto
  have "(\<Union>k. cover ((z(?k := out)) k)) = (\<Union>k. cover (z k)) \<union> {s ..< s + n}"
    using out(2) by (auto split: if_splits)
  then show ?thesis
    using assms(3) out by (auto simp: boot_allocator_add_to_zones_def Let_def)
qed

lemma hits_update:
  "i < length rs \<Longrightarrow> hits a (rs[i := r]) + hits a [rs ! i] = hits a rs + hits a [r]"
proof (induction rs arbitrary: i)
  case (Cons x xs)
  show ?case
  proof (cases i)
    case (Suc j)
    then have "hits a (xs[j := r]) + hits a [xs ! j] = hits a xs + hits a [r]"
      using Cons.IH [of j] Cons.prems by simp
    then show ?thesis using Suc by (simp only: list_update_code(3) hits_simps(2) nth_Cons_Suc)
  qed simp
qed simp

lemma hits_remove_swap:
  assumes "i < length xs"
  shows "hits a (remove_swap i xs) + hits a [xs ! i] = hits a xs"
proof -
  have "xs \<noteq> []" using assms by auto
  then obtain ys y where xs: "xs = ys @ [y]" by (metis rev_exhaust)
  show ?thesis
  proof (cases "i = length ys")
    case True
    then show ?thesis by (simp add: remove_swap_def xs)
  next
    case False
    then have "i < length ys" using assms xs by simp
    then show ?thesis
      using hits_update [of i ys a y]
      by (simp add: remove_swap_def xs list_update_append butlast_append nth_append)
  qed
qed

lemma set_remove_swap: "i < length xs \<Longrightarrow> set (remove_swap i xs) \<subseteq> set xs"
  unfolding remove_swap_def
  by (metis in_set_butlastD last_in_set length_greater_0_conv less_nat_zero_code list.size(3)
      neq0_conv set_update_subset_insert subset_iff insert_absorb)

definition boot_ok :: "zone_type \<Rightarrow> boot_state \<Rightarrow> bool" where
  "boot_ok zone b \<longleftrightarrow> proper (free_zones b zone) \<and> disjoint_regions (free_zones b zone) \<and>
     (\<forall>k. proper (res_zones b k) \<and> length (res_zones b k) < MAX_REGIONS) \<and>
     length (allocations b) < MAX_REGIONS \<and> length (free_zones b zone) < MAX_REGIONS"

text \<open>The tables after the block \<open>[r, r + sz)\<close> has been taken from a zone.\<close>

definition took_block :: "u32 \<Rightarrow> u32 \<Rightarrow> zone_type \<Rightarrow> boot_state \<Rightarrow> boot_state \<Rightarrow> bool" where
  "took_block r sz zone b b' \<longleftrightarrow> r < r + sz \<and> {r ..< r + sz} \<subseteq> cover (free_zones b zone) \<and>
     cover (free_zones b' zone) = cover (free_zones b zone) - {r ..< r + sz} \<and>
     disjoint_regions (free_zones b' zone) \<and> proper (free_zones b' zone) \<and>
     (\<forall>k. k \<noteq> zone \<longrightarrow> free_zones b' k = free_zones b k) \<and>
     (\<Union>k. cover (res_zones b' k)) = (\<Union>k. cover (res_zones b k)) \<union> {r ..< r + sz} \<and>
     (\<forall>k. proper (res_zones b' k))"

text \<open>Cutting the block off the end of region \<open>i\<close>, as \<^verbatim>\<open>boot_alloc\<close> does.\<close>

definition cut_end :: "nat \<Rightarrow> u32 \<Rightarrow> region list \<Rightarrow> region list" where
  "cut_end i ret zs = (let reg' = (zs ! i)\<lparr>r_end := ret\<rparr>; zs = zs[i := reg'] in
     if r_start reg' = r_end reg' then remove_swap i zs else zs)"

lemma cut_end_spec:
  assumes "i < length zs" and "r_start (zs ! i) \<le> ret" and "ret \<le> r_end (zs ! i)" and "proper zs"
  shows "hits a (cut_end i ret zs) + of_bool (ret \<le> a \<and> a < r_end (zs ! i)) = hits a zs"
    and "proper (cut_end i ret zs)"
proof -
  let ?reg = "(zs ! i)\<lparr>r_end := ret\<rparr>" and ?zs = "zs[i := (zs ! i)\<lparr>r_end := ret\<rparr>]"
  have "hits a [?reg] = 0" if "r_start (zs ! i) = ret" using that by auto
  then have "hits a (cut_end i ret zs) = hits a ?zs"
    using hits_remove_swap [of i ?zs a] assms(1)
    by (cases "r_start (zs ! i) = ret") (simp_all add: cut_end_def Let_def del: hits_simps(2))
  moreover have "hits a [zs ! i] = hits a [?reg] + of_bool (ret \<le> a \<and> a < r_end (zs ! i))"
    using assms(2,3) by (auto simp: of_bool_def)
  ultimately show "hits a (cut_end i ret zs) + of_bool (ret \<le> a \<and> a < r_end (zs ! i)) = hits a zs"
    using hits_update [OF assms(1), of a ?reg] by linarith
  have p: "proper ?zs"
    using assms(1,2,4) set_update_subset_insert [of zs i ?reg] by (auto simp: proper_def)
  then show "proper (cut_end i ret zs)"
    using set_remove_swap [of i ?zs] assms(1) by (auto simp: cut_end_def Let_def proper_def)
qed

lemma word_diff_range:
  assumes "s \<le> e" and "n \<le> e - s"
  shows "s \<le> e - n" and "e - n \<le> (e :: u32)"
proof -
  have "unat n \<le> unat e - unat s" using assms by (simp add: word_le_nat_alt unat_sub)
  then have n: "n \<le> e" by (simp add: word_le_nat_alt)
  then have "unat (e - n) = unat e - unat n" by (rule unat_sub)
  then show "s \<le> e - n" "e - n \<le> e"
    using \<open>unat n \<le> unat e - unat s\<close> assms(1) by (auto simp: word_le_nat_alt)
qed

lemma boot_alloc_loop_spec:
  assumes "boot_ok zone b" and "0 < sz" and "n \<le> length (free_zones b zone)"
  shows "\<exists>r b'. boot_alloc_loop n sz zone freeable b = Inr (r, b') \<and>
    (r = 0 \<and> b' = b \<and> (\<forall>reg \<in> set (take n (free_zones b zone)). r_end reg - r_start reg < sz) \<or>
     took_block r sz zone b b')"
  using assms(3)
proof (induction n)
  case 0
  then show ?case by simp
next
  case (Suc i)
  let ?fz = "free_zones b zone"
  let ?reg = "?fz ! i" and ?ret = "r_end (?fz ! i) - sz"
  have i: "i < length ?fz" using Suc.prems by simp
  have ok: "proper ?fz" "disjoint_regions ?fz" "\<And>k. proper (res_zones b k)"
    "\<And>k. length (res_zones b k) < MAX_REGIONS" "length (allocations b) < MAX_REGIONS"
    using assms(1) by (auto simp: boot_ok_def)
  have reg: "r_start ?reg \<le> r_end ?reg" using ok(1) i by (simp add: proper_def)
  show ?case
  proof (cases "sz \<le> r_end ?reg - r_start ?reg")
    case False
    then have eq: "boot_alloc_loop (Suc i) sz zone freeable b = boot_alloc_loop i sz zone freeable b"
      by (simp add: Let_def)
    obtain r b' where "boot_alloc_loop i sz zone freeable b = Inr (r, b')"
      "r = 0 \<and> b' = b \<and> (\<forall>reg \<in> set (take i ?fz). r_end reg - r_start reg < sz) \<or> took_block r sz zone b b'"
      using Suc.IH Suc.prems by auto
    then show ?thesis
      unfolding eq using False i by (intro exI [of _ r] exI [of _ b']) (auto simp: take_Suc_conv_app_nth not_le)
  next
    case True
    have rng: "r_start ?reg \<le> ?ret" "?ret \<le> r_end ?reg" by (rule word_diff_range [OF reg True])+
    have bk: "?ret + sz = r_end ?reg" by simp
    then obtain rz where rz: "boot_allocator_add_to_zones (res_zones b) sz ?ret = Inr rz"
      "(\<Union>k. cover (rz k)) = (\<Union>k. cover (res_zones b k)) \<union> {?ret ..< ?ret + sz}"
      "\<forall>k. proper (res_zones b k) \<longrightarrow> proper (rz k)"
      using add_to_zones_spec [of "res_zones b" ?ret sz] ok rng by auto
    let ?b = "b\<lparr>res_zones := rz, free_zones := (free_zones b)(zone := cut_end i ?ret ?fz),
       allocations := allocations b @ [\<lparr>ba_addr = ?ret, ba_size = sz, ba_free = freeable\<rparr>]\<rparr>"
    have eq: "boot_alloc_loop (Suc i) sz zone freeable b = Inr (?ret, ?b)"
      using True rng rz(1) ok(5) by (simp add: Let_def cut_end_def log_allocation_def not_less)
    note cut = cut_end_spec [OF i rng ok(1)]
    have hit: "hits a (cut_end i ?ret ?fz) + of_bool (a \<in> {?ret ..< ?ret + sz}) = hits a ?fz" for a
      using cut(1) [of a] by simp
    have "a \<in> cover ?fz" if "a \<in> {?ret ..< ?ret + sz}" for a
      using hit [of a] that unfolding cover_hits by simp
    moreover have "cover (cut_end i ?ret ?fz) = cover ?fz - {?ret ..< ?ret + sz}"
    proof (rule set_eqI)
      fix a
      show "a \<in> cover (cut_end i ?ret ?fz) \<longleftrightarrow> a \<in> cover ?fz - {?ret ..< ?ret + sz}"
        using hit [of a] ok(2) [unfolded disjoint_regions_def, rule_format, of a]
        unfolding cover_hits
        by (cases "a \<in> {?ret ..< ?ret + sz}") (simp_all del: atLeastLessThan_iff)
    qed
    moreover have "disjoint_regions (cut_end i ?ret ?fz)"
      using hit ok(2) unfolding disjoint_regions_def by (metis add_leE)
    moreover have "?ret < ?ret + sz" using bk rng(2) assms(2) by (metis add_cancel_right_right
          order_le_less word_gt_0)
    ultimately have "took_block ?ret sz zone b ?b"
      using rz(2,3) ok(3) cut(2) unfolding took_block_def by auto
    then show ?thesis using eq by blast
  qed
qed

section \<open>Properties\<close>

text \<open>Sorting and merging a table of at most \<^verbatim>\<open>MAX_REGIONS\<close> regions succeeds and gives a sorted
  table of regions that stands for exactly the same addresses.\<close>

theorem boot_sort_and_merge_correct:
  assumes "proper reg" and "length reg \<le> MAX_REGIONS"
  shows "\<exists>out. BOOT_ALLOCATOR_SORT_AND_MERGE reg = Inr out \<and> cover out = cover reg \<and>
    sorted_regions out \<and> proper out \<and> length out \<le> MAX_REGIONS"
  using assms by (rule sort_merge_spec)

theorem boot_sort_and_merge_correct_witness:
  "\<exists>out. BOOT_ALLOCATOR_SORT_AND_MERGE [\<lparr>r_start = 8, r_end = 9\<rparr>, \<lparr>r_start = 2, r_end = 8\<rparr>] = Inr out \<and>
     cover out = {2 ..< 9} \<and> sorted_regions out"
proof -
  have "{8 ..< 9} \<union> {2 ..< 8} = {2 ..< (9 :: u32)}"
    by (subst Un_commute, rule ivl_disj_un) simp_all
  then show ?thesis
    using boot_sort_and_merge_correct [of "[\<lparr>r_start = 8, r_end = 9\<rparr>, \<lparr>r_start = 2, r_end = 8\<rparr>]"]
    by (auto simp: MAX_REGIONS_def)
qed

text \<open>For an available range of the memory map that no free region overlaps yet, the handler adds to
  the free memory exactly the addresses of the range that no reserved region holds, and leaves
  the reserved regions alone.\<close>

theorem boot_free_handler_complement:
  assumes "sorted_regions (regions b RESERVED_MEMORY)" and "proper (regions b RESERVED_MEMORY)"
    and "strict (regions b FREE_MEMORY)" and "cover (regions b FREE_MEMORY) \<inter> {start ..< fin} = {}"
    and "length (regions b FREE_MEMORY) + length (regions b RESERVED_MEMORY) < MAX_REGIONS"
  shows "\<exists>b'. boot_allocator_free_handler start fin b = Inr b' \<and>
    cover (regions b' FREE_MEMORY) =
      cover (regions b FREE_MEMORY) \<union> ({start ..< fin} - cover (regions b RESERVED_MEMORY)) \<and>
    strict (regions b' FREE_MEMORY) \<and> regions b' RESERVED_MEMORY = regions b RESERVED_MEMORY"
proof -
  obtain fs where "boot_allocator_free_handler start fin b = Inr (with_free fs b)" "strict fs"
    "\<And>a. hits a fs = hits a (regions b FREE_MEMORY) + of_bool (a \<in> {start ..< fin} - cover (regions b RESERVED_MEMORY))"
    using free_handler_loop_spec [OF assms(1) proper_tame [OF assms(2)] assms(3-5)]
    by (auto simp: boot_allocator_free_handler_def)
  then show ?thesis by (intro exI [of _ "with_free fs b"]) (auto simp: cover_hits)
qed

definition boot_example :: boot_state where
  "boot_example = \<lparr>frozen = False, allocations = [],
     regions = (\<lambda>t. if t = RESERVED_MEMORY then [\<lparr>r_start = 0x1000, r_end = 0x3000\<rparr>] else []),
     free_zones = (\<lambda>z. if z = LOWMEM_ZONE then [\<lparr>r_start = 0x2000000, r_end = 0x2010000\<rparr>] else []),
     res_zones = (\<lambda>_. []), total_pages = 0, total_RAM = 0\<rparr>"

theorem boot_free_handler_complement_witness:
  "\<exists>b'. boot_allocator_free_handler 0 0x4000 boot_example = Inr b' \<and>
     cover (regions b' FREE_MEMORY) = {0 ..< 0x4000} - {0x1000 ..< 0x3000}"
  using boot_free_handler_complement [of boot_example 0 "0x4000"]
  by (auto simp: boot_example_def sorted_regions_def MAX_REGIONS_def)

text \<open>While the allocator is active, an allocation from a zone either finds no region that is large
  enough, returns null and changes nothing, or returns the start of a block of free memory of the zone,
  removes exactly that block from the free memory and adds it to the reserved memory, keeping the
  free regions disjoint.\<close>

theorem boot_alloc_correct:
  assumes "boot_ok zone b" and "0 < sz" and "\<not> frozen b"
  shows "\<exists>r b'. boot_alloc sz zone freeable b = Inr (r, b') \<and>
    (r = 0 \<and> b' = b \<and> (\<forall>reg \<in> set (free_zones b zone). r_end reg - r_start reg < sz) \<or>
     took_block r sz zone b b')"
  using boot_alloc_loop_spec [OF assms(1,2) order_refl] assms(3) by (simp add: boot_alloc_def)

theorem boot_alloc_correct_witness:
  "\<exists>r b'. boot_alloc 0x4000 LOWMEM_ZONE False boot_example = Inr (r, b') \<and>
     took_block r 0x4000 LOWMEM_ZONE boot_example b'"
proof -
  have "boot_ok LOWMEM_ZONE boot_example"
    by (simp add: boot_ok_def boot_example_def disjoint_regions_def MAX_REGIONS_def)
  from boot_alloc_correct [OF this, of "0x4000" False] show ?thesis
    by (auto simp: boot_example_def)
qed

end
