(* ===== verification/Page.thy ===== *)
theory Page
  imports Boot_Allocator
begin

text \<open>
  \<^verbatim>\<open>src/memory/page.c\<close> and \<^verbatim>\<open>include/memory/page.h\<close>: one descriptor per physical page frame. A
  \<^verbatim>\<open>struct page *\<close> is the index of its descriptor in \<^verbatim>\<open>page_descriptors\<close>; the list node inside a
  descriptor is modelled by the lists of the components that link it (see \<open>Buddy\<close>), the rest of
  the descriptor by the record \<open>page\<close>.
\<close>

section \<open>Descriptors\<close>

record page =
  flags :: u32
  private_data :: u32

type_synonym descriptors = "nat \<Rightarrow> page"

definition MAX_PAGES :: nat where
  "MAX_PAGES = 2 ^ 20"

definition PAGE_MAGIC :: u32 where
  "PAGE_MAGIC = 0xDEADBEEF"

definition PAGE_STATE_MASK :: u32 where "PAGE_STATE_MASK = 7"
definition PAGE_ZONE_MASK :: u32 where "PAGE_ZONE_MASK = 56"

definition PAGE_STATE_UNUSABLE :: u32 where "PAGE_STATE_UNUSABLE = 0"
definition PAGE_STATE_RESERVED :: u32 where "PAGE_STATE_RESERVED = 1"
definition PAGE_STATE_AVAILABLE :: u32 where "PAGE_STATE_AVAILABLE = 2"
definition PAGE_STATE_FREE :: u32 where "PAGE_STATE_FREE = 3"
definition PAGE_STATE_ALLOCATED :: u32 where "PAGE_STATE_ALLOCATED = 4"
definition PAGE_STATE_SLAB :: u32 where "PAGE_STATE_SLAB = 6"

definition PAGE_ZONE_DMA :: u32 where "PAGE_ZONE_DMA = 8"
definition PAGE_ZONE_LOWMEM :: u32 where "PAGE_ZONE_LOWMEM = 16"
definition PAGE_ZONE_HIGHMEM :: u32 where "PAGE_ZONE_HIGHMEM = 32"

definition PAGE_GET_STATE :: "page \<Rightarrow> u32" where
  "PAGE_GET_STATE p = flags p AND PAGE_STATE_MASK"

definition PAGE_GET_ZONE :: "page \<Rightarrow> u32" where
  "PAGE_GET_ZONE p = flags p AND PAGE_ZONE_MASK"

definition PAGE_SET_STATE :: "u32 \<Rightarrow> page \<Rightarrow> page" where
  "PAGE_SET_STATE state p = p\<lparr>flags := (flags p AND NOT PAGE_STATE_MASK) OR state\<rparr>"

definition PAGE_IS_FREE :: "page \<Rightarrow> bool" where
  "PAGE_IS_FREE p \<longleftrightarrow> PAGE_GET_STATE p = PAGE_STATE_FREE"

definition PAGE_IS_ALLOCATED :: "page \<Rightarrow> bool" where
  "PAGE_IS_ALLOCATED p \<longleftrightarrow> PAGE_GET_STATE p = PAGE_STATE_ALLOCATED"

section \<open>Operations\<close>

definition page_addr_is_in_reg :: "region list \<Rightarrow> u32 \<Rightarrow> bool" where
  "page_addr_is_in_reg regs addr = list_ex (\<lambda>reg. r_start reg \<le> addr \<and> addr < r_end reg) regs"

fun state_flag_loop :: "zone_type list \<Rightarrow> boot_state \<Rightarrow> u32 \<Rightarrow> u32" where
  "state_flag_loop [] b addr = PAGE_STATE_UNUSABLE"
| "state_flag_loop (zone # zones) b addr =
     (if page_addr_is_in_reg (free_zones b zone) addr then PAGE_STATE_AVAILABLE
      else if page_addr_is_in_reg (res_zones b zone) addr then PAGE_STATE_RESERVED
      else state_flag_loop zones b addr)"

definition page_get_state_flag :: "boot_state \<Rightarrow> u32 \<Rightarrow> u32" where
  "page_get_state_flag b addr = state_flag_loop [LOWMEM_ZONE, DMA_ZONE, HIGHMEM_ZONE] b addr"

definition page_get_zone_flag :: "u32 \<Rightarrow> u32" where
  "page_get_zone_flag addr =
     (if HIGHMEM_START \<le> addr then PAGE_ZONE_HIGHMEM
      else if LOWMEM_START \<le> addr then PAGE_ZONE_LOWMEM else PAGE_ZONE_DMA)"

definition page_get_appropriate_flag :: "boot_state \<Rightarrow> u32 \<Rightarrow> u32" where
  "page_get_appropriate_flag b addr = page_get_state_flag b addr OR page_get_zone_flag addr"

text \<open>\<^verbatim>\<open>page_descriptor_foreach\<close> with the two counting handlers.\<close>

definition count_free_pages :: "page \<Rightarrow> u32 \<Rightarrow> u32" where
  "count_free_pages p counter = (if PAGE_IS_FREE p then counter + 1 else counter)"

definition count_reserved_pages :: "page \<Rightarrow> u32 \<Rightarrow> u32" where
  "count_reserved_pages p counter = (if \<not> PAGE_IS_FREE p then counter + 1 else counter)"

definition page_descriptor_foreach :: "(page \<Rightarrow> 'a \<Rightarrow> 'a) \<Rightarrow> u32 \<Rightarrow> descriptors \<Rightarrow> 'a \<Rightarrow> 'a" where
  "page_descriptor_foreach handler np ds = fold (\<lambda>i. handler (ds i)) [0..<unat np]"

definition page_get_updated_page_free_count :: "u32 \<Rightarrow> descriptors \<Rightarrow> u32" where
  "page_get_updated_page_free_count np ds = page_descriptor_foreach count_free_pages np ds 0"

definition page_get_updated_reserved_count :: "u32 \<Rightarrow> descriptors \<Rightarrow> u32" where
  "page_get_updated_reserved_count np ds = page_descriptor_foreach count_reserved_pages np ds 0"

definition page_to_index :: "nat \<Rightarrow> u32" where
  "page_to_index p = of_nat p"

definition page_to_phys :: "nat \<Rightarrow> u32" where
  "page_to_phys p = page_to_index p * PAGE_SIZE"

definition page_index_to_page :: "u32 \<Rightarrow> u32 \<Rightarrow> nat option" where
  "page_index_to_page np idx = (if np \<le> idx then None else Some (unat idx))"

definition page_addr_to_page :: "u32 \<Rightarrow> nat" where
  "page_addr_to_page addr = unat (ALIGN_DOWN addr PAGE_SIZE div PAGE_SIZE)"

definition page_addr_is_same_page :: "u32 \<Rightarrow> u32 \<Rightarrow> bool" where
  "page_addr_is_same_page a1 a2 \<longleftrightarrow> a1 div PAGE_SIZE = a2 div PAGE_SIZE"

text \<open>The walk to the nearest free page, upwards (\<^verbatim>\<open>NEXT\<close>) or downwards (\<^verbatim>\<open>PREV\<close>).\<close>

datatype direction = NEXT | PREV

function usable_loop :: "int \<Rightarrow> direction \<Rightarrow> u32 \<Rightarrow> descriptors \<Rightarrow> nat option" where
  "usable_loop ret dir np ds =
     (if 0 \<le> ret \<and> ret \<le> int (unat np) - 1 then
        if PAGE_IS_FREE (ds (nat ret)) then Some (nat ret)
        else usable_loop (ret + (if dir = NEXT then 1 else -1)) dir np ds
      else None)"
  by pat_completeness auto
termination
  by (relation "measure (\<lambda>(ret, dir, np, ds). nat (if dir = NEXT then int (unat np) - ret else ret + 1))")
    auto

declare usable_loop.simps [simp del]

definition page_addr_to_usable :: "u32 \<Rightarrow> direction \<Rightarrow> u32 \<Rightarrow> descriptors \<Rightarrow> nat option" where
  "page_addr_to_usable addr dir np ds = usable_loop (int (page_addr_to_page addr)) dir np ds"

text \<open>\<^verbatim>\<open>sizeof(struct page)\<close> is 16; the descriptors of all page frames take 16 MiB of low memory.\<close>

definition page_descriptor_init :: "boot_state \<Rightarrow> (u32 \<times> descriptors \<times> boot_state) kres" where
  "page_descriptor_init b =
     kbind (boot_alloc (of_nat MAX_PAGES * 16) LOWMEM_ZONE True b) (\<lambda>(p_addr, b).
     if p_addr = 0 then Inl (Panic ''page_descriptor_init'')
     else kbind (PHYS_TO_VIRT_LINEAR p_addr) (\<lambda>v.
       Inr (v, (\<lambda>i. \<lparr>flags = page_get_appropriate_flag b (of_nat i * PAGE_SIZE),
                     private_data = PAGE_MAGIC\<rparr>), b)))"

section \<open>Flags and addresses\<close>

lemmas page_state_defs =
  PAGE_STATE_UNUSABLE_def PAGE_STATE_RESERVED_def PAGE_STATE_AVAILABLE_def PAGE_STATE_FREE_def
  PAGE_STATE_ALLOCATED_def PAGE_STATE_SLAB_def

lemmas page_zone_defs = PAGE_ZONE_DMA_def PAGE_ZONE_LOWMEM_def PAGE_ZONE_HIGHMEM_def

definition state_value :: "u32 \<Rightarrow> bool" where
  "state_value s \<longleftrightarrow> s AND PAGE_STATE_MASK = s"

lemma state_values [simp]:
  "state_value PAGE_STATE_UNUSABLE" "state_value PAGE_STATE_RESERVED" "state_value PAGE_STATE_AVAILABLE"
  "state_value PAGE_STATE_FREE" "state_value PAGE_STATE_ALLOCATED" "state_value PAGE_STATE_SLAB"
  by (simp_all add: state_value_def PAGE_STATE_MASK_def page_state_defs)

lemma PAGE_GET_SET_STATE [simp]:
  assumes "state_value s"
  shows "PAGE_GET_STATE (PAGE_SET_STATE s p) = s" "PAGE_GET_ZONE (PAGE_SET_STATE s p) = PAGE_GET_ZONE p"
    "private_data (PAGE_SET_STATE s p) = private_data p"
proof -
  have s: "s AND PAGE_STATE_MASK = s" using assms by (simp add: state_value_def)
  then show "PAGE_GET_STATE (PAGE_SET_STATE s p) = s"
    using mask_update(1) [of "flags p" PAGE_STATE_MASK s] by (simp add: PAGE_GET_STATE_def PAGE_SET_STATE_def)
  have "PAGE_STATE_MASK AND PAGE_ZONE_MASK = 0" by (simp add: PAGE_STATE_MASK_def PAGE_ZONE_MASK_def)
  then show "PAGE_GET_ZONE (PAGE_SET_STATE s p) = PAGE_GET_ZONE p"
    using mask_update(2) [of PAGE_STATE_MASK PAGE_ZONE_MASK "flags p" s] s
    by (simp add: PAGE_GET_ZONE_def PAGE_SET_STATE_def)
  show "private_data (PAGE_SET_STATE s p) = private_data p" by (simp add: PAGE_SET_STATE_def)
qed

lemma page_addr_to_page_div: "page_addr_to_page addr = unat addr div 4096"
  using unat_ALIGN_DOWN [of PAGE_SIZE 12 addr]
  by (simp add: page_addr_to_page_def PAGE_SIZE_def unat_div)

lemma page_addr_to_page_less: "page_addr_to_page addr < MAX_PAGES"
proof -
  have "unat addr < 4096 * 2 ^ 20" using unat_32_bound [of addr] by simp
  then have "unat addr div 4096 < 2 ^ 20" by (simp add: less_mult_imp_div_less)
  then show ?thesis by (simp add: page_addr_to_page_div MAX_PAGES_def)
qed

lemma unat_page_to_phys: "p < MAX_PAGES \<Longrightarrow> unat (page_to_phys p) = p * 4096"
  by (simp add: page_to_phys_def page_to_index_def PAGE_SIZE_def MAX_PAGES_def unat_mult_nowrap)

lemma page_addr_to_page_phys [simp]: "p < MAX_PAGES \<Longrightarrow> page_addr_to_page (page_to_phys p) = p"
  by (simp add: page_addr_to_page_div unat_page_to_phys)

lemma page_to_phys_inj: "p < MAX_PAGES \<Longrightarrow> q < MAX_PAGES \<Longrightarrow> page_to_phys p = page_to_phys q \<longleftrightarrow> p = q"
  by (metis page_addr_to_page_phys)

end
