(* ===== verification/Buddy_Blocks.thy ===== *)
theory Buddy_Blocks
  imports Buddy
begin

text \<open>
  The arithmetic of the buddy allocator: which page frames a block has, which block is its buddy,
  how aligned blocks nest, and that neither buddies nor blocks cross a zone. The address
  computation \<^verbatim>\<open>WHO_IS_MY_BUDDY\<close> on 32-bit words is shown to compute the buddy index.
\<close>

section \<open>Blocks\<close>

text \<open>The state of a page, the frames of a block and its neighbour of the same order.\<close>

definition pstate :: "buddy_state \<Rightarrow> nat \<Rightarrow> u32" where
  "pstate b p = PAGE_GET_STATE (descs b p)"

definition ppriv :: "buddy_state \<Rightarrow> nat \<Rightarrow> u32" where
  "ppriv b p = private_data (descs b p)"

definition zone_of :: "nat \<Rightarrow> zone_type" where
  "zone_of p = boot_alloc_get_addr_zone (page_to_phys p)"

definition blk :: "nat \<Rightarrow> nat \<Rightarrow> nat set" where
  "blk p k = {p ..< p + 2 ^ k}"

definition bud :: "nat \<Rightarrow> nat \<Rightarrow> nat" where
  "bud p k = (if even (p div 2 ^ k) then p + 2 ^ k else p - 2 ^ k)"

lemma PAGE_BY_ORDER_unat: "k \<le> 10 \<Longrightarrow> unat (PAGE_BY_ORDER k) = 2 ^ k"
proof -
  assume "k \<le> 10"
  then have "(2 :: nat) ^ k \<le> 2 ^ 10" by (intro power_increasing) auto
  then have "unat (of_nat (2 ^ k) :: u32) = 2 ^ k" by (intro unat_of_nat32) simp
  then show ?thesis by (simp add: PAGE_BY_ORDER_def)
qed

lemma ORDER_TO_BYTES_eq: "ORDER_TO_BYTES k = 2 ^ (k + 12)"
  by (simp add: ORDER_TO_BYTES_def PAGE_BY_ORDER_def PAGE_SIZE_def power_add)

lemma bit_sub_base:
  assumes "base \<le> (a :: u32)" and "unat base = m * 2 ^ 22" and "j < 22"
  shows "bit (a - base) j \<longleftrightarrow> bit a j"
proof -
  have "unat a = m * 2 ^ 22 + unat (a - base)"
    using assms(1,2) by (simp add: unat_sub word_le_nat_alt)
  also have "m * 2 ^ 22 = (m * 2 ^ (21 - j)) * 2 * 2 ^ j"
    using assms(3) by (simp add: power_add [symmetric] flip: power_Suc)
  finally have "unat a div 2 ^ j = (m * 2 ^ (21 - j)) * 2 + unat (a - base) div 2 ^ j" by simp
  then have "odd (unat a div 2 ^ j) \<longleftrightarrow> odd (unat (a - base) div 2 ^ j)" by simp
  moreover have "bit (unat x) j \<longleftrightarrow> bit x j" for x :: u32 using assms(3) by (simp add: bit_unsigned_iff)
  ultimately show ?thesis by (simp add: bit_iff_odd)
qed

lemma xor_power: "x XOR 2 ^ j = (if bit x j then x - 2 ^ j else x + (2 ^ j :: u32))"
proof -
  have "x XOR 2 ^ j = flip_bit j x"
    by (rule bit_eqI) (auto simp: bit_simps)
  then show ?thesis by (simp add: flip_bit_eq_if set_bit_eq unset_bit_eq)
qed

lemma page_odd_bit: "k \<le> 10 \<Longrightarrow> odd (page_addr_to_page a div 2 ^ k) \<longleftrightarrow> bit a (k + 12)"
proof -
  assume "k \<le> 10"
  then have "bit a (k + 12) \<longleftrightarrow> bit (unat a) (k + 12)" by (simp add: bit_unsigned_iff)
  also have "\<dots> \<longleftrightarrow> odd (unat a div 2 ^ (k + 12))" by (rule bit_iff_odd)
  also have "unat a div 2 ^ (k + 12) = unat a div 4096 div 2 ^ k"
    by (simp add: power_add div_mult2_eq [symmetric] mult.commute)
  finally show ?thesis by (simp add: page_addr_to_page_div)
qed

lemma unat_power32: "j < 32 \<Longrightarrow> unat (2 ^ j :: u32) = 2 ^ j"
proof -
  assume "j < 32"
  then have "(2 :: nat) ^ j < 2 ^ 32" by (intro power_strict_increasing) auto
  then have "unat (of_nat (2 ^ j) :: u32) = 2 ^ j" by (intro unat_of_nat32) simp
  then show ?thesis by simp
qed

lemma page_div_shift: "(n - c * 4096) div 4096 = n div 4096 - (c :: nat)" "(n + c * 4096) div 4096 = n div 4096 + c"
proof -
  show "(n + c * 4096) div 4096 = n div 4096 + c" by simp
  show "(n - c * 4096) div 4096 = n div 4096 - c"
  proof (cases "c * 4096 \<le> n")
    case True
    then obtain m where "n = m + c * 4096" by (metis le_add_diff_inverse2)
    then show ?thesis by simp
  next
    case False
    then have "n div 4096 < c" by (simp add: less_mult_imp_div_less)
    then show ?thesis using False by simp
  qed
qed

lemma bud_addr:
  assumes "k < 10"
  shows "page_addr_to_page (a XOR ORDER_TO_BYTES k) = bud (page_addr_to_page a) k"
proof -
  have p: "unat (2 ^ (k + 12) :: u32) = 2 ^ k * 4096"
    using unat_power32 [of "k + 12"] assms by (simp add: power_add)
  have bu: "bit (unat a) (k + 12) \<longleftrightarrow> bit a (k + 12)" using assms by (simp add: bit_unsigned_iff)
  show ?thesis
  proof (cases "bit a (k + 12)")
    case True
    then have "2 ^ (k + 12) \<le> unat a"
      using bu by (metis bit_iff_odd div_less even_zero linorder_not_le)
    then have "unat (a - 2 ^ (k + 12)) = unat a - 2 ^ k * 4096"
      using p by (simp add: unat_sub word_le_nat_alt power_add)
    then show ?thesis
      using True page_odd_bit [of k a] assms page_div_shift(1) [of "unat a" "2 ^ k"]
      by (simp add: ORDER_TO_BYTES_eq xor_power bud_def page_addr_to_page_div)
  next
    case False
    have "unat (a XOR 2 ^ (k + 12)) = unat a XOR 2 ^ (k + 12)"
      using assms unat_power32 [of "k + 12"] by (simp add: unsigned_xor_eq)
    also have "\<dots> = set_bit (k + 12) (unat a)"
      using False bu by (intro bit_eqI) (auto simp: bit_simps)
    also have "\<dots> = unat a + 2 ^ k * 4096"
      using False bu by (simp add: set_bit_eq power_add)
    finally show ?thesis
      using False page_odd_bit [of k a] assms page_div_shift(2) [of "unat a" "2 ^ k"]
      by (simp add: ORDER_TO_BYTES_eq bud_def page_addr_to_page_div)
  qed
qed

text \<open>The zones start at multiples of the largest block, so that the base does not matter.\<close>

lemma base_aligned:
  assumes "get_buddy_base z = Inr base"
  shows "unat base = unat base div 2 ^ 22 * 2 ^ 22"
  using assms by (cases z) (auto simp: get_buddy_base_def LOWMEM_START_def HIGHMEM_START_def)

lemma WHO_IS_MY_BUDDY_bud:
  assumes "get_buddy_base z = Inr base" and "base \<le> a" and "k < 10"
  shows "page_addr_to_page (WHO_IS_MY_BUDDY a k base) = bud (page_addr_to_page a) k"
proof -
  have "bit (a - base) (k + 12) \<longleftrightarrow> bit a (k + 12)"
    by (rule bit_sub_base [OF assms(2) base_aligned [OF assms(1)]]) (use assms(3) in simp)
  then have "WHO_IS_MY_BUDDY a k base = a XOR ORDER_TO_BYTES k"
    by (simp add: WHO_IS_MY_BUDDY_def ORDER_TO_BYTES_eq xor_power)
  then show ?thesis using bud_addr [OF assms(3)] by simp
qed

section \<open>Arithmetic of aligned blocks\<close>

lemma block_bound: "p < MAX_PAGES \<Longrightarrow> 2 ^ k dvd p \<Longrightarrow> k \<le> 10 \<Longrightarrow> p + 2 ^ k \<le> MAX_PAGES"
proof -
  assume a: "p < MAX_PAGES" "2 ^ k dvd p" "k \<le> 10"
  then obtain c where c: "p = 2 ^ k * c" by (elim dvdE)
  have m: "MAX_PAGES = 2 ^ k * 2 ^ (20 - k)" using a(3) by (simp add: MAX_PAGES_def flip: power_add)
  then have "2 ^ k * c < 2 ^ k * 2 ^ (20 - k)" using a(1) c by metis
  then have "c < 2 ^ (20 - k)" by (simp add: nat_mult_less_cancel_disj)
  then have "2 ^ k * (c + 1) \<le> 2 ^ k * 2 ^ (20 - k)" by (intro mult_le_mono) auto
  then show ?thesis using c m by (simp add: algebra_simps)
qed

lemma in_blk_div: "2 ^ k dvd p \<Longrightarrow> q \<in> blk p k \<longleftrightarrow> q div 2 ^ k = p div (2 ^ k :: nat)"
proof -
  assume "2 ^ k dvd p"
  then obtain c where c: "p = 2 ^ k * c" by (elim dvdE)
  have "q \<in> blk p k \<longleftrightarrow> c * 2 ^ k \<le> q \<and> q < (c + 1) * 2 ^ k" by (auto simp: blk_def c algebra_simps)
  also have "\<dots> \<longleftrightarrow> q div 2 ^ k = c"
  proof
    assume "c * 2 ^ k \<le> q \<and> q < (c + 1) * 2 ^ k"
    then show "q div 2 ^ k = c" by (intro div_nat_eqI) (auto simp: algebra_simps)
  next
    assume "q div 2 ^ k = c"
    then have "c * 2 ^ k + q mod 2 ^ k = q" using div_mult_mod_eq [of q "2 ^ k"] by simp
    moreover have "q mod 2 ^ k < 2 ^ k" by simp
    moreover have "(c + 1) * 2 ^ k = c * 2 ^ k + (2 :: nat) ^ k" by simp
    ultimately show "c * 2 ^ k \<le> q \<and> q < (c + 1) * 2 ^ k" by linarith
  qed
  finally show ?thesis by (simp add: c)
qed

lemma blk_self [simp]: "p \<in> blk p k"
  by (simp add: blk_def)

lemma blk_nested:
  assumes "2 ^ k dvd p" and "2 ^ j dvd q" and "j \<le> k" and "blk p k \<inter> blk q j \<noteq> {}"
  shows "blk q j \<subseteq> blk p k"
proof -
  have d: "x div 2 ^ k = x div 2 ^ j div 2 ^ (k - j)" for x :: nat
    using assms(3) by (simp add: div_mult2_eq [symmetric] flip: power_add)
  obtain x where "x \<in> blk p k" "x \<in> blk q j" using assms(4) by blast
  then have "q div 2 ^ j div 2 ^ (k - j) = p div 2 ^ k"
    using in_blk_div [OF assms(1)] in_blk_div [OF assms(2)] d [of x] by simp
  then show ?thesis
    using in_blk_div [OF assms(1)] in_blk_div [OF assms(2)] d by auto
qed

lemma dvd_down: "2 ^ Suc k dvd p \<Longrightarrow> 2 ^ k dvd (p :: nat)"
  by (metis dvd_mult_right power_Suc)

lemma bud_even:
  assumes "2 ^ Suc k dvd p"
  shows "bud p k = p + 2 ^ k" "bud (p + 2 ^ k) k = p"
proof -
  obtain c where c: "p = 2 ^ k * (2 * c)" using assms by (auto elim!: dvdE)
  then have "p div 2 ^ k = 2 * c" by simp
  moreover have "(p + 2 ^ k) div 2 ^ k = 2 * c + 1" using c by simp
  ultimately show "bud p k = p + 2 ^ k" "bud (p + 2 ^ k) k = p" by (simp_all add: bud_def)
qed

lemma bud_cases:
  assumes "2 ^ k dvd p"
  obtains "2 ^ Suc k dvd p" "bud p k = p + 2 ^ k"
  | q where "p = q + 2 ^ k" "2 ^ Suc k dvd q" "bud p k = q"
proof -
  obtain c where c: "p = 2 ^ k * c" using assms by (elim dvdE)
  show ?thesis
  proof (cases "even c")
    case True
    then have "2 ^ Suc k dvd p" using c by (auto elim!: evenE)
    then show ?thesis using that(1) bud_even(1) by blast
  next
    case False
    then obtain d where "c = 2 * d + 1" by (elim oddE)
    then have "p = 2 ^ Suc k * d + 2 ^ k" using c by (simp add: algebra_simps)
    then show ?thesis using that(2) [of "2 ^ Suc k * d"] bud_even(2) [of k "2 ^ Suc k * d"] by simp
  qed
qed

lemma blk_halves: "blk p (Suc k) = blk p k \<union> blk (p + 2 ^ k) k" "blk p k \<inter> blk (p + 2 ^ k) k = {}"
  by (auto simp: blk_def)

lemma bud_props:
  assumes "2 ^ k dvd p"
  shows "2 ^ k dvd bud p k" "bud (bud p k) k = p" "2 ^ Suc k dvd min p (bud p k)"
    "blk p k \<inter> blk (bud p k) k = {}" "blk p k \<union> blk (bud p k) k = blk (min p (bud p k)) (Suc k)"
proof -
  from assms show "2 ^ k dvd bud p k"
  proof (cases rule: bud_cases)
    case 1 then show ?thesis using assms by simp
  next
    case (2 q) then show ?thesis using dvd_down by metis
  qed
  from assms show "bud (bud p k) k = p"
    by (cases rule: bud_cases) (auto simp: bud_even)
  from assms show "2 ^ Suc k dvd min p (bud p k)"
    by (cases rule: bud_cases) (auto simp: min_def)
  from assms show "blk p k \<inter> blk (bud p k) k = {}"
    by (cases rule: bud_cases) (auto simp: blk_def)
  from assms show "blk p k \<union> blk (bud p k) k = blk (min p (bud p k)) (Suc k)"
  proof (cases rule: bud_cases)
    case 1 then show ?thesis by (simp add: blk_halves min_def)
  next
    case (2 q) then show ?thesis by (auto simp: blk_halves min_def)
  qed
qed

lemma zone_of_div: "p < MAX_PAGES \<Longrightarrow> zone_of p =
    (if 224 \<le> p div 1024 then HIGHMEM_ZONE else if 4 \<le> p div 1024 then LOWMEM_ZONE else DMA_ZONE)"
  by (auto simp: zone_of_def boot_alloc_get_addr_zone_def HIGHMEM_START_def LOWMEM_START_def
      word_le_nat_alt unat_page_to_phys)

lemma zone_of_blk:
  assumes "2 ^ k dvd p" and "k \<le> 10" and "p < MAX_PAGES" and "q \<in> blk p k"
  shows "q < MAX_PAGES" "zone_of q = zone_of p" "zone_of p \<noteq> INVALID_ZONE"
proof -
  show q: "q < MAX_PAGES" using block_bound [OF assms(3,1,2)] assms(4) by (auto simp: blk_def)
  have d: "x div 1024 = x div 2 ^ k div 2 ^ (10 - k)" for x :: nat
    using assms(2) by (simp add: div_mult2_eq [symmetric] flip: power_add)
  have "q div 1024 = p div 1024"
    using assms(4) in_blk_div [OF assms(1)] by (simp add: d)
  then show "zone_of q = zone_of p" using zone_of_div [OF q] zone_of_div [OF assms(3)] by simp
  show "zone_of p \<noteq> INVALID_ZONE" using zone_of_div [OF assms(3)] by simp
qed

lemma bud_zone:
  assumes "2 ^ k dvd p" and "k < 10" and "p < MAX_PAGES"
  shows "bud p k < MAX_PAGES" "zone_of (bud p k) = zone_of p" "min p (bud p k) < MAX_PAGES"
    "zone_of (min p (bud p k)) = zone_of p"
proof -
  let ?m = "min p (bud p k)"
  have m: "?m < MAX_PAGES" using assms(3) by simp
  have "p \<in> blk ?m (Suc k)" "bud p k \<in> blk ?m (Suc k)"
    unfolding bud_props(5) [OF assms(1), symmetric] by simp_all
  moreover have "q < MAX_PAGES" "zone_of q = zone_of ?m" if "q \<in> blk ?m (Suc k)" for q
    using zone_of_blk [OF bud_props(3) [OF assms(1)] _ m that] assms(2) by simp_all
  ultimately show "bud p k < MAX_PAGES" "zone_of (bud p k) = zone_of p" "?m < MAX_PAGES" "zone_of ?m = zone_of p"
    using m by metis+
qed

end
