(* ===== verification/Buddy_Inv.thy ===== *)
theory Buddy_Inv
  imports Buddy_Blocks
begin

text \<open>
  The invariant of the buddy allocator and how its elementary steps keep it: taking a block off a
  list, writing the metadata of a block, pushing a block on a list. Inside an operation the block
  being worked on is pending (\<open>inv_except b P\<close>); between operations nothing is (\<open>buddy_inv\<close>).
\<close>

section \<open>Metadata of a block\<close>

lemma set_states_nth:
  "set_states p i n s ds q =
     (if p + i \<le> q \<and> q < p + i + n
      then if p < q then (PAGE_SET_STATE s (ds q))\<lparr>private_data := PAGE_MAGIC\<rparr> else PAGE_SET_STATE s (ds q)
      else ds q)"
proof (induction n arbitrary: i ds)
  case (Suc n)
  then show ?case by (cases "q = p + i") auto
qed auto

lemma set_block_metadata_spec:
  assumes "p < MAX_PAGES" and "2 ^ k dvd p" and "k \<le> 10" and "state_value s"
  shows "\<exists>b'. set_block_metadata p k s b = Inr b' \<and>
    (\<forall>q. pstate b' q = (if q \<in> blk p k then s else pstate b q)) \<and>
    (\<forall>q. ppriv b' q = (if q = p then of_nat k else if q \<in> blk p k then PAGE_MAGIC else ppriv b q)) \<and>
    (\<forall>q. PAGE_GET_ZONE (descs b' q) = PAGE_GET_ZONE (descs b q)) \<and>
    free_list b' = free_list b \<and> nr_free b' = nr_free b"
proof -
  let ?ds = "(descs b)(p := (descs b p)\<lparr>private_data := of_nat k\<rparr>)"
  let ?b = "b\<lparr>descs := set_states p 0 (2 ^ k) s ?ds\<rparr>"
  have n: "unat (PAGE_BY_ORDER k) = 2 ^ k" by (rule PAGE_BY_ORDER_unat [OF assms(3)])
  have eq: "set_block_metadata p k s b = Inr ?b"
    using block_bound [OF assms(1-3)] by (simp add: set_block_metadata_def n)
  have z: "PAGE_GET_ZONE (x\<lparr>private_data := v\<rparr>) = PAGE_GET_ZONE x" "PAGE_GET_STATE (x\<lparr>private_data := v\<rparr>) = PAGE_GET_STATE x" for x v
    by (simp_all add: PAGE_GET_ZONE_def PAGE_GET_STATE_def)
  show ?thesis
    using assms(4) by (intro exI [of _ ?b] conjI eq)
      (auto simp: pstate_def ppriv_def blk_def set_states_nth z)
qed

section \<open>Invariant\<close>

definition block_meta :: "buddy_state \<Rightarrow> nat \<Rightarrow> nat \<Rightarrow> u32 \<Rightarrow> bool" where
  "block_meta b p k s \<longleftrightarrow> pstate b p = s \<and> ppriv b p = of_nat k \<and>
     (\<forall>q \<in> blk p k. q \<noteq> p \<longrightarrow> pstate b q = s \<and> ppriv b q = PAGE_MAGIC)"

definition block_at :: "nat \<Rightarrow> nat \<Rightarrow> bool" where
  "block_at p k \<longleftrightarrow> p < MAX_PAGES \<and> 2 ^ k dvd p \<and> k \<le> 10"

text \<open>
  The invariant of the allocator, for all pages but those of the pending set \<open>P\<close>, which are neither
  on a list nor described by their descriptors: it is empty between operations and holds the block
  that is being split or merged inside one.
\<close>

definition lists_ok :: "buddy_state \<Rightarrow> nat set \<Rightarrow> bool" where
  "lists_ok b P \<longleftrightarrow>
     (\<forall>z k. distinct (free_list b z k) \<and> unat (nr_free b z k) = length (free_list b z k)) \<and>
     (\<forall>z k p. p \<in> set (free_list b z k) \<longrightarrow> block_at p k \<and> zone_of p = z \<and> p \<noteq> 0 \<and>
        block_meta b p k PAGE_STATE_FREE \<and> blk p k \<inter> P = {}) \<and>
     (\<forall>z k p. k < 10 \<and> p \<in> set (free_list b z k) \<longrightarrow> bud p k \<notin> set (free_list b z k))"

definition pages_ok :: "buddy_state \<Rightarrow> nat set \<Rightarrow> bool" where
  "pages_ok b P \<longleftrightarrow>
     (\<forall>p < MAX_PAGES. p \<notin> P \<and> pstate b p = PAGE_STATE_FREE \<and> unat (ppriv b p) \<le> 10 \<longrightarrow>
        p \<in> set (free_list b (zone_of p) (unat (ppriv b p)))) \<and>
     (\<forall>q < MAX_PAGES. q \<notin> P \<and> pstate b q = PAGE_STATE_FREE \<longrightarrow>
        (\<exists>p k. q \<in> blk p k \<and> p \<in> set (free_list b (zone_of p) k))) \<and>
     (\<forall>p < MAX_PAGES. p \<notin> P \<and> pstate b p = PAGE_STATE_ALLOCATED \<and> unat (ppriv b p) \<le> 10 \<longrightarrow>
        2 ^ unat (ppriv b p) dvd p \<and> block_meta b p (unat (ppriv b p)) PAGE_STATE_ALLOCATED \<and>
        blk p (unat (ppriv b p)) \<inter> P = {}) \<and>
     (\<forall>p < MAX_PAGES. PAGE_GET_ZONE (descs b p) = page_get_zone_flag (page_to_phys p))"

definition inv_except :: "buddy_state \<Rightarrow> nat set \<Rightarrow> bool" where
  "inv_except b P \<longleftrightarrow> lists_ok b P \<and> pages_ok b P"

definition buddy_inv :: "buddy_state \<Rightarrow> bool" where
  "buddy_inv b \<longleftrightarrow> inv_except b {}"

definition free_pages :: "buddy_state \<Rightarrow> nat set" where
  "free_pages b = {p. p < MAX_PAGES \<and> pstate b p = PAGE_STATE_FREE}"

text \<open>The set of pages outside \<open>P\<close> that the lists hold.\<close>

definition listed :: "buddy_state \<Rightarrow> nat set" where
  "listed b = {q. \<exists>z k p. p \<in> set (free_list b z k) \<and> q \<in> blk p k}"

lemma unat_of_nat_order: "k \<le> 10 \<Longrightarrow> unat (of_nat k :: u32) = k"
  by (rule unat_of_nat32) simp

lemma magic_not_order [simp]: "\<not> unat PAGE_MAGIC \<le> 10" "k \<le> 10 \<Longrightarrow> PAGE_MAGIC \<noteq> of_nat k"
proof -
  show m: "\<not> unat PAGE_MAGIC \<le> 10" by (simp add: PAGE_MAGIC_def)
  show "k \<le> 10 \<Longrightarrow> PAGE_MAGIC \<noteq> of_nat k" using m unat_of_nat_order by metis
qed

lemma states_distinct [simp]:
  "PAGE_STATE_FREE \<noteq> PAGE_STATE_ALLOCATED" "PAGE_STATE_ALLOCATED \<noteq> PAGE_STATE_FREE"
  "PAGE_STATE_AVAILABLE \<noteq> PAGE_STATE_FREE" "PAGE_STATE_AVAILABLE \<noteq> PAGE_STATE_ALLOCATED"
  "PAGE_STATE_FREE \<noteq> PAGE_STATE_AVAILABLE" "PAGE_STATE_ALLOCATED \<noteq> PAGE_STATE_AVAILABLE"
  by (simp_all add: page_state_defs)

lemma lists_okD:
  assumes "lists_ok b P"
  shows "distinct (free_list b z k)" "unat (nr_free b z k) = length (free_list b z k)"
    "p \<in> set (free_list b z k) \<Longrightarrow> p < MAX_PAGES" "p \<in> set (free_list b z k) \<Longrightarrow> 2 ^ k dvd p"
    "p \<in> set (free_list b z k) \<Longrightarrow> k \<le> 10" "p \<in> set (free_list b z k) \<Longrightarrow> zone_of p = z"
    "p \<in> set (free_list b z k) \<Longrightarrow> p \<noteq> 0"
    "p \<in> set (free_list b z k) \<Longrightarrow> block_meta b p k PAGE_STATE_FREE"
    "p \<in> set (free_list b z k) \<Longrightarrow> blk p k \<inter> P = {}"
    "k < 10 \<Longrightarrow> p \<in> set (free_list b z k) \<Longrightarrow> bud p k \<notin> set (free_list b z k)"
  using assms unfolding lists_ok_def block_at_def by blast+

lemma pages_okD:
  assumes "pages_ok b P"
  shows "p < MAX_PAGES \<Longrightarrow> p \<notin> P \<Longrightarrow> pstate b p = PAGE_STATE_FREE \<Longrightarrow> unat (ppriv b p) \<le> 10 \<Longrightarrow>
      p \<in> set (free_list b (zone_of p) (unat (ppriv b p)))"
    "p < MAX_PAGES \<Longrightarrow> p \<notin> P \<Longrightarrow> pstate b p = PAGE_STATE_FREE \<Longrightarrow>
      \<exists>h k. p \<in> blk h k \<and> h \<in> set (free_list b (zone_of h) k)"
    "p < MAX_PAGES \<Longrightarrow> p \<notin> P \<Longrightarrow> pstate b p = PAGE_STATE_ALLOCATED \<Longrightarrow> unat (ppriv b p) \<le> 10 \<Longrightarrow>
      2 ^ unat (ppriv b p) dvd p"
    "p < MAX_PAGES \<Longrightarrow> p \<notin> P \<Longrightarrow> pstate b p = PAGE_STATE_ALLOCATED \<Longrightarrow> unat (ppriv b p) \<le> 10 \<Longrightarrow>
      block_meta b p (unat (ppriv b p)) PAGE_STATE_ALLOCATED"
    "p < MAX_PAGES \<Longrightarrow> p \<notin> P \<Longrightarrow> pstate b p = PAGE_STATE_ALLOCATED \<Longrightarrow> unat (ppriv b p) \<le> 10 \<Longrightarrow>
      blk p (unat (ppriv b p)) \<inter> P = {}"
    "p < MAX_PAGES \<Longrightarrow> PAGE_GET_ZONE (descs b p) = page_get_zone_flag (page_to_phys p)"
  using assms unfolding pages_ok_def by blast+

lemma block_meta_st: "block_meta b p k s \<Longrightarrow> q \<in> blk p k \<Longrightarrow> pstate b q = s"
  by (cases "q = p") (auto simp: block_meta_def)

text \<open>Two listed blocks that share a page are the same: a head is never inside another block.\<close>

lemma listed_disjoint:
  assumes ok: "lists_ok b P" and p: "p \<in> set (free_list b z k)" and q: "q \<in> set (free_list b z' j)"
    and ov: "blk p k \<inter> blk q j \<noteq> {}"
  shows "p = q" "k = j" "z = z'"
proof -
  have main: "x = y \<and> i = l \<and> u = w"
    if x: "x \<in> set (free_list b u i)" and y: "y \<in> set (free_list b w l)" and o: "blk x i \<inter> blk y l \<noteq> {}"
      and le: "l \<le> i" for x y u w i l
  proof -
    have "y \<in> blk x i"
      using blk_nested [OF lists_okD(4) [OF ok x] lists_okD(4) [OF ok y] le o] by auto
    moreover have "ppriv b y = of_nat l" "l \<le> 10"
      using lists_okD(5,8) [OF ok y] by (auto simp: block_meta_def)
    ultimately have "y = x"
      using lists_okD(8) [OF ok x] magic_not_order(2) [of l] unfolding block_meta_def by metis
    moreover have "ppriv b x = of_nat i" "i \<le> 10" using lists_okD(5,8) [OF ok x] by (auto simp: block_meta_def)
    ultimately show ?thesis
      using \<open>ppriv b y = of_nat l\<close> \<open>l \<le> 10\<close> lists_okD(6) [OF ok x] lists_okD(6) [OF ok y]
      by (metis unat_of_nat_order)
  qed
  show "p = q" "k = j" "z = z'"
    using main [OF p q ov] main [OF q p] ov by (metis Int_commute linear)+
qed

text \<open>Taking a listed block off its list makes its pages pending.\<close>

definition unlist :: "nat \<Rightarrow> nat \<Rightarrow> zone_type \<Rightarrow> buddy_state \<Rightarrow> buddy_state" where
  "unlist p k z b = b\<lparr>
     free_list := (free_list b)(z := (free_list b z)(k := remove1 p (free_list b z k))),
     nr_free := (nr_free b)(z := (nr_free b z)(k := nr_free b z k - 1))\<rparr>"

lemma unlist_simps [simp]:
  "descs (unlist p k z b) = descs b" "pstate (unlist p k z b) q = pstate b q" "ppriv (unlist p k z b) q = ppriv b q"
  "block_meta (unlist p k z b) q j s = block_meta b q j s"
  by (simp_all add: unlist_def pstate_def ppriv_def block_meta_def)

lemma unlist_set:
  assumes "lists_ok b P"
  shows "q \<in> set (free_list (unlist p k z b) z' j) \<longleftrightarrow>
     q \<in> set (free_list b z' j) \<and> \<not> (q = p \<and> j = k \<and> z' = z)"
  using lists_okD(1) [OF assms] by (auto simp: unlist_def)

lemma inv_unlist:
  assumes inv: "inv_except b P" and p: "p \<in> set (free_list b z k)"
  shows "inv_except (unlist p k z b) (P \<union> blk p k)"
proof -
  have ok: "lists_ok b P" and pg: "pages_ok b P" using inv by (auto simp: inv_except_def)
  note mem = unlist_set [OF ok, of _ p k z]
  have fresh: "blk q j \<inter> blk p k = {}" if "q \<in> set (free_list b z' j)" "\<not> (q = p \<and> j = k \<and> z' = z)" for q j z'
    using listed_disjoint [OF ok that(1) p] that(2) by blast
  have nr: "unat (nr_free b z k - 1) = length (free_list b z k) - 1"
    using p lists_okD(2) [OF ok, of z k] by (subst unat_sub) (auto simp: word_le_nat_alt Suc_le_eq)
  have "lists_ok (unlist p k z b) (P \<union> blk p k)"
    unfolding lists_ok_def
  proof (intro conjI allI impI)
    fix z' j
    show "distinct (free_list (unlist p k z b) z' j)"
      using lists_okD(1) [OF ok] by (simp add: unlist_def)
    show "unat (nr_free (unlist p k z b) z' j) = length (free_list (unlist p k z b) z' j)"
      using lists_okD(2) [OF ok] p nr by (simp add: unlist_def length_remove1)
  next
    fix z' j q
    assume "q \<in> set (free_list (unlist p k z b) z' j)"
    then have q: "q \<in> set (free_list b z' j)" "\<not> (q = p \<and> j = k \<and> z' = z)" using mem by auto
    show "block_at q j" "zone_of q = z'" "q \<noteq> 0" "block_meta (unlist p k z b) q j PAGE_STATE_FREE"
      using lists_okD(3-8) [OF ok q(1)] by (auto simp: block_at_def)
    show "blk q j \<inter> (P \<union> blk p k) = {}" using lists_okD(9) [OF ok q(1)] fresh [OF q] by blast
  next
    fix z' j q
    assume "j < 10 \<and> q \<in> set (free_list (unlist p k z b) z' j)"
    then have "j < 10" "q \<in> set (free_list b z' j)" unfolding mem by simp_all
    then show "bud q j \<notin> set (free_list (unlist p k z b) z' j)"
      using lists_okD(10) [OF ok] unfolding mem by simp
  qed
  moreover have "pages_ok (unlist p k z b) (P \<union> blk p k)"
    unfolding pages_ok_def
  proof (intro conjI allI impI)
    fix q assume q: "q < MAX_PAGES" and h: "q \<notin> P \<union> blk p k \<and> pstate (unlist p k z b) q = PAGE_STATE_FREE \<and>
      unat (ppriv (unlist p k z b) q) \<le> 10"
    have "q \<noteq> p" using h by auto
    then show "q \<in> set (free_list (unlist p k z b) (zone_of q) (unat (ppriv (unlist p k z b) q)))"
      using pages_okD(1) [OF pg q] h mem by simp
  next
    fix q assume q: "q < MAX_PAGES" and h: "q \<notin> P \<union> blk p k \<and> pstate (unlist p k z b) q = PAGE_STATE_FREE"
    then obtain p' k' where "q \<in> blk p' k'" "p' \<in> set (free_list b (zone_of p') k')"
      using pages_okD(2) [OF pg q] by auto
    then show "\<exists>p' k'. q \<in> blk p' k' \<and> p' \<in> set (free_list (unlist p k z b) (zone_of p') k')"
      using h unfolding mem by (intro exI [of _ p'] exI [of _ k']) auto
  next
    fix q assume q: "q < MAX_PAGES" and h: "q \<notin> P \<union> blk p k \<and> pstate (unlist p k z b) q = PAGE_STATE_ALLOCATED \<and>
      unat (ppriv (unlist p k z b) q) \<le> 10"
    let ?j = "unat (ppriv b q)"
    have *: "2 ^ ?j dvd q" "block_meta b q ?j PAGE_STATE_ALLOCATED" "blk q ?j \<inter> P = {}"
      using pages_okD(3-5) [OF pg q] h by simp_all
    have "blk q ?j \<inter> blk p k = {}"
      using block_meta_st [OF *(2)] block_meta_st [OF lists_okD(8) [OF ok p]] states_distinct(1)
      by (metis Int_iff ex_in_conv)
    with * show "2 ^ unat (ppriv (unlist p k z b) q) dvd q"
      "block_meta (unlist p k z b) q (unat (ppriv (unlist p k z b) q)) PAGE_STATE_ALLOCATED"
      "blk q (unat (ppriv (unlist p k z b) q)) \<inter> (P \<union> blk p k) = {}" by (simp_all add: Int_Un_distrib)
  next
    fix q assume "q < MAX_PAGES"
    then show "PAGE_GET_ZONE (descs (unlist p k z b) q) = page_get_zone_flag (page_to_phys q)"
      using pages_okD(6) [OF pg] by simp
  qed
  ultimately show ?thesis by (simp add: inv_except_def)
qed

text \<open>
  The effect of writing the metadata of a block, and that the rest of the state does not see it.
\<close>

definition meta_written :: "nat \<Rightarrow> nat \<Rightarrow> u32 \<Rightarrow> buddy_state \<Rightarrow> buddy_state \<Rightarrow> bool" where
  "meta_written p k s b b' \<longleftrightarrow>
    (\<forall>q. pstate b' q = (if q \<in> blk p k then s else pstate b q)) \<and>
    (\<forall>q. ppriv b' q = (if q = p then of_nat k else if q \<in> blk p k then PAGE_MAGIC else ppriv b q)) \<and>
    (\<forall>q. PAGE_GET_ZONE (descs b' q) = PAGE_GET_ZONE (descs b q))"

lemma meta_writtenD:
  assumes "meta_written p k s b b'"
  shows "q \<in> blk p k \<Longrightarrow> pstate b' q = s" "q \<notin> blk p k \<Longrightarrow> pstate b' q = pstate b q" "ppriv b' p = of_nat k"
    "q \<in> blk p k \<Longrightarrow> q \<noteq> p \<Longrightarrow> ppriv b' q = PAGE_MAGIC" "q \<notin> blk p k \<Longrightarrow> ppriv b' q = ppriv b q"
    "PAGE_GET_ZONE (descs b' q) = PAGE_GET_ZONE (descs b q)" "block_meta b' p k s"
    "blk q j \<inter> blk p k = {} \<Longrightarrow> block_meta b' q j s' = block_meta b q j s'"
proof -
  show *: "q \<in> blk p k \<Longrightarrow> pstate b' q = s" "q \<notin> blk p k \<Longrightarrow> pstate b' q = pstate b q" "ppriv b' p = of_nat k"
    "q \<in> blk p k \<Longrightarrow> q \<noteq> p \<Longrightarrow> ppriv b' q = PAGE_MAGIC" "q \<notin> blk p k \<Longrightarrow> ppriv b' q = ppriv b q"
    "PAGE_GET_ZONE (descs b' q) = PAGE_GET_ZONE (descs b q)" for q
    using assms blk_self [of p k] unfolding meta_written_def by auto
  show "block_meta b' p k s" using * blk_self by (simp add: block_meta_def)
  show "blk q j \<inter> blk p k = {} \<Longrightarrow> block_meta b' q j s' = block_meta b q j s'"
  proof -
    assume "blk q j \<inter> blk p k = {}"
    then have "x \<notin> blk p k" if "x \<in> blk q j" for x using that by blast
    then show ?thesis using *(2,5) blk_self [of q j] unfolding block_meta_def by simp
  qed
qed

lemma list_length_bound:
  assumes "lists_ok b P"
  shows "length (free_list b z k) \<le> MAX_PAGES"
proof -
  have "card (set (free_list b z k)) \<le> card {..<MAX_PAGES}"
    using lists_okD(3) [OF assms] by (intro card_mono) auto
  then show ?thesis using distinct_card [OF lists_okD(1) [OF assms]] by simp
qed

lemma pages_ok_write:
  assumes pg: "pages_ok b (P \<union> blk p k)" and m: "meta_written p k s b b'"
    and disj: "blk p k \<inter> P = {}" and at: "block_at p k" and s: "s = PAGE_STATE_FREE \<or> s = PAGE_STATE_ALLOCATED"
    and keep: "\<And>q j. q \<in> set (free_list b (zone_of q) j) \<Longrightarrow> q \<in> set (free_list b' (zone_of q) j)"
    and new: "s = PAGE_STATE_FREE \<Longrightarrow> p \<in> set (free_list b' (zone_of p) k)"
  shows "pages_ok b' P"
proof -
  have k: "k \<le> 10" "2 ^ k dvd p" using at by (auto simp: block_at_def)
  have head: "q = p \<and> unat (ppriv b' q) = k" if "q \<in> blk p k" "unat (ppriv b' q) \<le> 10" for q
    using meta_writtenD(3,4) [OF m] that magic_not_order(1) unat_of_nat_order [OF k(1)] by metis
  show ?thesis
    unfolding pages_ok_def
  proof (intro conjI allI impI)
    fix q assume q: "q < MAX_PAGES" and h: "q \<notin> P \<and> pstate b' q = PAGE_STATE_FREE \<and> unat (ppriv b' q) \<le> 10"
    show "q \<in> set (free_list b' (zone_of q) (unat (ppriv b' q)))"
    proof (cases "q \<in> blk p k")
      case True
      then show ?thesis using head [OF True] h meta_writtenD(1) [OF m True] new by auto
    next
      case False
      then show ?thesis
        using pages_okD(1) [OF pg q] h keep meta_writtenD(2,5) [OF m False] by simp
    qed
  next
    fix q assume q: "q < MAX_PAGES" and h: "q \<notin> P \<and> pstate b' q = PAGE_STATE_FREE"
    show "\<exists>p' k'. q \<in> blk p' k' \<and> p' \<in> set (free_list b' (zone_of p') k')"
    proof (cases "q \<in> blk p k")
      case True
      then show ?thesis using h meta_writtenD(1) [OF m True] new by metis
    next
      case False
      then have "\<exists>p' k'. q \<in> blk p' k' \<and> p' \<in> set (free_list b (zone_of p') k')"
        using pages_okD(2) [OF pg q] h meta_writtenD(2) [OF m False] by simp
      then show ?thesis using keep by blast
    qed
  next
    fix q assume q: "q < MAX_PAGES" and h: "q \<notin> P \<and> pstate b' q = PAGE_STATE_ALLOCATED \<and> unat (ppriv b' q) \<le> 10"
    have "2 ^ unat (ppriv b' q) dvd q \<and> block_meta b' q (unat (ppriv b' q)) PAGE_STATE_ALLOCATED \<and>
        blk q (unat (ppriv b' q)) \<inter> P = {}"
    proof (cases "q \<in> blk p k")
      case True
      then have "s = PAGE_STATE_ALLOCATED" using h meta_writtenD(1) [OF m True] by simp
      then show ?thesis
        using head [OF True] h meta_writtenD(7) [OF m] k disj by auto
    next
      case False
      have *: "2 ^ unat (ppriv b q) dvd q" "block_meta b q (unat (ppriv b q)) PAGE_STATE_ALLOCATED"
        "blk q (unat (ppriv b q)) \<inter> (P \<union> blk p k) = {}"
        using pages_okD(3-5) [OF pg q] h False meta_writtenD(2,5) [OF m False] by simp_all
      then have "blk q (unat (ppriv b q)) \<inter> blk p k = {}" by blast
      then show ?thesis
        using * meta_writtenD(8) [OF m] meta_writtenD(5) [OF m False] by (simp add: Int_Un_distrib)
    qed
    then show "2 ^ unat (ppriv b' q) dvd q" "block_meta b' q (unat (ppriv b' q)) PAGE_STATE_ALLOCATED"
      "blk q (unat (ppriv b' q)) \<inter> P = {}" by simp_all
  next
    fix q assume "q < MAX_PAGES"
    then show "PAGE_GET_ZONE (descs b' q) = page_get_zone_flag (page_to_phys q)"
      using pages_okD(6) [OF pg] meta_writtenD(6) [OF m] by simp
  qed
qed

text \<open>A pending block that is marked allocated is no longer pending.\<close>

lemma inv_allocate:
  assumes inv: "inv_except b (P \<union> blk p k)" and m: "meta_written p k PAGE_STATE_ALLOCATED b b'"
    and fl: "free_list b' = free_list b" "nr_free b' = nr_free b"
    and disj: "blk p k \<inter> P = {}" and at: "block_at p k"
  shows "inv_except b' P"
proof -
  have ok: "lists_ok b (P \<union> blk p k)" and pg: "pages_ok b (P \<union> blk p k)"
    using inv by (auto simp: inv_except_def)
  have "block_meta b' q j PAGE_STATE_FREE \<and> blk q j \<inter> P = {}" if "q \<in> set (free_list b z j)" for z q j
  proof -
    have "blk q j \<inter> blk p k = {}" using lists_okD(9) [OF ok that] by blast
    then show ?thesis
      using meta_writtenD(8) [OF m] lists_okD(8,9) [OF ok that] by (simp add: Int_Un_distrib)
  qed
  then have "lists_ok b' P" using ok unfolding lists_ok_def fl by blast
  moreover have "pages_ok b' P"
    by (rule pages_ok_write [OF pg m disj at]) (use fl in auto)
  ultimately show ?thesis by (simp add: inv_except_def)
qed

text \<open>A pending block that is marked free and pushed on its list is no longer pending.\<close>

lemma push_block_simps [simp]:
  "descs (push_block p k z b) = descs b" "pstate (push_block p k z b) q = pstate b q" "ppriv (push_block p k z b) q = ppriv b q"
  "block_meta (push_block p k z b) q j s = block_meta b q j s"
  "free_list (push_block p k z b) z' j = (if z' = z \<and> j = k then p # free_list b z k else free_list b z' j)"
  "nr_free (push_block p k z b) z' j = (if z' = z \<and> j = k then nr_free b z k + 1 else nr_free b z' j)"
  by (simp_all add: push_block_def pstate_def ppriv_def block_meta_def)

lemma inv_push:
  assumes inv: "inv_except b (P \<union> blk p k)" and m: "meta_written p k PAGE_STATE_FREE b b1"
    and fl: "free_list b1 = free_list b" "nr_free b1 = nr_free b"
    and disj: "blk p k \<inter> P = {}" and at: "block_at p k" and nz: "p \<noteq> 0"
    and apart: "k < 10 \<Longrightarrow> bud p k \<notin> set (free_list b (zone_of p) k)"
  shows "inv_except (push_block p k (zone_of p) b1) P"
proof -
  let ?z = "zone_of p" and ?b = "push_block p k (zone_of p) b1"
  have ok: "lists_ok b (P \<union> blk p k)" and pg: "pages_ok b (P \<union> blk p k)"
    using inv by (auto simp: inv_except_def)
  have k: "k \<le> 10" "2 ^ k dvd p" "p < MAX_PAGES" using at by (auto simp: block_at_def)
  have old: "blk q j \<inter> blk p k = {} \<and> blk q j \<inter> P = {}" if "q \<in> set (free_list b z j)" for q j z
    using lists_okD(9) [OF ok that] by (simp add: Int_Un_distrib)
  have notin: "p \<notin> set (free_list b z j)" for z j
    using old [of p z j] blk_self by blast
  have "lists_ok ?b P"
    unfolding lists_ok_def
  proof (intro conjI allI impI)
    fix z j
    show "distinct (free_list ?b z j)" using lists_okD(1) [OF ok] notin fl by simp
    have "unat (nr_free b ?z k + 1) = unat (nr_free b ?z k) + 1"
      using list_length_bound [OF ok, of ?z k] lists_okD(2) [OF ok, of ?z k]
      by (intro unat_suc_nowrap) (simp add: MAX_PAGES_def)
    then show "unat (nr_free ?b z j) = length (free_list ?b z j)"
      using lists_okD(2) [OF ok] fl by simp
  next
    fix z j q assume q: "q \<in> set (free_list ?b z j)"
    have "block_at q j \<and> zone_of q = z \<and> q \<noteq> 0 \<and> block_meta ?b q j PAGE_STATE_FREE \<and> blk q j \<inter> P = {}"
    proof (cases "q = p")
      case True
      then have "z = ?z" "j = k" using q notin fl by (auto split: if_splits)
      then show ?thesis using True at nz disj meta_writtenD(7) [OF m] by simp
    next
      case False
      then have q': "q \<in> set (free_list b z j)" using q fl by (auto split: if_splits)
      then show ?thesis
        using old [OF q'] lists_okD(3-8) [OF ok q'] meta_writtenD(8) [OF m] by (simp add: block_at_def)
    qed
    then show "block_at q j" "zone_of q = z" "q \<noteq> 0" "block_meta ?b q j PAGE_STATE_FREE" "blk q j \<inter> P = {}"
      by simp_all
  next
    fix z j q assume "j < 10 \<and> q \<in> set (free_list ?b z j)"
    then have j: "j < 10" and q: "q = p \<and> z = ?z \<and> j = k \<or> q \<in> set (free_list b z j)"
      using fl by (auto split: if_splits)
    from q show "bud q j \<notin> set (free_list ?b z j)"
    proof
      assume *: "q = p \<and> z = ?z \<and> j = k"
      have "bud p k \<noteq> p" using bud_props(4) [OF k(2)] blk_self by (metis Int_iff empty_iff)
      then show ?thesis using * apart j fl by simp
    next
      assume q: "q \<in> set (free_list b z j)"
      have "q \<noteq> bud p k" if "z = ?z" "j = k" using apart q that j by blast
      then have "bud q j \<noteq> p" if "z = ?z" "j = k"
        using bud_props(2) [OF lists_okD(4) [OF ok q]] that by metis
      then show ?thesis using lists_okD(10) [OF ok j q] fl by auto
    qed
  qed
  moreover have "pages_ok ?b P"
    by (rule pages_ok_write [OF pg _ disj at, of PAGE_STATE_FREE])
      (use m fl in \<open>auto simp: meta_written_def\<close>)
  ultimately show ?thesis by (simp add: inv_except_def)
qed

text \<open>Pages that are not free and form no part of another allocated block may be declared pending.\<close>

lemma inv_pending:
  assumes inv: "inv_except b {}" and nf: "\<And>q. q \<in> S \<Longrightarrow> pstate b q \<noteq> PAGE_STATE_FREE"
    and na: "\<And>q. q < MAX_PAGES \<Longrightarrow> q \<notin> S \<Longrightarrow> pstate b q = PAGE_STATE_ALLOCATED \<Longrightarrow> unat (ppriv b q) \<le> 10 \<Longrightarrow>
      blk q (unat (ppriv b q)) \<inter> S = {}"
  shows "inv_except b S"
proof -
  have ok: "lists_ok b {}" and pg: "pages_ok b {}" using inv by (auto simp: inv_except_def)
  have "blk p k \<inter> S = {}" if "p \<in> set (free_list b z k)" for p k z
    using block_meta_st [OF lists_okD(8) [OF ok that]] nf by blast
  then have "lists_ok b S" using ok unfolding lists_ok_def by simp
  moreover have "pages_ok b S" using pg na unfolding pages_ok_def by simp
  ultimately show ?thesis by (simp add: inv_except_def)
qed

end
