(* ===== verification/Buddy_Ops.thy ===== *)
theory Buddy_Ops
  imports Buddy_Inv
begin

text \<open>
  What the operations of the buddy allocator do, from the invariant: splitting, the search for a
  free order, allocation, coalescing, release, initialisation; and that the free lists of a state
  that satisfies the invariant are determined, as sets, by its free pages.
\<close>

section \<open>Steps of the operations\<close>

lemma block_atD: "block_at p k \<Longrightarrow> p < MAX_PAGES" "block_at p k \<Longrightarrow> 2 ^ k dvd p" "block_at p k \<Longrightarrow> k \<le> 10"
  by (simp_all add: block_at_def)

lemma set_block_metadata_written:
  assumes "block_at p k" and "state_value s"
  shows "\<exists>b'. set_block_metadata p k s b = Inr b' \<and> meta_written p k s b b' \<and>
    free_list b' = free_list b \<and> nr_free b' = nr_free b"
  using set_block_metadata_spec [OF block_atD [OF assms(1)] assms(2), of b] unfolding meta_written_def by blast

lemma pop_first_block_unlist:
  "free_list b z k = p # rest \<Longrightarrow> pop_first_block k z b = (page_to_phys p, unlist p k z b)"
  by (simp add: pop_first_block_def unlist_def)

lemma pop_page_node_unlist:
  assumes ok: "lists_ok b P" and p: "p \<in> set (free_list b z k)"
  shows "\<exists>b'. pop_page_node p b = Inr b' \<and>
    b'\<lparr>nr_free := (nr_free b')(z := (nr_free b' z)(k := nr_free b' z k - 1))\<rparr> = unlist p k z b"
proof -
  have "z \<in> {LOWMEM_ZONE, DMA_ZONE, HIGHMEM_ZONE}" "k \<le> 10"
    using zone_of_blk(3) [OF lists_okD(4,5,3) [OF ok p] blk_self] lists_okD(5,6) [OF ok p]
    by (cases z; auto)+
  then have on: "p \<in> set (all_lists b)" using p by (force simp: all_lists_def MAX_ORDER_def)
  have "remove1 p (free_list b z' j) =
      ((free_list b)(z := (free_list b z)(k := remove1 p (free_list b z k)))) z' j" for z' j
  proof (cases "z' = z \<and> j = k")
    case False
    have "p \<notin> set (free_list b z' j)"
    proof
      assume q: "p \<in> set (free_list b z' j)"
      have "blk p k \<inter> blk p j \<noteq> {}" using blk_self by (metis Int_iff empty_iff)
      from listed_disjoint(2,3) [OF ok p q this] False show False by simp
    qed
    then have "remove1 p (free_list b z' j) = free_list b z' j" by (rule remove1_idem)
    moreover have "((free_list b)(z := (free_list b z)(k := remove1 p (free_list b z k)))) z' j = free_list b z' j"
      using False by (metis fun_upd_apply)
    ultimately show ?thesis by (rule trans [OF _ sym])
  next
    case True
    then show ?thesis by (metis fun_upd_same)
  qed
  then have fl: "(\<lambda>z j. remove1 p (free_list b z j)) =
      (free_list b)(z := (free_list b z)(k := remove1 p (free_list b z k)))" by blast
  show ?thesis unfolding pop_page_node_def fl using on by (simp add: unlist_def)
qed

lemma half_block_at:
  assumes "block_at p (Suc c)"
  shows "block_at p c" "block_at (p + 2 ^ c) c" "zone_of (p + 2 ^ c) = zone_of p"
proof -
  note b = block_atD [OF assms]
  have d: "2 ^ c dvd p" using dvd_down b(2) by blast
  have "p + 2 ^ c \<in> blk p (Suc c)" unfolding blk_halves by simp
  note z = zone_of_blk [OF b(2,3,1) this]
  show "block_at p c" using b d by (simp add: block_at_def)
  show "block_at (p + 2 ^ c) c" using b d z by (simp add: block_at_def)
  show "zone_of (p + 2 ^ c) = zone_of p" by (rule z)
qed

lemma split_spec:
  assumes "inv_except b (blk p c)" and "block_at p c" and "n \<le> c" and "p \<noteq> 0"
  shows "\<exists>b'. split_block_to_order n c (page_to_phys p) (zone_of p) b = Inr (page_to_phys p, b') \<and>
    inv_except b' (blk p n) \<and>
    (\<forall>q. pstate b' q = (if q \<in> blk p c - blk p n then PAGE_STATE_FREE else pstate b q)) \<and>
    (\<forall>q. q \<notin> blk p c \<longrightarrow> ppriv b' q = ppriv b q)"
  using assms
proof (induction c arbitrary: b)
  case 0
  then show ?case by (auto simp: order_is_valid_def)
next
  case (Suc c)
  have v: "order_is_valid n" "order_is_valid (Suc c)"
    using Suc.prems block_atD(3) [OF Suc.prems(2)] by (simp_all add: order_is_valid_def MAX_ORDER_def)
  show ?case
  proof (cases "n = Suc c")
    case True
    then show ?thesis using Suc.prems v by auto
  next
    case False
    then have nc: "n \<le> c" using Suc.prems by simp
    let ?h = "p + 2 ^ c"
    note half = half_block_at [OF Suc.prems(2)]
    have c: "c \<le> 10" using block_atD(3) [OF half(1)] .
    obtain b1 where b1: "set_block_metadata ?h c PAGE_STATE_FREE b = Inr b1"
      "meta_written ?h c PAGE_STATE_FREE b b1" "free_list b1 = free_list b" "nr_free b1 = nr_free b"
      using set_block_metadata_written [OF half(2), of PAGE_STATE_FREE b] by auto
    have inv: "inv_except b (blk p c \<union> blk ?h c)"
      using Suc.prems(1) unfolding blk_halves by simp
    have "p \<notin> set (free_list b z j)" for z j
      using inv lists_okD(9) [of b _ p z j] blk_self [of p] unfolding inv_except_def by blast
    then have "bud ?h c \<notin> set (free_list b (zone_of ?h) c)"
      using bud_even(2) [OF block_atD(2) [OF Suc.prems(2)]] by simp
    then have "inv_except (push_block ?h c (zone_of ?h) b1) (blk p c)"
      by (intro inv_push [OF inv b1(2,3,4)]) (use blk_halves(2) [of p c] half(2) in auto)
    then obtain b' where b': "split_block_to_order n c (page_to_phys p) (zone_of p)
        (push_block ?h c (zone_of p) b1) = Inr (page_to_phys p, b')" "inv_except b' (blk p n)"
      "\<forall>q. pstate b' q = (if q \<in> blk p c - blk p n then PAGE_STATE_FREE else pstate b1 q)"
      "\<forall>q. q \<notin> blk p c \<longrightarrow> ppriv b' q = ppriv b1 q"
      using Suc.IH [OF _ half(1) nc Suc.prems(4), of "push_block ?h c (zone_of p) b1"] half(3) by auto
    have "split_block_to_order n (Suc c) (page_to_phys p) (zone_of p) b = Inr (page_to_phys p, b')"
      using v False b1(1) b'(1) block_atD(1) [OF Suc.prems(2)]
      by (simp add: Let_def PAGE_BY_ORDER_unat [OF c])
    moreover have "blk p n \<subseteq> blk p c"
      using nc by (auto simp: blk_def intro: order.strict_trans2)
    then have "pstate b' q = (if q \<in> blk p (Suc c) - blk p n then PAGE_STATE_FREE else pstate b q)" for q
      using b'(3) meta_writtenD(1,2) [OF b1(2), of q] blk_halves [of p c] by auto
    moreover have "ppriv b' q = ppriv b q" if "q \<notin> blk p (Suc c)" for q
      using b'(4) meta_writtenD(5) [OF b1(2), of q] that blk_halves [of p c] by auto
    ultimately show ?thesis using b'(2) by blast
  qed
qed

lemma find_order_spec:
  "n \<le> BAD_ORDER \<Longrightarrow> n \<le> find_order n z b \<and> find_order n z b \<le> BAD_ORDER \<and>
     (\<forall>j. n \<le> j \<and> j < find_order n z b \<longrightarrow> nr_free b z j = 0) \<and>
     (find_order n z b < BAD_ORDER \<longrightarrow> nr_free b z (find_order n z b) \<noteq> 0)"
proof (induction n z b rule: find_order.induct)
  case (1 n z b)
  show ?case
  proof (cases "n < BAD_ORDER \<and> nr_free b z n = 0")
    case True
    then have eq: "find_order n z b = find_order (n + 1) z b" by (subst find_order.simps) simp
    have IH: "n + 1 \<le> find_order (n + 1) z b \<and> find_order (n + 1) z b \<le> BAD_ORDER \<and>
     (\<forall>j. n + 1 \<le> j \<and> j < find_order (n + 1) z b \<longrightarrow> nr_free b z j = 0) \<and>
     (find_order (n + 1) z b < BAD_ORDER \<longrightarrow> nr_free b z (find_order (n + 1) z b) \<noteq> 0)"
      using 1(1) [OF True] True by simp
    then show ?thesis unfolding eq using True by (metis Suc_eq_plus1 Suc_leI le_less le_trans Suc_leD)
  next
    case False
    then have "find_order n z b = n" by (subst find_order.simps) auto
    then show ?thesis using False 1(2) by auto
  qed
qed

section \<open>Allocation\<close>

text \<open>What an allocation of order \<open>n\<close> does: the block at \<open>p\<close> leaves the free pages.\<close>

definition allocated_block :: "nat \<Rightarrow> nat \<Rightarrow> zone_type \<Rightarrow> buddy_state \<Rightarrow> buddy_state \<Rightarrow> bool" where
  "allocated_block p n z b b' \<longleftrightarrow> block_at p n \<and> p \<noteq> 0 \<and> zone_of p = z \<and>
     blk p n \<subseteq> free_pages b \<and> free_pages b' = free_pages b - blk p n \<and>
     block_meta b' p n PAGE_STATE_ALLOCATED \<and> (\<forall>q. q \<notin> blk p n \<longrightarrow> pstate b' q = pstate b q) \<and>
     (\<forall>q. q < MAX_PAGES \<and> pstate b q \<noteq> PAGE_STATE_FREE \<longrightarrow> ppriv b' q = ppriv b q)"

lemma page_to_phys_nz: "p < MAX_PAGES \<Longrightarrow> p \<noteq> 0 \<Longrightarrow> page_to_phys p \<noteq> 0"
  using unat_page_to_phys [of p] by (metis mult_is_0 unat_0 zero_neq_numeral)

lemma nr_free_zero:
  assumes "lists_ok b P"
  shows "nr_free b z k = 0 \<longleftrightarrow> free_list b z k = []"
  using lists_okD(2) [OF assms, of z k] by (metis length_0_conv unat_0 unat_eq_zero)

lemma alloc_step:
  assumes inv: "buddy_inv b" and fl: "free_list b z c = p # rest" and nc: "n \<le> c"
  shows "\<exists>b1 b2. split_block_to_order n c (page_to_phys p) z (unlist p c z b) = Inr (page_to_phys p, b1) \<and>
    set_block_metadata p n PAGE_STATE_ALLOCATED b1 = Inr b2 \<and> buddy_inv b2 \<and> allocated_block p n z b b2"
proof -
  have ok: "lists_ok b {}" using inv by (simp add: buddy_inv_def inv_except_def)
  have p: "p \<in> set (free_list b z c)" using fl by simp
  note pp = lists_okD(3-8) [OF ok p]
  have at: "block_at p c" using pp by (simp add: block_at_def)
  have "inv_except (unlist p c z b) (blk p c)"
    using inv_unlist [of b "{}", OF _ p] inv by (simp add: buddy_inv_def)
  then obtain b1 where b1: "split_block_to_order n c (page_to_phys p) z (unlist p c z b) = Inr (page_to_phys p, b1)"
    "inv_except b1 (blk p n)" "\<forall>q. pstate b1 q = (if q \<in> blk p c - blk p n then PAGE_STATE_FREE else pstate b q)"
    "\<forall>q. q \<notin> blk p c \<longrightarrow> ppriv b1 q = ppriv b q"
    using split_spec [OF _ at nc pp(5), of "unlist p c z b"] unfolding pp(4) unlist_simps by blast
  have sub: "blk p n \<subseteq> blk p c" using nc by (auto simp: blk_def intro: order.strict_trans2)
  have "(2 :: nat) ^ n dvd 2 ^ c" using nc by (rule le_imp_power_dvd)
  then have at_n: "block_at p n" using at nc unfolding block_at_def by (auto intro: dvd_trans)
  obtain b2 where b2: "set_block_metadata p n PAGE_STATE_ALLOCATED b1 = Inr b2"
    "meta_written p n PAGE_STATE_ALLOCATED b1 b2" "free_list b2 = free_list b1" "nr_free b2 = nr_free b1"
    using set_block_metadata_written [OF at_n, of PAGE_STATE_ALLOCATED b1] by auto
  have inv2: "buddy_inv b2"
    unfolding buddy_inv_def
    by (rule inv_allocate [OF _ b2(2,3,4)]) (use b1(2) at_n in auto)
  have free: "pstate b q = PAGE_STATE_FREE" "q < MAX_PAGES" if "q \<in> blk p c" for q
    using block_meta_st [OF pp(6) that] zone_of_blk(1) [OF pp(2,3,1) that] by simp_all
  have out: "pstate b2 q = pstate b q" if "q \<notin> blk p n" for q
    using meta_writtenD(2) [OF b2(2) that] b1(3) free(1) [of q] that by auto
  have "q \<in> free_pages b2 \<longleftrightarrow> q \<in> free_pages b - blk p n" for q
    using out [of q] meta_writtenD(1) [OF b2(2), of q] by (cases "q \<in> blk p n") (auto simp: free_pages_def)
  then have "free_pages b2 = free_pages b - blk p n" by blast
  moreover have "blk p n \<subseteq> free_pages b" using sub free by (auto simp: free_pages_def)
  moreover have "ppriv b2 q = ppriv b q" if "pstate b q \<noteq> PAGE_STATE_FREE" for q
  proof -
    have "q \<notin> blk p c" using free(1) that by blast
    moreover from this have "q \<notin> blk p n" using sub by blast
    ultimately show ?thesis using meta_writtenD(5) [OF b2(2)] b1(4) by simp
  qed
  ultimately have "allocated_block p n z b b2"
    using at_n pp out meta_writtenD(7) [OF b2(2)] by (simp add: allocated_block_def)
  then show ?thesis using b1(1) b2(1) inv2 by blast
qed

lemma buddy_alloc_spec:
  fixes sz :: u32
  assumes inv: "buddy_inv b" and z: "z \<noteq> INVALID_ZONE"
  defines "n \<equiv> size_to_order sz"
  shows "if \<exists>k. n \<le> k \<and> k \<le> 10 \<and> free_list b z k \<noteq> []
    then \<exists>p b'. buddy_alloc_pages sz z b = Inr (page_to_phys p, b') \<and> buddy_inv b' \<and> allocated_block p n z b b'
    else buddy_alloc_pages sz z b = Inr (0, b)"
proof (cases "n \<le> 10")
  case False
  then show ?thesis by (auto simp: buddy_alloc_pages_def n_def order_is_valid_def MAX_ORDER_def Let_def)
next
  case True
  have ok: "lists_ok b {}" using inv by (simp add: buddy_inv_def inv_except_def)
  let ?c = "find_order n z b"
  have fo: "n \<le> ?c" "?c \<le> 11" "\<And>j. n \<le> j \<Longrightarrow> j < ?c \<Longrightarrow> free_list b z j = []"
    "?c < 11 \<Longrightarrow> free_list b z ?c \<noteq> []"
    using find_order_spec [of n z b] True nr_free_zero [OF ok] by (auto simp: BAD_ORDER_def)
  have v: "order_is_valid n" using True by (simp add: order_is_valid_def MAX_ORDER_def)
  show ?thesis
  proof (cases "?c = 11")
    case c: True
    then have "buddy_alloc_pages sz z b = Inr (0, b)"
      using v z by (simp add: buddy_alloc_pages_def Let_def n_def [symmetric] BAD_ORDER_def)
    moreover have "\<not> (\<exists>k. n \<le> k \<and> k \<le> 10 \<and> free_list b z k \<noteq> [])" using fo(3) c by auto
    ultimately show ?thesis by (simp only: if_False)
  next
    case False
    then have c: "?c \<le> 10" using fo(2) by simp
    obtain p rest where fl: "free_list b z ?c = p # rest" using fo(4) c by (cases "free_list b z ?c") auto
    then have p: "p \<in> set (free_list b z ?c)" by simp
    obtain b1 b2 where b: "split_block_to_order n ?c (page_to_phys p) z (unlist p ?c z b) = Inr (page_to_phys p, b1)"
      "set_block_metadata p n PAGE_STATE_ALLOCATED b1 = Inr b2" "buddy_inv b2" "allocated_block p n z b b2"
      using alloc_step [OF inv fl fo(1)] by blast
    have "buddy_alloc_pages sz z b = Inr (page_to_phys p, b2)"
      using v z c b(1,2) page_to_phys_nz [OF lists_okD(3,7) [OF ok p]] lists_okD(3) [OF ok p]
      by (simp add: buddy_alloc_pages_def Let_def n_def [symmetric] BAD_ORDER_def
          pop_first_block_unlist [OF fl])
    moreover have "\<exists>k. n \<le> k \<and> k \<le> 10 \<and> free_list b z k \<noteq> []" using fo(1) c fl by auto
    ultimately show ?thesis using b(3,4) by auto
  qed
qed

section \<open>Release\<close>

lemma page_mono: "a \<le> c \<Longrightarrow> page_addr_to_page a \<le> page_addr_to_page c"
  by (simp add: page_addr_to_page_div word_le_nat_alt div_le_mono)

lemma page_min: "page_addr_to_page (min a c) = min (page_addr_to_page a) (page_addr_to_page c)"
  using page_mono by (metis min_def linorder_le_cases order_antisym)

lemma base_below:
  assumes "get_buddy_base (zone_of (page_addr_to_page ptr)) = Inr base"
  shows "base \<le> ptr"
proof -
  have "unat base \<le> unat ptr"
    using assms page_addr_to_page_less [of ptr]
    by (auto simp: zone_of_div get_buddy_base_def page_addr_to_page_div LOWMEM_START_def HIGHMEM_START_def
        div_mult2_eq [symmetric] split: if_splits)
  then show ?thesis by (simp add: word_le_nat_alt)
qed

lemma get_buddy_page_spec:
  assumes inv: "inv_except b (blk p k)" and at: "block_at p k" and k: "k < 10"
    and ptr: "page_addr_to_page ptr = p"
  shows "get_buddy_page ptr k (zone_of p) b =
    Inr (if bud p k \<in> set (free_list b (zone_of p) k) then Some (bud p k) else None)"
proof -
  have ok: "lists_ok b (blk p k)" and pg: "pages_ok b (blk p k)" using inv by (auto simp: inv_except_def)
  note a = block_atD [OF at]
  have "zone_of p \<noteq> INVALID_ZONE" using zone_of_blk(3) [OF a(2,3,1) blk_self] .
  then obtain base where base: "get_buddy_base (zone_of p) = Inr base"
    by (cases "zone_of p") (auto simp: get_buddy_base_def)
  have bp: "page_addr_to_page (WHO_IS_MY_BUDDY ptr k base) = bud p k"
    using WHO_IS_MY_BUDDY_bud [OF base base_below k] base ptr by simp
  note z = bud_zone [OF a(2) k a(1)]
  have nin: "bud p k \<notin> blk p k" using bud_props(4) [OF a(2)] blk_self by (metis Int_iff empty_iff)
  have "pstate b (bud p k) = PAGE_STATE_FREE \<and> ppriv b (bud p k) = of_nat k \<longleftrightarrow>
      bud p k \<in> set (free_list b (zone_of p) k)"
  proof
    assume "pstate b (bud p k) = PAGE_STATE_FREE \<and> ppriv b (bud p k) = of_nat k"
    then show "bud p k \<in> set (free_list b (zone_of p) k)"
      using pages_okD(1) [OF pg z(1) nin] unat_of_nat_order [OF a(3)] a(3) z(2) by simp
  next
    assume "bud p k \<in> set (free_list b (zone_of p) k)"
    from lists_okD(8) [OF ok this] show "pstate b (bud p k) = PAGE_STATE_FREE \<and> ppriv b (bud p k) = of_nat k"
      by (simp add: block_meta_def)
  qed
  then show ?thesis
    by (simp add: get_buddy_page_def base bp Let_def PAGE_IS_FREE_def pstate_def ppriv_def)
qed

lemma coalesce_spec:
  assumes "inv_except b (blk p k)" and "block_at p k" and "p \<noteq> 0" and "page_addr_to_page ptr = p"
  shows "\<exists>ptr' p' k' b'. coalesce ptr k (zone_of p) b = Inr (ptr', k', b') \<and>
    page_addr_to_page ptr' = p' \<and> block_at p' k' \<and> p' \<noteq> 0 \<and> zone_of p' = zone_of p \<and>
    inv_except b' (blk p' k') \<and> (k' < 10 \<longrightarrow> bud p' k' \<notin> set (free_list b' (zone_of p) k')) \<and>
    blk p k \<subseteq> blk p' k' \<and> (\<forall>q \<in> blk p' k' - blk p k. pstate b q = PAGE_STATE_FREE) \<and> descs b' = descs b"
  using assms
proof (induction "10 - k" arbitrary: ptr p k b)
  case 0
  then have "coalesce ptr k (zone_of p) b = Inr (ptr, k, b)" "k = 10"
    using block_atD(3) [of p k] by (subst coalesce.simps, simp_all add: MAX_ORDER_def)
  then show ?case using 0 by auto
next
  case (Suc n)
  have k: "k < 10" using Suc.hyps(2) by simp
  note a = block_atD [OF Suc.prems(2)]
  note gb = get_buddy_page_spec [OF Suc.prems(1,2) k Suc.prems(4)]
  let ?q = "bud p k" and ?m = "min p (bud p k)"
  show ?case
  proof (cases "?q \<in> set (free_list b (zone_of p) k)")
    case False
    then have "coalesce ptr k (zone_of p) b = Inr (ptr, k, b)"
      using gb k by (subst coalesce.simps) (simp add: MAX_ORDER_def)
    then show ?thesis using Suc.prems False by auto
  next
    case True
    have ok: "lists_ok b (blk p k)" using Suc.prems(1) by (simp add: inv_except_def)
    note z = bud_zone [OF a(2) k a(1)]
    let ?b = "unlist ?q k (zone_of p) b"
    obtain b1 where b1: "pop_page_node ?q b = Inr b1"
      "b1\<lparr>nr_free := (nr_free b1)(zone_of p := (nr_free b1 (zone_of p))(k := nr_free b1 (zone_of p) k - 1))\<rparr> = ?b"
      using pop_page_node_unlist [OF ok True] by blast
    have step: "coalesce ptr k (zone_of p) b = coalesce (min ptr (page_to_phys ?q)) (Suc k) (zone_of ?m) ?b"
      using gb True k b1 z(4) by (subst coalesce.simps) (simp add: MAX_ORDER_def)
    have "inv_except ?b (blk ?m (Suc k))"
      using inv_unlist [OF Suc.prems(1) True] bud_props(5) [OF a(2)] by simp
    moreover have "block_at ?m (Suc k)"
      using bud_props(3) [OF a(2)] z(3) k by (simp add: block_at_def)
    moreover have "?m \<noteq> 0" using Suc.prems(3) lists_okD(7) [OF ok True] by (simp add: min_def)
    moreover have "page_addr_to_page (min ptr (page_to_phys ?q)) = ?m"
      using Suc.prems(4) z(1) by (simp add: page_min)
    ultimately obtain ptr' p' k' b' where r: "coalesce (min ptr (page_to_phys ?q)) (Suc k) (zone_of ?m) ?b = Inr (ptr', k', b')"
      "page_addr_to_page ptr' = p'" "block_at p' k'" "p' \<noteq> 0" "zone_of p' = zone_of ?m"
      "inv_except b' (blk p' k')" "k' < 10 \<longrightarrow> bud p' k' \<notin> set (free_list b' (zone_of ?m) k')"
      "blk ?m (Suc k) \<subseteq> blk p' k'" "\<forall>q \<in> blk p' k' - blk ?m (Suc k). pstate b q = PAGE_STATE_FREE" "descs b' = descs b"
      using Suc.hyps(1) [of "Suc k" ?b ?m "min ptr (page_to_phys ?q)"] Suc.hyps(2)
      unfolding unlist_simps by fastforce
    have sub: "blk p k \<subseteq> blk ?m (Suc k)" "blk ?m (Suc k) - blk p k \<subseteq> blk ?q k"
      unfolding bud_props(5) [OF a(2), symmetric] by auto
    have "pstate b q = PAGE_STATE_FREE" if "q \<in> blk p' k' - blk p k" for q
      using r(9) that sub(2) block_meta_st [OF lists_okD(8) [OF ok True]] by blast
    then show ?thesis
      using step r sub(1) z(4) by (intro exI [of _ ptr'] exI [of _ p'] exI [of _ k'] exI [of _ b']) auto
  qed
qed

lemma zone_flag_type:
  assumes "p < MAX_PAGES"
  shows "page_zone_flags_to_zone_type (page_get_zone_flag (page_to_phys p)) = zone_of p"
  by (simp add: page_zone_flags_to_zone_type_def page_get_zone_flag_def zone_of_def
      boot_alloc_get_addr_zone_def page_zone_defs)

lemma release_spec:
  assumes inv: "inv_except b (blk p k)" and at: "block_at p k" and nz: "p \<noteq> 0"
    and ptr: "page_addr_to_page ptr = p" and ppriv: "ppriv b p = of_nat k"
    and pstate: "pstate b p = PAGE_STATE_ALLOCATED \<or> pstate b p = PAGE_STATE_AVAILABLE"
  shows "\<exists>b'. buddy_free_block ptr b = Inr b' \<and> buddy_inv b' \<and>
    (\<forall>q. pstate b' q = (if q \<in> blk p k then PAGE_STATE_FREE else pstate b q)) \<and>
    (\<forall>q. pstate b' q \<noteq> PAGE_STATE_FREE \<longrightarrow> ppriv b' q = ppriv b q)"
proof -
  note a = block_atD [OF at]
  have pg: "pages_ok b (blk p k)" using inv by (simp add: inv_except_def)
  have z: "page_zone_flags_to_zone_type (PAGE_GET_ZONE (descs b p)) = zone_of p" "zone_of p \<noteq> INVALID_ZONE"
    using pages_okD(6) [OF pg a(1)] zone_flag_type [OF a(1)] zone_of_blk(3) [OF a(2,3,1) blk_self] by simp_all
  obtain ptr' p' k' b1 where r: "coalesce ptr k (zone_of p) b = Inr (ptr', k', b1)"
    "page_addr_to_page ptr' = p'" "block_at p' k'" "p' \<noteq> 0" "zone_of p' = zone_of p"
    "inv_except b1 (blk p' k')" "k' < 10 \<longrightarrow> bud p' k' \<notin> set (free_list b1 (zone_of p) k')"
    "blk p k \<subseteq> blk p' k'" "\<forall>q \<in> blk p' k' - blk p k. pstate b q = PAGE_STATE_FREE" "descs b1 = descs b"
    using coalesce_spec [OF inv at nz ptr] by (elim exE conjE) (rule that)
  obtain b2 where b2: "set_block_metadata p' k' PAGE_STATE_FREE b1 = Inr b2"
    "meta_written p' k' PAGE_STATE_FREE b1 b2" "free_list b2 = free_list b1" "nr_free b2 = nr_free b1"
    using set_block_metadata_written [OF r(3), of PAGE_STATE_FREE b1] by auto
  let ?b = "push_block p' k' (zone_of p') b2"
  have "buddy_inv ?b"
    unfolding buddy_inv_def
    by (rule inv_push [OF _ b2(2,3,4) _ r(3,4)]) (use r(5,6,7) in auto)
  moreover have "buddy_free_block ptr b = Inr ?b"
    using pstate ppriv ptr r(1,2,5) b2(1) z unat_of_nat_order [OF a(3)] a(3)
    by (auto simp: buddy_free_block_def Let_def pstate_def ppriv_def order_is_valid_def MAX_ORDER_def)
  moreover have s: "pstate ?b q = (if q \<in> blk p k then PAGE_STATE_FREE else pstate b q)" for q
    using meta_writtenD(1,2) [OF b2(2), of q] r(8,9) r(10)
    by (cases "q \<in> blk p' k'") (auto simp: pstate_def)
  moreover have "ppriv ?b q = ppriv b q" if "pstate ?b q \<noteq> PAGE_STATE_FREE" for q
    using that s [of q] meta_writtenD(1,5) [OF b2(2), of q] r(10) by (auto simp: ppriv_def)
  ultimately show ?thesis by blast
qed

lemma allocated_pending:
  assumes inv: "buddy_inv b" and p: "p < MAX_PAGES" and pstate: "pstate b p = PAGE_STATE_ALLOCATED"
    and k: "unat (ppriv b p) = k" "k \<le> 10"
  shows "inv_except b (blk p k)" "block_at p k" "ppriv b p = of_nat k"
proof -
  have pg: "pages_ok b {}" using inv by (simp add: buddy_inv_def inv_except_def)
  have d: "2 ^ k dvd p" and m: "block_meta b p k PAGE_STATE_ALLOCATED"
    using pages_okD(3,4) [OF pg p _ pstate] k by auto
  then show "block_at p k" "ppriv b p = of_nat k" using p k by (auto simp: block_at_def block_meta_def)
  show "inv_except b (blk p k)"
  proof (rule inv_pending)
    show "inv_except b {}" using inv by (simp add: buddy_inv_def)
    show "pstate b q \<noteq> PAGE_STATE_FREE" if "q \<in> blk p k" for q
      using block_meta_st [OF m that] by simp
    fix q assume q: "q < MAX_PAGES" "q \<notin> blk p k" "pstate b q = PAGE_STATE_ALLOCATED" "unat (ppriv b q) \<le> 10"
    let ?j = "unat (ppriv b q)"
    have qd: "2 ^ ?j dvd q" and qm: "block_meta b q ?j PAGE_STATE_ALLOCATED"
      using pages_okD(3,4) [OF pg q(1) _ q(3,4)] by auto
    show "blk q ?j \<inter> blk p k = {}"
    proof (rule ccontr)
      assume o: "blk q ?j \<inter> blk p k \<noteq> {}"
      show False
      proof (cases "?j \<le> k")
        case True
        then have "q \<in> blk p k" using blk_nested [OF d qd] o blk_self by (metis Int_commute subsetD)
        then show False using q(2) by simp
      next
        case False
        then have "p \<in> blk q ?j" using blk_nested [OF qd d _ o] blk_self by (meson linear subsetD)
        moreover have "p \<noteq> q" using q(2) by auto
        ultimately have "ppriv b p = PAGE_MAGIC" using qm by (simp add: block_meta_def)
        then show False using k magic_not_order(1) by simp
      qed
    qed
  qed
qed

lemma free_allocated_spec:
  assumes "buddy_inv b" and "page_addr_to_page ptr \<noteq> 0" and "pstate b (page_addr_to_page ptr) = PAGE_STATE_ALLOCATED"
    and "unat (ppriv b (page_addr_to_page ptr)) = k" and "k \<le> 10"
  shows "\<exists>b'. buddy_free_block ptr b = Inr b' \<and> buddy_inv b' \<and>
    (\<forall>q. pstate b' q = (if q \<in> blk (page_addr_to_page ptr) k then PAGE_STATE_FREE else pstate b q))"
  using release_spec [OF allocated_pending(1,2) [OF assms(1) page_addr_to_page_less assms(3,4,5)] assms(2) refl
      allocated_pending(3) [OF assms(1) page_addr_to_page_less assms(3,4,5)]] assms(3)
  by blast

lemma free_pages_release:
  assumes "\<forall>q. pstate b' q = (if q \<in> blk p k then PAGE_STATE_FREE else pstate b q)" and "block_at p k"
  shows "free_pages b' = free_pages b \<union> blk p k"
  using assms zone_of_blk(1) [OF block_atD(2,3,1) [OF assms(2)]] by (auto simp: free_pages_def)

section \<open>Initialisation\<close>

lemma inv_set_order:
  assumes inv: "buddy_inv b" and pstate: "pstate b i = PAGE_STATE_AVAILABLE" and i: "i < MAX_PAGES"
  defines "b1 \<equiv> b\<lparr>descs := (descs b)(i := (descs b i)\<lparr>private_data := 0\<rparr>)\<rparr>"
  shows "inv_except b1 (blk i 0)" "\<And>q. pstate b1 q = pstate b q" "\<And>q. q \<noteq> i \<Longrightarrow> ppriv b1 q = ppriv b q" "ppriv b1 i = 0"
proof -
  have ok: "lists_ok b {}" and pg: "pages_ok b {}" using inv by (auto simp: buddy_inv_def inv_except_def)
  show s: "\<And>q. pstate b1 q = pstate b q" "\<And>q. q \<noteq> i \<Longrightarrow> ppriv b1 q = ppriv b q" "ppriv b1 i = 0"
    by (simp_all add: b1_def pstate_def ppriv_def PAGE_GET_STATE_def)
  have z: "PAGE_GET_ZONE (descs b1 q) = PAGE_GET_ZONE (descs b q)" for q
    by (simp add: b1_def PAGE_GET_ZONE_def)
  have l: "free_list b1 = free_list b" "nr_free b1 = nr_free b" by (simp_all add: b1_def)
  have m: "block_meta b1 p k s = block_meta b p k s" if "i \<notin> blk p k" for p k s
  proof -
    have "q \<noteq> i" if "q \<in> blk p k" for q using that \<open>i \<notin> blk p k\<close> by blast
    then show ?thesis using s blk_self [of p k] unfolding block_meta_def by metis
  qed
  have nin: "i \<notin> blk p k" if "block_meta b p k s" "s = PAGE_STATE_FREE \<or> s = PAGE_STATE_ALLOCATED" for p k s
    using block_meta_st [OF that(1)] that(2) pstate by auto
  have "lists_ok b1 {}"
    unfolding lists_ok_def l using ok lists_okD(8) [OF ok] m nin unfolding lists_ok_def by metis
  moreover have "pages_ok b1 {}"
    unfolding pages_ok_def l z
  proof (intro conjI allI impI)
    fix p assume p: "p < MAX_PAGES" and h: "p \<notin> {} \<and> pstate b1 p = PAGE_STATE_FREE \<and> unat (ppriv b1 p) \<le> 10"
    then have "p \<noteq> i" using s(1) [of i] pstate by auto
    then show "p \<in> set (free_list b (zone_of p) (unat (ppriv b1 p)))" using pages_okD(1) [OF pg p] s h by simp
  next
    fix p assume p: "p < MAX_PAGES" and h: "p \<notin> {} \<and> pstate b1 p = PAGE_STATE_FREE"
    show "\<exists>h k. p \<in> blk h k \<and> h \<in> set (free_list b (zone_of h) k)" using pages_okD(2) [OF pg p] s h by simp
  next
    fix p assume p: "p < MAX_PAGES" and h: "p \<notin> {} \<and> pstate b1 p = PAGE_STATE_ALLOCATED \<and> unat (ppriv b1 p) \<le> 10"
    then have "p \<noteq> i" using s(1) [of i] pstate by auto
    then have *: "2 ^ unat (ppriv b p) dvd p" "block_meta b p (unat (ppriv b p)) PAGE_STATE_ALLOCATED" "ppriv b1 p = ppriv b p"
      using pages_okD(3,4) [OF pg p] s h by simp_all
    then show "2 ^ unat (ppriv b1 p) dvd p" "block_meta b1 p (unat (ppriv b1 p)) PAGE_STATE_ALLOCATED"
      "blk p (unat (ppriv b1 p)) \<inter> {} = {}" using m nin by simp_all
  qed (use pages_okD(6) [OF pg] in simp)
  ultimately have "inv_except b1 {}" by (simp add: inv_except_def)
  then show "inv_except b1 (blk i 0)"
  proof (rule inv_pending)
    have "blk i 0 = {i}" by (auto simp: blk_def)
    then show "\<And>q. q \<in> blk i 0 \<Longrightarrow> pstate b1 q \<noteq> PAGE_STATE_FREE" using s pstate by simp
    fix q assume "q < MAX_PAGES" "q \<notin> blk i 0" "pstate b1 q = PAGE_STATE_ALLOCATED" "unat (ppriv b1 q) \<le> 10"
    then have "block_meta b q (unat (ppriv b q)) PAGE_STATE_ALLOCATED" "ppriv b1 q = ppriv b q"
      using pages_okD(4) [OF pg] s by (metis \<open>blk i 0 = {i}\<close> empty_iff singletonI)+
    then show "blk q (unat (ppriv b1 q)) \<inter> blk i 0 = {}" using nin \<open>blk i 0 = {i}\<close> by auto
  qed
qed

lemma init_loop_spec:
  assumes "buddy_inv b" and "distinct is" and "set is \<subseteq> {..<MAX_PAGES}" and "pstate b 0 \<noteq> PAGE_STATE_AVAILABLE"
  shows "\<exists>b'. init_loop is b = Inr b' \<and> buddy_inv b' \<and>
    (\<forall>q. pstate b' q = (if q \<in> set is \<and> pstate b q = PAGE_STATE_AVAILABLE then PAGE_STATE_FREE else pstate b q))"
  using assms
proof (induction "is" arbitrary: b)
  case Nil
  then show ?case by simp
next
  case (Cons i "is")
  have i: "i < MAX_PAGES" "i \<notin> set is" using Cons.prems by auto
  show ?case
  proof (cases "pstate b i = PAGE_STATE_AVAILABLE")
    case False
    then show ?thesis
      using Cons.IH [OF Cons.prems(1)] Cons.prems by (auto simp: pstate_def)
  next
    case True
    let ?b1 = "b\<lparr>descs := (descs b)(i := (descs b i)\<lparr>private_data := 0\<rparr>)\<rparr>"
    note b1 = inv_set_order [OF Cons.prems(1) True i(1)]
    have "i \<noteq> 0" using True Cons.prems(4) by metis
    moreover have "block_at i 0" using i by (simp add: block_at_def)
    ultimately obtain b2 where b2: "buddy_free_block (page_to_phys i) ?b1 = Inr b2" "buddy_inv b2"
      "\<forall>q. pstate b2 q = (if q \<in> blk i 0 then PAGE_STATE_FREE else pstate b q)"
      using release_spec [OF b1(1) _ _ page_addr_to_page_phys [OF i(1)]] b1(2,4) True i(1) by auto
    have s2: "pstate b2 q = (if q = i then PAGE_STATE_FREE else pstate b q)" for q
      using b2(3) by (simp add: blk_def)
    have "distinct is" "set is \<subseteq> {..<MAX_PAGES}" "pstate b2 0 \<noteq> PAGE_STATE_AVAILABLE"
      using Cons.prems(2,3,4) by (simp_all add: s2)
    then obtain b' where "init_loop is b2 = Inr b'" "buddy_inv b'"
      "\<forall>q. pstate b' q = (if q \<in> set is \<and> pstate b2 q = PAGE_STATE_AVAILABLE then PAGE_STATE_FREE else pstate b2 q)"
      using Cons.IH [OF b2(2)] by blast
    then show ?thesis using b2(1) True s2 i(2) by (intro exI [of _ b']) (auto simp: pstate_def)
  qed
qed

section \<open>The free lists are determined by the free pages\<close>

lemma same_block:
  assumes "2 ^ k dvd p" and "2 ^ k dvd q" and "blk p k \<inter> blk q k \<noteq> {}"
  shows "p = (q :: nat)"
proof -
  obtain x where "x \<in> blk p k" "x \<in> blk q k" using assms(3) by blast
  then have "p div 2 ^ k = q div 2 ^ k" using in_blk_div assms(1,2) by metis
  then show ?thesis using assms(1,2) by (metis dvd_div_mult_self)
qed

lemma listed_is_maximal:
  assumes inv: "buddy_inv b" and p: "p \<in> set (free_list b z k)" and q: "2 ^ j dvd q" "j \<le> 10"
    and sub: "blk p k \<subseteq> blk q j" and free: "blk q j \<subseteq> free_pages b"
  shows "j \<le> k"
proof (rule ccontr)
  assume "\<not> j \<le> k"
  then have kj: "k < j" by simp
  have ok: "lists_ok b {}" and pg: "pages_ok b {}" using inv by (auto simp: buddy_inv_def inv_except_def)
  have inside: "l < j" "blk h l \<subseteq> blk q j" if h: "h \<in> set (free_list b w l)" and o: "blk h l \<inter> blk q j \<noteq> {}" for h w l
  proof -
    show l: "l < j"
    proof (rule ccontr)
      assume "\<not> l < j"
      then have "blk q j \<subseteq> blk h l" using blk_nested [OF lists_okD(4) [OF ok h] q(1)] o by auto
      then have "blk p k \<inter> blk h l \<noteq> {}" using sub blk_self [of p k] by blast
      from listed_disjoint(2) [OF ok p h this] kj \<open>\<not> l < j\<close> show False by simp
    qed
    show "blk h l \<subseteq> blk q j"
      using blk_nested [OF q(1) lists_okD(4) [OF ok h]] l o by (simp add: Int_commute)
  qed
  let ?Q = "\<lambda>m. \<exists>h w. h \<in> set (free_list b w m) \<and> blk h m \<inter> blk q j \<noteq> {}"
  define m where "m = (LEAST m. ?Q m)"
  have "blk p k \<inter> blk q j \<noteq> {}" using sub blk_self [of p k] by blast
  then have "?Q k" using p by blast
  then have "?Q m" unfolding m_def by (rule LeastI)
  then obtain h w where h: "h \<in> set (free_list b w m)" "blk h m \<inter> blk q j \<noteq> {}" by blast
  have mj: "m < j" and hq: "blk h m \<subseteq> blk q j" using inside [OF h] by auto
  have hm: "2 ^ m dvd h" "h < MAX_PAGES" "zone_of h = w" using lists_okD(3,4,6) [OF ok h(1)] by auto
  let ?g = "bud h m" and ?par = "min h (bud h m)"
  have par: "2 ^ Suc m dvd ?par" "blk h m \<union> blk ?g m = blk ?par (Suc m)" using bud_props(3,5) [OF hm(1)] by auto
  have "blk ?par (Suc m) \<inter> blk q j \<noteq> {}" using h(2) par(2) by blast
  then have "blk ?par (Suc m) \<subseteq> blk q j"
    using blk_nested [OF q(1) par(1)] mj by (simp add: Int_commute)
  then have "?g \<in> blk q j" using par(2) blk_self [of ?g m] by blast
  then have "?g < MAX_PAGES" "pstate b ?g = PAGE_STATE_FREE" using free by (auto simp: free_pages_def)
  then obtain h' l where h': "?g \<in> blk h' l" "h' \<in> set (free_list b (zone_of h') l)"
    using pages_okD(2) [OF pg] by blast
  have "blk h' l \<inter> blk q j \<noteq> {}" using h'(1) \<open>?g \<in> blk q j\<close> by blast
  then have "?Q l" using h'(2) by blast
  then have ml: "m \<le> l" unfolding m_def by (rule Least_le)
  show False
  proof (cases "m = l")
    case True
    have "blk h' m \<inter> blk ?g m \<noteq> {}" using h'(1) True blk_self [of ?g m] by blast
    then have "h' = ?g" using same_block lists_okD(4) [OF ok h'(2)] bud_props(1) [OF hm(1)] True by metis
    then have "?g \<in> set (free_list b w m)"
      using h'(2) True bud_zone(2) [OF hm(1) _ hm(2)] hm(3) mj q(2) by simp
    then show False using lists_okD(10) [OF ok _ h(1)] mj q(2) by simp
  next
    case False
    then have "blk ?par (Suc m) \<subseteq> blk h' l"
      using blk_nested [OF lists_okD(4) [OF ok h'(2)] par(1)] ml h'(1) par(2) blk_self [of ?g m]
      by (metis (no_types, lifting) Int_iff Suc_leI Un_iff empty_iff le_neq_implies_less)
    then have "blk h m \<inter> blk h' l \<noteq> {}" using par(2) blk_self [of h m] by blast
    from listed_disjoint(2) [OF ok h(1) h'(2) this] False show False by simp
  qed
qed

lemma lists_determined:
  assumes "buddy_inv b1" and "buddy_inv b2" and "free_pages b1 = free_pages b2"
    and p: "p \<in> set (free_list b1 z k)"
  shows "p \<in> set (free_list b2 z k)"
proof -
  have ok: "lists_ok b1 {}" "lists_ok b2 {}" "pages_ok b2 {}"
    using assms(1,2) by (auto simp: buddy_inv_def inv_except_def)
  have listed_free: "blk h l \<subseteq> free_pages b" if "lists_ok b {}" "h \<in> set (free_list b w l)" for b h l w
    using block_meta_st [OF lists_okD(8) [OF that]] zone_of_blk(1) [OF lists_okD(4,5,3) [OF that]]
    by (auto simp: free_pages_def)
  note pk = lists_okD(3-6) [OF ok(1) p]
  have "p \<in> free_pages b2" using listed_free [OF ok(1) p] assms(3) blk_self by blast
  then obtain h j where h: "p \<in> blk h j" "h \<in> set (free_list b2 (zone_of h) j)"
    using pages_okD(2) [OF ok(3), of p] by (auto simp: free_pages_def)
  note hj = lists_okD(3-6) [OF ok(2) h(2)]
  have ov: "blk h j \<inter> blk p k \<noteq> {}" using h(1) blk_self [of p k] by blast
  have "j = k"
  proof (rule antisym)
    show "j \<le> k"
    proof (rule ccontr)
      assume "\<not> j \<le> k"
      then have "blk p k \<subseteq> blk h j" using blk_nested [OF hj(2) pk(2)] ov by simp
      from listed_is_maximal [OF assms(1) p hj(2,3) this] \<open>\<not> j \<le> k\<close> show False
        using listed_free [OF ok(2) h(2)] assms(3) by simp
    qed
    show "k \<le> j"
    proof (rule ccontr)
      assume "\<not> k \<le> j"
      then have "blk h j \<subseteq> blk p k" using blk_nested [OF pk(2) hj(2)] ov by (simp add: Int_commute)
      from listed_is_maximal [OF assms(2) h(2) pk(2,3) this] \<open>\<not> k \<le> j\<close> show False
        using listed_free [OF ok(1) p] assms(3) by simp
    qed
  qed
  moreover have "h = p" using same_block [of j h p] hj(2) pk(2) ov \<open>j = k\<close> by simp
  ultimately show ?thesis using h(2) pk(4) by simp
qed

end
