(* ===== verification/Buddy_Spec.thy ===== *)
theory Buddy_Spec
  imports Buddy_Ops
begin

text \<open>
  The contract of the physical page allocator as the locale \<open>page_allocator\<close>, its interpretation on
  \<^verbatim>\<open>buddy_alloc_pages\<close> and \<^verbatim>\<open>buddy_free_block\<close>, and the properties of the allocator.
\<close>

section \<open>The interface: an allocator of page frames\<close>

text \<open>
  What the slab allocator, the page-table code and the task code rely on: \<open>free\<close> is the set of free
  frames, \<open>owned s r\<close> says that address \<open>r\<close> was handed out and not yet released, \<open>frames s r\<close> are its
  frames.
\<close>

locale page_allocator =
  fixes inv :: "'s \<Rightarrow> bool"
    and free :: "'s \<Rightarrow> nat set"
    and owned :: "'s \<Rightarrow> u32 \<Rightarrow> bool"
    and frames :: "'s \<Rightarrow> u32 \<Rightarrow> nat set"
    and alloc :: "'q \<Rightarrow> 's \<Rightarrow> (u32 \<times> 's) kres"
    and release :: "u32 \<Rightarrow> 's \<Rightarrow> 's kres"
  assumes alloc_total: "inv s \<Longrightarrow> \<exists>r s'. alloc q s = Inr (r, s')"
    and alloc_null: "inv s \<Longrightarrow> alloc q s = Inr (0, s') \<Longrightarrow> s' = s"
    and alloc_inv: "inv s \<Longrightarrow> alloc q s = Inr (r, s') \<Longrightarrow> inv s'"
    and alloc_ok: "inv s \<Longrightarrow> alloc q s = Inr (r, s') \<Longrightarrow> r \<noteq> 0 \<Longrightarrow>
          owned s' r \<and> frames s' r \<subseteq> free s \<and> free s' = free s - frames s' r"
    and alloc_keeps: "inv s \<Longrightarrow> alloc q s = Inr (r, s') \<Longrightarrow> owned s x \<Longrightarrow> owned s' x \<and> frames s' x = frames s x"
    and owned_not_free: "inv s \<Longrightarrow> owned s r \<Longrightarrow> frames s r \<inter> free s = {}"
    and release_ok: "inv s \<Longrightarrow> owned s r \<Longrightarrow>
          \<exists>s'. release r s = Inr s' \<and> inv s' \<and> free s' = free s \<union> frames s r"
    and release_keeps: "inv s \<Longrightarrow> owned s r \<Longrightarrow> release r s = Inr s' \<Longrightarrow> owned s x \<Longrightarrow>
          frames s x \<inter> frames s r = {} \<Longrightarrow> owned s' x \<and> frames s' x = frames s x"
begin

text \<open>Releasing what was just allocated gives all frames back.\<close>

lemma alloc_release:
  assumes "inv s" and "alloc q s = Inr (r, s')" and "r \<noteq> 0"
  shows "\<exists>s''. release r s' = Inr s'' \<and> inv s'' \<and> free s'' = free s"
  using release_ok [OF alloc_inv [OF assms(1,2)], of r] alloc_ok [OF assms] by (metis Un_Diff_cancel2 Un_absorb2)

text \<open>A sequence of requests; a request that is refused contributes no address.\<close>

fun alloc_seq :: "'q list \<Rightarrow> 's \<Rightarrow> (u32 list \<times> 's) kres" where
  "alloc_seq [] s = Inr ([], s)"
| "alloc_seq (q # qs) s =
     kbind (alloc q s) (\<lambda>(r, s'). kbind (alloc_seq qs s') (\<lambda>(rs, s''). Inr (if r = 0 then rs else r # rs, s'')))"

lemma alloc_seq_disjoint:
  "inv s \<Longrightarrow> \<exists>rs s'. alloc_seq qs s = Inr (rs, s') \<and> inv s' \<and>
     sorted_wrt (\<lambda>a b. frames s' a \<inter> frames s' b = {}) rs \<and>
     (\<forall>r \<in> set rs. owned s' r \<and> frames s' r \<subseteq> free s) \<and>
     free s' = free s - (\<Union>r \<in> set rs. frames s' r) \<and>
     (\<forall>x. owned s x \<longrightarrow> owned s' x \<and> frames s' x = frames s x)"
proof (induction qs arbitrary: s)
  case Nil
  then show ?case by simp
next
  case (Cons q qs)
  obtain r s1 where a: "alloc q s = Inr (r, s1)" using alloc_total [OF Cons.prems] by blast
  have i1: "inv s1" by (rule alloc_inv [OF Cons.prems a])
  obtain rs s2 where IH: "alloc_seq qs s1 = Inr (rs, s2)" "inv s2"
    "sorted_wrt (\<lambda>a b. frames s2 a \<inter> frames s2 b = {}) rs"
    "\<forall>r \<in> set rs. owned s2 r \<and> frames s2 r \<subseteq> free s1" "free s2 = free s1 - (\<Union>r \<in> set rs. frames s2 r)"
    "\<forall>x. owned s1 x \<longrightarrow> owned s2 x \<and> frames s2 x = frames s1 x"
    using Cons.IH [OF i1] by (elim exE conjE) (rule that)
  have keep: "\<forall>x. owned s x \<longrightarrow> owned s2 x \<and> frames s2 x = frames s x"
    using alloc_keeps [OF Cons.prems a] IH(6) by metis
  show ?case
  proof (cases "r = 0")
    case True
    then have "s1 = s" using alloc_null Cons.prems a by simp
    then show ?thesis using a IH True by (intro exI [of _ rs] exI [of _ s2]) simp
  next
    case False
    note ok = alloc_ok [OF Cons.prems a False]
    have r: "owned s2 r" "frames s2 r = frames s1 r" using IH(6) ok by auto
    have "frames s2 r \<inter> frames s2 x = {}" if "x \<in> set rs" for x
      using IH(4) that r(2) ok by blast
    moreover have "free s2 = free s - (\<Union>x \<in> set (r # rs). frames s2 x)"
      using IH(5) ok r(2) by auto
    moreover have "\<forall>x \<in> set (r # rs). owned s2 x \<and> frames s2 x \<subseteq> free s"
      using IH(4) ok r by auto
    ultimately show ?thesis
      using a IH(1-3) False keep by (intro exI [of _ "r # rs"] exI [of _ s2]) simp
  qed
qed

end

text \<open>The buddy allocator keeps the contract, for each of the three zones.\<close>

definition buddy_owned :: "buddy_state \<Rightarrow> u32 \<Rightarrow> bool" where
  "buddy_owned b r \<longleftrightarrow> page_addr_to_page r \<noteq> 0 \<and> pstate b (page_addr_to_page r) = PAGE_STATE_ALLOCATED \<and>
     unat (ppriv b (page_addr_to_page r)) \<le> 10"

definition buddy_frames :: "buddy_state \<Rightarrow> u32 \<Rightarrow> nat set" where
  "buddy_frames b r = blk (page_addr_to_page r) (unat (ppriv b (page_addr_to_page r)))"

text \<open>A request is a size and a zone; the value \<^verbatim>\<open>INVALID_ZONE\<close> of the enumeration, which no caller passes, makes none.\<close>

definition buddy_request :: "u32 \<times> zone_type \<Rightarrow> buddy_state \<Rightarrow> (u32 \<times> buddy_state) kres" where
  "buddy_request req b = (if snd req = INVALID_ZONE then Inr (0, b) else buddy_alloc_pages (fst req) (snd req) b)"

lemma buddy_alloc_cases:
  assumes "buddy_inv b" and "z \<noteq> INVALID_ZONE"
  obtains "buddy_alloc_pages sz z b = Inr (0, b)"
  | p b' where "buddy_alloc_pages sz z b = Inr (page_to_phys p, b')" "buddy_inv b'" "page_to_phys p \<noteq> 0"
      "page_addr_to_page (page_to_phys p) = p" "allocated_block p (size_to_order sz) z b b'"
  using buddy_alloc_spec [OF assms, of sz] page_to_phys_nz block_atD(1)
  by (auto simp: allocated_block_def split: if_splits)

lemma allocated_block_owned:
  assumes "allocated_block p n z b b'" and "page_addr_to_page r = p"
  shows "buddy_owned b' r" "buddy_frames b' r = blk p n"
  using assms unat_of_nat_order [of n]
  by (auto simp: allocated_block_def buddy_owned_def buddy_frames_def block_meta_def block_at_def)

lemma owned_frames_alloc:
  assumes "buddy_inv b" and "buddy_owned b r"
  shows "q \<in> buddy_frames b r \<Longrightarrow> pstate b q = PAGE_STATE_ALLOCATED"
  using pages_okD(4) [of b "{}" "page_addr_to_page r"] assms page_addr_to_page_less block_meta_st
  unfolding buddy_inv_def inv_except_def buddy_owned_def buddy_frames_def by blast

lemma allocated_block_keeps:
  assumes "buddy_inv b" and "allocated_block p n z b b'" and "buddy_owned b x"
  shows "buddy_owned b' x \<and> buddy_frames b' x = buddy_frames b x"
proof -
  let ?x = "page_addr_to_page x"
  have s: "pstate b ?x = PAGE_STATE_ALLOCATED" using assms(3) by (simp add: buddy_owned_def)
  then have "?x \<notin> blk p n" using assms(2) by (auto simp: allocated_block_def free_pages_def)
  then have "pstate b' ?x = PAGE_STATE_ALLOCATED" "ppriv b' ?x = ppriv b ?x"
    using assms(2) s page_addr_to_page_less by (auto simp: allocated_block_def)
  then show ?thesis using assms(3) by (simp add: buddy_owned_def buddy_frames_def)
qed

lemma released_block_keeps:
  assumes inv: "buddy_inv b" and r: "buddy_owned b r" and f: "buddy_free_block r b = Inr b'"
    and x: "buddy_owned b x" and d: "buddy_frames b x \<inter> buddy_frames b r = {}"
  shows "buddy_owned b' x \<and> buddy_frames b' x = buddy_frames b x"
proof -
  let ?r = "page_addr_to_page r" and ?k = "unat (ppriv b (page_addr_to_page r))" and ?x = "page_addr_to_page x"
  have h: "?r \<noteq> 0" "pstate b ?r = PAGE_STATE_ALLOCATED" "?k \<le> 10" using r by (auto simp: buddy_owned_def)
  note pend = allocated_pending [OF inv page_addr_to_page_less h(2) refl h(3)]
  have b': "\<forall>q. pstate b' q = (if q \<in> blk ?r ?k then PAGE_STATE_FREE else pstate b q)"
    "\<forall>q. pstate b' q \<noteq> PAGE_STATE_FREE \<longrightarrow> ppriv b' q = ppriv b q"
    using release_spec [OF pend(1,2) h(1) refl pend(3)] h(2) f by auto
  have "?x \<notin> blk ?r ?k" using d blk_self [of ?x] unfolding buddy_frames_def by blast
  then show ?thesis using b' x by (auto simp: buddy_owned_def buddy_frames_def)
qed

interpretation buddy: page_allocator buddy_inv free_pages buddy_owned buddy_frames buddy_request buddy_free_block
proof
  fix b b' :: buddy_state and q :: "u32 \<times> zone_type" and r x :: u32
  assume inv: "buddy_inv b"
  consider "buddy_request q b = Inr (0, b)"
    | p b1 where "buddy_request q b = Inr (page_to_phys p, b1)" "buddy_inv b1" "page_to_phys p \<noteq> 0"
        "page_addr_to_page (page_to_phys p) = p" "allocated_block p (size_to_order (fst q)) (snd q) b b1"
  proof (cases "snd q = INVALID_ZONE")
    case True
    then show ?thesis using that(1) by (simp add: buddy_request_def)
  next
    case False
    from buddy_alloc_cases [OF inv this, of "fst q"] show ?thesis
      using False that by cases (simp_all add: buddy_request_def)
  qed
  note cases = this
  show "\<exists>r b'. buddy_request q b = Inr (r, b')" by (rule cases) auto
  show "buddy_request q b = Inr (0, b') \<Longrightarrow> b' = b" by (rule cases) auto
  show "buddy_request q b = Inr (r, b') \<Longrightarrow> buddy_inv b'" using inv by (rule_tac cases) auto
  show "buddy_request q b = Inr (r, b') \<Longrightarrow> r \<noteq> 0 \<Longrightarrow>
      buddy_owned b' r \<and> buddy_frames b' r \<subseteq> free_pages b \<and> free_pages b' = free_pages b - buddy_frames b' r"
    by (rule cases) (auto simp: allocated_block_owned, auto simp: allocated_block_def)
  show "buddy_request q b = Inr (r, b') \<Longrightarrow> buddy_owned b x \<Longrightarrow> buddy_owned b' x \<and> buddy_frames b' x = buddy_frames b x"
    using allocated_block_keeps [OF inv] by (rule_tac cases) auto
  show "buddy_owned b r \<Longrightarrow> buddy_frames b r \<inter> free_pages b = {}"
    using owned_frames_alloc [OF inv] by (auto simp: free_pages_def)
  assume o: "buddy_owned b r"
  show "buddy_free_block r b = Inr b' \<Longrightarrow> buddy_owned b x \<Longrightarrow> buddy_frames b x \<inter> buddy_frames b r = {} \<Longrightarrow>
      buddy_owned b' x \<and> buddy_frames b' x = buddy_frames b x"
    by (rule released_block_keeps [OF inv o])
  show "\<exists>b'. buddy_free_block r b = Inr b' \<and> buddy_inv b' \<and> free_pages b' = free_pages b \<union> buddy_frames b r"
  proof -
    let ?p = "page_addr_to_page r" and ?k = "unat (ppriv b (page_addr_to_page r))"
    have h: "?p \<noteq> 0" "pstate b ?p = PAGE_STATE_ALLOCATED" "?k \<le> 10" using o by (auto simp: buddy_owned_def)
    obtain b' where b': "buddy_free_block r b = Inr b'" "buddy_inv b'"
      "\<forall>q. pstate b' q = (if q \<in> blk ?p ?k then PAGE_STATE_FREE else pstate b q)"
      using free_allocated_spec [OF inv h(1,2) refl h(3)] by blast
    moreover have "free_pages b' = free_pages b \<union> blk ?p ?k"
      by (rule free_pages_release [OF b'(3) allocated_pending(2) [OF inv page_addr_to_page_less h(2) refl h(3)]])
    ultimately show ?thesis by (auto simp: buddy_frames_def)
  qed
qed

section \<open>The order of a request\<close>

lemma DIV_ROUND_UP_page:
  assumes "unat sz \<le> 2 ^ 32 - 4096"
  shows "unat (DIV_ROUND_UP sz PAGE_SIZE) \<le> c \<longleftrightarrow> unat sz \<le> c * 4096"
proof -
  have e: "sz + PAGE_SIZE - 1 = sz + 4095" by (simp add: PAGE_SIZE_def)
  have "unat (sz + PAGE_SIZE - 1) = unat sz + 4095"
    unfolding e using assms by (simp add: unat_add_nowrap)
  then have "unat (DIV_ROUND_UP sz PAGE_SIZE) = (unat sz + 4095) div 4096"
    unfolding DIV_ROUND_UP_def unat_div by (simp add: PAGE_SIZE_def)
  moreover have "(unat sz + 4095) div 4096 < Suc c \<longleftrightarrow> unat sz + 4095 < Suc c * 4096"
    by (rule div_less_iff_less_mult) simp
  ultimately show ?thesis by (simp add: less_Suc_eq_le)
qed

lemma size_to_order_fits:
  assumes "unat sz \<le> 2 ^ 32 - 4096" and "k \<le> 10"
  shows "DIV_ROUND_UP sz PAGE_SIZE \<le> PAGE_BY_ORDER k \<longleftrightarrow> unat sz \<le> 2 ^ k * 4096"
  by (simp only: word_le_nat_alt PAGE_BY_ORDER_unat [OF assms(2)] DIV_ROUND_UP_page [OF assms(1)])

section \<open>Properties\<close>

text \<open>For every size up to the last page of the address space, the order of a request is the least
  order whose block holds it, and no order when 4 MiB are not enough.\<close>

theorem size_to_order_least:
  assumes "unat sz \<le> 2 ^ 32 - 4096"
  shows "size_to_order sz =
    (if unat sz \<le> 2 ^ 10 * 4096 then (LEAST n. unat sz \<le> 2 ^ n * 4096) else BAD_ORDER)"
proof -
  let ?P = "\<lambda>n. DIV_ROUND_UP sz PAGE_SIZE \<le> PAGE_BY_ORDER n" and ?Q = "\<lambda>n. unat sz \<le> 2 ^ n * 4096"
  have PQ: "?P n \<longleftrightarrow> ?Q n" if "n \<le> 10" for n using size_to_order_fits [OF assms that] .
  show ?thesis
  proof (cases "?Q 10")
    case True
    let ?n = "LEAST n. ?Q n"
    have n: "?Q ?n" "?n \<le> 10" using True by (rule LeastI, rule Least_le)
    have "\<not> ?P j" if "j < ?n" for j using not_less_Least [OF that] PQ [of j] that n(2) by simp
    then have "find ?P [0..<Suc MAX_ORDER] = Some ?n"
      using n PQ [OF n(2)] by (auto simp: find_Some_iff MAX_ORDER_def simp del: upt_Suc intro!: exI [of _ ?n])
    then show ?thesis using True by (simp add: size_to_order_def Let_def)
  next
    case False
    have "\<not> ?P n" if "n \<le> 10" for n
    proof -
      have "(2 :: nat) ^ n \<le> 2 ^ 10" using that by (intro power_increasing) auto
      then show ?thesis using False PQ [OF that] by simp
    qed
    then have "find ?P [0..<Suc MAX_ORDER] = None"
      by (auto simp: find_None_iff MAX_ORDER_def simp del: upt_Suc)
    then show ?thesis using False by (simp add: size_to_order_def Let_def)
  qed
qed

theorem size_to_order_least_witness: "size_to_order 10000 = (LEAST n. (10000 :: nat) \<le> 2 ^ n * 4096)"
  using size_to_order_least [of 10000] by simp

text \<open>The page count of a request is computed with a sum that wraps: requests within a page of
  4 GiB are given a block of one page.\<close>

theorem size_to_order_wraps:
  assumes "2 ^ 32 - 4096 < unat sz"
  shows "size_to_order sz = 0"
proof -
  have "sz + PAGE_SIZE - 1 = sz - (- 4095)" by (simp add: PAGE_SIZE_def)
  moreover have "(- 4095 :: u32) = 4294963201" by simp
  ultimately have eq: "sz + PAGE_SIZE - 1 = sz - 4294963201" by simp
  have "unat (sz - 4294963201) = unat sz - unat (4294963201 :: u32)"
    using assms by (intro unat_sub) (simp add: word_le_nat_alt)
  then have "unat (sz - 4294963201) = unat sz - 4294963201" by simp
  then have "unat (sz + PAGE_SIZE - 1) < 4096" using unat_32_bound [of sz] unfolding eq by linarith
  then have "unat (DIV_ROUND_UP sz PAGE_SIZE) = 0"
    unfolding DIV_ROUND_UP_def unat_div by (simp add: PAGE_SIZE_def)
  then have "DIV_ROUND_UP sz PAGE_SIZE = 0" by (simp only: unat_eq_zero)
  then show ?thesis by (simp add: size_to_order_def MAX_ORDER_def upt_rec)
qed

theorem size_to_order_wraps_witness: "size_to_order 0xFFFFF001 = 0"
  by (rule size_to_order_wraps) simp

text \<open>A state with four free low-memory pages, as the initialisation makes it.\<close>

definition example_descs :: descriptors where
  "example_descs = (\<lambda>i. \<lparr>flags = page_get_zone_flag (page_to_phys i) OR
     (if i \<in> {8192, 8193, 8194, 8195} then PAGE_STATE_AVAILABLE else PAGE_STATE_RESERVED),
     private_data = PAGE_MAGIC\<rparr>)"

definition empty_buddy :: "descriptors \<Rightarrow> buddy_state" where
  "empty_buddy ds = \<lparr>descs = ds, free_list = (\<lambda>_ _. []), nr_free = (\<lambda>_ _. 0)\<rparr>"

lemma empty_buddy_inv:
  assumes "\<And>p. p < MAX_PAGES \<Longrightarrow> PAGE_GET_ZONE (ds p) = page_get_zone_flag (page_to_phys p)"
    and "\<And>p. p < MAX_PAGES \<Longrightarrow> PAGE_GET_STATE (ds p) \<notin> {PAGE_STATE_FREE, PAGE_STATE_ALLOCATED}"
  shows "buddy_inv (empty_buddy ds)"
  using assms by (simp add: empty_buddy_def buddy_inv_def inv_except_def lists_ok_def pages_ok_def pstate_def)

text \<open>Initialisation: from descriptors whose zone flags are right, in which no page is free or
  allocated yet and page 0 is not available, \<^verbatim>\<open>buddy_init\<close> never panics, establishes the invariant, makes
  exactly the available pages free and freezes the boot allocator.\<close>

theorem buddy_init_correct:
  assumes "\<And>p. p < MAX_PAGES \<Longrightarrow> PAGE_GET_ZONE (ds p) = page_get_zone_flag (page_to_phys p)"
    and "\<And>p. p < MAX_PAGES \<Longrightarrow> PAGE_GET_STATE (ds p) \<notin> {PAGE_STATE_FREE, PAGE_STATE_ALLOCATED}"
    and "PAGE_GET_STATE (ds 0) \<noteq> PAGE_STATE_AVAILABLE" and "unat np \<le> MAX_PAGES"
  shows "\<exists>b. buddy_init np ds boot = Inr (b, boot_allocator_freeze boot) \<and> buddy_inv b \<and>
    free_pages b = {p. p < unat np \<and> PAGE_GET_STATE (ds p) = PAGE_STATE_AVAILABLE}"
proof -
  let ?b = "empty_buddy ds"
  have s: "pstate ?b q = PAGE_GET_STATE (ds q)" for q by (simp add: empty_buddy_def pstate_def)
  obtain b where b: "init_loop [0..<unat np] ?b = Inr b" "buddy_inv b"
    "\<forall>q. pstate b q = (if q \<in> set [0..<unat np] \<and> pstate ?b q = PAGE_STATE_AVAILABLE then PAGE_STATE_FREE else pstate ?b q)"
    using init_loop_spec [OF empty_buddy_inv [OF assms(1,2)], of "[0..<unat np]"] assms(3,4) s
    by (metis atLeastLessThan_upt atLeastLessThan_iff distinct_upt lessThan_iff order_less_le_trans subsetI)
  have "q \<in> free_pages b \<longleftrightarrow> q < unat np \<and> PAGE_GET_STATE (ds q) = PAGE_STATE_AVAILABLE" for q
    using b(3) s assms(2) [of q] assms(4) by (auto simp: free_pages_def)
  then show ?thesis using b by (auto simp: buddy_init_def empty_buddy_def)
qed

lemma example_flags:
  "PAGE_GET_ZONE (example_descs p) = page_get_zone_flag (page_to_phys p)"
  "PAGE_GET_STATE (example_descs p) =
     (if p \<in> {8192, 8193, 8194, 8195} then PAGE_STATE_AVAILABLE else PAGE_STATE_RESERVED)"
  by (auto simp: example_descs_def page_get_zone_flag_def PAGE_GET_ZONE_def PAGE_GET_STATE_def
      PAGE_ZONE_MASK_def PAGE_STATE_MASK_def page_zone_defs page_state_defs)

theorem buddy_init_correct_witness:
  "\<exists>b. buddy_init 8200 example_descs boot_example = Inr (b, boot_allocator_freeze boot_example) \<and>
     buddy_inv b \<and> free_pages b = {8192, 8193, 8194, 8195}"
proof -
  have "{p. p < 8200 \<and> PAGE_GET_STATE (example_descs p) = PAGE_STATE_AVAILABLE} = {8192, 8193, 8194, 8195}"
    by (auto simp: example_flags page_state_defs)
  moreover have "\<exists>b. buddy_init 8200 example_descs boot_example = Inr (b, boot_allocator_freeze boot_example) \<and>
     buddy_inv b \<and> free_pages b = {p. p < unat (8200 :: u32) \<and> PAGE_GET_STATE (example_descs p) = PAGE_STATE_AVAILABLE}"
    by (rule buddy_init_correct) (simp_all add: example_flags page_state_defs MAX_PAGES_def)
  ultimately show ?thesis by simp
qed

text \<open>C1. Allocation: in a state that satisfies the invariant, a request is refused, with the state
  unchanged, exactly when the zone has no free block of a sufficient order. Otherwise it returns the
  address of a block of the order of the request, aligned to its size, in the requested zone, whose
  frames were all free; exactly these frames leave the free ones, no other page changes its state, and
  the invariant is kept.\<close>

theorem buddy_alloc_pages_correct:
  assumes "buddy_inv b" and "z \<noteq> INVALID_ZONE"
  shows "if \<exists>k. size_to_order sz \<le> k \<and> k \<le> 10 \<and> free_list b z k \<noteq> []
    then \<exists>p b'. buddy_alloc_pages sz z b = Inr (page_to_phys p, b') \<and> buddy_inv b' \<and>
           allocated_block p (size_to_order sz) z b b'
    else buddy_alloc_pages sz z b = Inr (0, b)"
  using assms by (rule buddy_alloc_spec)

lemma example_state: "\<exists>b. buddy_inv b \<and> free_pages b = {8192, 8193, 8194, 8195}"
proof -
  have inv: "buddy_inv (empty_buddy example_descs)"
    by (rule empty_buddy_inv) (simp_all add: example_flags page_state_defs)
  have pstate: "pstate (empty_buddy example_descs) q =
      (if q \<in> {8192, 8193, 8194, 8195} then PAGE_STATE_AVAILABLE else PAGE_STATE_RESERVED)" for q
    by (simp add: empty_buddy_def pstate_def example_flags)
  obtain b where "buddy_inv b"
    "\<forall>q. pstate b q = (if q \<in> set [8192..<8196] \<and> pstate (empty_buddy example_descs) q = PAGE_STATE_AVAILABLE
       then PAGE_STATE_FREE else pstate (empty_buddy example_descs) q)"
    using init_loop_spec [OF inv, of "[8192..<8196]"] pstate by (auto simp: MAX_PAGES_def page_state_defs)
  then show ?thesis
    by (intro exI [of _ b]) (auto simp: free_pages_def pstate page_state_defs MAX_PAGES_def)
qed

lemma free_page_listed:
  assumes "buddy_inv b" and "q \<in> free_pages b"
  shows "\<exists>k \<le> 10. free_list b (zone_of q) k \<noteq> []"
proof -
  obtain h k where h: "q \<in> blk h k" "h \<in> set (free_list b (zone_of h) k)"
    using pages_okD(2) [of b "{}" q] assms by (auto simp: buddy_inv_def inv_except_def free_pages_def)
  have ok: "lists_ok b {}" using assms(1) by (simp add: buddy_inv_def inv_except_def)
  show ?thesis
    using zone_of_blk(2) [OF lists_okD(4,5,3) [OF ok h(2)] h(1)] h(2) lists_okD(5) [OF ok h(2)] by force
qed

lemma order_one_page: "size_to_order 4096 = 0"
  by (simp add: size_to_order_def MAX_ORDER_def upt_rec PAGE_BY_ORDER_def DIV_ROUND_UP_def PAGE_SIZE_def)

lemma example_zone: "zone_of 8192 = LOWMEM_ZONE"
  using zone_of_div [of 8192] by (simp add: MAX_PAGES_def)

theorem buddy_alloc_pages_correct_witness:
  "\<exists>b p b'. buddy_alloc_pages 4096 LOWMEM_ZONE b = Inr (page_to_phys p, b') \<and> buddy_inv b' \<and>
     p \<in> {8192, 8193, 8194, 8195} \<and> free_pages b' = {8192, 8193, 8194, 8195} - {p}"
proof -
  obtain b where b: "buddy_inv b" "free_pages b = {8192, 8193, 8194, 8195}" using example_state by blast
  have "\<exists>k. size_to_order 4096 \<le> k \<and> k \<le> 10 \<and> free_list b LOWMEM_ZONE k \<noteq> []"
    using free_page_listed [OF b(1), of 8192] b(2) order_one_page example_zone by auto
  then obtain p b' where "buddy_alloc_pages 4096 LOWMEM_ZONE b = Inr (page_to_phys p, b')" "buddy_inv b'"
    "allocated_block p 0 LOWMEM_ZONE b b'"
    using buddy_alloc_pages_correct [OF b(1), of LOWMEM_ZONE 4096] order_one_page by auto
  then show ?thesis using b(2) by (auto simp: allocated_block_def blk_def)
qed

text \<open>C3. Release: freeing the address of an allocated block never panics, makes exactly the frames of the
  block free, changes the state of no other page, and keeps the invariant; in particular the free blocks
  are coalesced with their buddies again.\<close>

theorem buddy_free_block_correct:
  assumes "buddy_inv b" and "buddy_owned b ptr"
  shows "\<exists>b'. buddy_free_block ptr b = Inr b' \<and> buddy_inv b' \<and>
    free_pages b' = free_pages b \<union> buddy_frames b ptr \<and>
    (\<forall>q. pstate b' q = (if q \<in> buddy_frames b ptr then PAGE_STATE_FREE else pstate b q))"
proof -
  let ?p = "page_addr_to_page ptr" and ?k = "unat (ppriv b (page_addr_to_page ptr))"
  have h: "?p \<noteq> 0" "pstate b ?p = PAGE_STATE_ALLOCATED" "?k \<le> 10" using assms(2) by (auto simp: buddy_owned_def)
  obtain b' where b': "buddy_free_block ptr b = Inr b'" "buddy_inv b'"
    "\<forall>q. pstate b' q = (if q \<in> blk ?p ?k then PAGE_STATE_FREE else pstate b q)"
    using free_allocated_spec [OF assms(1) h(1,2) refl h(3)] by blast
  moreover have "free_pages b' = free_pages b \<union> blk ?p ?k"
    by (rule free_pages_release [OF b'(3) allocated_pending(2) [OF assms(1) page_addr_to_page_less h(2) refl h(3)]])
  ultimately show ?thesis unfolding buddy_frames_def by blast
qed

lemma example_allocated:
  "\<exists>b r. buddy_inv b \<and> buddy_owned b r \<and> free_pages b \<union> buddy_frames b r = {8192, 8193, 8194, 8195}"
proof -
  obtain b where b: "buddy_inv b" "free_pages b = {8192, 8193, 8194, 8195}" using example_state by blast
  have "\<exists>k. size_to_order 4096 \<le> k \<and> k \<le> 10 \<and> free_list b LOWMEM_ZONE k \<noteq> []"
    using free_page_listed [OF b(1), of 8192] b(2) order_one_page example_zone by auto
  then obtain p b' where "buddy_inv b'" "allocated_block p 0 LOWMEM_ZONE b b'"
    using buddy_alloc_spec [OF b(1), of LOWMEM_ZONE 4096] order_one_page by auto
  moreover have "page_addr_to_page (page_to_phys p) = p"
    using \<open>allocated_block p 0 LOWMEM_ZONE b b'\<close> by (simp add: allocated_block_def block_at_def)
  ultimately show ?thesis
    using allocated_block_owned [of p 0 LOWMEM_ZONE b b' "page_to_phys p"] b(2)
    by (intro exI [of _ b'] exI [of _ "page_to_phys p"]) (auto simp: allocated_block_def)
qed

theorem buddy_free_block_correct_witness:
  "\<exists>b r b'. buddy_free_block r b = Inr b' \<and> buddy_inv b' \<and> free_pages b' = {8192, 8193, 8194, 8195}"
  using example_allocated buddy_free_block_correct by metis

text \<open>C16. Wrong releases are caught: freeing an address in a free page (a double free, also after the block
  was merged into a larger one), in a page of any other state than allocated or available, or inside an
  allocated block but not at its start, stops the kernel and changes nothing.\<close>

theorem buddy_free_block_wrong:
  assumes "buddy_inv b"
  shows "(pstate b (page_addr_to_page ptr) = PAGE_STATE_FREE \<longrightarrow>
      buddy_free_block ptr b = Inl (Panic ''Double free'')) \<and>
    (pstate b (page_addr_to_page ptr) \<notin> {PAGE_STATE_FREE, PAGE_STATE_ALLOCATED, PAGE_STATE_AVAILABLE} \<longrightarrow>
      buddy_free_block ptr b = Inl (Panic ''invalid state'')) \<and>
    (buddy_owned b r \<and> page_addr_to_page ptr \<in> buddy_frames b r - {page_addr_to_page r} \<longrightarrow>
      buddy_free_block ptr b = Inl (Panic ''Incorrect block order''))"
proof (intro conjI impI)
  assume "buddy_owned b r \<and> page_addr_to_page ptr \<in> buddy_frames b r - {page_addr_to_page r}"
  then have o: "buddy_owned b r" and p: "page_addr_to_page ptr \<in> buddy_frames b r"
    "page_addr_to_page ptr \<noteq> page_addr_to_page r" by auto
  have "block_meta b (page_addr_to_page r) (unat (ppriv b (page_addr_to_page r))) PAGE_STATE_ALLOCATED"
    using pages_okD(4) [of b "{}" "page_addr_to_page r"] assms o page_addr_to_page_less
    by (simp add: buddy_inv_def inv_except_def buddy_owned_def)
  then have "pstate b (page_addr_to_page ptr) = PAGE_STATE_ALLOCATED" "ppriv b (page_addr_to_page ptr) = PAGE_MAGIC"
    using p by (auto simp: block_meta_def buddy_frames_def)
  then show "buddy_free_block ptr b = Inl (Panic ''Incorrect block order'')"
    by (simp add: buddy_free_block_def pstate_def ppriv_def Let_def order_is_valid_def MAX_ORDER_def PAGE_MAGIC_def)
qed (simp_all add: buddy_free_block_def pstate_def Let_def)

theorem buddy_free_block_wrong_witness:
  "\<exists>b. buddy_free_block (page_to_phys 8193) b = Inl (Panic ''Double free'')"
proof -
  obtain b where b: "buddy_inv b" "free_pages b = {8192, 8193, 8194, 8195}" using example_state by blast
  then have "8193 \<in> free_pages b" by simp
  then have "pstate b (page_addr_to_page (page_to_phys 8193)) = PAGE_STATE_FREE" by (simp add: free_pages_def)
  then show ?thesis using buddy_free_block_wrong [OF b(1), of "page_to_phys 8193"] by blast
qed

text \<open>C13. Allocating, in any of the three zones, and releasing again is the identity on the free memory: not only the free
  frames but also the free blocks of every zone and order are the same as before.\<close>

theorem buddy_alloc_free_roundtrip:
  assumes "buddy_inv b" and "z \<noteq> INVALID_ZONE" and "buddy_alloc_pages sz z b = Inr (r, b')" and "r \<noteq> 0"
  shows "\<exists>b''. buddy_free_block r b' = Inr b'' \<and> buddy_inv b'' \<and> free_pages b'' = free_pages b \<and>
    (\<forall>z k. set (free_list b'' z k) = set (free_list b z k))"
proof -
  have "buddy_request (sz, z) b = Inr (r, b')" using assms(2,3) by (simp add: buddy_request_def)
  from buddy.alloc_release [OF assms(1) this assms(4)] obtain b'' where
    b'': "buddy_free_block r b' = Inr b''" "buddy_inv b''" "free_pages b'' = free_pages b" by blast
  then show ?thesis
    using lists_determined [OF b''(2) assms(1) b''(3)] lists_determined [OF assms(1) b''(2) b''(3) [symmetric]]
    by (intro exI [of _ b'']) blast
qed

theorem buddy_alloc_free_roundtrip_witness:
  "\<exists>b r b' b''. r \<noteq> 0 \<and> buddy_alloc_pages 4096 LOWMEM_ZONE b = Inr (r, b') \<and> buddy_free_block r b' = Inr b'' \<and>
     free_pages b'' = {8192, 8193, 8194, 8195}"
proof -
  obtain b where b: "buddy_inv b" "free_pages b = {8192, 8193, 8194, 8195}" using example_state by blast
  have "\<exists>k. size_to_order 4096 \<le> k \<and> k \<le> 10 \<and> free_list b LOWMEM_ZONE k \<noteq> []"
    using free_page_listed [OF b(1), of 8192] b(2) order_one_page example_zone by auto
  then obtain p b' where p: "buddy_alloc_pages 4096 LOWMEM_ZONE b = Inr (page_to_phys p, b')" "allocated_block p 0 LOWMEM_ZONE b b'"
    using buddy_alloc_spec [OF b(1), of LOWMEM_ZONE 4096] order_one_page by auto
  then have nz: "page_to_phys p \<noteq> 0" using page_to_phys_nz by (simp add: allocated_block_def block_at_def)
  obtain b'' where "buddy_free_block (page_to_phys p) b' = Inr b''" "free_pages b'' = free_pages b"
    using buddy_alloc_free_roundtrip [OF b(1) _ p(1) nz] by blast
  then show ?thesis
    using p(1) nz b(2) by (intro exI [of _ b] exI [of _ "page_to_phys p"] exI [of _ b'] exI [of _ b'']) simp
qed

text \<open>A sequence of calls of \<^verbatim>\<open>buddy_alloc_pages\<close>; a call that returns the null pointer contributes no address.\<close>

fun alloc_calls :: "(u32 \<times> zone_type) list \<Rightarrow> buddy_state \<Rightarrow> (u32 list \<times> buddy_state) kres" where
  "alloc_calls [] b = Inr ([], b)"
| "alloc_calls ((sz, z) # reqs) b =
     kbind (buddy_alloc_pages sz z b) (\<lambda>(r, b).
     kbind (alloc_calls reqs b) (\<lambda>(rs, b). Inr (if r = 0 then rs else r # rs, b)))"

lemma alloc_calls_seq: "INVALID_ZONE \<notin> snd ` set reqs \<Longrightarrow> alloc_calls reqs b = buddy.alloc_seq reqs b"
  by (induction reqs b rule: alloc_calls.induct) (auto simp: buddy_request_def kbind_def split: sum.splits)

text \<open>C15. However many requests are made, of any sizes and in any mixture of the three zones, none of them panics and the
  blocks handed out are pairwise disjoint, were free before, and together are exactly what left the free
  frames; blocks handed out earlier are untouched.\<close>

theorem buddy_alloc_seq_disjoint:
  assumes "buddy_inv b" and "INVALID_ZONE \<notin> snd ` set reqs"
  shows "\<exists>rs b'. alloc_calls reqs b = Inr (rs, b') \<and> buddy_inv b' \<and>
    sorted_wrt (\<lambda>r1 r2. buddy_frames b' r1 \<inter> buddy_frames b' r2 = {}) rs \<and>
    (\<forall>r \<in> set rs. buddy_owned b' r \<and> buddy_frames b' r \<subseteq> free_pages b) \<and>
    free_pages b' = free_pages b - (\<Union>r \<in> set rs. buddy_frames b' r) \<and>
    (\<forall>x. buddy_owned b x \<longrightarrow> buddy_owned b' x \<and> buddy_frames b' x = buddy_frames b x)"
  unfolding alloc_calls_seq [OF assms(2)] using assms(1) by (rule buddy.alloc_seq_disjoint)

theorem buddy_alloc_seq_disjoint_witness:
  "\<exists>b rs b'. alloc_calls [(4096, LOWMEM_ZONE), (8192, HIGHMEM_ZONE), (8192, LOWMEM_ZONE)] b = Inr (rs, b') \<and> buddy_inv b' \<and>
     (\<forall>r \<in> set rs. buddy_frames b' r \<subseteq> {8192, 8193, 8194, 8195})"
proof -
  let ?q = "[(4096, LOWMEM_ZONE), (8192, HIGHMEM_ZONE), (8192, LOWMEM_ZONE)]"
  obtain b where b: "buddy_inv b" "free_pages b = {8192, 8193, 8194, 8195}" using example_state by blast
  have valid: "INVALID_ZONE \<notin> snd ` set ?q" by simp
  obtain rs b' where "alloc_calls ?q b = Inr (rs, b')" "buddy_inv b'"
    "\<forall>r \<in> set rs. buddy_owned b' r \<and> buddy_frames b' r \<subseteq> free_pages b"
    using buddy_alloc_seq_disjoint [OF b(1) valid] by (elim exE conjE) (rule that)
  then show ?thesis using b(2) by (intro exI [of _ b] exI [of _ rs] exI [of _ b']) simp
qed

end
