(* ===== verification/Vmm.thy ===== *)
theory Vmm
  imports Buddy_Spec
begin

text \<open>
  \<^verbatim>\<open>src/memory/vmm.c\<close>: two-level page tables. Physical memory is a function from addresses of
  32-bit entries to their contents; the kernel reads and writes it through the linear map at
  \<^verbatim>\<open>KERNEL_VADDR_BASE\<close>. The state holds the page allocator, the memory, the register \<^verbatim>\<open>cr3\<close> and the
  log of the translation-cache operations the code executes.
\<close>

section \<open>State and entries\<close>

datatype tlb_op = RELOAD_CR3 u32 | INVLPG u32

record vmm_state =
  vm_buddy :: buddy_state
  mem :: "u32 \<Rightarrow> u32"
  cr3 :: u32
  tlb_log :: "tlb_op list"
  kpage_dir :: u32

definition PTE_PRESENT_BIT :: u32 where "PTE_PRESENT_BIT = 1"
definition PTE_RW_BIT :: u32 where "PTE_RW_BIT = 2"
definition PTE_US_BIT :: u32 where "PTE_US_BIT = 4"
definition PDE_PRESENT_BIT :: u32 where "PDE_PRESENT_BIT = 1"
definition PDE_RW_BIT :: u32 where "PDE_RW_BIT = 2"
definition PDE_US_BIT :: u32 where "PDE_US_BIT = 4"

definition GET_PDE_INDEX :: "u32 \<Rightarrow> u32" where
  "GET_PDE_INDEX vaddr = drop_bit 22 vaddr"

definition GET_PTE_INDEX :: "u32 \<Rightarrow> u32" where
  "GET_PTE_INDEX vaddr = drop_bit 12 vaddr AND 0x3FF"

definition ENTRY_FLAGS_MASK :: u32 where "ENTRY_FLAGS_MASK = 0xFFF"

definition GET_ENTRY_FLAGS :: "u32 \<Rightarrow> u32" where
  "GET_ENTRY_FLAGS entry = entry AND ENTRY_FLAGS_MASK"

definition GET_ENTRY_ADDR :: "u32 \<Rightarrow> u32" where
  "GET_ENTRY_ADDR entry = entry AND NOT ENTRY_FLAGS_MASK"

text \<open>Entry \<open>idx\<close> of the table at the virtual address \<open>virt\<close> of the linear map.\<close>

definition entry_addr :: "u32 \<Rightarrow> u32 \<Rightarrow> u32" where
  "entry_addr virt idx = virt - KERNEL_VADDR_BASE + idx * 4"

definition ld :: "vmm_state \<Rightarrow> u32 \<Rightarrow> u32 \<Rightarrow> u32" where
  "ld s virt idx = mem s (entry_addr virt idx)"

definition sto :: "u32 \<Rightarrow> u32 \<Rightarrow> u32 \<Rightarrow> vmm_state \<Rightarrow> vmm_state" where
  "sto virt idx v s = s\<lparr>mem := (mem s)(entry_addr virt idx := v)\<rparr>"

text \<open>\<^verbatim>\<open>ft_bzero(virt, PAGE_SIZE)\<close> on the entries of a page.\<close>

definition bzero_page :: "u32 \<Rightarrow> vmm_state \<Rightarrow> vmm_state" where
  "bzero_page virt s = s\<lparr>mem := (\<lambda>a. if virt - KERNEL_VADDR_BASE \<le> a \<and> a - (virt - KERNEL_VADDR_BASE) < PAGE_SIZE
     then 0 else mem s a)\<rparr>"

definition paging_reload_cr3 :: "u32 \<Rightarrow> vmm_state \<Rightarrow> vmm_state" where
  "paging_reload_cr3 pd s = s\<lparr>cr3 := pd, tlb_log := RELOAD_CR3 pd # tlb_log s\<rparr>"

definition paging_invalid_TLB_addr :: "u32 \<Rightarrow> vmm_state \<Rightarrow> vmm_state" where
  "paging_invalid_TLB_addr addr s = s\<lparr>tlb_log := INVLPG addr # tlb_log s\<rparr>"

definition get_current_page_directory_phys :: "vmm_state \<Rightarrow> u32" where
  "get_current_page_directory_phys s = cr3 s"

section \<open>Operations\<close>

text \<open>The first half of \<^verbatim>\<open>vmm_map_page\<close>: the page table of the entry, allocated when it is missing.\<close>

definition vmm_pt_for :: "u32 \<Rightarrow> u32 \<Rightarrow> u32 \<Rightarrow> vmm_state \<Rightarrow> ((u32 \<times> bool) option \<times> vmm_state) kres" where
  "vmm_pt_for pd_virt pde_idx fl s =
     (let pde = ld s pd_virt pde_idx in
      if \<not> FLAG_IS_SET pde PDE_PRESENT_BIT then
        kbind (buddy_alloc_pages PAGE_SIZE LOWMEM_ZONE (vm_buddy s)) (\<lambda>(pt_phys, b).
        let s = s\<lparr>vm_buddy := b\<rparr> in
        if pt_phys = 0 then Inr (None, s)
        else kbind (PHYS_TO_VIRT_LINEAR pt_phys) (\<lambda>pt_virt.
          kassert ''pt_virt'' (pt_virt \<noteq> 0)
          (let s = bzero_page pt_virt s;
               s = sto pd_virt pde_idx (pt_phys OR PDE_PRESENT_BIT OR PDE_RW_BIT OR (fl AND PDE_US_BIT)) s in
           Inr (Some (pt_virt, True), s))))
      else
        let upgrade = FLAG_IS_SET fl PDE_US_BIT \<and> \<not> FLAG_IS_SET pde PDE_US_BIT;
            s = (if upgrade then sto pd_virt pde_idx (pde OR PDE_US_BIT) s else s) in
        kbind (PHYS_TO_VIRT_LINEAR (GET_ENTRY_ADDR (ld s pd_virt pde_idx))) (\<lambda>pt_virt.
        Inr (Some (pt_virt, upgrade), s)))"

definition vmm_map_page :: "u32 \<Rightarrow> u32 \<Rightarrow> u32 \<Rightarrow> u32 \<Rightarrow> vmm_state \<Rightarrow> (bool \<times> vmm_state) kres" where
  "vmm_map_page page_dir_phys v_addr p_addr fl s =
     (let pde_idx = GET_PDE_INDEX v_addr; pte_idx = GET_PTE_INDEX v_addr in
      kbind (PHYS_TO_VIRT_LINEAR page_dir_phys) (\<lambda>pd_virt.
      kassert ''pd_virt'' (pd_virt \<noteq> 0)
      (kbind (vmm_pt_for pd_virt pde_idx fl s) (\<lambda>(pt, s).
       case pt of None \<Rightarrow> Inr (False, s)
       | Some (pt_virt, needs_cr3_reload) \<Rightarrow>
           kassert ''pt_virt'' (pt_virt \<noteq> 0)
           (let s = sto pt_virt pte_idx (p_addr OR fl) s;
                s = (if get_current_page_directory_phys s = page_dir_phys
                     then if needs_cr3_reload then paging_reload_cr3 page_dir_phys s
                          else paging_invalid_TLB_addr v_addr s
                     else s) in
            Inr (True, s))))))"

definition pt_is_empty :: "vmm_state \<Rightarrow> u32 \<Rightarrow> bool" where
  "pt_is_empty s pt_virt = list_all (\<lambda>i. \<not> FLAG_IS_SET (ld s pt_virt (of_nat i)) PTE_PRESENT_BIT) [0..<1024]"

definition vmm_unmap_page :: "u32 \<Rightarrow> u32 \<Rightarrow> vmm_state \<Rightarrow> (bool \<times> vmm_state) kres" where
  "vmm_unmap_page page_dir_phys v_addr s =
     (let pde_idx = GET_PDE_INDEX v_addr; pte_idx = GET_PTE_INDEX v_addr in
      kbind (PHYS_TO_VIRT_LINEAR page_dir_phys) (\<lambda>pd_virt.
      let pde = ld s pd_virt pde_idx in
      if \<not> FLAG_IS_SET pde PDE_PRESENT_BIT then Inr (False, s)
      else let pt_phys = GET_ENTRY_ADDR pde in
        kbind (PHYS_TO_VIRT_LINEAR pt_phys) (\<lambda>pt_virt.
        if \<not> FLAG_IS_SET (ld s pt_virt pte_idx) PTE_PRESENT_BIT then Inr (False, s)
        else let s = paging_invalid_TLB_addr v_addr (sto pt_virt pte_idx 0 s) in
          if pt_is_empty s pt_virt then
            let s = sto pd_virt pde_idx 0 s in
            kbind (buddy_free_block pt_phys (vm_buddy s)) (\<lambda>b.
            let s = s\<lparr>vm_buddy := b\<rparr> in
            Inr (True, if page_dir_phys = get_current_page_directory_phys s
                       then paging_reload_cr3 page_dir_phys s else s))
          else Inr (True, s))))"

definition vmm_get_mapping :: "u32 \<Rightarrow> u32 \<Rightarrow> vmm_state \<Rightarrow> u32 kres" where
  "vmm_get_mapping page_dir_phys v_addr s =
     (let pde_idx = GET_PDE_INDEX v_addr; pte_idx = GET_PTE_INDEX v_addr in
      kbind (PHYS_TO_VIRT_LINEAR page_dir_phys) (\<lambda>pd_ptr.
      let pde = ld s pd_ptr pde_idx in
      if \<not> FLAG_IS_SET pde PDE_PRESENT_BIT then Inr 0
      else kbind (PHYS_TO_VIRT_LINEAR (GET_ENTRY_ADDR pde)) (\<lambda>pt_ptr.
        let pte = ld s pt_ptr pte_idx in
        if \<not> FLAG_IS_SET pte PTE_PRESENT_BIT then Inr 0
        else Inr (GET_ENTRY_ADDR pte + (v_addr AND 0xFFF)))))"

definition vmm_get_kernel_directory :: "vmm_state \<Rightarrow> u32" where
  "vmm_get_kernel_directory s = kpage_dir s"

definition VMM_KMAP_VADDR :: u32 where "VMM_KMAP_VADDR = 0xFFFFE000"

definition vmm_kmap :: "u32 \<Rightarrow> vmm_state \<Rightarrow> (u32 \<times> vmm_state) kres" where
  "vmm_kmap p_addr s =
     kbind (vmm_map_page (get_current_page_directory_phys s) VMM_KMAP_VADDR p_addr
              (PTE_PRESENT_BIT OR PTE_RW_BIT) s) (\<lambda>(ok, s).
     Inr (if ok then VMM_KMAP_VADDR else 0, s))"

definition vmm_kunmap :: "vmm_state \<Rightarrow> vmm_state kres" where
  "vmm_kunmap s = kbind (vmm_unmap_page (get_current_page_directory_phys s) VMM_KMAP_VADDR s) (\<lambda>(_, s). Inr s)"

fun free_pt_loop :: "u32 \<Rightarrow> nat list \<Rightarrow> vmm_state \<Rightarrow> vmm_state kres" where
  "free_pt_loop pd [] s = Inr s"
| "free_pt_loop pd (i # is) s =
     (if FLAG_IS_SET (ld s pd (of_nat i)) PDE_PRESENT_BIT then
        kbind (buddy_free_block (GET_ENTRY_ADDR (ld s pd (of_nat i))) (vm_buddy s)) (\<lambda>b.
        free_pt_loop pd is (sto pd (of_nat i) 0 (s\<lparr>vm_buddy := b\<rparr>)))
      else free_pt_loop pd is s)"

definition vmm_free_pt_range :: "u32 \<Rightarrow> u32 \<Rightarrow> u32 \<Rightarrow> vmm_state \<Rightarrow> vmm_state kres" where
  "vmm_free_pt_range pd_phys pde_start pde_end s =
     kbind (PHYS_TO_VIRT_LINEAR pd_phys) (\<lambda>pd. free_pt_loop pd [unat pde_start..<unat pde_end] s)"

definition vmm_destroy_user_pd :: "u32 \<Rightarrow> vmm_state \<Rightarrow> vmm_state kres" where
  "vmm_destroy_user_pd pd_phys s =
     kbind (vmm_free_pt_range pd_phys 0 768 s) (\<lambda>s.
     kbind (buddy_free_block pd_phys (vm_buddy s)) (\<lambda>b. Inr (s\<lparr>vm_buddy := b\<rparr>)))"

text \<open>
  \<^verbatim>\<open>vmm_verify_range_flags\<close>: \<open>True\<close> stands for the result 0, \<open>False\<close> for -1. The inner loop checks
  the entries of one page table and returns how many pages are left, or \<open>None\<close> when one fails.
\<close>

function verify_pt :: "vmm_state \<Rightarrow> u32 \<Rightarrow> u32 \<Rightarrow> nat \<Rightarrow> nat \<Rightarrow> nat option" where
  "verify_pt s pt_virt pte_flags j remaining =
     (if 0 < remaining \<and> j < 1024 then
        if ld s pt_virt (of_nat j) AND pte_flags \<noteq> pte_flags then None
        else verify_pt s pt_virt pte_flags (j + 1) (remaining - 1)
      else Some remaining)"
  by pat_completeness auto
termination
  by (relation "measure (\<lambda>(s, pt, fl, j, r). 1024 - j)") auto

declare verify_pt.simps [simp del]

function verify_pd :: "vmm_state \<Rightarrow> u32 \<Rightarrow> u32 \<Rightarrow> u32 \<Rightarrow> u32 \<Rightarrow> u32 \<Rightarrow> nat \<Rightarrow> nat \<Rightarrow> nat \<Rightarrow> bool kres" where
  "verify_pd s pd_virt vaddr pde_start pde_flags pte_flags i pde_range remaining =
     (if i < pde_range then
        if 1024 \<le> unat pde_start + i then Inl OutOfBounds
        else let pde = ld s pd_virt (pde_start + of_nat i) in
          if pde AND pde_flags \<noteq> pde_flags then Inr False
          else kbind (PHYS_TO_VIRT_LINEAR (GET_ENTRY_ADDR pde)) (\<lambda>pt_virt.
            let j = (if i = 0 then unat (GET_PTE_INDEX (vaddr + of_nat i * (1024 * PAGE_SIZE))) else 0) in
            case verify_pt s pt_virt pte_flags j remaining of
              None \<Rightarrow> Inr False
            | Some r \<Rightarrow> verify_pd s pd_virt vaddr pde_start pde_flags pte_flags (i + 1) pde_range r)
      else Inr True)"
  by pat_completeness auto
termination
  by (relation "measure (\<lambda>(s, pd, v, ps, f, g, i, n, r). n - i)") auto

declare verify_pd.simps [simp del]

definition vmm_verify_range_flags :: "u32 \<Rightarrow> u32 \<Rightarrow> u32 \<Rightarrow> u32 \<Rightarrow> u32 \<Rightarrow> vmm_state \<Rightarrow> bool kres" where
  "vmm_verify_range_flags pd_virt vaddr n pde_flags pte_flags s =
     (if n = 0 then Inr True
      else let pde_start = GET_PDE_INDEX vaddr;
               pde_end = GET_PDE_INDEX (vaddr + n - 1);
               pde_range = pde_end - pde_start + 1;
               pages_to_verify = DIV_ROUND_UP (vaddr mod PAGE_SIZE + n) PAGE_SIZE in
        verify_pd s pd_virt vaddr pde_start (pde_flags OR PDE_PRESENT_BIT) (pte_flags OR PTE_PRESENT_BIT)
          0 (unat pde_range) (unat pages_to_verify))"

text \<open>
  \<^verbatim>\<open>vmm_finalize\<close>: a page directory and 224 page tables from the boot allocator that map the first
  896 MiB of physical memory at \<^verbatim>\<open>KERNEL_VADDR_BASE\<close>. The boot page tables still map low memory at
  its own addresses, so that the code writes through physical pointers.
\<close>

definition wr_phys :: "u32 \<Rightarrow> u32 \<Rightarrow> u32 \<Rightarrow> vmm_state \<Rightarrow> vmm_state" where
  "wr_phys p idx v s = s\<lparr>mem := (mem s)(p + idx * 4 := v)\<rparr>"

definition bzero_phys :: "u32 \<Rightarrow> vmm_state \<Rightarrow> vmm_state" where
  "bzero_phys p s = s\<lparr>mem := (\<lambda>a. if p \<le> a \<and> a - p < PAGE_SIZE then 0 else mem s a)\<rparr>"

definition fill_pt :: "u32 \<Rightarrow> nat \<Rightarrow> vmm_state \<Rightarrow> vmm_state" where
  "fill_pt pt i s = fold (\<lambda>j. wr_phys pt (of_nat j)
     ((of_nat i * 4 * 0x100000 + of_nat j * PAGE_SIZE) OR PTE_PRESENT_BIT OR PTE_RW_BIT)) [0..<1024] s"

definition finalize_pde :: "u32 \<Rightarrow> u32 \<Rightarrow> nat \<Rightarrow> vmm_state \<Rightarrow> vmm_state" where
  "finalize_pde pd pool i s =
     (let pt = pool + of_nat i * PAGE_SIZE;
          s = wr_phys pd (768 + of_nat i) (pt OR PDE_PRESENT_BIT OR PDE_RW_BIT) s in
      fill_pt pt i (bzero_phys pt s))"

definition vmm_finalize :: "boot_state \<Rightarrow> vmm_state \<Rightarrow> (boot_state \<times> vmm_state) kres" where
  "vmm_finalize boot s =
     kbind (boot_alloc_at PAGE_SIZE DMA_ZONE True 0 (4 * 0x100000) (Some PAGE_SIZE) boot) (\<lambda>(pd, boot).
     if pd = 0 then Inl (Panic ''vmm_finalize'')
     else let s = bzero_phys pd s in
       kbind (boot_alloc_at (224 * PAGE_SIZE) DMA_ZONE True 0 (4 * 0x100000) (Some PAGE_SIZE) boot) (\<lambda>(pool, boot).
       if pool = 0 then Inl (Panic ''vmm_finalize'')
       else let s = fold (finalize_pde pd pool) [0..<224] s in
         Inr (boot, paging_reload_cr3 pd (s\<lparr>kpage_dir := pd\<rparr>))))"

end
