(* ===== verification/Vmm_Map.thy ===== *)
theory Vmm_Map
  imports Vmm
begin

text \<open>
  Address spaces: a well-formed page directory, the translation it stands for, and what mapping and
  unmapping a page change of it.
\<close>

section \<open>Table addresses and entries\<close>

text \<open>A table: page aligned and inside the linear map.\<close>

definition tbl :: "u32 \<Rightarrow> bool" where
  "tbl t \<longleftrightarrow> unat t mod 4096 = 0 \<and> t \<le> 0x3FFFFFFF"

definition ent :: "(u32 \<Rightarrow> u32) \<Rightarrow> u32 \<Rightarrow> u32 \<Rightarrow> u32" where
  "ent m t i = m (t + i * 4)"

lemma tbl_virt:
  assumes "tbl t"
  shows "PHYS_TO_VIRT_LINEAR t = Inr (t + KERNEL_VADDR_BASE)" "t + KERNEL_VADDR_BASE \<noteq> 0"
    "entry_addr (t + KERNEL_VADDR_BASE) i = t + i * 4" "ld s (t + KERNEL_VADDR_BASE) i = ent (mem s) t i"
proof -
  have t: "unat t \<le> 0x3FFFFFFF" using assms by (simp add: tbl_def word_le_nat_alt)
  have "NOT KERNEL_VADDR_BASE = 0x3FFFFFFF" by (simp add: KERNEL_VADDR_BASE_def)
  then show "PHYS_TO_VIRT_LINEAR t = Inr (t + KERNEL_VADDR_BASE)"
    using assms by (simp add: PHYS_TO_VIRT_LINEAR_def tbl_def)
  have "unat (t + KERNEL_VADDR_BASE) = unat t + 0xC0000000"
    using t by (simp add: KERNEL_VADDR_BASE_def unat_add_nowrap)
  then show "t + KERNEL_VADDR_BASE \<noteq> 0" by (metis add_is_0 unat_0 zero_neq_numeral)
  show e: "entry_addr (t + KERNEL_VADDR_BASE) i = t + i * 4" by (simp add: entry_addr_def)
  show "ld s (t + KERNEL_VADDR_BASE) i = ent (mem s) t i" by (simp add: ld_def ent_def e)
qed

lemma unat_entry:
  assumes "tbl t" and "unat i < 1024"
  shows "unat (t + i * 4) = unat t + 4 * unat i"
proof -
  have "unat (i * 4) = 4 * unat i" using assms(2) by (simp add: unat_mult_nowrap)
  moreover have "unat t \<le> 0x3FFFFFFF" using assms(1) by (simp add: tbl_def word_le_nat_alt)
  ultimately show ?thesis using assms(2) by (simp add: unat_add_nowrap)
qed

lemma page_eq_iff:
  assumes "x < 4096" and "y < (4096 :: nat)"
  shows "4096 * a + x = 4096 * c + y \<longleftrightarrow> a = c \<and> x = y"
proof
  assume eq: "4096 * a + x = 4096 * c + y"
  have "(4096 * a + x) div 4096 = a" "(4096 * c + y) div 4096 = c" using assms by simp_all
  then have "a = c" using eq by simp
  then show "a = c \<and> x = y" using eq by simp
qed simp

lemma entry_inj:
  assumes "tbl t" "tbl u" "unat i < 1024" "unat j < 1024"
  shows "t + i * 4 = u + j * 4 \<longleftrightarrow> t = u \<and> i = j"
proof
  assume "t + i * 4 = u + j * 4"
  then have eq: "unat t + 4 * unat i = unat u + 4 * unat j"
    using unat_entry [OF assms(1,3)] unat_entry [OF assms(2,4)] by simp
  obtain a c where ac: "unat t = 4096 * a" "unat u = 4096 * c"
    using assms(1,2) by (auto simp: tbl_def mod_eq_0_iff_dvd elim!: dvdE)
  then have "a = c" "unat i = unat j"
    using eq page_eq_iff [of "4 * unat i" "4 * unat j" a c] assms(3,4) by simp_all
  then show "t = u \<and> i = j" using ac by (simp add: word_unat_eq_iff)
qed auto

lemma ent_upd:
  assumes "tbl t" "tbl u" "unat i < 1024" "unat j < 1024"
  shows "ent (m(t + i * 4 := x)) u j = (if u = t \<and> j = i then x else ent m u j)"
  using entry_inj [OF assms] by (auto simp: ent_def)

lemma ent_zero:
  assumes "tbl t" "tbl u" "unat j < 1024"
  shows "ent (\<lambda>a. if t \<le> a \<and> a - t < PAGE_SIZE then 0 else m a) u j = (if u = t then 0 else ent m u j)"
proof -
  let ?a = "u + j * 4"
  note a = unat_entry [OF assms(2,3)]
  obtain x c where ac: "unat t = 4096 * x" "unat u = 4096 * c"
    using assms(1,2) by (auto simp: tbl_def mod_eq_0_iff_dvd elim!: dvdE)
  have "t \<le> ?a \<and> ?a - t < PAGE_SIZE \<longleftrightarrow> unat t \<le> unat ?a \<and> unat ?a - unat t < 4096"
    by (auto simp: word_le_nat_alt word_less_nat_alt unat_sub PAGE_SIZE_def)
  also have "\<dots> \<longleftrightarrow> unat t = unat u"
  proof
    assume *: "unat t \<le> unat ?a \<and> unat ?a - unat t < 4096"
    then have "4096 * x + (unat ?a - unat t) = 4096 * c + 4 * unat j" using a ac by simp
    then have "x = c" using page_eq_iff [of "unat ?a - unat t" "4 * unat j" x c] * assms(3) by simp
    then show "unat t = unat u" using ac by simp
  qed (use a assms(3) in simp)
  also have "\<dots> \<longleftrightarrow> u = t" by (auto simp: word_unat_eq_iff)
  finally show ?thesis by (simp add: ent_def)
qed

lemma GET_ENTRY_ADDR_unat: "unat (GET_ENTRY_ADDR e) = unat e div 4096 * 4096"
  using unat_and_not_mask [of e 12] by (simp add: GET_ENTRY_ADDR_def ENTRY_FLAGS_MASK_def mask_eq_exp_minus_1)

lemma aligned_bits: "unat (p :: u32) mod 4096 = 0 \<Longrightarrow> n < 12 \<Longrightarrow> \<not> bit p n"
proof -
  assume a: "unat p mod 4096 = 0" "n < 12"
  have "take_bit 12 (unat p) = 0" using a(1) by (simp add: take_bit_eq_mod)
  then have "\<not> bit (unat p) n" using a(2) by (metis bit_take_bit_iff bit_0_eq bot_apply bot_bool_def)
  then show ?thesis using a(2) by (simp add: bit_unsigned_iff)
qed

lemma small_bits: "unat (f :: u32) < 4096 \<Longrightarrow> bit f n \<Longrightarrow> n < 12"
proof (rule ccontr)
  assume "unat f < 4096" "bit f n" "\<not> n < 12"
  then have "take_bit 12 (unat f) = unat f" by (simp add: take_bit_nat_eq_self)
  then have "bit (take_bit 12 (unat f)) n = bit (unat f) n" by simp
  then show False using \<open>bit f n\<close> \<open>\<not> n < 12\<close> by (simp add: bit_take_bit_iff bit_unsigned_iff)
qed

lemma bit_mask12: "bit ENTRY_FLAGS_MASK n \<longleftrightarrow> n < 12"
  using bit_mask_iff [of 12 n, where 'a = "u32"] by (auto simp: mask_eq_exp_minus_1 ENTRY_FLAGS_MASK_def)

lemma entry_parts:
  assumes "unat p mod 4096 = 0" and "unat f < 4096"
  shows "GET_ENTRY_ADDR (p OR f) = p" and "unat m < 4096 \<Longrightarrow> (p OR f) AND m = f AND m"
proof -
  show "GET_ENTRY_ADDR (p OR f) = p"
    unfolding GET_ENTRY_ADDR_def
    using aligned_bits [OF assms(1)] small_bits [OF assms(2)] bit_mask12
    by (intro bit_eqI) (auto simp: bit_and_iff bit_or_iff bit_not_iff)
  show "unat m < 4096 \<Longrightarrow> (p OR f) AND m = f AND m"
    using aligned_bits [OF assms(1)] small_bits
    by (intro bit_eqI) (auto simp: bit_and_iff bit_or_iff)
qed

lemma index_bounds [simp]: "unat (GET_PDE_INDEX v) < 1024" "unat (GET_PTE_INDEX v) < 1024"
proof -
  have "unat (GET_PDE_INDEX v) = unat v div 2 ^ 22"
    by (simp add: GET_PDE_INDEX_def drop_bit_eq_div unat_div)
  moreover have "unat v < 1024 * 2 ^ 22" using unat_32_bound [of v] by simp
  ultimately show "unat (GET_PDE_INDEX v) < 1024" by (simp add: less_mult_imp_div_less)
  have "GET_PTE_INDEX v = take_bit 10 (drop_bit 12 v)"
    by (simp add: GET_PTE_INDEX_def take_bit_eq_mask mask_eq_exp_minus_1)
  then show "unat (GET_PTE_INDEX v) < 1024" by (simp add: take_bit_eq_mod unat_mod)
qed

lemma same_page_index:
  "page_addr_is_same_page v w \<longleftrightarrow> GET_PDE_INDEX v = GET_PDE_INDEX w \<and> GET_PTE_INDEX v = GET_PTE_INDEX w"
proof -
  have d: "v div PAGE_SIZE = drop_bit 12 v" for v :: u32 by (simp add: PAGE_SIZE_def drop_bit_eq_div)
  have pde: "GET_PDE_INDEX v = drop_bit 10 (drop_bit 12 v)" for v by (simp add: GET_PDE_INDEX_def)
  have pte: "GET_PTE_INDEX v = take_bit 10 (drop_bit 12 v)" for v
    by (simp add: GET_PTE_INDEX_def take_bit_eq_mask mask_eq_exp_minus_1)
  show ?thesis
    unfolding page_addr_is_same_page_def d pde pte by (metis bits_ident)
qed

section \<open>Well-formed address spaces\<close>

definition present :: "u32 \<Rightarrow> bool" where
  "present e \<longleftrightarrow> FLAG_IS_SET e PDE_PRESENT_BIT"

lemma present_pte: "FLAG_IS_SET e PTE_PRESENT_BIT \<longleftrightarrow> present e"
  by (simp add: present_def PTE_PRESENT_BIT_def PDE_PRESENT_BIT_def)

lemma present_0 [simp]: "\<not> present 0"
  by (simp add: present_def FLAG_IS_SET_def)

text \<open>The page table that entry \<open>i\<close> of a directory names.\<close>

definition pt_of :: "(u32 \<Rightarrow> u32) \<Rightarrow> u32 \<Rightarrow> u32 \<Rightarrow> u32" where
  "pt_of m d i = GET_ENTRY_ADDR (ent m d i)"

text \<open>
  A directory whose tables lie in the linear map, are pairwise different and different from it;
  none of these pages is free for the page allocator.
\<close>

definition pd_wf :: "u32 \<Rightarrow> vmm_state \<Rightarrow> bool" where
  "pd_wf d s \<longleftrightarrow> tbl d \<and> page_addr_to_page d \<notin> free_pages (vm_buddy s) \<and>
     (\<forall>i. unat i < 1024 \<and> present (ent (mem s) d i) \<longrightarrow>
        tbl (pt_of (mem s) d i) \<and> pt_of (mem s) d i \<noteq> d \<and>
        page_addr_to_page (pt_of (mem s) d i) \<notin> free_pages (vm_buddy s)) \<and>
     (\<forall>i j. unat i < 1024 \<and> unat j < 1024 \<and> present (ent (mem s) d i) \<and> present (ent (mem s) d j) \<and>
        pt_of (mem s) d i = pt_of (mem s) d j \<longrightarrow> i = j)"

lemma pd_wfD:
  assumes "pd_wf d s"
  shows "tbl d" "page_addr_to_page d \<notin> free_pages (vm_buddy s)"
    "unat i < 1024 \<Longrightarrow> present (ent (mem s) d i) \<Longrightarrow> tbl (pt_of (mem s) d i)"
    "unat i < 1024 \<Longrightarrow> present (ent (mem s) d i) \<Longrightarrow> pt_of (mem s) d i \<noteq> d"
    "unat i < 1024 \<Longrightarrow> present (ent (mem s) d i) \<Longrightarrow> page_addr_to_page (pt_of (mem s) d i) \<notin> free_pages (vm_buddy s)"
    "unat i < 1024 \<Longrightarrow> unat j < 1024 \<Longrightarrow> present (ent (mem s) d i) \<Longrightarrow> present (ent (mem s) d j) \<Longrightarrow>
       pt_of (mem s) d i = pt_of (mem s) d j \<Longrightarrow> i = j"
  using assms unfolding pd_wf_def by blast+

text \<open>The translation a directory stands for, as the hardware walks it; 0 where nothing is mapped.\<close>

definition xlate :: "(u32 \<Rightarrow> u32) \<Rightarrow> u32 \<Rightarrow> u32 \<Rightarrow> u32" where
  "xlate m d v =
     (if present (ent m d (GET_PDE_INDEX v)) then
        let e = ent m (pt_of m d (GET_PDE_INDEX v)) (GET_PTE_INDEX v) in
        if present e then GET_ENTRY_ADDR e + (v AND 0xFFF) else 0
      else 0)"

lemma vmm_get_mapping_xlate:
  assumes "pd_wf d s"
  shows "vmm_get_mapping d v s = Inr (xlate (mem s) d v)"
proof (cases "present (ent (mem s) d (GET_PDE_INDEX v))")
  case False
  then show ?thesis
    using pd_wfD(1) [OF assms]
    by (simp add: vmm_get_mapping_def tbl_virt Let_def xlate_def present_def)
next
  case True
  then have "tbl (pt_of (mem s) d (GET_PDE_INDEX v))" using pd_wfD(3) [OF assms] by simp
  then show ?thesis
    using True pd_wfD(1) [OF assms]
    by (simp add: vmm_get_mapping_def tbl_virt Let_def xlate_def present_pte pt_of_def) (simp add: present_def)
qed

text \<open>Two memories that agree on the entries a translation reads translate alike.\<close>

lemma xlate_cong:
  assumes "ent m' d (GET_PDE_INDEX v) = ent m d (GET_PDE_INDEX v)"
    and "present (ent m d (GET_PDE_INDEX v)) \<Longrightarrow>
      ent m' (pt_of m d (GET_PDE_INDEX v)) (GET_PTE_INDEX v) = ent m (pt_of m d (GET_PDE_INDEX v)) (GET_PTE_INDEX v)"
  shows "xlate m' d v = xlate m d v"
  using assms by (simp add: xlate_def pt_of_def)

section \<open>Mapping a page\<close>

lemma new_table:
  assumes inv: "buddy_inv b" and a: "buddy_alloc_pages PAGE_SIZE LOWMEM_ZONE b = Inr (t, b')" and nz: "t \<noteq> 0"
  shows "tbl t" "page_addr_to_page t \<in> free_pages b" "buddy_inv b'"
    "free_pages b' = free_pages b - {page_addr_to_page t}" "buddy_owned b' t" "buddy_frames b' t = {page_addr_to_page t}"
proof -
  have o: "size_to_order PAGE_SIZE = 0" using order_one_page by (simp add: PAGE_SIZE_def)
  obtain p where p: "t = page_to_phys p" "buddy_inv b'" "page_addr_to_page t = p" "allocated_block p 0 LOWMEM_ZONE b b'"
    using buddy_alloc_cases [OF inv, of LOWMEM_ZONE PAGE_SIZE] a nz o by (auto split: prod.splits)
  have pm: "p < MAX_PAGES" "zone_of p = LOWMEM_ZONE" using p(4) by (auto simp: allocated_block_def block_at_def)
  then have "p div 1024 < 224" using zone_of_div [OF pm(1)] by (auto split: if_splits)
  then have "p < 229376" by (simp add: div_less_iff_less_mult)
  then show "tbl t" using p(1) unat_page_to_phys [OF pm(1)] by (simp add: tbl_def word_le_nat_alt)
  have "blk p 0 = {p}" by (auto simp: blk_def)
  then show "page_addr_to_page t \<in> free_pages b" "free_pages b' = free_pages b - {page_addr_to_page t}"
    "buddy_owned b' t" "buddy_frames b' t = {page_addr_to_page t}" "buddy_inv b'"
    using p allocated_block_owned [OF p(4) p(3)] by (auto simp: allocated_block_def)
qed

lemma tbl_page_inj: "tbl t \<Longrightarrow> tbl u \<Longrightarrow> page_addr_to_page t = page_addr_to_page u \<longleftrightarrow> t = u"
proof
  assume "tbl t" "tbl u" "page_addr_to_page t = page_addr_to_page u"
  then have "unat t div 4096 = unat u div 4096" "unat t mod 4096 = unat u mod 4096"
    by (simp_all add: page_addr_to_page_div tbl_def)
  then show "t = u" by (metis div_mult_mod_eq word_unat_eq_iff)
qed simp

text \<open>The memory after the page table at \<open>t\<close> got the entry \<open>x\<close> for the address \<open>v\<close>.\<close>

lemma write_pte_xlate:
  assumes wf: "pd_wf d s" and pr: "present (ent (mem s) d (GET_PDE_INDEX v))"
    and t: "t = pt_of (mem s) d (GET_PDE_INDEX v)"
    and m: "m' = (mem s)(t + GET_PTE_INDEX v * 4 := x)"
  shows "xlate m' d w = (if page_addr_is_same_page v w
      then if present x then GET_ENTRY_ADDR x + (w AND 0xFFF) else 0 else xlate (mem s) d w)"
    and "\<And>i. unat i < 1024 \<Longrightarrow> ent m' d i = ent (mem s) d i"
proof -
  note td = pd_wfD(1) [OF wf] and tt = pd_wfD(3) [OF wf index_bounds(1) pr, folded t]
  have td_neq: "t \<noteq> d" using pd_wfD(4) [OF wf index_bounds(1) pr] t by simp
  show pd_same: "ent m' d i = ent (mem s) d i" if "unat i < 1024" for i
    unfolding m using ent_upd [OF tt td index_bounds(2) that] td_neq by simp
  show "xlate m' d w = (if page_addr_is_same_page v w
      then if present x then GET_ENTRY_ADDR x + (w AND 0xFFF) else 0 else xlate (mem s) d w)"
  proof (cases "page_addr_is_same_page v w")
    case True
    then have i: "GET_PDE_INDEX w = GET_PDE_INDEX v" "GET_PTE_INDEX w = GET_PTE_INDEX v"
      by (auto simp: same_page_index)
    have "ent m' t (GET_PTE_INDEX v) = x" unfolding m using ent_upd [OF tt tt] by simp
    then show ?thesis
      using True pr pd_same [of "GET_PDE_INDEX v"] t by (simp add: xlate_def i pt_of_def Let_def)
  next
    case False
    have "xlate m' d w = xlate (mem s) d w"
    proof (rule xlate_cong)
      show "ent m' d (GET_PDE_INDEX w) = ent (mem s) d (GET_PDE_INDEX w)" by (rule pd_same) simp
      assume pw: "present (ent (mem s) d (GET_PDE_INDEX w))"
      let ?u = "pt_of (mem s) d (GET_PDE_INDEX w)"
      have "?u = t \<longrightarrow> GET_PDE_INDEX w = GET_PDE_INDEX v"
        using pd_wfD(6) [OF wf _ _ pw pr] t by auto
      then show "ent m' ?u (GET_PTE_INDEX w) = ent (mem s) ?u (GET_PTE_INDEX w)"
        unfolding m using ent_upd [OF tt pd_wfD(3) [OF wf _ pw]] False by (auto simp: same_page_index)
    qed
    then show ?thesis using False by simp
  qed
qed

lemma pd_wf_same_dir:
  assumes "pd_wf d s" and "\<And>i. unat i < 1024 \<Longrightarrow> present (ent (mem s') d i) = present (ent (mem s) d i)"
    and "\<And>i. unat i < 1024 \<Longrightarrow> pt_of (mem s') d i = pt_of (mem s) d i" and "vm_buddy s' = vm_buddy s"
  shows "pd_wf d s'"
  unfolding pd_wf_def assms(4)
  by (intro conjI allI impI) (use pd_wfD [OF assms(1)] assms(2,3) in auto)

lemma bit_US: "bit PDE_US_BIT n \<longleftrightarrow> n = 2"
  using bit_exp_iff [of 2 n, where 'a = "u32"] by (auto simp: PDE_US_BIT_def)

text \<open>Setting the user bit of a directory entry changes neither its table nor its presence.\<close>

lemma or_us_bit:
  "GET_ENTRY_ADDR (e OR PDE_US_BIT) = GET_ENTRY_ADDR e" "present (e OR PDE_US_BIT) = present e"
proof -
  note b = bit_US
  show "GET_ENTRY_ADDR (e OR PDE_US_BIT) = GET_ENTRY_ADDR e"
    unfolding GET_ENTRY_ADDR_def by (rule bit_eqI) (auto simp: bit_and_iff bit_or_iff bit_not_iff b bit_mask12)
  have "(e OR PDE_US_BIT) AND PDE_PRESENT_BIT = e AND PDE_PRESENT_BIT"
  proof (rule bit_eqI)
    fix n
    have "bit PDE_PRESENT_BIT n \<Longrightarrow> n = 0" by (simp add: PDE_PRESENT_BIT_def bit_1_iff)
    then show "bit ((e OR PDE_US_BIT) AND PDE_PRESENT_BIT) n = bit (e AND PDE_PRESENT_BIT) n"
      by (auto simp: bit_and_iff bit_or_iff b)
  qed
  then show "present (e OR PDE_US_BIT) = present e" by (simp add: present_def FLAG_IS_SET_def)
qed

text \<open>
  The tables the code allocated itself, which are all but the 224 tables of the kernel's linear map,
  are blocks of one page of the page allocator.
\<close>

definition dyn_index :: "u32 \<Rightarrow> bool" where
  "dyn_index i \<longleftrightarrow> unat i < 768 \<or> 992 \<le> unat i"

definition table_owned :: "buddy_state \<Rightarrow> u32 \<Rightarrow> bool" where
  "table_owned b t \<longleftrightarrow> buddy_owned b t \<and> buddy_frames b t = {page_addr_to_page t}"

definition tables_owned :: "u32 \<Rightarrow> vmm_state \<Rightarrow> bool" where
  "tables_owned d s \<longleftrightarrow> (\<forall>i. unat i < 1024 \<and> dyn_index i \<and> present (ent (mem s) d i) \<longrightarrow>
     table_owned (vm_buddy s) (pt_of (mem s) d i))"

definition space_ok :: "u32 \<Rightarrow> vmm_state \<Rightarrow> bool" where
  "space_ok d s \<longleftrightarrow> buddy_inv (vm_buddy s) \<and> pd_wf d s \<and> tables_owned d s"

lemma table_owned_alloc:
  assumes "buddy_inv b" and "buddy_alloc_pages sz LOWMEM_ZONE b = Inr (r, b')" and "table_owned b t"
  shows "table_owned b' t"
  using buddy.alloc_keeps [of b "(sz, LOWMEM_ZONE)" r b' t] assms
  by (simp add: buddy_request_def table_owned_def)

lemma no_table_left:
  assumes inv: "buddy_inv b" and a: "buddy_alloc_pages PAGE_SIZE LOWMEM_ZONE b = Inr (0, b')" and p: "p \<in> free_pages b"
  shows "zone_of p \<noteq> LOWMEM_ZONE"
proof
  assume z: "zone_of p = LOWMEM_ZONE"
  have o: "size_to_order PAGE_SIZE = 0" using order_one_page by (simp add: PAGE_SIZE_def)
  have "\<exists>k. size_to_order PAGE_SIZE \<le> k \<and> k \<le> 10 \<and> free_list b LOWMEM_ZONE k \<noteq> []"
    using free_page_listed [OF inv p] z o by auto
  then obtain q b'' where "buddy_alloc_pages PAGE_SIZE LOWMEM_ZONE b = Inr (page_to_phys q, b'')"
    "allocated_block q 0 LOWMEM_ZONE b b''"
    using buddy_alloc_spec [OF inv, of LOWMEM_ZONE PAGE_SIZE] o by auto
  then show False using a page_to_phys_nz [of q] by (auto simp: allocated_block_def block_at_def)
qed

text \<open>
  The first half of \<^verbatim>\<open>vmm_map_page\<close>: afterwards the directory entry is present, the address space is
  well formed and nothing that was mapped has changed; or no page was left for a new table.
\<close>

definition pt_ready :: "u32 \<Rightarrow> u32 \<Rightarrow> vmm_state \<Rightarrow> (u32 \<times> bool) option \<Rightarrow> vmm_state \<Rightarrow> bool" where
  "pt_ready d i s r s' \<longleftrightarrow>
     r = None \<and> s' = s \<and> \<not> present (ent (mem s) d i) \<and> (\<forall>p \<in> free_pages (vm_buddy s). zone_of p \<noteq> LOWMEM_ZONE) \<or>
     (\<exists>up. r = Some (pt_of (mem s') d i + KERNEL_VADDR_BASE, up)) \<and> present (ent (mem s') d i) \<and>
     space_ok d s' \<and> (\<forall>w. xlate (mem s') d w = xlate (mem s) d w) \<and> cr3 s' = cr3 s \<and> tlb_log s' = tlb_log s"

lemma pt_for_present:
  assumes sp: "space_ok d s" and ib: "unat i < 1024"
    and True: "present (ent (mem s) d i)"
  shows "\<exists>r s'. vmm_pt_for (d + KERNEL_VADDR_BASE) i fl s = Inr (r, s') \<and> pt_ready d i s r s'"
proof -
  have inv: "buddy_inv (vm_buddy s)" and wf: "pd_wf d s" and own: "tables_owned d s" using sp by (auto simp: space_ok_def)
  note td = pd_wfD(1) [OF wf]
  let ?up = "FLAG_IS_SET fl PDE_US_BIT \<and> \<not> FLAG_IS_SET (ent (mem s) d i) PDE_US_BIT"
  let ?s = "if ?up then sto (d + KERNEL_VADDR_BASE) i (ent (mem s) d i OR PDE_US_BIT) s else s"
  have e: "ent (mem ?s) d j = (if j = i \<and> ?up then ent (mem s) d i OR PDE_US_BIT else ent (mem s) d j)"
    if "unat j < 1024" for j
    using that ib by (simp add: sto_def tbl_virt(3) [OF td] ent_upd [OF td td ib])
  have o: "ent (mem ?s) t j = ent (mem s) t j" if "tbl t" "t \<noteq> d" "unat j < 1024" for t j
    using ent_upd [OF td that(1) ib that(3), of "mem s"] that(2) by (simp add: sto_def tbl_virt(3) [OF td])
  have pt: "pt_of (mem ?s) d j = pt_of (mem s) d j" "present (ent (mem ?s) d j) = present (ent (mem s) d j)"
    if "unat j < 1024" for j using e [OF that] or_us_bit by (auto simp: pt_of_def)
  have vb: "vm_buddy ?s = vm_buddy s" by (simp add: sto_def)
  have wf': "pd_wf d ?s" by (rule pd_wf_same_dir [OF wf]) (use pt vb in auto)
  have own': "tables_owned d ?s" using own pt vb by (auto simp: tables_owned_def)
  have xl: "xlate (mem ?s) d w = xlate (mem s) d w" for w
  proof -
    let ?j = "GET_PDE_INDEX w"
    have "ent (mem ?s) (pt_of (mem s) d ?j) (GET_PTE_INDEX w) = ent (mem s) (pt_of (mem s) d ?j) (GET_PTE_INDEX w)"
      if "present (ent (mem s) d ?j)"
      using o [OF pd_wfD(3,4) [OF wf _ that]] by simp
    then show ?thesis using pt [of ?j] by (simp add: xlate_def)
  qed
  have "tbl (pt_of (mem ?s) d i)" using pd_wfD(3) [OF wf ib True] pt(1) [OF ib] by simp
  then have "vmm_pt_for (d + KERNEL_VADDR_BASE) i fl s = Inr (Some (pt_of (mem ?s) d i + KERNEL_VADDR_BASE, ?up), ?s)"
    using True unfolding vmm_pt_for_def tbl_virt(4) [OF td] present_def Let_def
    by (simp add: tbl_virt(1) pt_of_def)
  moreover have "pt_ready d i s (Some (pt_of (mem ?s) d i + KERNEL_VADDR_BASE, ?up)) ?s"
    using True inv pt(2) [OF ib] wf' xl own' by (simp add: pt_ready_def space_ok_def sto_def)
  ultimately show ?thesis by blast
qed


lemma pt_for_absent:
  assumes sp: "space_ok d s" and ib: "unat i < 1024"
    and False: "\<not> present (ent (mem s) d i)"
  shows "\<exists>r s'. vmm_pt_for (d + KERNEL_VADDR_BASE) i fl s = Inr (r, s') \<and> pt_ready d i s r s'"
proof -
  have inv: "buddy_inv (vm_buddy s)" and wf: "pd_wf d s" and own: "tables_owned d s" using sp by (auto simp: space_ok_def)
  note td = pd_wfD(1) [OF wf]
  obtain t b where a: "buddy_alloc_pages PAGE_SIZE LOWMEM_ZONE (vm_buddy s) = Inr (t, b)"
    using buddy.alloc_total [OF inv, of "(PAGE_SIZE, LOWMEM_ZONE)"] by (auto simp: buddy_request_def)
  show ?thesis
  proof (cases "t = 0")
    case True
    then have "b = vm_buddy s"
      using buddy.alloc_null [OF inv, of "(PAGE_SIZE, LOWMEM_ZONE)" b] a by (simp add: buddy_request_def)
    then have "vmm_pt_for (d + KERNEL_VADDR_BASE) i fl s = Inr (None, s)"
      using False a True by (simp add: vmm_pt_for_def tbl_virt(4) [OF td] present_def Let_def)
    then show ?thesis using False no_table_left [OF inv] a True unfolding pt_ready_def by blast
  next
    case nz: False
    note nt = new_table [OF inv a nz]
    let ?e = "t OR PDE_PRESENT_BIT OR PDE_RW_BIT OR (fl AND PDE_US_BIT)"
    let ?s = "sto (d + KERNEL_VADDR_BASE) i ?e (bzero_page (t + KERNEL_VADDR_BASE) (s\<lparr>vm_buddy := b\<rparr>))"
    have eq: "vmm_pt_for (d + KERNEL_VADDR_BASE) i fl s = Inr (Some (t + KERNEL_VADDR_BASE, True), ?s)"
      using False a nz by (simp add: vmm_pt_for_def tbl_virt [OF td] tbl_virt [OF nt(1)] present_def Let_def)
    have tfresh: "t \<noteq> d" "\<And>j. unat j < 1024 \<Longrightarrow> present (ent (mem s) d j) \<Longrightarrow> pt_of (mem s) d j \<noteq> t"
      using nt(2) pd_wfD(2,5) [OF wf] by auto
    have e: "ent (mem ?s) u j = (if u = d \<and> j = i then ?e else if u = t then 0 else ent (mem s) u j)"
      if "tbl u" "unat j < 1024" for u j
      using that ib nt(1) td by (simp add: sto_def bzero_page_def tbl_virt(3) ent_upd ent_zero)
    have small: "unat (PDE_PRESENT_BIT OR PDE_RW_BIT OR (fl AND PDE_US_BIT)) < 4096"
    proof -
      have "PDE_PRESENT_BIT OR PDE_RW_BIT OR (fl AND PDE_US_BIT) = take_bit 3 (PDE_PRESENT_BIT OR PDE_RW_BIT OR (fl AND PDE_US_BIT))"
        by (rule bit_eqI) (auto simp: bit_simps bit_US PDE_PRESENT_BIT_def PDE_RW_BIT_def)
      then have "unat (PDE_PRESENT_BIT OR PDE_RW_BIT OR (fl AND PDE_US_BIT)) < 2 ^ 3"
        by (metis take_bit_nat_less_exp unsigned_take_bit_eq)
      then show ?thesis by simp
    qed
    have al: "unat t mod 4096 = 0" using nt(1) by (simp add: tbl_def)
    have pe: "GET_ENTRY_ADDR ?e = t" "present ?e"
    proof -
      show "GET_ENTRY_ADDR ?e = t" using entry_parts(1) [OF al small] by (simp add: or.assoc)
      have "bit ?e 0" by (simp add: bit_or_iff PDE_PRESENT_BIT_def)
      then have "bit (?e AND PDE_PRESENT_BIT) 0" by (simp add: bit_and_iff PDE_PRESENT_BIT_def)
      then show "present ?e" unfolding present_def FLAG_IS_SET_def by (metis bit_0_eq bot_apply bot_bool_def)
    qed
    have dir: "ent (mem ?s) d j = (if j = i then ?e else ent (mem s) d j)" if "unat j < 1024" for j
      using e [OF td that] tfresh(1) by simp
    have fp: "free_pages b = free_pages (vm_buddy s) - {page_addr_to_page t}" by (rule nt(4))
    have cr: "cr3 ?s = cr3 s" "tlb_log ?s = tlb_log s" by (simp_all add: sto_def bzero_page_def)
    have vb: "vm_buddy ?s = b" by (simp add: sto_def bzero_page_def)
    have pti: "pt_of (mem ?s) d i = t" using dir [OF ib] pe(1) by (simp add: pt_of_def)
    have ptj: "pt_of (mem ?s) d j = pt_of (mem s) d j" "ent (mem ?s) d j = ent (mem s) d j"
      if "j \<noteq> i" "unat j < 1024" for j using dir [OF that(2)] that(1) by (simp_all add: pt_of_def)
    have "pd_wf d ?s"
      unfolding pd_wf_def vb
    proof (intro conjI allI impI)
      show "tbl d" "page_addr_to_page d \<notin> free_pages b" using td pd_wfD(2) [OF wf] fp by auto
      fix j assume j: "unat j < 1024 \<and> present (ent (mem ?s) d j)"
      show "tbl (pt_of (mem ?s) d j)" "pt_of (mem ?s) d j \<noteq> d" "page_addr_to_page (pt_of (mem ?s) d j) \<notin> free_pages b"
        using j pti ptj [of j] nt(1) tfresh(1) fp pd_wfD(3,4,5) [OF wf, of j] by (cases "j = i"; simp)+
    next
      fix j k assume h: "unat j < 1024 \<and> unat k < 1024 \<and> present (ent (mem ?s) d j) \<and> present (ent (mem ?s) d k) \<and>
        pt_of (mem ?s) d j = pt_of (mem ?s) d k"
      show "j = k"
      proof (rule ccontr)
        assume jk: "j \<noteq> k"
        consider "j = i" "k \<noteq> i" | "k = i" "j \<noteq> i" | "j \<noteq> i" "k \<noteq> i" using jk by auto
        then show False
          by cases (use h pti ptj tfresh(2) pd_wfD(6) [OF wf, of j k] jk in metis)+
      qed
    qed
    moreover have "xlate (mem ?s) d w = xlate (mem s) d w" for w
    proof (cases "GET_PDE_INDEX w = i")
      case True
      have "ent (mem ?s) t (GET_PTE_INDEX w) = 0" using e [OF nt(1)] tfresh(1) by simp
      then show ?thesis using True False pti by (simp add: xlate_def)
    next
      case other: False
      show ?thesis
      proof (rule xlate_cong)
        show "ent (mem ?s) d (GET_PDE_INDEX w) = ent (mem s) d (GET_PDE_INDEX w)" using ptj(2) other by simp
        assume "present (ent (mem s) d (GET_PDE_INDEX w))"
        then show "ent (mem ?s) (pt_of (mem s) d (GET_PDE_INDEX w)) (GET_PTE_INDEX w) =
            ent (mem s) (pt_of (mem s) d (GET_PDE_INDEX w)) (GET_PTE_INDEX w)"
          using e [OF pd_wfD(3) [OF wf]] pd_wfD(4) [OF wf] tfresh(2) by simp
      qed
    qed
    moreover have "present (ent (mem ?s) d i)" using dir [OF ib] pe(2) by simp
    moreover have "tables_owned d ?s"
      unfolding tables_owned_def vb
    proof (intro allI impI)
      fix j assume j: "unat j < 1024 \<and> dyn_index j \<and> present (ent (mem ?s) d j)"
      show "table_owned b (pt_of (mem ?s) d j)"
        using j pti ptj [of j] nt(5,6) own table_owned_alloc [OF inv a]
        by (cases "j = i") (simp_all add: table_owned_def tables_owned_def)
    qed
    ultimately have "pt_ready d i s (Some (t + KERNEL_VADDR_BASE, True)) ?s"
      using nt(3) unfolding pt_ready_def space_ok_def vb pti cr by blast
    then show ?thesis using eq by blast
  qed
qed

lemma space_ok_same_dir:
  assumes "space_ok d s" and "\<And>i. unat i < 1024 \<Longrightarrow> ent (mem s') d i = ent (mem s) d i" and "vm_buddy s' = vm_buddy s"
  shows "space_ok d s'"
  using assms pd_wf_same_dir [of d s s'] by (auto simp: space_ok_def tables_owned_def pt_of_def)

lemma vmm_map_page_spec:
  assumes sp: "space_ok d s" and p: "unat p mod 4096 = 0" and fl: "unat fl < 4096" "present fl"
  shows "\<exists>ok s'. vmm_map_page d v p fl s = Inr (ok, s') \<and>
    (if ok then space_ok d s' \<and> (\<forall>w. xlate (mem s') d w =
        (if page_addr_is_same_page v w then p + (w AND 0xFFF) else xlate (mem s) d w)) \<and>
        cr3 s' = cr3 s \<and>
        (if cr3 s = d then tlb_log s' \<in> {RELOAD_CR3 d # tlb_log s, INVLPG v # tlb_log s} else tlb_log s' = tlb_log s)
     else s' = s \<and> xlate (mem s) d v = 0 \<and> (\<forall>p \<in> free_pages (vm_buddy s). zone_of p \<noteq> LOWMEM_ZONE))"
proof -
  let ?i = "GET_PDE_INDEX v" and ?j = "GET_PTE_INDEX v"
  have td: "tbl d" using sp pd_wfD(1) by (auto simp: space_ok_def)
  obtain r s1 where r: "vmm_pt_for (d + KERNEL_VADDR_BASE) ?i fl s = Inr (r, s1)" "pt_ready d ?i s r s1"
    using pt_for_present [OF sp] pt_for_absent [OF sp] by (metis index_bounds(1))
  show ?thesis
  proof (cases r)
    case None
    then have "vmm_map_page d v p fl s = Inr (False, s)" "\<not> present (ent (mem s) d ?i)"
      "\<forall>p \<in> free_pages (vm_buddy s). zone_of p \<noteq> LOWMEM_ZONE"
      using r by (auto simp: vmm_map_page_def tbl_virt [OF td] Let_def pt_ready_def)
    then show ?thesis by (intro exI [of _ False] exI [of _ s]) (simp add: xlate_def)
  next
    case (Some x)
    let ?t = "pt_of (mem s1) d ?i"
    obtain up where h: "r = Some (?t + KERNEL_VADDR_BASE, up)" "present (ent (mem s1) d ?i)" "space_ok d s1"
      "\<forall>w. xlate (mem s1) d w = xlate (mem s) d w" "cr3 s1 = cr3 s" "tlb_log s1 = tlb_log s"
      using r(2) Some unfolding pt_ready_def by auto
    have wf: "pd_wf d s1" using h(3) by (simp add: space_ok_def)
    have tt: "tbl ?t" by (rule pd_wfD(3) [OF wf _ h(2)]) simp
    let ?m = "(mem s1)(?t + ?j * 4 := p OR fl)"
    let ?s = "(if cr3 s = d then if up then paging_reload_cr3 d else paging_invalid_TLB_addr v else id) (s1\<lparr>mem := ?m\<rparr>)"
    have eq: "vmm_map_page d v p fl s = Inr (True, ?s)"
      using r(1) h(1,5) by (simp add: vmm_map_page_def tbl_virt [OF td] tbl_virt [OF tt] Let_def sto_def
          get_current_page_directory_phys_def)
    have m: "mem ?s = ?m" "vm_buddy ?s = vm_buddy s1" "cr3 ?s = cr3 s"
      using h(5) by (auto simp: paging_reload_cr3_def paging_invalid_TLB_addr_def)
    note w = write_pte_xlate [OF wf h(2) refl refl, where x = "p OR fl"]
    have "GET_ENTRY_ADDR (p OR fl) = p" "present (p OR fl)"
      using entry_parts(1) [OF p fl(1)] entry_parts(2) [OF p fl(1), of PDE_PRESENT_BIT] fl(2)
      by (simp_all add: present_def FLAG_IS_SET_def PDE_PRESENT_BIT_def)
    then have "\<forall>w. xlate (mem ?s) d w = (if page_addr_is_same_page v w then p + (w AND 0xFFF) else xlate (mem s) d w)"
      using w(1) h(4) unfolding m by simp
    moreover have "space_ok d ?s" by (rule space_ok_same_dir [OF h(3)]) (use w(2) m in simp_all)
    moreover have "if cr3 s = d then tlb_log ?s \<in> {RELOAD_CR3 d # tlb_log s, INVLPG v # tlb_log s} else tlb_log ?s = tlb_log s"
      using h(6) by (simp add: paging_reload_cr3_def paging_invalid_TLB_addr_def)
    ultimately show ?thesis using eq m(3) by (intro exI [of _ True] exI [of _ ?s]) (simp only: if_True simp_thms)
  qed
qed

section \<open>Unmapping a page\<close>

definition mapped :: "(u32 \<Rightarrow> u32) \<Rightarrow> u32 \<Rightarrow> u32 \<Rightarrow> bool" where
  "mapped m d v \<longleftrightarrow> present (ent m d (GET_PDE_INDEX v)) \<and> present (ent m (pt_of m d (GET_PDE_INDEX v)) (GET_PTE_INDEX v))"

lemma unmapped_xlate: "\<not> mapped m d v \<Longrightarrow> xlate m d v = 0"
  by (simp add: mapped_def xlate_def)

lemma pt_is_empty_iff:
  assumes "tbl t"
  shows "pt_is_empty s (t + KERNEL_VADDR_BASE) \<longleftrightarrow> (\<forall>j. unat j < 1024 \<longrightarrow> \<not> present (ent (mem s) t j))"
proof -
  have "pt_is_empty s (t + KERNEL_VADDR_BASE) \<longleftrightarrow> (\<forall>n < 1024. \<not> present (ent (mem s) t (of_nat n)))"
    by (auto simp: pt_is_empty_def tbl_virt(4) [OF assms] present_pte list_all_iff)
  also have "\<dots> \<longleftrightarrow> (\<forall>j. unat j < 1024 \<longrightarrow> \<not> present (ent (mem s) t j))"
  proof (intro iffI allI impI)
    fix j :: u32 assume "\<forall>n < 1024. \<not> present (ent (mem s) t (of_nat n))" "unat j < 1024"
    then have "\<not> present (ent (mem s) t (of_nat (unat j)))" by blast
    then show "\<not> present (ent (mem s) t j)" by simp
  qed simp
  finally show ?thesis .
qed

text \<open>Dropping an empty table: its directory entry is cleared and its page released.\<close>

lemma drop_table:
  assumes sp: "space_ok d s" and ib: "unat i < 1024" and dyn: "dyn_index i" and pr: "present (ent (mem s) d i)"
    and emp: "\<And>j. unat j < 1024 \<Longrightarrow> \<not> present (ent (mem s) (pt_of (mem s) d i) j)"
  shows "\<exists>b. buddy_free_block (pt_of (mem s) d i) (vm_buddy s) = Inr b \<and>
    free_pages b = free_pages (vm_buddy s) \<union> {page_addr_to_page (pt_of (mem s) d i)} \<and>
    space_ok d (s\<lparr>mem := (mem s)(d + i * 4 := 0), vm_buddy := b\<rparr>) \<and>
    (\<forall>w. xlate ((mem s)(d + i * 4 := 0)) d w = xlate (mem s) d w)"
proof -
  let ?t = "pt_of (mem s) d i" and ?m = "(mem s)(d + i * 4 := 0)"
  have inv: "buddy_inv (vm_buddy s)" and wf: "pd_wf d s" and own: "tables_owned d s" using sp by (auto simp: space_ok_def)
  note td = pd_wfD(1) [OF wf]
  have to: "table_owned (vm_buddy s) ?t" using own ib dyn pr by (simp add: tables_owned_def)
  obtain b where b: "buddy_free_block ?t (vm_buddy s) = Inr b" "buddy_inv b"
    "free_pages b = free_pages (vm_buddy s) \<union> {page_addr_to_page ?t}"
    using buddy.release_ok [OF inv, of ?t] to by (auto simp: table_owned_def)
  have e: "ent ?m u j = (if u = d \<and> j = i then 0 else ent (mem s) u j)" if "tbl u" "unat j < 1024" for u j
    by (rule ent_upd [OF td that(1) ib that(2)])
  have pj: "j \<noteq> i \<and> present (ent (mem s) d j) \<and> pt_of ?m d j = pt_of (mem s) d j"
    if "unat j < 1024" "present (ent ?m d j)" for j
    using e [OF td that(1)] that(2) by (auto simp: pt_of_def split: if_splits)
  have ne: "pt_of (mem s) d j \<noteq> ?t \<and> page_addr_to_page (pt_of (mem s) d j) \<noteq> page_addr_to_page ?t"
    if "unat j < 1024" "present (ent ?m d j)" for j
  proof -
    note p = pj [OF that]
    have "tbl (pt_of (mem s) d j)" "tbl ?t" using pd_wfD(3) [OF wf] that(1) ib pr p by blast+
    moreover have "pt_of (mem s) d j \<noteq> ?t" using p pd_wfD(6) [OF wf that(1) ib _ pr] by blast
    ultimately show ?thesis using tbl_page_inj by simp
  qed
  let ?s = "s\<lparr>mem := ?m, vm_buddy := b\<rparr>"
  have dn: "page_addr_to_page d \<noteq> page_addr_to_page ?t"
    using tbl_page_inj [OF td pd_wfD(3) [OF wf ib pr]] pd_wfD(4) [OF wf ib pr] by simp
  have sel: "mem ?s = ?m" "vm_buddy ?s = b" by simp_all
  have "pd_wf d ?s"
    unfolding pd_wf_def sel
  proof (intro conjI allI impI)
    show "tbl d" "page_addr_to_page d \<notin> free_pages b" using td pd_wfD(2) [OF wf] dn b(3) by simp_all
    fix j assume j: "unat j < 1024 \<and> present (ent ?m d j)"
    have p: "present (ent (mem s) d j)" "pt_of ?m d j = pt_of (mem s) d j" using pj [of j] j by blast+
    show "tbl (pt_of ?m d j)" "pt_of ?m d j \<noteq> d" "page_addr_to_page (pt_of ?m d j) \<notin> free_pages b"
      unfolding p(2) using j p(1) ne [of j] pd_wfD(3,4,5) [OF wf, of j] b(3) by simp_all
  next
    fix j k assume h: "unat j < 1024 \<and> unat k < 1024 \<and> present (ent ?m d j) \<and> present (ent ?m d k) \<and>
      pt_of ?m d j = pt_of ?m d k"
    then have "present (ent (mem s) d j)" "present (ent (mem s) d k)" "pt_of (mem s) d j = pt_of (mem s) d k"
      using pj [of j] pj [of k] by metis+
    then show "j = k" using h pd_wfD(6) [OF wf, of j k] by blast
  qed
  moreover have "tables_owned d ?s"
    unfolding tables_owned_def sel
  proof (intro allI impI)
    fix j assume j: "unat j < 1024 \<and> dyn_index j \<and> present (ent ?m d j)"
    have p: "present (ent (mem s) d j)" "pt_of ?m d j = pt_of (mem s) d j" using pj [of j] j by blast+
    have o: "table_owned (vm_buddy s) (pt_of (mem s) d j)" using own j p(1) by (simp add: tables_owned_def)
    show "table_owned b (pt_of ?m d j)"
      unfolding p(2)
      using j ne [of j] o to buddy.release_keeps [OF inv _ b(1), of "pt_of (mem s) d j"]
      by (simp add: table_owned_def)
  qed
  moreover have "xlate ?m d w = xlate (mem s) d w" for w
  proof (cases "GET_PDE_INDEX w = i")
    case True
    then show ?thesis using e [OF td ib] emp [of "GET_PTE_INDEX w"] by (simp add: xlate_def)
  next
    case False
    show ?thesis
      by (rule xlate_cong) (use e [OF td, of "GET_PDE_INDEX w"] e [of "pt_of (mem s) d (GET_PDE_INDEX w)" "GET_PTE_INDEX w"]
          False pd_wfD(3,4) [OF wf, of "GET_PDE_INDEX w"] in auto)
  qed
  ultimately show ?thesis using b by (intro exI [of _ b]) (simp add: space_ok_def)
qed

text \<open>The page of \<open>v\<close> is the only one that its page table maps.\<close>

definition only_entry :: "(u32 \<Rightarrow> u32) \<Rightarrow> u32 \<Rightarrow> u32 \<Rightarrow> bool" where
  "only_entry m d v \<longleftrightarrow>
     (\<forall>j. unat j < 1024 \<and> present (ent m (pt_of m d (GET_PDE_INDEX v)) j) \<longrightarrow> j = GET_PTE_INDEX v)"

text \<open>What unmapping a mapped page changes: the entry of the page, and with the last entry of a table the entry of the
  table, whose frame becomes free.\<close>

definition unmap_effect :: "u32 \<Rightarrow> u32 \<Rightarrow> vmm_state \<Rightarrow> vmm_state \<Rightarrow> bool" where
  "unmap_effect d v s s' \<longleftrightarrow>
     (let t = pt_of (mem s) d (GET_PDE_INDEX v); last = only_entry (mem s) d v;
          m = (mem s)(t + GET_PTE_INDEX v * 4 := 0) in
      mem s' = (if last then m(d + GET_PDE_INDEX v * 4 := 0) else m) \<and>
      free_pages (vm_buddy s') = (if last then insert (page_addr_to_page t) (free_pages (vm_buddy s)) else free_pages (vm_buddy s)) \<and>
      tlb_log s' = (if last \<and> d = cr3 s then [RELOAD_CR3 d] else []) @ INVLPG v # tlb_log s)"

lemma vmm_unmap_page_spec:
  assumes sp: "space_ok d s" and dyn: "dyn_index (GET_PDE_INDEX v)"
  shows "\<exists>s'. vmm_unmap_page d v s = Inr (mapped (mem s) d v, s') \<and>
    (if mapped (mem s) d v then space_ok d s' \<and> cr3 s' = cr3 s \<and> unmap_effect d v s s' \<and>
       (\<forall>w. xlate (mem s') d w = (if page_addr_is_same_page v w then 0 else xlate (mem s) d w))
     else s' = s)"
proof -
  let ?i = "GET_PDE_INDEX v" and ?j = "GET_PTE_INDEX v" and ?t = "pt_of (mem s) d (GET_PDE_INDEX v)"
  have inv: "buddy_inv (vm_buddy s)" and wf: "pd_wf d s" using sp by (auto simp: space_ok_def)
  note td = pd_wfD(1) [OF wf]
  show ?thesis
  proof (cases "mapped (mem s) d v")
    case False
    have "vmm_unmap_page d v s = Inr (False, s)"
    proof (cases "present (ent (mem s) d ?i)")
      case True
      then show ?thesis
        using False pd_wfD(3) [OF wf _ True] by (simp add: vmm_unmap_page_def tbl_virt td Let_def mapped_def present_pte pt_of_def
            flip: present_def)
    qed (simp add: vmm_unmap_page_def tbl_virt td Let_def present_def)
    then show ?thesis using False by simp
  next
    case True
    then have pr: "present (ent (mem s) d ?i)" "present (ent (mem s) ?t ?j)" by (auto simp: mapped_def)
    have tt: "tbl ?t" by (rule pd_wfD(3) [OF wf _ pr(1)]) simp
    let ?s1 = "s\<lparr>mem := (mem s)(?t + ?j * 4 := 0), tlb_log := INVLPG v # tlb_log s\<rparr>"
    note w = write_pte_xlate [OF wf pr(1) refl refl, where x = 0]
    have sp1: "space_ok d ?s1" by (rule space_ok_same_dir [OF sp]) (use w(2) in simp_all)
    have t1: "pt_of (mem ?s1) d ?i = ?t" "present (ent (mem ?s1) d ?i)" using w(2) [of ?i] pr(1) by (simp_all add: pt_of_def)
    have x1: "xlate (mem ?s1) d x = (if page_addr_is_same_page v x then 0 else xlate (mem s) d x)" for x
      using w(1) by simp
    have eq: "vmm_unmap_page d v s = (if pt_is_empty ?s1 (?t + KERNEL_VADDR_BASE) then
        kbind (buddy_free_block ?t (vm_buddy s)) (\<lambda>b. let s' = ?s1\<lparr>mem := (mem ?s1)(d + ?i * 4 := 0), vm_buddy := b\<rparr> in
          Inr (True, if d = cr3 s then paging_reload_cr3 d s' else s')) else Inr (True, ?s1))"
      using pr tt by (simp add: vmm_unmap_page_def tbl_virt td Let_def present_pte pt_of_def sto_def
          paging_invalid_TLB_addr_def get_current_page_directory_phys_def) (simp add: present_def)
    have last: "pt_is_empty ?s1 (?t + KERNEL_VADDR_BASE) \<longleftrightarrow> only_entry (mem s) d v"
      unfolding pt_is_empty_iff [OF tt] only_entry_def by (auto simp: ent_upd [OF tt tt])
    show ?thesis
    proof (cases "pt_is_empty ?s1 (?t + KERNEL_VADDR_BASE)")
      case False
      then show ?thesis using eq True sp1 x1 last by (intro exI [of _ ?s1]) (simp add: unmap_effect_def Let_def)
    next
      case emp: True
      let ?m2 = "(mem ?s1)(d + ?i * 4 := 0)"
      obtain b where b: "buddy_free_block ?t (vm_buddy s) = Inr b"
        "free_pages b = free_pages (vm_buddy s) \<union> {page_addr_to_page ?t}"
        "space_ok d (?s1\<lparr>mem := ?m2, vm_buddy := b\<rparr>)" "\<forall>x. xlate ?m2 d x = xlate (mem ?s1) d x"
        using drop_table [OF sp1 _ dyn t1(2)] emp unfolding pt_is_empty_iff [OF tt] t1(1) by auto
      let ?s2 = "?s1\<lparr>mem := ?m2, vm_buddy := b\<rparr>"
      let ?s3 = "if d = cr3 s then paging_reload_cr3 d ?s2 else ?s2"
      have "space_ok d ?s3" using b(3) by (rule space_ok_same_dir) (simp_all add: paging_reload_cr3_def)
      moreover have "\<forall>x. xlate (mem ?s3) d x = xlate ?m2 d x" "cr3 ?s3 = cr3 s"
        by (simp_all add: paging_reload_cr3_def)
      moreover have "unmap_effect d v s ?s3"
        using b(2) emp last by (simp add: unmap_effect_def Let_def paging_reload_cr3_def)
      moreover have "vmm_unmap_page d v s = Inr (True, ?s3)" using eq emp b(1) by (simp add: Let_def)
      ultimately show ?thesis
        using True b(4) x1 by (intro exI [of _ ?s3]) auto
    qed
  qed
qed

end
