(* ===== verification/Vmm_Range.thy ===== *)
theory Vmm_Range
  imports Vmm_Map
begin

text \<open>
  \<^verbatim>\<open>vmm_verify_range_flags\<close> against the page-by-page reading of its contract: every byte of the range
  lies in a page whose directory entry and table entry carry the flags.
\<close>

section \<open>Checking the flags of a range\<close>

text \<open>
  What \<^verbatim>\<open>vmm_verify_range_flags\<close> asks of one address: the directory entry and the table entry
  of its page carry the flags and are present.
\<close>

definition has_flags :: "u32 \<Rightarrow> u32 \<Rightarrow> bool" where
  "has_flags f e \<longleftrightarrow> e AND f = f"

definition page_flags :: "(u32 \<Rightarrow> u32) \<Rightarrow> u32 \<Rightarrow> u32 \<Rightarrow> u32 \<Rightarrow> nat \<Rightarrow> bool" where
  "page_flags m d f g q \<longleftrightarrow> has_flags f (ent m d (of_nat (q div 1024))) \<and>
     has_flags g (ent m (pt_of m d (of_nat (q div 1024))) (of_nat (q mod 1024)))"

definition addr_flags :: "(u32 \<Rightarrow> u32) \<Rightarrow> u32 \<Rightarrow> u32 \<Rightarrow> u32 \<Rightarrow> u32 \<Rightarrow> bool" where
  "addr_flags m d f g a \<longleftrightarrow> has_flags f (ent m d (GET_PDE_INDEX a)) \<and>
     has_flags g (ent m (pt_of m d (GET_PDE_INDEX a)) (GET_PTE_INDEX a))"

lemma index_nat:
  "unat (GET_PDE_INDEX a) = unat a div 4096 div 1024" "unat (GET_PTE_INDEX a) = unat a div 4096 mod 1024"
proof -
  show "unat (GET_PDE_INDEX a) = unat a div 4096 div 1024"
    by (simp add: GET_PDE_INDEX_def drop_bit_eq_div unat_div div_mult2_eq [symmetric])
  have "GET_PTE_INDEX a = take_bit 10 (drop_bit 12 a)"
    by (simp add: GET_PTE_INDEX_def take_bit_eq_mask mask_eq_exp_minus_1)
  then show "unat (GET_PTE_INDEX a) = unat a div 4096 mod 1024"
    by (simp add: take_bit_eq_mod unat_mod drop_bit_eq_div unat_div)
qed

lemma addr_page_flags: "addr_flags m d f g a = page_flags m d f g (unat a div 4096)"
proof -
  have "GET_PDE_INDEX a = of_nat (unat a div 4096 div 1024)" "GET_PTE_INDEX a = of_nat (unat a div 4096 mod 1024)"
    by (simp_all flip: index_nat)
  then show ?thesis by (simp add: addr_flags_def page_flags_def)
qed

lemma has_flags_present: "has_flags (f OR PDE_PRESENT_BIT) e \<Longrightarrow> present e"
proof -
  assume "has_flags (f OR PDE_PRESENT_BIT) e"
  then have "bit (e AND (f OR PDE_PRESENT_BIT)) 0 = bit (f OR PDE_PRESENT_BIT) 0" by (simp add: has_flags_def)
  then have "bit e 0" by (simp add: bit_and_iff bit_or_iff PDE_PRESENT_BIT_def)
  then have "bit (e AND PDE_PRESENT_BIT) 0" by (simp add: bit_and_iff PDE_PRESENT_BIT_def)
  then show "present e" unfolding present_def FLAG_IS_SET_def by (metis bit_0_eq bot_apply bot_bool_def)
qed

lemma verify_pt_spec:
  assumes "tbl t" and "j \<le> 1024"
  shows "verify_pt s (t + KERNEL_VADDR_BASE) g j r =
    (if \<forall>k \<in> {j..<min (j + r) 1024}. has_flags g (ent (mem s) t (of_nat k)) then Some (r - (1024 - j)) else None)"
  using assms(2)
proof (induction s "t + KERNEL_VADDR_BASE" g j r rule: verify_pt.induct)
  case (1 s g j r)
  show ?case
  proof (cases "0 < r \<and> j < 1024")
    case False
    then have "verify_pt s (t + KERNEL_VADDR_BASE) g j r = Some r" by (subst verify_pt.simps) (simp only: if_False)
    then show ?thesis using False "1.prems" by auto
  next
    case True
    have split: "{j..<min (j + r) 1024} = insert j {j + 1..<min (j + 1 + (r - 1)) 1024}" using True by auto
    show ?thesis
    proof (cases "has_flags g (ent (mem s) t (of_nat j))")
      case False
      then have "verify_pt s (t + KERNEL_VADDR_BASE) g j r = None"
        using True tbl_virt(4) [OF assms(1)] by (subst verify_pt.simps) (simp add: has_flags_def)
      then show ?thesis using False unfolding split by simp
    next
      case ok: True
      then have "verify_pt s (t + KERNEL_VADDR_BASE) g j r = verify_pt s (t + KERNEL_VADDR_BASE) g (j + 1) (r - 1)"
        using True tbl_virt(4) [OF assms(1)] by (subst verify_pt.simps) (simp add: has_flags_def)
      moreover have "r - (1024 - j) = r - 1 - (1024 - (j + 1))" using True by simp
      ultimately show ?thesis
        using "1.hyps" True ok tbl_virt(4) [OF assms(1)] unfolding split by (simp add: has_flags_def)
    qed
  qed
qed

text \<open>The pages of one table, as page numbers.\<close>

lemma table_pages:
  assumes "q0 div 1024 = c" and "has_flags f (ent m d (of_nat c))"
  shows "(\<forall>k \<in> {q0 mod 1024..<min (q0 mod 1024 + r) 1024}. has_flags g (ent m (pt_of m d (of_nat c)) (of_nat k))) \<longleftrightarrow>
    (\<forall>q \<in> {q0..<min (q0 + r) ((c + 1) * 1024)}. page_flags m d f g q)"
proof -
  have q0: "q0 = c * 1024 + q0 mod 1024" using div_mult_mod_eq [of q0 1024] assms(1) by simp
  have im: "{q0..<min (q0 + r) ((c + 1) * 1024)} = (\<lambda>k. c * 1024 + k) ` {q0 mod 1024..<min (q0 mod 1024 + r) 1024}"
  proof -
    have "{q0..<min (q0 + r) ((c + 1) * 1024)} =
        {c * 1024 + q0 mod 1024..<c * 1024 + min (q0 mod 1024 + r) 1024}"
    proof -
      have "min (c * 1024 + k + r) ((c + 1) * 1024) = c * 1024 + min (k + r) 1024" for k by (simp add: min_def)
      from this [of "q0 mod 1024"] show ?thesis using q0 by (metis (no_types))
    qed
    then show ?thesis by (simp add: image_add_atLeastLessThan add.commute)
  qed
  have "page_flags m d f g (c * 1024 + k) = has_flags g (ent m (pt_of m d (of_nat c)) (of_nat k))" if "k < 1024" for k
    using that assms(2) by (simp add: page_flags_def)
  then show ?thesis unfolding im ball_simps(9) by simp
qed

lemma verify_pd_spec:
  fixes v :: u32
  defines "c0 \<equiv> unat (GET_PDE_INDEX v)"
  assumes wf: "pd_wf d s" and i: "i \<le> n" "c0 + n \<le> 1024"
    and f: "\<And>e. has_flags f e \<Longrightarrow> present e"
    and q: "q = (if i = 0 then unat v div 4096 else (c0 + i) * 1024)"
    and r: "q + r \<le> (c0 + n) * 1024" "i < n \<Longrightarrow> (c0 + n - 1) * 1024 < q + r \<and> 0 < r" "i = n \<Longrightarrow> r = 0"
  shows "verify_pd s (d + KERNEL_VADDR_BASE) v (GET_PDE_INDEX v) f g i n r =
    Inr (\<forall>p \<in> {q..<q + r}. page_flags (mem s) d f g p)"
  using i q r
proof (induction "n - i" arbitrary: i q r)
  case 0
  then show ?case by (subst verify_pd.simps) simp
next
  case (Suc k)
  note td = pd_wfD(1) [OF wf]
  have lt: "i < n" using Suc.hyps(2) by simp
  let ?c = "c0 + i"
  have cb: "?c < 1024" using lt Suc.prems(2) by simp
  have ci: "GET_PDE_INDEX v + of_nat i = of_nat ?c" by (simp add: c0_def)
  have qc: "q div 1024 = ?c" using Suc.prems(3) by (simp add: c0_def index_nat)
  have c1: "unat (of_nat ?c :: u32) < 1024" using cb unat_of_nat32 [of ?c] by linarith
  have jq: "(if i = 0 then unat (GET_PTE_INDEX (v + of_nat i * (1024 * PAGE_SIZE))) else 0) = q mod 1024"
    using Suc.prems(3) by (simp add: index_nat)
  let ?e = "ent (mem s) d (of_nat ?c)"
  have nob: "\<not> 1024 \<le> unat (GET_PDE_INDEX v) + i" using cb by (simp add: c0_def)
  have inq: "q \<in> {q..<q + r}" using Suc.prems(5) lt by simp
  show ?case
  proof (cases "has_flags f ?e")
    case False
    then have "verify_pd s (d + KERNEL_VADDR_BASE) v (GET_PDE_INDEX v) f g i n r = Inr False"
      using lt nob by (subst verify_pd.simps) (simp add: tbl_virt(4) [OF td] ci has_flags_def)
    moreover have "\<not> page_flags (mem s) d f g q" using False qc by (simp add: page_flags_def)
    ultimately show ?thesis using inq by auto
  next
    case True
    let ?t = "pt_of (mem s) d (of_nat ?c)"
    have tt: "tbl ?t" by (rule pd_wfD(3) [OF wf c1 f [OF True]])
    let ?ok = "\<forall>p \<in> {q..<min (q + r) ((?c + 1) * 1024)}. page_flags (mem s) d f g p"
    have vp: "verify_pt s (?t + KERNEL_VADDR_BASE) g (q mod 1024) r = (if ?ok then Some (r - (1024 - q mod 1024)) else None)"
      unfolding table_pages [OF qc True, symmetric] by (rule verify_pt_spec [OF tt]) simp
    have step: "verify_pd s (d + KERNEL_VADDR_BASE) v (GET_PDE_INDEX v) f g i n r =
        (if ?ok then verify_pd s (d + KERNEL_VADDR_BASE) v (GET_PDE_INDEX v) f g (i + 1) n (r - (1024 - q mod 1024)) else Inr False)"
      using lt nob True vp jq tbl_virt(1) [OF tt]
      by (subst verify_pd.simps) (simp add: tbl_virt(4) [OF td] ci has_flags_def pt_of_def Let_def)
    let ?r = "r - (1024 - q mod 1024)" and ?q = "(?c + 1) * 1024"
    have qq: "q = ?c * 1024 + q mod 1024" using div_mult_mod_eq [of q 1024] qc by simp
    show ?thesis
    proof (cases "q + r \<le> ?q")
      case last: True
      have "i + 1 = n"
      proof (rule ccontr)
        assume "i + 1 \<noteq> n"
        then have "?q \<le> (c0 + n - 1) * 1024" using lt by simp
        then show False using Suc.prems(5) lt last by simp
      qed
      moreover have "?r = 0" using last qq by simp
      ultimately have "verify_pd s (d + KERNEL_VADDR_BASE) v (GET_PDE_INDEX v) f g (i + 1) n ?r = Inr True"
        by (subst verify_pd.simps) simp
      moreover have "min (q + r) ?q = q + r" using last by simp
      ultimately show ?thesis using step by (simp only: if_True) auto
    next
      case more: False
      have r': "?q + ?r = q + r" using more qq mod_less_divisor [of 1024 q] by simp
      have ne: "i + 1 \<noteq> n"
      proof
        assume "i + 1 = n"
        then have "?q = (c0 + n) * 1024" by (simp add: algebra_simps)
        then show False using Suc.prems(4) more by simp
      qed
      have "verify_pd s (d + KERNEL_VADDR_BASE) v (GET_PDE_INDEX v) f g (i + 1) n ?r =
          Inr (\<forall>p \<in> {?q..<?q + ?r}. page_flags (mem s) d f g p)"
      proof (rule Suc.hyps(1))
        show "k = n - (i + 1)" "i + 1 \<le> n" "c0 + n \<le> 1024" using Suc.hyps(2) Suc.prems(2) lt by simp_all
        show "?q = (if i + 1 = 0 then unat v div 4096 else (c0 + (i + 1)) * 1024)" by simp
        show "?q + ?r \<le> (c0 + n) * 1024" using Suc.prems(4) r' by simp
        show "(c0 + n - 1) * 1024 < ?q + ?r \<and> 0 < ?r" using Suc.prems(5) lt r' more by linarith
        show "i + 1 = n \<Longrightarrow> ?r = 0" using ne by simp
      qed
      moreover have "{q..<q + r} = {q..<min (q + r) ?q} \<union> {?q..<?q + ?r}" using more r' qq by auto
      ultimately show ?thesis using step by (auto simp: ball_Un)
    qed
  qed
qed

text \<open>The pages that a range of bytes touches.\<close>

lemma last_page: "0 < n \<Longrightarrow> (v + n - 1) div 4096 + 1 = v div 4096 + (v mod 4096 + n + 4095) div (4096 :: nat)"
proof -
  assume n: "0 < n"
  have "v + n - 1 = 4096 * (v div 4096) + (v mod 4096 + n - 1)" using n by (simp add: mult.commute)
  then have "(v + n - 1) div 4096 = v div 4096 + (v mod 4096 + n - 1) div 4096" by simp
  moreover have "v mod 4096 + n + 4095 = (v mod 4096 + n - 1) + 4096" using n by simp
  then have "(v mod 4096 + n + 4095) div 4096 = (v mod 4096 + n - 1) div 4096 + 1" by simp
  ultimately show ?thesis by simp
qed

lemma range_pages:
  assumes "0 < n"
  shows "(\<forall>p \<in> {v div 4096..<v div 4096 + (v mod 4096 + n + 4095) div 4096}. P p) \<longleftrightarrow> (\<forall>a \<in> {v..<v + n}. P (a div (4096 :: nat)))"
proof -
  have "{v div 4096..<v div 4096 + (v mod 4096 + n + 4095) div 4096} = (\<lambda>a. a div 4096) ` {v..<v + n}"
  proof (intro equalityI subsetI)
    fix p assume p: "p \<in> {v div 4096..<v div 4096 + (v mod 4096 + n + 4095) div 4096}"
    let ?a = "max v (p * 4096)"
    have "?a div 4096 = p" using p by (auto simp: max_def)
    moreover have "?a < v + n"
    proof -
      have "p \<le> (v + n - 1) div 4096" using p last_page [OF assms, of v] by simp
      then have "p * 4096 \<le> v + n - 1" by (simp add: less_eq_div_iff_mult_less_eq)
      then show ?thesis using assms by auto
    qed
    ultimately show "p \<in> (\<lambda>a. a div 4096) ` {v..<v + n}" by (intro image_eqI [of _ _ ?a]) auto
  next
    fix p assume "p \<in> (\<lambda>a. a div 4096) ` {v..<v + n}"
    then obtain a where a: "p = a div 4096" "v \<le> a" "a \<le> v + n - 1" by auto
    have "v div 4096 \<le> p" "p \<le> (v + n - 1) div 4096" unfolding a(1) by (rule div_le_mono, fact)+
    then show "p \<in> {v div 4096..<v div 4096 + (v mod 4096 + n + 4095) div 4096}" using last_page [OF assms, of v] by simp
  qed
  then show ?thesis by simp
qed

lemma vmm_verify_range_flags_spec:
  assumes wf: "pd_wf d s" and nw: "unat v + unat n \<le> 2 ^ 32" "unat n \<le> 0xFFFFE000"
  shows "vmm_verify_range_flags (d + KERNEL_VADDR_BASE) v n f g s =
    Inr (\<forall>a. unat v \<le> unat a \<and> unat a < unat v + unat n \<longrightarrow>
      addr_flags (mem s) d (f OR PDE_PRESENT_BIT) (g OR PTE_PRESENT_BIT) a)"
proof (cases "n = 0")
  case True
  then show ?thesis by (auto simp: vmm_verify_range_flags_def)
next
  case False
  then have n: "0 < unat n" by (simp add: unat_gt_0)
  let ?v = "unat v" and ?n = "unat n" and ?f = "f OR PDE_PRESENT_BIT" and ?g = "g OR PTE_PRESENT_BIT"
  have one: "1 \<le> n" using n by (simp add: word_le_nat_alt Suc_le_eq)
  have e: "unat (v + n - 1) = ?v + ?n - 1"
  proof -
    have "unat (v + (n - 1)) = ?v + (?n - 1)" using nw(1) n one by (simp add: unat_add_nowrap unat_sub)
    then show ?thesis using n by (simp add: add_diff_eq)
  qed
  let ?c0 = "?v div 4096 div 1024" and ?c1 = "(?v + ?n - 1) div 4096 div 1024"
  have c: "?c0 \<le> ?c1" "?c1 < 1024"
    using n unat_32_bound [of "v + n - 1"] unfolding e
    by (auto intro!: div_le_mono simp: less_mult_imp_div_less)
  have rng: "unat (GET_PDE_INDEX (v + n - 1) - GET_PDE_INDEX v + 1) = ?c1 - ?c0 + 1"
  proof -
    have "unat (GET_PDE_INDEX (v + n - 1) - GET_PDE_INDEX v) = ?c1 - ?c0"
      using c by (simp add: unat_sub word_le_nat_alt index_nat e)
    moreover have "x - y + 1 < (2 :: nat) ^ 32" if "x < 1024" for x y :: nat using that by simp
    note this [OF c(2), of ?c0]
    ultimately show ?thesis using unat_suc_nowrap [of "GET_PDE_INDEX (v + n - 1) - GET_PDE_INDEX v"] by simp
  qed
  have pg: "unat (DIV_ROUND_UP (v mod PAGE_SIZE + n) PAGE_SIZE) = (?v mod 4096 + ?n + 4095) div 4096"
  proof -
    have m: "unat (v mod PAGE_SIZE) = ?v mod 4096" by (simp add: PAGE_SIZE_def unat_mod)
    have "unat (v mod PAGE_SIZE + n) = ?v mod 4096 + ?n"
      using m nw(2) mod_less_divisor [of 4096 ?v] by (simp add: unat_add_nowrap)
    then have "unat (v mod PAGE_SIZE + n + 4095) = ?v mod 4096 + ?n + 4095"
      using nw(2) mod_less_divisor [of 4096 ?v] by (simp add: unat_add_nowrap)
    moreover have "v mod PAGE_SIZE + n + PAGE_SIZE - 1 = v mod PAGE_SIZE + n + 4095" by (simp add: PAGE_SIZE_def)
    ultimately show ?thesis by (simp only: DIV_ROUND_UP_def unat_div) (simp add: PAGE_SIZE_def)
  qed
  let ?r = "(?v mod 4096 + ?n + 4095) div 4096"
  have lp: "?v div 4096 + ?r = (?v + ?n - 1) div 4096 + 1" using last_page [OF n, of ?v] by simp
  have "verify_pd s (d + KERNEL_VADDR_BASE) v (GET_PDE_INDEX v) ?f ?g 0 (?c1 - ?c0 + 1) ?r =
      Inr (\<forall>p \<in> {?v div 4096..<?v div 4096 + ?r}. page_flags (mem s) d ?f ?g p)"
  proof (rule verify_pd_spec [OF wf])
    show "unat (GET_PDE_INDEX v) + (?c1 - ?c0 + 1) \<le> 1024" using c by (simp add: index_nat)
    show "present e" if "has_flags ?f e" for e by (rule has_flags_present [OF that])
    have b: "(?v + ?n - 1) div 4096 < (?c1 + 1) * 1024" "?c1 * 1024 \<le> (?v + ?n - 1) div 4096"
      by (simp_all add: div_less_iff_less_mult [symmetric] less_eq_div_iff_mult_less_eq [symmetric])
    show "?v div 4096 + ?r \<le> (unat (GET_PDE_INDEX v) + (?c1 - ?c0 + 1)) * 1024"
      unfolding lp index_nat using b(1) c(1) by simp
    show "(unat (GET_PDE_INDEX v) + (?c1 - ?c0 + 1) - 1) * 1024 < ?v div 4096 + ?r \<and> 0 < ?r"
      unfolding lp index_nat using b(2) c(1) n by (simp add: div_greater_zero_iff less_Suc_eq_le)
  qed simp_all
  then have "vmm_verify_range_flags (d + KERNEL_VADDR_BASE) v n f g s =
      Inr (\<forall>a \<in> {?v..<?v + ?n}. page_flags (mem s) d ?f ?g (a div 4096))"
    using False rng pg unfolding range_pages [OF n] by (simp add: vmm_verify_range_flags_def Let_def)
  moreover have "(\<forall>a \<in> {?v..<?v + ?n}. page_flags (mem s) d ?f ?g (a div 4096)) \<longleftrightarrow>
      (\<forall>a. ?v \<le> unat a \<and> unat a < ?v + ?n \<longrightarrow> addr_flags (mem s) d ?f ?g a)"
  proof (intro iffI ballI allI impI)
    fix a assume *: "\<forall>a. ?v \<le> unat a \<and> unat a < ?v + ?n \<longrightarrow> addr_flags (mem s) d ?f ?g a" "a \<in> {?v..<?v + ?n}"
    have "unat (of_nat a :: u32) = a" using *(2) nw(1) by (intro unat_of_nat32) simp
    then show "page_flags (mem s) d ?f ?g (a div 4096)"
      using spec [OF *(1), of "of_nat a"] *(2) by (simp add: addr_page_flags)
  qed (auto simp: addr_page_flags)
  ultimately show ?thesis by simp
qed

end
