(* ===== verification/Vmm_Spec.thy ===== *)
theory Vmm_Spec
  imports Vmm_Range
begin

text \<open>
  What address spaces promise to their clients, as an interface, and the theorems about
  \<^verbatim>\<open>vmm_map_page\<close>, \<^verbatim>\<open>vmm_unmap_page\<close>, \<^verbatim>\<open>vmm_get_mapping\<close> and \<^verbatim>\<open>vmm_verify_range_flags\<close>.
\<close>

section \<open>Interface\<close>

locale address_space =
  fixes inv :: "'s \<Rightarrow> bool"
    and lookup :: "'s \<Rightarrow> u32 \<Rightarrow> u32"
    and map_page :: "u32 \<Rightarrow> u32 \<Rightarrow> u32 \<Rightarrow> 's \<Rightarrow> (bool \<times> 's) kres"
    and unmap_page :: "u32 \<Rightarrow> 's \<Rightarrow> (bool \<times> 's) kres"
    and same_page :: "u32 \<Rightarrow> u32 \<Rightarrow> bool"
    and user_addr :: "u32 \<Rightarrow> bool"
    and frame_ok :: "u32 \<Rightarrow> u32 \<Rightarrow> bool"
  assumes map_total: "inv s \<Longrightarrow> frame_ok p fl \<Longrightarrow> \<exists>ok s'. map_page v p fl s = Inr (ok, s')"
    and map_ok: "inv s \<Longrightarrow> frame_ok p fl \<Longrightarrow> map_page v p fl s = Inr (True, s') \<Longrightarrow>
          inv s' \<and> (\<forall>w. lookup s' w = (if same_page v w then p + (w AND 0xFFF) else lookup s w))"
    and map_failed: "inv s \<Longrightarrow> frame_ok p fl \<Longrightarrow> map_page v p fl s = Inr (False, s') \<Longrightarrow> s' = s"
    and unmap_ok: "inv s \<Longrightarrow> user_addr v \<Longrightarrow> \<exists>ok s'. unmap_page v s = Inr (ok, s') \<and> inv s' \<and>
          (\<forall>w. lookup s' w = (if same_page v w then 0 else lookup s w))"
begin

lemma map_unmap:
  assumes "inv s" and "frame_ok p fl" and "user_addr v" and "\<And>w. same_page v w \<Longrightarrow> lookup s w = 0"
    and m: "map_page v p fl s = Inr (True, s1)"
  shows "\<exists>ok s2. unmap_page v s1 = Inr (ok, s2) \<and> inv s2 \<and> lookup s2 = lookup s"
proof -
  note s1 = map_ok [OF assms(1,2) m]
  obtain ok s2 where "unmap_page v s1 = Inr (ok, s2)" "inv s2"
    "\<forall>w. lookup s2 w = (if same_page v w then 0 else lookup s1 w)"
    using unmap_ok [OF conjunct1 [OF s1] assms(3)] by (elim exE conjE) (rule that)
  moreover from this(3) s1 assms(4) have "lookup s2 = lookup s" by auto
  ultimately show ?thesis by blast
qed

text \<open>The loop of a client that maps several pages and stops at the first failure.\<close>

fun map_pages :: "(u32 \<times> u32) list \<Rightarrow> u32 \<Rightarrow> 's \<Rightarrow> (bool \<times> 's) kres" where
  "map_pages [] fl s = Inr (True, s)"
| "map_pages ((v, p) # vps) fl s = kbind (map_page v p fl s) (\<lambda>(ok, s'). if ok then map_pages vps fl s' else Inr (False, s'))"

lemma map_pages_ok:
  assumes "inv s" and "\<forall>(v, p) \<in> set vps. frame_ok p fl" and "sorted_wrt (\<lambda>(v, _) (w, _). \<not> same_page v w \<and> \<not> same_page w v) vps"
    and "\<And>v w x. same_page v x \<Longrightarrow> same_page w x \<Longrightarrow> same_page v w"
  shows "\<exists>ok s'. map_pages vps fl s = Inr (ok, s') \<and> inv s' \<and>
    (ok \<longrightarrow> (\<forall>(v, p) \<in> set vps. \<forall>w. same_page v w \<longrightarrow> lookup s' w = p + (w AND 0xFFF))) \<and>
    (\<forall>w. (\<forall>(v, p) \<in> set vps. \<not> same_page v w) \<longrightarrow> lookup s' w = lookup s w)"
  using assms(1,2,3)
proof (induction vps fl s rule: map_pages.induct)
  case (1 fl s)
  then show ?case by (intro exI [of _ True] exI [of _ s]) simp
next
  case (2 v p vps fl s)
  have fr: "frame_ok p fl" using 2(3) by simp
  obtain ok s1 where m: "map_page v p fl s = Inr (ok, s1)" using map_total [OF 2(2) fr] by blast
  show ?case
  proof (cases ok)
    case False
    then have "s1 = s" using map_failed [OF 2(2) fr] m by simp
    then show ?thesis using m False 2(2) by (intro exI [of _ False] exI [of _ s]) simp
  next
    case True
    have "map_page v p fl s = Inr (True, s1)" using m True by simp
    note s1 = map_ok [OF 2(2) fr this]
    obtain ok2 s2 where r: "map_pages vps fl s1 = Inr (ok2, s2)" "inv s2"
      "ok2 \<longrightarrow> (\<forall>(v, p) \<in> set vps. \<forall>w. same_page v w \<longrightarrow> lookup s2 w = p + (w AND 0xFFF))"
      "\<forall>w. (\<forall>(v, p) \<in> set vps. \<not> same_page v w) \<longrightarrow> lookup s2 w = lookup s1 w"
      using "2.IH" [of ok s1] True s1 2(3,4) by (simp add: case_prod_beta) blast
    have "lookup s2 w = p + (w AND 0xFFF)" if "same_page v w" for w
    proof -
      have "\<not> same_page x w" if "(x, y) \<in> set vps" for x y
        using assms(4) [of v w x] \<open>same_page v w\<close> 2(4) that by fastforce
      then have "lookup s2 w = lookup s1 w" using r(4) by blast
      then show ?thesis using s1 that by simp
    qed
    then show ?thesis using m r True s1 by (intro exI [of _ ok2] exI [of _ s2]) auto
  qed
qed

end

section \<open>The page tables implement the interface\<close>

definition user_index :: "u32 \<Rightarrow> bool" where
  "user_index v \<longleftrightarrow> dyn_index (GET_PDE_INDEX v)"

definition frame_ok :: "u32 \<Rightarrow> u32 \<Rightarrow> bool" where
  "frame_ok p fl \<longleftrightarrow> unat p mod 4096 = 0 \<and> unat fl < 4096 \<and> present fl"

lemma frame_okD: assumes "frame_ok p fl" shows "unat p mod 4096 = 0" "unat fl < 4096" "present fl"
  using assms by (auto simp: frame_ok_def)

interpretation vmm: address_space "space_ok d" "\<lambda>s v. xlate (mem s) d v" "vmm_map_page d" "vmm_unmap_page d"
  page_addr_is_same_page user_index frame_ok for d
proof
  fix s s' :: vmm_state and p fl v :: u32
  assume sp: "space_ok d s"
  show "\<exists>ok s'. vmm_unmap_page d v s = Inr (ok, s') \<and> space_ok d s' \<and>
      (\<forall>w. xlate (mem s') d w = (if page_addr_is_same_page v w then 0 else xlate (mem s) d w))" if "user_index v"
  proof (cases "mapped (mem s) d v")
    case True
    then show ?thesis using vmm_unmap_page_spec [OF sp, of v] that by (fastforce simp: user_index_def)
  next
    case False
    have "vmm_unmap_page d v s = Inr (False, s)"
      using vmm_unmap_page_spec [OF sp, of v] that False by (auto simp: user_index_def)
    moreover have "xlate (mem s) d w = 0" if "page_addr_is_same_page v w" for w
      using unmapped_xlate [of "mem s" d w] False that by (auto simp: mapped_def same_page_index)
    ultimately show ?thesis using sp by auto
  qed
  assume f: "frame_ok p fl"
  note spec = vmm_map_page_spec [OF sp frame_okD [OF f], of v]
  from spec show "\<exists>ok s'. vmm_map_page d v p fl s = Inr (ok, s')" by blast
  from spec show "vmm_map_page d v p fl s = Inr (True, s') \<Longrightarrow> space_ok d s' \<and>
      (\<forall>w. xlate (mem s') d w = (if page_addr_is_same_page v w then p + (w AND 0xFFF) else xlate (mem s) d w))"
    by auto
  from spec show "vmm_map_page d v p fl s = Inr (False, s') \<Longrightarrow> s' = s" by auto
qed

lemma space_ok_get_mapping: "space_ok d s \<Longrightarrow> vmm_get_mapping d v s = Inr (xlate (mem s) d v)"
  using vmm_get_mapping_xlate by (simp add: space_ok_def)

section \<open>Theorems\<close>

text \<open>C5. Mapping a page: \<^verbatim>\<open>vmm_map_page\<close> never panics on a well-formed address space. It refuses, changing
  nothing, only when the page table is missing and no page of low memory is free for one. Otherwise the address space
  stays well formed, every address of the mapped page translates to the frame, every other address
  translates as before, and when the directory is the active one the stale translation is flushed.\<close>

theorem vmm_map_page_correct:
  assumes "space_ok d s" and "frame_ok p fl"
  shows "\<exists>ok s'. vmm_map_page d v p fl s = Inr (ok, s') \<and>
    (if ok then space_ok d s' \<and>
       (\<forall>w. vmm_get_mapping d w s' =
          (if page_addr_is_same_page v w then Inr (p + (w AND 0xFFF)) else vmm_get_mapping d w s)) \<and>
       (cr3 s = d \<longrightarrow> tlb_log s' \<in> {RELOAD_CR3 d # tlb_log s, INVLPG v # tlb_log s})
     else s' = s \<and> vmm_get_mapping d v s = Inr 0 \<and> (\<forall>q \<in> free_pages (vm_buddy s). zone_of q \<noteq> LOWMEM_ZONE))"
proof -
  obtain ok s' where r: "vmm_map_page d v p fl s = Inr (ok, s')"
    "if ok then space_ok d s' \<and> (\<forall>w. xlate (mem s') d w =
        (if page_addr_is_same_page v w then p + (w AND 0xFFF) else xlate (mem s) d w)) \<and>
        cr3 s' = cr3 s \<and>
        (if cr3 s = d then tlb_log s' \<in> {RELOAD_CR3 d # tlb_log s, INVLPG v # tlb_log s} else tlb_log s' = tlb_log s)
     else s' = s \<and> xlate (mem s) d v = 0 \<and> (\<forall>q \<in> free_pages (vm_buddy s). zone_of q \<noteq> LOWMEM_ZONE)"
    using vmm_map_page_spec [OF assms(1) frame_okD [OF assms(2)], of v] by (elim exE conjE) (rule that)
  show ?thesis
    by (intro exI [of _ ok] exI [of _ s'] conjI r(1)) (use r(2) assms(1) in \<open>auto simp: space_ok_get_mapping split: if_splits\<close>)
qed

text \<open>An address space with an empty directory, in the state where four pages are free.\<close>

lemma example_space:
  "\<exists>s. space_ok 0x1000 s \<and> free_pages (vm_buddy s) = {8192, 8193, 8194, 8195} \<and> mem s = (\<lambda>_. 0) \<and> cr3 s = 0x1000"
proof -
  obtain b where b: "buddy_inv b" "free_pages b = {8192, 8193, 8194, 8195}" using example_state by blast
  let ?s = "\<lparr>vm_buddy = b, mem = (\<lambda>_. 0), cr3 = 0x1000, tlb_log = [], kpage_dir = 0\<rparr>"
  have "ent (mem ?s) d i = 0" for d i by (simp add: ent_def)
  then have "space_ok 0x1000 ?s"
    using b by (simp add: space_ok_def pd_wf_def tables_owned_def tbl_def page_addr_to_page_div)
  then show ?thesis using b(2) by (intro exI [of _ ?s]) simp
qed

lemma example_frame: "frame_ok 0x40000000 7"
  by (simp add: frame_ok_def present_def FLAG_IS_SET_def PDE_PRESENT_BIT_def)

lemma example_mapped:
  "\<exists>s s'. space_ok 0x1000 s \<and> mem s = (\<lambda>_. 0) \<and> vmm_map_page 0x1000 0x8048000 0x40000000 7 s = Inr (True, s')"
proof -
  obtain s where s: "space_ok 0x1000 s" "free_pages (vm_buddy s) = {8192, 8193, 8194, 8195}" "mem s = (\<lambda>_. 0)"
    using example_space by blast
  have "8192 \<in> free_pages (vm_buddy s)" using s(2) by simp
  then have "\<not> (\<forall>q \<in> free_pages (vm_buddy s). zone_of q \<noteq> LOWMEM_ZONE)" using example_zone by blast
  moreover obtain ok s' where "vmm_map_page 0x1000 0x8048000 0x40000000 7 s = Inr (ok, s')"
    "\<not> ok \<longrightarrow> (\<forall>q \<in> free_pages (vm_buddy s). zone_of q \<noteq> LOWMEM_ZONE)"
    using vmm_map_page_spec [OF s(1) frame_okD [OF example_frame], of "0x8048000"] by (auto split: if_splits)
  ultimately show ?thesis using s(1,3) by (cases ok) auto
qed

theorem vmm_map_page_correct_witness:
  "\<exists>s ok s'. vmm_map_page 0x1000 0x8048000 0x40000000 7 s = Inr (ok, s') \<and> ok \<and>
     vmm_get_mapping 0x1000 0x8048123 s' = Inr 0x40000123"
proof -
  obtain s s1 where s: "space_ok 0x1000 s" "vmm_map_page 0x1000 0x8048000 0x40000000 7 s = Inr (True, s1)"
    using example_mapped by blast
  have "\<forall>w. vmm_get_mapping 0x1000 w s1 = (if page_addr_is_same_page 0x8048000 w then Inr (0x40000000 + (w AND 0xFFF))
      else vmm_get_mapping 0x1000 w s)"
    using vmm_map_page_correct [OF s(1) example_frame, of "0x8048000"] s(2) by auto
  then have "vmm_get_mapping 0x1000 0x8048123 s1 = Inr 0x40000123"
    by (simp add: page_addr_is_same_page_def PAGE_SIZE_def)
  then show ?thesis using s(2) by blast
qed

text \<open>C18. Unmapping a page outside the kernel's linear map: it reports whether the page was mapped. If not, nothing
  changes. If so, no address of the page translates any more, every other address translates as before and the
  address space stays well formed; in memory only the entry of the page is cleared, unless it was the last one of its
  table: then the entry of the table in the directory is cleared too and exactly the frame of the table becomes
  free. The translation cache entry of the page is invalidated, and the whole cache when a table of the current
  directory went.\<close>

theorem vmm_unmap_page_correct:
  assumes "space_ok d s" and "user_index v"
  shows "\<exists>s'. vmm_unmap_page d v s = Inr (mapped (mem s) d v, s') \<and> space_ok d s' \<and>
    (\<forall>w. vmm_get_mapping d w s' = (if page_addr_is_same_page v w then Inr 0 else vmm_get_mapping d w s)) \<and>
    (\<not> mapped (mem s) d v \<longrightarrow> s' = s) \<and>
    (mapped (mem s) d v \<longrightarrow>
      (let t = pt_of (mem s) d (GET_PDE_INDEX v); last = only_entry (mem s) d v;
           m = (mem s)(t + GET_PTE_INDEX v * 4 := 0) in
       mem s' = (if last then m(d + GET_PDE_INDEX v * 4 := 0) else m) \<and>
       free_pages (vm_buddy s') = (if last then insert (page_addr_to_page t) (free_pages (vm_buddy s)) else free_pages (vm_buddy s)) \<and>
       tlb_log s' = (if last \<and> d = cr3 s then [RELOAD_CR3 d] else []) @ INVLPG v # tlb_log s))"
proof -
  obtain s' where s': "vmm_unmap_page d v s = Inr (mapped (mem s) d v, s')" "space_ok d s'"
    "\<forall>w. xlate (mem s') d w = (if page_addr_is_same_page v w then 0 else xlate (mem s) d w)"
    using vmm.unmap_ok [OF assms] vmm_unmap_page_spec [OF assms(1), of v] assms(2) unfolding user_index_def by fastforce
  have more: "if mapped (mem s) d v then unmap_effect d v s s' else s' = s"
    using vmm_unmap_page_spec [OF assms(1), of v] assms(2) s'(1) unfolding user_index_def by (auto split: if_splits)
  show ?thesis
    by (intro exI [of _ s'] conjI s'(1,2) impI)
      (use s'(2,3) more assms(1) in \<open>simp_all add: space_ok_get_mapping unmap_effect_def [symmetric]\<close>)
qed

theorem vmm_unmap_page_correct_witness:
  "\<exists>s s'. vmm_unmap_page 0x1000 0x8048000 s = Inr (mapped (mem s) 0x1000 0x8048000, s') \<and>
     vmm_get_mapping 0x1000 0x8048123 s' = Inr 0"
proof -
  obtain s s1 where s: "space_ok 0x1000 s" "vmm_map_page 0x1000 0x8048000 0x40000000 7 s = Inr (True, s1)"
    using example_mapped by blast
  have sp: "space_ok 0x1000 s1" using vmm.map_ok [OF s(1) example_frame s(2)] by blast
  have "user_index 0x8048000" by (simp add: user_index_def dyn_index_def index_nat)
  then obtain s2 where s2: "vmm_unmap_page 0x1000 0x8048000 s1 = Inr (mapped (mem s1) 0x1000 0x8048000, s2)"
    "\<forall>w. vmm_get_mapping 0x1000 w s2 = (if page_addr_is_same_page 0x8048000 w then Inr 0 else vmm_get_mapping 0x1000 w s1)"
    using vmm_unmap_page_correct [OF sp] by blast
  have "vmm_get_mapping 0x1000 0x8048123 s2 = Inr 0" using s2(2) by (simp add: page_addr_is_same_page_def PAGE_SIZE_def)
  then show ?thesis using s2(1) by blast
qed

text \<open>C19. Mapping a page that was not mapped and unmapping it again gives back the translation of every
  address.\<close>

theorem vmm_map_unmap_roundtrip:
  assumes "space_ok d s" and "frame_ok p fl" and "user_index v"
    and "\<forall>w. page_addr_is_same_page v w \<longrightarrow> vmm_get_mapping d w s = Inr 0"
    and "vmm_map_page d v p fl s = Inr (True, s1)"
  shows "\<exists>ok s2. vmm_unmap_page d v s1 = Inr (ok, s2) \<and> space_ok d s2 \<and>
    (\<forall>w. vmm_get_mapping d w s2 = vmm_get_mapping d w s)"
proof -
  have "xlate (mem s) d w = 0" if "page_addr_is_same_page v w" for w
    using assms(4) that space_ok_get_mapping [OF assms(1), of w] by simp
  from vmm.map_unmap [OF assms(1-3) this assms(5)] obtain ok s2 where r: "vmm_unmap_page d v s1 = Inr (ok, s2)"
    "space_ok d s2" "(\<lambda>w. xlate (mem s2) d w) = (\<lambda>w. xlate (mem s) d w)" by blast
  then show ?thesis
    using space_ok_get_mapping [OF assms(1)] space_ok_get_mapping [OF r(2)] fun_cong [OF r(3)] by metis
qed

theorem vmm_map_unmap_roundtrip_witness:
  "\<exists>s s1 ok s2. vmm_map_page 0x1000 0x8048000 0x40000000 7 s = Inr (True, s1) \<and>
     vmm_unmap_page 0x1000 0x8048000 s1 = Inr (ok, s2) \<and> (\<forall>w. vmm_get_mapping 0x1000 w s2 = Inr 0)"
proof -
  obtain s s1 where s: "space_ok 0x1000 s" "mem s = (\<lambda>_. 0)" "vmm_map_page 0x1000 0x8048000 0x40000000 7 s = Inr (True, s1)"
    using example_mapped by blast
  have u: "user_index 0x8048000" by (simp add: user_index_def dyn_index_def index_nat)
  have e: "vmm_get_mapping 0x1000 w s = Inr 0" for w
    using space_ok_get_mapping [OF s(1)] s(2) by (simp add: xlate_def ent_def)
  then show ?thesis using vmm_map_unmap_roundtrip [OF s(1) example_frame u _ s(3)] s(3) by metis
qed

text \<open>C21. The check of a range of user memory agrees with its page-by-page meaning: for a range that does not
  wrap it answers yes exactly when every byte lies in a page whose directory entry and table entry are
  present and carry the requested flags, and it never leaves the tables.\<close>

theorem vmm_verify_range_flags_correct:
  assumes "pd_wf d s" and "unat v + unat n \<le> 2 ^ 32" and "unat n \<le> 0xFFFFE000"
  shows "vmm_verify_range_flags (d + KERNEL_VADDR_BASE) v n f g s =
    Inr (\<forall>a. unat v \<le> unat a \<and> unat a < unat v + unat n \<longrightarrow>
      addr_flags (mem s) d (f OR PDE_PRESENT_BIT) (g OR PTE_PRESENT_BIT) a)"
  using assms by (rule vmm_verify_range_flags_spec)

theorem vmm_verify_range_flags_correct_witness:
  "\<exists>s. vmm_verify_range_flags (0x1000 + KERNEL_VADDR_BASE) 0x8048000 16 4 4 s = Inr False"
proof -
  obtain s where s: "space_ok 0x1000 s" "mem s = (\<lambda>_. 0)" using example_space by blast
  have wf: "pd_wf 0x1000 s" using s(1) by (simp add: space_ok_def)
  have n: "\<not> addr_flags (mem s) 0x1000 (4 OR PDE_PRESENT_BIT) g a" for g a
    using s(2) by (simp add: addr_flags_def has_flags_def ent_def PDE_PRESENT_BIT_def)
  have "\<not> (\<forall>a. unat (0x8048000 :: u32) \<le> unat a \<and> unat a < unat (0x8048000 :: u32) + unat (16 :: u32) \<longrightarrow>
      addr_flags (mem s) 0x1000 (4 OR PDE_PRESENT_BIT) (4 OR PTE_PRESENT_BIT) a)"
    using n by (auto intro!: exI [of _ "0x8048000 :: u32"])
  then show ?thesis
    using vmm_verify_range_flags_correct [OF wf, of "0x8048000" 16 4 4] by (intro exI [of _ s]) simp
qed

end
