(* ===== verification/Boot_Init.thy ===== *)
theory Boot_Init
  imports Boot_Allocator
begin

text \<open>
  The initialisation of the boot allocator as a whole: which memory is free and which is reserved once
  \<^verbatim>\<open>boot_allocator_init\<close> has run, in terms of the memory map of the loader and of the ranges the kernel itself keeps.
\<close>

section \<open>The ranges of the memory map\<close>

definition entry_reg :: "mmap_entry \<Rightarrow> region" where
  "entry_reg e = \<lparr>r_start = ucast (me_addr e), r_end = ucast (ucast (ucast (me_addr e) :: u32) + me_len e)\<rparr>"

definition ram_regs :: "mmap_entry list \<Rightarrow> region list" where
  "ram_regs mmap = map entry_reg (filter (\<lambda>e. me_type e = 1) mmap)"

text \<open>What the kernel keeps for itself: the video memory, the descriptor tables, the low memory, its image and the boot
  information.\<close>

definition phys_range :: "u32 \<Rightarrow> u32 \<Rightarrow> region" where
  "phys_range s e = \<lparr>r_start = s - KERNEL_VADDR_BASE, r_end = e - KERNEL_VADDR_BASE\<rparr>"

definition kernel_regs :: "boot_env \<Rightarrow> region list" where
  "kernel_regs e = [\<lparr>r_start = 0xa0000, r_end = 0x100000\<rparr>,
     phys_range (gdt_base e) (gdt_base e + ucast (gdt_limit e) + 1),
     phys_range (idt_base e) (idt_base e + ucast (idt_limit e) + 1),
     \<lparr>r_start = 0, r_end = 0x1000\<rparr>, \<lparr>r_start = 0x1000, r_end = 0x9fc00\<rparr>,
     phys_range (kernel_start e) (kernel_end e),
     \<lparr>r_start = mb2info e, r_end = mb2info e + mb2_total_size e\<rparr>]"

definition kept_regs :: "boot_env \<Rightarrow> mmap_entry list \<Rightarrow> region list" where
  "kept_regs e mmap = filter (\<lambda>r. r_start r \<noteq> r_end r)
     (kernel_regs e @ map entry_reg (filter (\<lambda>e. me_type e \<noteq> 1) mmap))"

definition virt_ok :: "boot_env \<Rightarrow> bool" where
  "virt_ok e \<longleftrightarrow> KERNEL_VADDR_BASE \<le> gdt_base e \<and> KERNEL_VADDR_BASE \<le> gdt_base e + ucast (gdt_limit e) + 1 \<and>
     KERNEL_VADDR_BASE \<le> idt_base e \<and> KERNEL_VADDR_BASE \<le> idt_base e + ucast (idt_limit e) + 1 \<and>
     KERNEL_VADDR_BASE \<le> kernel_start e \<and> KERNEL_VADDR_BASE \<le> kernel_end e"

text \<open>
  What the initialisation relies on: the addresses of the kernel are in the linear map, no range is reversed, nothing ends
  where a reserved range up to 4 GiB begins, the ranges of RAM are disjoint, and there are few enough of them for the tables. The tables of the
  zones are in zeroed memory.
\<close>

definition boot_input_ok :: "boot_env \<Rightarrow> mmap_entry list \<Rightarrow> bool" where
  "boot_input_ok e mmap \<longleftrightarrow> virt_ok e \<and>
     (\<forall>r \<in> set (kept_regs e mmap). r_start r \<le> r_end r \<or> r_end r = 0) \<and> tame (kept_regs e mmap) \<and>
     disjoint_regions (ram_regs mmap) \<and>
     length (ram_regs mmap) * (length (kept_regs e mmap) + 1) + length (kept_regs e mmap) \<le> 128"

section \<open>Reserved ranges\<close>

fun iter_regs :: "region list \<Rightarrow> (u32 \<Rightarrow> u32 \<Rightarrow> 's \<Rightarrow> 's kres) \<Rightarrow> 's \<Rightarrow> 's kres" where
  "iter_regs [] h s = Inr s"
| "iter_regs (r # rs) h s = kbind (h (r_start r) (r_end r) s) (iter_regs rs h)"

lemma mb2_mmap_iter_regs:
  "mb2_mmap_iter es h free = iter_regs (map entry_reg (filter (\<lambda>e. (me_type e = 1) = free) es)) h"
proof (induction es)
  case (Cons e es)
  then show ?case by (cases free; intro ext) (simp_all add: entry_reg_def Let_def)
qed (simp add: fun_eq_iff)

definition with_rsv :: "region list \<Rightarrow> boot_state \<Rightarrow> boot_state" where
  "with_rsv rs b = b\<lparr>regions := (regions b)(RESERVED_MEMORY := rs)\<rparr>"

lemma with_rsv_simps [simp]:
  "regions (with_rsv rs b) RESERVED_MEMORY = rs" "with_rsv rs' (with_rsv rs b) = with_rsv rs' b"
  "k \<noteq> RESERVED_MEMORY \<Longrightarrow> regions (with_rsv rs b) k = regions b k"
  "with_rsv (regions b RESERVED_MEMORY) b = b"
  by (simp_all add: with_rsv_def)

abbreviation some_range :: "region \<Rightarrow> bool" where
  "some_range r \<equiv> r_start r \<noteq> r_end r"

lemma region_eta [simp]: "\<lparr>r_start = r_start r, r_end = r_end r\<rparr> = r"
  by simp

lemma add_region_rsv:
  assumes "s = e \<or> s \<le> e \<or> e = 0" and "length (regions b RESERVED_MEMORY) < MAX_REGIONS"
  shows "boot_allocator_add_region s e RESERVED_MEMORY b =
    Inr (with_rsv (regions b RESERVED_MEMORY @ filter some_range [\<lparr>r_start = s, r_end = e\<rparr>]) b)"
  using assms by (auto simp: boot_allocator_add_region_def with_rsv_def)

lemma iter_reserved:
  assumes "\<forall>r \<in> set (filter some_range rs). r_start r \<le> r_end r \<or> r_end r = 0"
    and "length (regions b RESERVED_MEMORY @ filter some_range rs) < MAX_REGIONS"
  shows "iter_regs rs boot_allocator_reserved_wrapper b =
    Inr (with_rsv (regions b RESERVED_MEMORY @ filter some_range rs) b)"
  using assms
proof (induction rs arbitrary: b)
  case (Cons r rs)
  then show ?case
    by (cases "some_range r") (simp_all add: boot_allocator_reserved_wrapper_def add_region_rsv)
qed simp

lemma kbind_Inr_right [simp]: "kbind m Inr = m"
  by (simp add: kbind_def split: sum.split)

lemma iter_regs_fun: "iter_regs [] h = Inr" "iter_regs (r # rs) h = (\<lambda>s. kbind (h (r_start r) (r_end r) s) (iter_regs rs h))"
  by (simp_all add: fun_eq_iff)

lemma add_reserved_iter:
  assumes "virt_ok e"
  shows "add_reserved_ranges e b = iter_regs (kernel_regs e) boot_allocator_reserved_wrapper b"
  using assms
  by (simp add: add_reserved_ranges_def kernel_regs_def boot_allocator_reserved_wrapper_def add_virt_region_def
      VIRT_TO_PHYS_LINEAR_def virt_ok_def phys_range_def iter_regs_fun del: iter_regs.simps)

lemma iter_append: "iter_regs (xs @ ys) h s = kbind (iter_regs xs h s) (iter_regs ys h)"
  by (induction xs arbitrary: s) (simp_all add: kbind_def split: sum.split)

text \<open>Both steps that fill the table of reserved regions.\<close>

lemma reserved_phase:
  assumes "boot_input_ok e mmap" and "regions b RESERVED_MEMORY = []"
  shows "kbind (add_reserved_ranges e b) (mb2_mmap_iter mmap boot_allocator_reserved_wrapper False) =
    Inr (with_rsv (kept_regs e mmap) b)"
proof -
  let ?rs = "kernel_regs e @ map entry_reg (filter (\<lambda>e. me_type e \<noteq> 1) mmap)"
  have "kbind (add_reserved_ranges e b) (mb2_mmap_iter mmap boot_allocator_reserved_wrapper False) =
      iter_regs ?rs boot_allocator_reserved_wrapper b"
    using assms(1) by (simp add: boot_input_ok_def add_reserved_iter iter_append mb2_mmap_iter_regs)
  also have "\<dots> = Inr (with_rsv (kept_regs e mmap) b)"
    using iter_reserved [of ?rs b] assms by (simp add: boot_input_ok_def kept_regs_def MAX_REGIONS_def)
  finally show ?thesis .
qed

section \<open>Free memory\<close>

lemma iter_free:
  assumes "sorted_regions (regions b RESERVED_MEMORY)" and "tame (regions b RESERVED_MEMORY)"
    and "strict (regions b FREE_MEMORY)" and "\<forall>a. hits a (regions b FREE_MEMORY) + hits a rs \<le> 1"
    and "length (regions b FREE_MEMORY) + length rs * (length (regions b RESERVED_MEMORY) + 1) + length (regions b RESERVED_MEMORY) < MAX_REGIONS"
  shows "\<exists>fs. iter_regs rs boot_allocator_free_handler b = Inr (with_free fs b) \<and>
    (\<forall>a. hits a fs = hits a (regions b FREE_MEMORY) + (if a \<in> cover (regions b RESERVED_MEMORY) then 0 else hits a rs)) \<and>
    strict fs \<and> length fs \<le> length (regions b FREE_MEMORY) + length rs * (length (regions b RESERVED_MEMORY) + 1)"
  using assms
proof (induction rs arbitrary: b)
  case Nil
  then show ?case by (intro exI [of _ "regions b FREE_MEMORY"]) simp
next
  case (Cons r rs)
  let ?R = "regions b RESERVED_MEMORY" and ?F = "regions b FREE_MEMORY"
  have "cover ?F \<inter> {r_start r ..< r_end r} = {}"
  proof -
    have False if "a \<in> cover ?F" "a \<in> {r_start r ..< r_end r}" for a
      using Cons.prems(4) [rule_format, of a] that by (simp add: cover_hits)
    then show ?thesis by blast
  qed
  then obtain fs where fs: "boot_allocator_free_handler (r_start r) (r_end r) b = Inr (with_free fs b)"
    "\<And>a. hits a fs = hits a ?F + of_bool (a \<in> {r_start r ..< r_end r} - cover ?R)" "strict fs"
    "length fs \<le> Suc (length ?F + length ?R)"
    using free_handler_loop_spec [OF Cons.prems(1-3), of "r_start r" "r_end r"] Cons.prems(5)
    unfolding boot_allocator_free_handler_def by auto
  have "hits a fs + hits a rs \<le> 1" for a
    using Cons.prems(4) [rule_format, of a] fs(2) [of a] by (auto simp: of_bool_def split: if_splits)
  then obtain gs where gs: "iter_regs rs boot_allocator_free_handler (with_free fs b) = Inr (with_free gs b)"
    "\<And>a. hits a gs = hits a fs + (if a \<in> cover ?R then 0 else hits a rs)" "strict gs"
    "length gs \<le> length fs + length rs * (length ?R + 1)"
    using Cons.IH [of "with_free fs b"] Cons.prems(1,2,5) fs(3,4) by auto
  show ?case
  proof (intro exI [of _ gs] conjI allI)
    show "iter_regs (r # rs) boot_allocator_free_handler b = Inr (with_free gs b)" using fs(1) gs(1) by simp
    show "hits a gs = hits a ?F + (if a \<in> cover ?R then 0 else hits a (r # rs))" for a
      using fs(2) [of a] gs(2) [of a] by simp
    show "strict gs" by (rule gs(3))
    show "length gs \<le> length ?F + length (r # rs) * (length ?R + 1)" using fs(4) gs(4) by simp
  qed
qed


section \<open>Holes and sizes\<close>

lemma merge_loop_length: "merge_loop cur rs merged = Inr out \<Longrightarrow> length out \<le> Suc (length merged + length rs) \<and> out \<noteq> []"
  by (induction cur rs merged rule: merge_loop.induct) (auto split: if_splits)

lemma sort_merge_returns:
  assumes "length reg \<le> MAX_REGIONS"
  shows "\<exists>out. BOOT_ALLOCATOR_SORT_AND_MERGE reg = Inr out \<and> length out \<le> length reg \<and> (reg \<noteq> [] \<longrightarrow> out \<noteq> [])"
proof (cases "boot_allocator_sort_regions reg")
  case Nil
  then have "reg = []" using sort_regions_length [of reg] by simp
  then show ?thesis
    using Nil by (simp add: BOOT_ALLOCATOR_SORT_AND_MERGE_def boot_allocator_merge_contiguous_regions_def)
next
  case (Cons cur rs)
  have len: "length reg = Suc (length rs)" using sort_regions_length [of reg] by (simp add: Cons)
  have "BOOT_ALLOCATOR_SORT_AND_MERGE reg = merge_loop cur rs []"
    using sort_sorted_hd [of "cur # rs"] sort_regions_correct(1) [of reg]
    by (simp add: BOOT_ALLOCATOR_SORT_AND_MERGE_def boot_allocator_merge_contiguous_regions_def Cons)
  moreover obtain out where "merge_loop cur rs [] = Inr out" using merge_loop_returns [of "[]" rs] len assms by auto
  ultimately show ?thesis using merge_loop_length [of cur rs "[]" out] len by auto
qed

lemma sort_mergeE:
  assumes "BOOT_ALLOCATOR_SORT_AND_MERGE reg = Inr out"
  obtains "reg = []" "out = []"
  | cur rs where "boot_allocator_sort_regions reg = cur # rs" "sorted_regions (cur # rs)" "set reg = set (cur # rs)"
    "merge_loop cur rs [] = Inr out"
proof (cases "boot_allocator_sort_regions reg")
  case Nil
  then have "reg = []" using sort_regions_length [of reg] by simp
  then show thesis
    using that(1) Nil assms by (simp add: BOOT_ALLOCATOR_SORT_AND_MERGE_def boot_allocator_merge_contiguous_regions_def)
next
  case (Cons cur rs)
  have so: "sorted_regions (cur # rs)" using sort_regions_correct(1) [of reg] unfolding Cons .
  moreover have "set reg = set (cur # rs)" using sort_regions_set [of reg] unfolding Cons by simp
  moreover have "merge_loop cur rs [] = Inr out"
    using assms sort_sorted_hd [OF so]
    by (simp add: BOOT_ALLOCATOR_SORT_AND_MERGE_def boot_allocator_merge_contiguous_regions_def Cons)
  ultimately show thesis using that(2) Cons by blast
qed

text \<open>What merging does to the bounds of the regions: no new start, and the last end stays.\<close>

lemma merge_loop_bounds:
  "merge_loop cur rs merged = Inr out \<Longrightarrow>
   r_start ` set out \<subseteq> r_start ` set (merged @ cur # rs) \<and> r_end (last out) = r_end (last (cur # rs))"
proof (induction cur rs merged rule: merge_loop.induct)
  case (2 cur r rs merged)
  then show ?case by (auto split: if_splits)
qed (auto split: if_splits)

lemma sort_merge_bounds:
  assumes "BOOT_ALLOCATOR_SORT_AND_MERGE reg = Inr out" "reg \<noteq> []"
  shows "r_start ` set out \<subseteq> r_start ` set reg"
    and "\<exists>l \<in> set reg. r_end (last out) = r_end l \<and> (\<forall>r \<in> set reg. r_start r \<le> r_start l)"
proof -
  obtain cur rs where s: "sorted_regions (cur # rs)" "set reg = set (cur # rs)" "merge_loop cur rs [] = Inr out"
    using sort_mergeE [OF assms(1)] assms(2) by metis
  note m = merge_loop_bounds [OF s(3)]
  show "r_start ` set out \<subseteq> r_start ` set reg" using m s(2) by simp
  have "r_start r \<le> r_start (last (cur # rs))" if "r \<in> set (cur # rs)" for r
  proof -
    have "cur # rs = butlast (cur # rs) @ [last (cur # rs)]" by simp
    then have "sorted_regions (butlast (cur # rs) @ [last (cur # rs)])" "r \<in> set (butlast (cur # rs) @ [last (cur # rs)])"
      using s(1) that by simp_all
    then show ?thesis by (auto simp: sorted_regions_def sorted_append simp del: append_butlast_last_id)
  qed
  then show "\<exists>l \<in> set reg. r_end (last out) = r_end l \<and> (\<forall>r \<in> set reg. r_start r \<le> r_start l)"
    unfolding s(2) using m by (intro bexI [of _ "last (cur # rs)"]) simp_all
qed

definition solid :: "region list \<Rightarrow> bool" where
  "solid rs \<longleftrightarrow> (\<forall>r \<in> set rs. r_start r < r_end r \<or> r_end r = 0 \<and> r_start r \<noteq> 0)"

lemma merge_loop_solid:
  "merge_loop cur rs merged = Inr out \<Longrightarrow> sorted_regions (merged @ cur # rs) \<Longrightarrow> tame (merged @ cur # rs) \<Longrightarrow>
   solid (merged @ cur # rs) \<Longrightarrow> solid out"
proof (induction cur rs merged rule: merge_loop.induct)
  case (1 cur merged)
  then show ?case by (auto split: if_splits)
next
  case (2 cur r rs merged)
  show ?case
  proof (cases "r_end cur = r_start r")
    case True
    note m = merge_two [OF 2(4,5) True]
    have "r_start cur \<le> r_start r" using 2(4) by (simp add: sorted_regions_def sorted_append)
    moreover have "r_start r < r_end r" using 2(5,6) True by (auto simp: tame_def solid_def)
    ultimately have "r_start cur < r_end r" by simp
    then have "solid (merged @ cur\<lparr>r_end := r_end r\<rparr> # rs)" using 2(6) by (simp add: solid_def)
    then show ?thesis using 2(1) [OF True _ m(1,2)] 2(3) True by simp
  next
    case False
    then show ?thesis using 2 by (auto split: if_splits)
  qed
qed

lemma sort_merge_solid:
  assumes "BOOT_ALLOCATOR_SORT_AND_MERGE reg = Inr out" "tame reg" "solid reg"
  shows "solid out"
proof (rule sort_mergeE [OF assms(1)])
  fix cur rs
  assume s: "sorted_regions (cur # rs)" "set reg = set (cur # rs)" "merge_loop cur rs [] = Inr out"
  have "tame ([] @ cur # rs)" "solid ([] @ cur # rs)" using assms(2,3) unfolding tame_def solid_def s(2) by simp_all
  then show ?thesis using merge_loop_solid [OF s(3)] s(1) by simp
qed (simp add: solid_def)

definition with_holes :: "region list \<Rightarrow> boot_state \<Rightarrow> boot_state" where
  "with_holes hs b = b\<lparr>regions := (regions b)(HOLES_MEMORY := hs)\<rparr>"

lemma with_holes_simps [simp]:
  "regions (with_holes hs b) HOLES_MEMORY = hs" "with_holes hs' (with_holes hs b) = with_holes hs' b"
  "k \<noteq> HOLES_MEMORY \<Longrightarrow> regions (with_holes hs b) k = regions b k" "with_holes (regions b HOLES_MEMORY) b = b"
  by (simp_all add: with_holes_def)

lemma gaps_loop_spec:
  "length (regions b HOLES_MEMORY) + length rs \<le> MAX_REGIONS \<Longrightarrow> strict (regions b HOLES_MEMORY) \<Longrightarrow>
   \<exists>hs. gaps_loop rs b = Inr (with_holes hs b) \<and> strict hs \<and> length hs \<le> length (regions b HOLES_MEMORY) + length rs \<and>
     (\<forall>h \<in> set hs. h \<in> set (regions b HOLES_MEMORY) \<or> (\<exists>r \<in> set rs. r_start h < r_start r))"
proof (induction rs b rule: gaps_loop.induct, goal_cases)
  case (1 r s rs b)
  show ?case
  proof (cases "r_end r < r_start s")
    case True
    let ?b = "with_holes (regions b HOLES_MEMORY @ [\<lparr>r_start = r_end r, r_end = r_start s\<rparr>]) b"
    have "boot_allocator_add_region (r_end r) (r_start s) HOLES_MEMORY b = Inr ?b"
      using True 1(2) by (simp add: add_region_spec with_holes_def)
    moreover obtain hs where hs: "gaps_loop (s # rs) ?b = Inr (with_holes hs ?b)" "strict hs"
      "length hs \<le> length (regions ?b HOLES_MEMORY) + length (s # rs)"
      "\<forall>h \<in> set hs. h \<in> set (regions ?b HOLES_MEMORY) \<or> (\<exists>r \<in> set (s # rs). r_start h < r_start r)"
      using 1(1) [of ?b] 1(2,3) True by auto
    moreover have "h \<in> set (regions b HOLES_MEMORY) \<or> (\<exists>q \<in> set (r # s # rs). r_start h < r_start q)" if "h \<in> set hs" for h
      using hs(4) that True by auto
    ultimately show ?thesis using True by (intro exI [of _ hs]) simp
  next
    case False
    then obtain hs where "gaps_loop (s # rs) b = Inr (with_holes hs b)" "strict hs"
      "length hs \<le> length (regions b HOLES_MEMORY) + length (s # rs)"
      "\<forall>h \<in> set hs. h \<in> set (regions b HOLES_MEMORY) \<or> (\<exists>r \<in> set (s # rs). r_start h < r_start r)"
      using 1(1) [of b] 1(2,3) by auto
    then show ?thesis using False by (intro exI [of _ hs]) auto
  qed
next
  case (2 b)
  then show ?case by (intro exI [of _ "regions b HOLES_MEMORY"]) simp
next
  case (3 r b)
  then show ?case by (intro exI [of _ "regions b HOLES_MEMORY"]) simp
qed

lemma fill_gaps_spec:
  assumes "regions b HOLES_MEMORY = []" and "length (regions b FREE_MEMORY) + length (regions b RESERVED_MEMORY) \<le> 128"
  shows "\<exists>hs. boot_allocator_fill_gaps_as_holes b = Inr (with_holes hs b) \<and> length hs \<le> 128 \<and>
    (\<forall>h \<in> set hs. \<exists>r \<in> set (regions b FREE_MEMORY @ regions b RESERVED_MEMORY). r_start h < r_start r)"
proof (cases "regions b RESERVED_MEMORY = [] \<and> regions b FREE_MEMORY = []")
  case True
  then show ?thesis using with_holes_simps(4) [of b] assms(1)
    by (intro exI [of _ "regions b HOLES_MEMORY"]) (simp add: boot_allocator_fill_gaps_as_holes_def del: with_holes_simps(4))
next
  case False
  let ?all = "regions b FREE_MEMORY @ regions b RESERVED_MEMORY"
  obtain rs where rs: "BOOT_ALLOCATOR_SORT_AND_MERGE ?all = Inr rs" "length rs \<le> length ?all"
    using sort_merge_returns [of ?all] assms(2) by (auto simp: MAX_REGIONS_def)
  have rs': "r_start ` set rs \<subseteq> r_start ` set ?all" by (rule sort_merge_bounds(1) [OF rs(1)]) (use False in auto)
  obtain hs where hs: "gaps_loop rs b = Inr (with_holes hs b)" "strict hs" "length hs \<le> length rs"
    "\<forall>h \<in> set hs. \<exists>r \<in> set rs. r_start h < r_start r"
    using gaps_loop_spec [of b rs] assms rs(2) by (auto simp: MAX_REGIONS_def)
  obtain gs where gs: "BOOT_ALLOCATOR_SORT_AND_MERGE hs = Inr gs" "length gs \<le> length hs"
    using sort_merge_returns [of hs] hs(3) rs(2) assms(2) by (auto simp: MAX_REGIONS_def)
  have "\<exists>r \<in> set ?all. r_start h < r_start r" if h: "h \<in> set gs" for h
  proof -
    have "hs \<noteq> []" using gs(2) h by auto
    then obtain h' where "h' \<in> set hs" "r_start h = r_start h'" using sort_merge_bounds(1) [OF gs(1)] h by blast
    moreover obtain r where "r \<in> set rs" "r_start h' < r_start r" using hs(4) calculation(1) by blast
    moreover obtain r' where "r' \<in> set ?all" "r_start r = r_start r'" using rs' calculation(3) by blast
    ultimately show ?thesis by auto
  qed
  then show ?thesis
    using False rs(1,2) hs(1,3) gs assms by (intro exI [of _ gs])
      (auto simp: boot_allocator_fill_gaps_as_holes_def boot_allocator_get_all_regions_def with_holes_def Let_def)
qed

lemma iter_total_size: "\<exists>x. iter_regs rs boot_allocator_init_total_size b = Inr (b\<lparr>total_RAM := x\<rparr>)"
proof (induction rs arbitrary: b)
  case Nil
  show ?case by (intro exI [of _ "total_RAM b"]) simp
next
  case (Cons r rs)
  obtain x where "boot_allocator_init_total_size (r_start r) (r_end r) b = Inr (b\<lparr>total_RAM := x\<rparr>)"
    by (simp add: boot_allocator_init_total_size_def Let_def)
  then show ?case using Cons [of "b\<lparr>total_RAM := x\<rparr>"] by auto
qed

lemma same_region:
  assumes "disjoint_regions rs" "r \<in> set rs" "s \<in> set rs" "r_start r \<le> a" "a < r_end r" "r_start s \<le> a" "a < r_end s"
  shows "r = s"
proof -
  let ?f = "filter (\<lambda>r. r_start r \<le> a \<and> a < r_end r) rs"
  have "r \<in> set ?f" "s \<in> set ?f" using assms by auto
  moreover have "length ?f \<le> 1" using assms(1) by (simp add: disjoint_regions_def hits_def)
  ultimately show ?thesis by (cases ?f) auto
qed

text \<open>The top of the memory is above every free address.\<close>

definition split_ok :: "boot_state \<Rightarrow> bool" where
  "split_ok b \<longleftrightarrow> strict (regions b FREE_MEMORY) \<and> disjoint_regions (regions b FREE_MEMORY) \<and> solid (regions b RESERVED_MEMORY) \<and>
     cover (regions b FREE_MEMORY) \<inter> cover (regions b RESERVED_MEMORY) = {}"

lemma visible_ram_spec:
  assumes "length (boot_allocator_get_all_regions b) \<le> MAX_REGIONS" and "regions b RESERVED_MEMORY \<noteq> []" "split_ok b"
    and holes: "\<forall>h \<in> set (regions b HOLES_MEMORY). \<exists>r \<in> set (regions b FREE_MEMORY @ regions b RESERVED_MEMORY). r_start h < r_start r"
  shows "\<exists>top. boot_allocator_get_total_visibale_ram b = Inr top \<and> (\<forall>a \<in> cover (regions b FREE_MEMORY). a < top)"
proof -
  let ?all = "boot_allocator_get_all_regions b" and ?F = "regions b FREE_MEMORY" and ?R = "regions b RESERVED_MEMORY"
  have ne: "?all \<noteq> []" using assms(2) by (simp add: boot_allocator_get_all_regions_def)
  obtain m where m: "BOOT_ALLOCATOR_SORT_AND_MERGE ?all = Inr m" using sort_merge_returns [OF assms(1)] by blast
  obtain l where l: "l \<in> set ?all" "r_end (last m) = r_end l" "\<forall>r \<in> set ?all. r_start r \<le> r_start l"
    using sort_merge_bounds(2) [OF m ne] by blast
  have lFR: "l \<in> set ?F \<or> l \<in> set ?R"
    using l(1,3) holes by (auto simp: boot_allocator_get_all_regions_def not_le [symmetric])
  have top: "a < (if r_end l = 0 then 0xffffffff else r_end l)" if a: "a \<in> cover ?F" for a
  proof (cases "r_end l = 0")
    case True
    obtain g where "g \<in> set ?F" "a < r_end g" using a by (auto simp: cover_def)
    then have "a < - 1" by (meson le_less_trans less_le_trans word_n1_ge)
    moreover have "(- 1 :: u32) = 0xffffffff" by simp
    ultimately show ?thesis using True by (simp only: if_True refl)
  next
    case False
    then have sl: "r_start l < r_end l" using lFR assms(3) by (auto simp: split_ok_def strict_def solid_def)
    obtain g where g: "g \<in> set ?F" "r_start g \<le> a" "a < r_end g" using a by (auto simp: cover_def)
    have "r_start g \<le> r_start l" using l(3) g(1) by (simp add: boot_allocator_get_all_regions_def)
    then have "a < r_end l" if "r_start l \<le> a"
    proof -
      have i: "r_start g \<le> r_start l" "r_start l < r_end g" using \<open>r_start g \<le> r_start l\<close> that g(3) by auto
      then have "r_start l \<in> cover ?F" using g(1) by (auto simp: cover_def)
      moreover have "r_start l \<in> cover ?R" if "l \<in> set ?R" using that sl by (auto simp: cover_def)
      ultimately have "l \<in> set ?F" using lFR assms(3) by (auto simp: split_ok_def)
      then have "l = g" using same_region [of ?F l g "r_start l"] g(1) i sl assms(3) by (simp add: split_ok_def)
      then show ?thesis using g(3) by simp
    qed
    then show ?thesis using False sl by (cases "r_start l \<le> a") auto
  qed
  then show ?thesis using m ne l(2) by (auto simp: boot_allocator_get_total_visibale_ram_def Let_def)
qed

section \<open>Zones\<close>

fun zone_rank :: "zone_type \<Rightarrow> nat" where
  "zone_rank DMA_ZONE = 0" | "zone_rank LOWMEM_ZONE = 1" | "zone_rank HIGHMEM_ZONE = 2" | "zone_rank INVALID_ZONE = 0"

abbreviation zone_at :: "u32 \<Rightarrow> zone_type" where
  "zone_at \<equiv> boot_alloc_get_addr_zone"

lemma zone_piece:
  assumes "cur < fin"
  defines "e \<equiv> if fin < zone_end cur then fin else zone_end cur"
  shows "cur < e" and "e \<le> fin" and "cur \<le> a \<Longrightarrow> a < e \<Longrightarrow> zone_at a = zone_at cur"
    and "e < fin \<Longrightarrow> zone_rank (zone_at cur) < zone_rank (zone_at e)"
proof -
  have top: "fin \<le> HIGHMEM_END" using unat_32_bound [of fin] by (simp add: HIGHMEM_END_def word_le_nat_alt del: unat_32_bound)
  show "cur < e" using zone_end_above [OF assms(1)] by (simp add: e_def)
  show "e \<le> fin" by (auto simp: e_def)
  show "zone_at a = zone_at cur" if "cur \<le> a" "a < e"
    using that by (auto simp: e_def zone_end_def boot_alloc_get_addr_zone_def split: if_splits)
      (auto simp: HIGHMEM_START_def LOWMEM_START_def word_le_nat_alt word_less_nat_alt)
  show "zone_rank (zone_at cur) < zone_rank (zone_at e)" if "e < fin"
    using that top by (auto simp: e_def zone_end_def boot_alloc_get_addr_zone_def HIGHMEM_START_def LOWMEM_START_def split: if_splits)
qed

lemma split_zones_spec:
  assumes "\<forall>k. zone_rank (zone_at cur) \<le> zone_rank k \<longrightarrow> length (z k) < MAX_REGIONS" and "\<forall>k. strict (z k)"
  shows "\<exists>z'. split_zones cur fin z = Inr z' \<and>
    (\<forall>k a. hits a (z' k) = hits a (z k) + of_bool (cur \<le> a \<and> a < fin \<and> zone_at a = k)) \<and>
    (\<forall>k. strict (z' k) \<and> length (z' k) \<le> length (z k) + of_bool (zone_rank (zone_at cur) \<le> zone_rank k))"
  using assms
proof (induction cur fin z rule: split_zones.induct)
  case (1 cur fin z)
  show ?case
  proof (cases "cur < fin")
    case False
    then show ?thesis using 1(4) by (subst split_zones.simps) (auto simp: of_bool_def)
  next
    case True
    define e where "e = (if fin < zone_end cur then fin else zone_end cur)"
    note p = zone_piece [OF True, folded e_def]
    let ?k = "zone_at cur"
    let ?z = "z(?k := z ?k @ [\<lparr>r_start = cur, r_end = e\<rparr>])"
    have len: "length (z ?k) < MAX_REGIONS" using 1(3) by simp
    have eq: "split_zones cur fin z = split_zones e fin ?z"
      using True p(1) len by (subst split_zones.simps) (simp add: Let_def e_def)
    have str: "\<forall>k. strict (?z k)" using 1(4) p(1) by simp
    have hz: "hits a (?z k) = hits a (z k) + of_bool (cur \<le> a \<and> a < e \<and> zone_at a = k)" for a k
      using p(3) [of a] by (cases "cur \<le> a \<and> a < e"; cases "k = ?k") auto
    have lz: "length (?z k) \<le> length (z k) + of_bool (zone_rank ?k \<le> zone_rank k)" for k by simp
    show ?thesis
    proof (cases "e < fin")
      case False
      then have e: "e = fin" using p(2) by simp
      have "split_zones e fin ?z = Inr ?z" by (subst split_zones.simps) (simp add: e)
      then show ?thesis
        using eq str hz lz e by (intro exI [of _ ?z]) (simp del: fun_upd_apply)
    next
      case more: True
      have "\<forall>k. zone_rank (zone_at e) \<le> zone_rank k \<longrightarrow> length (?z k) < MAX_REGIONS"
        using 1(3) p(4) [OF more] by (auto split: if_splits)
      then obtain z' where z': "split_zones e fin ?z = Inr z'"
        "\<And>k a. hits a (z' k) = hits a (?z k) + of_bool (e \<le> a \<and> a < fin \<and> zone_at a = k)"
        "\<And>k. strict (z' k)" "\<And>k. length (z' k) \<le> length (?z k) + of_bool (zone_rank (zone_at e) \<le> zone_rank k)"
        using 1(1) [OF True refl refl, folded e_def] str p(1) len by (auto simp del: fun_upd_apply)
      have "hits a (z' k) = hits a (z k) + of_bool (cur \<le> a \<and> a < fin \<and> zone_at a = k)" for k a
        using z'(2) [of a k] hz [of a k] p(1) more
        by (cases "zone_at a = k"; cases "a < e"; cases "cur \<le> a") (auto simp del: fun_upd_apply)
      moreover have "length (z' k) \<le> length (z k) + of_bool (zone_rank ?k \<le> zone_rank k)" for k
        using z'(4) [of k] p(4) [OF more] by (auto simp: of_bool_def split: if_splits)
      ultimately show ?thesis using eq z'(1,3) by (intro exI [of _ z']) simp
    qed
  qed
qed

lemma init_zones_spec:
  assumes "\<forall>k. length (z k) + length rs \<le> MAX_REGIONS" and "\<forall>k. strict (z k)"
  shows "\<exists>z'. init_zones_loop rs z = Inr z' \<and> (\<forall>k a. hits a (z' k) = hits a (z k) + (if zone_at a = k then hits a rs else 0)) \<and>
    (\<forall>k. strict (z' k) \<and> length (z' k) \<le> length (z k) + length rs)"
  using assms
proof (induction rs arbitrary: z)
  case (Cons r rs)
  have "length (z k) < MAX_REGIONS" for k using Cons.prems(1) [rule_format, of k] by simp
  then obtain z1 where z1: "split_zones (r_start r) (r_end r) z = Inr z1"
    "\<And>k a. hits a (z1 k) = hits a (z k) + of_bool (r_start r \<le> a \<and> a < r_end r \<and> zone_at a = k)"
    "\<And>k. strict (z1 k)" "\<And>k. length (z1 k) \<le> length (z k) + of_bool (zone_rank (zone_at (r_start r)) \<le> zone_rank k)"
    using split_zones_spec [of "r_start r" z "r_end r"] Cons.prems(2) by auto
  have l: "length (z1 k) \<le> Suc (length (z k))" for k using z1(4) [of k] by (auto simp: of_bool_def split: if_splits)
  have "length (z1 k) + length rs \<le> MAX_REGIONS" for k using l [of k] Cons.prems(1) [rule_format, of k] by simp
  then obtain z' where z': "init_zones_loop rs z1 = Inr z'"
    "\<And>k a. hits a (z' k) = hits a (z1 k) + (if zone_at a = k then hits a rs else 0)"
    "\<And>k. strict (z' k)" "\<And>k. length (z' k) \<le> length (z1 k) + length rs"
    using Cons.IH [of z1] z1(3) by blast
  have "hits a (z' k) = hits a (z k) + (if zone_at a = k then hits a (r # rs) else 0)" for a k
    using z'(2) [of a k] z1(2) [of a k] by (auto simp: of_bool_def)
  moreover have "length (z' k) \<le> length (z k) + length (r # rs)" for k using z'(4) [of k] l [of k] by simp
  ultimately show ?case using z1(1) z'(1,3) by auto
qed simp


text \<open>
  After merging no region begins where another ends: the end of a region is outside of the table, so that every stretch of
  memory the table stands for lies inside a single region.
\<close>

definition apart :: "region list \<Rightarrow> bool" where
  "apart rs \<longleftrightarrow> (\<forall>r \<in> set rs. r_end r \<notin> cover rs)"

lemma apart_inside:
  assumes "apart rs" "{x ..< y} \<subseteq> cover rs" "x < y"
  shows "\<exists>r \<in> set rs. r_start r \<le> x \<and> y \<le> r_end r"
proof -
  have "x \<in> cover rs" using assms(2,3) by auto
  then obtain r where r: "r \<in> set rs" "r_start r \<le> x" "x < r_end r" by (auto simp: cover_def)
  have "y \<le> r_end r"
  proof (rule ccontr)
    assume "\<not> y \<le> r_end r"
    then have "r_end r \<in> {x ..< y}" using r(3) by auto
    then show False using assms(1,2) r(1) by (auto simp: apart_def)
  qed
  then show ?thesis using r by blast
qed

lemma disjoint_sorted:
  "sorted_regions rs \<Longrightarrow> disjoint_regions rs \<Longrightarrow> strict rs \<Longrightarrow> sorted_wrt (\<lambda>r s. r_end r \<le> r_start s) rs"
proof (induction rs)
  case (Cons r rs)
  have "r_end r \<le> r_start s" if s: "s \<in> set rs" for s
  proof (rule ccontr)
    assume "\<not> r_end r \<le> r_start s"
    moreover have "r_start r \<le> r_start s" using Cons.prems(1) s by (simp add: sorted_regions_def)
    moreover have "r_start s \<in> cover rs" using s Cons.prems(3) by (auto simp: cover_def strict_def)
    ultimately have "1 < hits (r_start s) (r # rs)" by (simp add: cover_hits not_le)
    then show False using Cons.prems(2) unfolding disjoint_regions_def by (meson not_le)
  qed
  moreover have "disjoint_regions rs" using Cons.prems(2) unfolding disjoint_regions_def by (auto intro: add_leD2)
  ultimately show ?case using Cons by (simp add: sorted_regions_def)
qed simp

lemma merge_loop_apart:
  "merge_loop cur rs merged = Inr out \<Longrightarrow> sorted_wrt (\<lambda>r s. r_end r < r_start s) (merged @ [cur]) \<Longrightarrow>
   sorted_wrt (\<lambda>r s. r_end r \<le> r_start s) (cur # rs) \<Longrightarrow> strict (merged @ cur # rs) \<Longrightarrow>
   sorted_wrt (\<lambda>r s. r_end r < r_start s) out \<and> strict out"
proof (induction cur rs merged rule: merge_loop.induct)
  case (1 cur merged)
  then show ?case by (auto split: if_splits)
next
  case (2 cur r rs merged)
  show ?case
  proof (cases "r_end cur = r_start r")
    case True
    then show ?thesis using 2(1) [OF True] 2(3-6) by (auto simp: sorted_wrt_append)
  next
    case False
    then have "r_end cur < r_start r" "r_start cur < r_end cur" using 2(5,6) by auto
    then have "sorted_wrt (\<lambda>r s. r_end r < r_start s) ((merged @ [cur]) @ [r])"
      using 2(4) by (auto simp: sorted_wrt_append)
    then show ?thesis using 2(2) [OF False] 2(3,5,6) False by (auto split: if_splits)
  qed
qed

lemma sorted_apart: "sorted_wrt (\<lambda>r s. r_end r < r_start s) rs \<Longrightarrow> strict rs \<Longrightarrow> apart rs"
proof (induction rs)
  case (Cons r rs)
  have "r_end r \<notin> cover rs" using Cons.prems(1) by (auto simp: cover_def)
  moreover have "r_end s \<notin> {r_start r ..< r_end r}" if "s \<in> set rs" for s
  proof -
    have "r_end r < r_start s" "r_start s < r_end s" using Cons.prems that by (auto simp: strict_def)
    then show ?thesis by auto
  qed
  moreover have "apart rs" using Cons by simp
  ultimately show ?case by (auto simp: apart_def)
qed (simp add: apart_def)

lemma sort_merge_apart:
  assumes "BOOT_ALLOCATOR_SORT_AND_MERGE reg = Inr out" "strict reg" "disjoint_regions reg"
  shows "apart out"
proof (rule sort_mergeE [OF assms(1)])
  fix cur rs
  assume s: "boot_allocator_sort_regions reg = cur # rs" "sorted_regions (cur # rs)" "set reg = set (cur # rs)" "merge_loop cur rs [] = Inr out"
  have "strict (cur # rs)" "disjoint_regions (cur # rs)"
    using assms(2,3) s(3) hits_sort [of _ reg] unfolding s(1) strict_def disjoint_regions_def by simp_all
  then show ?thesis
    using merge_loop_apart [OF s(4)] disjoint_sorted [OF s(2)] sorted_apart [of out] by simp
qed (simp add: apart_def)

lemma sort_merge_zone:
  assumes "strict (free_zones b k)" "length (free_zones b k) \<le> MAX_REGIONS" "strict (res_zones b k)" "length (res_zones b k) \<le> MAX_REGIONS"
  shows "\<exists>f r. sort_merge_zones k b = Inr (b\<lparr>free_zones := (free_zones b)(k := f), res_zones := (res_zones b)(k := r)\<rparr>) \<and>
    (\<forall>a. hits a f = hits a (free_zones b k)) \<and> (\<forall>a. hits a r = hits a (res_zones b k)) \<and>
    strict f \<and> strict r \<and> length f \<le> length (free_zones b k) \<and> length r \<le> length (res_zones b k) \<and>
    (disjoint_regions (free_zones b k) \<longrightarrow> apart f)"
proof -
  obtain f where f: "BOOT_ALLOCATOR_SORT_AND_MERGE (free_zones b k) = Inr f" "\<forall>a. hits a f = hits a (free_zones b k)"
    "strict f" "length f \<le> length (free_zones b k)"
    using sort_merge_tame [of "free_zones b k"] proper_tame [OF strict_proper [OF assms(1)]] assms(1,2) by blast
  moreover obtain r where "BOOT_ALLOCATOR_SORT_AND_MERGE (res_zones b k) = Inr r" "\<forall>a. hits a r = hits a (res_zones b k)"
    "strict r" "length r \<le> length (res_zones b k)"
    using sort_merge_tame [of "res_zones b k"] proper_tame [OF strict_proper [OF assms(3)]] assms(3,4) by blast
  moreover have "disjoint_regions (free_zones b k) \<Longrightarrow> apart f" by (rule sort_merge_apart [OF f(1) assms(1)])
  ultimately show ?thesis by (simp add: sort_merge_zones_def) blast
qed

text \<open>The three rounds of the last loop.\<close>

lemma sort_merge_all_zones:
  assumes "\<forall>k. strict (free_zones b k) \<and> length (free_zones b k) \<le> n \<and> strict (res_zones b k) \<and> length (res_zones b k) \<le> n"
    and "n \<le> MAX_REGIONS"
  shows "\<exists>fz rz. kbind (sort_merge_zones LOWMEM_ZONE b) (\<lambda>b. kbind (sort_merge_zones DMA_ZONE b) (sort_merge_zones HIGHMEM_ZONE)) =
      Inr (b\<lparr>free_zones := fz, res_zones := rz\<rparr>) \<and>
    (\<forall>k a. hits a (fz k) = hits a (free_zones b k) \<and> hits a (rz k) = hits a (res_zones b k)) \<and>
    (\<forall>k. strict (fz k) \<and> length (fz k) \<le> n \<and> strict (rz k) \<and> length (rz k) \<le> n) \<and>
    (\<forall>k. disjoint_regions (free_zones b k) \<and> k \<noteq> INVALID_ZONE \<longrightarrow> apart (fz k))"
proof -
  define ok where "ok = (\<lambda>Z b'. \<exists>fz rz. b' = b\<lparr>free_zones := fz, res_zones := rz\<rparr> \<and>
    (\<forall>k a. hits a (fz k) = hits a (free_zones b k) \<and> hits a (rz k) = hits a (res_zones b k)) \<and>
    (\<forall>k. strict (fz k) \<and> length (fz k) \<le> n \<and> strict (rz k) \<and> length (rz k) \<le> n) \<and>
    (\<forall>k \<in> Z. disjoint_regions (free_zones b k) \<longrightarrow> apart (fz k)))"
  have step: "\<exists>b2. sort_merge_zones k b1 = Inr b2 \<and> ok (insert k Z) b2" if ok: "ok Z b1" for b1 k Z
  proof -
    obtain fz rz where z: "b1 = b\<lparr>free_zones := fz, res_zones := rz\<rparr>"
      "\<forall>k a. hits a (fz k) = hits a (free_zones b k) \<and> hits a (rz k) = hits a (res_zones b k)"
      "\<forall>k. strict (fz k) \<and> length (fz k) \<le> n \<and> strict (rz k) \<and> length (rz k) \<le> n"
      "\<forall>k \<in> Z. disjoint_regions (free_zones b k) \<longrightarrow> apart (fz k)"
      using ok unfolding ok_def by blast
    have "strict (free_zones b1 k)" "length (free_zones b1 k) \<le> MAX_REGIONS"
      "strict (res_zones b1 k)" "length (res_zones b1 k) \<le> MAX_REGIONS"
      using z(1,3) assms(2) by (auto intro: le_trans)
    from sort_merge_zone [OF this] obtain f r where
      fr: "sort_merge_zones k b1 = Inr (b\<lparr>free_zones := fz(k := f), res_zones := rz(k := r)\<rparr>)"
      "\<forall>a. hits a f = hits a (fz k)" "\<forall>a. hits a r = hits a (rz k)" "strict f" "strict r"
      "length f \<le> n" "length r \<le> n" "disjoint_regions (free_zones b1 k) \<longrightarrow> apart f"
      using z(1,3) by (auto intro: le_trans)
    have d: "disjoint_regions (free_zones b1 k) = disjoint_regions (free_zones b k)" using z(1,2) by (simp add: disjoint_regions_def)
    have "ok (insert k Z) (b\<lparr>free_zones := fz(k := f), res_zones := rz(k := r)\<rparr>)"
      unfolding ok_def by (rule exI [of _ "fz(k := f)"], rule exI [of _ "rz(k := r)"]) (use fr z(2-4) d in auto)
    then show ?thesis using fr(1) by blast
  qed
  have "ok {} b"
    unfolding ok_def by (rule exI [of _ "free_zones b"], rule exI [of _ "res_zones b"]) (use assms(1) in simp)
  from step [OF this] obtain b1 where b1: "sort_merge_zones LOWMEM_ZONE b = Inr b1" "ok {LOWMEM_ZONE} b1" by blast
  from step [OF b1(2)] obtain b2 where b2: "sort_merge_zones DMA_ZONE b1 = Inr b2" "ok {DMA_ZONE, LOWMEM_ZONE} b2" by blast
  from step [OF b2(2)] obtain b3 where b3: "sort_merge_zones HIGHMEM_ZONE b2 = Inr b3" "ok {HIGHMEM_ZONE, DMA_ZONE, LOWMEM_ZONE} b3" by blast
  have Z: "k \<in> {HIGHMEM_ZONE, DMA_ZONE, LOWMEM_ZONE} \<longleftrightarrow> k \<noteq> INVALID_ZONE" for k by (cases k) auto
  show ?thesis using b3(2) unfolding b1(1) b2(1) b3(1) kbind_Inr ok_def Ball_def Z by blast
qed

lemma init_zones_empty:
  assumes "length rs \<le> 128"
  obtains z where "init_zones_loop rs (\<lambda>_. []) = Inr z" "\<And>k a. hits a (z k) = (if zone_at a = k then hits a rs else 0)"
    "\<And>k. strict (z k) \<and> length (z k) \<le> 128"
proof -
  obtain z where "init_zones_loop rs (\<lambda>_. []) = Inr z" "\<And>k a. hits a (z k) = (if zone_at a = k then hits a rs else 0)"
    "\<And>k. strict (z k) \<and> length (z k) \<le> length rs"
    using init_zones_spec [of "\<lambda>_. []" rs] assms by (auto simp: MAX_REGIONS_def)
  then show thesis using that assms by (meson le_trans)
qed

section \<open>The whole initialisation\<close>

text \<open>The tables of the zones: \<open>z\<close> stands for the addresses of \<open>A\<close>, each once, in the zone it belongs to.\<close>

definition zones_of :: "(zone_type \<Rightarrow> region list) \<Rightarrow> u32 set \<Rightarrow> bool" where
  "zones_of z A \<longleftrightarrow> (\<forall>k. cover (z k) = {a \<in> A. zone_at a = k} \<and> strict (z k) \<and> length (z k) \<le> 128)"

definition ram :: "boot_env \<Rightarrow> mmap_entry list \<Rightarrow> u32 set" where
  "ram e mmap = cover (ram_regs mmap) - cover (kept_regs e mmap)"

lemma hits_zero: "a \<notin> cover rs \<longleftrightarrow> hits a rs = 0"
  by (simp add: cover_hits)

lemma kbind_assoc: "kbind (kbind m f) g = kbind m (\<lambda>x. kbind (f x) g)"
  by (simp add: kbind_def split: sum.split)

lemma reserved_table:
  assumes "boot_input_ok e mmap" and "regions b RESERVED_MEMORY = []"
  obtains R where "kbind (add_reserved_ranges e b) (\<lambda>b. kbind (mb2_mmap_iter mmap boot_allocator_reserved_wrapper False b)
      (sort_merge_regions RESERVED_MEMORY)) = Inr (with_rsv R b)"
    "\<And>a. hits a R = hits a (kept_regs e mmap)" "sorted_regions R" "tame R" "length R \<le> length (kept_regs e mmap)" "R \<noteq> []" "solid R"
proof -
  let ?K = "kept_regs e mmap"
  have K: "tame ?K" "length ?K \<le> MAX_REGIONS" using assms(1) by (auto simp: boot_input_ok_def MAX_REGIONS_def)
  obtain R where R: "BOOT_ALLOCATOR_SORT_AND_MERGE ?K = Inr R" "\<And>a. hits a R = hits a ?K" "sorted_regions R" "tame R"
    "length R \<le> length ?K"
    using sort_merge_tame [OF K] by blast
  have "\<lparr>r_start = 0, r_end = 0x1000\<rparr> \<in> set ?K" by (simp add: kept_regs_def kernel_regs_def)
  then have "0 \<in> cover ?K" by (force simp: cover_def)
  then have "R \<noteq> []" using R(2) [of 0] by (auto simp: cover_hits)
  moreover have "solid ?K" unfolding solid_def
  proof
    fix r
    assume r: "r \<in> set ?K"
    then have "some_range r" by (auto simp: kept_regs_def)
    moreover have "r_start r \<le> r_end r \<or> r_end r = 0" using r assms(1) by (simp add: boot_input_ok_def)
    ultimately show "r_start r < r_end r \<or> r_end r = 0 \<and> r_start r \<noteq> 0" by (auto simp: order_less_le)
  qed
  then have "solid R" by (rule sort_merge_solid [OF R(1) K(1)])
  moreover have "sort_merge_regions RESERVED_MEMORY (with_rsv ?K b) = Inr (with_rsv R b)"
    by (simp add: sort_merge_regions_def R(1) with_rsv_def)
  ultimately show thesis
    using that [of R] R reserved_phase [OF assms] by (simp add: kbind_assoc [symmetric])
qed

lemma free_table:
  assumes "sorted_regions R" "tame R" "regions b RESERVED_MEMORY = R" "regions b FREE_MEMORY = []"
    and "disjoint_regions (ram_regs mmap)" "length (ram_regs mmap) * (length R + 1) + length R \<le> 128"
  obtains G where "kbind (mb2_mmap_iter mmap boot_allocator_free_handler True b) (sort_merge_regions FREE_MEMORY) = Inr (with_free G b)"
    "\<And>a. hits a G = (if a \<in> cover R then 0 else hits a (ram_regs mmap))" "length G + length R \<le> 128" "strict G"
proof -
  let ?M = "ram_regs mmap"
  have "\<forall>a. hits a (regions b FREE_MEMORY) + hits a ?M \<le> 1" using assms(4,5) by (simp add: disjoint_regions_def)
  then obtain F where F: "iter_regs ?M boot_allocator_free_handler b = Inr (with_free F b)"
    "\<And>a. hits a F = (if a \<in> cover R then 0 else hits a ?M)" "strict F" "length F \<le> length ?M * (length R + 1)"
    using iter_free [of b ?M] assms by (auto simp: MAX_REGIONS_def)
  have "length F \<le> MAX_REGIONS" using F(4) assms(6) by (simp add: MAX_REGIONS_def)
  then obtain G where G: "BOOT_ALLOCATOR_SORT_AND_MERGE F = Inr G" "\<And>a. hits a G = hits a F" "length G \<le> length F" "strict G"
    using sort_merge_tame [OF proper_tame [OF strict_proper [OF F(3)]]] F(3) by blast
  have "sort_merge_regions FREE_MEMORY (with_free F b) = Inr (with_free G b)"
    by (simp add: sort_merge_regions_def G(1) with_free_def)
  then show thesis
    using that [of G] F G(2-4) assms(6) by (simp add: mb2_mmap_iter_regs ram_regs_def)
qed

text \<open>Holes and sizes change nothing the rest depends on.\<close>

definition sized :: "region list \<Rightarrow> u32 \<Rightarrow> u32 \<Rightarrow> boot_state \<Rightarrow> boot_state" where
  "sized hs t n b = with_holes hs b\<lparr>total_RAM := t, total_pages := n\<rparr>"

lemma sizes_phase:
  assumes "regions b HOLES_MEMORY = []" "length (regions b FREE_MEMORY) + length (regions b RESERVED_MEMORY) \<le> 128"
    and "regions b RESERVED_MEMORY \<noteq> []" "split_ok b"
  obtains hs t top where
    "kbind (boot_allocator_fill_gaps_as_holes b) (\<lambda>b.
     kbind (mb2_mmap_iter mmap boot_allocator_init_total_size False b) (\<lambda>b.
     kbind (mb2_mmap_iter mmap boot_allocator_init_total_size True b) (\<lambda>b.
     kbind (boot_allocator_get_total_visibale_ram b) (\<lambda>ram. Inr (b\<lparr>total_pages := ram div PAGE_SIZE\<rparr>))))) = Inr (sized hs t (top div PAGE_SIZE) b)"
    "\<forall>a \<in> cover (regions b FREE_MEMORY). a < top"
proof -
  obtain hs where hs: "boot_allocator_fill_gaps_as_holes b = Inr (with_holes hs b)" "length hs \<le> 128"
    "\<forall>h \<in> set hs. \<exists>r \<in> set (regions b FREE_MEMORY @ regions b RESERVED_MEMORY). r_start h < r_start r"
    using fill_gaps_spec [OF assms(1,2)] by blast
  obtain x where x: "mb2_mmap_iter mmap boot_allocator_init_total_size False (with_holes hs b) = Inr (with_holes hs b\<lparr>total_RAM := x\<rparr>)"
    using iter_total_size by (metis mb2_mmap_iter_regs)
  obtain y where y: "mb2_mmap_iter mmap boot_allocator_init_total_size True (with_holes hs b\<lparr>total_RAM := x\<rparr>) = Inr (with_holes hs b\<lparr>total_RAM := y\<rparr>)"
    using iter_total_size [of _ "with_holes hs b\<lparr>total_RAM := x\<rparr>"] by (auto simp: mb2_mmap_iter_regs)
  let ?b = "with_holes hs b\<lparr>total_RAM := y\<rparr>"
  have "length (boot_allocator_get_all_regions ?b) \<le> MAX_REGIONS"
    using assms(2) hs(2) by (simp add: boot_allocator_get_all_regions_def MAX_REGIONS_def)
  then obtain top where "boot_allocator_get_total_visibale_ram ?b = Inr top" "\<forall>a \<in> cover (regions b FREE_MEMORY). a < top"
    using visible_ram_spec [of ?b] assms(3,4) hs(3) by (auto simp: split_ok_def)
  then show thesis using that [of hs y top] hs(1) x y by (simp add: sized_def)
qed

lemma zones_phase:
  assumes "free_zones b = (\<lambda>_. [])" "res_zones b = (\<lambda>_. [])"
    and "length (regions b FREE_MEMORY) \<le> 128" "length (regions b RESERVED_MEMORY) \<le> 128"
  obtains fz rz where
    "kbind (boot_allocator_init_zones (free_zones b) FREE_MEMORY b) (\<lambda>fz.
     kbind (boot_allocator_init_zones (res_zones b) RESERVED_MEMORY b) (\<lambda>rz.
     kbind (sort_merge_zones LOWMEM_ZONE (b\<lparr>free_zones := fz, res_zones := rz\<rparr>)) (\<lambda>b.
     kbind (sort_merge_zones DMA_ZONE b) (sort_merge_zones HIGHMEM_ZONE)))) = Inr (b\<lparr>free_zones := fz, res_zones := rz\<rparr>)"
    "\<And>k a. hits a (fz k) = (if zone_at a = k then hits a (regions b FREE_MEMORY) else 0)"
    "\<And>k a. hits a (rz k) = (if zone_at a = k then hits a (regions b RESERVED_MEMORY) else 0)"
    "\<And>k. strict (fz k) \<and> length (fz k) \<le> 128 \<and> strict (rz k) \<and> length (rz k) \<le> 128"
    "\<And>k. disjoint_regions (fz k) \<Longrightarrow> k \<noteq> INVALID_ZONE \<Longrightarrow> apart (fz k)"
proof -
  obtain fz where fz: "boot_allocator_init_zones (\<lambda>_. []) FREE_MEMORY b = Inr fz"
    "\<And>k a. hits a (fz k) = (if zone_at a = k then hits a (regions b FREE_MEMORY) else 0)" "\<And>k. strict (fz k) \<and> length (fz k) \<le> 128"
    using init_zones_empty [OF assms(3)] by (auto simp: boot_allocator_init_zones_def)
  obtain rz where rz: "boot_allocator_init_zones (\<lambda>_. []) RESERVED_MEMORY b = Inr rz"
    "\<And>k a. hits a (rz k) = (if zone_at a = k then hits a (regions b RESERVED_MEMORY) else 0)" "\<And>k. strict (rz k) \<and> length (rz k) \<le> 128"
    using init_zones_empty [OF assms(4)] by (auto simp: boot_allocator_init_zones_def)
  let ?b = "b\<lparr>free_zones := fz, res_zones := rz\<rparr>"
  obtain fz' rz' where "kbind (sort_merge_zones LOWMEM_ZONE ?b) (\<lambda>b. kbind (sort_merge_zones DMA_ZONE b) (sort_merge_zones HIGHMEM_ZONE)) =
      Inr (b\<lparr>free_zones := fz', res_zones := rz'\<rparr>)"
    "\<And>k a. hits a (fz' k) = hits a (fz k)" "\<And>k a. hits a (rz' k) = hits a (rz k)"
    "\<And>k. strict (fz' k) \<and> length (fz' k) \<le> 128 \<and> strict (rz' k) \<and> length (rz' k) \<le> 128"
    "\<And>k. disjoint_regions (fz k) \<and> k \<noteq> INVALID_ZONE \<longrightarrow> apart (fz' k)"
    using sort_merge_all_zones [of ?b 128] fz(3) rz(3) by (auto simp: MAX_REGIONS_def)
  then show thesis using that [of rz' fz'] fz rz assms(1,2) by (simp add: disjoint_regions_def)
qed

lemma init_correct:
  assumes "boot_input_ok e mmap" and "free_zones b = (\<lambda>_. [])" and "res_zones b = (\<lambda>_. [])"
  shows "\<exists>b'. boot_allocator_init e mmap b = Inr b' \<and> frozen b' = frozen b \<and> allocations b' = [] \<and>
    (\<exists>top. total_pages b' = top div PAGE_SIZE \<and> (\<forall>a \<in> ram e mmap. a < top)) \<and>
    cover (regions b' FREE_MEMORY) = ram e mmap \<and>
    zones_of (free_zones b') (ram e mmap) \<and>
    (\<forall>k. disjoint_regions (free_zones b' k) \<and> (k \<noteq> INVALID_ZONE \<longrightarrow> apart (free_zones b' k))) \<and>
    zones_of (res_zones b') (cover (kept_regs e mmap))"
proof -
  define b0 where "b0 = b\<lparr>regions := (\<lambda>_. []), allocations := []\<rparr>"
  let ?K = "kept_regs e mmap" and ?M = "ram_regs mmap"
  have ok: "disjoint_regions ?M" "length ?M * (length ?K + 1) + length ?K \<le> 128"
    using assms(1) by (auto simp: boot_input_ok_def)
  obtain R where R: "kbind (add_reserved_ranges e b0) (\<lambda>b. kbind (mb2_mmap_iter mmap boot_allocator_reserved_wrapper False b)
      (sort_merge_regions RESERVED_MEMORY)) = Inr (with_rsv R b0)"
    "\<And>a. hits a R = hits a ?K" "sorted_regions R" "tame R" "length R \<le> length ?K" "R \<noteq> []" "solid R"
    using reserved_table [OF assms(1), of b0] by (auto simp: b0_def)
  have "length ?M * (length R + 1) + length R \<le> 128"
    using ok(2) R(5) by (meson add_mono le_trans mult_le_mono order_refl)
  then obtain G where G: "kbind (mb2_mmap_iter mmap boot_allocator_free_handler True (with_rsv R b0)) (sort_merge_regions FREE_MEMORY) =
      Inr (with_free G (with_rsv R b0))"
    "\<And>a. hits a G = (if a \<in> cover R then 0 else hits a ?M)" "length G + length R \<le> 128" "strict G"
    using free_table [OF R(3,4), of "with_rsv R b0" mmap] ok(1) by (auto simp: b0_def)
  define b1 where "b1 = with_free G (with_rsv R b0)"
  have b1: "regions b1 RESERVED_MEMORY = R" "regions b1 FREE_MEMORY = G" "regions b1 HOLES_MEMORY = []"
    by (simp_all add: b1_def b0_def)
  have cG: "cover G = ram e mmap" unfolding ram_def by (auto simp: cover_hits G(2) R(2) split: if_splits)
  have dG: "disjoint_regions G" using ok(1) by (auto simp: disjoint_regions_def G(2))
  have "split_ok b1" using dG G(2,4) R(7) by (auto simp: split_ok_def b1 cover_hits split: if_splits)
  then obtain hs t top where S: "kbind (boot_allocator_fill_gaps_as_holes b1) (\<lambda>b.
     kbind (mb2_mmap_iter mmap boot_allocator_init_total_size False b) (\<lambda>b.
     kbind (mb2_mmap_iter mmap boot_allocator_init_total_size True b) (\<lambda>b.
     kbind (boot_allocator_get_total_visibale_ram b) (\<lambda>ram. Inr (b\<lparr>total_pages := ram div PAGE_SIZE\<rparr>))))) = Inr (sized hs t (top div PAGE_SIZE) b1)" "\<forall>a \<in> ram e mmap. a < top"
    using sizes_phase [of b1 mmap] b1 G(3) R(6) cG by auto
  let ?b = "sized hs t (top div PAGE_SIZE) b1"
  have b: "free_zones ?b = (\<lambda>_. [])" "res_zones ?b = (\<lambda>_. [])" "regions ?b FREE_MEMORY = G" "regions ?b RESERVED_MEMORY = R"
    "frozen ?b = frozen b" "allocations ?b = []" "total_pages ?b = top div PAGE_SIZE"
    using b1 assms(2,3) by (simp_all add: sized_def b1_def b0_def with_free_def with_rsv_def with_holes_def)
  obtain fz rz where Z: "kbind (boot_allocator_init_zones (free_zones ?b) FREE_MEMORY ?b) (\<lambda>fz.
     kbind (boot_allocator_init_zones (res_zones ?b) RESERVED_MEMORY ?b) (\<lambda>rz.
     kbind (sort_merge_zones LOWMEM_ZONE (?b\<lparr>free_zones := fz, res_zones := rz\<rparr>)) (\<lambda>b.
     kbind (sort_merge_zones DMA_ZONE b) (sort_merge_zones HIGHMEM_ZONE)))) = Inr (?b\<lparr>free_zones := fz, res_zones := rz\<rparr>)"
    "\<And>k a. hits a (fz k) = (if zone_at a = k then hits a G else 0)" "\<And>k a. hits a (rz k) = (if zone_at a = k then hits a R else 0)"
    "\<And>k. strict (fz k) \<and> length (fz k) \<le> 128 \<and> strict (rz k) \<and> length (rz k) \<le> 128"
    "\<And>k. disjoint_regions (fz k) \<Longrightarrow> k \<noteq> INVALID_ZONE \<Longrightarrow> apart (fz k)"
    by (rule zones_phase [of ?b, unfolded b(3,4)]) (use b(1,2) G(3) in auto)
  have eq: "boot_allocator_init e mmap b = Inr (?b\<lparr>free_zones := fz, res_zones := rz\<rparr>)"
  proof -
    obtain s1 s2 where r: "add_reserved_ranges e b0 = Inr s1" "mb2_mmap_iter mmap boot_allocator_reserved_wrapper False s1 = Inr s2"
      "sort_merge_regions RESERVED_MEMORY s2 = Inr (with_rsv R b0)"
      using R(1) by (auto simp: kbind_eq_Inr)
    obtain s3 where g: "mb2_mmap_iter mmap boot_allocator_free_handler True (with_rsv R b0) = Inr s3"
      "sort_merge_regions FREE_MEMORY s3 = Inr b1"
      using G(1) by (auto simp: kbind_eq_Inr b1_def)
    obtain s4 s5 s6 top where h: "boot_allocator_fill_gaps_as_holes b1 = Inr s4"
      "mb2_mmap_iter mmap boot_allocator_init_total_size False s4 = Inr s5"
      "mb2_mmap_iter mmap boot_allocator_init_total_size True s5 = Inr s6"
      "boot_allocator_get_total_visibale_ram s6 = Inr top" "s6\<lparr>total_pages := top div PAGE_SIZE\<rparr> = ?b"
      using S(1) by (auto simp: kbind_eq_Inr)
    show ?thesis unfolding boot_allocator_init_def b0_def [symmetric] Let_def r g h kbind_Inr by (rule Z(1))
  qed
  have cR: "cover R = cover ?K" by (simp add: cover_hits R(2))
  have d: "disjoint_regions (fz k)" for k using dG by (simp add: disjoint_regions_def Z(2))
  show ?thesis
  proof (intro exI [of _ "?b\<lparr>free_zones := fz, res_zones := rz\<rparr>"] conjI allI impI)
    show "zones_of (free_zones (?b\<lparr>free_zones := fz, res_zones := rz\<rparr>)) (ram e mmap)"
      unfolding zones_of_def cG [symmetric] using Z(4) by (auto simp: cover_hits Z(2) split: if_splits)
    show "zones_of (res_zones (?b\<lparr>free_zones := fz, res_zones := rz\<rparr>)) (cover ?K)"
      unfolding zones_of_def cR [symmetric] using Z(4) by (auto simp: cover_hits Z(3) split: if_splits)
    show "disjoint_regions (free_zones (?b\<lparr>free_zones := fz, res_zones := rz\<rparr>) k)" for k using d by simp
    show "k \<noteq> INVALID_ZONE \<Longrightarrow> apart (free_zones (?b\<lparr>free_zones := fz, res_zones := rz\<rparr>) k)" for k using Z(5) [OF d] by simp
    show "\<exists>top. total_pages (?b\<lparr>free_zones := fz, res_zones := rz\<rparr>) = top div PAGE_SIZE \<and> (\<forall>a \<in> ram e mmap. a < top)"
      using S(2) b(7) by auto
  qed (use eq b cG in simp_all)
qed

section \<open>Limits of 32 bits\<close>

text \<open>Memory above 4 GiB is entered into the tables as memory at the address without its upper half.\<close>

lemma high_ram_wraps:
  "entry_reg \<lparr>me_addr = 0x140000000, me_len = 0xC0000000, me_type = 1\<rparr> = \<lparr>r_start = 0x40000000, r_end = 0\<rparr>"
  "entry_reg \<lparr>me_addr = 0x100000000, me_len = 0x40000000, me_type = 1\<rparr> = \<lparr>r_start = 0, r_end = 0x40000000\<rparr>"
  by (simp_all add: entry_reg_def)

text \<open>A reserved range up to 4 GiB takes the range before it out of the table: both merge into one that stands for no address.\<close>

lemma merge_top_lost:
  "BOOT_ALLOCATOR_SORT_AND_MERGE [\<lparr>r_start = 0xfec00000, r_end = 0xfffc0000\<rparr>, \<lparr>r_start = 0xfffc0000, r_end = 0\<rparr>] =
     Inr [\<lparr>r_start = 0xfec00000, r_end = 0\<rparr>] \<and> cover [\<lparr>r_start = 0xfec00000, r_end = 0\<rparr>] = {}"
  by (simp add: BOOT_ALLOCATOR_SORT_AND_MERGE_def boot_allocator_merge_contiguous_regions_def boot_allocator_sort_regions_def
      sort_from.simps MAX_REGIONS_def)

section \<open>Property\<close>

text \<open>A machine with 128 MiB, as an emulator describes it, and a kernel image of 512 KiB at 1 MiB.\<close>

definition example_mmap :: "mmap_entry list" where
  "example_mmap = [\<lparr>me_addr = 0, me_len = 0x9fc00, me_type = 1\<rparr>, \<lparr>me_addr = 0x9fc00, me_len = 0x400, me_type = 2\<rparr>,
     \<lparr>me_addr = 0xf0000, me_len = 0x10000, me_type = 2\<rparr>, \<lparr>me_addr = 0x100000, me_len = 0x7ee0000, me_type = 1\<rparr>,
     \<lparr>me_addr = 0x7fe0000, me_len = 0x20000, me_type = 2\<rparr>, \<lparr>me_addr = 0xfffc0000, me_len = 0x40000, me_type = 2\<rparr>]"

definition example_env :: boot_env where
  "example_env = \<lparr>gdt_base = 0xC0000800, gdt_limit = 0x37, idt_base = 0xC0120000, idt_limit = 0x7ff,
     kernel_start = 0xC0100000, kernel_end = 0xC0180000, mb2info = 0x190000, mb2_total_size = 0x400\<rparr>"

lemma example_ram_regs:
  "ram_regs example_mmap = [\<lparr>r_start = 0, r_end = 0x9fc00\<rparr>, \<lparr>r_start = 0x100000, r_end = 0x7fe0000\<rparr>]"
  by (simp add: ram_regs_def example_mmap_def entry_reg_def)

lemma example_kept_regs:
  "kept_regs example_env example_mmap = [\<lparr>r_start = 0xa0000, r_end = 0x100000\<rparr>, \<lparr>r_start = 0x800, r_end = 0x838\<rparr>,
     \<lparr>r_start = 0x120000, r_end = 0x120800\<rparr>, \<lparr>r_start = 0, r_end = 0x1000\<rparr>, \<lparr>r_start = 0x1000, r_end = 0x9fc00\<rparr>,
     \<lparr>r_start = 0x100000, r_end = 0x180000\<rparr>, \<lparr>r_start = 0x190000, r_end = 0x190400\<rparr>, \<lparr>r_start = 0x9fc00, r_end = 0xa0000\<rparr>,
     \<lparr>r_start = 0xf0000, r_end = 0x100000\<rparr>, \<lparr>r_start = 0x7fe0000, r_end = 0x8000000\<rparr>, \<lparr>r_start = 0xfffc0000, r_end = 0\<rparr>]"
  by (simp add: kept_regs_def kernel_regs_def phys_range_def example_env_def example_mmap_def entry_reg_def KERNEL_VADDR_BASE_def)

lemma example_input_ok: "boot_input_ok example_env example_mmap"
proof -
  have "virt_ok example_env" by (simp add: virt_ok_def example_env_def KERNEL_VADDR_BASE_def)
  moreover have "disjoint_regions (ram_regs example_mmap)"
    by (auto simp: disjoint_regions_def example_ram_regs of_bool_def word_le_nat_alt word_less_nat_alt)
  ultimately show ?thesis
    by (simp add: boot_input_ok_def example_kept_regs example_ram_regs tame_def)
qed

lemma example_ram: "{0x190400 ..< 0x7fe0000} \<subseteq> ram example_env example_mmap"
  by (auto simp: ram_def example_kept_regs example_ram_regs word_le_nat_alt word_less_nat_alt)

definition boot_zero :: boot_state where
  "boot_zero = \<lparr>frozen = False, allocations = [], regions = (\<lambda>_. []), free_zones = (\<lambda>_. []), res_zones = (\<lambda>_. []),
     total_pages = 0, total_RAM = 0\<rparr>"

text \<open>C38. The initialisation of the boot allocator returns. The free memory it leaves is exactly the RAM of the memory map without the
  ranges the kernel keeps, cut into the zones of its addresses, in disjoint non-empty regions no two of which touch; the reserved memory is
  exactly what is kept; and the number of pages counts every page of free memory.\<close>

theorem boot_allocator_init_correct:
  assumes "boot_input_ok e mmap" and "free_zones b = (\<lambda>_. [])" and "res_zones b = (\<lambda>_. [])"
  shows "\<exists>b'. boot_allocator_init e mmap b = Inr b' \<and> frozen b' = frozen b \<and> allocations b' = [] \<and>
    (\<exists>lim. total_pages b' = lim div PAGE_SIZE \<and> (\<forall>a \<in> ram e mmap. a < lim)) \<and>
    zones_of (free_zones b') (ram e mmap) \<and> zones_of (res_zones b') (cover (kept_regs e mmap)) \<and>
    (\<forall>k. disjoint_regions (free_zones b' k) \<and> (k \<noteq> INVALID_ZONE \<longrightarrow> apart (free_zones b' k)))"
  using init_correct [OF assms] by blast

theorem boot_allocator_init_correct_witness:
  "\<exists>b'. boot_allocator_init example_env example_mmap boot_zero = Inr b' \<and> 0x200000 \<in> cover (free_zones b' DMA_ZONE) \<and>
     0x190000 \<notin> cover (free_zones b' DMA_ZONE)"
proof -
  obtain b' where b': "boot_allocator_init example_env example_mmap boot_zero = Inr b'"
    "zones_of (free_zones b') (ram example_env example_mmap)"
    using boot_allocator_init_correct [OF example_input_ok, of boot_zero] by (auto simp: boot_zero_def)
  have "0x200000 \<in> ram example_env example_mmap" "0x190000 \<notin> ram example_env example_mmap"
    by (simp_all add: ram_def example_kept_regs example_ram_regs)
  then show ?thesis
    using b' by (intro exI [of _ b']) (simp add: zones_of_def boot_alloc_get_addr_zone_def HIGHMEM_START_def LOWMEM_START_def)
qed

end
