(* ===== verification/Boot_At.thy ===== *)
theory Boot_At
  imports Boot_Init
begin

text \<open>
  \<^verbatim>\<open>boot_alloc_at\<close>, the allocation of a block inside a given range, as \<^verbatim>\<open>vmm_finalize\<close> uses it for the page tables of the
  kernel: the block is aligned, inside the range, and moved from the free to the reserved side.
\<close>

section \<open>Allocation inside a range\<close>

text \<open>What \<^verbatim>\<open>boot_alloc_at\<close> does to the table: the part behind the block becomes a region of its own, the part before it stays.\<close>

definition carve :: "nat \<Rightarrow> u32 \<Rightarrow> u32 \<Rightarrow> region list \<Rightarrow> region list" where
  "carve i s n zs = (let reg = zs ! i;
      zs1 = (if s + n < r_end reg then zs @ [\<lparr>r_start = s + n, r_end = r_end reg\<rparr>] else zs);
      zs2 = zs1[i := reg\<lparr>r_end := s\<rparr>] in
    if s \<le> r_start reg then remove_swap i zs2 else zs2)"

lemma length_carve: "i < length zs \<Longrightarrow> length (carve i s n zs) \<le> Suc (length zs)"
  by (auto simp: carve_def Let_def remove_swap_def)

lemma carve_spec:
  assumes "i < length zs" "proper zs" "r_start (zs ! i) \<le> s" "s \<le> s + n" "s + n \<le> r_end (zs ! i)"
  shows "hits a (carve i s n zs) + of_bool (s \<le> a \<and> a < s + n) = hits a zs" and "proper (carve i s n zs)"
proof -
  let ?reg = "zs ! i"
  let ?tail = "if s + n < r_end ?reg then [\<lparr>r_start = s + n, r_end = r_end ?reg\<rparr>] else []"
  let ?new = "?reg\<lparr>r_end := s\<rparr>" and ?z = "(zs @ ?tail)[i := ?reg\<lparr>r_end := s\<rparr>]"
  have c: "carve i s n zs = (if s \<le> r_start ?reg then remove_swap i ?z else ?z)" by (simp add: carve_def Let_def)
  have i: "i < length ?z" "?z ! i = ?new" using assms(1) by (simp_all add: nth_append)
  have "hits a ?z + hits a [?reg] = hits a (zs @ ?tail) + hits a [?new]"
    using hits_update [of i "zs @ ?tail" a ?new] assms(1) by (simp add: nth_append del: hits_simps)
  moreover have "hits a [?reg] = hits a [?new] + of_bool (s \<le> a \<and> a < s + n) + hits a ?tail"
    using assms(3-5) by (auto simp: of_bool_def)
  ultimately have z: "hits a ?z + of_bool (s \<le> a \<and> a < s + n) = hits a zs" by (simp del: hits_simps(1,2))
  have "hits a (remove_swap i ?z) = hits a ?z" if "s \<le> r_start ?reg"
    using hits_remove_swap [OF i(1), of a] i(2) that by (auto simp: of_bool_def split: if_splits)
  then show "hits a (carve i s n zs) + of_bool (s \<le> a \<and> a < s + n) = hits a zs" using z c by auto
  have "proper ?z"
    using set_update_subset_insert [of "zs @ ?tail" i ?new] assms(2,3) by (auto simp: proper_def split: if_splits)
  then show "proper (carve i s n zs)" using set_remove_swap [OF i(1)] c by (auto simp: proper_def)
qed

lemma carve_apart:
  assumes "i < length zs" "proper zs" "disjoint_regions zs" "r_start (zs ! i) \<le> s" "s < s + n" "s + n \<le> r_end (zs ! i)" "apart zs"
  shows "apart (boot_allocator_sort_regions (carve i s n zs))"
proof -
  have h: "hits a (carve i s n zs) + of_bool (s \<le> a \<and> a < s + n) = hits a zs" for a
    using carve_spec(1) [OF assms(1,2,4) _ assms(6)] assms(5) by simp
  have sub: "cover (carve i s n zs) \<subseteq> cover zs"
  proof
    fix a
    assume "a \<in> cover (carve i s n zs)"
    then show "a \<in> cover zs" using h [of a] by (simp add: cover_hits)
  qed
  have ns: "s \<notin> cover (carve i s n zs)"
    using h [of s] assms(3) [unfolded disjoint_regions_def, rule_format, of s] assms(5) by (simp add: cover_hits)
  have en: "r_end r = s \<or> (\<exists>q \<in> set zs. r_end r = r_end q)" if r: "r \<in> set (carve i s n zs)" for r
  proof -
    let ?tail = "if s + n < r_end (zs ! i) then [\<lparr>r_start = s + n, r_end = r_end (zs ! i)\<rparr>] else []"
    let ?z = "(zs @ ?tail)[i := (zs ! i)\<lparr>r_end := s\<rparr>]"
    have "carve i s n zs = ?z \<or> carve i s n zs = remove_swap i ?z" by (simp add: carve_def Let_def)
    then have "set (carve i s n zs) \<subseteq> set ?z" using set_remove_swap [of i ?z] assms(1) by auto
    moreover have "set ?z \<subseteq> insert ((zs ! i)\<lparr>r_end := s\<rparr>) (set (zs @ ?tail))" by (rule set_update_subset_insert)
    moreover have "set (zs @ ?tail) \<subseteq> insert \<lparr>r_start = s + n, r_end = r_end (zs ! i)\<rparr> (set zs)" by auto
    ultimately consider "r = (zs ! i)\<lparr>r_end := s\<rparr>" | "r = \<lparr>r_start = s + n, r_end = r_end (zs ! i)\<rparr>" | "r \<in> set zs"
      using r by blast
    then show ?thesis using nth_mem [OF assms(1)] by cases (simp, force, blast)
  qed
  have "r_end r \<notin> cover (carve i s n zs)" if "r \<in> set (carve i s n zs)" for r
    using en [OF that]
  proof (elim disjE bexE)
    fix q
    assume "q \<in> set zs" "r_end r = r_end q"
    then show ?thesis using assms(7) sub by (simp add: apart_def) blast
  qed (simp add: ns)
  then show ?thesis by (simp add: apart_def)
qed

definition room :: "nat \<Rightarrow> boot_state \<Rightarrow> bool" where
  "room n b \<longleftrightarrow> length (allocations b) + n \<le> MAX_REGIONS \<and>
     (\<forall>k. length (free_zones b k) + n \<le> MAX_REGIONS \<and> length (res_zones b k) + n \<le> MAX_REGIONS)"

lemma unat_pow2: "n < 32 \<Longrightarrow> unat (2 ^ n :: u32) = 2 ^ n"
proof -
  assume n: "n < 32"
  then have "unat (of_nat (2 ^ n) :: u32) = 2 ^ n" by (simp only: unsigned_of_nat) (simp add: n take_bit_nat_eq_self)
  then show ?thesis by simp
qed

lemma unat_ALIGN:
  assumes "a = 2 ^ n" and "n < 32" "unat x + 2 ^ n \<le> 2 ^ 32"
  shows "unat (ALIGN x a) = (unat x + 2 ^ n - 1) div 2 ^ n * 2 ^ n"
proof -
  have "ALIGN x a = ALIGN_DOWN (x + (a - 1)) a" by (simp add: ALIGN_def ALIGN_DOWN_def)
  moreover have "unat (a - 1) = 2 ^ n - 1" 
    using assms(1) unat_pow2 [OF assms(2)] by (simp add: unat_sub word_le_nat_alt)
  ultimately show ?thesis
    using unat_ALIGN_DOWN [OF assms(1), of "x + (a - 1)"] assms(3) by (simp add: unat_add_nowrap)
qed

lemma add_to_zones_length:
  assumes "boot_allocator_add_to_zones z n s = Inr z'" and "length (z (zone_at s)) < MAX_REGIONS"
  shows "length (z' k) \<le> Suc (length (z k))"
  using assms sort_merge_returns [of "z (zone_at s) @ [\<lparr>r_start = s, r_end = s + n\<rparr>]"]
  by (auto simp: boot_allocator_add_to_zones_def Let_def kbind_eq_Inr)

text \<open>The state after the block \<open>[r, r + sz)\<close> has been taken, with at most one more entry in every table.\<close>

definition took_at :: "u32 \<Rightarrow> u32 \<Rightarrow> zone_type \<Rightarrow> boot_state \<Rightarrow> boot_state \<Rightarrow> bool" where
  "took_at r sz zone b b' \<longleftrightarrow> took_block r sz zone b b' \<and> frozen b' = frozen b \<and> regions b' = regions b \<and>
     total_pages b' = total_pages b \<and> (\<forall>n. room (Suc n) b \<longrightarrow> room n b') \<and>
     (apart (free_zones b zone) \<longrightarrow> apart (free_zones b' zone))"

lemma took_blockI:
  assumes "r < r + sz" "proper (free_zones b zone)" "disjoint_regions (free_zones b zone)"
    and "\<And>a. hits a fz + of_bool (r \<le> a \<and> a < r + sz) = hits a (free_zones b zone)" "proper fz"
    and "(\<Union>k. cover (rz k)) = (\<Union>k. cover (res_zones b k)) \<union> {r ..< r + sz}" "\<forall>k. proper (rz k)"
    and "free_zones b' = (free_zones b)(zone := fz)" "res_zones b' = rz"
  shows "took_block r sz zone b b'"
proof -
  let ?F = "free_zones b zone"
  have h: "hits a ?F \<le> 1" for a using assms(3) by (simp add: disjoint_regions_def)
  have "{r ..< r + sz} \<subseteq> cover ?F"
  proof
    fix a
    assume "a \<in> {r ..< r + sz}"
    then show "a \<in> cover ?F" using assms(4) [of a] by (simp add: cover_hits)
  qed
  moreover have "a \<in> cover fz \<longleftrightarrow> a \<in> cover ?F - {r ..< r + sz}" for a
    using assms(4) [of a] h [of a] by (cases "r \<le> a \<and> a < r + sz") (auto simp: cover_hits)
  moreover have "disjoint_regions fz" using assms(4) h unfolding disjoint_regions_def by (metis add_leE)
  ultimately show ?thesis using assms unfolding took_block_def by auto
qed

definition align_ok :: "u32 option \<Rightarrow> u32 \<Rightarrow> u32 \<Rightarrow> bool" where
  "align_ok al fin sz \<longleftrightarrow> (case al of None \<Rightarrow> unat fin + unat sz \<le> 2 ^ 32
     | Some a \<Rightarrow> \<exists>n < 32. a = 2 ^ n \<and> unat fin + unat sz + 2 ^ n \<le> 2 ^ 32)"

text \<open>The start of the block: not below the start of the search, and aligned.\<close>

definition place :: "u32 option \<Rightarrow> u32 \<Rightarrow> u32" where
  "place al s = (case al of None \<Rightarrow> s | Some a \<Rightarrow> ALIGN s a)"

lemma place_spec:
  assumes "align_ok al fin sz" "s < fin"
  shows "s \<le> place al s" and "unat (place al s) + unat sz < 2 ^ 32"
    and "al = Some a \<Longrightarrow> unat (place al s) mod unat a = 0"
proof -
  have "s \<le> place al s \<and> unat (place al s) + unat sz < 2 ^ 32 \<and> (\<forall>a. al = Some a \<longrightarrow> unat (place al s) mod unat a = 0)"
  proof (cases al)
    case None
    then show ?thesis using assms by (auto simp: align_ok_def place_def word_less_nat_alt)
  next
    case (Some a)
    then obtain n where n: "n < 32" "a = 2 ^ n" "unat fin + unat sz + 2 ^ n \<le> 2 ^ 32" using assms(1) by (auto simp: align_ok_def)
    have s: "unat s < unat fin" using assms(2) by (simp add: word_less_nat_alt)
    have u: "unat a = 2 ^ n" using n(1,2) by (simp add: unat_pow2)
    have v: "unat (ALIGN s a) = (unat s + 2 ^ n - 1) div 2 ^ n * 2 ^ n" using unat_ALIGN [OF n(2,1)] n(3) s by simp
    have m: "(unat s + 2 ^ n - 1) mod 2 ^ n < 2 ^ n" "(1 :: nat) \<le> 2 ^ n" by simp_all
    have "unat s \<le> (unat s + 2 ^ n - 1) div 2 ^ n * 2 ^ n"
      using div_mult_mod_eq [of "unat s + 2 ^ n - 1" "2 ^ n"] m by linarith
    moreover have "(unat s + 2 ^ n - 1) div 2 ^ n * 2 ^ n \<le> unat s + 2 ^ n - 1" by (rule div_times_less_eq_dividend)
    ultimately have "unat s \<le> unat (ALIGN s a)" "unat (ALIGN s a) + unat sz < 2 ^ 32" using v s n(3) m(2) by linarith+
    then show ?thesis using Some v u by (simp add: place_def word_le_nat_alt)
  qed
  then show "s \<le> place al s" "unat (place al s) + unat sz < 2 ^ 32" "al = Some a \<Longrightarrow> unat (place al s) mod unat a = 0" by auto
qed

text \<open>Where the block goes in a region, and whether it fits there.\<close>

definition from_reg :: "u32 \<Rightarrow> region \<Rightarrow> u32" where
  "from_reg start reg = (if start \<le> r_start reg then r_start reg else start)"

definition fits :: "u32 \<Rightarrow> u32 option \<Rightarrow> u32 \<Rightarrow> u32 \<Rightarrow> region \<Rightarrow> bool" where
  "fits sz al start fin reg \<longleftrightarrow> r_start reg < fin \<and> start < r_end reg \<and>
     place al (from_reg start reg) + sz \<le> r_end reg \<and> place al (from_reg start reg) + sz \<le> fin"

lemma fits_guard:
  "fits sz al start fin reg \<longleftrightarrow> \<not> (fin \<le> r_start reg \<or> r_end reg \<le> start) \<and>
     place al (if start \<le> r_start reg then r_start reg else start) + sz \<le> (if r_end reg < fin then r_end reg else fin)"
  unfolding fits_def from_reg_def by (simp only: not_le de_Morgan_disj if_split [of "\<lambda>x. _ \<le> x"]) (meson le_less_trans less_imp_le not_le order_trans)

text \<open>What the loop does with region \<open>i\<close> once the block fits.\<close>

definition take_from :: "nat \<Rightarrow> u32 \<Rightarrow> u32 \<Rightarrow> zone_type \<Rightarrow> bool \<Rightarrow> boot_state \<Rightarrow> (u32 \<times> boot_state) kres" where
  "take_from i s sz zone freeable b =
     kbind (boot_allocator_add_to_zones (res_zones b) sz s) (\<lambda>rz.
     kbind (log_allocation s sz freeable (b\<lparr>res_zones := rz\<rparr>)) (\<lambda>b'.
     if s + sz < r_end (free_zones b zone ! i) \<and> MAX_REGIONS \<le> length (free_zones b zone) then Inl (Panic ''boot_alloc_at'')
     else Inr (s, b'\<lparr>free_zones := (free_zones b')(zone := boot_allocator_sort_regions (carve i s sz (free_zones b zone)))\<rparr>)))"

lemma boot_alloc_at_take:
  assumes "i < length (free_zones b zone)" and reg: "reg = free_zones b zone ! i"
    and s_def: "s = place al (if start \<le> r_start reg then r_start reg else start)"
    and "r_start reg < fin" "start < r_end reg" "s + sz \<le> r_end reg" "s + sz \<le> fin"
  shows "boot_alloc_at_loop i sz zone freeable start fin al b = take_from i s sz zone freeable b"
proof -
  have s: "(case al of None \<Rightarrow> (if start \<le> r_start reg then r_start reg else start)
      | Some a \<Rightarrow> ALIGN (if start \<le> r_start reg then r_start reg else start) a) = s"
    by (simp add: s_def place_def)
  have n: "\<not> (fin \<le> r_start reg \<or> r_end reg \<le> start)" using assms(4,5) by auto
  show ?thesis
    by (subst boot_alloc_at_loop.simps, unfold Let_def reg [symmetric] s)
      (use assms(1,6,7) n in \<open>simp add: take_from_def carve_def Let_def reg\<close>)
qed

lemma boot_alloc_at_step:
  assumes "boot_ok zone b" "0 < sz" "i < length (free_zones b zone)"
    and "r_start (free_zones b zone ! i) \<le> s" "unat s + unat sz < 2 ^ 32" "s + sz \<le> r_end (free_zones b zone ! i)"
  shows "\<exists>b'. take_from i s sz zone freeable b = Inr (s, b') \<and> took_at s sz zone b b'"
proof -
  let ?fz = "free_zones b zone"
  have ok: "proper ?fz" "disjoint_regions ?fz" "\<And>k. proper (res_zones b k)" "\<And>k. length (res_zones b k) < MAX_REGIONS"
    "length (allocations b) < MAX_REGIONS" "length ?fz < MAX_REGIONS"
    using assms(1) by (auto simp: boot_ok_def)
  have lt: "s < s + sz" "s \<le> s + sz" using assms(2,5) by (simp_all add: word_less_nat_alt word_le_nat_alt unat_add_nowrap)
  obtain rz where rz: "boot_allocator_add_to_zones (res_zones b) sz s = Inr rz"
    "(\<Union>k. cover (rz k)) = (\<Union>k. cover (res_zones b k)) \<union> {s ..< s + sz}" "\<forall>k. proper (rz k)"
    using add_to_zones_spec [of "res_zones b" s sz] ok lt by auto
  note rl = add_to_zones_length [OF rz(1) ok(4)]
  note c = carve_spec [OF assms(3) ok(1) assms(4) lt(2) assms(6)]
  let ?c = "boot_allocator_sort_regions (carve i s sz ?fz)"
  let ?b = "b\<lparr>res_zones := rz, free_zones := (free_zones b)(zone := ?c),
     allocations := allocations b @ [\<lparr>ba_addr = s, ba_size = sz, ba_free = freeable\<rparr>]\<rparr>"
  have "took_block s sz zone b ?b"
    by (rule took_blockI [OF lt(1) ok(1,2), of ?c rz]) (use c rz(2,3) in simp_all)
  moreover have "room n ?b" if "room (Suc n) b" for n
  proof -
    have f: "length (carve i s sz ?fz) \<le> Suc (length ?fz)" by (rule length_carve [OF assms(3)])
    have "length (free_zones ?b k) + n \<le> MAX_REGIONS \<and> length (res_zones ?b k) + n \<le> MAX_REGIONS" for k
    proof -
      have "length (free_zones ?b k) \<le> Suc (length (free_zones b k))" "length (res_zones ?b k) \<le> Suc (length (res_zones b k))"
        using f rl [of k] by simp_all
      moreover have "length (free_zones b k) + Suc n \<le> MAX_REGIONS" "length (res_zones b k) + Suc n \<le> MAX_REGIONS"
        using that by (simp_all only: room_def)
      ultimately show ?thesis by linarith
    qed
    moreover have "length (allocations ?b) + n \<le> MAX_REGIONS" using that by (simp add: room_def)
    ultimately show ?thesis by (simp only: room_def) blast
  qed
  moreover have "apart ?fz \<Longrightarrow> apart ?c" by (rule carve_apart [OF assms(3) ok(1,2) assms(4) lt(1) assms(6)])
  ultimately have t: "took_at s sz zone b ?b" by (simp add: took_at_def)
  show ?thesis
    by (rule exI [of _ ?b], rule conjI [OF _ t])
      (use rz(1) ok(5,6) in \<open>simp add: take_from_def log_allocation_def\<close>)
qed


lemma boot_alloc_at_loop_spec:
  assumes "boot_ok zone b" "0 < sz" "align_ok al fin sz" "start < fin"
  shows "\<exists>r b'. boot_alloc_at_loop i sz zone freeable start fin al b = Inr (r, b') \<and>
    (r = 0 \<and> b' = b \<and> (\<forall>reg \<in> set (drop i (free_zones b zone)). \<not> fits sz al start fin reg) \<or>
     took_at r sz zone b b' \<and> start \<le> r \<and> r + sz \<le> fin \<and> (\<forall>a. al = Some a \<longrightarrow> unat r mod unat a = 0) \<and>
     (\<exists>reg \<in> set (free_zones b zone). fits sz al start fin reg \<and> r = place al (from_reg start reg)))"
proof (induction "length (free_zones b zone) - i" arbitrary: i rule: less_induct)
  case less
  let ?fz = "free_zones b zone"
  let ?s = "place al (from_reg start (?fz ! i))"
  show ?case
  proof (cases "i < length ?fz \<and> fits sz al start fin (?fz ! i)")
    case True
    then have i: "i < length ?fz" and in_r: "r_start (?fz ! i) < fin" "start < r_end (?fz ! i)"
      and e: "?s + sz \<le> r_end (?fz ! i)" "?s + sz \<le> fin" by (auto simp: fits_def)
    have "from_reg start (?fz ! i) < fin" using in_r(1) assms(4) by (auto simp: from_reg_def)
    note p = place_spec [OF assms(3) this]
    have f: "r_start (?fz ! i) \<le> ?s" "start \<le> ?s" using p(1) by (auto simp: from_reg_def split: if_splits)
    obtain b' where b': "boot_alloc_at_loop i sz zone freeable start fin al b = Inr (?s, b')" "took_at ?s sz zone b b'"
      using boot_alloc_at_step [OF assms(1,2) i f(1) p(2) e(1), of freeable]
        boot_alloc_at_take [OF i refl _ in_r, of ?s al sz freeable] e by (auto simp: from_reg_def)
    have "\<exists>reg \<in> set ?fz. fits sz al start fin reg \<and> ?s = place al (from_reg start reg)" using True by (intro bexI [of _ "?fz ! i"]) auto
    then show ?thesis using b' f(2) e(2) p(3) by blast
  next
    case False
    then have eq: "boot_alloc_at_loop i sz zone freeable start fin al b =
        (if i < length ?fz then boot_alloc_at_loop (i + 1) sz zone freeable start fin al b else Inr (0, b))"
      unfolding fits_guard by (subst boot_alloc_at_loop.simps) (auto simp: Let_def place_def split: option.splits)
    show ?thesis
    proof (cases "i < length ?fz")
      case True
      then have "set (drop i ?fz) = insert (?fz ! i) (set (drop (i + 1) ?fz))" by (simp add: Cons_nth_drop_Suc [symmetric])
      then show ?thesis using less [of "i + 1"] True False eq by auto
    qed (simp add: eq)
  qed
qed

lemma boot_alloc_at_spec:
  assumes "boot_ok zone b" "align_ok al fin sz" "start < fin" "0 < sz"
  shows "\<exists>r b'. boot_alloc_at sz zone freeable start fin al b = Inr (r, b') \<and>
    (r = 0 \<and> b' = b \<and> (frozen b \<or> fin < start + sz \<or> (\<forall>reg \<in> set (free_zones b zone). \<not> fits sz al start fin reg)) \<or>
     took_at r sz zone b b' \<and> start \<le> r \<and> r + sz \<le> fin \<and> (\<forall>a. al = Some a \<longrightarrow> unat r mod unat a = 0) \<and>
     (\<exists>reg \<in> set (free_zones b zone). fits sz al start fin reg \<and> r = place al (from_reg start reg)))"
  using boot_alloc_at_loop_spec [OF assms(1,4,2,3), of 0 freeable] assms(4) by (auto simp: boot_alloc_at_def word_gt_0)

section \<open>Property\<close>

text \<open>C39. While the allocator is active, \<^verbatim>\<open>boot_alloc_at\<close> with a range that ends below the top of memory returns null, and changes nothing,
  exactly when in no region of the zone an aligned block of the size fits into the range; otherwise it returns the lowest such place of a
  region, inside the range, and moves exactly that block from the free to the reserved memory.\<close>

theorem boot_alloc_at_correct:
  assumes "boot_ok zone b" "align_ok al fin sz" "start < fin" "0 < sz" "start + sz \<le> fin" "\<not> frozen b"
  shows "\<exists>r b'. boot_alloc_at sz zone freeable start fin al b = Inr (r, b') \<and>
    (r = 0 \<and> b' = b \<and> (\<forall>reg \<in> set (free_zones b zone). \<not> fits sz al start fin reg) \<or>
     took_at r sz zone b b' \<and> start \<le> r \<and> r + sz \<le> fin \<and> (\<forall>a. al = Some a \<longrightarrow> unat r mod unat a = 0) \<and>
     (\<exists>reg \<in> set (free_zones b zone). fits sz al start fin reg \<and> r = place al (from_reg start reg)))"
  using boot_alloc_at_spec [OF assms(1-4), of freeable] assms(5,6) by (auto simp: not_less [symmetric])

theorem boot_alloc_at_correct_witness:
  "\<exists>b'. boot_alloc_at 0x3000 LOWMEM_ZONE True 0x2000800 0x2008000 (Some 0x1000) boot_example = Inr (0x2001000, b') \<and>
     took_at 0x2001000 0x3000 LOWMEM_ZONE boot_example b'"
proof -
  have ok: "boot_ok LOWMEM_ZONE boot_example"
    by (simp add: boot_ok_def boot_example_def disjoint_regions_def MAX_REGIONS_def)
  have al: "align_ok (Some 0x1000) 0x2008000 0x3000" by (simp add: align_ok_def) (rule exI [of _ 12], simp)
  have z: "free_zones boot_example LOWMEM_ZONE = [\<lparr>r_start = 0x2000000, r_end = 0x2010000\<rparr>]" "\<not> frozen boot_example"
    by (simp_all add: boot_example_def)
  have "fits 0x3000 (Some 0x1000) 0x2000800 0x2008000 \<lparr>r_start = 0x2000000, r_end = 0x2010000\<rparr>"
    "place (Some 0x1000) (from_reg 0x2000800 \<lparr>r_start = 0x2000000, r_end = 0x2010000\<rparr>) = 0x2001000"
    by (simp_all add: fits_def place_def from_reg_def ALIGN_def)
  then show ?thesis
    using boot_alloc_at_correct [OF ok al, of "0x2000800" True] z by auto
qed

end
