(* ===== verification/Vmm_Boot.thy ===== *)
theory Vmm_Boot
  imports Vmm_Spec Boot_At
begin

text \<open>
  The page tables of the kernel that \<^verbatim>\<open>vmm_finalize\<close> builds at boot: the directory maps the first 896 MiB of physical memory
  at \<^verbatim>\<open>KERNEL_VADDR_BASE\<close> and nothing else.
\<close>

section \<open>Filling the tables\<close>

definition linear_entry :: "nat \<Rightarrow> u32 \<Rightarrow> u32" where
  "linear_entry i j = (of_nat i * 4 * 0x100000 + j * PAGE_SIZE) OR PTE_PRESENT_BIT OR PTE_RW_BIT"

lemma fill_pt_ent:
  assumes "tbl pt" "tbl u" "unat j < 1024"
  shows "ent (mem (fill_pt pt i s)) u j = (if u = pt then linear_entry i j else ent (mem s) u j)"
proof -
  have "ent (mem (fold (\<lambda>j. wr_phys pt (of_nat j) (linear_entry i (of_nat j))) [0..<n] s)) u j =
      (if u = pt \<and> unat j < n then linear_entry i j else ent (mem s) u j)" if "n \<le> 1024" for n
    using that
  proof (induction n)
    case (Suc n)
    have n: "unat (of_nat n :: u32) = n" using Suc.prems by (simp add: unsigned_of_nat take_bit_nat_eq_self)
    then have j: "j = of_nat n \<longleftrightarrow> unat j = n" by (metis word_unat_eq_iff)
    have "ent (mem (fold (\<lambda>j. wr_phys pt (of_nat j) (linear_entry i (of_nat j))) [0..<Suc n] s)) u j =
        (if u = pt \<and> j = of_nat n then linear_entry i (of_nat n)
         else ent (mem (fold (\<lambda>j. wr_phys pt (of_nat j) (linear_entry i (of_nat j))) [0..<n] s)) u j)"
      using ent_upd [OF assms(1,2) _ assms(3), of "of_nat n"] n Suc.prems by (simp add: wr_phys_def)
    then show ?case using Suc j by auto
  qed simp
  from this [of 1024] show ?thesis using assms(3) by (simp add: fill_pt_def linear_entry_def)
qed

text \<open>The directory and the tables: page aligned, in the first 4 MiB, and pairwise different.\<close>

definition pool_table :: "u32 \<Rightarrow> nat \<Rightarrow> u32" where
  "pool_table pool i = pool + of_nat i * PAGE_SIZE"

definition pool_ok :: "u32 \<Rightarrow> u32 \<Rightarrow> bool" where
  "pool_ok pd pool \<longleftrightarrow> unat pd mod 4096 = 0 \<and> unat pool mod 4096 = 0 \<and> unat pd < 0x400000 \<and> unat pool + 224 * 4096 \<le> 0x400000 \<and>
     (unat pd + 4096 \<le> unat pool \<or> unat pool + 224 * 4096 \<le> unat pd)"

lemma pool_table_unat:
  assumes "pool_ok pd pool" "i < 224"
  shows "unat (pool_table pool i) = unat pool + i * 4096"
proof -
  have i: "unat (of_nat i :: u32) = i" using assms(2) by (simp add: unsigned_of_nat take_bit_nat_eq_self)
  then have "unat (of_nat i * PAGE_SIZE) = i * 4096" using assms(2) by (simp add: PAGE_SIZE_def unat_mult_nowrap)
  then show ?thesis using assms by (simp add: pool_table_def pool_ok_def unat_add_nowrap)
qed

lemma pool_tables:
  assumes "pool_ok pd pool"
  shows "tbl pd" and "i < 224 \<Longrightarrow> tbl (pool_table pool i)" and "i < 224 \<Longrightarrow> pool_table pool i \<noteq> pd"
    and "i < 224 \<Longrightarrow> k < 224 \<Longrightarrow> pool_table pool i = pool_table pool k \<longleftrightarrow> i = k"
proof -
  note p = assms [unfolded pool_ok_def]
  show "tbl pd" using p by (simp add: tbl_def word_le_nat_alt)
  show "tbl (pool_table pool i)" if "i < 224"
    using pool_table_unat [OF assms that] p that by (simp add: tbl_def word_le_nat_alt mod_add_eq [symmetric])
  show "pool_table pool i \<noteq> pd" if "i < 224"
    using pool_table_unat [OF assms that] p that by (auto simp: word_unat_eq_iff)
  show "pool_table pool i = pool_table pool k \<longleftrightarrow> i = k" if "i < 224" "k < 224"
    using pool_table_unat [OF assms that(1)] pool_table_unat [OF assms that(2)] by (auto simp: word_unat_eq_iff)
qed

lemma fold_buddy: "(\<And>x s. vm_buddy (f x s) = vm_buddy s) \<Longrightarrow> vm_buddy (fold f xs s) = vm_buddy s"
  by (induction xs arbitrary: s) simp_all

lemma finalize_pde_buddy [simp]: "vm_buddy (finalize_pde pd pool i s) = vm_buddy s"
  by (simp add: finalize_pde_def Let_def fill_pt_def fold_buddy wr_phys_def bzero_phys_def)

lemma finalize_pde_ent:
  assumes "pool_ok pd pool" "i < 224" "tbl u" "unat j < 1024"
  shows "ent (mem (finalize_pde pd pool i s)) u j =
    (if u = pool_table pool i then linear_entry i j
     else if u = pd \<and> unat j = 768 + i then pool_table pool i OR PDE_PRESENT_BIT OR PDE_RW_BIT else ent (mem s) u j)"
proof -
  note t = pool_tables [OF assms(1)]
  have i: "unat (768 + of_nat i :: u32) = 768 + i"
    using assms(2) by (simp add: unat_add_nowrap unsigned_of_nat take_bit_nat_eq_self)
  then have j: "j = 768 + of_nat i \<longleftrightarrow> unat j = 768 + i" by (simp add: word_unat_eq_iff)
  show ?thesis
    using fill_pt_ent [OF t(2) [OF assms(2)] assms(3,4)] ent_zero [OF t(2) [OF assms(2)] assms(3,4)]
      ent_upd [OF t(1) assms(3) _ assms(4), of "768 + of_nat i"] i j t(3) [OF assms(2)] assms(2)
    by (auto simp: finalize_pde_def Let_def pool_table_def bzero_phys_def wr_phys_def)
qed

lemma finalize_tables:
  assumes "pool_ok pd pool" "n \<le> 224" "unat j < 1024" and s'_def: "s' = fold (finalize_pde pd pool) [0..<n] s"
  shows "ent (mem s') pd j = (if 768 \<le> unat j \<and> unat j < 768 + n
      then pool_table pool (unat j - 768) OR PDE_PRESENT_BIT OR PDE_RW_BIT else ent (mem s) pd j)"
    and "i < n \<Longrightarrow> ent (mem s') (pool_table pool i) j = linear_entry i j"
proof -
  have "ent (mem (fold (finalize_pde pd pool) [0..<n] s)) pd j = (if 768 \<le> unat j \<and> unat j < 768 + n
      then pool_table pool (unat j - 768) OR PDE_PRESENT_BIT OR PDE_RW_BIT else ent (mem s) pd j) \<and>
    (\<forall>i < n. ent (mem (fold (finalize_pde pd pool) [0..<n] s)) (pool_table pool i) j = linear_entry i j)"
    using assms(2)
  proof (induction n)
    case (Suc n)
    note t = pool_tables [OF assms(1)]
    have n: "n < 224" using Suc.prems by simp
    note pde = finalize_pde_ent [OF assms(1) n t(1) assms(3)]
    have "ent (mem (finalize_pde pd pool n s)) (pool_table pool i) j =
        (if i = n then linear_entry n j else ent (mem s) (pool_table pool i) j)" if "i < Suc n" for i s
      using finalize_pde_ent [OF assms(1) n t(2) assms(3), of i s] t(3,4) that n by simp
    then show ?case using Suc.IH Suc.prems pde t(3) [OF n] by (auto simp: less_Suc_eq)
  qed auto
  then show "ent (mem s') pd j = (if 768 \<le> unat j \<and> unat j < 768 + n
      then pool_table pool (unat j - 768) OR PDE_PRESENT_BIT OR PDE_RW_BIT else ent (mem s) pd j)"
    "i < n \<Longrightarrow> ent (mem s') (pool_table pool i) j = linear_entry i j"
    by (simp_all add: s'_def)
qed


section \<open>The linear map\<close>

text \<open>The memory after the tables have been written.\<close>

definition boot_tables :: "u32 \<Rightarrow> u32 \<Rightarrow> (u32 \<Rightarrow> u32) \<Rightarrow> bool" where
  "boot_tables pd pool m \<longleftrightarrow> pool_ok pd pool \<and>
     (\<forall>j. unat j < 1024 \<longrightarrow> ent m pd j = (if 768 \<le> unat j \<and> unat j < 992
        then pool_table pool (unat j - 768) OR PDE_PRESENT_BIT OR PDE_RW_BIT else 0)) \<and>
     (\<forall>i j. i < 224 \<and> unat j < 1024 \<longrightarrow> ent m (pool_table pool i) j = linear_entry i j)"

lemma boot_tables_made:
  assumes "pool_ok pd pool"
  shows "boot_tables pd pool (mem (fold (finalize_pde pd pool) [0..<224] (bzero_phys pd s)))"
proof -
  have z: "ent (mem (bzero_phys pd s)) pd j = 0" if "unat j < 1024" for j
    using ent_zero [OF pool_tables(1) [OF assms] pool_tables(1) [OF assms] that, of "mem s"] by (simp add: bzero_phys_def)
  show ?thesis
    unfolding boot_tables_def
    using assms finalize_tables [OF assms order_refl _ refl, where s = "bzero_phys pd s"] z by simp
qed

lemma present_bits: "present (x OR PDE_PRESENT_BIT OR PDE_RW_BIT)"
  by (simp add: present_def FLAG_IS_SET_def PDE_PRESENT_BIT_def PDE_RW_BIT_def) (simp add: bit_eq_iff bit_simps, rule exI [of _ 0], simp)

lemma boot_table_at:
  assumes "boot_tables pd pool m" "unat j < 1024"
  shows "present (ent m pd j) \<longleftrightarrow> 768 \<le> unat j \<and> unat j < 992"
    and "768 \<le> unat j \<Longrightarrow> unat j < 992 \<Longrightarrow> pt_of m pd j = pool_table pool (unat j - 768)"
proof -
  have e: "ent m pd j = (if 768 \<le> unat j \<and> unat j < 992
        then pool_table pool (unat j - 768) OR PDE_PRESENT_BIT OR PDE_RW_BIT else 0)"
    using assms by (simp add: boot_tables_def)
  then show "present (ent m pd j) \<longleftrightarrow> 768 \<le> unat j \<and> unat j < 992" using present_bits by auto
  assume j: "768 \<le> unat j" "unat j < 992"
  have "tbl (pool_table pool (unat j - 768))" using pool_tables(2) [of pd pool "unat j - 768"] assms(1) j by (simp add: boot_tables_def)
  then show "pt_of m pd j = pool_table pool (unat j - 768)"
    using e j entry_parts(1) [of "pool_table pool (unat j - 768)" "PDE_PRESENT_BIT OR PDE_RW_BIT"]
    by (simp add: pt_of_def tbl_def or.assoc PDE_PRESENT_BIT_def PDE_RW_BIT_def)
qed

lemma unat_PDE_INDEX: "unat (GET_PDE_INDEX v) = unat v div 2 ^ 22"
  by (simp add: GET_PDE_INDEX_def drop_bit_eq_div unat_div)

lemma unat_PTE_INDEX: "unat (GET_PTE_INDEX v) = unat v div 4096 mod 1024"
proof -
  have "GET_PTE_INDEX v = take_bit 10 (drop_bit 12 v)"
    by (simp add: GET_PTE_INDEX_def take_bit_eq_mask mask_eq_exp_minus_1)
  then show ?thesis by (simp add: take_bit_eq_mod drop_bit_eq_div unat_mod unat_div)
qed

lemma unat_page_offset: "unat (v AND 0xFFF :: u32) = unat v mod 4096"
proof -
  have "v AND 0xFFF = take_bit 12 v" by (simp add: take_bit_eq_mask mask_eq_exp_minus_1)
  then show ?thesis by (simp add: take_bit_eq_mod unat_mod)
qed

lemma linear_addr:
  assumes "i < 224" "unat j < 1024"
  shows "unat (of_nat i * 4 * 0x100000 + j * PAGE_SIZE) = i * 0x400000 + unat j * 4096"
proof -
  have i: "unat (of_nat i :: u32) = i" using assms(1) by (simp add: unsigned_of_nat take_bit_nat_eq_self)
  have "unat (of_nat i * 4 :: u32) = i * 4" using i assms(1) by (simp add: unat_mult_nowrap)
  then have "unat (of_nat i * 4 * 0x100000 :: u32) = i * 0x400000" using assms(1) by (simp add: unat_mult_nowrap)
  moreover have "unat (j * PAGE_SIZE) = unat j * 4096" using assms(2) by (simp add: PAGE_SIZE_def unat_mult_nowrap)
  ultimately show ?thesis using assms by (simp add: unat_add_nowrap)
qed

text \<open>Every address of the first 896 MiB is mapped at its place in the linear map.\<close>

lemma linear_map:
  assumes "boot_tables pd pool m" "x < 0x38000000"
  shows "mapped m pd (KERNEL_VADDR_BASE + x)" and "xlate m pd (KERNEL_VADDR_BASE + x) = x"
proof -
  let ?v = "KERNEL_VADDR_BASE + x" and ?i = "unat x div 0x400000"
  have x: "unat x < 0x38000000" using assms(2) by (simp add: word_less_nat_alt)
  have v: "unat ?v = 0xC0000000 + unat x" using x by (simp add: KERNEL_VADDR_BASE_def unat_add_nowrap)
  have i: "?i < 224" using x by (simp add: div_less_iff_less_mult)
  have d: "unat (GET_PDE_INDEX ?v) = 768 + ?i" unfolding unat_PDE_INDEX v using x by simp
  have p: "present (ent m pd (GET_PDE_INDEX ?v))" "pt_of m pd (GET_PDE_INDEX ?v) = pool_table pool ?i"
    using boot_table_at [OF assms(1), of "GET_PDE_INDEX ?v"] d i by simp_all
  have e: "ent m (pool_table pool ?i) (GET_PTE_INDEX ?v) = linear_entry ?i (GET_PTE_INDEX ?v)"
    using assms(1) i by (simp add: boot_tables_def)
  have pe: "present (linear_entry ?i (GET_PTE_INDEX ?v))"
    using present_bits by (simp add: linear_entry_def PTE_PRESENT_BIT_def PTE_RW_BIT_def PDE_PRESENT_BIT_def PDE_RW_BIT_def)
  show "mapped m pd ?v" using p e pe by (simp add: mapped_def)
  let ?a = "of_nat ?i * 4 * 0x100000 + GET_PTE_INDEX ?v * PAGE_SIZE"
  have a: "unat ?a = ?i * 0x400000 + (unat x div 4096 mod 1024) * 4096"
  proof -
    have "(0xC0000000 + unat x) div 4096 = 786432 + unat x div 4096" by simp
    then have "unat (GET_PTE_INDEX ?v) = unat x div 4096 mod 1024" unfolding unat_PTE_INDEX v
      using mod_mult_self1 [of "unat x div 4096" 768 1024] by (simp add: add.commute)
    then show ?thesis using linear_addr [OF i, of "GET_PTE_INDEX ?v"] by simp
  qed
  then have "unat ?a mod 4096 = 0" by simp
  then have g: "GET_ENTRY_ADDR (linear_entry ?i (GET_PTE_INDEX ?v)) = ?a"
    using entry_parts(1) [of ?a "PTE_PRESENT_BIT OR PTE_RW_BIT"]
    by (simp add: linear_entry_def or.assoc PTE_PRESENT_BIT_def PTE_RW_BIT_def)
  have "unat x = ?i * 0x400000 + (unat x div 4096 mod 1024) * 4096 + unat x mod 4096"
  proof -
    have "?i = unat x div 4096 div 1024" using div_mult2_eq [of "unat x" 4096 1024] by simp
    then show ?thesis
      using div_mult_mod_eq [of "unat x" 4096] div_mult_mod_eq [of "unat x div 4096" 1024] by linarith
  qed
  then have "unat (?a + (?v AND 0xFFF)) = unat x"
  proof -
    assume eq: "unat x = ?i * 0x400000 + (unat x div 4096 mod 1024) * 4096 + unat x mod 4096"
    have "unat (?v AND 0xFFF) = unat x mod 4096"
      unfolding unat_page_offset v using mod_mult_self1 [of "unat x" 786432 4096] by (simp add: add.commute)
    then have "unat ?a + unat (?v AND 0xFFF) = unat x" using a eq by linarith
    then show ?thesis using unat_add_nowrap [of ?a "?v AND 0xFFF"] unat_32_bound [of x] by simp
  qed
  then have "?a + (?v AND 0xFFF) = x" by (simp add: word_unat_eq_iff)
  then show "xlate m pd ?v = x" using p e pe g by (simp add: xlate_def Let_def)
qed


section \<open>Allocating the tables\<close>

definition boot_wf :: "boot_state \<Rightarrow> bool" where
  "boot_wf b \<longleftrightarrow> (\<forall>k. proper (free_zones b k) \<and> disjoint_regions (free_zones b k) \<and> proper (res_zones b k))"

lemma room_mono: "room n b \<Longrightarrow> m \<le> n \<Longrightarrow> room m b"
  unfolding room_def by (meson add_left_mono le_trans)

lemma boot_ok_wf: "boot_wf b \<Longrightarrow> room 1 b \<Longrightarrow> boot_ok zone b"
  by (simp add: boot_wf_def boot_ok_def room_def Suc_le_eq)

definition free_mem :: "boot_state \<Rightarrow> u32 set" where
  "free_mem b = (\<Union>k. cover (free_zones b k))"

definition used_mem :: "boot_state \<Rightarrow> u32 set" where
  "used_mem b = (\<Union>k. cover (res_zones b k))"

definition zoned :: "boot_state \<Rightarrow> bool" where
  "zoned b \<longleftrightarrow> (\<forall>k. \<forall>a \<in> cover (free_zones b k). zone_at a = k)"

text \<open>What taking a block means for the memory as a whole.\<close>

lemma took_mem:
  assumes t: "took_block r sz zone b b'" and "boot_wf b" "zoned b"
  shows "boot_wf b'" "zoned b'" "{r ..< r + sz} \<subseteq> {a \<in> free_mem b. zone_at a = zone}" "r < r + sz"
    "free_mem b' = free_mem b - {r ..< r + sz}" "used_mem b' = used_mem b \<union> {r ..< r + sz}"
proof -
  note t' = t [unfolded took_block_def]
  show "r < r + sz" using t' by blast
  show "boot_wf b'" unfolding boot_wf_def
  proof
    fix k
    show "proper (free_zones b' k) \<and> disjoint_regions (free_zones b' k) \<and> proper (res_zones b' k)"
      using t' assms(2) unfolding boot_wf_def by (cases "k = zone") auto
  qed
  have c: "cover (free_zones b' k) = (if k = zone then cover (free_zones b k) - {r ..< r + sz} else cover (free_zones b k))" for k
    using t' by auto
  show "zoned b'" using assms(3) unfolding zoned_def c by auto
  have inz: "{r ..< r + sz} \<subseteq> cover (free_zones b zone)" using t' by blast
  then show sub: "{r ..< r + sz} \<subseteq> {a \<in> free_mem b. zone_at a = zone}" using assms(3) unfolding zoned_def free_mem_def by blast
  show "used_mem b' = used_mem b \<union> {r ..< r + sz}" unfolding used_mem_def using t' by blast
  have "a \<notin> {r ..< r + sz}" if "a \<in> cover (free_zones b k)" "k \<noteq> zone" for a k
    using that inz assms(3) unfolding zoned_def by (metis subsetD)
  then have "a \<in> cover (free_zones b' k) \<longleftrightarrow> a \<in> cover (free_zones b k) \<and> a \<notin> {r ..< r + sz}" for a k
    unfolding c by (cases "k = zone") auto
  then show "free_mem b' = free_mem b - {r ..< r + sz}" unfolding free_mem_def by blast
qed

definition BOOT_TABLES :: u32 where "BOOT_TABLES = 224 * PAGE_SIZE"

lemma unat_add_less:
  fixes r sz :: u32
  assumes "r < r + sz"
  shows "unat (r + sz) = unat r + unat sz"
proof -
  have "unat r + unat sz < 2 ^ 32"
  proof (rule ccontr)
    assume o: "\<not> unat r + unat sz < 2 ^ 32"
    have l: "unat r < 2 ^ 32" "unat sz < 2 ^ 32" using unsigned_less [of r] unsigned_less [of sz] by simp_all
    have m: "(m + n) mod N = m + n - N" if "N \<le> m + n" "m < N" "n < N" for m n N :: nat
      using that by (simp add: le_mod_geq)
    have "unat (r + sz) = unat r + unat sz - 2 ^ 32"
      using m [OF _ l] o by (simp add: unat_word_ariths)
    then show False using assms l(2) o unfolding word_less_nat_alt by linarith
  qed
  then show ?thesis by (simp add: unat_add_nowrap)
qed

text \<open>
  One of the two allocations. It takes the lowest aligned place of a region, so that it cuts no stretch of free memory in two, and it
  succeeds when some stretch of free memory below 4 MiB is long enough.
\<close>

lemma ALIGN_least:
  assumes "unat x mod 4096 = 0" "r \<le> x" "unat x < 0x400000"
  shows "ALIGN r PAGE_SIZE \<le> x"
proof -
  have r: "unat r \<le> unat x" using assms(2) by (simp add: word_le_nat_alt)
  obtain k where k: "unat x = 4096 * k" using assms(1) by (auto simp: mod_eq_0_iff_dvd dvd_def)
  have "(unat r + 4096 - 1) div 4096 \<le> k" using r k by (simp add: less_Suc_eq_le [symmetric] div_less_iff_less_mult)
  then have "(unat r + 4096 - 1) div 4096 * 4096 \<le> unat x" using k by simp
  moreover have "unat (ALIGN r PAGE_SIZE) = (unat r + 2 ^ 12 - 1) div 2 ^ 12 * 2 ^ 12"
    by (rule unat_ALIGN) (use r assms(3) in \<open>simp_all add: PAGE_SIZE_def\<close>)
  ultimately show ?thesis by (simp add: word_le_nat_alt)
qed

abbreviation dma_low :: "boot_state \<Rightarrow> bool" where
  "dma_low b \<equiv> apart (free_zones b DMA_ZONE)"

lemma low_hole:
  assumes "zoned b" "{x ..< y} \<subseteq> free_mem b" "y \<le> 0x400000"
  shows "{x ..< y} \<subseteq> cover (free_zones b DMA_ZONE)"
proof
  fix a
  assume a: "a \<in> {x ..< y}"
  then obtain k where k: "a \<in> cover (free_zones b k)" using assms(2) by (auto simp: free_mem_def)
  have "a < 0x400000" using a assms(3) by auto
  then have "\<not> HIGHMEM_START \<le> a" "\<not> LOWMEM_START \<le> a"
    by (simp_all add: HIGHMEM_START_def LOWMEM_START_def word_le_nat_alt word_less_nat_alt)
  then have "zone_at a = DMA_ZONE" by (simp add: boot_alloc_get_addr_zone_def)
  then show "a \<in> cover (free_zones b DMA_ZONE)" using k assms(1) by (auto simp: zoned_def)
qed

lemma low_alloc:
  assumes "boot_wf b" "zoned b" "room (Suc n) b" "\<not> frozen b" "dma_low b" "0 < sz" "unat sz \<le> 0x400000"
    and hole: "{x ..< x + sz} \<subseteq> free_mem b" "unat x mod 4096 = 0" "unat x + unat sz \<le> 0x400000"
  obtains r b' where "boot_alloc_at sz DMA_ZONE True 0 (4 * 0x100000) (Some PAGE_SIZE) b = Inr (r, b')" "took_at r sz DMA_ZONE b b'"
    "unat r mod 4096 = 0" "unat r + unat sz \<le> 0x400000"
    "\<And>x y. {x ..< y} \<subseteq> free_mem b \<Longrightarrow> unat x mod 4096 = 0 \<Longrightarrow> y \<le> 0x400000 \<Longrightarrow> r \<le> x \<or> {r ..< r + sz} \<inter> {x ..< y} = {}"
proof -
  let ?fz = "free_zones b DMA_ZONE" and ?fits = "fits sz (Some PAGE_SIZE) 0 (4 * 0x100000)"
  have ok: "boot_ok DMA_ZONE b" by (rule boot_ok_wf [OF assms(1) room_mono [OF assms(3)]]) simp
  have dj: "disjoint_regions ?fz" using assms(1) by (simp add: boot_wf_def)
  have al: "align_ok (Some PAGE_SIZE) (4 * 0x100000) sz"
    using assms(7) by (simp add: align_ok_def PAGE_SIZE_def) (rule exI [of _ 12], simp)
  have pl: "place (Some PAGE_SIZE) (from_reg 0 reg) = ALIGN (r_start reg) PAGE_SIZE" for reg by (simp add: place_def from_reg_def)
  have u: "unat (x + sz) = unat x + unat sz" using hole(3) by (simp add: unat_add_nowrap)
  have xs: "x < x + sz" "x + sz \<le> 0x400000" using assms(6) hole(3) u by (simp_all add: word_less_nat_alt word_le_nat_alt)
  obtain reg where reg: "reg \<in> set ?fz" "r_start reg \<le> x" "x + sz \<le> r_end reg"
    using apart_inside [OF assms(5) low_hole [OF assms(2) hole(1) xs(2)] xs(1)] by blast
  have "ALIGN (r_start reg) PAGE_SIZE \<le> x" by (rule ALIGN_least) (use hole reg(2) assms(6) in \<open>auto simp: word_less_nat_alt\<close>)
  then have "ALIGN (r_start reg) PAGE_SIZE + sz \<le> x + sz" using u hole(3) by (simp add: word_le_nat_alt unat_add_nowrap)
  moreover have "0 < r_end reg" by (rule le_less_trans [OF _ less_le_trans [OF xs(1) reg(3)]]) simp
  ultimately have "?fits reg" using reg xs unfolding fits_def pl by auto
  then obtain r b' reg' where r: "boot_alloc_at sz DMA_ZONE True 0 (4 * 0x100000) (Some PAGE_SIZE) b = Inr (r, b')"
    "took_at r sz DMA_ZONE b b'" "r + sz \<le> 4 * 0x100000" "unat r mod unat PAGE_SIZE = 0"
    "reg' \<in> set ?fz" "?fits reg'" "r = ALIGN (r_start reg') PAGE_SIZE"
    using boot_alloc_at_spec [OF ok al _ assms(6), of 0 True] reg(1) assms(4,7) unfolding pl by (auto simp: word_le_nat_alt not_le [symmetric])
  have rs: "r < r + sz" using took_mem(4) [OF _ assms(1,2)] r(2) by (auto simp: took_at_def)
  have "from_reg 0 reg' < 4 * 0x100000" using r(6) by (simp add: fits_def from_reg_def)
  then have rb: "r_start reg' \<le> r" "r + sz \<le> r_end reg'"
    using place_spec(1) [OF al, of "r_start reg'"] r(6,7) pl [of reg'] by (simp_all add: fits_def from_reg_def)
  show thesis
  proof (rule that [OF r(1,2)])
    show "unat r mod 4096 = 0" using r(4) by (simp add: PAGE_SIZE_def)
    show "unat r + unat sz \<le> 0x400000" using r(3) unat_add_less [OF rs] by (simp add: word_le_nat_alt)
    fix v w
    assume vw: "{v ..< w} \<subseteq> free_mem b" "unat v mod 4096 = 0" "w \<le> 0x400000"
    show "r \<le> v \<or> {r ..< r + sz} \<inter> {v ..< w} = {}"
    proof (rule ccontr)
      assume "\<not> ?thesis"
      then have "v < r" "{r ..< r + sz} \<inter> {v ..< w} \<noteq> {}" by (simp_all only: de_Morgan_disj not_le not_False_eq_True)
      then obtain a where a: "v < r" "r \<le> a" "a < r + sz" "v \<le> a" "a < w" unfolding ex_in_conv [symmetric] by (elim exE) auto
      then have "v < w" by auto
      then obtain q where q: "q \<in> set ?fz" "r_start q \<le> v" "w \<le> r_end q"
        using apart_inside [OF assms(5) low_hole [OF assms(2) vw(1,3)]] by blast
      have "reg' = q" by (rule same_region [OF dj r(5) q(1), of a]) (use a q rb in auto)
      moreover have "unat v < 0x400000" using \<open>v < w\<close> vw(3) by (simp add: word_less_nat_alt word_le_nat_alt)
      ultimately have "r \<le> v" using ALIGN_least [OF vw(2), of "r_start reg'"] q(2) r(7) by simp
      then show False using a(1) by simp
    qed
  qed
qed

text \<open>
  \<^verbatim>\<open>vmm_finalize\<close> takes a page and 224 more from the free memory below 4 MiB, if there are 225 pages in a row, and leaves the
  tables of the linear map there.
\<close>

definition finalized :: "u32 \<Rightarrow> u32 \<Rightarrow> boot_state \<Rightarrow> boot_state \<Rightarrow> vmm_state \<Rightarrow> vmm_state \<Rightarrow> bool" where
  "finalized pd pool b b' s s' \<longleftrightarrow>
     (\<exists>b1. took_at pd PAGE_SIZE DMA_ZONE b b1 \<and> took_at pool BOOT_TABLES DMA_ZONE b1 b') \<and>
     boot_tables pd pool (mem s') \<and> kpage_dir s' = pd \<and> cr3 s' = pd \<and> vm_buddy s' = vm_buddy s"

definition boot_hole :: "u32 \<Rightarrow> u32 set \<Rightarrow> bool" where
  "boot_hole x A \<longleftrightarrow> unat x mod 4096 = 0 \<and> unat x + 225 * 4096 \<le> 0x400000 \<and> {x ..< x + 225 * PAGE_SIZE} \<subseteq> A"

lemma took_at_keeps:
  assumes "took_at r sz DMA_ZONE b b'" "boot_wf b" "zoned b" "room (Suc n) b" "\<not> frozen b" "dma_low b"
  shows "boot_wf b'" "zoned b'" "room n b'" "\<not> frozen b'" "dma_low b'"
  using assms took_mem(1,2) [of r sz DMA_ZONE b b'] by (auto simp: took_at_def)

lemma vmm_finalize_spec:
  assumes "boot_wf b" "zoned b" "room (Suc (Suc n)) b" "\<not> frozen b" "dma_low b" "boot_hole x (free_mem b)" "0 \<notin> free_mem b"
  shows "\<exists>pd pool b' s'. vmm_finalize b s = Inr (b', s') \<and> finalized pd pool b b' s s'"
proof -
  have x: "unat x mod 4096 = 0" "unat x + 225 * 4096 \<le> 0x400000" "{x ..< x + 225 * PAGE_SIZE} \<subseteq> free_mem b"
    using assms(6) by (auto simp: boot_hole_def)
  have sz: "unat PAGE_SIZE = 4096" "unat BOOT_TABLES = 224 * 4096" by (simp_all add: PAGE_SIZE_def BOOT_TABLES_def)
  have ux: "unat (x + PAGE_SIZE) = unat x + 4096" "unat (x + 225 * PAGE_SIZE) = unat x + 225 * 4096"
    using x(2) by (simp_all add: PAGE_SIZE_def unat_add_nowrap)
  have x2: "x + PAGE_SIZE + BOOT_TABLES = x + 225 * PAGE_SIZE" by (simp add: BOOT_TABLES_def PAGE_SIZE_def)
  have low: "x + 225 * PAGE_SIZE \<le> 0x400000" "x + PAGE_SIZE \<le> x + 225 * PAGE_SIZE"
    using x(2) ux by (simp_all add: word_le_nat_alt)
  obtain pd b1 where pd: "boot_alloc_at PAGE_SIZE DMA_ZONE True 0 (4 * 0x100000) (Some PAGE_SIZE) b = Inr (pd, b1)"
    "took_at pd PAGE_SIZE DMA_ZONE b b1" "unat pd mod 4096 = 0" "unat pd + unat PAGE_SIZE \<le> 0x400000"
    "pd \<le> x \<or> {pd ..< pd + PAGE_SIZE} \<inter> {x ..< x + 225 * PAGE_SIZE} = {}"
  proof (rule low_alloc [OF assms(1-5), of PAGE_SIZE x])
    show "{x ..< x + PAGE_SIZE} \<subseteq> free_mem b" using x(3) ivl_subset [of x "x + PAGE_SIZE" x "x + 225 * PAGE_SIZE"] low(2) by blast
  qed (use x(1,2) sz(1) that low(1) x(3) in \<open>auto simp: PAGE_SIZE_def\<close>)
  note b1 = took_at_keeps [OF pd(2) assms(1-5)]
  note m1 = took_mem [OF pd(2) [unfolded took_at_def, THEN conjunct1] assms(1,2)]
  have "{x + PAGE_SIZE ..< x + 225 * PAGE_SIZE} \<inter> {pd ..< pd + PAGE_SIZE} = {}"
  proof (cases "pd \<le> x")
    case True
    then have "pd + PAGE_SIZE \<le> x + PAGE_SIZE" using pd(4) ux(1) by (simp add: word_le_nat_alt unat_add_nowrap PAGE_SIZE_def)
    then show ?thesis by auto
  next
    case False
    have "x \<le> x + PAGE_SIZE" using ux(1) by (simp add: word_le_nat_alt)
    then have "{x + PAGE_SIZE ..< x + 225 * PAGE_SIZE} \<subseteq> {x ..< x + 225 * PAGE_SIZE}" by auto
    then show ?thesis using pd(5) False by blast
  qed
  then have hole: "{x + PAGE_SIZE ..< x + PAGE_SIZE + BOOT_TABLES} \<subseteq> free_mem b1"
  proof -
    have "x \<le> x + PAGE_SIZE" using ux(1) by (simp add: word_le_nat_alt)
    then have "{x + PAGE_SIZE ..< x + 225 * PAGE_SIZE} \<subseteq> free_mem b" 
      using x(3) ivl_subset [of "x + PAGE_SIZE" "x + 225 * PAGE_SIZE" x "x + 225 * PAGE_SIZE"] by blast
    then show ?thesis unfolding m1(5) x2 using \<open>_ \<inter> _ = {}\<close> by blast
  qed
  obtain pool b2 where pool: "boot_alloc_at BOOT_TABLES DMA_ZONE True 0 (4 * 0x100000) (Some PAGE_SIZE) b1 = Inr (pool, b2)"
    "took_at pool BOOT_TABLES DMA_ZONE b1 b2" "unat pool mod 4096 = 0" "unat pool + unat BOOT_TABLES \<le> 0x400000"
    by (rule low_alloc [OF b1 _ _ hole]) (use ux(1) x(1,2) sz(2) in \<open>auto simp: BOOT_TABLES_def PAGE_SIZE_def\<close>)
  note m2 = took_mem [OF pool(2) [unfolded took_at_def, THEN conjunct1] b1(1,2)]
  have "pd \<noteq> 0" "pool \<noteq> 0" using m1(3,4,5) m2(3,4) assms(7) by auto
  have "{pd ..< pd + PAGE_SIZE} \<inter> {pool ..< pool + BOOT_TABLES} = {}" using m2(3) m1(5) by blast
  then have "pd \<notin> {pool ..< pool + BOOT_TABLES}" "pool \<notin> {pd ..< pd + PAGE_SIZE}"
    using m1(4) m2(4) atLeastLessThan_iff [of pd pd "pd + PAGE_SIZE"] atLeastLessThan_iff [of pool pool "pool + BOOT_TABLES"]
    by blast+
  then have "pool_ok pd pool"
    using pd(3,4) pool(3,4)
    by (auto simp: pool_ok_def BOOT_TABLES_def PAGE_SIZE_def word_le_nat_alt word_less_nat_alt unat_add_nowrap)
  note t = boot_tables_made [OF this, of s]
  let ?s = "paging_reload_cr3 pd (fold (finalize_pde pd pool) [0..<224] (bzero_phys pd s)\<lparr>kpage_dir := pd\<rparr>)"
  have "vmm_finalize b s = Inr (b2, ?s)"
    using pd(1) pool(1) \<open>pd \<noteq> 0\<close> \<open>pool \<noteq> 0\<close> by (simp add: vmm_finalize_def BOOT_TABLES_def Let_def)
  moreover have "finalized pd pool b b2 s ?s"
    using t pd(2) pool(2) by (auto simp: finalized_def paging_reload_cr3_def fold_buddy bzero_phys_def)
  ultimately show ?thesis by blast
qed

end
