(* ===== verification/Boot_Memory.thy ===== *)
theory Boot_Memory
  imports Vmm_Boot
begin

text \<open>
  The memory part of \<^verbatim>\<open>init\<close> in \<^verbatim>\<open>src/arch/x86/x86.c\<close>: the memory map of the loader, the page tables of the kernel, the
  page descriptors and the page allocator, one after the other. What one step leaves is what the next one relies on, and the
  last state is one in which the page-table operations work.
\<close>

section \<open>The sequence of calls\<close>

definition init_memory :: "u32 \<Rightarrow> boot_env \<Rightarrow> (u32 \<times> mmap_entry list) list \<Rightarrow> boot_state \<Rightarrow> vmm_state
    \<Rightarrow> (u32 \<times> boot_state \<times> vmm_state) kres" where
  "init_memory mb2_magic e tags boot s =
     kbind (mb2_init mb2_magic e tags boot) (\<lambda>boot.
     kbind (vmm_finalize boot s) (\<lambda>(boot, s).
     kbind (page_descriptor_init boot) (\<lambda>(page_descriptors, ds, boot).
     kbind (buddy_init (total_pages boot) ds boot) (\<lambda>(b, boot).
     Inr (page_descriptors, boot, s\<lparr>vm_buddy := b\<rparr>)))))"

section \<open>The memory map\<close>

lemma mb2_tags_none: "filter (\<lambda>t. fst t = MULTIBOOT_TAG_TYPE_MMAP) tags = [] \<Longrightarrow> mb2_tags e tags n b = Inr (n, b)"
  by (induction tags) (auto split: if_splits)

lemma mb2_tags_one:
  "filter (\<lambda>t. fst t = MULTIBOOT_TAG_TYPE_MMAP) tags = [(k, mmap)] \<Longrightarrow>
   mb2_tags e tags n b = kbind (boot_allocator_init e mmap b) (\<lambda>b. Inr (n + 1, b))"
proof (induction tags)
  case (Cons t tags)
  then show ?case
    by (cases t) (auto simp: mb2_tags_none kbind_def split: if_splits sum.splits)
qed simp

text \<open>The boot allocator once the memory map has been read.\<close>

definition pages_cover :: "u32 \<Rightarrow> u32 set \<Rightarrow> bool" where
  "pages_cover np A \<longleftrightarrow> unat np < MAX_PAGES \<and> (\<forall>p < MAX_PAGES. (\<forall>a. page_addr_to_page a = p \<longrightarrow> a \<in> A) \<longrightarrow> p < unat np)"

lemma pages_cover_top:
  assumes "\<forall>a \<in> A. a < lim"
  shows "pages_cover (lim div PAGE_SIZE) A"
proof -
  have d: "unat (lim div PAGE_SIZE) = unat lim div 4096" by (simp add: unat_div PAGE_SIZE_def)
  have "p < unat lim div 4096" if p: "p < MAX_PAGES" and all: "\<forall>a. page_addr_to_page a = p \<longrightarrow> a \<in> A" for p
  proof -
    let ?a = "page_to_phys p + 4095"
    have a: "unat ?a = p * 4096 + 4095" using p unat_page_to_phys [OF p] by (simp add: unat_add_nowrap MAX_PAGES_def)
    then have "?a < lim" using all assms by (simp add: page_addr_to_page_div)
    then have "p * 4096 + 4096 \<le> unat lim" using a by (simp add: word_less_nat_alt)
    then show ?thesis by (simp add: less_eq_div_iff_mult_less_eq Suc_le_eq [symmetric])
  qed
  moreover have "unat lim div 4096 < MAX_PAGES" using unat_32_bound [of lim] by (simp add: MAX_PAGES_def less_mult_imp_div_less)
  ultimately show ?thesis unfolding pages_cover_def d by blast
qed

definition mem_ready :: "u32 set \<Rightarrow> boot_state \<Rightarrow> bool" where
  "mem_ready A b \<longleftrightarrow> boot_wf b \<and> zoned b \<and> room 3 b \<and> \<not> frozen b \<and> dma_low b \<and> apart (free_zones b LOWMEM_ZONE) \<and>
     free_mem b = A \<and> free_mem b \<inter> used_mem b = {} \<and> 0 \<notin> free_mem b \<and> pages_cover (total_pages b) A"

lemma zero_kept: "0 \<in> cover (kept_regs e mmap)"
proof -
  have "\<lparr>r_start = 0, r_end = 0x1000\<rparr> \<in> set (kept_regs e mmap)" by (simp add: kept_regs_def kernel_regs_def)
  then show ?thesis by (force simp: cover_def)
qed

lemma mb2_init_ready:
  assumes "boot_input_ok e mmap" "free_zones b = (\<lambda>_. [])" "res_zones b = (\<lambda>_. [])" "\<not> frozen b"
    and "filter (\<lambda>t. fst t = MULTIBOOT_TAG_TYPE_MMAP) tags = [(k, mmap)]"
  shows "\<exists>b'. mb2_init MULTIBOOT2_BOOTLOADER_MAGIC e tags b = Inr b' \<and> mem_ready (ram e mmap) b'"
proof -
  obtain b' where b': "boot_allocator_init e mmap b = Inr b'" "\<not> frozen b'" "allocations b' = []" "pages_cover (total_pages b') (ram e mmap)"
    "zones_of (free_zones b') (ram e mmap)" "\<And>k. disjoint_regions (free_zones b' k)"
    "\<And>k. k \<noteq> INVALID_ZONE \<Longrightarrow> apart (free_zones b' k)" "zones_of (res_zones b') (cover (kept_regs e mmap))"
    using init_correct [OF assms(1-3)] assms(4) pages_cover_top by auto
  have f: "free_mem b' = ram e mmap" "used_mem b' = cover (kept_regs e mmap)"
    using b'(5,8) by (auto simp: zones_of_def free_mem_def used_mem_def)
  have "boot_wf b'" "zoned b'" "room 3 b'"
    using b'(3,5,6,8) strict_proper by (auto simp: boot_wf_def zones_of_def zoned_def room_def MAX_REGIONS_def intro: order_trans)
  then have "mem_ready (ram e mmap) b'"
    using b'(2,4,7) f zero_kept by (auto simp: mem_ready_def ram_def)
  moreover have "mb2_init MULTIBOOT2_BOOTLOADER_MAGIC e tags b = Inr b'"
    using b'(1) by (simp add: mb2_init_def mb2_tags_one [OF assms(5)])
  ultimately show ?thesis by blast
qed

section \<open>The page descriptors\<close>

lemma in_reg_cover: "page_addr_is_in_reg regs a \<longleftrightarrow> a \<in> cover regs"
  by (auto simp: page_addr_is_in_reg_def list_ex_iff cover_def)

lemma state_flag:
  assumes "zoned b" "free_mem b \<inter> used_mem b = {}"
  shows "page_get_state_flag b a = PAGE_STATE_AVAILABLE \<longleftrightarrow> a \<in> free_mem b"
    and "page_get_state_flag b a \<in> {PAGE_STATE_AVAILABLE, PAGE_STATE_RESERVED, PAGE_STATE_UNUSABLE}"
proof -
  have "a \<in> free_mem b \<longleftrightarrow> a \<in> cover (free_zones b LOWMEM_ZONE) \<or> a \<in> cover (free_zones b DMA_ZONE) \<or> a \<in> cover (free_zones b HIGHMEM_ZONE)"
  proof
    assume "a \<in> free_mem b"
    then obtain k where k: "a \<in> cover (free_zones b k)" by (auto simp: free_mem_def)
    then have "k = zone_at a" using assms(1) by (auto simp: zoned_def)
    then show "a \<in> cover (free_zones b LOWMEM_ZONE) \<or> a \<in> cover (free_zones b DMA_ZONE) \<or> a \<in> cover (free_zones b HIGHMEM_ZONE)"
      using k by (auto simp: boot_alloc_get_addr_zone_def split: if_splits)
  qed (auto simp: free_mem_def)
  moreover have "a \<in> free_mem b \<Longrightarrow> a \<notin> cover (res_zones b k)" for k using assms(2) by (auto simp: used_mem_def)
  ultimately show "page_get_state_flag b a = PAGE_STATE_AVAILABLE \<longleftrightarrow> a \<in> free_mem b"
    by (auto simp: page_get_state_flag_def in_reg_cover page_state_defs)
  show "page_get_state_flag b a \<in> {PAGE_STATE_AVAILABLE, PAGE_STATE_RESERVED, PAGE_STATE_UNUSABLE}"
    by (simp add: page_get_state_flag_def)
qed

definition made_desc :: "boot_state \<Rightarrow> nat \<Rightarrow> page" where
  "made_desc b i = \<lparr>flags = page_get_appropriate_flag b (of_nat i * PAGE_SIZE), private_data = PAGE_MAGIC\<rparr>"

lemma made_desc_flags:
  assumes "zoned b" "free_mem b \<inter> used_mem b = {}"
  shows "PAGE_GET_STATE (made_desc b p) = page_get_state_flag b (page_to_phys p)"
    and "PAGE_GET_ZONE (made_desc b p) = page_get_zone_flag (page_to_phys p)"
proof -
  have a: "of_nat p * PAGE_SIZE = page_to_phys p" by (simp add: page_to_phys_def page_to_index_def)
  have z: "page_get_zone_flag x \<in> {PAGE_ZONE_DMA, PAGE_ZONE_LOWMEM, PAGE_ZONE_HIGHMEM}" for x by (simp add: page_get_zone_flag_def)
  show "PAGE_GET_STATE (made_desc b p) = page_get_state_flag b (page_to_phys p)"
    "PAGE_GET_ZONE (made_desc b p) = page_get_zone_flag (page_to_phys p)"
    using z [of "page_to_phys p"] state_flag(2) [OF assms, of "page_to_phys p"]
    by (auto simp: made_desc_def a page_get_appropriate_flag_def PAGE_GET_STATE_def PAGE_GET_ZONE_def
        PAGE_STATE_MASK_def PAGE_ZONE_MASK_def page_state_defs page_zone_defs)
qed

lemma boot_alloc_loop_keeps:
  "boot_alloc_loop n sz zone fr b = Inr (r, b') \<Longrightarrow> total_pages b' = total_pages b"
  by (induction n) (auto simp: Let_def kbind_eq_Inr log_allocation_def split: if_splits)

abbreviation DESCS :: u32 where
  "DESCS \<equiv> 0x1000000"

definition desc_hole :: "u32 \<Rightarrow> u32 set \<Rightarrow> bool" where
  "desc_hole y A \<longleftrightarrow> 0x1000000 \<le> unat y \<and> unat y + 0x1000000 \<le> 0x38000000 \<and> {y ..< y + DESCS} \<subseteq> A"

lemma zone_at_low: "zone_at a = LOWMEM_ZONE \<longleftrightarrow> 0x1000000 \<le> unat a \<and> unat a < 0x38000000"
  by (auto simp: boot_alloc_get_addr_zone_def HIGHMEM_START_def LOWMEM_START_def word_le_nat_alt)

lemma page_descriptor_init_spec:
  assumes "boot_wf b" "zoned b" "room 1 b" "\<not> frozen b" "apart (free_zones b LOWMEM_ZONE)" "desc_hole y (free_mem b)" "0 \<notin> free_mem b"
  shows "\<exists>r b'. page_descriptor_init b = Inr (r + KERNEL_VADDR_BASE, made_desc b', b') \<and> took_block r DESCS LOWMEM_ZONE b b' \<and>
    total_pages b' = total_pages b"
proof -
  have y: "0x1000000 \<le> unat y" "unat y + 0x1000000 \<le> 0x38000000" "{y ..< y + DESCS} \<subseteq> free_mem b" using assms(6) by (auto simp: desc_hole_def)
  have uy: "unat (y + DESCS) = unat y + 0x1000000" using y(2) by (simp add: unat_add_nowrap)
  have "{y ..< y + DESCS} \<subseteq> cover (free_zones b LOWMEM_ZONE)"
  proof
    fix a
    assume a: "a \<in> {y ..< y + DESCS}"
    then have "zone_at a = LOWMEM_ZONE" using y(1,2) uy unfolding zone_at_low by (simp add: word_le_nat_alt word_less_nat_alt)
    then show "a \<in> cover (free_zones b LOWMEM_ZONE)" using a y(3) assms(2) by (auto simp: free_mem_def zoned_def)
  qed
  moreover have "y < y + DESCS" using uy by (simp add: word_less_nat_alt)
  ultimately obtain reg where reg: "reg \<in> set (free_zones b LOWMEM_ZONE)" "r_start reg \<le> y" "y + DESCS \<le> r_end reg"
    using apart_inside [OF assms(5)] by blast
  have le: "r_start reg \<le> r_end reg" using assms(1) reg(1) by (auto simp: boot_wf_def proper_def)
  have "\<not> r_end reg - r_start reg < DESCS"
    using reg(2,3) uy unat_sub [OF le] by (simp add: word_le_nat_alt word_less_nat_alt)
  moreover obtain r b' where r: "boot_alloc_loop (length (free_zones b LOWMEM_ZONE)) DESCS LOWMEM_ZONE True b = Inr (r, b')"
    "r = 0 \<and> b' = b \<and> (\<forall>reg \<in> set (take (length (free_zones b LOWMEM_ZONE)) (free_zones b LOWMEM_ZONE)). r_end reg - r_start reg < DESCS) \<or>
     took_block r DESCS LOWMEM_ZONE b b'"
    using boot_alloc_loop_spec [OF boot_ok_wf [OF assms(1,3)] _ order_refl, of DESCS LOWMEM_ZONE True] by auto
  ultimately have t: "took_block r DESCS LOWMEM_ZONE b b'" using reg(1) by auto
  note m = took_mem [OF t assms(1,2)]
  have r0: "r \<in> free_mem b" "zone_at r = LOWMEM_ZONE" using m(3,4) by auto
  then have "r \<noteq> 0" "unat r < 0x38000000" using assms(7) by (auto simp: zone_at_low)
  moreover have "PHYS_TO_VIRT_LINEAR r = Inr (r + KERNEL_VADDR_BASE)"
    using \<open>unat r < 0x38000000\<close> by (simp add: PHYS_TO_VIRT_LINEAR_def KERNEL_VADDR_BASE_def word_le_nat_alt)
  ultimately have "page_descriptor_init b = Inr (r + KERNEL_VADDR_BASE, made_desc b', b')"
    using r(1) assms(4) by (simp add: page_descriptor_init_def boot_alloc_def MAX_PAGES_def made_desc_def fun_eq_iff)
  then show ?thesis using t boot_alloc_loop_keeps [OF r(1)] by blast
qed

section \<open>The whole sequence\<close>

text \<open>The blocks the initialisation keeps: the page directory, the page tables and the descriptors.\<close>

definition boot_blocks :: "u32 \<Rightarrow> u32 \<Rightarrow> u32 \<Rightarrow> u32 set" where
  "boot_blocks pd pool at = {pd ..< pd + PAGE_SIZE} \<union> {pool ..< pool + BOOT_TABLES} \<union> {at ..< at + DESCS}"

lemma page_of_aligned: "unat t mod 4096 = 0 \<Longrightarrow> page_to_phys (page_addr_to_page t) = t"
proof -
  assume t: "unat t mod 4096 = 0"
  have "unat (page_to_phys (page_addr_to_page t)) = unat t"
    using unat_page_to_phys [OF page_addr_to_page_less [of t]] t div_mult_mod_eq [of "unat t" 4096] by (simp add: page_addr_to_page_div)
  then show ?thesis by (simp add: word_unat_eq_iff)
qed

text \<open>The address space of the kernel is well formed when its tables are not among the free pages.\<close>

lemma boot_space_ok:
  assumes "boot_tables pd pool (mem s)" "buddy_inv (vm_buddy s)"
    and free: "\<And>p. p \<in> free_pages (vm_buddy s) \<Longrightarrow> page_to_phys p \<notin> {pd ..< pd + PAGE_SIZE} \<union> {pool ..< pool + BOOT_TABLES}"
  shows "space_ok pd s"
proof -
  have ok: "pool_ok pd pool" using assms(1) by (simp add: boot_tables_def)
  note t = pool_tables [OF ok] and u = pool_table_unat [OF ok] and p = ok [unfolded pool_ok_def]
  have al: "unat (pool_table pool i) mod 4096 = 0" if "i < 224" for i using u [OF that] p by (simp add: mod_add_eq [symmetric])
  have "pd \<in> {pd ..< pd + PAGE_SIZE}" using p by (simp add: word_less_nat_alt unat_add_nowrap PAGE_SIZE_def)
  then have pd: "page_addr_to_page pd \<notin> free_pages (vm_buddy s)" using free [of "page_addr_to_page pd"] page_of_aligned [of pd] p by auto
  have "pool_table pool i \<in> {pool ..< pool + BOOT_TABLES}" if "i < 224" for i
    using u [OF that] p that by (simp add: word_less_nat_alt word_le_nat_alt unat_add_nowrap PAGE_SIZE_def BOOT_TABLES_def)
  then have pt: "page_addr_to_page (pool_table pool i) \<notin> free_pages (vm_buddy s)" if "i < 224" for i
    using free [of "page_addr_to_page (pool_table pool i)"] page_of_aligned [OF al [OF that]] that by auto
  note at = boot_table_at [OF assms(1)]
  have idx: "unat j - 768 < 224" if "768 \<le> unat j" "unat j < 992" for j :: u32 using that by linarith
  have inj: "i = j" if "unat i < 1024" "unat j < 1024" "present (ent (mem s) pd i)" "present (ent (mem s) pd j)"
      "pt_of (mem s) pd i = pt_of (mem s) pd j" for i j
  proof -
    have i: "768 \<le> unat i" "unat i < 992" "768 \<le> unat j" "unat j < 992" using that at(1) by auto
    then have "pool_table pool (unat i - 768) = pool_table pool (unat j - 768)" using at(2) that by simp
    then have "unat i - 768 = unat j - 768" using t(4) idx i by blast
    then show ?thesis using i by (simp add: word_unat_eq_iff)
  qed
  have "pd_wf pd s" unfolding pd_wf_def
    using t(1-3) at pd pt idx inj by (intro conjI allI impI) (auto simp del: atLeastLessThan_iff)
  moreover have "tables_owned pd s" unfolding tables_owned_def dyn_index_def using at(1) by auto
  ultimately show ?thesis using assms(2) by (simp add: space_ok_def)
qed

lemma desc_hole_kept:
  assumes "desc_hole y (free_mem b)" "zoned b" "free_zones b' LOWMEM_ZONE = free_zones b LOWMEM_ZONE"
  shows "desc_hole y (free_mem b')"
proof -
  have "a \<in> free_mem b'" if a: "a \<in> {y ..< y + DESCS}" for a
  proof -
    have u: "unat (y + DESCS) = unat y + 0x1000000" using assms(1) by (simp add: desc_hole_def unat_add_nowrap)
    have "zone_at a = LOWMEM_ZONE"
      using a assms(1) u unfolding zone_at_low by (simp add: desc_hole_def word_le_nat_alt word_less_nat_alt)
    moreover have "a \<in> free_mem b" using a assms(1) by (auto simp: desc_hole_def)
    ultimately have "a \<in> cover (free_zones b' LOWMEM_ZONE)" using assms(2,3) by (auto simp: free_mem_def zoned_def)
    then show ?thesis by (auto simp: free_mem_def)
  qed
  then show ?thesis using assms(1) by (auto simp: desc_hole_def)
qed

lemma buddy_init_made:
  assumes "zoned b" "free_mem b \<inter> used_mem b = {}" "0 \<notin> free_mem b" "unat np < MAX_PAGES"
  shows "\<exists>bd. buddy_init np (made_desc b) b = Inr (bd, boot_allocator_freeze b) \<and> buddy_inv bd \<and>
    free_pages bd = {p. p < unat np \<and> page_to_phys p \<in> free_mem b}"
proof -
  note fl = made_desc_flags [OF assms(1,2)] and st = state_flag [OF assms(1,2)]
  have "page_to_phys 0 = 0" by (simp add: page_to_phys_def page_to_index_def)
  then have "PAGE_GET_STATE (made_desc b 0) \<noteq> PAGE_STATE_AVAILABLE" using assms(3) by (simp add: fl st)
  moreover have "PAGE_GET_STATE (made_desc b p) \<notin> {PAGE_STATE_FREE, PAGE_STATE_ALLOCATED}" for p
    using st(2) [of "page_to_phys p"] by (auto simp: fl page_state_defs)
  ultimately show ?thesis
    using buddy_init_correct [of "made_desc b" np b] assms(4) unfolding fl(2) fl(1) st(1) by simp
qed

text \<open>C14. The memory part of \<^verbatim>\<open>init\<close> as a whole. From a memory map whose ranges the initialisation can handle, with 225 free
  pages in a row below 4 MiB for the page tables and 16 MiB in a row of low memory for the descriptors, it never panics. Afterwards the page
  directory that is loaded maps the first 896 MiB of memory at \<^verbatim>\<open>KERNEL_VADDR_BASE\<close>, every invariant of the page-table and
  page-frame operations holds, the boot allocator is frozen, and the free pages are exactly the pages of RAM whose first byte is outside of
  the kernel's own ranges and of the three blocks taken on the way; no page that is RAM throughout is missing.\<close>

theorem init_memory_correct:
  assumes "filter (\<lambda>t. fst t = MULTIBOOT_TAG_TYPE_MMAP) tags = [(k, mmap)]" "boot_input_ok e mmap"
    and "free_zones b = (\<lambda>_. [])" "res_zones b = (\<lambda>_. [])" "\<not> frozen b"
    and "boot_hole x (ram e mmap)" "desc_hole y (ram e mmap)"
  shows "\<exists>pd pool at b' s'. init_memory MULTIBOOT2_BOOTLOADER_MAGIC e tags b s = Inr (at + KERNEL_VADDR_BASE, b', s') \<and>
    frozen b' \<and> kpage_dir s' = pd \<and> cr3 s' = pd \<and> space_ok pd s' \<and>
    (\<forall>x < 0x38000000. mapped (mem s') pd (KERNEL_VADDR_BASE + x) \<and> xlate (mem s') pd (KERNEL_VADDR_BASE + x) = x) \<and>
    boot_blocks pd pool at \<subseteq> ram e mmap \<and>
    free_pages (vm_buddy s') = {p. p < unat (total_pages b') \<and> page_to_phys p \<in> ram e mmap - boot_blocks pd pool at} \<and>
    (\<forall>p < MAX_PAGES. (\<forall>a. page_addr_to_page a = p \<longrightarrow> a \<in> ram e mmap) \<longrightarrow> p < unat (total_pages b'))"
proof -
  obtain b0 where b0: "mb2_init MULTIBOOT2_BOOTLOADER_MAGIC e tags b = Inr b0" "mem_ready (ram e mmap) b0"
    using mb2_init_ready [OF assms(2-5,1)] by blast
  note r0 = b0(2) [unfolded mem_ready_def]
  have r: "boot_wf b0" "zoned b0" "room (Suc (Suc 1)) b0" "\<not> frozen b0" "dma_low b0" "boot_hole x (free_mem b0)" "0 \<notin> free_mem b0"
    using r0 assms(6) by (auto simp: numeral_3_eq_3)
  obtain pd pool b1 s1 where f: "vmm_finalize b0 s = Inr (b1, s1)" "finalized pd pool b0 b1 s s1"
    using vmm_finalize_spec [OF r] by blast
  obtain bm where t1: "took_at pd PAGE_SIZE DMA_ZONE b0 bm" and t2: "took_at pool BOOT_TABLES DMA_ZONE bm b1"
    and tb: "boot_tables pd pool (mem s1)" "kpage_dir s1 = pd" "cr3 s1 = pd"
    using f(2) by (auto simp: finalized_def)
  note k1 = took_at_keeps [OF t1 r(1-5)]
  note k2 = took_at_keeps [OF t2 k1]
  note m1 = took_mem [OF t1 [unfolded took_at_def, THEN conjunct1] r(1,2)]
  note m2 = took_mem [OF t2 [unfolded took_at_def, THEN conjunct1] k1(1,2)]
  have low: "free_zones b1 LOWMEM_ZONE = free_zones b0 LOWMEM_ZONE" "total_pages b1 = total_pages b0"
    using t1 t2 by (auto simp: took_at_def took_block_def)
  then have ap: "apart (free_zones b1 LOWMEM_ZONE)" using r0 by simp
  have hole: "desc_hole y (free_mem b1)" by (rule desc_hole_kept [OF _ r(2) low(1)]) (use r0 assms(7) in simp)
  have z1: "0 \<notin> free_mem b1" using r(7) m1(5) m2(5) by simp
  obtain at b2 where d: "page_descriptor_init b1 = Inr (at + KERNEL_VADDR_BASE, made_desc b2, b2)" "took_block at DESCS LOWMEM_ZONE b1 b2"
    "total_pages b2 = total_pages b1"
    using page_descriptor_init_spec [OF k2(1-4) ap hole z1] by blast
  note m3 = took_mem [OF d(2) k2(1,2)]
  have mem: "free_mem b2 = ram e mmap - boot_blocks pd pool at" using r0 m1(5) m2(5) m3(5) by (auto simp: boot_blocks_def)
  have dj: "free_mem b2 \<inter> used_mem b2 = {}" using r0 m1(5,6) m2(5,6) m3(5,6) by auto
  have tp: "pages_cover (total_pages b2) (ram e mmap)" using r0 d(3) low(2) by simp
  obtain bd where bd: "buddy_init (total_pages b2) (made_desc b2) b2 = Inr (bd, boot_allocator_freeze b2)" "buddy_inv bd"
    and fp: "free_pages bd = {p. p < unat (total_pages b2) \<and> page_to_phys p \<in> ram e mmap - boot_blocks pd pool at}"
    using buddy_init_made [OF m3(2) dj] z1 m3(5) tp unfolding mem [symmetric] pages_cover_def by blast
  let ?s = "s1\<lparr>vm_buddy := bd\<rparr>" and ?b = "boot_allocator_freeze b2"
  have sp: "space_ok pd ?s" by (rule boot_space_ok [of pd pool]) (use tb(1) bd(2) fp in \<open>auto simp: boot_blocks_def\<close>)
  have "boot_blocks pd pool at \<subseteq> ram e mmap" using m1(3,5) m2(3,5) m3(3) r0 unfolding boot_blocks_def by blast
  moreover have "init_memory MULTIBOOT2_BOOTLOADER_MAGIC e tags b s = Inr (at + KERNEL_VADDR_BASE, ?b, ?s)"
    by (simp add: init_memory_def b0(1) f(1) d(1) bd(1))
  moreover have "frozen ?b" "total_pages ?b = total_pages b2" by (simp_all add: boot_allocator_freeze_def)
  moreover have "\<forall>x < 0x38000000. mapped (mem ?s) pd (KERNEL_VADDR_BASE + x) \<and> xlate (mem ?s) pd (KERNEL_VADDR_BASE + x) = x"
    using linear_map [OF tb(1)] by simp
  ultimately show ?thesis using sp fp tb(2,3) tp [unfolded pages_cover_def] by (intro exI [of _ pd] exI [of _ pool] exI [of _ at] exI [of _ ?b] exI [of _ ?s]) simp
qed

theorem init_memory_correct_witness:
  "\<forall>s. \<exists>at b' s'. init_memory MULTIBOOT2_BOOTLOADER_MAGIC example_env [(1, []), (6, example_mmap), (9, [])] boot_zero s =
     Inr (at + KERNEL_VADDR_BASE, b', s') \<and> frozen b' \<and> space_ok (cr3 s') s' \<and> xlate (mem s') (cr3 s') 0xC0100000 = 0x100000"
proof
  fix s
  note * = init_memory_correct [of "[(1, []), (6, example_mmap), (9, [])]" 6 example_mmap example_env boot_zero "0x200000" "0x2000000" s]
  have u: "{0x200000 ..< 0x2e1000} \<subseteq> ram example_env example_mmap" "{0x2000000 ..< 0x3000000} \<subseteq> ram example_env example_mmap"
    using example_ram by (auto simp: subset_iff word_le_nat_alt word_less_nat_alt)
  then have "boot_hole 0x200000 (ram example_env example_mmap)" "desc_hole 0x2000000 (ram example_env example_mmap)"
    by (simp_all add: boot_hole_def desc_hole_def PAGE_SIZE_def)
  then obtain pd pool at b' s' where r:
    "init_memory MULTIBOOT2_BOOTLOADER_MAGIC example_env [(1, []), (6, example_mmap), (9, [])] boot_zero s = Inr (at + KERNEL_VADDR_BASE, b', s')"
    "frozen b'" "cr3 s' = pd" "space_ok pd s'" "\<forall>x < 0x38000000. xlate (mem s') pd (KERNEL_VADDR_BASE + x) = x"
    using * example_input_ok by (auto simp: MULTIBOOT_TAG_TYPE_MMAP_def boot_zero_def)
  have "xlate (mem s') pd (KERNEL_VADDR_BASE + 0x100000) = 0x100000" using r(5) by simp
  then show "\<exists>at b' s'. init_memory MULTIBOOT2_BOOTLOADER_MAGIC example_env [(1, []), (6, example_mmap), (9, [])] boot_zero s =
     Inr (at + KERNEL_VADDR_BASE, b', s') \<and> frozen b' \<and> space_ok (cr3 s') s' \<and> xlate (mem s') (cr3 s') 0xC0100000 = 0x100000"
    using r(1-4) by (intro exI [of _ at] exI [of _ b'] exI [of _ s']) (simp add: KERNEL_VADDR_BASE_def)
qed

end
