(* ===== verification/Buddy_Test.thy ===== *)
theory Buddy_Test
  imports Buddy_Spec
begin

text \<open>
  The self test of the page allocator, \<^verbatim>\<open>debug_buddy\<close> in \<^verbatim>\<open>src/memory/buddy.c\<close>. It checks lists and counters, takes blocks of
  every order, drains the lower orders, splits and merges, and stops the kernel when it finds something unexpected. The theory shows
  that it never finds anything in a state that satisfies the invariant, and that it stops the kernel nevertheless
  when a zone has fewer than two blocks of the largest order. Its messages are left out, and so is the test for a null node, which no list of the model has.
\<close>

section \<open>The checks\<close>

text \<open>A test that may not end is \<open>None\<close>; \<^verbatim>\<open>debug_buddy_panic\<close> is a panic.\<close>

definition test_bind :: "'a kres option \<Rightarrow> ('a \<Rightarrow> 'b kres option) \<Rightarrow> 'b kres option" where
  "test_bind m f = (case m of None \<Rightarrow> None | Some r \<Rightarrow> (case r of Inl e \<Rightarrow> Some (Inl e) | Inr x \<Rightarrow> f x))"

lemma test_bind_simps [simp]:
  "test_bind None f = None" "test_bind (Some (Inl e)) f = Some (Inl e)" "test_bind (Some (Inr x)) f = f x"
  by (simp_all add: test_bind_def)

fun corrupted_walk :: "nat list \<Rightarrow> u32 \<Rightarrow> u32 \<Rightarrow> unit kres" where
  "corrupted_walk [] cnt limit = Inr ()"
| "corrupted_walk (cur # rest) cnt limit =
     (if limit < cnt + 1 then Inl (Panic ''debug_buddy_corrupted_list'') else corrupted_walk rest (cnt + 1) limit)"

definition debug_buddy_corrupted_list :: "nat \<Rightarrow> zone_type \<Rightarrow> buddy_state \<Rightarrow> unit kres" where
  "debug_buddy_corrupted_list order zone b =
     (let size = nr_free b zone order; limit = (if size = 0 then 2000 else size * 4) in
      corrupted_walk (free_list b zone order) 0 limit)"

fun corrupted_orders :: "nat list \<Rightarrow> zone_type \<Rightarrow> buddy_state \<Rightarrow> unit kres" where
  "corrupted_orders [] zone b = Inr ()"
| "corrupted_orders (order # os) zone b =
     kbind (debug_buddy_corrupted_list order zone b) (\<lambda>_. corrupted_orders os zone b)"

definition debug_buddy_check_all_list_corrumption :: "zone_type \<Rightarrow> buddy_state \<Rightarrow> unit kres" where
  "debug_buddy_check_all_list_corrumption zone b = corrupted_orders [0..<Suc MAX_ORDER] zone b"

definition lost_pages :: "boot_state \<Rightarrow> buddy_state \<Rightarrow> nat list" where
  "lost_pages boot b = filter (\<lambda>i. PAGE_IS_FREE (descs b i) \<and>
     \<not> list_ex (\<lambda>reg. r_start reg \<le> of_nat i * PAGE_SIZE \<and> of_nat i * PAGE_SIZE < r_end reg) (regions boot FREE_MEMORY))
     [0..<unat (total_pages boot)]"

definition debug_buddy_check_lost_pages :: "boot_state \<Rightarrow> buddy_state \<Rightarrow> unit kres" where
  "debug_buddy_check_lost_pages boot b =
     (if 0 < length (lost_pages boot b) then Inl (Panic ''debug_buddy_check_lost_pages'') else Inr ())"

definition debug_buddy_alloc_still_free :: "nat \<Rightarrow> u32 \<Rightarrow> zone_type \<Rightarrow> buddy_state \<Rightarrow> unit kres" where
  "debug_buddy_alloc_still_free order phys zone b =
     (if list_ex (\<lambda>cur. page_to_phys cur = phys) (free_list b zone order)
      then Inl (Panic ''debug_buddy_alloc_still_free'') else Inr ())"

definition alloc_block_with_order :: "nat \<Rightarrow> zone_type \<Rightarrow> buddy_state \<Rightarrow> (u32 \<times> buddy_state) kres" where
  "alloc_block_with_order order zone b = buddy_alloc_pages (PAGE_BY_ORDER order * PAGE_SIZE) zone b"

section \<open>The tests\<close>

partial_function (option) drain_order :: "nat \<Rightarrow> zone_type \<Rightarrow> buddy_state \<Rightarrow> buddy_state kres option" where
  "drain_order order zone b =
     (if nr_free b zone order = 0 then Some (Inr b)
      else case alloc_block_with_order order zone b of Inl e \<Rightarrow> Some (Inl e)
        | Inr x \<Rightarrow> if fst x = 0 then Some (Inl (Panic ''buddy_drain_lower_orders'')) else drain_order order zone (snd x))"

fun drain_orders :: "nat list \<Rightarrow> zone_type \<Rightarrow> buddy_state \<Rightarrow> buddy_state kres option" where
  "drain_orders [] zone b = Some (Inr b)"
| "drain_orders (order # os) zone b = test_bind (drain_order order zone b) (\<lambda>b.
     if nr_free b zone order \<noteq> 0 then Some (Inl (Panic ''buddy_drain_lower_orders'')) else drain_orders os zone b)"

definition buddy_drain_lower_orders :: "zone_type \<Rightarrow> buddy_state \<Rightarrow> buddy_state kres option" where
  "buddy_drain_lower_orders zone b = drain_orders [0..<MAX_ORDER] zone b"

fun simple_allocs :: "nat list \<Rightarrow> zone_type \<Rightarrow> buddy_state \<Rightarrow> buddy_state kres" where
  "simple_allocs [] zone b = Inr b"
| "simple_allocs (i # is) zone b =
     (if 0 < nr_free b zone i then
        kbind (alloc_block_with_order i zone b) (\<lambda>(ret, b).
        kbind (debug_buddy_alloc_still_free i ret zone b) (\<lambda>_. simple_allocs is zone b))
      else simple_allocs is zone b)"

definition debug_buddy_simple_alloc :: "zone_type \<Rightarrow> buddy_state \<Rightarrow> buddy_state kres" where
  "debug_buddy_simple_alloc zone b = simple_allocs (rev [0..<Suc MAX_ORDER]) zone b"

fun split_tests :: "nat list \<Rightarrow> zone_type \<Rightarrow> buddy_state \<Rightarrow> buddy_state kres option" where
  "split_tests [] zone b = Some (Inr b)"
| "split_tests (order # os) zone b =
     test_bind (Some (buddy_alloc_pages (ORDER_TO_BYTES order) zone b)) (\<lambda>(block, b).
     if block = 0 then Some (Inr b)
     else test_bind (Some (debug_buddy_alloc_still_free order block zone b)) (\<lambda>_.
       if list_ex (\<lambda>i. nr_free b zone i \<noteq> 1) [order..<MAX_ORDER] then Some (Inl (Panic ''debug_buddy_split_block''))
       else test_bind (Some (debug_buddy_check_all_list_corrumption zone b)) (\<lambda>_.
         test_bind (Some (debug_buddy_simple_alloc zone b)) (\<lambda>b.
         test_bind (buddy_drain_lower_orders zone b) (split_tests os zone)))))"

definition debug_buddy_split_block :: "zone_type \<Rightarrow> buddy_state \<Rightarrow> buddy_state kres option" where
  "debug_buddy_split_block zone b = test_bind (buddy_drain_lower_orders zone b) (split_tests (rev [0..<MAX_ORDER]) zone)"

fun free_tests :: "nat list \<Rightarrow> zone_type \<Rightarrow> buddy_state \<Rightarrow> buddy_state kres" where
  "free_tests [] zone b = Inr b"
| "free_tests (order # os) zone b =
     kbind (buddy_alloc_pages (ORDER_TO_BYTES order) zone b) (\<lambda>(block, b).
     kbind (debug_buddy_alloc_still_free order block zone b) (\<lambda>_.
     kbind (buddy_free_block block b) (\<lambda>b.
     if list_ex (\<lambda>i. nr_free b zone i \<noteq> 0) [order..<MAX_ORDER] then Inl (Panic ''debug_buddy_free_block'')
     else free_tests os zone b)))"

definition debug_buddy_free_block :: "zone_type \<Rightarrow> buddy_state \<Rightarrow> buddy_state kres option" where
  "debug_buddy_free_block zone b =
     test_bind (buddy_drain_lower_orders zone b) (\<lambda>b. Some (free_tests [0..<Suc MAX_ORDER] zone b))"

definition debug_zone :: "boot_state \<Rightarrow> zone_type \<Rightarrow> buddy_state \<Rightarrow> buddy_state kres option" where
  "debug_zone boot zone b =
     test_bind (Some (debug_buddy_check_lost_pages boot b)) (\<lambda>_.
     test_bind (Some (debug_buddy_check_all_list_corrumption zone b)) (\<lambda>_.
     test_bind (Some (debug_buddy_simple_alloc zone b)) (\<lambda>b.
     test_bind (Some (debug_buddy_check_all_list_corrumption zone b)) (\<lambda>_.
     test_bind (debug_buddy_free_block zone b) (\<lambda>b.
     test_bind (debug_buddy_split_block zone b) (buddy_drain_lower_orders zone))))))"

fun debug_zones :: "boot_state \<Rightarrow> zone_type list \<Rightarrow> buddy_state \<Rightarrow> buddy_state kres option" where
  "debug_zones boot [] b = Some (Inr b)"
| "debug_zones boot (zone # zones) b = test_bind (debug_zone boot zone b) (debug_zones boot zones)"

definition debug_buddy :: "boot_state \<Rightarrow> buddy_state \<Rightarrow> buddy_state kres option" where
  "debug_buddy boot b = debug_zones boot [LOWMEM_ZONE, DMA_ZONE, HIGHMEM_ZONE] b"

section \<open>What an allocation does to the lengths of the lists\<close>

definition len :: "buddy_state \<Rightarrow> zone_type \<Rightarrow> nat \<Rightarrow> nat" where
  "len b z k = length (free_list b z k)"

lemma split_lens:
  "split_block_to_order n c ptr z b = Inr (r, b') \<Longrightarrow> n \<le> c \<Longrightarrow>
   len b' w j = len b w j + (if w = z \<and> n \<le> j \<and> j < c then 1 else 0)"
proof (induction n c ptr z b arbitrary: b' rule: split_block_to_order.induct)
  case (1 n ptr z b)
  then show ?case by (auto split: if_splits)
next
  case (2 n c ptr z b)
  show ?case
  proof (cases "Suc c = n")
    case False
    let ?h = "page_addr_to_page ptr + unat (PAGE_BY_ORDER c)"
    obtain b1 where b1: "set_block_metadata ?h c PAGE_STATE_FREE b = Inr b1"
      "split_block_to_order n c ptr z (push_block ?h c z b1) = Inr (r, b')"
      using 2(2) False by (auto simp: Let_def kbind_eq_Inr split: if_splits)
    have fl: "free_list b1 = free_list b" using b1(1) by (auto simp: set_block_metadata_def Let_def split: if_splits)
    have "len b' w j = len (push_block ?h c z b1) w j + (if w = z \<and> n \<le> j \<and> j < c then 1 else 0)"
      by (rule 2(1)) (use 2(2,3) False b1 in \<open>auto split: if_splits\<close>)
    then show ?thesis using 2(3) False fl by (auto simp: push_block_def len_def)
  qed (use 2(2) in \<open>auto split: if_splits\<close>)
qed

lemma order_of_bytes:
  assumes "n \<le> 10"
  shows "size_to_order (ORDER_TO_BYTES n) = n" and "alloc_block_with_order n z b = buddy_alloc_pages (ORDER_TO_BYTES n) z b"
proof -
  have le: "(2 :: nat) ^ n \<le> 2 ^ 10" using assms by (intro power_increasing) auto
  have u: "unat (ORDER_TO_BYTES n) = 2 ^ n * 4096"
    using le by (simp add: ORDER_TO_BYTES_def PAGE_SIZE_def PAGE_BY_ORDER_unat [OF assms] unat_mult_nowrap)
  have "(LEAST m. (2 :: nat) ^ n * 4096 \<le> 2 ^ m * 4096) = n" by (rule Least_equality) (auto simp: power_increasing_iff)
  then show "size_to_order (ORDER_TO_BYTES n) = n" using size_to_order_least [of "ORDER_TO_BYTES n"] u le by simp
  show "alloc_block_with_order n z b = buddy_alloc_pages (ORDER_TO_BYTES n) z b"
    by (simp add: alloc_block_with_order_def ORDER_TO_BYTES_def)
qed

lemma pop_lens:
  "pop_first_block c z b = (r, b') \<Longrightarrow> r \<noteq> 0 \<Longrightarrow> free_list b z c \<noteq> [] \<and> len b' w j = len b w j - (if w = z \<and> j = c then 1 else 0)"
  by (cases "free_list b z c") (auto simp: pop_first_block_def len_def)

text \<open>An allocation of order \<open>n\<close> that takes a block of order \<open>c\<close>.\<close>

definition taken :: "nat \<Rightarrow> nat \<Rightarrow> zone_type \<Rightarrow> u32 \<Rightarrow> buddy_state \<Rightarrow> buddy_state \<Rightarrow> bool" where
  "taken n c z r b b' \<longleftrightarrow> n \<le> c \<and> c \<le> 10 \<and> 0 < len b z c \<and> (\<forall>j. n \<le> j \<and> j < c \<longrightarrow> len b z j = 0) \<and> r \<noteq> 0 \<and>
     buddy_inv b' \<and> (\<exists>p. r = page_to_phys p \<and> allocated_block p n z b b') \<and>
     (\<forall>w j. len b' w j = len b w j - (if w = z \<and> j = c then 1 else 0) + (if w = z \<and> n \<le> j \<and> j < c then 1 else 0))"

lemma alloc_cases:
  assumes inv: "buddy_inv b" and z: "z \<noteq> INVALID_ZONE" and n: "n \<le> 10"
  obtains "buddy_alloc_pages (ORDER_TO_BYTES n) z b = Inr (0, b)" "\<forall>k. n \<le> k \<and> k \<le> 10 \<longrightarrow> len b z k = 0"
  | c r b' where "buddy_alloc_pages (ORDER_TO_BYTES n) z b = Inr (r, b')" "taken n c z r b b'"
proof -
  let ?sz = "ORDER_TO_BYTES n" and ?c = "find_order n z b"
  note so = order_of_bytes(1) [OF n]
  have ok: "lists_ok b {}" using inv by (simp add: buddy_inv_def inv_except_def)
  have fo: "n \<le> ?c" "?c \<le> 11" "\<forall>j. n \<le> j \<and> j < ?c \<longrightarrow> len b z j = 0"
    using find_order_spec [of n z b] n nr_free_zero [OF ok] by (auto simp: BAD_ORDER_def len_def)
  show thesis
  proof (cases "\<exists>k. n \<le> k \<and> k \<le> 10 \<and> free_list b z k \<noteq> []")
    case False
    then show ?thesis using buddy_alloc_spec [OF inv z, of ?sz] so that(1) by (auto simp: len_def)
  next
    case True
    then obtain p b' where a: "buddy_alloc_pages ?sz z b = Inr (page_to_phys p, b')" "buddy_inv b'" "allocated_block p n z b b'"
      using buddy_alloc_spec [OF inv z, of ?sz] so by auto
    have nz: "page_to_phys p \<noteq> 0" using a(3) page_to_phys_nz by (simp add: allocated_block_def block_at_def)
    obtain block b0 b1 where s: "?c \<noteq> BAD_ORDER" "pop_first_block ?c z b = (block, b0)" "block \<noteq> 0"
      "split_block_to_order n ?c block z b0 = Inr (page_to_phys p, b1)"
      "set_block_metadata (page_addr_to_page (page_to_phys p)) n PAGE_STATE_ALLOCATED b1 = Inr b'"
      using a(1) so nz by (auto simp: buddy_alloc_pages_def Let_def kbind_eq_Inr split: if_splits prod.splits)
    have "free_list b' = free_list b1" using s(5) by (auto simp: set_block_metadata_def Let_def split: if_splits)
    then have "len b' w j = len b w j - (if w = z \<and> j = ?c then 1 else 0) + (if w = z \<and> n \<le> j \<and> j < ?c then 1 else 0)" for w j
      using split_lens [OF s(4) fo(1), of w j] pop_lens [OF s(2,3), of w j] by (simp add: len_def)
    then have "taken n ?c z (page_to_phys p) b b'"
      using fo s(1) pop_lens [OF s(2,3)] nz a(2,3) by (auto simp: taken_def BAD_ORDER_def len_def)
    then show ?thesis using that(2) a(1) by blast
  qed
qed

text \<open>A block that was just allocated is on no list; nor is the null pointer.\<close>

lemma still_free_ok:
  assumes "lists_ok b {}" and "r = 0 \<or> (\<exists>p. r = page_to_phys p \<and> p < MAX_PAGES \<and> pstate b p \<noteq> PAGE_STATE_FREE)"
  shows "debug_buddy_alloc_still_free k r z b = Inr ()"
proof -
  have "page_to_phys q \<noteq> r" if q: "q \<in> set (free_list b z k)" for q
  proof -
    note ql = lists_okD(3,7,8) [OF assms(1) q]
    have "page_to_phys q \<noteq> 0" by (rule page_to_phys_nz [OF ql(1,2)])
    moreover have "q = p" if "page_to_phys q = page_to_phys p" "p < MAX_PAGES" for p using page_to_phys_inj [OF ql(1) that(2)] that(1) by simp
    moreover have "pstate b q = PAGE_STATE_FREE" using ql(3) by (simp add: block_meta_def)
    ultimately show ?thesis using assms(2) by auto
  qed
  then show ?thesis by (auto simp: debug_buddy_alloc_still_free_def list_ex_iff)
qed

text \<open>What the tests keep: the invariant and everything outside of the zone; the free pages only get fewer.\<close>

definition shrunk :: "zone_type \<Rightarrow> buddy_state \<Rightarrow> buddy_state \<Rightarrow> bool" where
  "shrunk z b b' \<longleftrightarrow> buddy_inv b' \<and> free_pages b' \<subseteq> free_pages b \<and> (\<forall>w j. w \<noteq> z \<longrightarrow> len b' w j = len b w j) \<and> pstate b' 0 = pstate b 0"

lemma shrunk_trans: "shrunk z a b \<Longrightarrow> shrunk z b c \<Longrightarrow> shrunk z a c"
  by (auto simp: shrunk_def)

lemma shrunk_inv: "shrunk z b b' \<Longrightarrow> buddy_inv b'"
  by (simp add: shrunk_def)

lemma shrunk_refl: "buddy_inv b \<Longrightarrow> shrunk z b b"
  by (simp add: shrunk_def)

lemma taken_facts:
  assumes "taken n c z r b b'"
  shows "shrunk z b b'" "debug_buddy_alloc_still_free k r w b' = Inr ()" "buddy_inv b'"
proof -
  obtain p where p: "r = page_to_phys p" "allocated_block p n z b b'" using assms by (auto simp: taken_def)
  show i: "buddy_inv b'" using assms by (simp add: taken_def)
  then have ok: "lists_ok b' {}" by (simp add: buddy_inv_def inv_except_def)
  have "pstate b' p = PAGE_STATE_ALLOCATED" "p < MAX_PAGES" "p \<noteq> 0" using p(2) by (auto simp: allocated_block_def block_meta_def block_at_def)
  then have "\<exists>q. r = page_to_phys q \<and> q < MAX_PAGES \<and> pstate b' q \<noteq> PAGE_STATE_FREE" using p(1) by (intro exI [of _ p]) simp
  then show "debug_buddy_alloc_still_free k r w b' = Inr ()" by (intro still_free_ok [OF ok] disjI2)
  have "0 \<notin> blk p n" using \<open>p \<noteq> 0\<close> by (simp add: blk_def)
  then have "pstate b' 0 = pstate b 0" using p(2) by (simp add: allocated_block_def)
  then show "shrunk z b b'" using assms i p(2) by (auto simp: shrunk_def taken_def allocated_block_def)
qed

lemma nr_len: "buddy_inv b \<Longrightarrow> unat (nr_free b z k) = len b z k"
  using lists_okD(2) by (auto simp: buddy_inv_def inv_except_def len_def)

lemma nr_zero: "buddy_inv b \<Longrightarrow> nr_free b z k = 0 \<longleftrightarrow> len b z k = 0" "buddy_inv b \<Longrightarrow> nr_free b z k = 1 \<longleftrightarrow> len b z k = 1"
  using nr_len [of b z k] by (auto simp: unat_eq_zero word_unat_eq_iff)

section \<open>What each test does\<close>

lemma corrupted_walk_ok: "unat cnt + length xs \<le> unat limit \<Longrightarrow> corrupted_walk xs cnt limit = Inr ()"
proof (induction xs arbitrary: cnt)
  case (Cons x xs)
  have "unat cnt + 1 < 4294967296" using Cons.prems unat_32_bound [of limit] unfolding list.size by linarith
  then have "unat cnt + unat (1 :: u32) < 2 ^ LENGTH(32)" by simp
  from unat_add_nowrap [OF this] have u: "unat (cnt + 1) = unat cnt + 1" by simp
  then have "\<not> limit < cnt + 1" using Cons.prems by (simp add: word_less_nat_alt)
  then show ?case using Cons.IH [of "cnt + 1"] Cons.prems u by simp
qed simp

lemma lists_healthy:
  assumes "buddy_inv b"
  shows "debug_buddy_check_all_list_corrumption z b = Inr ()"
proof -
  have one: "debug_buddy_corrupted_list k z b = Inr ()" for k
  proof -
    have ok: "lists_ok b {}" using assms by (simp add: buddy_inv_def inv_except_def)
    have "len b z k \<le> MAX_PAGES" unfolding len_def by (rule list_length_bound [OF ok])
    then have "unat (nr_free b z k * 4) = len b z k * 4"
      using nr_len [OF assms, of z k] by (simp add: unat_mult_nowrap MAX_PAGES_def)
    then show ?thesis using nr_len [OF assms, of z k] nr_zero(1) [OF assms, of z k]
      by (auto simp: debug_buddy_corrupted_list_def Let_def len_def intro!: corrupted_walk_ok)
  qed
  have "corrupted_orders ks z b = Inr ()" for ks by (induction ks) (simp_all add: one)
  then show ?thesis by (simp add: debug_buddy_check_all_list_corrumption_def)
qed

text \<open>A block of an order whose list is not empty comes from that list.\<close>

lemma alloc_exact:
  assumes "buddy_inv b" "z \<noteq> INVALID_ZONE" "k \<le> 10" "0 < len b z k"
  obtains r b' where "buddy_alloc_pages (ORDER_TO_BYTES k) z b = Inr (r, b')" "taken k k z r b b'"
proof (rule alloc_cases [OF assms(1-3)])
  fix c r b'
  assume a: "buddy_alloc_pages (ORDER_TO_BYTES k) z b = Inr (r, b')" "taken k c z r b b'"
  then have "c = k" using assms(4) by (auto simp: taken_def)
  then show thesis using that a by blast
qed (use assms(3,4) in auto)

lemma taken_exact_len: "taken k k z r b b' \<Longrightarrow> len b' z j = len b z j - (if j = k then 1 else 0)"
  by (simp add: taken_def)

lemma drain_order_spec:
  assumes "z \<noteq> INVALID_ZONE" "k \<le> 10"
  shows "buddy_inv b \<Longrightarrow> \<exists>b'. drain_order k z b = Some (Inr b') \<and> shrunk z b b' \<and> (\<forall>j. len b' z j = (if j = k then 0 else len b z j))"
proof (induction "len b z k" arbitrary: b)
  case 0
  then show ?case by (subst drain_order.simps) (auto simp: nr_zero intro!: exI [of _ b] shrunk_refl)
next
  case (Suc n)
  obtain r b' where a: "buddy_alloc_pages (ORDER_TO_BYTES k) z b = Inr (r, b')" "taken k k z r b b'"
    using alloc_exact [OF Suc.prems assms] Suc(2) by (metis zero_less_Suc)
  note l = taken_exact_len [OF a(2)] and f = taken_facts [OF a(2)]
  obtain b'' where d: "drain_order k z b' = Some (Inr b'')" "shrunk z b' b''" "\<forall>j. len b'' z j = (if j = k then 0 else len b' z j)"
    using Suc(1) [of b', OF _ f(3)] Suc(2) l [of k] by (metis diff_Suc_1)
  have "r \<noteq> 0" using a(2) by (simp add: taken_def)
  moreover have "nr_free b z k \<noteq> 0" using nr_zero(1) [OF Suc.prems] Suc(2) by auto
  ultimately have "drain_order k z b = Some (Inr b'')"
    by (subst drain_order.simps) (simp add: order_of_bytes(2) [OF assms(2)] a(1) d(1))
  then show ?case using shrunk_trans [OF f(1) d(2)] d(3) l by auto
qed

lemma drain_orders_spec:
  assumes "z \<noteq> INVALID_ZONE"
  shows "buddy_inv b \<Longrightarrow> \<forall>k \<in> set ks. k \<le> 10 \<Longrightarrow>
    \<exists>b'. drain_orders ks z b = Some (Inr b') \<and> shrunk z b b' \<and> (\<forall>j. len b' z j = (if j \<in> set ks then 0 else len b z j))"
proof (induction ks arbitrary: b)
  case (Cons k ks)
  obtain b1 where b1: "drain_order k z b = Some (Inr b1)" "shrunk z b b1" "\<forall>j. len b1 z j = (if j = k then 0 else len b z j)"
    using drain_order_spec [OF assms _ Cons.prems(1), of k] Cons.prems(2) by auto
  obtain b2 where b2: "drain_orders ks z b1 = Some (Inr b2)" "shrunk z b1 b2" "\<forall>j. len b2 z j = (if j \<in> set ks then 0 else len b1 z j)"
    using Cons.IH [OF shrunk_inv [OF b1(2)]] Cons.prems(2) by auto
  have "drain_orders (k # ks) z b = Some (Inr b2)" using b1(1,3) b2(1) nr_zero(1) [OF shrunk_inv [OF b1(2)], of z k] by simp
  then show ?case using shrunk_trans [OF b1(2) b2(2)] b1(3) b2(3) by auto
qed (auto intro: shrunk_refl)

lemma drain_spec:
  assumes "z \<noteq> INVALID_ZONE" "buddy_inv b"
  obtains b' where "buddy_drain_lower_orders z b = Some (Inr b')" "shrunk z b b'"
    "\<forall>j < 10. len b' z j = 0" "len b' z 10 = len b z 10"
  using drain_orders_spec [OF assms, of "[0..<10]"] by (auto simp: buddy_drain_lower_orders_def MAX_ORDER_def)

lemma simple_allocs_spec:
  assumes "z \<noteq> INVALID_ZONE"
  shows "buddy_inv b \<Longrightarrow> \<forall>k \<in> set ks. k \<le> 10 \<Longrightarrow> distinct ks \<Longrightarrow>
    \<exists>b'. simple_allocs ks z b = Inr b' \<and> shrunk z b b' \<and> (\<forall>j. len b' z j = len b z j - (if j \<in> set ks then 1 else 0))"
proof (induction ks arbitrary: b)
  case (Cons k ks)
  show ?case
  proof (cases "len b z k = 0")
    case True
    then have "nr_free b z k = 0" using nr_zero(1) [OF Cons.prems(1)] by blast
    then have "simple_allocs (k # ks) z b = simple_allocs ks z b" by simp
    then show ?thesis using Cons.IH [OF Cons.prems(1)] Cons.prems(2,3) True by auto
  next
    case False
    obtain r b1 where a: "buddy_alloc_pages (ORDER_TO_BYTES k) z b = Inr (r, b1)" "taken k k z r b b1"
      using alloc_exact [OF Cons.prems(1) assms, of k] Cons.prems(2) False by (metis list.set_intros(1) neq0_conv)
    note l = taken_exact_len [OF a(2)] and f = taken_facts [OF a(2)]
    obtain b2 where b2: "simple_allocs ks z b1 = Inr b2" "shrunk z b1 b2" "\<forall>j. len b2 z j = len b1 z j - (if j \<in> set ks then 1 else 0)"
      using Cons.IH [OF f(3)] Cons.prems(2,3) by auto
    have "0 < nr_free b z k" using False nr_zero(1) [OF Cons.prems(1), of z k] by (simp add: word_gt_0)
    then have "simple_allocs (k # ks) z b = Inr b2" using a(1) b2(1) f(2) Cons.prems(2) order_of_bytes(2) [of k] by simp
    then show ?thesis using shrunk_trans [OF f(1) b2(2)] b2(3) l Cons.prems(3) by auto
  qed
qed (auto intro: shrunk_refl)

lemma simple_spec:
  assumes "z \<noteq> INVALID_ZONE" "buddy_inv b"
  obtains b' where "debug_buddy_simple_alloc z b = Inr b'" "shrunk z b b'" "\<forall>j \<le> 10. len b' z j = len b z j - 1"
  using simple_allocs_spec [OF assms, of "rev [0..<11]"] by (auto simp: debug_buddy_simple_alloc_def MAX_ORDER_def less_Suc_eq_le)

text \<open>Taking a block and giving it back, in a zone whose lower lists are empty.\<close>

lemma same_sets_len:
  assumes "buddy_inv a" "buddy_inv b" "free_pages a = free_pages b"
  shows "len a z k = len b z k"
proof -
  have "set (free_list a z k) = set (free_list b z k)"
    using lists_determined [OF assms] lists_determined [OF assms(2,1) assms(3) [symmetric]] by blast
  moreover have "distinct (free_list a z k)" "distinct (free_list b z k)"
    using assms(1,2) lists_okD(1) by (auto simp: buddy_inv_def inv_except_def)
  ultimately show ?thesis by (simp add: len_def distinct_card [symmetric])
qed

lemma take_give:
  assumes "buddy_inv b" "taken n c z r b b'"
  obtains b'' where "buddy_free_block r b' = Inr b''" "shrunk z b b''" "\<forall>w j. len b'' w j = len b w j"
proof -
  obtain p where p: "r = page_to_phys p" "allocated_block p n z b b'" using assms(2) by (auto simp: taken_def)
  have pp: "page_addr_to_page r = p" "p \<noteq> 0" "n \<le> 10" "block_at p n" "blk p n \<subseteq> free_pages b" "free_pages b' = free_pages b - blk p n"
    using p by (auto simp: allocated_block_def block_at_def)
  have m: "pstate b' p = PAGE_STATE_ALLOCATED" "unat (ppriv b' p) = n"
    using p(2) pp(3) unat_of_nat_order by (auto simp: allocated_block_def block_meta_def)
  have i': "buddy_inv b'" using assms(2) by (simp add: taken_def)
  obtain b'' where b'': "buddy_free_block r b' = Inr b''" "buddy_inv b''"
    "\<forall>q. pstate b'' q = (if q \<in> blk p n then PAGE_STATE_FREE else pstate b' q)"
    using free_allocated_spec [of b' r n] i' m pp(1-3) by auto
  have fp: "free_pages b'' = free_pages b" using free_pages_release [OF b''(3) pp(4)] pp(5,6) by blast
  have "0 \<notin> blk p n" using pp(2) by (simp add: blk_def)
  then have "pstate b'' 0 = pstate b 0" using b''(3) p(2) by (simp add: allocated_block_def)
  then show thesis
    using that b''(1,2) fp same_sets_len [OF b''(2) assms(1) fp] by (auto simp: shrunk_def)
qed

definition lower_empty :: "zone_type \<Rightarrow> buddy_state \<Rightarrow> bool" where
  "lower_empty z b \<longleftrightarrow> (\<forall>j < 10. len b z j = 0)"

lemma no_nr: "buddy_inv b \<Longrightarrow> lower_empty z b \<Longrightarrow> \<not> list_ex (\<lambda>i. nr_free b z i \<noteq> 0) [k..<MAX_ORDER]"
  by (auto simp: list_ex_iff lower_empty_def nr_zero MAX_ORDER_def)

lemma free_tests_spec:
  assumes "z \<noteq> INVALID_ZONE"
  shows "buddy_inv b \<Longrightarrow> lower_empty z b \<Longrightarrow> 0 < len b z 10 \<Longrightarrow> \<forall>k \<in> set ks. k \<le> 10 \<Longrightarrow>
    \<exists>b'. free_tests ks z b = Inr b' \<and> shrunk z b b' \<and> (\<forall>w j. len b' w j = len b w j)"
proof (induction ks arbitrary: b)
  case (Cons k ks)
  have k: "k \<le> 10" using Cons.prems(4) by simp
  show ?case
  proof (rule alloc_cases [OF Cons.prems(1) assms k])
    assume "\<forall>j. k \<le> j \<and> j \<le> 10 \<longrightarrow> len b z j = 0"
    then show ?thesis using Cons.prems(3) k by auto
  next
    fix c r b1
    assume a: "buddy_alloc_pages (ORDER_TO_BYTES k) z b = Inr (r, b1)" "taken k c z r b b1"
    obtain b2 where b2: "buddy_free_block r b1 = Inr b2" "shrunk z b b2" "\<forall>w j. len b2 w j = len b w j"
      by (rule take_give [OF Cons.prems(1) a(2)])
    note i2 = shrunk_inv [OF b2(2)]
    have e2: "lower_empty z b2" "0 < len b2 z 10" using b2(3) Cons.prems(2,3) by (simp_all add: lower_empty_def)
    obtain b' where b': "free_tests ks z b2 = Inr b'" "shrunk z b2 b'" "\<forall>w j. len b' w j = len b2 w j"
      using Cons.IH [OF i2 e2] Cons.prems(4) by auto
    have "free_tests (k # ks) z b = Inr b'"
      using a(1) taken_facts(2) [OF a(2)] b2(1) b'(1) no_nr [OF i2 e2(1), of k] by simp
    then show ?thesis using shrunk_trans [OF b2(2) b'(2)] b'(3) b2(3) by auto
  qed
qed (auto intro: shrunk_refl)

text \<open>Without a block of the largest order the test releases the null pointer.\<close>

definition page0_kept :: "buddy_state \<Rightarrow> bool" where
  "page0_kept b \<longleftrightarrow> pstate b 0 \<notin> {PAGE_STATE_FREE, PAGE_STATE_ALLOCATED, PAGE_STATE_AVAILABLE}"

lemma free_tests_null:
  assumes "z \<noteq> INVALID_ZONE" "buddy_inv b" "lower_empty z b" "len b z 10 = 0" "page0_kept b"
  shows "free_tests (0 # ks) z b = Inl (Panic ''invalid state'')"
proof (rule alloc_cases [OF assms(2,1), of 0])
  assume a: "buddy_alloc_pages (ORDER_TO_BYTES 0) z b = Inr (0, b)"
  have "lists_ok b {}" using assms(2) by (simp add: buddy_inv_def inv_except_def)
  then have "debug_buddy_alloc_still_free 0 0 z b = Inr ()" by (rule still_free_ok) simp
  moreover have "buddy_free_block 0 b = Inl (Panic ''invalid state'')"
    using assms(5) by (simp add: buddy_free_block_def Let_def page0_kept_def pstate_def page_addr_to_page_div)
  ultimately show ?thesis using a by simp
next
  fix c r b'
  assume "taken 0 c z r b b'"
  then have "c \<le> 10" "0 < len b z c" by (simp_all add: taken_def)
  then show ?thesis using assms(3,4) by (cases "c = 10") (auto simp: lower_empty_def)
qed simp

lemma split_tests_spec:
  assumes "z \<noteq> INVALID_ZONE"
  shows "buddy_inv b \<Longrightarrow> lower_empty z b \<Longrightarrow> \<forall>k \<in> set ks. k < 10 \<Longrightarrow> \<exists>b'. split_tests ks z b = Some (Inr b') \<and> shrunk z b b'"
proof (induction ks arbitrary: b)
  case (Cons k ks)
  have k: "k \<le> 10" "k < 10" using Cons.prems(3) by auto
  show ?case
  proof (rule alloc_cases [OF Cons.prems(1) assms k(1)])
    assume "buddy_alloc_pages (ORDER_TO_BYTES k) z b = Inr (0, b)"
    then show ?thesis using shrunk_refl [OF Cons.prems(1)] by simp
  next
    fix c r b1
    assume a: "buddy_alloc_pages (ORDER_TO_BYTES k) z b = Inr (r, b1)" "taken k c z r b b1"
    note f = taken_facts [OF a(2)]
    have c: "c = 10" "r \<noteq> 0" using a(2) Cons.prems(2) by (auto simp: taken_def lower_empty_def le_less)
    have l1: "len b1 z j = (if k \<le> j then 1 else 0)" if "j < 10" for j
      using a(2) Cons.prems(2) that c(1) by (auto simp: taken_def lower_empty_def)
    have "\<not> list_ex (\<lambda>i. nr_free b1 z i \<noteq> 1) [k..<MAX_ORDER]"
      using l1 nr_zero(2) [OF f(3)] by (auto simp: list_ex_iff MAX_ORDER_def)
    moreover obtain b2 where b2: "debug_buddy_simple_alloc z b1 = Inr b2" "shrunk z b1 b2" by (rule simple_spec [OF assms f(3)])
    moreover obtain b3 where b3: "buddy_drain_lower_orders z b2 = Some (Inr b3)" "shrunk z b2 b3" "lower_empty z b3"
      using drain_spec [OF assms shrunk_inv [OF b2(2)]] by (auto simp: lower_empty_def)
    moreover obtain b' where b': "split_tests ks z b3 = Some (Inr b')" "shrunk z b3 b'"
      using Cons.IH [OF shrunk_inv [OF b3(2)] b3(3)] Cons.prems(3) by auto
    ultimately have "split_tests (k # ks) z b = Some (Inr b')"
      using a(1) c(2) f(2) lists_healthy [OF f(3)] by simp
    then show ?thesis using shrunk_trans [OF f(1) shrunk_trans [OF b2(2) shrunk_trans [OF b3(2) b'(2)]]] by blast
  qed
qed (auto intro: shrunk_refl)

section \<open>The whole self test\<close>

definition none_lost :: "boot_state \<Rightarrow> buddy_state \<Rightarrow> bool" where
  "none_lost boot b \<longleftrightarrow> (\<forall>p \<in> free_pages b. p < unat (total_pages boot) \<longrightarrow> page_to_phys p \<in> cover (regions boot FREE_MEMORY)) \<and>
     unat (total_pages boot) \<le> MAX_PAGES"

lemma none_lost_ok:
  assumes "none_lost boot b"
  shows "debug_buddy_check_lost_pages boot b = Inr ()"
proof -
  have "page_to_phys p \<in> cover (regions boot FREE_MEMORY)" if "p < unat (total_pages boot)" "PAGE_IS_FREE (descs b p)" for p
    using assms that by (auto simp: none_lost_def free_pages_def PAGE_IS_FREE_def pstate_def)
  then have "lost_pages boot b = []"
    by (auto simp: lost_pages_def filter_empty_conv list_ex_iff cover_def page_to_phys_def page_to_index_def)
  then show ?thesis by (simp add: debug_buddy_check_lost_pages_def)
qed

lemma shrunk_keeps: "shrunk z b b' \<Longrightarrow> none_lost boot b \<Longrightarrow> none_lost boot b'" "shrunk z b b' \<Longrightarrow> page0_kept b \<Longrightarrow> page0_kept b'"
  by (auto simp: shrunk_def none_lost_def page0_kept_def)

lemma debug_zone_spec:
  assumes z: "z \<noteq> INVALID_ZONE" and inv: "buddy_inv b" "none_lost boot b" "page0_kept b"
  shows "if 2 \<le> len b z 10 then \<exists>b'. debug_zone boot z b = Some (Inr b') \<and> shrunk z b b'
    else debug_zone boot z b = Some (Inl (Panic ''invalid state''))"
proof -
  obtain b1 where b1: "debug_buddy_simple_alloc z b = Inr b1" "shrunk z b b1" "\<forall>j \<le> 10. len b1 z j = len b z j - 1"
    by (rule simple_spec [OF z inv(1)])
  note i1 = shrunk_inv [OF b1(2)]
  obtain b2 where b2: "buddy_drain_lower_orders z b1 = Some (Inr b2)" "shrunk z b1 b2" "lower_empty z b2" "len b2 z 10 = len b z 10 - 1"
    using drain_spec [OF z i1] b1(3) by (metis lower_empty_def order_refl)
  note i2 = shrunk_inv [OF b2(2)]
  have head: "debug_zone boot z b = test_bind (Some (free_tests (0 # [1..<11]) z b2)) (\<lambda>b. test_bind (debug_buddy_split_block z b) (buddy_drain_lower_orders z))"
    unfolding debug_zone_def debug_buddy_free_block_def
    by (simp only: none_lost_ok [OF inv(2)] lists_healthy [OF inv(1)] lists_healthy [OF i1] b1(1) b2(1) test_bind_simps)
      (simp add: MAX_ORDER_def upt_rec)
  show ?thesis
  proof (cases "2 \<le> len b z 10")
    case True
    then obtain b3 where b3: "free_tests (0 # [1..<11]) z b2 = Inr b3" "shrunk z b2 b3"
      using free_tests_spec [OF z i2 b2(3), of "0 # [1..<11]"] b2(4) by auto
    obtain b4 where b4: "buddy_drain_lower_orders z b3 = Some (Inr b4)" "shrunk z b3 b4" "lower_empty z b4"
      using drain_spec [OF z shrunk_inv [OF b3(2)]] by (metis lower_empty_def)
    obtain b5 where b5: "split_tests (rev [0..<MAX_ORDER]) z b4 = Some (Inr b5)" "shrunk z b4 b5"
      using split_tests_spec [OF z shrunk_inv [OF b4(2)] b4(3), of "rev [0..<MAX_ORDER]"] by (auto simp: MAX_ORDER_def)
    obtain b6 where b6: "buddy_drain_lower_orders z b5 = Some (Inr b6)" "shrunk z b5 b6"
      using drain_spec [OF z shrunk_inv [OF b5(2)]] by metis
    have "debug_zone boot z b = Some (Inr b6)"
      unfolding head b3(1) debug_buddy_split_block_def by (simp add: b4(1) b5(1) b6(1))
    moreover have "shrunk z b b6"
      by (rule shrunk_trans [OF b1(2) shrunk_trans [OF b2(2) shrunk_trans [OF b3(2) shrunk_trans [OF b4(2) shrunk_trans [OF b5(2) b6(2)]]]]])
    ultimately show ?thesis using True by auto
  next
    case False
    then have "len b2 z 10 = 0" using b2(4) by simp
    from free_tests_null [OF z i2 b2(3) this, of "[1..<11]"] show ?thesis
      using False shrunk_keeps(2) [OF b2(2) shrunk_keeps(2) [OF b1(2) inv(3)]] unfolding head by simp
  qed
qed

text \<open>The blocks of the largest order of a zone whose pages are all free; these are exactly the ones on the list.\<close>

definition full_blocks :: "buddy_state \<Rightarrow> zone_type \<Rightarrow> nat set" where
  "full_blocks b z = {p. block_at p 10 \<and> zone_of p = z \<and> blk p 10 \<subseteq> free_pages b}"

lemma full_blocks_listed:
  assumes "buddy_inv b"
  shows "set (free_list b z 10) = full_blocks b z"
proof (intro equalityI subsetI)
  have ok: "lists_ok b {}" and pg: "pages_ok b {}" using assms by (simp_all add: buddy_inv_def inv_except_def)
  show "p \<in> full_blocks b z" if p: "p \<in> set (free_list b z 10)" for p
  proof -
    note l = lists_okD(3-8) [OF ok p]
    have "pstate b q = PAGE_STATE_FREE" if "q \<in> blk p 10" for q using l(6) that by (cases "q = p") (auto simp: block_meta_def)
    then show ?thesis using l zone_of_blk(1) [OF l(2,3,1)] by (auto simp: full_blocks_def block_at_def free_pages_def)
  qed
  show "p \<in> set (free_list b z 10)" if p: "p \<in> full_blocks b z" for p
  proof -
    have at: "p < MAX_PAGES" "2 ^ 10 dvd p" "zone_of p = z" "blk p 10 \<subseteq> free_pages b" using p by (auto simp: full_blocks_def block_at_def)
    have "p \<in> free_pages b" using at(4) blk_self by blast
    then obtain h k where h: "p \<in> blk h k" "h \<in> set (free_list b (zone_of h) k)"
      using pages_okD(2) [OF pg at(1)] by (auto simp: free_pages_def)
    note l = lists_okD(3-6) [OF ok h(2)]
    have "blk h k \<subseteq> blk p 10" using blk_nested [OF at(2) l(2,3)] h(1) blk_self by blast
    then have "10 \<le> k" using listed_is_maximal [OF assms h(2) at(2)] at(4) by simp
    then have k: "k = 10" using l(3) by simp
    then have "h = p" using same_block [of 10 h p] l(2) at(2) h(1) blk_self by blast
    then show ?thesis using h(2) k at(3) by simp
  qed
qed

lemma len_full: "buddy_inv b \<Longrightarrow> len b z 10 = card (full_blocks b z)"
  using full_blocks_listed [of b z] lists_okD(1) [of b "{}" z 10]
  by (auto simp: len_def distinct_card [symmetric] buddy_inv_def inv_except_def)

text \<open>C40. The self test always ends. In a state that satisfies the invariant, in which the free pages are memory the loader reported as
  available and page 0 is kept, it finds nothing wrong, but it stops the kernel all the same unless
  every zone has two free blocks of 4 MiB: after it has taken one, it asks for another and releases the null pointer
  when it gets none. Where it passes, it has only taken memory, and the invariant still holds.\<close>

theorem debug_buddy_result:
  assumes "buddy_inv b" "none_lost boot b" "page0_kept b"
  shows "if \<forall>z. z \<noteq> INVALID_ZONE \<longrightarrow> 2 \<le> card (full_blocks b z)
    then \<exists>b'. debug_buddy boot b = Some (Inr b') \<and> buddy_inv b' \<and> free_pages b' \<subseteq> free_pages b
    else debug_buddy boot b = Some (Inl (Panic ''invalid state''))"
proof -
  have "if \<forall>z \<in> set zs. 2 \<le> len b z 10
      then \<exists>b'. debug_zones boot zs b = Some (Inr b') \<and> buddy_inv b' \<and> free_pages b' \<subseteq> free_pages b
      else debug_zones boot zs b = Some (Inl (Panic ''invalid state''))"
    if "INVALID_ZONE \<notin> set zs" "distinct zs" "buddy_inv b" "none_lost boot b" "page0_kept b" for zs b
    using that
  proof (induction zs arbitrary: b)
    case (Cons z zs)
    have z: "z \<noteq> INVALID_ZONE" using Cons.prems(1) by auto
    note s = debug_zone_spec [OF z Cons.prems(3-5)]
    show ?case
    proof (cases "2 \<le> len b z 10")
      case True
      then obtain b1 where b1: "debug_zone boot z b = Some (Inr b1)" "shrunk z b b1" using s by auto
      have l: "len b1 w 10 = len b w 10" if "w \<in> set zs" for w using b1(2) that Cons.prems(2) by (auto simp: shrunk_def)
      have f: "free_pages b1 \<subseteq> free_pages b" using b1(2) by (simp add: shrunk_def)
      have IH: "if \<forall>z \<in> set zs. 2 \<le> len b1 z 10
          then \<exists>b'. debug_zones boot zs b1 = Some (Inr b') \<and> buddy_inv b' \<and> free_pages b' \<subseteq> free_pages b1
          else debug_zones boot zs b1 = Some (Inl (Panic ''invalid state''))"
        using Cons.IH [OF _ _ shrunk_inv [OF b1(2)] shrunk_keeps(1) [OF b1(2)] shrunk_keeps(2) [OF b1(2)]] Cons.prems by simp
      have eq: "debug_zones boot (z # zs) b = debug_zones boot zs b1" by (simp add: b1(1))
      have c: "(\<forall>w \<in> set (z # zs). 2 \<le> len b w 10) \<longleftrightarrow> (\<forall>w \<in> set zs. 2 \<le> len b1 w 10)" using True l by auto
      show ?thesis unfolding eq c using IH f by (auto split: if_splits)
    qed (use s in auto)
  qed simp
  from this [of "[LOWMEM_ZONE, DMA_ZONE, HIGHMEM_ZONE]" b] assms
  have "if \<forall>z \<in> {LOWMEM_ZONE, DMA_ZONE, HIGHMEM_ZONE}. 2 \<le> len b z 10
      then \<exists>b'. debug_buddy boot b = Some (Inr b') \<and> buddy_inv b' \<and> free_pages b' \<subseteq> free_pages b
      else debug_buddy boot b = Some (Inl (Panic ''invalid state''))"
    by (simp add: debug_buddy_def del: debug_zones.simps)
  moreover have "(\<forall>z. z \<noteq> INVALID_ZONE \<longrightarrow> 2 \<le> card (full_blocks b z)) \<longleftrightarrow> (\<forall>z \<in> {LOWMEM_ZONE, DMA_ZONE, HIGHMEM_ZONE}. 2 \<le> len b z 10)"
    using len_full [OF assms(1)] by (auto, case_tac z) auto
  ultimately show ?thesis by simp
qed

text \<open>A machine with two free blocks of 4 MiB in every zone.\<close>

definition test_pages :: "nat set" where
  "test_pages = {1024..<3072} \<union> {8192..<10240} \<union> {229376..<231424}"

definition test_descs :: descriptors where
  "test_descs = (\<lambda>i. \<lparr>flags = page_get_zone_flag (page_to_phys i) OR
     (if i \<in> test_pages then PAGE_STATE_AVAILABLE else PAGE_STATE_RESERVED), private_data = PAGE_MAGIC\<rparr>)"

definition test_boot :: boot_state where
  "test_boot = boot_example\<lparr>regions := (\<lambda>_. [\<lparr>r_start = 0x400000, r_end = 0x38800000\<rparr>]), total_pages := 231424\<rparr>"

lemma test_flags:
  "PAGE_GET_ZONE (test_descs p) = page_get_zone_flag (page_to_phys p)"
  "PAGE_GET_STATE (test_descs p) = (if p \<in> test_pages then PAGE_STATE_AVAILABLE else PAGE_STATE_RESERVED)"
  by (auto simp: test_descs_def page_get_zone_flag_def PAGE_GET_ZONE_def PAGE_GET_STATE_def
      PAGE_ZONE_MASK_def PAGE_STATE_MASK_def page_zone_defs page_state_defs)

lemma test_state: "\<exists>b. buddy_inv b \<and> free_pages b = test_pages \<and> page0_kept b"
proof -
  let ?b = "empty_buddy test_descs"
  have s: "pstate ?b q = (if q \<in> test_pages then PAGE_STATE_AVAILABLE else PAGE_STATE_RESERVED)" for q
    by (simp add: empty_buddy_def pstate_def test_flags)
  have inv: "buddy_inv ?b" by (rule empty_buddy_inv) (auto simp: test_flags page_state_defs)
  have z: "0 \<notin> test_pages" by (simp add: test_pages_def)
  obtain b where b: "buddy_inv b" "\<forall>q. pstate b q = (if q \<in> set [0..<MAX_PAGES] \<and> pstate ?b q = PAGE_STATE_AVAILABLE then PAGE_STATE_FREE else pstate ?b q)"
  proof -
    have "set [0..<MAX_PAGES] \<subseteq> {..<MAX_PAGES}" "pstate ?b 0 \<noteq> PAGE_STATE_AVAILABLE" using s z by (auto simp: page_state_defs)
    from init_loop_spec [OF inv distinct_upt this] show ?thesis using that by blast
  qed
  have "p < MAX_PAGES" if "p \<in> test_pages" for p using that by (auto simp: test_pages_def MAX_PAGES_def)
  then have "free_pages b = test_pages" using b(2) s by (auto simp: free_pages_def page_state_defs)
  moreover have "page0_kept b" using b(2) s z by (auto simp: page0_kept_def page_state_defs)
  ultimately show ?thesis using b(1) by blast
qed

lemma test_blocks:
  assumes "free_pages b = test_pages" "z \<noteq> INVALID_ZONE"
  shows "2 \<le> card (full_blocks b z)"
proof -
  have fin: "finite (full_blocks b z)" by (rule finite_subset [of _ "{..<MAX_PAGES}"]) (auto simp: full_blocks_def block_at_def)
  have in_b: "p \<in> full_blocks b (zone_of p)" if "1024 dvd p" "p < MAX_PAGES" "{p..<p + 1024} \<subseteq> test_pages" for p
    using that assms(1) by (simp add: full_blocks_def block_at_def blk_def)
  have sub: "{1024..<2048} \<subseteq> test_pages" "{2048..<3072} \<subseteq> test_pages" "{8192..<9216} \<subseteq> test_pages" "{9216..<10240} \<subseteq> test_pages"
    "{229376..<230400} \<subseteq> test_pages" "{230400..<231424} \<subseteq> test_pages"
    by (auto simp: test_pages_def)
  have zs: "zone_of 1024 = DMA_ZONE" "zone_of 2048 = DMA_ZONE" "zone_of 8192 = LOWMEM_ZONE" "zone_of 9216 = LOWMEM_ZONE"
    "zone_of 229376 = HIGHMEM_ZONE" "zone_of 230400 = HIGHMEM_ZONE"
    by (simp_all add: zone_of_div MAX_PAGES_def)
  have "\<exists>p q. p \<noteq> q \<and> {p, q} \<subseteq> full_blocks b z"
  proof (cases z)
    case LOWMEM_ZONE
    then show ?thesis using in_b [of 8192] in_b [of 9216] sub zs by (intro exI [of _ 8192] exI [of _ 9216]) (simp add: MAX_PAGES_def)
  next
    case DMA_ZONE
    then show ?thesis using in_b [of 1024] in_b [of 2048] sub zs by (intro exI [of _ 1024] exI [of _ 2048]) (simp add: MAX_PAGES_def)
  next
    case HIGHMEM_ZONE
    then show ?thesis using in_b [of 229376] in_b [of 230400] sub zs by (intro exI [of _ 229376] exI [of _ 230400]) (simp add: MAX_PAGES_def)
  qed (use assms(2) in simp)
  then obtain p q where pq: "p \<noteq> q" "{p, q} \<subseteq> full_blocks b z" by blast
  have "card {p, q} \<le> card (full_blocks b z)" by (rule card_mono [OF fin pq(2)])
  then show ?thesis using pq(1) by simp
qed

lemma test_none_lost: "free_pages b = test_pages \<Longrightarrow> none_lost test_boot b"
proof -
  assume f: "free_pages b = test_pages"
  have "page_to_phys p \<in> cover [\<lparr>r_start = 0x400000, r_end = 0x38800000\<rparr>]" if p: "p \<in> test_pages" for p
  proof -
    have "p < MAX_PAGES" "1024 \<le> p" "p < 231424" using p by (auto simp: test_pages_def MAX_PAGES_def)
    then show ?thesis using unat_page_to_phys [of p] by (simp add: word_le_nat_alt word_less_nat_alt)
  qed
  then show ?thesis using f by (simp add: none_lost_def test_boot_def MAX_PAGES_def)
qed

theorem debug_buddy_result_witness:
  "(\<exists>b b'. debug_buddy test_boot b = Some (Inr b') \<and> buddy_inv b') \<and>
   debug_buddy boot_example (empty_buddy example_descs) = Some (Inl (Panic ''invalid state''))"
proof
  obtain b where b: "buddy_inv b" "free_pages b = test_pages" "page0_kept b" using test_state by blast
  show "\<exists>b b'. debug_buddy test_boot b = Some (Inr b') \<and> buddy_inv b'"
    using debug_buddy_result [OF b(1) test_none_lost [OF b(2)] b(3)] test_blocks [OF b(2)] by auto
  let ?e = "empty_buddy example_descs"
  have s: "pstate ?e q = (if q \<in> {8192, 8193, 8194, 8195} then PAGE_STATE_AVAILABLE else PAGE_STATE_RESERVED)" for q
    by (simp add: empty_buddy_def pstate_def example_flags)
  have e: "buddy_inv ?e" by (rule empty_buddy_inv) (auto simp: example_flags page_state_defs)
  have f: "free_pages ?e = {}" by (auto simp: free_pages_def s page_state_defs)
  have "full_blocks ?e LOWMEM_ZONE = {}" using f by (auto simp: full_blocks_def blk_def)
  then have "\<not> (\<forall>z. z \<noteq> INVALID_ZONE \<longrightarrow> 2 \<le> card (full_blocks ?e z))" by (metis card.empty not_numeral_le_zero zone_type.distinct)
  moreover have "none_lost boot_example ?e" "page0_kept ?e"
    by (simp_all add: none_lost_def f boot_example_def page0_kept_def s page_state_defs)
  ultimately show "debug_buddy boot_example ?e = Some (Inl (Panic ''invalid state''))"
    using debug_buddy_result [OF e, of boot_example] by (simp only: if_False)
qed

end
