(* ===== verification/Slab.thy ===== *)
theory Slab
  imports Buddy_Spec
begin

text \<open>
  \<^verbatim>\<open>src/memory/slab.c\<close> and \<^verbatim>\<open>src/memory/kmalloc.c\<close>: the kernel heap. Small requests are served from
  slabs, pages cut into objects of one size that are chained through their first word; large ones from the
  page allocator. A slab descriptor is known by its address; the three lists of a cache hold addresses of
  descriptors (the refinement of \<^verbatim>\<open>include/list.h\<close> is in \<open>List_Head\<close>), and \<open>links\<close> is the memory of the
  32-bit words the kernel reads and writes in objects, by virtual address.

  \<^verbatim>\<open>slab_create\<close> calls \<^verbatim>\<open>kmalloc\<close> for the descriptor of a slab of large objects. The definitions take this
  inner \<^verbatim>\<open>kmalloc\<close> as an argument; \<open>kmalloc\<close> itself closes the recursion at depth two, and
  \<open>kmalloc_depth\<close> shows that no deeper call exists.
\<close>

section \<open>State\<close>

record slab =
  freelist :: u32
  inuse :: u32
  parent_cache :: "zone_type \<times> nat"

text \<open>\<open>empty_freed\<close> is not a field of the structure: it says that the nodes of \<open>slabs_empty\<close> lie in objects that were
  freed, with their links overwritten by the chain of free objects.\<close>

record slab_cache =
  slabs_full :: "u32 list"
  slabs_partial :: "u32 list"
  slabs_empty :: "u32 list"
  object_size :: u32
  objects_per_slab :: u32
  empty_freed :: bool

record slab_state =
  sl_buddy :: buddy_state
  slab_caches :: "zone_type \<Rightarrow> nat \<Rightarrow> slab_cache"
  slabs :: "u32 \<Rightarrow> slab option"
  links :: "u32 \<Rightarrow> u32"

definition SLAB_INTRUSIVE_THRESHOLD :: u32 where "SLAB_INTRUSIVE_THRESHOLD = 512"

definition SLAB_IS_EXTERNAL :: "u32 \<Rightarrow> bool" where
  "SLAB_IS_EXTERNAL sz \<longleftrightarrow> SLAB_INTRUSIVE_THRESHOLD < sz"

definition NUM_SLAB_CACHES :: nat where "NUM_SLAB_CACHES = 9"

definition cache_sizes :: "u32 list" where
  "cache_sizes = [8, 16, 32, 64, 128, 256, 512, 1024, 2048, 4096]"

definition MAX_SLAB_SIZE :: u32 where "MAX_SLAB_SIZE = 2048"
definition MAX_KMALLOC_SIZE :: u32 where "MAX_KMALLOC_SIZE = 4 * 0x100000"

text \<open>\<^verbatim>\<open>sizeof(struct slab)\<close>: a list node, three words and the padding.\<close>

definition sizeof_slab :: u32 where "sizeof_slab = 32"

definition GFP_KERNEL :: u32 where "GFP_KERNEL = 1"
definition GFP_DMA_bit :: u32 where "GFP_DMA_bit = 4"
definition GFP_ZERO_bit :: u32 where "GFP_ZERO_bit = 16"

definition upd_cache :: "zone_type \<Rightarrow> nat \<Rightarrow> (slab_cache \<Rightarrow> slab_cache) \<Rightarrow> slab_state \<Rightarrow> slab_state" where
  "upd_cache z i f s = s\<lparr>slab_caches := (slab_caches s)(z := (slab_caches s z)(i := f (slab_caches s z i)))\<rparr>"

text \<open>\<^verbatim>\<open>pop_node\<close> of a slab: it leaves the list of its cache it is on.\<close>

definition unlink_slab :: "u32 \<Rightarrow> slab_cache \<Rightarrow> slab_cache" where
  "unlink_slab a c = c\<lparr>slabs_full := remove1 a (slabs_full c), slabs_partial := remove1 a (slabs_partial c),
     slabs_empty := remove1 a (slabs_empty c)\<rparr>"

definition to_full :: "u32 \<Rightarrow> slab_cache \<Rightarrow> slab_cache" where
  "to_full a c = c\<lparr>slabs_full := a # slabs_full c\<rparr>"

definition to_partial :: "u32 \<Rightarrow> slab_cache \<Rightarrow> slab_cache" where
  "to_partial a c = c\<lparr>slabs_partial := a # slabs_partial c\<rparr>"

definition to_empty :: "u32 \<Rightarrow> slab_cache \<Rightarrow> slab_cache" where
  "to_empty a c = c\<lparr>slabs_empty := a # slabs_empty c\<rparr>"

section \<open>Slabs\<close>

text \<open>The cache index of a size; the size doubles until it is large enough, which never happens above \<open>2 ^ 31\<close>.\<close>

partial_function (option) cache_size_loop :: "u32 \<Rightarrow> u32 \<Rightarrow> nat \<Rightarrow> nat option" where
  "cache_size_loop sz cache_size cache_idx =
     (if cache_size < sz then cache_size_loop sz (cache_size * 2) (cache_idx + 1) else Some cache_idx)"

definition size_to_cache_size :: "u32 \<Rightarrow> nat option" where
  "size_to_cache_size sz =
     (if sz \<le> 8 then Some 0
      else map_option (\<lambda>i. if NUM_SLAB_CACHES \<le> i then NUM_SLAB_CACHES else i) (cache_size_loop sz 16 1))"

fun init_freelist_loop :: "u32 \<Rightarrow> u32 \<Rightarrow> nat \<Rightarrow> (u32 \<Rightarrow> u32) \<Rightarrow> u32 \<Rightarrow> u32" where
  "init_freelist_loop current obj_size 0 m = m(current := 0)"
| "init_freelist_loop current obj_size (Suc k) m =
     init_freelist_loop (current + obj_size) obj_size k (m(current := current + obj_size))"

definition slab_init_intrusive_freelist :: "u32 \<Rightarrow> u32 \<Rightarrow> u32 \<Rightarrow> u32 \<Rightarrow> slab_state \<Rightarrow> slab_state" where
  "slab_init_intrusive_freelist src first_obj obj_size available_space s =
     (let end_iteration = available_space div obj_size in
      s\<lparr>links := init_freelist_loop first_obj obj_size (unat (end_iteration - 1)) (links s),
        slabs := (slabs s)(src := map_option (\<lambda>sl. sl\<lparr>freelist := first_obj\<rparr>) (slabs s src))\<rparr>)"

text \<open>\<open>km\<close> is \<^verbatim>\<open>kmalloc\<close>, called for the descriptor of a slab of large objects.\<close>

type_synonym kmalloc_fun = "u32 \<Rightarrow> u32 \<Rightarrow> slab_state \<Rightarrow> (u32 \<times> slab_state) kres"

definition set_page :: "nat \<Rightarrow> (page \<Rightarrow> page) \<Rightarrow> slab_state \<Rightarrow> slab_state" where
  "set_page p f s = s\<lparr>sl_buddy := (sl_buddy s)\<lparr>descs := (descs (sl_buddy s))(p := f (descs (sl_buddy s) p))\<rparr>\<rparr>"

definition slab_setup :: "zone_type \<Rightarrow> nat \<Rightarrow> nat \<Rightarrow> u32 \<Rightarrow> u32 \<Rightarrow> u32 \<Rightarrow> slab_state \<Rightarrow> slab_state" where
  "slab_setup zone idx p ret first_object available_space s =
     set_page p (\<lambda>pg. pg\<lparr>private_data := ret\<rparr>)
       (slab_init_intrusive_freelist ret first_object (object_size (slab_caches s zone idx)) available_space
         (s\<lparr>slabs := (slabs s)(ret \<mapsto> \<lparr>freelist = 0, inuse = 0, parent_cache = (zone, idx)\<rparr>)\<rparr>))"

definition slab_create :: "kmalloc_fun \<Rightarrow> zone_type \<Rightarrow> nat \<Rightarrow> slab_state \<Rightarrow> (u32 \<times> slab_state) kres" where
  "slab_create km zone idx s =
     kbind (buddy_alloc_pages PAGE_SIZE zone (sl_buddy s)) (\<lambda>(new_page_phy, b).
     let s = s\<lparr>sl_buddy := b\<rparr> in
     if new_page_phy = 0 then Inr (0, s)
     else let p = page_addr_to_page new_page_phy; s = set_page p (PAGE_SET_STATE PAGE_STATE_SLAB) s in
       kbind (PHYS_TO_VIRT_LINEAR new_page_phy) (\<lambda>new_page_virt.
       if SLAB_IS_EXTERNAL (object_size (slab_caches s zone idx)) then
         kbind (km sizeof_slab (if zone = DMA_ZONE then GFP_KERNEL OR GFP_DMA_bit else GFP_KERNEL) s) (\<lambda>(ret, s).
         if ret = 0 then kbind (buddy_free_block new_page_phy (sl_buddy s)) (\<lambda>b. Inr (0, s\<lparr>sl_buddy := b\<rparr>))
         else Inr (ret, slab_setup zone idx p ret new_page_virt PAGE_SIZE s))
       else Inr (new_page_virt,
         slab_setup zone idx p new_page_virt (new_page_virt + sizeof_slab) (PAGE_SIZE - sizeof_slab) s)))"

definition slab_free :: "u32 \<Rightarrow> slab_state \<Rightarrow> slab_state kres" where
  "slab_free ptr s =
     kbind (VIRT_TO_PHYS_LINEAR ptr) (\<lambda>phys.
     let page = descs (sl_buddy s) (page_addr_to_page phys) in
     if PAGE_GET_STATE page \<noteq> PAGE_STATE_SLAB then Inl (Panic ''slab_free'')
     else let a = private_data page in
       case slabs s a of None \<Rightarrow> Inl NullDeref
       | Some sl \<Rightarrow>
           let (z, i) = parent_cache sl;
               n = inuse sl - 1;
               s = s\<lparr>links := (links s)(ptr := freelist sl),
                     slabs := (slabs s)(a \<mapsto> sl\<lparr>freelist := ptr, inuse := n\<rparr>)\<rparr> in
           if n = objects_per_slab (slab_caches s z i) - 1 then Inr (upd_cache z i (to_partial a \<circ> unlink_slab a) s)
           else if n = 0 then
             if empty_freed (slab_caches s z i) then Inl NullDeref
             else Inr (upd_cache z i (to_empty a \<circ> unlink_slab a) s)
           else Inr s)"

text \<open>\<^verbatim>\<open>kfree\<close>: by the state of the page; a page in any other state is left alone.\<close>

definition kfree :: "u32 \<Rightarrow> slab_state \<Rightarrow> slab_state kres" where
  "kfree ptr s =
     (if ptr = 0 then Inr s
      else kbind (VIRT_TO_PHYS_LINEAR ptr) (\<lambda>phys_addr.
        let page_state = PAGE_GET_STATE (descs (sl_buddy s) (page_addr_to_page phys_addr)) in
        if page_state = PAGE_STATE_SLAB then slab_free ptr s
        else if page_state = PAGE_STATE_ALLOCATED then
          kbind (buddy_free_block phys_addr (sl_buddy s)) (\<lambda>b. Inr (s\<lparr>sl_buddy := b\<rparr>))
        else Inr s))"

text \<open>
  \<^verbatim>\<open>slab_shrink_caches\<close>: every slab of the list of empty slabs gives its page back. The loop
  follows the links of the list; nothing takes a slab off it. The descriptor of a slab of large objects is
  freed while it is linked, and \<^verbatim>\<open>kfree\<close> overwrites its first word, the link to the next slab, which the loop has
  already read. From then on the list runs through freed objects: the next operation on it, which has to access its first
  node, is an access through a dangling pointer.
\<close>

fun shrink_slabs :: "zone_type \<Rightarrow> nat \<Rightarrow> u32 list \<Rightarrow> slab_state \<Rightarrow> slab_state kres" where
  "shrink_slabs zone i [] s = Inr s"
| "shrink_slabs zone i (a # as) s =
     (case slabs s a of None \<Rightarrow> Inl NullDeref
      | Some sl \<Rightarrow>
          let ext = SLAB_IS_EXTERNAL (object_size (slab_caches s zone i)) in
          kbind (VIRT_TO_PHYS_LINEAR (if ext then freelist sl else a)) (\<lambda>phys.
          let p = page_addr_to_page phys;
              s = set_page p (\<lambda>pg. (PAGE_SET_STATE PAGE_STATE_ALLOCATED pg)\<lparr>private_data := 0\<rparr>) s in
          kbind (buddy_free_block (page_to_phys p) (sl_buddy s)) (\<lambda>b.
          let s = s\<lparr>sl_buddy := b\<rparr> in
          kbind (if ext then kbind (kfree a s) (\<lambda>s. Inr (upd_cache zone i (\<lambda>c. c\<lparr>empty_freed := True\<rparr>) s)) else Inr s)
            (shrink_slabs zone i as))))"

fun shrink_caches_loop :: "zone_type \<Rightarrow> nat list \<Rightarrow> slab_state \<Rightarrow> slab_state kres" where
  "shrink_caches_loop zone [] s = Inr s"
| "shrink_caches_loop zone (i # is) s =
     (let cache = slab_caches s zone i in
      if slabs_empty cache = [] then shrink_caches_loop zone is s
      else if empty_freed cache then Inl NullDeref
      else kbind (shrink_slabs zone i (slabs_empty cache) s) (shrink_caches_loop zone is))"

definition slab_shrink_caches :: "zone_type \<Rightarrow> slab_state \<Rightarrow> slab_state kres" where
  "slab_shrink_caches zone s = shrink_caches_loop zone [0..<NUM_SLAB_CACHES] s"

text \<open>The slab an allocation is served from: the first partial one, an empty one, or a new one.\<close>

definition slab_pick :: "kmalloc_fun \<Rightarrow> zone_type \<Rightarrow> nat \<Rightarrow> slab_state \<Rightarrow> (u32 \<times> slab_state) kres" where
  "slab_pick km zone idx s =
     (let c = slab_caches s zone idx in
      case slabs_partial c of a # _ \<Rightarrow> Inr (a, s)
      | [] \<Rightarrow>
          (case slabs_empty c of a # _ \<Rightarrow>
               if empty_freed c then Inl NullDeref
               else Inr (a, upd_cache zone idx (to_partial a \<circ> unlink_slab a) s)
           | [] \<Rightarrow> kbind (slab_create km zone idx s) (\<lambda>(a, s).
               Inr (a, if a = 0 then s else upd_cache zone idx (to_partial a) s))))"

definition slab_take :: "zone_type \<Rightarrow> nat \<Rightarrow> u32 \<Rightarrow> slab_state \<Rightarrow> (u32 \<times> slab_state) kres" where
  "slab_take zone idx a s =
     (case slabs s a of None \<Rightarrow> Inl NullDeref
      | Some sl \<Rightarrow>
          let ret = freelist sl; next = links s ret;
              s = s\<lparr>slabs := (slabs s)(a \<mapsto> sl\<lparr>freelist := next, inuse := inuse sl + 1\<rparr>)\<rparr> in
          if ret = 0 then Inl NullDeref
          else Inr (ret, if next = 0 then upd_cache zone idx (to_full a \<circ> unlink_slab a) s else s))"

definition slab_alloc :: "kmalloc_fun \<Rightarrow> u32 \<Rightarrow> zone_type \<Rightarrow> slab_state \<Rightarrow> (u32 \<times> slab_state) kres" where
  "slab_alloc km sz zone s =
     (case size_to_cache_size sz of None \<Rightarrow> Inl Diverges
      | Some idx \<Rightarrow>
          if idx = NUM_SLAB_CACHES \<or> zone \<notin> {LOWMEM_ZONE, DMA_ZONE} then Inr (0, s)
          else kbind (slab_pick km zone idx s) (\<lambda>(a, s).
            if a = 0 then Inr (0, s) else slab_take zone idx a s))"

definition slab_init :: "slab_state \<Rightarrow> slab_state" where
  "slab_init s = s\<lparr>slab_caches := (\<lambda>zone i. \<lparr>slabs_full = [], slabs_partial = [], slabs_empty = [],
     object_size = cache_sizes ! i,
     objects_per_slab = (if SLAB_IS_EXTERNAL (cache_sizes ! i) then PAGE_SIZE else PAGE_SIZE - sizeof_slab) div cache_sizes ! i,
     empty_freed = False\<rparr>)\<rparr>"

section \<open>The heap\<close>

definition get_allocation :: "kmalloc_fun \<Rightarrow> zone_type \<Rightarrow> u32 \<Rightarrow> slab_state \<Rightarrow> (u32 \<times> slab_state) kres" where
  "get_allocation km zone sz s =
     (if MAX_SLAB_SIZE < sz then
        kbind (buddy_alloc_pages sz zone (sl_buddy s)) (\<lambda>(phys_addr, b).
        let s = s\<lparr>sl_buddy := b\<rparr> in
        if phys_addr \<noteq> 0 then kbind (PHYS_TO_VIRT_LINEAR phys_addr) (\<lambda>v. Inr (v, s)) else Inr (0, s))
      else slab_alloc km sz zone s)"

definition try_alloc_with_reclaim :: "kmalloc_fun \<Rightarrow> zone_type \<Rightarrow> u32 \<Rightarrow> slab_state \<Rightarrow> (u32 \<times> slab_state) kres" where
  "try_alloc_with_reclaim km zone sz s =
     kbind (get_allocation km zone sz s) (\<lambda>(alloc, s).
     if alloc = 0 then kbind (slab_shrink_caches zone s) (get_allocation km zone sz)
     else Inr (alloc, s))"

definition ksize :: "u32 \<Rightarrow> slab_state \<Rightarrow> u32 kres" where
  "ksize ptr s =
     (if ptr = 0 then Inr 0
      else kbind (VIRT_TO_PHYS_LINEAR ptr) (\<lambda>phys_addr.
        let page = descs (sl_buddy s) (page_addr_to_page phys_addr) in
        if PAGE_GET_STATE page = PAGE_STATE_SLAB then
          (case slabs s (private_data page) of None \<Rightarrow> Inl NullDeref
           | Some sl \<Rightarrow> Inr (object_size (slab_caches s (fst (parent_cache sl)) (snd (parent_cache sl)))))
        else if PAGE_GET_STATE page = PAGE_STATE_ALLOCATED then
          Inr (if private_data page = PAGE_MAGIC then 0 else ORDER_TO_BYTES (unat (private_data page)))
        else Inr 0))"

definition bzero_words :: "u32 \<Rightarrow> u32 \<Rightarrow> slab_state \<Rightarrow> slab_state" where
  "bzero_words p n s = s\<lparr>links := (\<lambda>a. if p \<le> a \<and> a - p < n then 0 else links s a)\<rparr>"

definition kmalloc_step :: "kmalloc_fun \<Rightarrow> kmalloc_fun" where
  "kmalloc_step km sz fl s =
     (let zone = (if FLAG_IS_SET fl GFP_DMA_bit then DMA_ZONE else LOWMEM_ZONE) in
      if sz = 0 then Inr (0, s)
      else if MAX_KMALLOC_SIZE < sz then Inr (0, s)
      else kbind (try_alloc_with_reclaim km zone sz s) (\<lambda>(ret, s).
        Inr (ret, if ret \<noteq> 0 \<and> FLAG_IS_SET fl GFP_ZERO_bit then bzero_words ret sz s else s)))"

fun kmalloc_rec :: "nat \<Rightarrow> kmalloc_fun" where
  "kmalloc_rec 0 sz fl s = Inl Diverges"
| "kmalloc_rec (Suc depth) sz fl s = kmalloc_step (kmalloc_rec depth) sz fl s"

definition kmalloc :: kmalloc_fun where
  "kmalloc = kmalloc_rec 2"

end
