(* ===== verification/Vma.thy ===== *)
theory Vma
  imports Vmm_Spec Slab
begin

text \<open>
  \<^verbatim>\<open>src/memory/vma.c\<close>, \<^verbatim>\<open>src/memory/vmalloc.c\<close> and the page fault handler of \<^verbatim>\<open>src/memory/vmm.c\<close>: the areas of
  an address space. The list of areas is a list of records in the order of the list nodes; an area is known
  by the address of its node. The memory the kernel manages is one state: the heap, which
  owns the page allocator, and the page tables.
\<close>

section \<open>State\<close>

record kmm =
  mm_slab :: slab_state
  mm_vmm :: vmm_state

definition vmm_of :: "kmm \<Rightarrow> vmm_state" where
  "vmm_of k = (mm_vmm k)\<lparr>vm_buddy := sl_buddy (mm_slab k)\<rparr>"

definition put_vmm :: "vmm_state \<Rightarrow> kmm \<Rightarrow> kmm" where
  "put_vmm v k = k\<lparr>mm_vmm := v, mm_slab := (mm_slab k)\<lparr>sl_buddy := vm_buddy v\<rparr>\<rparr>"

definition mm_kmalloc :: "u32 \<Rightarrow> u32 \<Rightarrow> kmm \<Rightarrow> (u32 \<times> kmm) kres" where
  "mm_kmalloc sz fl k = kbind (kmalloc sz fl (mm_slab k)) (\<lambda>(p, s). Inr (p, k\<lparr>mm_slab := s\<rparr>))"

definition mm_kfree :: "u32 \<Rightarrow> kmm \<Rightarrow> kmm kres" where
  "mm_kfree p k = kbind (kfree p (mm_slab k)) (\<lambda>s. Inr (k\<lparr>mm_slab := s\<rparr>))"

definition mm_alloc_pages :: "u32 \<Rightarrow> zone_type \<Rightarrow> kmm \<Rightarrow> (u32 \<times> kmm) kres" where
  "mm_alloc_pages sz z k = kbind (buddy_alloc_pages sz z (sl_buddy (mm_slab k))) (\<lambda>(p, b).
     Inr (p, k\<lparr>mm_slab := (mm_slab k)\<lparr>sl_buddy := b\<rparr>\<rparr>))"

definition mm_free_block :: "u32 \<Rightarrow> kmm \<Rightarrow> kmm kres" where
  "mm_free_block p k = kbind (buddy_free_block p (sl_buddy (mm_slab k))) (\<lambda>b.
     Inr (k\<lparr>mm_slab := (mm_slab k)\<lparr>sl_buddy := b\<rparr>\<rparr>))"

definition mm_map_page :: "u32 \<Rightarrow> u32 \<Rightarrow> u32 \<Rightarrow> u32 \<Rightarrow> kmm \<Rightarrow> (bool \<times> kmm) kres" where
  "mm_map_page pd v p fl k = kbind (vmm_map_page pd v p fl (vmm_of k)) (\<lambda>(ok, s). Inr (ok, put_vmm s k))"

definition mm_unmap_page :: "u32 \<Rightarrow> u32 \<Rightarrow> kmm \<Rightarrow> (bool \<times> kmm) kres" where
  "mm_unmap_page pd v k = kbind (vmm_unmap_page pd v (vmm_of k)) (\<lambda>(ok, s). Inr (ok, put_vmm s k))"

datatype vm_area_state = VM_AREA_FREE | VM_AREA_ALLOCATED | VM_AREA_LAZY
datatype vma_alloc_mode = VMA_EAGER | VMA_LAZY

text \<open>\<open>vma_node\<close> is the address of the node, \<open>pages_ptr\<close> that of the array \<open>pages\<close>, 0 when there is none.\<close>

record vm_area =
  vma_node :: u32
  area_state :: vm_area_state
  start_vaddr :: u32
  area_size :: u32
  pte_flags :: u32
  nr_pages :: u32
  pages_ptr :: u32
  pages :: "u32 list"

definition sizeof_vm_area :: u32 where "sizeof_vm_area = 32"

definition vma_areas_are_neighbors :: "vm_area \<Rightarrow> vm_area \<Rightarrow> bool" where
  "vma_areas_are_neighbors start_area next_area \<longleftrightarrow> start_vaddr start_area + area_size start_area = start_vaddr next_area"

section \<open>Merging and splitting\<close>

text \<open>\<^verbatim>\<open>merge_neighbor\<close> on the areas \<open>i\<close> and \<open>i + 1\<close> of the list.\<close>

definition merge_neighbor :: "nat \<Rightarrow> vm_area list \<Rightarrow> kmm \<Rightarrow> (vm_area list \<times> kmm) kres" where
  "merge_neighbor i areas k =
     (let start_area = areas ! i; next_area = areas ! (i + 1) in
      if area_state start_area \<noteq> VM_AREA_FREE \<or> area_state next_area \<noteq> VM_AREA_FREE then Inr (areas, k)
      else if vma_areas_are_neighbors start_area next_area then
        kbind (mm_kfree (vma_node next_area) k) (\<lambda>k.
        Inr (take i areas @ start_area\<lparr>area_size := area_size start_area + area_size next_area\<rparr> # drop (i + 2) areas, k))
      else Inr (areas, k))"

definition vma_merge_area :: "nat \<Rightarrow> vm_area list \<Rightarrow> kmm \<Rightarrow> (vm_area list \<times> kmm) kres" where
  "vma_merge_area i areas k =
     kbind (if i + 1 < length areas then merge_neighbor i areas k else Inr (areas, k)) (\<lambda>(areas, k).
     if 0 < i then merge_neighbor (i - 1) areas k else Inr (areas, k))"

text \<open>\<^verbatim>\<open>vma_split_area\<close>: the index of the area that was cut off, with the new list.\<close>

definition vma_split_area :: "nat \<Rightarrow> u32 \<Rightarrow> vm_area list \<Rightarrow> kmm \<Rightarrow> (nat option \<times> vm_area list \<times> kmm) kres" where
  "vma_split_area i sz areas k =
     (let area = areas ! i; needed_size = ALIGN sz PAGE_SIZE; num_of_pages = DIV_ROUND_UP needed_size PAGE_SIZE in
      if area_size area < needed_size then Inr (None, areas, k)
      else if needed_size = area_size area then
        Inr (Some i, areas[i := area\<lparr>nr_pages := num_of_pages, area_state := VM_AREA_ALLOCATED\<rparr>], k)
      else kbind (mm_kmalloc sizeof_vm_area (GFP_KERNEL OR GFP_ZERO_bit) k) (\<lambda>(new, k).
        if new = 0 then Inr (None, areas, k)
        else let new_area = \<lparr>vma_node = new, area_state = VM_AREA_ALLOCATED, start_vaddr = start_vaddr area,
                   area_size = needed_size, pte_flags = 0, nr_pages = num_of_pages, pages_ptr = 0, pages = []\<rparr> in
          Inr (Some i, take i areas @ new_area #
                 area\<lparr>start_vaddr := start_vaddr area + needed_size, area_size := area_size area - needed_size\<rparr> #
                 drop (i + 1) areas, k)))"

section \<open>Searching\<close>

fun find_index :: "('a \<Rightarrow> bool) \<Rightarrow> 'a list \<Rightarrow> nat option" where
  "find_index P [] = None"
| "find_index P (x # xs) = (if P x then Some 0 else map_option Suc (find_index P xs))"

definition vma_first_fit_alloc :: "u32 \<Rightarrow> vm_area list \<Rightarrow> nat option" where
  "vma_first_fit_alloc sz areas = find_index (\<lambda>area. sz \<le> area_size area \<and> area_state area = VM_AREA_FREE) areas"

definition vma_find_by_start :: "u32 \<Rightarrow> vm_area list \<Rightarrow> nat option kres" where
  "vma_find_by_start ptr areas = kassert ''ptr != NULL'' (ptr \<noteq> 0) (Inr (find_index (\<lambda>area. start_vaddr area = ptr) areas))"

definition vma_find_by_addr :: "u32 \<Rightarrow> vm_area list \<Rightarrow> nat option" where
  "vma_find_by_addr ptr areas =
     find_index (\<lambda>area. start_vaddr area \<le> ptr \<and> ptr < start_vaddr area + area_size area) areas"

definition vma_size :: "u32 \<Rightarrow> vm_area list \<Rightarrow> u32 kres" where
  "vma_size ptr areas = kbind (vma_find_by_start ptr areas) (\<lambda>r.
     case r of None \<Rightarrow> Inl (AssertFail ''area'') | Some i \<Rightarrow> Inr (area_size (areas ! i)))"

definition vma_init_area :: "u32 \<Rightarrow> u32 \<Rightarrow> vm_area list \<Rightarrow> kmm \<Rightarrow> (vm_area list \<times> kmm) kres" where
  "vma_init_area start end areas k =
     kbind (mm_kmalloc sizeof_vm_area (GFP_KERNEL OR GFP_ZERO_bit) k) (\<lambda>(initial_hole, k).
     if initial_hole = 0 then Inl (Panic ''vma_init_area'')
     else Inr (\<lparr>vma_node = initial_hole, area_state = VM_AREA_FREE, start_vaddr = start, area_size = end - start,
                pte_flags = 0, nr_pages = 0, pages_ptr = 0, pages = []\<rparr> # areas, k))"

section \<open>Mapping and destroying\<close>

text \<open>The two loops of \<^verbatim>\<open>vma_map_area\<close>; the first returns the pages array as far as it was filled.\<close>

fun map_alloc_loop :: "nat \<Rightarrow> nat \<Rightarrow> u32 list \<Rightarrow> kmm \<Rightarrow> (bool \<times> u32 list \<times> kmm) kres" where
  "map_alloc_loop i 0 ps k = Inr (True, ps, k)"
| "map_alloc_loop i (Suc n) ps k =
     kbind (mm_alloc_pages PAGE_SIZE HIGHMEM_ZONE k) (\<lambda>(page, k).
     if page = 0 then Inr (False, ps, k)
     else if length ps \<le> i then Inl OutOfBounds
     else map_alloc_loop (i + 1) n (ps[i := page]) k)"

fun map_map_loop :: "u32 \<Rightarrow> vm_area \<Rightarrow> nat \<Rightarrow> nat \<Rightarrow> u32 list \<Rightarrow> kmm \<Rightarrow> (bool \<times> kmm) kres" where
  "map_map_loop pd area i 0 ps k = Inr (True, k)"
| "map_map_loop pd area i (Suc n) ps k =
     (if length ps \<le> i then Inl OutOfBounds
      else kbind (mm_map_page pd (start_vaddr area + of_nat i * PAGE_SIZE) (ps ! i) (pte_flags area) k) (\<lambda>(ok, k).
        if ok then map_map_loop pd area (i + 1) n ps k else Inr (False, k)))"

definition vma_map_area :: "u32 \<Rightarrow> vm_area \<Rightarrow> kmm \<Rightarrow> (bool \<times> vm_area \<times> kmm) kres" where
  "vma_map_area pd area k =
     (let n = unat (nr_pages area) in
      kbind (map_alloc_loop 0 n (pages area) k) (\<lambda>(ok, ps, k).
      if \<not> ok then Inr (False, area\<lparr>pages := ps\<rparr>, k)
      else kbind (map_map_loop pd area 0 n ps k) (\<lambda>(ok, k). Inr (ok, area\<lparr>pages := ps\<rparr>, k))))"

text \<open>The loop that unmaps and frees the pages of an area, skipping the entries that are 0.\<close>

fun release_pages_loop :: "u32 \<Rightarrow> u32 \<Rightarrow> nat \<Rightarrow> nat \<Rightarrow> u32 list \<Rightarrow> kmm \<Rightarrow> kmm kres" where
  "release_pages_loop pd start i 0 ps k = Inr k"
| "release_pages_loop pd start i (Suc n) ps k =
     (if length ps \<le> i then Inl OutOfBounds
      else if ps ! i = 0 then release_pages_loop pd start (i + 1) n ps k
      else kbind (mm_unmap_page pd (start + of_nat i * PAGE_SIZE) k) (\<lambda>(_, k).
           kbind (mm_free_block (ps ! i) k) (release_pages_loop pd start (i + 1) n ps)))"

definition release_area_pages :: "u32 \<Rightarrow> vm_area \<Rightarrow> kmm \<Rightarrow> kmm kres" where
  "release_area_pages pd area k =
     (if pages_ptr area = 0 then Inr k
      else kbind (release_pages_loop pd (start_vaddr area) 0 (unat (nr_pages area)) (pages area) k)
        (mm_kfree (pages_ptr area)))"

definition vma_destroy_area :: "u32 \<Rightarrow> nat \<Rightarrow> vm_area list \<Rightarrow> kmm \<Rightarrow> (vm_area list \<times> kmm) kres" where
  "vma_destroy_area pd i areas k =
     (let area = areas ! i in
      kbind (release_area_pages pd area k) (\<lambda>k.
      vma_merge_area i (areas[i := area\<lparr>pages_ptr := 0, pages := (if pages_ptr area = 0 then pages area else []),
        nr_pages := 0, area_state := VM_AREA_FREE, pte_flags := 0\<rparr>]) k))"

fun vma_destroy_areas :: "u32 \<Rightarrow> vm_area list \<Rightarrow> kmm \<Rightarrow> kmm kres" where
  "vma_destroy_areas pd [] k = Inr k"
| "vma_destroy_areas pd (area # areas) k =
     kbind (release_area_pages pd area k) (\<lambda>k.
     kbind (mm_kfree (vma_node area) k) (vma_destroy_areas pd areas))"

section \<open>Allocating\<close>

definition vma_alloc_in_area ::
  "u32 \<Rightarrow> nat \<Rightarrow> u32 \<Rightarrow> u32 \<Rightarrow> vma_alloc_mode \<Rightarrow> vm_area list \<Rightarrow> kmm \<Rightarrow> (nat option \<times> vm_area list \<times> kmm) kres" where
  "vma_alloc_in_area pd i sz pte alloc_mode areas k =
     kbind (vma_split_area i sz areas k) (\<lambda>(r, areas, k).
     case r of None \<Rightarrow> Inr (None, areas, k)
     | Some i \<Rightarrow>
         let number_of_pages = DIV_ROUND_UP sz PAGE_SIZE in
         kbind (mm_kmalloc (4 * number_of_pages) (GFP_KERNEL OR GFP_ZERO_bit) k) (\<lambda>(ptr, k).
         let destroy = (\<lambda>areas k. kbind (vma_destroy_area pd i areas k) (\<lambda>(areas, k). Inr (None, areas, k)));
             area = (areas ! i)\<lparr>pages_ptr := ptr, pages := replicate (unat number_of_pages) 0\<rparr> in
         if ptr = 0 then destroy (areas[i := (areas ! i)\<lparr>pages_ptr := 0\<rparr>]) k
         else let area = area\<lparr>nr_pages := number_of_pages, pte_flags := pte\<rparr> in
           case alloc_mode of
             VMA_EAGER \<Rightarrow> kbind (vma_map_area pd area k) (\<lambda>(ok, area, k).
               if ok then Inr (Some i, areas[i := area], k) else destroy (areas[i := area]) k)
           | VMA_LAZY \<Rightarrow> Inr (Some i, areas[i := area\<lparr>area_state := VM_AREA_LAZY\<rparr>], k)))"

definition vma_alloc ::
  "u32 \<Rightarrow> u32 \<Rightarrow> u32 \<Rightarrow> u32 \<Rightarrow> vma_alloc_mode \<Rightarrow> vm_area list \<Rightarrow> kmm \<Rightarrow> (nat option \<times> vm_area list \<times> kmm) kres" where
  "vma_alloc pd sz pte hint_vaddr alloc_mode areas k =
     kbind (if hint_vaddr \<noteq> 0 then vma_find_by_start hint_vaddr areas else Inr None) (\<lambda>free_area.
     let usable = (case free_area of None \<Rightarrow> False
           | Some i \<Rightarrow> area_state (areas ! i) = VM_AREA_FREE \<and> sz \<le> area_size (areas ! i));
         free_area = (if usable then free_area else vma_first_fit_alloc sz areas) in
     case free_area of None \<Rightarrow> Inr (None, areas, k)
     | Some i \<Rightarrow> vma_alloc_in_area pd i sz pte alloc_mode areas k)"

section \<open>Page faults\<close>

text \<open>\<^verbatim>\<open>page_fault_handler\<close> for a faulting address of the current task: a lazy area is mapped, any other fault panics.\<close>

definition page_fault_handler :: "u32 \<Rightarrow> u32 \<Rightarrow> vm_area list \<Rightarrow> kmm \<Rightarrow> (vm_area list \<times> kmm) kres" where
  "page_fault_handler cur_cr3 faulting_address areas k =
     (case vma_find_by_addr faulting_address areas of None \<Rightarrow> Inl (Panic ''Page fault'')
      | Some i \<Rightarrow>
          if area_state (areas ! i) = VM_AREA_LAZY then
            kbind (vma_map_area cur_cr3 (areas ! i) k) (\<lambda>(ok, area, k).
            if \<not> ok then Inl (Panic ''Failed to map lazy VM area'')
            else Inr (areas[i := area\<lparr>area_state := VM_AREA_ALLOCATED\<rparr>], k))
          else Inl (Panic ''Page fault''))"

section \<open>Kernel virtual allocations\<close>

definition VMALLOC_START :: u32 where "VMALLOC_START = 0xF8000000"
definition VMALLOC_END :: u32 where "VMALLOC_END = 0xFFFFDFFF"
definition MAX_VMALLOC_SIZE :: u32 where "MAX_VMALLOC_SIZE = 0x100000 * 128 - 8192"
definition MIN_VMALLOC_SIZE :: u32 where "MIN_VMALLOC_SIZE = PAGE_SIZE"

definition vsize :: "u32 \<Rightarrow> vm_area list \<Rightarrow> u32 kres" where
  "vsize ptr vmalloc_areas = vma_size ptr vmalloc_areas"

fun vfree_loop :: "u32 \<Rightarrow> u32 \<Rightarrow> nat \<Rightarrow> nat \<Rightarrow> u32 list \<Rightarrow> kmm \<Rightarrow> kmm kres" where
  "vfree_loop cur_pd start i 0 ps k = Inr k"
| "vfree_loop cur_pd start i (Suc n) ps k =
     (if length ps \<le> i then Inl OutOfBounds
      else kbind (mm_unmap_page cur_pd (start + of_nat i * PAGE_SIZE) k) (\<lambda>(_, k).
           kbind (mm_free_block (ps ! i) k) (vfree_loop cur_pd start (i + 1) n ps)))"

definition vfree :: "u32 \<Rightarrow> vm_area list \<Rightarrow> kmm \<Rightarrow> (vm_area list \<times> kmm) kres" where
  "vfree ptr vmalloc_areas k =
     (if ptr = 0 then Inr (vmalloc_areas, k)
      else kbind (vma_find_by_start ptr vmalloc_areas) (\<lambda>r.
        case r of None \<Rightarrow> Inr (vmalloc_areas, k)
        | Some i \<Rightarrow>
            let area = vmalloc_areas ! i in
            kbind (vfree_loop (cr3 (mm_vmm k)) (start_vaddr area) 0 (unat (nr_pages area)) (pages area) k) (\<lambda>k.
            kbind (mm_kfree (pages_ptr area) k) (\<lambda>k.
            vma_merge_area i (vmalloc_areas[i := area\<lparr>pages_ptr := 0, pages := [], nr_pages := 0,
              area_state := VM_AREA_FREE\<rparr>]) k))))"

definition vmalloc :: "u32 \<Rightarrow> vm_area list \<Rightarrow> kmm \<Rightarrow> (u32 \<times> vm_area list \<times> kmm) kres" where
  "vmalloc sz vmalloc_areas k =
     (if MAX_VMALLOC_SIZE < sz \<or> sz < MIN_VMALLOC_SIZE then Inr (0, vmalloc_areas, k)
      else kbind (vma_alloc (cr3 (mm_vmm k)) sz (PTE_PRESENT_BIT OR PTE_RW_BIT) 0 VMA_EAGER vmalloc_areas k)
        (\<lambda>(r, areas, k). Inr (case r of None \<Rightarrow> 0 | Some i \<Rightarrow> start_vaddr (areas ! i), areas, k)))"

definition vmalloc_init :: "kmm \<Rightarrow> (vm_area list \<times> kmm) kres" where
  "vmalloc_init k = vma_init_area VMALLOC_START VMALLOC_END [] k"

end
