(* ===== verification/Slab_Spec.thy ===== *)
theory Slab_Spec
  imports Slab
begin

text \<open>
  The kernel heap: the recursion of \<^verbatim>\<open>kmalloc\<close> through \<^verbatim>\<open>slab_create\<close> ends, the chains of free objects are
  what they should be, taking an object and freeing it are inverse, and what \<^verbatim>\<open>slab_shrink_caches\<close>
  leaves behind.
\<close>

section \<open>The recursion of kmalloc\<close>

definition sizes_ok :: "slab_state \<Rightarrow> bool" where
  "sizes_ok s \<longleftrightarrow> (\<forall>z i. object_size (slab_caches s z i) = cache_sizes ! i)"

lemma sizes_ok_init: "sizes_ok (slab_init s)"
  by (simp add: sizes_ok_def slab_init_def)

lemma object_size_moves [simp]:
  "object_size (unlink_slab a c) = object_size c" "object_size (to_full a c) = object_size c"
  "object_size (to_partial a c) = object_size c" "object_size (to_empty a c) = object_size c"
  by (simp_all add: unlink_slab_def to_full_def to_partial_def to_empty_def)

lemma sizes_ok_upd: "(\<And>c. object_size (f c) = object_size c) \<Longrightarrow> sizes_ok (upd_cache z i f s) = sizes_ok s"
  by (auto simp: sizes_ok_def upd_cache_def)

lemma sizes_ok_caches: "slab_caches s' = slab_caches s \<Longrightarrow> sizes_ok s' = sizes_ok s"
  by (simp add: sizes_ok_def)

lemma slab_caches_same [simp]:
  "slab_caches (set_page p f s) = slab_caches s"
  "slab_caches (slab_setup z i p r fo av s) = slab_caches s"
  by (simp_all add: set_page_def slab_setup_def slab_init_intrusive_freelist_def Let_def)

lemma sizes_ok_simps [simp]:
  "sizes_ok (s\<lparr>sl_buddy := b\<rparr>) = sizes_ok s" "sizes_ok (s\<lparr>slabs := sl\<rparr>) = sizes_ok s"
  "sizes_ok (s\<lparr>links := l\<rparr>) = sizes_ok s" "sizes_ok (set_page p f s) = sizes_ok s"
  "sizes_ok (slab_setup z i p r fo av s) = sizes_ok s" "sizes_ok (bzero_words q n s) = sizes_ok s"
  "sizes_ok (upd_cache z i (to_partial a) s) = sizes_ok s" "sizes_ok (upd_cache z i (\<lambda>c. c\<lparr>empty_freed := e\<rparr>) s) = sizes_ok s"
  "sizes_ok (upd_cache z i (to_full a \<circ> unlink_slab a) s) = sizes_ok s"
  "sizes_ok (upd_cache z i (to_partial a \<circ> unlink_slab a) s) = sizes_ok s"
  "sizes_ok (upd_cache z i (to_empty a \<circ> unlink_slab a) s) = sizes_ok s"
  by (simp_all add: sizes_ok_upd) (simp_all add: sizes_ok_def bzero_words_def)

lemma sizes_ok_slab_free: "slab_free ptr s = Inr s' \<Longrightarrow> sizes_ok s \<Longrightarrow> sizes_ok s'"
  by (auto simp: slab_free_def kres_simps Let_def split: if_splits option.splits prod.splits)

lemma sizes_ok_kfree: "kfree ptr s = Inr s' \<Longrightarrow> sizes_ok s \<Longrightarrow> sizes_ok s'"
  by (auto simp: kfree_def kres_simps Let_def split: if_splits dest: sizes_ok_slab_free)

lemma sizes_ok_shrink_slabs: "shrink_slabs z i as s = Inr s' \<Longrightarrow> sizes_ok s \<Longrightarrow> sizes_ok s'"
proof (induction as arbitrary: s)
  case (Cons a as)
  then show ?case by (auto simp: kres_simps Let_def split: option.splits if_splits dest!: sizes_ok_kfree)
qed simp

lemma sizes_ok_shrink: "shrink_caches_loop z is s = Inr s' \<Longrightarrow> sizes_ok s \<Longrightarrow> sizes_ok s'"
  by (induction "is" arbitrary: s) (auto simp: kres_simps Let_def split: if_splits dest: sizes_ok_shrink_slabs)

text \<open>
  Two allocators for descriptors that agree where it matters: on requests for a descriptor, if such
  requests are made at all.
\<close>

definition km_agree :: "bool \<Rightarrow> kmalloc_fun \<Rightarrow> kmalloc_fun \<Rightarrow> bool" where
  "km_agree e km1 km2 \<longleftrightarrow> (e \<longrightarrow> (\<forall>fl s. sizes_ok s \<longrightarrow> km1 sizeof_slab fl s = km2 sizeof_slab fl s \<and>
     (\<forall>r s'. km1 sizeof_slab fl s = Inr (r, s') \<longrightarrow> sizes_ok s')))"

definition needs_descriptor :: "u32 \<Rightarrow> bool" where
  "needs_descriptor sz \<longleftrightarrow> (\<exists>i. size_to_cache_size sz = Some i \<and> i \<noteq> NUM_SLAB_CACHES \<and> SLAB_IS_EXTERNAL (cache_sizes ! i))"

definition agree_ok :: "(u32 \<times> slab_state) kres \<Rightarrow> (u32 \<times> slab_state) kres \<Rightarrow> bool" where
  "agree_ok x y \<longleftrightarrow> x = y \<and> (\<forall>r s'. x = Inr (r, s') \<longrightarrow> sizes_ok s')"

lemma agree_ok_bind:
  assumes "agree_ok x y" and "\<And>r s. sizes_ok s \<Longrightarrow> x = Inr (r, s) \<Longrightarrow> agree_ok (f (r, s)) (g (r, s))"
  shows "agree_ok (kbind x f) (kbind y g)"
  using assms by (cases x) (auto simp: agree_ok_def)

lemma agree_ok_Inr: "sizes_ok s \<Longrightarrow> agree_ok (Inr (r, s)) (Inr (r, s))"
  by (simp add: agree_ok_def)

lemma agree_ok_Inl: "agree_ok (Inl e) (Inl e)"
  by (simp add: agree_ok_def)

lemma agree_ok_refl: "(\<And>r s'. x = Inr (r, s') \<Longrightarrow> sizes_ok s') \<Longrightarrow> agree_ok x x"
  by (simp add: agree_ok_def)

lemma slab_create_agree:
  assumes s: "sizes_ok s" and km: "km_agree (SLAB_IS_EXTERNAL (cache_sizes ! i)) km1 km2"
  shows "agree_ok (slab_create km1 z i s) (slab_create km2 z i s)"
proof (cases "buddy_alloc_pages PAGE_SIZE z (sl_buddy s)")
  case (Inl e)
  then show ?thesis by (simp add: slab_create_def agree_ok_Inl)
next
  case (Inr x)
  obtain phys b where x: "x = (phys, b)" by (cases x)
  let ?s = "set_page (page_addr_to_page phys) (PAGE_SET_STATE PAGE_STATE_SLAB) (s\<lparr>sl_buddy := b\<rparr>)"
  have os: "object_size (slab_caches s z i) = cache_sizes ! i" using s by (simp add: sizes_ok_def)
  show ?thesis
  proof (cases "SLAB_IS_EXTERNAL (cache_sizes ! i) \<and> phys \<noteq> 0")
    case False
    have e: "slab_create km1 z i s = slab_create km2 z i s" using False by (auto simp: slab_create_def os Let_def Inr x)
    show ?thesis
      unfolding e by (rule agree_ok_refl) (use False s in \<open>auto simp: slab_create_def os Let_def Inr x kres_simps split: if_splits\<close>)
  next
    case True
    let ?fl = "if z = DMA_ZONE then GFP_KERNEL OR GFP_DMA_bit else GFP_KERNEL"
    have a: "agree_ok (km1 sizeof_slab ?fl ?s) (km2 sizeof_slab ?fl ?s)"
    proof -
      have "sizes_ok ?s" using s by simp
      then show ?thesis using km True unfolding km_agree_def agree_ok_def by blast
    qed
    let ?rest = "\<lambda>v (ret, s). if ret = 0 then kbind (buddy_free_block phys (sl_buddy s)) (\<lambda>b. Inr (0, s\<lparr>sl_buddy := b\<rparr>))
         else Inr (ret, slab_setup z i (page_addr_to_page phys) ret v PAGE_SIZE s)"
    have r: "agree_ok (?rest v (ret, t)) (?rest v (ret, t))" if "sizes_ok t" for v ret t
      by (rule agree_ok_refl) (use that in \<open>auto simp: kres_simps split: if_splits\<close>)
    have "slab_create km z i s = kbind (PHYS_TO_VIRT_LINEAR phys) (\<lambda>v. kbind (km sizeof_slab ?fl ?s) (?rest v))" for km
      using True by (simp add: slab_create_def os Let_def Inr x)
    moreover have "agree_ok (kbind (km1 sizeof_slab ?fl ?s) (?rest v)) (kbind (km2 sizeof_slab ?fl ?s) (?rest v))" for v
      by (rule agree_ok_bind [OF a]) (rule r)
    ultimately show ?thesis by (cases "PHYS_TO_VIRT_LINEAR phys") (simp_all add: agree_ok_Inl)
  qed
qed

lemma slab_alloc_agree:
  assumes "sizes_ok s" and "km_agree (needs_descriptor sz) km1 km2"
  shows "agree_ok (slab_alloc km1 sz z s) (slab_alloc km2 sz z s)"
proof (cases "size_to_cache_size sz")
  case None
  then show ?thesis by (simp add: slab_alloc_def agree_ok_Inl)
next
  case (Some i)
  show ?thesis
  proof (cases "i = NUM_SLAB_CACHES \<or> z \<notin> {LOWMEM_ZONE, DMA_ZONE}")
    case True
    then show ?thesis using Some assms(1) by (auto simp: slab_alloc_def agree_ok_Inr)
  next
    case False
    have "km_agree (SLAB_IS_EXTERNAL (cache_sizes ! i)) km1 km2"
      using assms(2) Some False by (auto simp: km_agree_def needs_descriptor_def)
    note create = slab_create_agree [OF assms(1) this, of z]
    have pick: "agree_ok (slab_pick km1 z i s) (slab_pick km2 z i s)"
      unfolding slab_pick_def Let_def
      by (auto split: list.split intro!: agree_ok_Inr agree_ok_Inl agree_ok_bind [OF create] simp: assms(1))
    have take: "agree_ok (slab_take z i a t) (slab_take z i a t)" if "sizes_ok t" for a t
      by (rule agree_ok_refl) (use that in \<open>auto simp: slab_take_def Let_def split: option.splits if_splits\<close>)
    have "agree_ok (kbind (slab_pick km1 z i s) (\<lambda>(a, s). if a = 0 then Inr (0, s) else slab_take z i a s))
        (kbind (slab_pick km2 z i s) (\<lambda>(a, s). if a = 0 then Inr (0, s) else slab_take z i a s))"
      by (rule agree_ok_bind [OF pick]) (simp add: agree_ok_Inr take)
    then show ?thesis using Some False by (simp add: slab_alloc_def)
  qed
qed

lemma get_allocation_agree:
  assumes "sizes_ok s" and "km_agree (needs_descriptor sz) km1 km2"
  shows "agree_ok (get_allocation km1 z sz s) (get_allocation km2 z sz s)"
proof (cases "MAX_SLAB_SIZE < sz")
  case True
  then have e: "get_allocation km1 z sz s = get_allocation km2 z sz s" by (simp add: get_allocation_def)
  show ?thesis
    unfolding e by (rule agree_ok_refl) (use assms(1) True in \<open>auto simp: get_allocation_def kres_simps Let_def split: if_splits\<close>)
next
  case False
  then show ?thesis using slab_alloc_agree [OF assms] by (simp add: get_allocation_def)
qed

lemma kmalloc_step_agree:
  assumes s: "sizes_ok s" and km: "km_agree (needs_descriptor sz) km1 km2"
  shows "agree_ok (kmalloc_step km1 sz fl s) (kmalloc_step km2 sz fl s)"
proof -
  have "agree_ok (try_alloc_with_reclaim km1 z sz s) (try_alloc_with_reclaim km2 z sz s)" for z
    unfolding try_alloc_with_reclaim_def
  proof (rule agree_ok_bind [OF get_allocation_agree [OF s km]])
    fix r t assume t: "sizes_ok t"
    show "agree_ok (case (r, t) of (alloc, s) \<Rightarrow> if alloc = 0 then kbind (slab_shrink_caches z s) (get_allocation km1 z sz) else Inr (alloc, s))
       (case (r, t) of (alloc, s) \<Rightarrow> if alloc = 0 then kbind (slab_shrink_caches z s) (get_allocation km2 z sz) else Inr (alloc, s))"
      using t get_allocation_agree [OF sizes_ok_shrink [OF _ t] km]
      by (cases "slab_shrink_caches z t") (auto simp: agree_ok_Inr agree_ok_Inl slab_shrink_caches_def)
  qed
  then show ?thesis
    unfolding kmalloc_step_def Let_def using s
    by (auto intro!: agree_ok_bind agree_ok_Inr)
qed

lemma descriptor_is_small: "\<not> needs_descriptor sizeof_slab"
proof -
  have "cache_size_loop 32 16 1 = Some 2"
    by (subst cache_size_loop.simps, simp, subst cache_size_loop.simps, simp)
  then show ?thesis
    by (simp add: needs_descriptor_def size_to_cache_size_def sizeof_slab_def NUM_SLAB_CACHES_def cache_sizes_def
        SLAB_IS_EXTERNAL_def SLAB_INTRUSIVE_THRESHOLD_def)
qed

text \<open>C30. The recursion of \<^verbatim>\<open>kmalloc\<close> ends: a slab of large objects needs a descriptor from \<^verbatim>\<open>kmalloc\<close>, and that request
  never needs another one. Whatever stands for a third level of the recursion, the result is that of
  \<^verbatim>\<open>kmalloc\<close>; and the sizes of the caches never change.\<close>

theorem kmalloc_recursion_ends:
  assumes "sizes_ok s"
  shows "kmalloc_step (kmalloc_step km) sz fl s = kmalloc sz fl s \<and>
    (\<forall>r s'. kmalloc sz fl s = Inr (r, s') \<longrightarrow> sizes_ok s')"
proof -
  have inner: "agree_ok (kmalloc_step km1 sizeof_slab fl s) (kmalloc_step km2 sizeof_slab fl s)" if "sizes_ok s" for km1 km2 fl s
    by (rule kmalloc_step_agree [OF that]) (simp add: km_agree_def descriptor_is_small)
  then have "km_agree True (kmalloc_step km) (kmalloc_step (kmalloc_rec 0))"
    by (auto simp: km_agree_def agree_ok_def)
  then have "km_agree (needs_descriptor sz) (kmalloc_step km) (kmalloc_step (kmalloc_rec 0))" by (simp add: km_agree_def)
  from kmalloc_step_agree [OF assms this, of fl]
  have "agree_ok (kmalloc_step (kmalloc_step km) sz fl s) (kmalloc_step (kmalloc_step (kmalloc_rec 0)) sz fl s)" .
  moreover have "kmalloc_step (kmalloc_rec 0) = kmalloc_rec (Suc 0)" by (simp add: fun_eq_iff)
  moreover have "kmalloc_step (kmalloc_rec (Suc 0)) = kmalloc" by (simp add: kmalloc_def fun_eq_iff numeral_2_eq_2)
  ultimately show ?thesis by (simp add: agree_ok_def)
qed

theorem kmalloc_recursion_ends_witness:
  "\<forall>s. kmalloc_step (kmalloc_step (\<lambda>_ _ _. Inl NullDeref)) 2048 1 (slab_init s) = kmalloc 2048 1 (slab_init s)"
  using kmalloc_recursion_ends [OF sizes_ok_init] by blast

section \<open>Chains of free objects\<close>

text \<open>The objects \<open>xs\<close> are chained from \<open>a\<close> on, through their first words, up to the null pointer.\<close>

fun chain :: "(u32 \<Rightarrow> u32) \<Rightarrow> u32 \<Rightarrow> u32 list \<Rightarrow> bool" where
  "chain m a [] \<longleftrightarrow> a = 0"
| "chain m a (x # xs) \<longleftrightarrow> a = x \<and> x \<noteq> 0 \<and> chain m (m x) xs"

lemma chain_upd: "p \<notin> set xs \<Longrightarrow> chain (m(p := v)) a xs = chain m a xs"
  by (induction xs arbitrary: a) auto

text \<open>A slab descriptor with its free objects: as many as are not in use.\<close>

definition slab_ok :: "slab_state \<Rightarrow> u32 \<Rightarrow> u32 list \<Rightarrow> bool" where
  "slab_ok s a xs \<longleftrightarrow> (case slabs s a of None \<Rightarrow> False
     | Some sl \<Rightarrow> chain (links s) (freelist sl) xs \<and> distinct xs \<and>
         unat (inuse sl) + length xs = unat (objects_per_slab (slab_caches s (fst (parent_cache sl)) (snd (parent_cache sl)))))"

lemma init_freelist_other:
  assumes "\<And>j. j \<le> k \<Longrightarrow> a \<noteq> cur + of_nat j * sz"
  shows "init_freelist_loop cur sz k m a = m a"
  using assms
proof (induction k arbitrary: cur m)
  case 0
  from 0 [of 0] show ?case by simp
next
  case (Suc k)
  have "init_freelist_loop (cur + sz) sz k (m(cur := cur + sz)) a = (m(cur := cur + sz)) a"
  proof (rule Suc.IH)
    fix j assume "j \<le> k"
    then show "a \<noteq> cur + sz + of_nat j * sz" using Suc.prems [of "Suc j"] by (simp add: algebra_simps)
  qed
  then show ?case using Suc.prems [of 0] by simp
qed

lemma init_freelist_chain:
  assumes "0 < unat sz" and "0 < unat cur" and "unat cur + k * unat sz < 2 ^ 32"
  shows "chain (init_freelist_loop cur sz k m) cur (map (\<lambda>j. cur + of_nat j * sz) [0..<Suc k])"
  using assms
proof (induction k arbitrary: cur m)
  case 0
  then show ?case by (auto simp: word_unat_eq_iff)
next
  case (Suc k)
  have "unat sz \<le> Suc k * unat sz" by simp
  then have "unat cur + unat sz < 2 ^ LENGTH(32)" using Suc.prems(3) by simp
  then have n: "unat (cur + sz) = unat cur + unat sz" by (rule unat_add_nowrap)
  have ih: "chain (init_freelist_loop (cur + sz) sz k (m(cur := cur + sz))) (cur + sz)
      (map (\<lambda>j. cur + sz + of_nat j * sz) [0..<Suc k])"
    by (rule Suc.IH) (use Suc.prems n in \<open>simp_all add: algebra_simps\<close>)
  have at: "init_freelist_loop (cur + sz) sz k (m(cur := cur + sz)) cur = cur + sz"
  proof (subst init_freelist_other)
    fix j assume j: "j \<le> k"
    have jk: "(Suc j) * unat sz \<le> Suc k * unat sz" using j by (intro mult_le_mono1) simp
    have u: "unat (of_nat (Suc j) * sz) = Suc j * unat sz"
    proof (subst unat_mult_nowrap)
      have "Suc k \<le> Suc k * unat sz" using Suc.prems(1) mult_le_mono2 [of 1 "unat sz" "Suc k"] by (simp only: mult_1_right)
      then have sj: "Suc j < 2 ^ 32" using Suc.prems(3) j by linarith
      then have e: "unat (of_nat (Suc j) :: u32) = Suc j" by (intro unat_of_nat_lt) simp
      have "Suc j * unat sz < 2 ^ 32" using jk Suc.prems(3) by linarith
      then show "unat (of_nat (Suc j) :: u32) * unat sz < 2 ^ LENGTH(32)" unfolding e by simp
      show "unat (of_nat (Suc j) :: u32) * unat sz = Suc j * unat sz" unfolding e ..
    qed
    have "unat (cur + of_nat (Suc j) * sz) = unat cur + Suc j * unat sz"
    proof -
      have "unat cur + Suc j * unat sz < 2 ^ 32" using jk Suc.prems(3) by linarith
      then have "unat cur + unat (of_nat (Suc j) * sz) < 2 ^ LENGTH(32)" unfolding u by simp
      then show ?thesis using unat_add_nowrap u by metis
    qed
    then have "unat cur < unat (cur + of_nat (Suc j) * sz)" using Suc.prems(1) by simp
    moreover have "cur + of_nat (Suc j) * sz = cur + sz + of_nat j * sz" by (simp add: algebra_simps)
    ultimately show "cur \<noteq> cur + sz + of_nat j * sz" by (metis less_irrefl)
  qed simp
  have l: "map (\<lambda>j. cur + of_nat j * sz) [0..<Suc (Suc k)] = cur # map (\<lambda>j. cur + sz + of_nat j * sz) [0..<Suc k]"
    by (simp add: upt_conv_Cons map_Suc_upt [symmetric] del: upt_Suc) (simp add: algebra_simps)
  have nz: "cur \<noteq> 0" using Suc.prems(2) by auto
  show ?case unfolding l using ih at nz by simp
qed

text \<open>A page whose state field was changed and changed back.\<close>

lemma PAGE_SET_STATE_idem:
  assumes "state_value v"
  shows "PAGE_SET_STATE u (PAGE_SET_STATE v pg) = PAGE_SET_STATE u pg"
proof -
  have "(flags pg AND NOT PAGE_STATE_MASK OR (v AND PAGE_STATE_MASK)) AND NOT PAGE_STATE_MASK = flags pg AND NOT PAGE_STATE_MASK"
    by (rule bit_eqI) (auto simp: bit_and_iff bit_or_iff bit_not_iff)
  then show ?thesis using assms by (simp add: PAGE_SET_STATE_def state_value_def)
qed

section \<open>Taking and freeing objects\<close>

lemma slab_inuse_suc:
  assumes "slabs s a = Some sl" and "slab_ok s a (x # xs)"
  shows "unat (inuse sl + 1) = unat (inuse sl) + 1"
proof (rule unat_suc_nowrap)
  have "unat (inuse sl) + 1 \<le> unat (objects_per_slab (slab_caches s (fst (parent_cache sl)) (snd (parent_cache sl))))"
    using assms by (simp add: slab_ok_def)
  from le_less_trans [OF this unat_32_bound] show "unat (inuse sl) + 1 < 2 ^ 32" by simp
qed

lemma slab_take_spec:
  assumes "slabs s a = Some sl" and "slab_ok s a (x # xs)" and "parent_cache sl = (z, i)"
  shows "\<exists>s'. slab_take z i a s = Inr (x, s') \<and> links s' = links s \<and> sl_buddy s' = sl_buddy s \<and>
    slabs s' = (slabs s)(a \<mapsto> sl\<lparr>freelist := links s x, inuse := inuse sl + 1\<rparr>) \<and> slab_ok s' a xs \<and>
    slab_caches s' = slab_caches (if xs = [] then upd_cache z i (to_full a \<circ> unlink_slab a) s else s)"
proof -
  have h: "freelist sl = x" "x \<noteq> 0" "chain (links s) (links s x) xs" "distinct xs"
    "unat (inuse sl) + Suc (length xs) = unat (objects_per_slab (slab_caches s z i))"
    using assms by (auto simp: slab_ok_def)
  have e: "links s x = 0 \<longleftrightarrow> xs = []" using h(3) by (cases xs) auto
  have "unat (inuse sl + 1) = unat (inuse sl) + 1" by (rule slab_inuse_suc [OF assms(1,2)])
  then show ?thesis
    using assms(1,3) h e
    by (auto simp: slab_take_def Let_def slab_ok_def upd_cache_def unlink_slab_def to_full_def)
qed

text \<open>The page of an object belongs to the slab.\<close>

definition slab_page :: "slab_state \<Rightarrow> u32 \<Rightarrow> u32 \<Rightarrow> bool" where
  "slab_page s a x \<longleftrightarrow> KERNEL_VADDR_BASE \<le> x \<and>
     (let pg = descs (sl_buddy s) (page_addr_to_page (x - KERNEL_VADDR_BASE)) in
      PAGE_GET_STATE pg = PAGE_STATE_SLAB \<and> private_data pg = a)"

lemma slab_free_spec:
  assumes sl: "slabs s a = Some sl" and ok: "slab_ok s a xs" and pc: "parent_cache sl = (z, i)"
    and x: "x \<notin> set xs" "x \<noteq> 0" "slab_page s a x" and use: "inuse sl \<noteq> 0"
    and fr: "inuse sl = 1 \<Longrightarrow> \<not> empty_freed (slab_caches s z i)"
  shows "\<exists>s'. slab_free x s = Inr s' \<and> links s' = (links s)(x := freelist sl) \<and> sl_buddy s' = sl_buddy s \<and>
    slabs s' = (slabs s)(a \<mapsto> sl\<lparr>freelist := x, inuse := inuse sl - 1\<rparr>) \<and> slab_ok s' a (x # xs) \<and>
    slab_caches s' = slab_caches (if xs = [] then upd_cache z i (to_partial a \<circ> unlink_slab a) s
      else if inuse sl = 1 then upd_cache z i (to_empty a \<circ> unlink_slab a) s else s)"
proof -
  let ?n = "objects_per_slab (slab_caches s z i)"
  have h: "chain (links s) (freelist sl) xs" "distinct xs" "unat (inuse sl) + length xs = unat ?n"
    using ok sl pc by (auto simp: slab_ok_def)
  have u1: "unat (inuse sl - 1) = unat (inuse sl) - 1" "0 < unat (inuse sl)"
    using use by (simp_all add: unat_sub word_le_nat_alt Suc_le_eq unat_gt_0)
  have full: "inuse sl - 1 = ?n - 1 \<longleftrightarrow> xs = []"
  proof -
    have "inuse sl - 1 = ?n - 1 \<longleftrightarrow> inuse sl = ?n" by simp
    also have "\<dots> \<longleftrightarrow> xs = []" using h(3) by (auto simp: word_unat_eq_iff)
    finally show ?thesis .
  qed
  have one: "inuse sl - 1 = 0 \<longleftrightarrow> inuse sl = 1" by simp
  have c: "chain ((links s)(x := freelist sl)) x (x # xs)" using h(1) x chain_upd [of x xs] by simp
  have p: "VIRT_TO_PHYS_LINEAR x = Inr (x - KERNEL_VADDR_BASE)"
    "PAGE_GET_STATE (descs (sl_buddy s) (page_addr_to_page (x - KERNEL_VADDR_BASE))) = PAGE_STATE_SLAB"
    "private_data (descs (sl_buddy s) (page_addr_to_page (x - KERNEL_VADDR_BASE))) = a"
    using x(3) by (simp_all add: slab_page_def VIRT_TO_PHYS_LINEAR_def Let_def)
  let ?s = "s\<lparr>links := (links s)(x := freelist sl), slabs := (slabs s)(a \<mapsto> sl\<lparr>freelist := x, inuse := inuse sl - 1\<rparr>)\<rparr>"
  let ?s' = "if xs = [] then upd_cache z i (to_partial a \<circ> unlink_slab a) ?s
      else if inuse sl = 1 then upd_cache z i (to_empty a \<circ> unlink_slab a) ?s else ?s"
  have "slab_free x s = Inr ?s'"
    using p sl pc full one fr by (simp add: slab_free_def Let_def)
  moreover have "slab_ok ?s' a (x # xs)"
    using c h x(1) u1 pc by (cases "xs = []"; cases "inuse sl = 1")
      (auto simp: slab_ok_def upd_cache_def unlink_slab_def to_partial_def to_empty_def)
  ultimately show ?thesis
    by (intro exI [of _ ?s']) (simp add: upd_cache_def)
qed

text \<open>The lists of a cache when its slab \<open>a\<close> is the one an allocation is served from: the first partial one, or, when there is none,
  the first empty one.\<close>

definition serves :: "slab_cache \<Rightarrow> u32 \<Rightarrow> slab \<Rightarrow> bool" where
  "serves c a sl \<longleftrightarrow> distinct (slabs_full c @ slabs_partial c @ slabs_empty c) \<and> \<not> empty_freed c \<and>
     (if slabs_partial c \<noteq> [] then hd (slabs_partial c) = a \<and> inuse sl \<noteq> 0
      else slabs_empty c \<noteq> [] \<and> hd (slabs_empty c) = a \<and> inuse sl = 0)"

lemma slab_caches_upd: "slab_caches (upd_cache z i f s) = (slab_caches s)(z := (slab_caches s z)(i := f (slab_caches s z i)))"
  by (simp add: upd_cache_def)

lemma same_partial: "slabs_partial c = as \<Longrightarrow> c\<lparr>slabs_partial := as\<rparr> = c"
  by (cases c) simp

lemma slab_pick_spec:
  assumes "serves (slab_caches s z i) a sl" and "slab_ok s a xs"
  shows "\<exists>s0. slab_pick km z i s = Inr (a, s0) \<and> links s0 = links s \<and> sl_buddy s0 = sl_buddy s \<and> slabs s0 = slabs s \<and>
    slab_ok s0 a xs \<and> slab_caches s0 = (slab_caches s)(z := (slab_caches s z)(i := (slab_caches s z i)\<lparr>
      slabs_partial := a # tl (slabs_partial (slab_caches s z i)),
      slabs_empty := (if slabs_partial (slab_caches s z i) = [] then tl (slabs_empty (slab_caches s z i))
        else slabs_empty (slab_caches s z i))\<rparr>))"
proof (cases "slabs_partial (slab_caches s z i)")
  case Nil
  then obtain rest where r: "slabs_empty (slab_caches s z i) = a # rest" "a \<notin> set (slabs_full (slab_caches s z i))"
    "\<not> empty_freed (slab_caches s z i)"
    using assms(1) by (cases "slabs_empty (slab_caches s z i)") (auto simp: serves_def)
  let ?s = "upd_cache z i (to_partial a \<circ> unlink_slab a) s"
  have "slab_pick km z i s = Inr (a, ?s)" using Nil r by (simp add: slab_pick_def)
  moreover have "slab_ok ?s a xs"
    using assms(2) by (auto simp: slab_ok_def upd_cache_def to_partial_def unlink_slab_def split: option.splits)
  moreover have "(to_partial a \<circ> unlink_slab a) (slab_caches s z i) =
      (slab_caches s z i)\<lparr>slabs_partial := [a], slabs_empty := rest\<rparr>"
    using Nil r by (simp add: to_partial_def unlink_slab_def remove1_idem)
  ultimately show ?thesis
    using Nil r by (intro exI [of _ ?s]) (simp add: slab_caches_upd, simp add: upd_cache_def)
next
  case (Cons b rest)
  then have "b = a" using assms(1) by (simp add: serves_def)
  then show ?thesis using Cons assms(2) by (intro exI [of _ s]) (simp add: slab_pick_def same_partial)
qed

text \<open>C31. An object and back. The allocation is served from the first partial slab of the cache, or, when there is none, from
  its first empty slab: it returns the first free object, the rest of the chain stays free, and the slab is
  afterwards on the list of full slabs if that object was its last free one, else on the list of partial slabs.
  Freeing the object restores the state of the heap exactly: descriptors, chains, and the three lists of every cache.\<close>

theorem slab_alloc_free_roundtrip:
  assumes "size_to_cache_size sz = Some i" and "i < NUM_SLAB_CACHES" and "z = LOWMEM_ZONE \<or> z = DMA_ZONE"
    and "c = slab_caches s z i" and "serves c a sl" and "slabs s a = Some sl" and "parent_cache sl = (z, i)"
    and "slab_ok s a (x # xs)" and "slab_page s a x" and "a \<noteq> 0" and "2 \<le> unat (objects_per_slab c)"
  shows "\<exists>s1. slab_alloc km sz z s = Inr (x, s1) \<and> slab_ok s1 a xs \<and>
    slabs_full (slab_caches s1 z i) = (if xs = [] then a # slabs_full c else slabs_full c) \<and>
    slabs_partial (slab_caches s1 z i) = (if xs = [] then [] else [a]) @ tl (slabs_partial c) \<and>
    slabs_empty (slab_caches s1 z i) = (if slabs_partial c = [] then tl (slabs_empty c) else slabs_empty c) \<and>
    slab_free x s1 = Inr s"
proof -
  let ?p = "tl (slabs_partial c)" and ?e = "if slabs_partial c = [] then tl (slabs_empty c) else slabs_empty c"
  let ?c0 = "c\<lparr>slabs_partial := a # ?p, slabs_empty := ?e\<rparr>"
  have d: "a \<notin> set (slabs_full c)" "a \<notin> set ?p" "a \<notin> set ?e" "\<not> empty_freed c"
    using assms(5) by (cases "slabs_partial c"; cases "slabs_empty c"; auto simp: serves_def)+
  obtain s0 where s0: "slab_pick km z i s = Inr (a, s0)" "links s0 = links s" "sl_buddy s0 = sl_buddy s" "slabs s0 = slabs s"
    "slab_ok s0 a (x # xs)" "slab_caches s0 = (slab_caches s)(z := (slab_caches s z)(i := ?c0))"
    using slab_pick_spec [OF assms(5) [unfolded assms(4)] assms(8), of km] assms(4) by auto
  let ?sl = "sl\<lparr>freelist := links s x, inuse := inuse sl + 1\<rparr>"
  obtain s1 where s1: "slab_take z i a s0 = Inr (x, s1)" "links s1 = links s" "sl_buddy s1 = sl_buddy s"
    "slabs s1 = (slabs s)(a \<mapsto> ?sl)" "slab_ok s1 a xs"
    "slab_caches s1 = slab_caches (if xs = [] then upd_cache z i (to_full a \<circ> unlink_slab a) s0 else s0)"
    using slab_take_spec [OF assms(6) [folded s0(4)] s0(5) assms(7)] s0(2,3,4) by auto
  let ?c1 = "if xs = [] then ?c0\<lparr>slabs_full := a # slabs_full c, slabs_partial := ?p\<rparr> else ?c0"
  have c1: "slab_caches s1 = (slab_caches s)(z := (slab_caches s z)(i := ?c1))"
  proof (cases "xs = []")
    case True
    have "(to_full a \<circ> unlink_slab a) ?c0 = ?c1"
      using True d by (intro slab_cache.equality) (simp_all add: to_full_def unlink_slab_def remove1_idem)
    then show ?thesis unfolding s1(6) using True by (simp add: slab_caches_upd s0(6))
  qed (simp add: s1(6) s0(6))
  have f: "x \<notin> set xs" "x \<noteq> 0" "freelist sl = x" using assms(6,8) by (auto simp: slab_ok_def)
  have n1: "unat (inuse sl + 1) = unat (inuse sl) + 1" by (rule slab_inuse_suc [OF assms(6,8)])
  have one: "inuse ?sl = 1 \<longleftrightarrow> inuse sl = 0" by simp
  have ne: "xs \<noteq> []" if "inuse sl = 0" using assms(4,6,7,8,11) that by (auto simp: slab_ok_def)
  have pg: "slab_page s1 a x" using assms(9) s1(3) by (simp add: slab_page_def)
  obtain s2 where s2: "slab_free x s1 = Inr s2" "links s2 = (links s1)(x := freelist ?sl)" "sl_buddy s2 = sl_buddy s1"
    "slabs s2 = (slabs s1)(a \<mapsto> ?sl\<lparr>freelist := x, inuse := inuse ?sl - 1\<rparr>)"
    "slab_caches s2 = slab_caches (if xs = [] then upd_cache z i (to_partial a \<circ> unlink_slab a) s1
      else if inuse ?sl = 1 then upd_cache z i (to_empty a \<circ> unlink_slab a) s1 else s1)"
  proof -
    have sl1: "slabs s1 a = Some ?sl" "parent_cache ?sl = (z, i)" "inuse ?sl \<noteq> 0" "\<not> empty_freed (slab_caches s1 z i)"
      using s1(4) assms(7) n1 d(4) c1 by auto
    from slab_free_spec [OF sl1(1) s1(5) sl1(2) f(1,2) pg sl1(3,4)] that show ?thesis by blast
  qed
  have cache: "slab_caches s2 z i = c"
  proof (cases "slabs_partial c = []")
    case True
    then have "inuse sl = 0" "slabs_empty c = a # ?e" using assms(5) by (auto simp: serves_def)
    then show ?thesis
      using True ne d unfolding s2(5) slab_caches_upd
      by (simp add: slab_caches_upd c1 to_empty_def unlink_slab_def remove1_idem)
  next
    case False
    then have "inuse sl \<noteq> 0" "slabs_partial c = a # ?p" using assms(5) by (auto simp: serves_def)
    then show ?thesis
      using False one d unfolding s2(5)
      by (cases "xs = []") (simp_all add: slab_caches_upd c1 to_partial_def unlink_slab_def remove1_idem)
  qed
  have "slab_caches s2 = (slab_caches s)(z := (slab_caches s z)(i := slab_caches s2 z i))"
    unfolding s2(5) by (simp add: slab_caches_upd c1)
  then have "slab_caches s2 = slab_caches s" using cache assms(4) by simp
  moreover have "slabs s2 = slabs s" "links s2 = links s" "sl_buddy s2 = sl_buddy s"
    using s2(2,3,4) s1(2,3,4) f assms(6) by (auto simp: fun_eq_iff)
  ultimately have "s2 = s" by (intro slab_state.equality) auto
  moreover have "slab_alloc km sz z s = Inr (x, s1)"
    using assms(1,2,3,10) s0(1) s1(1) by (auto simp: slab_alloc_def)
  ultimately show ?thesis using s1(5) s2(1) c1 by (intro exI [of _ s1]) simp
qed

definition example_slab_state :: slab_state where
  "example_slab_state = \<lparr>
     sl_buddy = \<lparr>descs = (\<lambda>_. \<lparr>flags = PAGE_STATE_SLAB, private_data = 0xC1000000\<rparr>), free_list = (\<lambda>_ _. []), nr_free = (\<lambda>_ _. 0)\<rparr>,
     slab_caches = (\<lambda>_ _. \<lparr>slabs_full = [], slabs_partial = [0xC1000000], slabs_empty = [], object_size = 8, objects_per_slab = 508, empty_freed = False\<rparr>),
     slabs = [0xC1000000 \<mapsto> \<lparr>freelist = 0xC1000020, inuse = 507, parent_cache = (LOWMEM_ZONE, 0)\<rparr>],
     links = (\<lambda>_. 0)\<rparr>"

theorem slab_alloc_free_roundtrip_witness:
  "\<exists>s1. slab_alloc kmalloc 8 LOWMEM_ZONE example_slab_state = Inr (0xC1000020, s1) \<and>
     slabs_full (slab_caches s1 LOWMEM_ZONE 0) = [0xC1000000] \<and> slab_free 0xC1000020 s1 = Inr example_slab_state"
proof -
  let ?sl = "\<lparr>freelist = 0xC1000020, inuse = 507, parent_cache = (LOWMEM_ZONE, 0)\<rparr>" and ?c = "slab_caches example_slab_state LOWMEM_ZONE 0"
  have ok: "slab_ok example_slab_state 0xC1000000 [0xC1000020]" by (simp add: slab_ok_def example_slab_state_def)
  have pg: "slab_page example_slab_state 0xC1000000 0xC1000020"
    by (simp add: slab_page_def example_slab_state_def KERNEL_VADDR_BASE_def PAGE_GET_STATE_def PAGE_STATE_MASK_def page_state_defs)
  have "size_to_cache_size 8 = Some 0" "0 < NUM_SLAB_CACHES" "serves ?c 0xC1000000 ?sl"
    "slabs example_slab_state 0xC1000000 = Some ?sl" "parent_cache ?sl = (LOWMEM_ZONE, 0)" "2 \<le> unat (objects_per_slab ?c)"
    by (simp_all add: size_to_cache_size_def NUM_SLAB_CACHES_def example_slab_state_def serves_def)
  from slab_alloc_free_roundtrip [OF this(1,2) _ refl this(3-5) ok pg _ this(6), of kmalloc]
  show ?thesis by (auto simp: example_slab_state_def)
qed

section \<open>Shrinking\<close>

lemma shrink_loop_append:
  "shrink_caches_loop z (xs @ ys) s = kbind (shrink_caches_loop z xs s) (shrink_caches_loop z ys)"
proof (induction xs arbitrary: s)
  case (Cons x xs)
  then show ?case by (cases "shrink_slabs z x (slabs_empty (slab_caches s z x)) s") (simp_all add: Let_def)
qed simp

lemma shrink_loop_empty: "\<forall>j \<in> set js. slabs_empty (slab_caches s z j) = [] \<Longrightarrow> shrink_caches_loop z js s = Inr s"
  by (induction js) (simp_all add: Let_def)

text \<open>Shrinking a zone with one empty slab, which keeps its descriptor in its own page.\<close>

lemma shrink_one:
  assumes a: "KERNEL_VADDR_BASE \<le> a" and p: "p = page_addr_to_page (a - KERNEL_VADDR_BASE)" "p \<noteq> 0"
    and b: "b = sl_buddy (set_page p (\<lambda>pg. (PAGE_SET_STATE PAGE_STATE_ALLOCATED pg)\<lparr>private_data := 0\<rparr>) s)"
    and inv: "buddy_inv b" and i: "i < NUM_SLAB_CACHES" and sl: "slabs s a = Some sl"
    and emp: "slabs_empty (slab_caches s z i) = [a]" "\<And>j. j \<noteq> i \<Longrightarrow> j < NUM_SLAB_CACHES \<Longrightarrow> slabs_empty (slab_caches s z j) = []"
    and small: "\<not> SLAB_IS_EXTERNAL (object_size (slab_caches s z i))" and fr: "\<not> empty_freed (slab_caches s z i)"
  shows "\<exists>b'. slab_shrink_caches z s = Inr (s\<lparr>sl_buddy := b'\<rparr>) \<and> pstate b' p = PAGE_STATE_FREE \<and> buddy_inv b'"
proof -
  have pm: "p < MAX_PAGES" unfolding p(1) by (rule page_addr_to_page_less)
  have st: "pstate b p = PAGE_STATE_ALLOCATED" "ppriv b p = 0"
  proof -
    have "PAGE_GET_STATE (pg\<lparr>private_data := x\<rparr>) = PAGE_GET_STATE pg" for pg x by (simp add: PAGE_GET_STATE_def)
    then show "pstate b p = PAGE_STATE_ALLOCATED" "ppriv b p = 0"
      unfolding b set_page_def pstate_def ppriv_def by simp_all
  qed
  have pp: "page_addr_to_page (page_to_phys p) = p" using pm by simp
  obtain b' where b': "buddy_free_block (page_to_phys p) b = Inr b'" "buddy_inv b'"
    "\<forall>q. pstate b' q = (if q \<in> blk p 0 then PAGE_STATE_FREE else pstate b q)"
    using free_allocated_spec [OF inv, of "page_to_phys p" 0] st p(2) unfolding pp by auto
  have one: "shrink_slabs z i [a] s = Inr (s\<lparr>sl_buddy := b'\<rparr>)"
    using sl small a b'(1) unfolding b by (simp add: VIRT_TO_PHYS_LINEAR_def Let_def p(1) [symmetric]) (simp add: set_page_def)
  have split: "[0..<NUM_SLAB_CACHES] = [0..<i] @ i # [Suc i..<NUM_SLAB_CACHES]"
    using upt_add_eq_append [of 0 i "NUM_SLAB_CACHES - i"] i by (simp add: upt_conv_Cons)
  have "slab_shrink_caches z s = Inr (s\<lparr>sl_buddy := b'\<rparr>)"
    unfolding slab_shrink_caches_def split shrink_loop_append
    using emp one i fr by (simp add: shrink_loop_empty Let_def)
  moreover have "pstate b' p = PAGE_STATE_FREE" using b'(3) by simp
  ultimately show ?thesis using b'(2) by blast
qed

text \<open>Shrinking leaves dangling slabs: after \<^verbatim>\<open>slab_shrink_caches\<close> gave the page of an empty slab back to the page
  allocator, the slab is still on its list, and the next allocation of that size returns an object in
  the free page.\<close>

theorem slab_shrink_then_alloc_uses_free_page:
  assumes "KERNEL_VADDR_BASE \<le> a" and "p = page_addr_to_page (a - KERNEL_VADDR_BASE)" and "p \<noteq> 0"
    and "buddy_inv (sl_buddy (set_page p (\<lambda>pg. (PAGE_SET_STATE PAGE_STATE_ALLOCATED pg)\<lparr>private_data := 0\<rparr>) s))"
    and "i < NUM_SLAB_CACHES" and "slabs s a = Some sl" and "freelist sl \<noteq> 0"
    and "page_addr_to_page (freelist sl - KERNEL_VADDR_BASE) = p"
    and "slabs_empty (slab_caches s z i) = [a]" and "\<And>j. j \<noteq> i \<Longrightarrow> j < NUM_SLAB_CACHES \<Longrightarrow> slabs_empty (slab_caches s z j) = []"
    and "\<not> SLAB_IS_EXTERNAL (object_size (slab_caches s z i))" and "slabs_partial (slab_caches s z i) = []"
    and "size_to_cache_size sz = Some i" and "z = LOWMEM_ZONE \<or> z = DMA_ZONE" and "\<not> empty_freed (slab_caches s z i)"
  shows "\<exists>s1 s2 x. slab_shrink_caches z s = Inr s1 \<and> slab_alloc km sz z s1 = Inr (x, s2) \<and> x \<noteq> 0 \<and>
    page_addr_to_page (x - KERNEL_VADDR_BASE) = p \<and> p \<in> free_pages (sl_buddy s2)"
proof -
  obtain b' where b': "slab_shrink_caches z s = Inr (s\<lparr>sl_buddy := b'\<rparr>)" "pstate b' p = PAGE_STATE_FREE"
    using shrink_one [OF assms(1,2,3) refl assms(4,5,6,9,10,11,15)] by blast
  let ?s = "s\<lparr>sl_buddy := b'\<rparr>"
  have "a \<noteq> 0" using assms(1) by (auto simp: KERNEL_VADDR_BASE_def)
  then obtain s2 where "slab_alloc km sz z ?s = Inr (freelist sl, s2)" "sl_buddy s2 = b'"
    using assms(5,6,7,9,12,13,14,15)
    by (auto simp: slab_alloc_def slab_pick_def slab_take_def Let_def upd_cache_def)
  moreover have "p \<in> free_pages b'"
    using b'(2) assms(2) page_addr_to_page_less by (simp add: free_pages_def pstate_def)
  ultimately show ?thesis using b'(1) assms(7,8) by metis
qed

lemma PAGE_SET_GET_STATE: "PAGE_GET_STATE pg = v \<Longrightarrow> PAGE_SET_STATE v pg = pg"
proof -
  assume "PAGE_GET_STATE pg = v"
  then have "flags pg AND NOT PAGE_STATE_MASK OR v = flags pg"
    by (intro bit_eqI) (auto simp: PAGE_GET_STATE_def bit_and_iff bit_or_iff bit_not_iff)
  then show ?thesis by (simp add: PAGE_SET_STATE_def)
qed

lemma example_allocated_page:
  "\<exists>b p. buddy_inv b \<and> p \<in> {8192, 8193, 8194, 8195} \<and> pstate b p = PAGE_STATE_ALLOCATED \<and> ppriv b p = 0"
proof -
  obtain b where b: "buddy_inv b" "free_pages b = {8192, 8193, 8194, 8195}" using example_state by blast
  have "\<exists>k. size_to_order 4096 \<le> k \<and> k \<le> 10 \<and> free_list b LOWMEM_ZONE k \<noteq> []"
    using free_page_listed [OF b(1), of 8192] b(2) order_one_page example_zone by auto
  then obtain p b' where p: "buddy_inv b'" "allocated_block p 0 LOWMEM_ZONE b b'"
    using buddy_alloc_spec [OF b(1), of LOWMEM_ZONE 4096] order_one_page by auto
  have "blk p 0 \<subseteq> {8192, 8193, 8194, 8195}" and m: "pstate b' p = PAGE_STATE_ALLOCATED" "ppriv b' p = 0"
    using p(2) b(2) by (simp_all add: allocated_block_def block_meta_def)
  from subsetD [OF this(1) blk_self] show ?thesis using p(1) m by (intro exI [of _ b'] exI [of _ p] conjI)
qed

theorem slab_shrink_then_alloc_uses_free_page_witness:
  "\<exists>s p s1 s2 x. slab_shrink_caches LOWMEM_ZONE s = Inr s1 \<and> slab_alloc kmalloc 8 LOWMEM_ZONE s1 = Inr (x, s2) \<and>
     x \<noteq> 0 \<and> page_addr_to_page (x - KERNEL_VADDR_BASE) = p \<and> p \<in> free_pages (sl_buddy s2)"
proof -
  obtain b p where b: "buddy_inv b" "p \<in> {8192, 8193, 8194, 8195}" "pstate b p = PAGE_STATE_ALLOCATED" "ppriv b p = 0"
    using example_allocated_page by blast
  let ?a = "page_to_phys p + KERNEL_VADDR_BASE"
  have a: "KERNEL_VADDR_BASE \<le> ?a" "page_addr_to_page (?a - KERNEL_VADDR_BASE) = p"
    "?a + 32 \<noteq> 0" "page_addr_to_page (?a + 32 - KERNEL_VADDR_BASE) = p"
    using b(2) by (auto simp: page_to_phys_def page_addr_to_page_div page_to_index_def KERNEL_VADDR_BASE_def PAGE_SIZE_def)
  define s where "s = \<lparr>
     sl_buddy = b\<lparr>descs := (descs b)(p := (PAGE_SET_STATE PAGE_STATE_SLAB (descs b p))\<lparr>private_data := ?a\<rparr>)\<rparr>,
     slab_caches = (\<lambda>_ i. \<lparr>slabs_full = [], slabs_partial = [], slabs_empty = (if i = 0 then [?a] else []), object_size = 8, objects_per_slab = 508, empty_freed = False\<rparr>),
     slabs = [?a \<mapsto> \<lparr>freelist = ?a + 32, inuse = 0, parent_cache = (LOWMEM_ZONE, 0)\<rparr>],
     links = (\<lambda>_. 0)\<rparr>"
  have restored: "(PAGE_SET_STATE PAGE_STATE_ALLOCATED ((PAGE_SET_STATE PAGE_STATE_SLAB pg)\<lparr>private_data := y\<rparr>))\<lparr>private_data := 0\<rparr> = pg"
    if "PAGE_GET_STATE pg = PAGE_STATE_ALLOCATED" "private_data pg = 0" for pg y
  proof -
    have "(PAGE_SET_STATE u (pg\<lparr>private_data := y\<rparr>))\<lparr>private_data := 0\<rparr> = (PAGE_SET_STATE u pg)\<lparr>private_data := 0\<rparr>" for u pg
      by (simp add: PAGE_SET_STATE_def)
    then show ?thesis using that PAGE_SET_STATE_idem [of PAGE_STATE_SLAB] PAGE_SET_GET_STATE [OF that(1)] by simp
  qed
  have "sl_buddy (set_page p (\<lambda>pg. (PAGE_SET_STATE PAGE_STATE_ALLOCATED pg)\<lparr>private_data := 0\<rparr>) s) = b"
    using restored [of "descs b p"] b(3,4) by (simp add: s_def set_page_def pstate_def ppriv_def)
  then have inv: "buddy_inv (sl_buddy (set_page p (\<lambda>pg. (PAGE_SET_STATE PAGE_STATE_ALLOCATED pg)\<lparr>private_data := 0\<rparr>) s))"
    using b(1) by simp
  have "\<exists>s1 s2 x. slab_shrink_caches LOWMEM_ZONE s = Inr s1 \<and> slab_alloc kmalloc 8 LOWMEM_ZONE s1 = Inr (x, s2) \<and> x \<noteq> 0 \<and>
    page_addr_to_page (x - KERNEL_VADDR_BASE) = p \<and> p \<in> free_pages (sl_buddy s2)"
    by (rule slab_shrink_then_alloc_uses_free_page [where i = 0 and a = ?a and
          sl = "\<lparr>freelist = ?a + 32, inuse = 0, parent_cache = (LOWMEM_ZONE, 0)\<rparr>", OF a(1) a(2) [symmetric] _ inv])
      (use a b(2) in \<open>auto simp: s_def NUM_SLAB_CACHES_def SLAB_IS_EXTERNAL_def SLAB_INTRUSIVE_THRESHOLD_def size_to_cache_size_def\<close>)
  then show ?thesis by blast
qed

end
