(* ===== verification/Vma_Inv.thy ===== *)
theory Vma_Inv
  imports Vma Slab_Spec
begin

text \<open>
  The areas of an address space: whatever sequence of allocations, releases and page faults, they tile
  the range they were created for, in order, none of them is empty, and no two neighbours are both free.
\<close>

section \<open>Tilings\<close>

fun tiles :: "nat \<Rightarrow> nat \<Rightarrow> vm_area list \<Rightarrow> bool" where
  "tiles lo hi [] \<longleftrightarrow> lo = hi"
| "tiles lo hi (a # as) \<longleftrightarrow> unat (start_vaddr a) = lo \<and> tiles (lo + unat (area_size a)) hi as"

definition is_free :: "vm_area \<Rightarrow> bool" where
  "is_free a \<longleftrightarrow> area_state a = VM_AREA_FREE"

definition coalesced :: "vm_area list \<Rightarrow> bool" where
  "coalesced as \<longleftrightarrow> successively (\<lambda>a b. \<not> (is_free a \<and> is_free b)) as"

definition filled :: "vm_area list \<Rightarrow> bool" where
  "filled as \<longleftrightarrow> (\<forall>a \<in> set as. area_size a \<noteq> 0)"

definition vma_inv :: "nat \<Rightarrow> nat \<Rightarrow> vm_area list \<Rightarrow> bool" where
  "vma_inv lo hi as \<longleftrightarrow> tiles lo hi as \<and> coalesced as \<and> filled as"

text \<open>A list whose area \<open>i\<close> may be empty, but only in front of a free area, with which it will be merged.\<close>

definition closable :: "nat \<Rightarrow> vm_area list \<Rightarrow> bool" where
  "closable i as \<longleftrightarrow> filled (take i as) \<and> filled (drop (Suc i) as) \<and>
     (area_size (as ! i) \<noteq> 0 \<or> (drop (Suc i) as \<noteq> [] \<and> is_free (hd (drop (Suc i) as))))"

lemma filled_simps [simp]:
  "filled []" "filled (a # as) \<longleftrightarrow> area_size a \<noteq> 0 \<and> filled as" "filled (xs @ ys) \<longleftrightarrow> filled xs \<and> filled ys"
  by (auto simp: filled_def)

lemma filled_take_drop: "filled as \<Longrightarrow> filled (take i as) \<and> filled (drop j as)"
  by (auto simp: filled_def dest: in_set_takeD in_set_dropD)

lemma filled_update: "i < length as \<Longrightarrow> filled as \<Longrightarrow> area_size a \<noteq> 0 \<Longrightarrow> filled (as[i := a])"
  by (auto simp: filled_def dest!: set_update_subset_insert [THEN subsetD])

lemma filled_nth: "i < length as \<Longrightarrow> filled as \<Longrightarrow> area_size (as ! i) \<noteq> 0"
  by (simp add: filled_def)

lemma closable_update: "i < length as \<Longrightarrow> area_size a = area_size (as ! i) \<Longrightarrow> closable i (as[i := a]) = closable i as"
  by (simp add: closable_def)

lemma tiles_append: "tiles lo hi (xs @ ys) \<longleftrightarrow> (\<exists>mid. tiles lo mid xs \<and> tiles mid hi ys)"
  by (induction xs arbitrary: lo) auto

lemma tiles_le: "tiles lo hi as \<Longrightarrow> lo \<le> hi"
proof (induction as arbitrary: lo)
  case (Cons a as)
  then have "lo + unat (area_size a) \<le> hi" by simp
  then show ?case by simp
qed simp

lemma list_split: "i < length xs \<Longrightarrow> xs = take i xs @ xs ! i # drop (Suc i) xs"
  by (rule id_take_nth_drop)

lemma list_split2:
  assumes "i + 1 < length xs"
  shows "xs = take i xs @ xs ! i # xs ! (i + 1) # drop (i + 2) xs"
proof -
  have "drop (Suc i) xs = xs ! (i + 1) # drop (i + 2) xs" using assms Cons_nth_drop_Suc [of "i + 1" xs] by simp
  then show ?thesis using list_split [of i xs] assms by simp
qed

text \<open>An area that keeps its place.\<close>

lemma tiles_update:
  assumes "i < length as" and "start_vaddr a = start_vaddr (as ! i)" and "area_size a = area_size (as ! i)"
  shows "tiles lo hi (as[i := a]) = tiles lo hi as"
proof -
  have "as[i := a] = take i as @ a # drop (Suc i) as" using assms(1) by (rule upd_conv_take_nth_drop)
  moreover have "tiles lo hi as = tiles lo hi (take i as @ as ! i # drop (Suc i) as)"
    using list_split [OF assms(1)] by simp
  ultimately show ?thesis using assms(2,3) by (simp add: tiles_append)
qed

lemma tiles_neighbors:
  assumes "tiles lo hi (pre @ a # b # post)"
  shows "vma_areas_are_neighbors a b"
proof -
  have "unat (start_vaddr b) = unat (start_vaddr a) + unat (area_size a)" using assms by (auto simp: tiles_append)
  from arg_cong [OF this, of "of_nat :: nat \<Rightarrow> u32"] show ?thesis by (simp add: vma_areas_are_neighbors_def)
qed

lemma tiles_merge:
  assumes "tiles lo hi (pre @ a # b # post)" and "hi < 2 ^ 32"
  shows "tiles lo hi (pre @ a\<lparr>area_size := area_size a + area_size b\<rparr> # post)"
    "area_size a + area_size b = 0 \<longleftrightarrow> area_size a = 0 \<and> area_size b = 0"
proof -
  obtain mid where m: "tiles lo mid pre" "unat (start_vaddr a) = mid"
    "tiles (mid + unat (area_size a) + unat (area_size b)) hi post"
    using assms(1) by (auto simp: tiles_append)
  have u: "unat (area_size a + area_size b) = unat (area_size a) + unat (area_size b)"
    using tiles_le [OF m(3)] assms(2) by (subst unat_add_nowrap) auto
  then show "tiles lo hi (pre @ a\<lparr>area_size := area_size a + area_size b\<rparr> # post)"
    using m by (auto simp: tiles_append add.assoc)
  show "area_size a + area_size b = 0 \<longleftrightarrow> area_size a = 0 \<and> area_size b = 0"
    using u by (metis add_is_0 unat_eq_0)
qed

section \<open>Merging\<close>

text \<open>Merging the areas around position \<open>i\<close>: neighbours that are both free become one.\<close>

lemma merge_neighbor_inv:
  assumes t: "tiles lo hi (pre @ a # b # post)" and hi: "hi < 2 ^ 32"
    and m: "merge_neighbor (length pre) (pre @ a # b # post) k = Inr (as', k')"
  shows "tiles lo hi as' \<and> (if is_free a \<and> is_free b
    then as' = pre @ a\<lparr>area_size := area_size a + area_size b\<rparr> # post else as' = pre @ a # b # post)"
proof -
  have n: "(pre @ a # b # post) ! length pre = a" "(pre @ a # b # post) ! (length pre + 1) = b"
    "take (length pre) (pre @ a # b # post) = pre" "drop (length pre + 2) (pre @ a # b # post) = post"
    by (simp_all add: nth_append)
  show ?thesis
    using m t tiles_merge(1) [OF t hi] tiles_neighbors [OF t]
    unfolding merge_neighbor_def n Let_def by (auto simp: kres_simps is_free_def split: if_splits)
qed

lemma is_free_size [simp]: "is_free (a\<lparr>area_size := x\<rparr>) = is_free a"
  by (simp add: is_free_def)

lemma coalesced_Cons2: "coalesced (a # b # as) \<longleftrightarrow> \<not> (is_free a \<and> is_free b) \<and> coalesced (b # as)"
  by (simp add: coalesced_def)

lemma coalesced_single: "coalesced []" "coalesced [a]"
  by (simp_all add: coalesced_def)

lemma coalesced_append:
  "coalesced (xs @ ys) \<longleftrightarrow> coalesced xs \<and> coalesced ys \<and> (xs \<noteq> [] \<longrightarrow> ys \<noteq> [] \<longrightarrow> \<not> (is_free (last xs) \<and> is_free (hd ys)))"
  by (auto simp: coalesced_def successively_append_iff)

lemma coalesced_Cons_free: "is_free a = is_free b \<Longrightarrow> coalesced (a # as) = coalesced (b # as)"
  by (cases as) (simp_all add: coalesced_Cons2 coalesced_single)

lemma vma_merge_area_inv:
  assumes t: "tiles lo hi (pre @ a # post)" and hi: "hi < 2 ^ 32" and c: "coalesced pre" "coalesced post"
    and fa: "is_free a" and m: "vma_merge_area (length pre) (pre @ a # post) k = Inr (as', k')"
    and cl: "closable (length pre) (pre @ a # post)"
  shows "vma_inv lo hi as'"
proof -
  obtain as1 k1 where s1: "(if length pre + 1 < length (pre @ a # post) then merge_neighbor (length pre) (pre @ a # post) k
      else Inr (pre @ a # post, k)) = Inr (as1, k1)"
    "(if 0 < length pre then merge_neighbor (length pre - 1) as1 k1 else Inr (as1, k1)) = Inr (as', k')"
    using m by (auto simp: vma_merge_area_def kres_simps)
  have so: "filled pre" "filled post" "area_size a \<noteq> 0 \<or> (post \<noteq> [] \<and> is_free (hd post))"
    using cl by (auto simp: closable_def)
  have "\<exists>a1 post1. as1 = pre @ a1 # post1 \<and> tiles lo hi as1 \<and> is_free a1 \<and> coalesced (a1 # post1) \<and> filled (a1 # post1)"
  proof (cases post)
    case Nil
    then show ?thesis using s1(1) t fa so by (auto simp: coalesced_single)
  next
    case (Cons b post')
    have mm: "merge_neighbor (length pre) (pre @ a # b # post') k = Inr (as1, k1)" using s1(1) Cons by simp
    note r = merge_neighbor_inv [OF t [unfolded Cons] hi mm]
    show ?thesis
    proof (cases "is_free b")
      case True
      let ?a = "a\<lparr>area_size := area_size a + area_size b\<rparr>"
      have "coalesced (?a # post')" using c(2) True fa Cons coalesced_Cons_free [of ?a b post'] by simp
      then show ?thesis
        using r fa True so Cons tiles_merge(2) [OF t [unfolded Cons] hi] by (intro exI [of _ ?a] exI [of _ post']) auto
    next
      case False
      then show ?thesis using r fa c(2) Cons so by (intro exI [of _ a] exI [of _ post]) (auto simp: coalesced_Cons2)
    qed
  qed
  then obtain a1 post1 where a1: "as1 = pre @ a1 # post1" "tiles lo hi as1" "is_free a1" "coalesced (a1 # post1)" "filled (a1 # post1)" by blast
  show ?thesis
  proof (cases pre rule: rev_cases)
    case Nil
    then show ?thesis using s1(2) a1 by (simp add: vma_inv_def)
  next
    case (snoc pre' b)
    have sh: "as1 = pre' @ b # a1 # post1" using a1(1) snoc by simp
    moreover have "merge_neighbor (length pre') as1 k1 = Inr (as', k')" using s1(2) snoc by simp
    ultimately have r: "tiles lo hi as'" "if is_free b \<and> is_free a1 then as' = pre' @ b\<lparr>area_size := area_size b + area_size a1\<rparr> # post1
        else as' = pre' @ b # a1 # post1"
      using merge_neighbor_inv [OF _ hi] a1(2) by blast+
    have cp: "coalesced (pre' @ [b])" using c(1) snoc by simp
    have "coalesced as'"
    proof (cases "is_free b")
      case True
      let ?b = "b\<lparr>area_size := area_size b + area_size a1\<rparr>"
      have "coalesced (?b # post1)" using a1(3,4) True coalesced_Cons_free [of ?b a1 post1] by simp
      then show ?thesis using r(2) True a1(3) cp by (simp add: coalesced_append)
    next
      case False
      then show ?thesis using r(2) cp a1(4) by (simp add: coalesced_append coalesced_Cons2)
    qed
    moreover have "filled as'"
      using r(2) a1(5) so(1) snoc tiles_merge(2) [OF a1(2) [unfolded sh] hi] by (auto split: if_splits)
    ultimately show ?thesis using r(1) by (simp add: vma_inv_def)
  qed
qed

lemma vma_inv_split: "vma_inv lo hi (pre @ a # post) \<Longrightarrow> coalesced pre \<and> coalesced post \<and> tiles lo hi (pre @ a # post)"
  by (cases post) (auto simp: vma_inv_def coalesced_append coalesced_Cons2 coalesced_single)

lemma vma_destroy_area_inv:
  assumes t: "tiles lo hi as" and i: "i < length as" and c: "coalesced (take i as)" "coalesced (drop (Suc i) as)" and hi: "hi < 2 ^ 32"
    and d: "vma_destroy_area pd i as k = Inr (as', k')" and cl: "closable i as"
  shows "vma_inv lo hi as'"
proof -
  define a where "a = (as ! i)\<lparr>pages_ptr := 0, pages := (if pages_ptr (as ! i) = 0 then pages (as ! i) else []),
        nr_pages := 0, area_state := VM_AREA_FREE, pte_flags := 0\<rparr>"
  obtain k1 where m: "vma_merge_area i (as[i := a]) k1 = Inr (as', k')"
    using d by (auto simp: vma_destroy_area_def Let_def kres_simps a_def)
  have a: "start_vaddr a = start_vaddr (as ! i)" "area_size a = area_size (as ! i)" "is_free a"
    by (simp_all add: a_def is_free_def)
  have e: "as[i := a] = take i as @ a # drop (Suc i) as" using i by (rule upd_conv_take_nth_drop)
  have l: "length (take i as) = i" using i by simp
  have "tiles lo hi (take i as @ a # drop (Suc i) as)" using t tiles_update [OF i a(1,2)] e by simp
  moreover have "closable i (take i as @ a # drop (Suc i) as)"
    unfolding e [symmetric] using cl closable_update [OF i a(2)] by simp
  ultimately show ?thesis using vma_merge_area_inv [OF _ hi c a(3)] m unfolding e l by blast
qed

section \<open>Allocating\<close>

lemma find_index_Some: "find_index P xs = Some i \<Longrightarrow> i < length xs \<and> P (xs ! i)"
  by (induction xs arbitrary: i) (auto split: if_splits)

text \<open>What the split of a free area gives: the new area stands where the free one started.\<close>

lemma vma_split_area_inv:
  assumes inv: "vma_inv lo hi as" and i: "i < length as" and f: "is_free (as ! i)" and hi: "hi < 2 ^ 32"
    and s: "vma_split_area i sz as k = Inr (r, as', k')"
  shows "case r of None \<Rightarrow> as' = as
    | Some j \<Rightarrow> j = i \<and> i < length as' \<and> tiles lo hi as' \<and> \<not> is_free (as' ! i) \<and> area_size (as' ! i) = ALIGN sz PAGE_SIZE \<and>
        start_vaddr (as' ! i) = start_vaddr (as ! i) \<and> coalesced (take i as') \<and> coalesced (drop (Suc i) as') \<and>
        closable i as'"
proof -
  let ?a = "as ! i" and ?n = "ALIGN sz PAGE_SIZE"
  note e = list_split [OF i]
  have sp: "coalesced (take i as)" "coalesced (drop (Suc i) as)" "tiles lo hi as" "coalesced (?a # drop (Suc i) as)"
  proof -
    have v: "vma_inv lo hi (take i as @ ?a # drop (Suc i) as)" using inv e by simp
    from vma_inv_split [OF v] show "coalesced (take i as)" "coalesced (drop (Suc i) as)" by simp_all
    show "tiles lo hi as" using inv by (simp add: vma_inv_def)
    show "coalesced (?a # drop (Suc i) as)" using v unfolding vma_inv_def coalesced_append by blast
  qed
  have so: "filled as" using inv by (simp add: vma_inv_def)
  consider "r = None" "as' = as" | "r = Some i" "?n = area_size ?a"
      "as' = as[i := ?a\<lparr>nr_pages := DIV_ROUND_UP ?n PAGE_SIZE, area_state := VM_AREA_ALLOCATED\<rparr>]"
    | new where "r = Some i" "?n < area_size ?a" "as' = take i as @ \<lparr>vma_node = new, area_state = VM_AREA_ALLOCATED, start_vaddr = start_vaddr ?a,
          area_size = ?n, pte_flags = 0, nr_pages = DIV_ROUND_UP ?n PAGE_SIZE, pages_ptr = 0, pages = []\<rparr> #
        ?a\<lparr>start_vaddr := start_vaddr ?a + ?n, area_size := area_size ?a - ?n\<rparr> # drop (i + 1) as"
    using s unfolding vma_split_area_def Let_def by (auto simp: kres_simps split: if_splits)
  then show ?thesis
  proof cases
    case 1
    then show ?thesis by simp
  next
    case 2
    then show ?thesis
      using i sp filled_take_drop [OF so] filled_nth [OF i so] by (simp add: is_free_def tiles_update closable_def)
  next
    case (3 new)
    let ?b = "?a\<lparr>start_vaddr := start_vaddr ?a + ?n, area_size := area_size ?a - ?n\<rparr>"
    have "tiles lo hi (take i as @ ?a # drop (Suc i) as)" using sp(3) e by simp
    then obtain mid where m: "tiles lo mid (take i as)" "unat (start_vaddr ?a) = mid" "tiles (mid + unat (area_size ?a)) hi (drop (Suc i) as)"
      unfolding tiles_append tiles.simps(2) by blast
    have le: "unat ?n < unat (area_size ?a)" using 3(2) by (simp add: word_less_nat_alt)
    have "unat (start_vaddr ?a + ?n) = mid + unat ?n"
      using m(2) tiles_le [OF m(3)] le hi by (subst unat_add_nowrap) auto
    moreover have "unat (area_size ?a - ?n) = unat (area_size ?a) - unat ?n" using 3(2) by (simp add: unat_sub)
    ultimately have "tiles lo hi as'" using m le unfolding 3(3) by (auto simp: tiles_append)
    moreover have "coalesced (?b # drop (i + 1) as)" using sp(4) coalesced_Cons_free [of ?b ?a "drop (Suc i) as"] by (simp add: is_free_def)
    moreover have "length (take i as) = i" using i by simp
    moreover have "area_size ?b \<noteq> 0" using le by auto
    ultimately show ?thesis
      unfolding 3(1) using 3(3) sp(1) f filled_take_drop [OF so] by (simp add: nth_append is_free_def closable_def)
  qed
qed

lemma vma_map_area_same: "vma_map_area pd a k = Inr (ok, a', k') \<Longrightarrow>
    start_vaddr a' = start_vaddr a \<and> area_size a' = area_size a \<and> area_state a' = area_state a"
  by (auto simp: vma_map_area_def Let_def kres_simps split: if_splits)

text \<open>The area an allocation returns: not free, of the rounded size.\<close>

definition new_area_ok :: "u32 \<Rightarrow> nat option \<Rightarrow> vm_area list \<Rightarrow> bool" where
  "new_area_ok sz r as \<longleftrightarrow> (\<forall>i. r = Some i \<longrightarrow> i < length as \<and> \<not> is_free (as ! i) \<and> area_size (as ! i) = ALIGN sz PAGE_SIZE)"

text \<open>Storing the new area back, mapped or lazy, keeps the list in order.\<close>

lemma store_area_inv:
  assumes "tiles lo hi as" and "i < length as" and "\<not> is_free a" and "coalesced (take i as)" and "coalesced (drop (Suc i) as)"
    and "start_vaddr a = start_vaddr (as ! i)" and "area_size a = area_size (as ! i)" and "area_size (as ! i) = ALIGN sz PAGE_SIZE"
    and "closable i as" and "ALIGN sz PAGE_SIZE \<noteq> 0"
  shows "vma_inv lo hi (as[i := a]) \<and> new_area_ok sz (Some i) (as[i := a])"
proof -
  have e: "as[i := a] = take i as @ a # drop (Suc i) as" using assms(2) by (rule upd_conv_take_nth_drop)
  have "coalesced (as[i := a])"
    unfolding e coalesced_append using assms(3,4,5) by (cases "drop (Suc i) as") (auto simp: coalesced_Cons2 coalesced_single)
  moreover have "filled (as[i := a])" using assms(7-10) by (simp add: e closable_def)
  ultimately show ?thesis using assms by (simp add: vma_inv_def tiles_update new_area_ok_def)
qed

text \<open>A size that is rounded to 0, because it is 0 or the rounding wraps around, asks \<^verbatim>\<open>kmalloc\<close> for an array of no pages,
  which is refused.\<close>

lemma align_zero_pages:
  assumes "ALIGN sz PAGE_SIZE = 0"
  shows "DIV_ROUND_UP sz PAGE_SIZE = 0"
proof -
  let ?x = "sz + 4095"
  have "?x AND NOT (mask 12) = 0" using assms by (simp add: ALIGN_def PAGE_SIZE_def mask_eq_exp_minus_1)
  from arg_cong [OF this, of bit] have "\<not> bit ?x n" if "12 \<le> n" "n < 32" for n
    using that by (auto simp: fun_eq_iff bit_simps)
  then have "take_bit 12 ?x = ?x" by (intro bit_word_eqI) (auto simp: bit_take_bit_iff, meson not_le)
  then have "unat ?x = take_bit 12 (unat ?x)" by (metis unsigned_take_bit_eq)
  then have "unat ?x < 4096" using take_bit_nat_less_exp [of 12 "unat ?x"] by simp
  then have "unat (?x div 4096) = 0" by (simp add: unat_div)
  moreover have "DIV_ROUND_UP sz PAGE_SIZE = ?x div 4096" by (simp add: DIV_ROUND_UP_def PAGE_SIZE_def add.commute)
  ultimately show ?thesis by (simp only: unat_eq_0)
qed

lemma kmalloc_zero: "mm_kmalloc 0 fl k = Inr (p, k') \<Longrightarrow> p = 0"
  by (simp add: mm_kmalloc_def kmalloc_def numeral_2_eq_2 kmalloc_step_def)

lemma vma_alloc_in_area_inv:
  assumes inv: "vma_inv lo hi as" and i: "i < length as" and f: "is_free (as ! i)" and hi: "hi < 2 ^ 32"
    and a: "vma_alloc_in_area pd i sz pte mode as k = Inr (r, as', k')"
  shows "vma_inv lo hi as' \<and> new_area_ok sz r as'"
proof -
  obtain r1 as1 k1 where s: "vma_split_area i sz as k = Inr (r1, as1, k1)"
    using a by (auto simp: vma_alloc_in_area_def kres_simps)
  note sp = vma_split_area_inv [OF inv i f hi s]
  show ?thesis
  proof (cases r1)
    case None
    then show ?thesis using a s sp inv by (simp add: vma_alloc_in_area_def new_area_ok_def)
  next
    case (Some j)
    then have j: "j = i" and h: "i < length as1" "tiles lo hi as1" "\<not> is_free (as1 ! i)" "area_size (as1 ! i) = ALIGN sz PAGE_SIZE"
      "coalesced (take i as1)" "coalesced (drop (Suc i) as1)" "closable i as1" using sp by auto
    have destroy: "vma_inv lo hi as2 \<and> new_area_ok sz None as2"
      if "vma_destroy_area pd i (as1[i := b]) k2 = Inr (as2, k3)" "start_vaddr b = start_vaddr (as1 ! i)" "area_size b = area_size (as1 ! i)"
      for b k2 as2 k3
      using vma_destroy_area_inv [OF _ _ _ _ hi that(1), of lo] h tiles_update [OF h(1) that(2,3)] closable_update [OF h(1) that(3)]
      by (simp add: new_area_ok_def)
    obtain ptr k2 where km: "mm_kmalloc (4 * DIV_ROUND_UP sz PAGE_SIZE) (GFP_KERNEL OR GFP_ZERO_bit) k1 = Inr (ptr, k2)"
      using a s Some j by (auto simp: vma_alloc_in_area_def kres_simps Let_def)
    let ?b = "(as1 ! i)\<lparr>pages_ptr := ptr, pages := replicate (unat (DIV_ROUND_UP sz PAGE_SIZE)) 0,
        nr_pages := DIV_ROUND_UP sz PAGE_SIZE, pte_flags := pte\<rparr>"
    show ?thesis
    proof (cases "ptr = 0")
      case True
      then obtain as2 k3 where "vma_destroy_area pd i (as1[i := (as1 ! i)\<lparr>pages_ptr := 0\<rparr>]) k2 = Inr (as2, k3)" "as' = as2" "r = None"
        using a s Some j km by (auto simp: vma_alloc_in_area_def kres_simps Let_def)
      then show ?thesis using destroy by auto
    next
      case False
      then have nz: "ALIGN sz PAGE_SIZE \<noteq> 0" using align_zero_pages kmalloc_zero km by fastforce
      show ?thesis
      proof (cases mode)
        case VMA_LAZY
        then have "as' = as1[i := ?b\<lparr>area_state := VM_AREA_LAZY\<rparr>]" "r = Some i"
          using a s Some j km False by (auto simp: vma_alloc_in_area_def kres_simps Let_def)
        then show ?thesis using store_area_inv [OF h(2,1) _ h(5,6), of "?b\<lparr>area_state := VM_AREA_LAZY\<rparr>" sz] h(4,7) nz by (simp add: is_free_def)
      next
        case VMA_EAGER
        obtain ok b k3 where mp: "vma_map_area pd ?b k2 = Inr (ok, b, k3)"
          "(if ok then Inr (Some i, as1[i := b], k3) else kbind (vma_destroy_area pd i (as1[i := b]) k3) (\<lambda>(as, k). Inr (None, as, k))) = Inr (r, as', k')"
          using a s Some j km False VMA_EAGER by (auto simp: vma_alloc_in_area_def kres_simps Let_def)
        note b = vma_map_area_same [OF mp(1)]
        show ?thesis
        proof (cases ok)
          case True
          then show ?thesis
            using mp(2) store_area_inv [OF h(2,1) _ h(5,6), of b sz] h(3,4,7) b nz by (simp add: is_free_def)
        next
          case False
          then show ?thesis using mp(2) destroy [of b k3] b by (auto simp: kres_simps)
        qed
      qed
    qed
  qed
qed

lemma vma_alloc_inv:
  assumes inv: "vma_inv lo hi as" and hi: "hi < 2 ^ 32" and a: "vma_alloc pd sz pte hint mode as k = Inr (r, as', k')"
  shows "vma_inv lo hi as' \<and> new_area_ok sz r as'"
proof -
  consider "r = None" "as' = as" | i where "i < length as" "is_free (as ! i)" "vma_alloc_in_area pd i sz pte mode as k = Inr (r, as', k')"
  proof -
    obtain fa where fa: "(if hint \<noteq> 0 then vma_find_by_start hint as else Inr None) = Inr fa"
      "(case (if (case fa of None \<Rightarrow> False | Some i \<Rightarrow> area_state (as ! i) = VM_AREA_FREE \<and> sz \<le> area_size (as ! i)) then fa
          else vma_first_fit_alloc sz as) of None \<Rightarrow> Inr (None, as, k)
        | Some i \<Rightarrow> vma_alloc_in_area pd i sz pte mode as k) = Inr (r, as', k')"
      using a by (auto simp: vma_alloc_def kres_simps Let_def)
    have fs: "i < length as" if "fa = Some i" for i
      using fa(1) that find_index_Some by (auto simp: vma_find_by_start_def kres_simps split: if_splits)
    have ff: "i < length as \<and> is_free (as ! i)" if "vma_first_fit_alloc sz as = Some i" for i
      using find_index_Some [OF that [unfolded vma_first_fit_alloc_def]] by (simp add: is_free_def)
    let ?u = "case fa of None \<Rightarrow> False | Some i \<Rightarrow> area_state (as ! i) = VM_AREA_FREE \<and> sz \<le> area_size (as ! i)"
    show ?thesis
    proof (cases "if ?u then fa else vma_first_fit_alloc sz as")
      case None
      then show ?thesis using fa(2) that(1) by simp
    next
      case (Some i)
      have "i < length as \<and> is_free (as ! i)"
        using Some fs ff by (cases ?u) (auto simp: is_free_def)
      then show ?thesis using Some fa(2) by (intro that(2) [of i]) simp_all
    qed
  qed
  then show ?thesis
  proof cases
    case 1
    then show ?thesis using inv by (simp add: new_area_ok_def)
  next
    case (2 i)
    from vma_alloc_in_area_inv [OF inv 2(1,2) hi 2(3)] show ?thesis .
  qed
qed

lemma page_fault_inv:
  assumes inv: "vma_inv lo hi as" and a: "page_fault_handler pd addr as k = Inr (as', k')"
  shows "vma_inv lo hi as'"
proof -
  obtain i ok b k1 where f: "vma_find_by_addr addr as = Some i" "area_state (as ! i) = VM_AREA_LAZY"
    "vma_map_area pd (as ! i) k = Inr (ok, b, k1)" "as' = as[i := b\<lparr>area_state := VM_AREA_ALLOCATED\<rparr>]"
    using a by (auto simp: page_fault_handler_def kres_simps split: option.splits if_splits)
  have i: "i < length as" using find_index_Some [OF f(1) [unfolded vma_find_by_addr_def]] by simp
  have v: "vma_inv lo hi (take i as @ as ! i # drop (Suc i) as)" using inv list_split [OF i] by simp
  note sp = vma_inv_split [OF v]
  have "vma_inv lo hi (as[i := b\<lparr>area_state := VM_AREA_ALLOCATED\<rparr>])"
    using inv i f(2) vma_map_area_same [OF f(3)] sp filled_update [OF i] filled_nth [OF i]
    by (simp add: vma_inv_def tiles_update)
      (simp add: upd_conv_take_nth_drop coalesced_append, cases "drop (Suc i) as", auto simp: coalesced_Cons2 coalesced_single is_free_def)
  then show ?thesis using f(4) by simp
qed

section \<open>Reachable lists of areas\<close>

lemma filled_closable: "i < length as \<Longrightarrow> filled as \<Longrightarrow> closable i as"
  using filled_take_drop filled_nth by (auto simp: closable_def)

lemma vma_inv_parts:
  assumes "vma_inv lo hi as" and "i < length as"
  shows "tiles lo hi as" "coalesced (take i as)" "coalesced (drop (Suc i) as)" "closable i as"
proof -
  have "vma_inv lo hi (take i as @ as ! i # drop (Suc i) as)" using assms list_split by metis
  from vma_inv_split [OF this] show "coalesced (take i as)" "coalesced (drop (Suc i) as)" by simp_all
  show "tiles lo hi as" "closable i as" using assms filled_closable by (simp_all add: vma_inv_def)
qed

lemma vfree_inv:
  assumes inv: "vma_inv lo hi as" and hi: "hi < 2 ^ 32" and f: "vfree ptr as k = Inr (as', k')"
  shows "vma_inv lo hi as'"
proof -
  consider "as' = as" | i k1 a where "i < length as" "vma_merge_area i (as[i := a]) k1 = Inr (as', k')"
    "start_vaddr a = start_vaddr (as ! i)" "area_size a = area_size (as ! i)" "is_free a"
  proof (cases "as' = as")
    case False
    then obtain i k1 where fi: "find_index (\<lambda>area. start_vaddr area = ptr) as = Some i"
      and m: "vma_merge_area i (as[i := (as ! i)\<lparr>pages_ptr := 0, pages := [], nr_pages := 0, area_state := VM_AREA_FREE\<rparr>]) k1 = Inr (as', k')"
      using f by (auto simp: vfree_def vma_find_by_start_def kassert_def kres_simps Let_def split: if_splits option.splits)
    show ?thesis by (rule that(2) [OF _ m]) (use find_index_Some [OF fi] in \<open>simp_all add: is_free_def\<close>)
  qed
  then show ?thesis
  proof cases
    case (2 i k1 a)
    note p = vma_inv_parts [OF inv 2(1)]
    have e: "as[i := a] = take i as @ a # drop (Suc i) as" using 2(1) by (rule upd_conv_take_nth_drop)
    have l: "length (take i as) = i" using 2(1) by simp
    have "tiles lo hi (take i as @ a # drop (Suc i) as)" "closable i (take i as @ a # drop (Suc i) as)"
      using p(1,4) tiles_update [OF 2(1,3,4)] closable_update [OF 2(1,4)] unfolding e by simp_all
    then show ?thesis using vma_merge_area_inv [OF _ hi p(2,3) 2(5)] 2(2) unfolding e l by blast
  qed (use inv in simp)
qed

text \<open>The lists of areas that arise from an initial hole by the operations, each with any arguments: allocation (also by
  \<^verbatim>\<open>vmalloc\<close>, which calls \<^verbatim>\<open>vma_alloc\<close>), release of an area, release of a kernel allocation by its address, page faults.\<close>

inductive vma_reach :: "u32 \<Rightarrow> u32 \<Rightarrow> vm_area list \<Rightarrow> bool" for lo hi where
  init: "vma_init_area lo hi [] k = Inr (as, k') \<Longrightarrow> vma_reach lo hi as"
| alloc: "vma_reach lo hi as \<Longrightarrow> vma_alloc pd sz pte hint mode as k = Inr (r, as', k') \<Longrightarrow> vma_reach lo hi as'"
| destroy: "vma_reach lo hi as \<Longrightarrow> i < length as \<Longrightarrow> vma_destroy_area pd i as k = Inr (as', k') \<Longrightarrow> vma_reach lo hi as'"
| vfree: "vma_reach lo hi as \<Longrightarrow> vfree ptr as k = Inr (as', k') \<Longrightarrow> vma_reach lo hi as'"
| fault: "vma_reach lo hi as \<Longrightarrow> page_fault_handler pd addr as k = Inr (as', k') \<Longrightarrow> vma_reach lo hi as'"

text \<open>C10. Whatever sequence of allocations (eager or lazy, succeeding or failing half-way), releases and page faults: the
  areas of an address space tile its range from the first to the last address in order, without gaps and overlaps,
  no area is empty, not even after a request for 0 bytes, and two neighbouring areas are never both free.\<close>

theorem vma_areas_invariant:
  assumes "vma_reach lo hi as" and "lo < hi"
  shows "tiles (unat lo) (unat hi) as \<and> (\<forall>a \<in> set as. area_size a \<noteq> 0) \<and> (\<forall>i. i + 1 < length as \<longrightarrow> \<not> (is_free (as ! i) \<and> is_free (as ! (i + 1))))"
proof -
  have hi: "unat hi < 2 ^ 32" by simp
  have "vma_inv (unat lo) (unat hi) as"
    using assms(1)
  proof induction
    case (init k as k')
    then have "\<exists>n. as = [\<lparr>vma_node = n, area_state = VM_AREA_FREE, start_vaddr = lo, area_size = hi - lo,
        pte_flags = 0, nr_pages = 0, pages_ptr = 0, pages = []\<rparr>]"
      by (auto simp: vma_init_area_def kres_simps split: if_splits)
    then show ?case
      using assms(2) by (auto simp: vma_inv_def coalesced_single unat_sub word_le_nat_alt word_less_nat_alt)
  next
    case (alloc as pd sz pte hint mode k r as' k')
    then show ?case using vma_alloc_inv [OF _ hi] by blast
  next
    case (destroy as i pd k as' k')
    note p = vma_inv_parts [OF destroy.IH destroy.hyps(2)]
    show ?case by (rule vma_destroy_area_inv [OF p(1) destroy.hyps(2) p(2,3) hi destroy.hyps(3) p(4)])
  next
    case (vfree as ptr k as' k')
    then show ?case using vfree_inv [OF _ hi] by blast
  next
    case (fault as pd addr k as' k')
    then show ?case using page_fault_inv by blast
  qed
  then show ?thesis by (auto simp: vma_inv_def coalesced_def filled_def successively_conv_nth)
qed

lemma example_init: "\<exists>k as k'. vma_init_area 0x1000 0x9000 [] k = Inr (as, k')"
proof -
  have "cache_size_loop 32 16 1 = Some 2"
    by (subst cache_size_loop.simps, simp, subst cache_size_loop.simps, simp)
  then have sz: "size_to_cache_size 32 = Some 2" by (simp add: size_to_cache_size_def NUM_SLAB_CACHES_def)
  have al: "\<exists>s. slab_alloc km 32 LOWMEM_ZONE example_slab_state = Inr (0xC1000020, s)" for km
    by (simp add: slab_alloc_def sz NUM_SLAB_CACHES_def slab_pick_def slab_take_def example_slab_state_def Let_def)
  have "\<exists>s. kmalloc_step km 32 17 example_slab_state = Inr (0xC1000020, s)" for km
  proof -
    obtain s where "slab_alloc km 32 LOWMEM_ZONE example_slab_state = Inr (0xC1000020, s)" using al by blast
    then show ?thesis
      by (simp add: kmalloc_step_def MAX_KMALLOC_SIZE_def FLAG_IS_SET_def GFP_DMA_bit_def try_alloc_with_reclaim_def
          get_allocation_def MAX_SLAB_SIZE_def)
  qed
  then have "\<exists>s. kmalloc 32 17 example_slab_state = Inr (0xC1000020, s)"
    by (simp add: kmalloc_def numeral_2_eq_2)
  then show ?thesis
    by (intro exI [of _ "\<lparr>mm_slab = example_slab_state, mm_vmm = \<lparr>vm_buddy = sl_buddy example_slab_state, mem = (\<lambda>_. 0), cr3 = 0, tlb_log = [], kpage_dir = 0\<rparr>\<rparr>"])
      (auto simp: vma_init_area_def mm_kmalloc_def sizeof_vm_area_def GFP_KERNEL_def GFP_ZERO_bit_def)
qed

theorem vma_areas_invariant_witness:
  "\<exists>as. vma_reach 0x1000 0x9000 as \<and> tiles 0x1000 0x9000 as \<and> (\<forall>a \<in> set as. area_size a \<noteq> 0)"
proof -
  obtain as where "vma_reach 0x1000 0x9000 as" using example_init vma_reach.init by blast
  then show ?thesis using vma_areas_invariant [of "0x1000" "0x9000" as] by auto
qed

end
