(* ===== verification/Usercopy.thy ===== *)
theory Usercopy
  imports Vmm_Spec Libk_Spec
begin

text \<open>
  \<^verbatim>\<open>src/memory/usercopy.c\<close>: the copies between kernel and user memory that the system calls use. The
  bytes are those of the virtual addresses of the current address space; the page directory of the
  current task is an argument.
\<close>

definition access_ok :: "u32 \<Rightarrow> u32 \<Rightarrow> bool" where
  "access_ok ptr sz = (let start = ptr; end = start + sz in \<not> (end < start \<or> KERNEL_VADDR_BASE < end))"

definition usercopy_flags :: "bool \<Rightarrow> u32" where
  "usercopy_flags copy_into_kbuf = (if \<not> copy_into_kbuf then PDE_US_BIT OR PDE_RW_BIT else PDE_US_BIT)"

definition usercopy :: "u32 \<Rightarrow> vmm_state \<Rightarrow> u32 \<Rightarrow> u32 \<Rightarrow> u32 \<Rightarrow> bool \<Rightarrow> bmem \<Rightarrow> (u32 \<times> bmem) kres" where
  "usercopy cur_cr3 s kernel_buf user_buf n copy_into_kbuf m =
     (if \<not> access_ok user_buf n then Inr (n, m)
      else kbind (PHYS_TO_VIRT_LINEAR cur_cr3) (\<lambda>pd_virt.
        let fl = usercopy_flags copy_into_kbuf in
        kbind (vmm_verify_range_flags pd_virt user_buf n fl fl s) (\<lambda>ok.
        if \<not> ok then Inr (- 1, m)
        else if copy_into_kbuf then Inr (0, ft_memcpy kernel_buf user_buf n m)
        else Inr (0, ft_memcpy user_buf kernel_buf n m))))"

definition copy_from_user :: "u32 \<Rightarrow> vmm_state \<Rightarrow> u32 \<Rightarrow> u32 \<Rightarrow> u32 \<Rightarrow> bmem \<Rightarrow> (u32 \<times> bmem) kres" where
  "copy_from_user cur_cr3 s to src n m = usercopy cur_cr3 s to src n True m"

definition copy_to_user :: "u32 \<Rightarrow> vmm_state \<Rightarrow> u32 \<Rightarrow> u32 \<Rightarrow> u32 \<Rightarrow> bmem \<Rightarrow> (u32 \<times> bmem) kres" where
  "copy_to_user cur_cr3 s to src n m = usercopy cur_cr3 s src to n False m"

text \<open>A range of user memory that may be read, or written when the copy goes to it.\<close>

definition user_range :: "u32 \<Rightarrow> vmm_state \<Rightarrow> u32 \<Rightarrow> u32 \<Rightarrow> bool \<Rightarrow> bool" where
  "user_range d s p n into \<longleftrightarrow> unat p + unat n \<le> 0xC0000000 \<and>
     (\<forall>a. within p (unat n) a \<longrightarrow>
        addr_flags (mem s) d (usercopy_flags into OR PDE_PRESENT_BIT) (usercopy_flags into OR PTE_PRESENT_BIT) a)"

lemma access_ok_iff: "access_ok p n \<longleftrightarrow> unat p + unat n \<le> 0xC0000000"
proof (cases "unat p + unat n < 2 ^ 32")
  case True
  then have "unat (p + n) = unat p + unat n" by (simp add: unat_add_nowrap)
  then show ?thesis by (simp add: access_ok_def Let_def word_less_nat_alt KERNEL_VADDR_BASE_def not_less)
next
  case False
  have "unat (p + n) < unat p"
  proof -
    have "unat (p + n) = (unat p + unat n) mod 2 ^ 32" by (simp add: unat_word_ariths)
    also have "\<dots> = unat p + unat n - 2 ^ 32"
    proof (rule mod_nat_eqI)
      have "x + y - 2 ^ 32 < 2 ^ 32" if "x < 2 ^ 32" "y < 2 ^ 32" for x y :: nat using that by simp
      then show "unat p + unat n - 2 ^ 32 < 2 ^ 32" by simp
      show "2 ^ 32 dvd unat p + unat n - (unat p + unat n - 2 ^ 32)" using False by simp
    qed simp
    finally have e: "unat (p + n) = unat p + unat n - 2 ^ 32" .
    have "x + y - 2 ^ 32 < x" if "y < 2 ^ 32" "2 ^ 32 \<le> x + y" for x y :: nat using that by simp
    from this [of "unat n" "unat p"] show ?thesis using False e by simp
  qed
  then show ?thesis using False by (simp add: access_ok_def Let_def word_less_nat_alt)
qed

lemma usercopy_spec:
  fixes ub kb :: u32
  assumes wf: "pd_wf d s" and k: "0xC0000000 \<le> unat kb" "unat kb + unat n \<le> 2 ^ 32"
  shows "\<exists>r m'. usercopy d s kb ub n into m = Inr (r, m') \<and> (r = 0 \<longleftrightarrow> n = 0 \<or> user_range d s ub n into) \<and>
    m' = (if r = 0 then (\<lambda>a. if within (if into then kb else ub) (unat n) a then m ((if into then ub else kb) + (a - (if into then kb else ub))) else m a) else m)"
proof (cases "access_ok ub n")
  case False
  then have "\<not> user_range d s ub n into" by (simp add: access_ok_iff user_range_def)
  then show ?thesis using False by (auto simp: usercopy_def within_def fun_eq_iff)
next
  case True
  then have b: "unat ub + unat n \<le> 0xC0000000" by (simp add: access_ok_iff)
  note td = pd_wfD(1) [OF wf]
  let ?f = "usercopy_flags into"
  have v: "vmm_verify_range_flags (d + KERNEL_VADDR_BASE) ub n ?f ?f s = Inr (user_range d s ub n into)"
    using vmm_verify_range_flags_spec [OF wf, of ub n ?f ?f] b
    by (simp add: user_range_def within_def PDE_PRESENT_BIT_def PTE_PRESENT_BIT_def)
  have cp: "(if into then ft_memcpy kb ub n m else ft_memcpy ub kb n m) =
      (\<lambda>a. if within (if into then kb else ub) (unat n) a then m ((if into then ub else kb) + (a - (if into then kb else ub))) else m a)"
  proof (rule ext)
    fix a
    show "(if into then ft_memcpy kb ub n m else ft_memcpy ub kb n m) a =
        (if within (if into then kb else ub) (unat n) a then m ((if into then ub else kb) + (a - (if into then kb else ub))) else m a)"
      using memcpy_loop_spec [of ub "unat n" kb m a] memcpy_loop_spec [of kb "unat n" ub m a] b k
      by (simp add: ft_memcpy_def)
  qed
  show ?thesis
  proof (cases "user_range d s ub n into")
    case True
    then have "usercopy d s kb ub n into m = Inr (0, if into then ft_memcpy kb ub n m else ft_memcpy ub kb n m)"
      using v \<open>access_ok ub n\<close> tbl_virt(1) [OF td] by (simp add: usercopy_def Let_def)
    then show ?thesis using True cp by simp
  next
    case False
    moreover have "n \<noteq> 0" using False b by (auto simp: user_range_def within_def)
    moreover have "usercopy d s kb ub n into m = Inr (- 1, m)"
      using v \<open>access_ok ub n\<close> tbl_virt(1) [OF td] False by (simp add: usercopy_def Let_def)
    ultimately show ?thesis by simp
  qed
qed

text \<open>C9. Copying out to user memory is all or nothing and cannot be turned against the kernel: it succeeds exactly
  when the whole range lies below the kernel and in pages that are present, writable and accessible to
  the user (or is empty), and then exactly that range receives the bytes; in every other case not a single byte is written.\<close>

theorem copy_to_user_correct:
  assumes "pd_wf d s" and "0xC0000000 \<le> unat src" and "unat src + unat n \<le> 2 ^ 32"
  shows "\<exists>r m'. copy_to_user d s to src n m = Inr (r, m') \<and> (r = 0 \<longleftrightarrow> n = 0 \<or> user_range d s to n False) \<and>
    m' = (if r = 0 then (\<lambda>a. if within to (unat n) a then m (src + (a - to)) else m a) else m)"
  using usercopy_spec [OF assms, of to False m] unfolding copy_to_user_def by (simp only: if_False)

theorem copy_to_user_correct_witness:
  "\<exists>s r. copy_to_user 0x1000 s 0x8048000 0xC0001000 16 (\<lambda>_. 0) = Inr (r, \<lambda>_. 0) \<and> r \<noteq> 0"
proof -
  obtain s where s: "space_ok 0x1000 s" "mem s = (\<lambda>_. 0)" using example_space by blast
  have wf: "pd_wf 0x1000 s" using s(1) by (simp add: space_ok_def)
  have "within 0x8048000 (unat (16 :: u32)) 0x8048000" by (simp add: within_def)
  moreover have "\<not> addr_flags (mem s) 0x1000 (usercopy_flags False OR PDE_PRESENT_BIT) g a" for g a
    using s(2) by (simp add: addr_flags_def has_flags_def ent_def PDE_PRESENT_BIT_def usercopy_flags_def PDE_US_BIT_def PDE_RW_BIT_def)
  ultimately have "\<not> user_range 0x1000 s 0x8048000 16 False" by (auto simp: user_range_def)
  then show ?thesis
    using copy_to_user_correct [OF wf, of "0xC0001000" 16 "0x8048000" "\<lambda>_. 0"] by (intro exI [of _ s]) auto
qed

text \<open>C20. Copying in from user memory reads only memory the user may read: it succeeds exactly when the whole range lies
  below the kernel in present user pages (or is empty), and then the kernel buffer holds the bytes;
  otherwise the kernel buffer is untouched.\<close>

theorem copy_from_user_correct:
  assumes "pd_wf d s" and "0xC0000000 \<le> unat to" and "unat to + unat n \<le> 2 ^ 32"
  shows "\<exists>r m'. copy_from_user d s to src n m = Inr (r, m') \<and> (r = 0 \<longleftrightarrow> n = 0 \<or> user_range d s src n True) \<and>
    m' = (if r = 0 then (\<lambda>a. if within to (unat n) a then m (src + (a - to)) else m a) else m)"
  using usercopy_spec [OF assms, of src True m] unfolding copy_from_user_def by (simp only: if_True)

theorem copy_from_user_correct_witness:
  "\<exists>s r. copy_from_user 0x1000 s 0xC0001000 0xC0002000 16 (\<lambda>_. 0) = Inr (r, \<lambda>_. 0) \<and> r \<noteq> 0"
proof -
  obtain s where s: "space_ok 0x1000 s" using example_space by blast
  have wf: "pd_wf 0x1000 s" using s(1) by (simp add: space_ok_def)
  have "\<not> user_range 0x1000 s 0xC0002000 16 True" by (simp add: user_range_def)
  then show ?thesis
    using copy_from_user_correct [OF wf, of "0xC0001000" 16 "0xC0002000" "\<lambda>_. 0"] by (intro exI [of _ s]) auto
qed

end
