(* ===== verification/Bitmap.thy ===== *)
theory Bitmap
  imports KPrelude
begin

text \<open>
  \<^verbatim>\<open>lib/data_structs/bitmap\<close>: a bitmap over a byte array. A \<^verbatim>\<open>t_bitmap *\<close> that may be \<^verbatim>\<open>NULL\<close> is an
  option, the array pointer too; an access past the array is the result \<open>Inl OutOfBounds\<close>.
  The abstraction \<open>bits b\<close> is the set of indices whose bit is set. \<^verbatim>\<open>ssize_t\<close> results are words
  read as two's complement, so that \<^verbatim>\<open>-1\<close> is the word \<open>-1\<close>.
\<close>

section \<open>Data and operations\<close>

record t_bitmap =
  nb_bits :: u32
  data :: "u8 list option"

definition BITS_TO_BYTES :: "u32 \<Rightarrow> u32" where
  "BITS_TO_BYTES nb = DIV_ROUND_UP nb 8"

definition byte_at :: "u8 list \<Rightarrow> u32 \<Rightarrow> u8 kres" where
  "byte_at d i = (if unat i < length d then Inr (d ! unat i) else Inl OutOfBounds)"

definition byte_put :: "u8 list \<Rightarrow> u32 \<Rightarrow> u8 \<Rightarrow> u8 list kres" where
  "byte_put d i v = (if unat i < length d then Inr (d[unat i := v]) else Inl OutOfBounds)"

definition bitmap_check :: "t_bitmap option \<Rightarrow> u32 \<Rightarrow> bool kres" where
  "bitmap_check mp index =
     (case mp of None \<Rightarrow> Inr False | Some m \<Rightarrow>
      (case data m of None \<Rightarrow> Inr False | Some d \<Rightarrow>
       if nb_bits m \<le> index then Inr False
       else let byte_idx = index div 8; bit_idx = index mod 8 in
         kbind (byte_at d byte_idx) (\<lambda>b.
         Inr (drop_bit (unat bit_idx) b AND 1 \<noteq> 0))))"

definition bitmap_set :: "t_bitmap option \<Rightarrow> u32 \<Rightarrow> t_bitmap option kres" where
  "bitmap_set mp index =
     (case mp of None \<Rightarrow> Inr None | Some m \<Rightarrow>
      (case data m of None \<Rightarrow> Inr (Some m) | Some d \<Rightarrow>
       if nb_bits m \<le> index then Inr (Some m)
       else let byte_idx = index div 8; mask = push_bit (unat (index mod 8)) 1 in
         kbind (byte_at d byte_idx) (\<lambda>b.
         kbind (byte_put d byte_idx (b OR mask)) (\<lambda>d'.
         Inr (Some (m\<lparr>data := Some d'\<rparr>))))))"

definition bitmap_unset :: "t_bitmap option \<Rightarrow> u32 \<Rightarrow> t_bitmap option kres" where
  "bitmap_unset mp index =
     (case mp of None \<Rightarrow> Inr None | Some m \<Rightarrow>
      (case data m of None \<Rightarrow> Inr (Some m) | Some d \<Rightarrow>
       if nb_bits m \<le> index then Inr (Some m)
       else let byte_idx = index div 8; mask = push_bit (unat (index mod 8)) 1 in
         kbind (byte_at d byte_idx) (\<lambda>b.
         kbind (byte_put d byte_idx (b AND NOT mask)) (\<lambda>d'.
         Inr (Some (m\<lparr>data := Some d'\<rparr>))))))"

text \<open>\<^verbatim>\<open>ft_bzero\<close> of the first \<open>n\<close> bytes of an array.\<close>

definition bzero_bytes :: "u8 list \<Rightarrow> nat \<Rightarrow> u8 list kres" where
  "bzero_bytes d n = (if n \<le> length d then Inr (replicate n 0 @ drop n d) else Inl OutOfBounds)"

definition bitmap_clear :: "t_bitmap option \<Rightarrow> t_bitmap option kres" where
  "bitmap_clear mp =
     (case mp of None \<Rightarrow> Inr None | Some m \<Rightarrow>
      (case data m of None \<Rightarrow> Inr (Some m) | Some d \<Rightarrow>
         kbind (bzero_bytes d (unat (BITS_TO_BYTES (nb_bits m)))) (\<lambda>d'.
         Inr (Some (m\<lparr>data := Some d'\<rparr>)))))"

definition BIT_IS_FULL :: u8 where
  "BIT_IS_FULL = 255"

text \<open>The inner loop over the bits of one byte: the first clear bit from \<open>j\<close> on.\<close>

function find_bit :: "u8 \<Rightarrow> nat \<Rightarrow> nat option" where
  "find_bit b j =
     (if j < 8 then if drop_bit j b AND 1 \<noteq> 0 then find_bit b (j + 1) else Some j else None)"
  by pat_completeness auto
termination
  by (relation "measure (\<lambda>(b, j). 8 - j)") auto

text \<open>The outer loop over the bytes.\<close>

function find_loop :: "u32 \<Rightarrow> u8 list \<Rightarrow> nat \<Rightarrow> nat \<Rightarrow> nat \<Rightarrow> nat \<Rightarrow> u32 kres" where
  "find_loop nb d byte_start bit_offset mx i =
     (if i < mx then
        if length d \<le> i then Inl OutOfBounds
        else if d ! i = BIT_IS_FULL then find_loop nb d byte_start bit_offset mx (i + 1)
        else (case find_bit (d ! i) (if i = byte_start then bit_offset else 0) of
                Some j \<Rightarrow>
                  let index = of_nat i * 8 + of_nat j in
                  if nb \<le> index then Inr (-1) else Inr index
              | None \<Rightarrow> find_loop nb d byte_start bit_offset mx (i + 1))
      else Inr (-1))"
  by pat_completeness auto
termination
  by (relation "measure (\<lambda>(nb, d, bs, bo, mx, i). mx - i)") auto

definition bitmap_find_next_zero_from :: "u32 \<Rightarrow> u8 list option \<Rightarrow> u32 \<Rightarrow> u32 kres" where
  "bitmap_find_next_zero_from nb dat bit_start =
     (case dat of None \<Rightarrow> Inr (-1) | Some d \<Rightarrow>
      if nb \<le> bit_start then Inr (-1)
      else find_loop nb d (unat (bit_start div 8)) (unat (bit_start mod 8))
             (unat (BITS_TO_BYTES nb)) (unat (bit_start div 8)))"

definition bitmap_find_next_zero :: "u32 \<Rightarrow> u8 list option \<Rightarrow> u32 kres" where
  "bitmap_find_next_zero nb dat = bitmap_find_next_zero_from nb dat 0"

declare find_bit.simps [simp del] find_loop.simps [simp del]

section \<open>Well-formed bitmaps and the set they stand for\<close>

definition bm_wf :: "t_bitmap \<Rightarrow> bool" where
  "bm_wf m \<longleftrightarrow> unat (nb_bits m) < 2 ^ 31 \<and>
     (case data m of None \<Rightarrow> False | Some d \<Rightarrow> length d = (unat (nb_bits m) + 7) div 8)"

definition bit_of :: "u8 list \<Rightarrow> nat \<Rightarrow> bool" where
  "bit_of d i \<longleftrightarrow> bit (d ! (i div 8)) (i mod 8)"

definition bits :: "t_bitmap \<Rightarrow> nat set" where
  "bits m = {i. i < unat (nb_bits m) \<and> bit_of (the (data m)) i}"

lemma bm_wfE:
  assumes "bm_wf m"
  obtains d where "data m = Some d" "length d = (unat (nb_bits m) + 7) div 8"
    "unat (nb_bits m) < 2 ^ 31"
  using assms by (auto simp: bm_wf_def split: option.splits)

lemma BITS_TO_BYTES_unat:
  assumes "unat nb < 2 ^ 31"
  shows "unat (BITS_TO_BYTES nb) = (unat nb + 7) div 8"
proof -
  have "unat (nb + 8 - 1) = unat (nb + 7)"
    by (rule arg_cong [where f = unat]) simp
  also have "unat (nb + 7) = unat nb + 7"
    using assms by (subst unat_add_nowrap) auto
  finally have "unat (nb + 8 - 1) = unat nb + 7" .
  then show ?thesis
    by (simp add: BITS_TO_BYTES_def DIV_ROUND_UP_def unat_div)
qed

lemma unat_div8: "unat (x div 8 :: u32) = unat x div 8"
  by (simp add: unat_div)

lemma unat_mod8: "unat (x mod 8 :: u32) = unat x mod 8"
  by (simp add: unat_mod)

lemma drop_bit_and_1: "drop_bit j (b :: u8) AND 1 \<noteq> 0 \<longleftrightarrow> bit b j"
  by (simp add: and_one_eq bit_iff_odd_drop_bit odd_iff_mod_2_eq_one)

lemma bit_mask8: "j < 8 \<Longrightarrow> bit (2 ^ j :: u8) k \<longleftrightarrow> k = j"
  by (auto simp: bit_exp_iff)

lemma index_in_range:
  assumes "bm_wf m" and "data m = Some d" and "index < nb_bits m"
  shows "unat (index div 8) < length d"
proof -
  have "unat index < unat (nb_bits m)"
    using assms(3) by (simp add: word_less_nat_alt)
  then show ?thesis
    using assms(1,2) by (auto simp: bm_wf_def unat_div8)
qed

lemma bitmap_check_bits:
  "bm_wf m \<Longrightarrow> bitmap_check (Some m) index = Inr (unat index \<in> bits m)"
  by (auto simp: bitmap_check_def bits_def bit_of_def index_in_range byte_at_def Let_def
      drop_bit_and_1 unat_div8 unat_mod8 word_le_nat_alt not_le word_less_nat_alt
      elim!: bm_wfE split: option.splits)

lemma bit_of_update:
  assumes "i div 8 < length d"
  shows "bit_of (d[i div 8 := d ! (i div 8) OR 2 ^ (i mod 8)]) k \<longleftrightarrow> bit_of d k \<or> k = i"
    and "bit_of (d[i div 8 := d ! (i div 8) AND NOT (2 ^ (i mod 8))]) k
           \<longleftrightarrow> bit_of d k \<and> k \<noteq> i"
proof -
  have "k div 8 = i div 8 \<and> k mod 8 = i mod 8 \<longleftrightarrow> k = i"
    by (metis div_mult_mod_eq)
  then show "bit_of (d[i div 8 := d ! (i div 8) OR 2 ^ (i mod 8)]) k
      \<longleftrightarrow> bit_of d k \<or> k = i"
    and "bit_of (d[i div 8 := d ! (i div 8) AND NOT (2 ^ (i mod 8))]) k
      \<longleftrightarrow> bit_of d k \<and> k \<noteq> i"
    using assms
    by (auto simp: bit_of_def nth_list_update bit_or_iff bit_and_iff bit_not_iff bit_mask8)
qed

lemma bitmap_set_bits:
  assumes "bm_wf m" and "index < nb_bits m"
  shows "\<exists>m'. bitmap_set (Some m) index = Inr (Some m') \<and> bm_wf m' \<and> nb_bits m' = nb_bits m
           \<and> bits m' = insert (unat index) (bits m)"
proof -
  obtain d where d: "data m = Some d" using assms(1) by (rule bm_wfE)
  have i: "unat index div 8 < length d"
    using index_in_range [OF assms(1) d assms(2)] by (simp add: unat_div8)
  show ?thesis
    using assms d i
    by (auto simp: bitmap_set_def byte_at_def byte_put_def Let_def unat_div8 unat_mod8
        bits_def bit_of_update bm_wf_def word_less_nat_alt word_le_nat_alt)
qed

lemma bitmap_unset_bits:
  assumes "bm_wf m" and "index < nb_bits m"
  shows "\<exists>m'. bitmap_unset (Some m) index = Inr (Some m') \<and> bm_wf m' \<and> nb_bits m' = nb_bits m
           \<and> bits m' = bits m - {unat index}"
proof -
  obtain d where d: "data m = Some d" using assms(1) by (rule bm_wfE)
  have i: "unat index div 8 < length d"
    using index_in_range [OF assms(1) d assms(2)] by (simp add: unat_div8)
  show ?thesis
    using assms d i
    by (auto simp: bitmap_unset_def byte_at_def byte_put_def Let_def unat_div8 unat_mod8
        bits_def bit_of_update bm_wf_def word_less_nat_alt word_le_nat_alt)
qed

lemma bitmap_out_of_range:
  "nb_bits m \<le> index \<Longrightarrow> bitmap_set (Some m) index = Inr (Some m)"
  "nb_bits m \<le> index \<Longrightarrow> bitmap_unset (Some m) index = Inr (Some m)"
  by (auto simp: bitmap_set_def bitmap_unset_def split: option.splits)

lemma bitmap_clear_bits:
  assumes "bm_wf m"
  shows "\<exists>m'. bitmap_clear (Some m) = Inr (Some m') \<and> bm_wf m' \<and> nb_bits m' = nb_bits m
           \<and> bits m' = {}"
proof -
  obtain d where d: "data m = Some d" "length d = (unat (nb_bits m) + 7) div 8"
    "unat (nb_bits m) < 2 ^ 31"
    using assms by (rule bm_wfE)
  have "bit_of (replicate (length d) 0) i = False" if "i < unat (nb_bits m)" for i
    using that d(2) by (auto simp: bit_of_def)
  then show ?thesis
    using d by (auto simp: bitmap_clear_def bzero_bytes_def BITS_TO_BYTES_unat bm_wf_def bits_def)
qed

section \<open>The search for a clear bit\<close>

lemma find_bit_Some:
  "find_bit b j = Some k \<Longrightarrow> j \<le> k \<and> k < 8 \<and> \<not> bit b k \<and> (\<forall>l. j \<le> l \<longrightarrow> l < k \<longrightarrow> bit b l)"
proof (induction b j rule: find_bit.induct)
  case (1 b j)
  show ?case
  proof (cases "j < 8 \<and> bit b j")
    case True
    then have "find_bit b (j + 1) = Some k"
      using "1.prems" by (simp add: find_bit.simps [of b j] drop_bit_and_1)
    with "1.IH" True have *: "j + 1 \<le> k" "k < 8" "\<not> bit b k"
      "\<forall>l. j + 1 \<le> l \<longrightarrow> l < k \<longrightarrow> bit b l"
      by (auto simp: drop_bit_and_1)
    then show ?thesis
      using True by (metis Suc_eq_plus1 Suc_leD not_less_eq_eq le_antisym)
  next
    case False
    then show ?thesis
      using "1.prems" by (auto simp: find_bit.simps [of b j] drop_bit_and_1 split: if_splits)
  qed
qed

lemma find_bit_None: "find_bit b j = None \<Longrightarrow> (\<forall>l. j \<le> l \<longrightarrow> l < 8 \<longrightarrow> bit b l)"
proof (induction b j rule: find_bit.induct)
  case (1 b j)
  show ?case
  proof (cases "j < 8 \<and> bit b j")
    case True
    then have "find_bit b (j + 1) = None"
      using "1.prems" by (simp add: find_bit.simps [of b j] drop_bit_and_1)
    with "1.IH" True show ?thesis
      by (metis Suc_eq_plus1 drop_bit_and_1 not_less_eq_eq le_antisym)
  next
    case False
    then show ?thesis
      using "1.prems" by (auto simp: find_bit.simps [of b j] drop_bit_and_1 split: if_splits)
  qed
qed

text \<open>What the search promises: the least clear bit from \<open>start\<close> on, or \<open>-1\<close> if there is none.\<close>

definition first_clear :: "u8 list \<Rightarrow> nat \<Rightarrow> nat \<Rightarrow> u32 \<Rightarrow> bool" where
  "first_clear d nb start r \<longleftrightarrow>
     (r = -1 \<and> (\<forall>k. start \<le> k \<longrightarrow> k < nb \<longrightarrow> bit_of d k)) \<or>
     (start \<le> unat r \<and> unat r < nb \<and> \<not> bit_of d (unat r) \<and>
      (\<forall>k. start \<le> k \<longrightarrow> k < unat r \<longrightarrow> bit_of d k))"

lemma full_byte: "d ! i = BIT_IS_FULL \<Longrightarrow> k div 8 = i \<Longrightarrow> bit_of d k"
proof -
  assume a: "d ! i = BIT_IS_FULL" "k div 8 = i"
  have "bit (mask 8 :: u8) (k mod 8)" by (simp add: bit_mask_iff)
  moreover have "(mask 8 :: u8) = 255" by (simp add: mask_eq_exp_minus_1)
  ultimately show "bit_of d k" using a by (simp add: bit_of_def BIT_IS_FULL_def)
qed

lemma byte_pos: "8 * i \<le> k \<Longrightarrow> k < 8 * i + 8 \<Longrightarrow> k div 8 = i \<and> k mod 8 = (k :: nat) - 8 * i"
  by (auto simp: minus_div_mult_eq_mod [symmetric] div_nat_eqI)

lemma find_loop_first_clear:
  assumes "unat nb < 2 ^ 31" and "length d = (unat nb + 7) div 8"
    and "byte_start \<le> i" and "\<forall>k. start \<le> k \<longrightarrow> k < 8 * i \<longrightarrow> bit_of d k"
    and "start = 8 * byte_start + bit_offset" and "bit_offset < 8"
  shows "\<exists>r. find_loop nb d byte_start bit_offset (length d) i = Inr r
           \<and> first_clear d (unat nb) start r"
  using assms
proof (induction nb d byte_start bit_offset "length d" i rule: find_loop.induct)
  case (1 nb d bs bo i)
  let ?off = "if i = bs then bo else 0"
  have whole: "\<forall>k. start \<le> k \<longrightarrow> k < 8 * (i + 1) \<longrightarrow> bit_of d k"
    if "\<forall>l. ?off \<le> l \<longrightarrow> l < 8 \<longrightarrow> bit (d ! i) l"
  proof (intro allI impI)
    fix k assume k: "start \<le> k" "k < 8 * (i + 1)"
    show "bit_of d k"
    proof (cases "k < 8 * i")
      case False
      then have "k div 8 = i" "k mod 8 = k - 8 * i" using k byte_pos [of i k] by auto
      moreover have "?off \<le> k - 8 * i" "k - 8 * i < 8"
        using False k "1.prems"(5) by (auto split: if_splits)
      ultimately show ?thesis using that by (simp add: bit_of_def)
    qed (use "1.prems"(4) k in blast)
  qed
  show ?case
  proof (cases "i < length d")
    case False
    then have "8 * i \<ge> unat nb" using "1.prems"(2) by linarith
    then show ?thesis
      using False "1.prems"(4) by (auto simp: find_loop.simps [of nb d bs bo "length d" i] first_clear_def)
  next
    case True
    consider (full) "d ! i = BIT_IS_FULL"
      | (none) "d ! i \<noteq> BIT_IS_FULL" "find_bit (d ! i) ?off = None"
      | (some) j where "d ! i \<noteq> BIT_IS_FULL" "find_bit (d ! i) ?off = Some j"
      by fastforce
    then show ?thesis
    proof cases
      case full
      then have "\<forall>l. ?off \<le> l \<longrightarrow> l < 8 \<longrightarrow> bit (d ! i) l"
        using full_byte [of d i "8 * i + l" for l] by (auto simp: bit_of_def)
      with whole have w: "\<forall>k. start \<le> k \<longrightarrow> k < 8 * (i + 1) \<longrightarrow> bit_of d k" by blast
      have "find_loop nb d bs bo (length d) i = find_loop nb d bs bo (length d) (i + 1)"
        using full True by (simp add: find_loop.simps [of nb d bs bo "length d" i])
      then show ?thesis
        using "1.hyps"(1) [OF True _ full] True "1.prems" w by simp
    next
      case none
      have w: "\<forall>k. start \<le> k \<longrightarrow> k < 8 * (i + 1) \<longrightarrow> bit_of d k"
        using whole find_bit_None [OF none(2)] by blast
      have "find_loop nb d bs bo (length d) i = find_loop nb d bs bo (length d) (i + 1)"
        using none True by (simp add: find_loop.simps [of nb d bs bo "length d" i])
      then show ?thesis
        using "1.hyps"(2) [OF True _ none] True "1.prems" w by simp
    next
      case some
      have j: "?off \<le> j" "j < 8" "\<not> bit (d ! i) j" "\<forall>l. ?off \<le> l \<longrightarrow> l < j \<longrightarrow> bit (d ! i) l"
        using find_bit_Some [OF some(2)] by auto
      let ?ix = "of_nat i * 8 + of_nat j :: u32"
      have small: "i * 8 + j < 2 ^ 32"
        using True "1.prems"(1,2) j(2) by auto
      have "?ix = of_nat (i * 8 + j)" by simp
      then have ix: "unat ?ix = 8 * i + j"
        using small unat_of_nat32 [of "i * 8 + j"] by (simp del: of_nat_add of_nat_mult)
      have before: "bit_of d k" if "start \<le> k" "k < 8 * i + j" for k
      proof (cases "k < 8 * i")
        case False
        then have "k div 8 = i" "k mod 8 = k - 8 * i" using that j byte_pos [of i k] by auto
        moreover have "?off \<le> k - 8 * i" "k - 8 * i < j"
          using False that "1.prems"(5) by (auto split: if_splits)
        ultimately show ?thesis using j by (simp add: bit_of_def)
      qed (use "1.prems"(4) that in blast)
      have clear: "\<not> bit_of d (8 * i + j)" using j by (simp add: bit_of_def)
      have start: "start \<le> 8 * i + j"
        using j "1.prems"(3,5,6) by (auto split: if_splits)
      show ?thesis
        using some True ix before clear start
        by (auto simp: find_loop.simps [of nb d bs bo "length d" i] Let_def first_clear_def
            word_le_nat_alt simp del: of_nat_mult of_nat_add)
    qed
  qed
qed

lemma find_next_zero_from_first_clear:
  assumes "bm_wf m" and "data m = Some d"
  shows "\<exists>r. bitmap_find_next_zero_from (nb_bits m) (data m) start = Inr r
           \<and> first_clear d (unat (nb_bits m)) (unat start) r"
proof (cases "nb_bits m \<le> start")
  case True
  then show ?thesis
    using assms(2) by (auto simp: bitmap_find_next_zero_from_def first_clear_def word_le_nat_alt)
next
  case False
  have l: "length d = (unat (nb_bits m) + 7) div 8" "unat (nb_bits m) < 2 ^ 31"
    using assms by (auto elim: bm_wfE)
  have "\<exists>r. find_loop (nb_bits m) d (unat start div 8) (unat start mod 8) (length d) (unat start div 8)
      = Inr r \<and> first_clear d (unat (nb_bits m)) (unat start) r"
    using l by (intro find_loop_first_clear) auto
  then show ?thesis
    using False assms(2) l
    by (simp add: bitmap_find_next_zero_from_def BITS_TO_BYTES_unat unat_div8 unat_mod8)
qed

lemma first_clear_bits:
  assumes "data m = Some d"
  shows "first_clear d (unat (nb_bits m)) s r \<longleftrightarrow>
     (r = -1 \<and> {k. s \<le> k \<and> k < unat (nb_bits m)} \<subseteq> bits m) \<or>
     (s \<le> unat r \<and> unat r < unat (nb_bits m) \<and> unat r \<notin> bits m \<and>
      {k. s \<le> k \<and> k < unat r} \<subseteq> bits m)"
  using assms by (auto simp: first_clear_def bits_def)

section \<open>The interface: a bounded set of indices\<close>

text \<open>
  What \<^verbatim>\<open>id_manager.c\<close> needs from the bitmap: membership, insertion, deletion and the search for
  a member of the complement, at or after a position.
\<close>

locale bit_set =
  fixes wf :: "'b \<Rightarrow> bool"
    and cap :: "'b \<Rightarrow> nat"
    and elems :: "'b \<Rightarrow> nat set"
    and put :: "'b option \<Rightarrow> u32 \<Rightarrow> 'b option kres"
    and del :: "'b option \<Rightarrow> u32 \<Rightarrow> 'b option kres"
    and test :: "'b option \<Rightarrow> u32 \<Rightarrow> bool kres"
    and next_clear :: "'b \<Rightarrow> u32 \<Rightarrow> u32 kres"
  assumes cap_small: "wf b \<Longrightarrow> cap b < 2 ^ 31"
    and elems_cap: "wf b \<Longrightarrow> elems b \<subseteq> {..<cap b}"
    and put_ok: "wf b \<Longrightarrow> unat i < cap b \<Longrightarrow>
          \<exists>b'. put (Some b) i = Inr (Some b') \<and> wf b' \<and> cap b' = cap b \<and> elems b' = insert (unat i) (elems b)"
    and del_ok: "wf b \<Longrightarrow> unat i < cap b \<Longrightarrow>
          \<exists>b'. del (Some b) i = Inr (Some b') \<and> wf b' \<and> cap b' = cap b \<and> elems b' = elems b - {unat i}"
    and test_ok: "wf b \<Longrightarrow> test (Some b) i = Inr (unat i \<in> elems b)"
    and next_clear_ok: "wf b \<Longrightarrow> \<exists>r. next_clear b i = Inr r \<and>
          ((r = -1 \<and> {k. unat i \<le> k \<and> k < cap b} \<subseteq> elems b) \<or>
           (unat i \<le> unat r \<and> unat r < cap b \<and> unat r \<notin> elems b \<and>
            {k. unat i \<le> k \<and> k < unat r} \<subseteq> elems b))"
begin

text \<open>
  Searching from a position and, if that fails, from the start again finds a free index exactly
  when there is one.
\<close>

lemma next_clear_wraps:
  assumes "wf b"
  shows "\<exists>r. kbind (next_clear b i) (\<lambda>r. if r = -1 then next_clear b 0 else Inr r) = Inr r \<and>
           (r = -1 \<and> elems b = {..<cap b} \<or>
            r \<noteq> -1 \<and> unat r < cap b \<and> unat r \<notin> elems b)"
proof -
  have neq: "r \<noteq> -1" if "unat r < cap b" for r :: u32
    using small_not_neg1 [OF that cap_small [OF assms]] .
  obtain r where r: "next_clear b i = Inr r"
    "(r = -1 \<and> {k. unat i \<le> k \<and> k < cap b} \<subseteq> elems b) \<or>
     (unat r < cap b \<and> unat r \<notin> elems b)"
    using next_clear_ok [OF assms, of i] by blast
  obtain q where q: "next_clear b 0 = Inr q"
    "(q = -1 \<and> {k. k < cap b} \<subseteq> elems b) \<or> (unat q < cap b \<and> unat q \<notin> elems b)"
    using next_clear_ok [OF assms, of 0] by auto
  show ?thesis
  proof (cases "r = -1")
    case True
    then show ?thesis using r(1) q elems_cap [OF assms] neq by auto
  next
    case False
    then show ?thesis using r neq by auto
  qed
qed

text \<open>Inserting an absent index and deleting it again gives the old set back.\<close>

lemma put_del:
  assumes "wf b" and "unat i < cap b" and "unat i \<notin> elems b"
  shows "\<exists>b' b''. put (Some b) i = Inr (Some b') \<and> del (Some b') i = Inr (Some b'') \<and>
           elems b'' = elems b \<and> cap b'' = cap b \<and> wf b''"
proof -
  obtain b' where b': "put (Some b) i = Inr (Some b')" "wf b'" "cap b' = cap b"
    "elems b' = insert (unat i) (elems b)"
    using put_ok [OF assms(1,2)] by blast
  then obtain b'' where "del (Some b') i = Inr (Some b'')" "wf b''" "cap b'' = cap b'"
    "elems b'' = elems b' - {unat i}"
    using del_ok [of b' i] assms(2) by auto
  then show ?thesis using b' assms(3) by auto
qed

end

interpretation bm: bit_set bm_wf "\<lambda>m. unat (nb_bits m)" bits bitmap_set bitmap_unset bitmap_check
  "\<lambda>m. bitmap_find_next_zero_from (nb_bits m) (data m)"
proof
  fix m :: t_bitmap and i :: u32
  assume wf: "bm_wf m"
  obtain d where d: "data m = Some d" using wf by (rule bm_wfE)
  show "unat (nb_bits m) < 2 ^ 31" using wf by (rule bm_wfE)
  show "bits m \<subseteq> {..<unat (nb_bits m)}" by (auto simp: bits_def)
  show "bitmap_check (Some m) i = Inr (unat i \<in> bits m)" by (rule bitmap_check_bits [OF wf])
  show "\<exists>m'. bitmap_set (Some m) i = Inr (Some m') \<and> bm_wf m' \<and> unat (nb_bits m') = unat (nb_bits m)
      \<and> bits m' = insert (unat i) (bits m)" if "unat i < unat (nb_bits m)"
    using bitmap_set_bits [OF wf, of i] that by (auto simp: word_less_nat_alt)
  show "\<exists>m'. bitmap_unset (Some m) i = Inr (Some m') \<and> bm_wf m' \<and> unat (nb_bits m') = unat (nb_bits m)
      \<and> bits m' = bits m - {unat i}" if "unat i < unat (nb_bits m)"
    using bitmap_unset_bits [OF wf, of i] that by (auto simp: word_less_nat_alt)
  show "\<exists>r. bitmap_find_next_zero_from (nb_bits m) (data m) i = Inr r \<and>
      (r = -1 \<and> {k. unat i \<le> k \<and> k < unat (nb_bits m)} \<subseteq> bits m \<or>
       unat i \<le> unat r \<and> unat r < unat (nb_bits m) \<and> unat r \<notin> bits m \<and>
       {k. unat i \<le> k \<and> k < unat r} \<subseteq> bits m)"
    using find_next_zero_from_first_clear [OF wf d, of i] first_clear_bits [OF d] by auto
qed

section \<open>Properties\<close>

text \<open>C25. On a bitmap whose array matches its bit count, the search for the next clear bit returns
  the least clear index at or after the start, and \<open>-1\<close> exactly when there is none; it never reads
  past the array.\<close>

theorem bitmap_find_next_zero_least:
  assumes "bm_wf m"
  shows "bitmap_find_next_zero_from (nb_bits m) (data m) i =
    Inr (if \<exists>k. unat i \<le> k \<and> k < unat (nb_bits m) \<and> k \<notin> bits m
         then of_nat (LEAST k. unat i \<le> k \<and> k < unat (nb_bits m) \<and> k \<notin> bits m) else -1)"
    (is "_ = Inr (if \<exists>k. ?P k then _ else _)")
proof -
  obtain r where r: "bitmap_find_next_zero_from (nb_bits m) (data m) i = Inr r"
    "(r = -1 \<and> {k. unat i \<le> k \<and> k < unat (nb_bits m)} \<subseteq> bits m) \<or>
     (unat i \<le> unat r \<and> unat r < unat (nb_bits m) \<and> unat r \<notin> bits m \<and>
      {k. unat i \<le> k \<and> k < unat r} \<subseteq> bits m)"
    using bm.next_clear_ok [OF assms] by blast
  from r(2) show ?thesis
  proof
    assume *: "r = -1 \<and> {k. unat i \<le> k \<and> k < unat (nb_bits m)} \<subseteq> bits m"
    then have "\<not> (\<exists>k. ?P k)" by blast
    then show ?thesis using * r(1) by (simp only: if_False)
  next
    assume *: "unat i \<le> unat r \<and> unat r < unat (nb_bits m) \<and> unat r \<notin> bits m \<and>
      {k. unat i \<le> k \<and> k < unat r} \<subseteq> bits m"
    then have P: "?P (unat r)" by simp
    have "unat r \<le> k" if "?P k" for k
      using * that by (metis (mono_tags, lifting) linorder_not_le mem_Collect_eq subsetD)
    with P have "(LEAST k. ?P k) = unat r" by (rule Least_equality)
    with P r(1) show ?thesis by auto
  qed
qed

theorem bitmap_find_next_zero_least_witness:
  "bitmap_find_next_zero_from 10 (Some [0xF7, 0]) 4 = Inr 8"
proof -
  let ?m = "\<lparr>nb_bits = 10, data = Some [0xF7, 0 :: u8]\<rparr>"
  let ?P = "\<lambda>k. (4 :: nat) \<le> k \<and> k < 10 \<and> k \<notin> bits ?m"
  have wf: "bm_wf ?m" by (simp add: bm_wf_def)
  have b: "k \<in> bits ?m \<longleftrightarrow> k < 8 \<and> k \<noteq> 3" if "k < 10" for k
  proof -
    have "k \<in> {0, 1, 2, 3, 4, 5, 6, 7, 8, 9}" using that by auto
    then show ?thesis by (auto simp: bits_def bit_of_def)
  qed
  have "?P 8" using b [of 8] by simp
  moreover have "8 \<le> k" if "?P k" for k using that b [of k] by (cases "k < 8") auto
  ultimately have "(LEAST k. ?P k) = 8" by (rule Least_equality)
  moreover have "\<exists>k. ?P k" using b [of 8] by (intro exI [of _ 8]) simp
  ultimately show ?thesis
    using bitmap_find_next_zero_least [OF wf, of 4] by simp
qed

end
