(* ===== verification/Id_Manager.thy ===== *)
theory Id_Manager
  imports Bitmap
begin

text \<open>
  \<^verbatim>\<open>src/utils/id_manager.c\<close>, the allocator of small integers behind process ids. The manager holds
  a bitmap of the ids in use and a cached next free id, \<open>-1\<close> when every id is taken. The theory
  models its five operations, states the invariant between cache and bitmap, and shows that
  together they implement a pool of ids (locale \<open>id_pool\<close>).
\<close>

section \<open>Data and operations\<close>

record id_manager =
  mgr_bitmap :: t_bitmap
  next_free :: u32

text \<open>
  \<^verbatim>\<open>kmalloc\<close> is a parameter here: for a size it gives the bytes of a fresh block, or \<open>None\<close> for
  \<^verbatim>\<open>NULL\<close>. The manager takes the first \<^verbatim>\<open>sizeof(struct id_manager) = 12\<close> bytes, the bitmap the rest.
\<close>

definition id_manager_create :: "(u32 \<Rightarrow> u8 list option) \<Rightarrow> u32 \<Rightarrow> id_manager option kres" where
  "id_manager_create kmalloc max_id =
     (let nb_of_bytes = BITS_TO_BYTES max_id in
      case kmalloc (12 + nb_of_bytes) of
        None \<Rightarrow> Inr None
      | Some mem \<Rightarrow>
          kbind (bitmap_clear (Some \<lparr>nb_bits = max_id, data = Some (drop 12 mem)\<rparr>)) (\<lambda>b.
          case b of None \<Rightarrow> Inl NullDeref
                  | Some bm \<Rightarrow> Inr (Some \<lparr>mgr_bitmap = bm, next_free = 0\<rparr>)))"

definition id_manager_destroy :: "(id_manager \<Rightarrow> 'h \<Rightarrow> 'h kres) \<Rightarrow> id_manager option \<Rightarrow> 'h \<Rightarrow> 'h kres" where
  "id_manager_destroy kfree mgr h = (case mgr of None \<Rightarrow> Inr h | Some m \<Rightarrow> kfree m h)"

text \<open>The next free id after \<open>i\<close>, wrapping around to the start of the bitmap.\<close>

definition next_zero_wrap :: "t_bitmap \<Rightarrow> u32 \<Rightarrow> u32 kres" where
  "next_zero_wrap b i =
     kbind (bitmap_find_next_zero_from (nb_bits b) (data b) i) (\<lambda>nf.
     if nf = -1 then bitmap_find_next_zero (nb_bits b) (data b) else Inr nf)"

definition id_manager_alloc :: "id_manager option \<Rightarrow> (u32 \<times> id_manager option) kres" where
  "id_manager_alloc mgr =
     (case mgr of None \<Rightarrow> Inr (-1, None) | Some m \<Rightarrow>
      if next_free m = -1 then Inr (-1, Some m)
      else let allocated = next_free m in
        kbind (bitmap_set (Some (mgr_bitmap m)) allocated) (\<lambda>b.
        case b of None \<Rightarrow> Inl NullDeref | Some bm \<Rightarrow>
          kbind (next_zero_wrap bm (allocated + 1)) (\<lambda>nf.
          Inr (allocated, Some (m\<lparr>mgr_bitmap := bm, next_free := nf\<rparr>)))))"

definition id_manager_free :: "id_manager option \<Rightarrow> u32 \<Rightarrow> id_manager option kres" where
  "id_manager_free mgr ident =
     (case mgr of None \<Rightarrow> Inr None | Some m \<Rightarrow>
        kbind (bitmap_unset (Some (mgr_bitmap m)) ident) (\<lambda>b.
        case b of None \<Rightarrow> Inl NullDeref | Some bm \<Rightarrow>
          Inr (Some (m\<lparr>mgr_bitmap := bm,
            next_free := (if next_free m = -1 \<or> ident <s next_free m then ident else next_free m)\<rparr>))))"

definition id_manager_reserve_id :: "id_manager option \<Rightarrow> u32 \<Rightarrow> (bool \<times> id_manager option) kres" where
  "id_manager_reserve_id mgr ident =
     (case mgr of None \<Rightarrow> Inr (False, None) | Some m \<Rightarrow>
        kbind (bitmap_check (Some (mgr_bitmap m)) ident) (\<lambda>taken.
        if taken \<or> nb_bits (mgr_bitmap m) \<le> ident then Inr (False, Some m)
        else kbind (bitmap_set (Some (mgr_bitmap m)) ident) (\<lambda>b.
          case b of None \<Rightarrow> Inl NullDeref | Some bm \<Rightarrow>
            if ident = next_free m then
              kbind (next_zero_wrap bm (ident + 1)) (\<lambda>nf.
              Inr (True, Some (m\<lparr>mgr_bitmap := bm, next_free := nf\<rparr>)))
            else Inr (True, Some (m\<lparr>mgr_bitmap := bm\<rparr>)))))"

section \<open>Invariant\<close>

definition used :: "id_manager \<Rightarrow> nat set" where
  "used m = bits (mgr_bitmap m)"

definition capacity :: "id_manager \<Rightarrow> nat" where
  "capacity m = unat (nb_bits (mgr_bitmap m))"

definition mgr_inv :: "id_manager \<Rightarrow> bool" where
  "mgr_inv m \<longleftrightarrow> bm_wf (mgr_bitmap m) \<and>
     (next_free m = -1 \<and> used m = {..<capacity m} \<or>
      next_free m \<noteq> -1 \<and> unat (next_free m) < capacity m \<and> unat (next_free m) \<notin> used m)"

lemma next_zero_wrap_spec:
  assumes "bm_wf b"
  shows "\<exists>r. next_zero_wrap b i = Inr r \<and>
           (r = -1 \<and> bits b = {..<unat (nb_bits b)} \<or>
            r \<noteq> -1 \<and> unat r < unat (nb_bits b) \<and> unat r \<notin> bits b)"
  unfolding next_zero_wrap_def bitmap_find_next_zero_def
  by (rule bm.next_clear_wraps [OF assms])

text \<open>While some id is free, the cached one is.\<close>

lemma mgr_inv_next:
  assumes "mgr_inv m" and "i < capacity m" and "i \<notin> used m"
  shows "next_free m \<noteq> -1" and "unat (next_free m) < capacity m" and "unat (next_free m) \<notin> used m"
proof -
  have "used m \<noteq> {..<capacity m}" using assms(2,3) by (metis lessThan_iff)
  then show "next_free m \<noteq> -1" "unat (next_free m) < capacity m" "unat (next_free m) \<notin> used m"
    using assms(1) unfolding mgr_inv_def by blast+
qed

lemma id_manager_create_spec:
  assumes "kmalloc (12 + BITS_TO_BYTES max_id) = Some mem"
    and "length mem = 12 + unat (BITS_TO_BYTES max_id)"
    and "0 < unat max_id" and "unat max_id < 2 ^ 31"
  shows "\<exists>m. id_manager_create kmalloc max_id = Inr (Some m) \<and> mgr_inv m \<and> used m = {}
           \<and> capacity m = unat max_id"
proof -
  let ?b = "\<lparr>nb_bits = max_id, data = Some (drop 12 mem)\<rparr>"
  have "bm_wf ?b" using assms by (simp add: bm_wf_def BITS_TO_BYTES_unat)
  then obtain b where "bitmap_clear (Some ?b) = Inr (Some b)" "bm_wf b" "nb_bits b = max_id" "bits b = {}"
    using bitmap_clear_bits by fastforce
  then show ?thesis
    using assms by (auto simp: id_manager_create_def mgr_inv_def used_def capacity_def)
qed

lemma id_manager_alloc_full:
  "mgr_inv m \<Longrightarrow> used m = {..<capacity m} \<Longrightarrow> id_manager_alloc (Some m) = Inr (-1, Some m)"
  by (auto simp: mgr_inv_def id_manager_alloc_def)

lemma id_manager_alloc_spec:
  assumes "mgr_inv m" and "used m \<noteq> {..<capacity m}"
  shows "\<exists>r m'. id_manager_alloc (Some m) = Inr (r, Some m') \<and> unat r < capacity m \<and>
           unat r \<notin> used m \<and> used m' = insert (unat r) (used m) \<and> capacity m' = capacity m \<and> mgr_inv m'"
proof -
  let ?r = "next_free m"
  have wf: "bm_wf (mgr_bitmap m)" and r: "?r \<noteq> -1" "unat ?r < capacity m" "unat ?r \<notin> used m"
    using assms by (auto simp: mgr_inv_def)
  obtain b where b: "bitmap_set (Some (mgr_bitmap m)) ?r = Inr (Some b)" "bm_wf b"
    "unat (nb_bits b) = capacity m" "bits b = insert (unat ?r) (used m)"
    using bm.put_ok [OF wf, of ?r] r(2) by (auto simp: capacity_def used_def)
  obtain nf where nf: "next_zero_wrap b (?r + 1) = Inr nf"
    "nf = -1 \<and> bits b = {..<unat (nb_bits b)} \<or> nf \<noteq> -1 \<and> unat nf < unat (nb_bits b) \<and> unat nf \<notin> bits b"
    using next_zero_wrap_spec [OF b(2)] by blast
  show ?thesis
    using r b nf by (auto simp: id_manager_alloc_def Let_def mgr_inv_def used_def capacity_def)
qed

lemma id_manager_free_spec:
  assumes "mgr_inv m" and "unat ident < capacity m"
  shows "\<exists>m'. id_manager_free (Some m) ident = Inr (Some m') \<and> used m' = used m - {unat ident} \<and>
           capacity m' = capacity m \<and> mgr_inv m'"
proof -
  have wf: "bm_wf (mgr_bitmap m)" using assms(1) by (simp add: mgr_inv_def)
  obtain b where b: "bitmap_unset (Some (mgr_bitmap m)) ident = Inr (Some b)" "bm_wf b"
    "unat (nb_bits b) = capacity m" "bits b = used m - {unat ident}"
    using bm.del_ok [OF wf, of ident] assms(2) by (auto simp: capacity_def used_def)
  have i: "ident \<noteq> -1"
    using small_not_neg1 [OF assms(2)] bm.cap_small [OF wf] by (simp add: capacity_def)
  let ?nf = "if next_free m = -1 \<or> ident <s next_free m then ident else next_free m"
  let ?m = "m\<lparr>mgr_bitmap := b, next_free := ?nf\<rparr>"
  have "id_manager_free (Some m) ident = Inr (Some ?m)"
    using b(1) by (simp add: id_manager_free_def)
  moreover have "used ?m = used m - {unat ident}" "capacity ?m = capacity m"
    using b by (simp_all add: used_def capacity_def)
  moreover have "mgr_inv ?m"
    using assms b i by (auto simp: mgr_inv_def used_def capacity_def)
  ultimately show ?thesis by blast
qed

lemma id_manager_reserve_spec:
  assumes "mgr_inv m"
  shows "\<exists>ok m'. id_manager_reserve_id (Some m) ident = Inr (ok, Some m') \<and> mgr_inv m' \<and>
           capacity m' = capacity m \<and> (ok \<longleftrightarrow> unat ident < capacity m \<and> unat ident \<notin> used m) \<and>
           used m' = (if ok then insert (unat ident) (used m) else used m)"
proof -
  have wf: "bm_wf (mgr_bitmap m)" using assms(1) by (simp add: mgr_inv_def)
  have chk: "bitmap_check (Some (mgr_bitmap m)) ident = Inr (unat ident \<in> used m)"
    using bm.test_ok [OF wf] by (simp add: used_def)
  show ?thesis
  proof (cases "unat ident \<in> used m \<or> capacity m \<le> unat ident")
    case True
    then have "id_manager_reserve_id (Some m) ident = Inr (False, Some m)"
      using chk by (auto simp: id_manager_reserve_id_def capacity_def word_le_nat_alt)
    then show ?thesis using True assms by auto
  next
    case False
    obtain b where b: "bitmap_set (Some (mgr_bitmap m)) ident = Inr (Some b)" "bm_wf b"
      "unat (nb_bits b) = capacity m" "bits b = insert (unat ident) (used m)"
      using bm.put_ok [OF wf, of ident] False by (auto simp: capacity_def used_def)
    obtain nf where nf: "next_zero_wrap b (ident + 1) = Inr nf"
      "nf = -1 \<and> bits b = {..<unat (nb_bits b)} \<or> nf \<noteq> -1 \<and> unat nf < unat (nb_bits b) \<and> unat nf \<notin> bits b"
      using next_zero_wrap_spec [OF b(2)] by blast
    let ?m = "m\<lparr>mgr_bitmap := b, next_free := (if ident = next_free m then nf else next_free m)\<rparr>"
    have "id_manager_reserve_id (Some m) ident = Inr (True, Some ?m)"
      using False chk b(1) nf(1)
      by (cases "ident = next_free m")
        (simp_all add: id_manager_reserve_id_def capacity_def word_le_nat_alt)
    moreover have "used ?m = insert (unat ident) (used m)" "capacity ?m = capacity m"
      using b by (simp_all add: used_def capacity_def)
    moreover have "mgr_inv ?m"
    proof (cases "ident = next_free m")
      case True
      then show ?thesis using b nf(2) by (simp add: mgr_inv_def used_def capacity_def)
    next
      case other: False
      have "next_free m \<noteq> -1" "unat (next_free m) < capacity m" "unat (next_free m) \<notin> used m"
        using mgr_inv_next [OF assms, of "unat ident"] False by simp_all
      moreover have "unat (next_free m) \<noteq> unat ident" using other by (metis word_unat_eq_iff)
      ultimately show ?thesis using b(2-4) other by (simp add: mgr_inv_def used_def capacity_def)
    qed
    ultimately show ?thesis using False by (intro exI [of _ True] exI [of _ ?m]) simp
  qed
qed

section \<open>The interface: a pool of identifiers\<close>

locale id_pool =
  fixes inv :: "'m \<Rightarrow> bool"
    and cap :: "'m \<Rightarrow> nat"
    and taken :: "'m \<Rightarrow> nat set"
    and alloc :: "'m option \<Rightarrow> (u32 \<times> 'm option) kres"
    and release :: "'m option \<Rightarrow> u32 \<Rightarrow> 'm option kres"
  assumes taken_cap: "inv m \<Longrightarrow> taken m \<subseteq> {..<cap m}"
    and cap_small: "inv m \<Longrightarrow> cap m < 2 ^ 31"
    and alloc_full: "inv m \<Longrightarrow> taken m = {..<cap m} \<Longrightarrow> alloc (Some m) = Inr (-1, Some m)"
    and alloc_ok: "inv m \<Longrightarrow> taken m \<noteq> {..<cap m} \<Longrightarrow>
          \<exists>r m'. alloc (Some m) = Inr (r, Some m') \<and> unat r < cap m \<and> unat r \<notin> taken m \<and>
                 taken m' = insert (unat r) (taken m) \<and> cap m' = cap m \<and> inv m'"
    and release_ok: "inv m \<Longrightarrow> unat i < cap m \<Longrightarrow>
          \<exists>m'. release (Some m) i = Inr (Some m') \<and> taken m' = taken m - {unat i} \<and>
               cap m' = cap m \<and> inv m'"
begin

text \<open>\<open>n\<close> allocations in a row.\<close>

fun alloc_many :: "nat \<Rightarrow> 'm \<Rightarrow> (u32 list \<times> 'm) kres" where
  "alloc_many 0 m = Inr ([], m)"
| "alloc_many (Suc n) m =
     kbind (alloc (Some m)) (\<lambda>(r, m').
     case m' of None \<Rightarrow> Inl NullDeref
     | Some m'' \<Rightarrow> kbind (alloc_many n m'') (\<lambda>(rs, k). Inr (r # rs, k)))"

lemma alloc_many_distinct:
  "inv m \<Longrightarrow> n \<le> cap m - card (taken m) \<Longrightarrow>
   \<exists>rs m'. alloc_many n m = Inr (rs, m') \<and> length rs = n \<and> distinct rs \<and>
     unat ` set rs \<inter> taken m = {} \<and> unat ` set rs \<subseteq> {..<cap m} \<and>
     taken m' = taken m \<union> unat ` set rs \<and> cap m' = cap m \<and> inv m'"
proof (induction n arbitrary: m)
  case 0
  then show ?case by simp
next
  case (Suc n)
  have fin: "finite (taken m)" by (rule finite_subset [OF taken_cap [OF Suc.prems(1)]]) simp
  have "taken m \<noteq> {..<cap m}"
  proof
    assume "taken m = {..<cap m}"
    then have "card (taken m) = cap m" by simp
    with Suc.prems(2) show False by linarith
  qed
  then obtain r m1 where m1: "alloc (Some m) = Inr (r, Some m1)" "unat r < cap m" "unat r \<notin> taken m"
    "taken m1 = insert (unat r) (taken m)" "cap m1 = cap m" "inv m1"
    using alloc_ok [OF Suc.prems(1)] by blast
  have "card (taken m1) = Suc (card (taken m))"
    unfolding m1(4) by (rule card_insert_disjoint [OF fin m1(3)])
  then have n: "n \<le> cap m1 - card (taken m1)"
    unfolding m1(5) using Suc.prems(2) by linarith
  obtain rs m' where rs: "alloc_many n m1 = Inr (rs, m')" "length rs = n" "distinct rs"
    "unat ` set rs \<inter> taken m1 = {}" "unat ` set rs \<subseteq> {..<cap m1}"
    "taken m' = taken m1 \<union> unat ` set rs" "cap m' = cap m1" "inv m'"
    using Suc.IH [OF m1(6) n] by (elim exE conjE)
  have "alloc_many (Suc n) m = Inr (r # rs, m')" using m1(1) rs(1) by simp
  moreover have "r \<notin> set rs" using rs(4) m1(4) by auto
  ultimately show ?case using m1 rs by (intro exI [of _ "r # rs"] exI [of _ m']) auto
qed

text \<open>Every freed identifier can be handed out again: one more allocation succeeds after it.\<close>

lemma release_then_alloc:
  assumes "inv m" and "unat i \<in> taken m"
  shows "\<exists>m' r m''. release (Some m) i = Inr (Some m') \<and> alloc (Some m') = Inr (r, Some m'') \<and>
           unat r < cap m \<and> unat r \<notin> taken m - {unat i} \<and> inv m''"
proof -
  have i: "unat i < cap m" using assms taken_cap by blast
  obtain m' where m': "release (Some m) i = Inr (Some m')" "taken m' = taken m - {unat i}"
    "cap m' = cap m" "inv m'"
    using release_ok [OF assms(1) i] by blast
  have "taken m' \<noteq> {..<cap m'}" using m' i by auto
  then show ?thesis using alloc_ok [OF m'(4)] m' by fastforce
qed

end

interpretation idm: id_pool mgr_inv capacity used id_manager_alloc id_manager_free
proof
  fix m :: id_manager and i :: u32
  assume inv: "mgr_inv m"
  then have wf: "bm_wf (mgr_bitmap m)" by (simp add: mgr_inv_def)
  show "used m \<subseteq> {..<capacity m}"
    using bm.elems_cap [OF wf] by (simp add: used_def capacity_def)
  show "capacity m < 2 ^ 31"
    using bm.cap_small [OF wf] by (simp add: capacity_def)
  show "used m = {..<capacity m} \<Longrightarrow> id_manager_alloc (Some m) = Inr (-1, Some m)"
    by (rule id_manager_alloc_full [OF inv])
  show "used m \<noteq> {..<capacity m} \<Longrightarrow>
      \<exists>r m'. id_manager_alloc (Some m) = Inr (r, Some m') \<and> unat r < capacity m \<and> unat r \<notin> used m \<and>
        used m' = insert (unat r) (used m) \<and> capacity m' = capacity m \<and> mgr_inv m'"
    by (rule id_manager_alloc_spec [OF inv])
  show "unat i < capacity m \<Longrightarrow>
      \<exists>m'. id_manager_free (Some m) i = Inr (Some m') \<and> used m' = used m - {unat i} \<and>
        capacity m' = capacity m \<and> mgr_inv m'"
    by (rule id_manager_free_spec [OF inv])
qed

section \<open>Properties\<close>

text \<open>A manager of eight ids, of which none is taken, and one where all are.\<close>

definition fresh8 :: id_manager where
  "fresh8 = \<lparr>mgr_bitmap = \<lparr>nb_bits = 8, data = Some [0]\<rparr>, next_free = 0\<rparr>"

definition full8 :: id_manager where
  "full8 = \<lparr>mgr_bitmap = \<lparr>nb_bits = 8, data = Some [255]\<rparr>, next_free = -1\<rparr>"

lemma fresh8_inv: "mgr_inv fresh8" "used fresh8 = {}" "capacity fresh8 = 8"
  by (auto simp: fresh8_def mgr_inv_def bm_wf_def used_def bits_def bit_of_def capacity_def)

text \<open>C26. From any state that satisfies the invariant, as many allocations in a row as there are free
  ids all succeed, return pairwise different ids below the capacity that were not taken before, and
  mark exactly them as taken.\<close>

theorem id_manager_alloc_distinct:
  assumes "mgr_inv m" and "n \<le> capacity m - card (used m)"
  shows "\<exists>rs m'. idm.alloc_many n m = Inr (rs, m') \<and> length rs = n \<and> distinct rs \<and>
    unat ` set rs \<inter> used m = {} \<and> unat ` set rs \<subseteq> {..<capacity m} \<and>
    used m' = used m \<union> unat ` set rs \<and> capacity m' = capacity m \<and> mgr_inv m'"
  using assms by (rule idm.alloc_many_distinct)

theorem id_manager_alloc_distinct_witness:
  "\<exists>rs m'. idm.alloc_many 8 fresh8 = Inr (rs, m') \<and> distinct rs \<and> unat ` set rs \<subseteq> {..<8}"
  using id_manager_alloc_distinct [OF fresh8_inv(1), of 8] fresh8_inv(2,3) by auto

text \<open>Freeing a taken id never fails, gives exactly that id back to the pool, keeps the invariant,
  and the next allocation succeeds with an id nobody else holds.\<close>

theorem id_manager_free_realloc:
  assumes "mgr_inv m" and "unat i \<in> used m"
  shows "\<exists>m' r m''. id_manager_free (Some m) i = Inr (Some m') \<and>
    id_manager_alloc (Some m') = Inr (r, Some m'') \<and>
    unat r < capacity m \<and> unat r \<notin> used m - {unat i} \<and> mgr_inv m''"
  using assms by (rule idm.release_then_alloc)

theorem id_manager_free_realloc_witness:
  "\<exists>m' r m''. id_manager_free (Some full8) 5 = Inr (Some m') \<and>
     id_manager_alloc (Some m') = Inr (r, Some m'') \<and> mgr_inv m''"
proof -
  have bits: "used full8 = {..<8}"
  proof -
    have "bit (255 :: u8) k" if "k < 8" for k
      using that bit_mask_iff [of 8 k, where 'a = u8] by (simp add: mask_eq_exp_minus_1)
    then have "k \<in> used full8 \<longleftrightarrow> k < 8" for k
      by (cases "k < 8") (simp_all add: full8_def used_def bits_def bit_of_def)
    then show ?thesis by (simp add: set_eq_iff)
  qed
  then have inv: "mgr_inv full8"
    by (simp add: mgr_inv_def capacity_def bm_wf_def full8_def)
  show ?thesis using id_manager_free_realloc [OF inv, of 5] bits by (simp, blast)
qed

text \<open>Reserving an id succeeds exactly when it is below the capacity and not taken; on success it
  alone becomes taken, on failure nothing changes, and the invariant is kept either way.\<close>

theorem id_manager_reserve_exact:
  assumes "mgr_inv m"
  shows "\<exists>ok m'. id_manager_reserve_id (Some m) ident = Inr (ok, Some m') \<and> mgr_inv m' \<and>
    capacity m' = capacity m \<and> (ok \<longleftrightarrow> unat ident < capacity m \<and> unat ident \<notin> used m) \<and>
    used m' = (if ok then insert (unat ident) (used m) else used m)"
  using assms by (rule id_manager_reserve_spec)

theorem id_manager_reserve_exact_witness:
  "\<exists>m'. id_manager_reserve_id (Some fresh8) 3 = Inr (True, Some m') \<and> used m' = {3}"
  using id_manager_reserve_exact [OF fresh8_inv(1), of 3] fresh8_inv(2,3) by auto

text \<open>\<^verbatim>\<open>id_manager_free\<close> does not check its argument against the capacity: on an exhausted manager
  it caches any id, also one past the end of the bitmap, and the next allocation returns it.\<close>

theorem id_manager_free_out_of_range:
  assumes "mgr_inv m" and "next_free m = -1" and "capacity m \<le> unat i" and "i \<noteq> -1"
  shows "\<exists>m' m''. id_manager_free (Some m) i = Inr (Some m') \<and>
    id_manager_alloc (Some m') = Inr (i, Some m'') \<and> capacity m'' \<le> unat i"
proof -
  obtain d where d: "data (mgr_bitmap m) = Some d"
    using assms(1) by (auto simp: mgr_inv_def elim: bm_wfE)
  have i: "nb_bits (mgr_bitmap m) \<le> i"
    using assms(3) by (simp add: capacity_def word_le_nat_alt)
  let ?m = "m\<lparr>next_free := i\<rparr>"
  have f: "id_manager_free (Some m) i = Inr (Some ?m)"
    using assms(2) i d by (simp add: id_manager_free_def bitmap_unset_def)
  obtain nf where "next_zero_wrap (mgr_bitmap m) (i + 1) = Inr nf"
    using next_zero_wrap_spec [of "mgr_bitmap m" "i + 1"] assms(1) unfolding mgr_inv_def by blast
  then have "id_manager_alloc (Some ?m) = Inr (i, Some (m\<lparr>next_free := nf\<rparr>))"
    using assms(4) i d by (simp add: id_manager_alloc_def bitmap_set_def Let_def)
  with f show ?thesis using assms(3) by (auto simp: capacity_def)
qed

theorem id_manager_free_out_of_range_witness:
  "\<exists>m' m''. id_manager_free (Some \<lparr>mgr_bitmap = \<lparr>nb_bits = 1, data = Some [1]\<rparr>, next_free = -1\<rparr>) 9
      = Inr (Some m') \<and> id_manager_alloc (Some m') = Inr (9, Some m'')"
proof -
  have "mgr_inv \<lparr>mgr_bitmap = \<lparr>nb_bits = 1, data = Some [1]\<rparr>, next_free = -1\<rparr>"
    by (auto simp: mgr_inv_def bm_wf_def used_def bits_def bit_of_def capacity_def)
  from id_manager_free_out_of_range [OF this, of 9] show ?thesis
    by (simp add: capacity_def) blast
qed

end
