(* ===== verification/Task.thy ===== *)
theory Task
  imports Vma Usercopy Id_Manager
begin

text \<open>
  \<^verbatim>\<open>include/proc/task.h\<close> with \<^verbatim>\<open>src/proc/waitqueue.c\<close>, \<^verbatim>\<open>src/proc/scheduler.c\<close>, \<^verbatim>\<open>src/proc/timer.c\<close>,
  \<^verbatim>\<open>src/proc/lock.c\<close>, the signal sets of \<^verbatim>\<open>src/proc/signal.c\<close> and the task lists of \<^verbatim>\<open>src/proc/task.c\<close>.

  A task is known by the address of its \<^verbatim>\<open>struct task\<close>, 0 is \<^verbatim>\<open>NULL\<close>. The intrusive lists are lists of such
  addresses (\<open>List_Head\<close> shows that the list operations implement them); for the nodes that can be on
  several lists the task records the list its node is linked in, which is what the pointers of the node tell.

  Every entry to the kernel goes through an interrupt gate, so that the C code runs with interrupts off until it
  calls \<^verbatim>\<open>schedule\<close>. The model follows a run up to \<^verbatim>\<open>switch_to\<close> (\<^verbatim>\<open>src/proc/context.s\<close>), where the CPU
  leaves one task's stack for another's. What the task that is left will do when it is
  switched in again is the \<open>resume_point\<close> that \<open>switch_to\<close> stores: it stands for the return addresses on its kernel stack.
\<close>

section \<open>Data\<close>

text \<open>\<^verbatim>\<open>struct section\<close>.\<close>

record section_rec =
  sec_v_addr :: u32
  sec_p_addr :: u32
  data_start :: u32
  data_size :: u32
  mapping_size :: u32
  sec_flags :: u32

datatype process_states = TASK_NEW | TASK_RUNNING | TASK_WAITING | TASK_ZOMBIE

datatype wq_state = TASK_INTERRUPTIBLE | TASK_UNINTERRUPTIBLE

text \<open>The wait queues of the kernel: that of the sleepers and one per task for the exit of its children.\<close>

datatype wq_id = Sleep_wq | Child_wq u32

text \<open>
  \<^verbatim>\<open>struct wq_entry\<close>; the field \<^verbatim>\<open>task\<close> is the task the entry is part of, and \<^verbatim>\<open>handler\<close> is left out, which the
  sources set to \<^verbatim>\<open>NULL\<close> only. \<open>wq_node\<close> is the queue the node is linked in.
\<close>

record wq_entry =
  wq_head :: "wq_id option"
  wq_node :: "wq_id option"
  wq_st :: wq_state

text \<open>
  Where in the kernel a task is that has been switched out: at the start of a context that was made by hand
  (\<^verbatim>\<open>task_craft_context\<close>, \<^verbatim>\<open>fork\<close>), or in one of the calls of \<^verbatim>\<open>schedule\<close>; \<open>In_waitpid\<close> keeps the arguments of the system call.
  \<open>Stale_frame\<close> is a stack pointer that does not point to such a context.
\<close>

datatype resume_point = At_entry | In_boot | In_timer | In_sleep | In_waitpid u32 u32 | In_exit | Stale_frame

text \<open>
  \<^verbatim>\<open>struct task\<close>. \<open>siblings\<close> is the task on whose list of children the task is (0 when it is on none);
  \<open>name_in_heap\<close> tells whether \<^verbatim>\<open>name\<close> points into the memory of \<open>heap_sec\<close>.
\<close>

record task =
  pid :: u32
  uid :: u32
  gid :: u32
  real_parent :: u32
  parent :: u32
  children :: "u32 list"
  siblings :: u32
  task_esp :: u32
  task_cr3 :: u32
  kernel_stack_pointer :: u32
  kernel_stack_base :: u32
  text_sec :: section_rec
  data_sec :: section_rec
  stack_sec :: section_rec
  heap_sec :: section_rec
  vma_areas :: "vm_area list"
  signals_map :: u32
  sig_trampoline :: section_rec
  sig_handlers :: "nat \<Rightarrow> u32"
  task_name :: "u8 list"
  name_in_heap :: bool
  ring :: u32
  need_resched :: bool
  exit_code :: u32
  task_state :: process_states
  wq_data :: wq_entry
  child_wq :: "u32 list"
  tick_to_wake :: u32
  quantum_remaining :: u32
  resume_at :: resume_point

text \<open>
  The addresses the linker and the compiler choose: functions and symbols of the kernel image, the depth of the kernel
  stack at \<^verbatim>\<open>switch_to\<close>, and how far below the top of the kernel stack the local \<^verbatim>\<open>kframe\<close> of signal delivery is.
\<close>

record image =
  dummy_task :: u32
  dummy_canary_val :: u32
  signal_default_handler :: u32
  signal_ignore_handler :: u32
  interrupt_exit :: u32
  cpu_idle_loop :: u32
  sig_trampoline_start :: u32
  sig_trampoline_end :: u32
  kitoxD_start :: u32
  kitoxD_end :: u32
  user_cafe_start :: u32
  user_cafe_end :: u32
  user_dead_start :: u32
  user_dead_end :: u32
  switch_depth :: "resume_point \<Rightarrow> u32"
  kframe_depth :: u32

text \<open>
  The state of the kernel: the variables of the process code, the memory the kernel manages (\<open>kmm\<close>), the bytes at
  kernel addresses (\<open>kmem\<close>) and, for each page directory, the bytes at user addresses (\<open>umem\<close>).
  \<open>tss_esp0\<close> is the kernel stack the CPU loads on an interrupt from user mode; \<open>resuming\<close> tells that the CPU has
  just left \<^verbatim>\<open>switch_to\<close> on the stack of the current task. \<open>port_log\<close> holds the bytes sent to I/O ports and \<open>console\<close> the strings printed by
  system calls, the last one first.
\<close>

record kstate =
  tasks :: "u32 \<Rightarrow> task option"
  ready_queue :: "u32 list"
  sleep_wq :: "u32 list"
  info_queue :: "u32 list"
  current_task :: u32
  idle_task :: u32
  kitoxD_task :: u32
  pid_manager :: "id_manager option"
  global_ticks :: u32
  preempt_count :: u32
  irq_on :: bool
  tss_esp0 :: u32
  resuming :: bool
  port_log :: "(u16 \<times> u8) list"
  console :: "u8 list list"
  kmm :: kmm
  kmem :: bmem
  umem :: "u32 \<Rightarrow> bmem"
  img :: image

definition STACK_CANARY_MAGIC :: u32 where "STACK_CANARY_MAGIC = 0xABADBABE"
definition PID_MAX :: u32 where "PID_MAX = 32768"
definition PIT_BASE_FREQUENCY :: u32 where "PIT_BASE_FREQUENCY = 1193180"
definition TIMER_HZ :: u32 where "TIMER_HZ = 100"
definition DEFAULT_QUANTUM :: u32 where "DEFAULT_QUANTUM = 10"
definition SECONDS_TO_TICKS :: "u32 \<Rightarrow> u32" where "SECONDS_TO_TICKS seconds = seconds * TIMER_HZ"
definition TICKS_TO_SECONDS :: "u32 \<Rightarrow> u32" where "TICKS_TO_SECONDS ticks = ticks div TIMER_HZ"

definition EPERM :: u32 where "EPERM = 1"
definition ESRCH :: u32 where "ESRCH = 3"
definition ECHILD :: u32 where "ECHILD = 10"
definition ENOMEM :: u32 where "ENOMEM = 12"
definition EFAULT :: u32 where "EFAULT = 14"
definition EINVAL :: u32 where "EINVAL = 22"
definition ENOSYS :: u32 where "ENOSYS = 38"

text \<open>Words in a memory of bytes, little end first.\<close>

definition rd32 :: "bmem \<Rightarrow> u32 \<Rightarrow> u32" where
  "rd32 m a = ucast (m a) OR push_bit 8 (ucast (m (a + 1))) OR push_bit 16 (ucast (m (a + 2))) OR push_bit 24 (ucast (m (a + 3)))"

definition wr32 :: "u32 \<Rightarrow> u32 \<Rightarrow> bmem \<Rightarrow> bmem" where
  "wr32 a v m = m(a := ucast v, a + 1 := ucast (drop_bit 8 v), a + 2 := ucast (drop_bit 16 v), a + 3 := ucast (drop_bit 24 v))"

definition with_task :: "u32 \<Rightarrow> kstate \<Rightarrow> (task \<Rightarrow> 'a kres) \<Rightarrow> 'a kres" where
  "with_task a s f = (case tasks s a of None \<Rightarrow> Inl NullDeref | Some t \<Rightarrow> f t)"

definition upd_task :: "u32 \<Rightarrow> (task \<Rightarrow> task) \<Rightarrow> kstate \<Rightarrow> kstate" where
  "upd_task a f s = s\<lparr>tasks := (tasks s)(a := map_option f (tasks s a))\<rparr>"

section \<open>Task lists\<close>

definition task_text :: "task \<Rightarrow> section_rec" where "task_text t = text_sec t"
definition task_data :: "task \<Rightarrow> section_rec" where "task_data t = data_sec t"
definition task_heap :: "task \<Rightarrow> section_rec" where "task_heap t = heap_sec t"
definition task_stack :: "task \<Rightarrow> section_rec" where "task_stack t = stack_sec t"

definition task_is_sleeping :: "task \<Rightarrow> bool" where
  "task_is_sleeping t \<longleftrightarrow> task_state t = TASK_WAITING \<and> wq_head (wq_data t) \<noteq> None"

definition task_stack_overflow :: "kstate \<Rightarrow> task \<Rightarrow> bool" where
  "task_stack_overflow s t \<longleftrightarrow> rd32 (kmem s) (kernel_stack_pointer t) \<noteq> STACK_CANARY_MAGIC"

definition task_get_current_task :: "kstate \<Rightarrow> u32" where "task_get_current_task s = current_task s"
definition task_get_kitoxD :: "kstate \<Rightarrow> u32" where "task_get_kitoxD s = kitoxD_task s"
definition task_get_idle :: "kstate \<Rightarrow> u32" where "task_get_idle s = idle_task s"
definition task_get_dummy :: "kstate \<Rightarrow> u32" where "task_get_dummy s = dummy_task (img s)"
definition task_set_current_task :: "u32 \<Rightarrow> kstate \<Rightarrow> kstate" where "task_set_current_task a s = s\<lparr>current_task := a\<rparr>"

text \<open>A walk over a list of tasks that stops at the first one that satisfies a test.\<close>

fun find_task :: "kstate \<Rightarrow> (task \<Rightarrow> bool) \<Rightarrow> u32 list \<Rightarrow> u32 kres" where
  "find_task s P [] = Inr 0"
| "find_task s P (a # as) = with_task a s (\<lambda>t. if P t then Inr a else find_task s P as)"

definition task_find_by_pid :: "u32 \<Rightarrow> kstate \<Rightarrow> u32 kres" where
  "task_find_by_pid p s = find_task s (\<lambda>t. pid t = p) (info_queue s)"

definition task_has_child_pid :: "task \<Rightarrow> u32 \<Rightarrow> kstate \<Rightarrow> bool kres" where
  "task_has_child_pid t child_pid s = kbind (find_task s (\<lambda>c. pid c = child_pid) (children t)) (\<lambda>r. Inr (r \<noteq> 0))"

text \<open>\<^verbatim>\<open>pop_node(&task->siblings)\<close> and \<^verbatim>\<open>list_add_head(&task->siblings, &p->children)\<close>.\<close>

definition sib_unlink :: "u32 \<Rightarrow> kstate \<Rightarrow> kstate" where
  "sib_unlink a s = (case tasks s a of None \<Rightarrow> s
     | Some t \<Rightarrow> upd_task a (\<lambda>t. t\<lparr>siblings := 0\<rparr>) (upd_task (siblings t) (\<lambda>p. p\<lparr>children := remove1 a (children p)\<rparr>) s))"

definition sib_link :: "u32 \<Rightarrow> u32 \<Rightarrow> kstate \<Rightarrow> kstate" where
  "sib_link a p s = upd_task a (\<lambda>t. t\<lparr>siblings := p\<rparr>) (upd_task p (\<lambda>t. t\<lparr>children := a # children t\<rparr>) s)"

definition task_append_child :: "u32 \<Rightarrow> u32 \<Rightarrow> kstate \<Rightarrow> kstate kres" where
  "task_append_child par child s = with_task par s (\<lambda>_. with_task child s (\<lambda>_.
     Inr (upd_task child (\<lambda>t. t\<lparr>parent := par, real_parent := par\<rparr>) (sib_link child par s))))"

text \<open>The loop of \<^verbatim>\<open>__task_reparent_children\<close> empties the list from its front.\<close>

fun reparent_loop :: "u32 \<Rightarrow> u32 list \<Rightarrow> kstate \<Rightarrow> kstate kres" where
  "reparent_loop k [] s = Inr s"
| "reparent_loop k (c # cs) s = with_task c s (\<lambda>_.
     reparent_loop k cs (sib_link c k (sib_unlink c (upd_task c (\<lambda>t. t\<lparr>parent := k, real_parent := k\<rparr>) s))))"

definition task_reparent_children :: "u32 \<Rightarrow> kstate \<Rightarrow> kstate kres" where
  "task_reparent_children par s =
     (if kitoxD_task s = 0 \<or> par = kitoxD_task s then Inr s
      else with_task par s (\<lambda>t. reparent_loop (kitoxD_task s) (children t) s))"

section \<open>Run queue\<close>

definition pick_next :: "kstate \<Rightarrow> u32 \<times> kstate" where
  "pick_next s = (case ready_queue s of [] \<Rightarrow> (0, s) | nxt # rest \<Rightarrow> (nxt, s\<lparr>ready_queue := rest\<rparr>))"

definition sched_enqueue :: "u32 \<Rightarrow> kstate \<Rightarrow> (u32 \<times> kstate) kres" where
  "sched_enqueue a s =
     (if a = 0 \<or> a \<in> set (ready_queue s) then Inr (- EINVAL, s)
      else with_task a s (\<lambda>_. Inr (0, (upd_task a (\<lambda>t. t\<lparr>task_state := TASK_RUNNING\<rparr>) s)\<lparr>ready_queue := ready_queue s @ [a]\<rparr>)))"

text \<open>\<^verbatim>\<open>pop_node(&task->sched_node)\<close> under its guard \<^verbatim>\<open>list_node_is_linked\<close>.\<close>

definition sched_unlink :: "u32 \<Rightarrow> kstate \<Rightarrow> kstate" where
  "sched_unlink a s = s\<lparr>ready_queue := remove1 a (ready_queue s)\<rparr>"

text \<open>
  \<^verbatim>\<open>switch_to\<close>: the CPU saves the stack of the current task and continues on that of the next one, in its page
  directory.
\<close>

definition switch_to :: "u32 \<Rightarrow> u32 \<Rightarrow> resume_point \<Rightarrow> kstate \<Rightarrow> kstate kres" where
  "switch_to cur nxt rp s =
     (let s = upd_task cur (\<lambda>t. t\<lparr>resume_at := rp, task_esp := kernel_stack_base t - switch_depth (img s) rp\<rparr>) s in
      with_task nxt s (\<lambda>t. Inr (s\<lparr>tss_esp0 := kernel_stack_base t, resuming := True,
        kmm := (kmm s)\<lparr>mm_vmm := paging_reload_cr3 (task_cr3 t) (mm_vmm (kmm s))\<rparr>\<rparr>)))"

text \<open>The three parts of \<^verbatim>\<open>schedule\<close>, with where its caller is. The result tells whether the CPU was given to another stack.\<close>

definition sched_choose :: "kstate \<Rightarrow> (u32 \<times> kstate) kres" where
  "sched_choose s =
     (let (nxt, s) = pick_next s in
      if nxt \<noteq> 0 then with_task nxt s (\<lambda>t.
        if task_state t \<noteq> TASK_RUNNING then Inl (Panic ''Scheduler: non-RUNNING task in ready queue'') else Inr (nxt, s))
      else if current_task s = idle_task s then Inr (0, s)
      else Inr (idle_task s, upd_task (idle_task s) (\<lambda>t. t\<lparr>task_state := TASK_RUNNING\<rparr>) s))"

text \<open>A current task that can go on running is put at the end of the queue, except the idle task and the boot thread.\<close>

definition sched_requeue :: "task \<Rightarrow> kstate \<Rightarrow> kstate kres" where
  "sched_requeue cur_task s =
     (if task_state cur_task = TASK_RUNNING \<and> current_task s \<noteq> idle_task s \<and> current_task s \<noteq> task_get_dummy s
      then kbind (sched_enqueue (current_task s) s) (\<lambda>(_, s). Inr s) else Inr s)"

definition sched_run :: "u32 \<Rightarrow> u32 \<Rightarrow> resume_point \<Rightarrow> kstate \<Rightarrow> (bool \<times> kstate) kres" where
  "sched_run cur nxt rp s =
     (if nxt = 0 then Inr (False, s)
      else with_task nxt s (\<lambda>next_task.
        if task_stack_overflow s next_task then Inl (Panic ''Stack overflow'')
        else kbind (switch_to cur nxt rp
               (upd_task nxt (\<lambda>t. t\<lparr>quantum_remaining := DEFAULT_QUANTUM\<rparr>) (task_set_current_task nxt s))) (\<lambda>s.
          Inr (True, s))))"

definition schedule :: "resume_point \<Rightarrow> kstate \<Rightarrow> (bool \<times> kstate) kres" where
  "schedule rp s =
     (let cur = current_task s in
      if idle_task s = 0 then Inl (Panic ''Error: idle not init.'')
      else if cur = 0 then Inl (Panic ''Error: current task is NULL.'')
      else with_task cur s (\<lambda>cur_task.
        if task_stack_overflow s cur_task then Inl (Panic ''Stack overflow'')
        else kbind (sched_requeue cur_task s) (\<lambda>s.
          kbind (sched_choose s) (\<lambda>(nxt, s). sched_run cur nxt rp s))))"

section \<open>Wait queues\<close>

definition wq_entry_init :: "wq_state \<Rightarrow> wq_entry" where
  "wq_entry_init st = \<lparr>wq_head = None, wq_node = None, wq_st = st\<rparr>"

definition get_wq :: "wq_id \<Rightarrow> kstate \<Rightarrow> u32 list" where
  "get_wq q s = (case q of Sleep_wq \<Rightarrow> sleep_wq s | Child_wq p \<Rightarrow> (case tasks s p of None \<Rightarrow> [] | Some t \<Rightarrow> child_wq t))"

definition upd_wq :: "wq_id \<Rightarrow> (u32 list \<Rightarrow> u32 list) \<Rightarrow> kstate \<Rightarrow> kstate" where
  "upd_wq q f s = (case q of Sleep_wq \<Rightarrow> s\<lparr>sleep_wq := f (sleep_wq s)\<rparr>
     | Child_wq p \<Rightarrow> upd_task p (\<lambda>t. t\<lparr>child_wq := f (child_wq t)\<rparr>) s)"

text \<open>\<^verbatim>\<open>pop_node(&task->wq_data.node)\<close> under its guard, and \<^verbatim>\<open>list_add_head(&task->wq_data.node, &wq->head)\<close>.\<close>

definition wq_unlink :: "u32 \<Rightarrow> kstate \<Rightarrow> kstate" where
  "wq_unlink a s = (case tasks s a of None \<Rightarrow> s
     | Some t \<Rightarrow> (case wq_node (wq_data t) of None \<Rightarrow> s
         | Some q \<Rightarrow> upd_task a (\<lambda>t. t\<lparr>wq_data := (wq_data t)\<lparr>wq_node := None\<rparr>\<rparr>) (upd_wq q (remove1 a) s)))"

definition wq_link :: "wq_id \<Rightarrow> u32 \<Rightarrow> kstate \<Rightarrow> kstate" where
  "wq_link q a s = upd_task a (\<lambda>t. t\<lparr>wq_data := (wq_data t)\<lparr>wq_node := Some q\<rparr>\<rparr>) (upd_wq q (\<lambda>as. a # as) s)"

definition wq_prepare :: "wq_id \<Rightarrow> u32 \<Rightarrow> kstate \<Rightarrow> kstate kres" where
  "wq_prepare wq a s = with_task a s (\<lambda>_.
     let s = upd_task a (\<lambda>t. t\<lparr>wq_data := (wq_data t)\<lparr>wq_head := Some wq\<rparr>, task_state := TASK_WAITING, need_resched := True\<rparr>) s in
     Inr (wq_link wq a (wq_unlink a (sched_unlink a s))))"

definition wq_finish :: "u32 \<Rightarrow> kstate \<Rightarrow> kstate kres" where
  "wq_finish a s = with_task a s (\<lambda>t.
     if wq_node (wq_data t) = None then Inr s
     else let s = upd_task a (\<lambda>t. t\<lparr>task_state := TASK_RUNNING\<rparr>) (wq_unlink a s) in
       kbind (sched_enqueue a s) (\<lambda>(_, s).
       Inr (upd_task a (\<lambda>t. t\<lparr>wq_data := wq_entry_init (wq_st (wq_data t))\<rparr>) s)))"

definition wq_wake_specifiq :: "u32 \<Rightarrow> kstate \<Rightarrow> kstate kres" where
  "wq_wake_specifiq a s = wq_finish a s"

definition wq_signal_wake_up :: "u32 \<Rightarrow> kstate \<Rightarrow> kstate kres" where
  "wq_signal_wake_up a s = with_task a s (\<lambda>t.
     if wq_st (wq_data t) = TASK_UNINTERRUPTIBLE then Inr s else wq_wake_specifiq a s)"

definition wq_wake_one :: "wq_id \<Rightarrow> kstate \<Rightarrow> kstate kres" where
  "wq_wake_one wq s = (case get_wq wq s of [] \<Rightarrow> Inr s | a # _ \<Rightarrow> wq_finish a s)"

text \<open>
  \<^verbatim>\<open>wq_wake_all\<close> takes the first entry until the queue is empty; a first entry that \<^verbatim>\<open>wq_finish\<close> left in place would
  be taken again for ever.
\<close>

partial_function (option) wq_wake_all_loop :: "wq_id \<Rightarrow> kstate \<Rightarrow> kstate kres option" where
  "wq_wake_all_loop wq s = (case get_wq wq s of [] \<Rightarrow> Some (Inr s)
     | a # _ \<Rightarrow> (case wq_finish a s of Inl e \<Rightarrow> Some (Inl e) | Inr s \<Rightarrow> wq_wake_all_loop wq s))"

definition wq_wake_all :: "wq_id \<Rightarrow> kstate \<Rightarrow> kstate kres" where
  "wq_wake_all wq s = (case wq_wake_all_loop wq s of None \<Rightarrow> Inl Diverges | Some r \<Rightarrow> r)"

section \<open>Timer\<close>

definition k_outb :: "u16 \<Rightarrow> u8 \<Rightarrow> kstate \<Rightarrow> kstate" where
  "k_outb port v s = s\<lparr>port_log := (port, v) # port_log s\<rparr>"

text \<open>The walk of \<^verbatim>\<open>task_wake_up_sleepers\<close>: the next entry is read before the current one is woken.\<close>

fun wake_sleepers_loop :: "u32 list \<Rightarrow> kstate \<Rightarrow> kstate kres" where
  "wake_sleepers_loop [] s = Inr s"
| "wake_sleepers_loop (a # as) s = with_task a s (\<lambda>t.
     if tick_to_wake t \<le> global_ticks s then kbind (wq_finish a s) (wake_sleepers_loop as) else wake_sleepers_loop as s)"

definition task_wake_up_sleepers :: "kstate \<Rightarrow> kstate kres" where
  "task_wake_up_sleepers s = wake_sleepers_loop (sleep_wq s) s"

definition timer_get_global_ticks :: "kstate \<Rightarrow> u32" where "timer_get_global_ticks s = global_ticks s"

definition timer_set_cycle :: "u32 \<Rightarrow> kstate \<Rightarrow> kstate" where
  "timer_set_cycle hz s =
     (let divisor = PIT_BASE_FREQUENCY div hz in
      k_outb 0x40 (ucast (drop_bit 8 divisor)) (k_outb 0x40 (ucast (divisor AND 0xFF)) (k_outb 0x43 0x36 s)))"

text \<open>\<^verbatim>\<open>timer_handle\<close>: the result tells whether the CPU was given to another stack.\<close>

definition timer_handle :: "kstate \<Rightarrow> (bool \<times> kstate) kres" where
  "timer_handle s =
     kbind (task_wake_up_sleepers (s\<lparr>global_ticks := global_ticks s + 1\<rparr>)) (\<lambda>s.
     let current = current_task s in
     if current \<noteq> idle_task s then
       with_task current s (\<lambda>t.
         let q = quantum_remaining t - 1; s = upd_task current (\<lambda>t. t\<lparr>quantum_remaining := q\<rparr>) s in
         if 0 < q then Inr (False, s) else schedule In_timer s)
     else schedule In_timer s)"

text \<open>\<^verbatim>\<open>timer_ksleep\<close> up to its call of \<^verbatim>\<open>schedule\<close>, and the rest of it for the task that has slept.\<close>

definition timer_ksleep_end :: "u32 \<Rightarrow> kstate \<Rightarrow> kstate" where
  "timer_ksleep_end cur s = upd_task cur (\<lambda>t. t\<lparr>tick_to_wake := 0\<rparr>) s"

definition timer_ksleep :: "u32 \<Rightarrow> kstate \<Rightarrow> (bool \<times> kstate) kres" where
  "timer_ksleep seconds s =
     (let cur = current_task s;
          s = upd_task cur (\<lambda>t. t\<lparr>tick_to_wake := global_ticks s + SECONDS_TO_TICKS seconds\<rparr>) s in
      kbind (wq_prepare Sleep_wq cur s) (\<lambda>s.
      kbind (schedule In_sleep s) (\<lambda>(switched, s).
      Inr (switched, if switched then s else timer_ksleep_end cur s))))"

section \<open>Locks\<close>

definition lock_irq :: "kstate \<Rightarrow> kstate" where "lock_irq s = s\<lparr>irq_on := False\<rparr>"
definition unlock_irq :: "kstate \<Rightarrow> kstate" where "unlock_irq s = s\<lparr>irq_on := True\<rparr>"

text \<open>A \<^verbatim>\<open>preempt_lock\<close> is a byte; the lock operations return its new value.\<close>

definition lock_preempt :: "u8 \<Rightarrow> kstate \<Rightarrow> u8 \<times> kstate" where
  "lock_preempt l s = (let s = lock_irq s in (1, s\<lparr>preempt_count := preempt_count s + 1\<rparr>))"

definition unlock_preempt :: "u8 \<Rightarrow> kstate \<Rightarrow> u8 \<times> kstate" where
  "unlock_preempt l s =
     (let s = (if preempt_count s \<noteq> 0 then s\<lparr>preempt_count := preempt_count s - 1\<rparr> else s) in
      (0, if preempt_count s = 0
          then unlock_irq (upd_task (current_task s) (\<lambda>t. if need_resched t then t\<lparr>need_resched := False\<rparr> else t) s)
          else s))"

section \<open>Signal sets\<close>

definition SIGKILL :: u32 where "SIGKILL = 9"
definition SIGSTOP :: u32 where "SIGSTOP = 19"
definition SIG_Sentinel :: u32 where "SIG_Sentinel = 32"

text \<open>The signals of \<^verbatim>\<open>SIG_IGN_MASK\<close>: STKFLT, CHLD, CONT, STOP, TSTP, TTIN, TTOU, URG, WINCH, POLL and PWR.\<close>

definition SIG_IGN_MASK :: u32 where
  "SIG_IGN_MASK = fold (\<lambda>i m. m OR push_bit i 1) [17, 18, 19, 20, 21, 22, 23, 28, 29, 30, 16] 0"

definition signal_is_valid :: "u32 \<Rightarrow> bool" where
  "signal_is_valid sig \<longleftrightarrow> 0 < sig \<and> sig < SIG_Sentinel"

definition signal_check_perm :: "u32 \<Rightarrow> kstate \<Rightarrow> bool kres" where
  "signal_check_perm target s =
     (let cur = current_task s in
      if cur = 0 \<or> target = 0 then Inr False
      else with_task cur s (\<lambda>c. if uid c = 0 then Inr True else with_task target s (\<lambda>t. Inr (uid c = uid t))))"

definition signal_send :: "u32 \<Rightarrow> u32 \<Rightarrow> kstate \<Rightarrow> kstate kres" where
  "signal_send sig dst s =
     (if \<not> (dst \<noteq> 0 \<and> 0 < sig \<and> sig < SIG_Sentinel) then Inr s
      else with_task dst s (\<lambda>_.
        wq_signal_wake_up dst (upd_task dst (\<lambda>t. t\<lparr>signals_map := signals_map t OR push_bit (unat sig) 1\<rparr>) s)))"

definition signal_is_set :: "u32 \<Rightarrow> u32 \<Rightarrow> kstate \<Rightarrow> bool kres" where
  "signal_is_set sig dst s =
     (if dst \<noteq> 0 \<and> sig < SIG_Sentinel then with_task dst s (\<lambda>t. Inr (drop_bit (unat sig) (signals_map t) AND 1 \<noteq> 0))
      else Inr False)"

definition signal_reset :: "u32 \<Rightarrow> kstate \<Rightarrow> kstate kres" where
  "signal_reset dst s = (if dst \<noteq> 0 then with_task dst s (\<lambda>_. Inr (upd_task dst (\<lambda>t. t\<lparr>signals_map := 0\<rparr>) s)) else Inr s)"

definition signal_dequeue :: "u32 \<Rightarrow> u32 \<Rightarrow> kstate \<Rightarrow> kstate kres" where
  "signal_dequeue sig dst s =
     (if dst \<noteq> 0 \<and> 0 < sig \<and> sig < SIG_Sentinel
      then with_task dst s (\<lambda>_. Inr (upd_task dst (\<lambda>t. t\<lparr>signals_map := signals_map t AND NOT (push_bit (unat sig) 1)\<rparr>) s))
      else Inr s)"

fun dequeue_yield_loop :: "nat list \<Rightarrow> u32 \<Rightarrow> kstate \<Rightarrow> (u32 \<times> kstate) kres" where
  "dequeue_yield_loop [] a s = Inr (0, s)"
| "dequeue_yield_loop (i # is) a s = with_task a s (\<lambda>t.
     if drop_bit i (signals_map t) AND 1 = 0 then dequeue_yield_loop is a s
     else kbind (signal_dequeue (of_nat i) a s) (\<lambda>s. Inr (of_nat i, s)))"

definition signal_dequeue_yield :: "u32 \<Rightarrow> kstate \<Rightarrow> (u32 \<times> kstate) kres" where
  "signal_dequeue_yield a s = (if a = 0 then Inr (- ESRCH, s) else dequeue_yield_loop [1..<32] a s)"

definition default_handlers :: "image \<Rightarrow> nat \<Rightarrow> u32" where
  "default_handlers im i = (if drop_bit i SIG_IGN_MASK AND 1 \<noteq> 0 then signal_ignore_handler im else signal_default_handler im)"

text \<open>\<^verbatim>\<open>signal_init_default_handlers\<close> sets the 32 entries of the array one by one.\<close>

definition signal_init_default_handlers :: "u32 \<Rightarrow> kstate \<Rightarrow> kstate" where
  "signal_init_default_handlers a s = fold (\<lambda>i. upd_task a (\<lambda>t. t\<lparr>sig_handlers := (sig_handlers t)(i := default_handlers (img s) i)\<rparr>)) [0..<32] s"

definition kill_pid :: "u32 \<Rightarrow> u32 \<Rightarrow> kstate \<Rightarrow> (u32 \<times> kstate) kres" where
  "kill_pid p sig s =
     kbind (task_find_by_pid p s) (\<lambda>task_target.
     if task_target = 0 then Inr (- ESRCH, s)
     else if \<not> signal_is_valid sig then Inr (- EINVAL, s)
     else kbind (signal_check_perm task_target s) (\<lambda>ok.
       if \<not> ok then Inr (- EPERM, s)
       else kbind (signal_send sig task_target s) (\<lambda>s. Inr (0, s))))"

end
