(* ===== verification/Userspace.thy ===== *)
theory Userspace
  imports Task
begin

text \<open>
  \<^verbatim>\<open>include/kernel/io_stream.h\<close>, \<^verbatim>\<open>src/proc/section.c\<close> and \<^verbatim>\<open>src/proc/userspace.c\<close>: the sections of a program, the stream
  that reads their bytes, and the address space that is built from them. A page that is filled through the
  window at \<^verbatim>\<open>VMM_KMAP_VADDR\<close> is the page the new page directory maps, so that the bytes
  written to the window are those of the user address (\<open>sync_window\<close>).
\<close>

section \<open>Kernel memory\<close>

text \<open>The memory as seen in a page directory, and storing it back.\<close>

definition view :: "kstate \<Rightarrow> u32 \<Rightarrow> bmem" where
  "view s d = (\<lambda>a. if KERNEL_VADDR_BASE \<le> a then kmem s a else umem s d a)"

definition put_view :: "u32 \<Rightarrow> bmem \<Rightarrow> kstate \<Rightarrow> kstate" where
  "put_view d m s = s\<lparr>kmem := (\<lambda>a. if KERNEL_VADDR_BASE \<le> a then m a else kmem s a),
     umem := (umem s)(d := (\<lambda>a. if KERNEL_VADDR_BASE \<le> a then umem s d a else m a))\<rparr>"

definition lift_mm :: "(kmm \<Rightarrow> ('a \<times> kmm) kres) \<Rightarrow> kstate \<Rightarrow> ('a \<times> kstate) kres" where
  "lift_mm f s = kbind (f (kmm s)) (\<lambda>(r, k). Inr (r, s\<lparr>kmm := k\<rparr>))"

definition lift_mm' :: "(kmm \<Rightarrow> kmm kres) \<Rightarrow> kstate \<Rightarrow> kstate kres" where
  "lift_mm' f s = kbind (f (kmm s)) (\<lambda>k. Inr (s\<lparr>kmm := k\<rparr>))"

definition k_alloc_pages :: "u32 \<Rightarrow> zone_type \<Rightarrow> kstate \<Rightarrow> (u32 \<times> kstate) kres" where
  "k_alloc_pages sz z = lift_mm (mm_alloc_pages sz z)"

definition k_free_block :: "u32 \<Rightarrow> kstate \<Rightarrow> kstate kres" where
  "k_free_block p = lift_mm' (mm_free_block p)"

definition k_kfree :: "u32 \<Rightarrow> kstate \<Rightarrow> kstate kres" where
  "k_kfree p = lift_mm' (mm_kfree p)"

text \<open>\<^verbatim>\<open>kmalloc\<close> with \<^verbatim>\<open>__GFP_ZERO\<close>.\<close>

definition k_zalloc :: "u32 \<Rightarrow> kstate \<Rightarrow> (u32 \<times> kstate) kres" where
  "k_zalloc sz s = kbind (lift_mm (mm_kmalloc sz (GFP_KERNEL OR GFP_ZERO_bit)) s) (\<lambda>(p, s).
     Inr (p, if p = 0 then s else s\<lparr>kmem := ft_bzero p sz (kmem s)\<rparr>))"

definition k_vmm :: "(vmm_state \<Rightarrow> vmm_state kres) \<Rightarrow> kstate \<Rightarrow> kstate kres" where
  "k_vmm f = lift_mm' (\<lambda>k. kbind (f (vmm_of k)) (\<lambda>v. Inr (put_vmm v k)))"

definition k_map_page :: "u32 \<Rightarrow> u32 \<Rightarrow> u32 \<Rightarrow> u32 \<Rightarrow> kstate \<Rightarrow> (bool \<times> kstate) kres" where
  "k_map_page pd v p fl = lift_mm (mm_map_page pd v p fl)"

definition k_kmap :: "u32 \<Rightarrow> kstate \<Rightarrow> (u32 \<times> kstate) kres" where
  "k_kmap p = lift_mm (\<lambda>k. kbind (vmm_kmap p (vmm_of k)) (\<lambda>(w, v). Inr (w, put_vmm v k)))"

definition k_kunmap :: "kstate \<Rightarrow> kstate kres" where
  "k_kunmap = k_vmm vmm_kunmap"

definition k_destroy_user_pd :: "u32 \<Rightarrow> kstate \<Rightarrow> kstate kres" where
  "k_destroy_user_pd pd = k_vmm (vmm_destroy_user_pd pd)"

definition k_reload_cr3 :: "u32 \<Rightarrow> kstate \<Rightarrow> kstate" where
  "k_reload_cr3 pd s = s\<lparr>kmm := (kmm s)\<lparr>mm_vmm := paging_reload_cr3 pd (mm_vmm (kmm s))\<rparr>\<rparr>"

definition k_kernel_directory :: "kstate \<Rightarrow> u32" where
  "k_kernel_directory s = vmm_get_kernel_directory (mm_vmm (kmm s))"

text \<open>The page at \<open>v\<close> in the directory \<open>d\<close> is the one the window shows.\<close>

definition sync_window :: "u32 \<Rightarrow> u32 \<Rightarrow> kstate \<Rightarrow> kstate" where
  "sync_window d v s = s\<lparr>umem := (umem s)(d := (\<lambda>a. if a - v < PAGE_SIZE then kmem s (VMM_KMAP_VADDR + (a - v)) else umem s d a))\<rparr>"

section \<open>Sections\<close>

definition KERNEL_START :: u32 where "KERNEL_START = KERNEL_VADDR_BASE"
definition USER_TRAMPOLINE_VADDR :: u32 where "USER_TRAMPOLINE_VADDR = KERNEL_START - PAGE_SIZE"
definition DEFAULT_STACK_SIZE :: u32 where "DEFAULT_STACK_SIZE = PAGE_SIZE * 2"
definition USER_STACK_START :: u32 where "USER_STACK_START = USER_TRAMPOLINE_VADDR - PAGE_SIZE"
definition USER_TEXT_START :: u32 where "USER_TEXT_START = 0x08048000"
definition USER_SECTION_RO :: u32 where "USER_SECTION_RO = PTE_PRESENT_BIT OR PTE_US_BIT"
definition USER_SECTION_RW :: u32 where "USER_SECTION_RW = PTE_PRESENT_BIT OR PTE_US_BIT OR PTE_RW_BIT"

definition get_next_section_start :: "u32 \<Rightarrow> u32 \<Rightarrow> u32" where
  "get_next_section_start start sz = ALIGN (start + sz) PAGE_SIZE"

definition get_next_section_start_after_page_guard :: "u32 \<Rightarrow> u32 \<Rightarrow> u32" where
  "get_next_section_start_after_page_guard start sz = ALIGN (start + (sz + PAGE_SIZE)) PAGE_SIZE"

definition get_prev_section_start :: "u32 \<Rightarrow> u32 \<Rightarrow> u32" where
  "get_prev_section_start end sz = ALIGN_DOWN (end - sz) PAGE_SIZE"

definition zero_section :: section_rec where
  "zero_section = \<lparr>sec_v_addr = 0, sec_p_addr = 0, data_start = 0, data_size = 0, mapping_size = 0, sec_flags = 0\<rparr>"

text \<open>\<^verbatim>\<open>section_init_from_buffer\<close>: the section that is filled in, \<open>None\<close> when the function returns false.\<close>

definition section_init_from_buffer :: "u32 \<Rightarrow> u32 \<Rightarrow> u32 \<Rightarrow> u32 \<Rightarrow> section_rec option" where
  "section_init_from_buffer v_addr start sz fl =
     (if start = 0 \<or> sz = 0 then None
      else Some \<lparr>sec_v_addr = v_addr, sec_p_addr = 0, data_start = start, data_size = sz,
             mapping_size = ALIGN sz PAGE_SIZE, sec_flags = fl\<rparr>)"

text \<open>A stream over a section: \<^verbatim>\<open>struct io_stream\<close> with \<open>fake_read\<close> as its read operation and no other.\<close>

record io_stream =
  st_addr :: u32
  st_ctx :: section_rec
  st_size :: u32
  st_pos :: u32

definition io_stream_get_new :: "section_rec \<Rightarrow> u32 \<Rightarrow> u32 \<Rightarrow> kstate \<Rightarrow> (io_stream option \<times> kstate) kres" where
  "io_stream_get_new ctx sz pos s = kbind (k_zalloc (16 + 20) s) (\<lambda>(ret, s).
     Inr (if ret = 0 then None else Some \<lparr>st_addr = ret, st_ctx = ctx, st_size = sz, st_pos = pos\<rparr>, s))"

definition fake_read :: "io_stream \<Rightarrow> u32 \<Rightarrow> u32 \<Rightarrow> bmem \<Rightarrow> u32 \<times> io_stream \<times> bmem" where
  "fake_read stream dest sz m =
     (let ctx = st_ctx stream in
      if data_start ctx = 0 \<or> dest = 0 then (- 1, stream, m)
      else if data_size ctx \<le> st_pos stream then (0, stream, ft_bzero dest sz m)
      else let available = data_size ctx - st_pos stream;
               bytes_read = (if sz < available then sz else available);
               m = ft_memcpy dest (data_start ctx + st_pos stream) bytes_read m;
               m = (if bytes_read < sz then ft_bzero (dest + bytes_read) (sz - bytes_read) m else m) in
        (bytes_read, stream\<lparr>st_pos := st_pos stream + bytes_read\<rparr>, m))"

definition io_read :: "io_stream option \<Rightarrow> u32 \<Rightarrow> u32 \<Rightarrow> bmem \<Rightarrow> u32 \<times> io_stream option \<times> bmem" where
  "io_read stream d n m = (case stream of None \<Rightarrow> (- 1, None, m)
     | Some st \<Rightarrow> (case fake_read st d n m of (r, st, m) \<Rightarrow> (r, Some st, m)))"

definition io_close :: "io_stream option \<Rightarrow> kstate \<Rightarrow> kstate kres" where
  "io_close stream s = (case stream of None \<Rightarrow> Inr s | Some st \<Rightarrow> k_kfree (st_addr st) s)"

definition section_create_reader :: "section_rec \<Rightarrow> kstate \<Rightarrow> (io_stream option \<times> kstate) kres" where
  "section_create_reader sec s =
     (if data_start sec = 0 \<or> data_size sec = 0 then Inr (None, s) else io_stream_get_new sec (data_size sec) 0 s)"

section \<open>Address spaces\<close>

definition init_heap_section :: "section_rec \<Rightarrow> section_rec" where
  "init_heap_section prev = zero_section\<lparr>sec_v_addr := get_next_section_start_after_page_guard (sec_v_addr prev) (mapping_size prev),
     data_start := 0, data_size := 0, mapping_size := 0, sec_flags := USER_SECTION_RW\<rparr>"

definition init_stack_section :: section_rec where
  "init_stack_section = zero_section\<lparr>sec_v_addr := get_prev_section_start USER_STACK_START DEFAULT_STACK_SIZE,
     data_start := 0, data_size := 0, mapping_size := ALIGN DEFAULT_STACK_SIZE PAGE_SIZE, sec_flags := USER_SECTION_RW\<rparr>"

definition userspace_map_kernel :: "u32 \<Rightarrow> kstate \<Rightarrow> (bool \<times> kstate) kres" where
  "userspace_map_kernel uspace_pd_phy s =
     kbind (PHYS_TO_VIRT_LINEAR uspace_pd_phy) (\<lambda>uspace_pd_virt.
     kbind (k_vmm (\<lambda>v. Inr (bzero_page uspace_pd_virt v)) s) (\<lambda>s.
     let kspace_pd_phy = k_kernel_directory s in
     if kspace_pd_phy = 0 then Inr (False, s)
     else kbind (PHYS_TO_VIRT_LINEAR kspace_pd_phy) (\<lambda>kspace_pd_virt.
       kbind (k_vmm (\<lambda>v. Inr (fold (\<lambda>i v. sto uspace_pd_virt (of_nat i) (ld v kspace_pd_virt (of_nat i)) v) [768..<768 + 224] v)) s) (\<lambda>s.
       Inr (True, s)))))"

text \<open>The loop over the pages of a section; it returns the stream and whether the window is mapped.\<close>

fun map_section_loop :: "u32 \<Rightarrow> section_rec \<Rightarrow> u32 \<Rightarrow> nat \<Rightarrow> nat \<Rightarrow> io_stream option \<Rightarrow> bool \<Rightarrow> kstate
    \<Rightarrow> (bool \<times> io_stream option \<times> bool \<times> kstate) kres" where
  "map_section_loop pd to_map pool i 0 stream window s = Inr (True, stream, window, s)"
| "map_section_loop pd to_map pool i (Suc n) stream window s =
     (let v_addr = sec_v_addr to_map + of_nat i * PAGE_SIZE; p_addr = pool + of_nat i * PAGE_SIZE in
      kbind (k_kmap p_addr s) (\<lambda>(kmap_window, s).
      if kmap_window = 0 then Inr (False, stream, False, s)
      else kbind (k_map_page pd v_addr p_addr (sec_flags to_map) s) (\<lambda>(ok, s).
        if \<not> ok then Inr (False, stream, True, s)
        else let m = ft_bzero kmap_window PAGE_SIZE (kmem s) in
          case stream of None \<Rightarrow> map_section_loop pd to_map pool (i + 1) n None True (sync_window pd v_addr (s\<lparr>kmem := m\<rparr>))
          | Some st \<Rightarrow> (case io_read (Some st) kmap_window PAGE_SIZE m of (r, stream, m) \<Rightarrow>
              if r <s 0 then Inr (False, stream, True, sync_window pd v_addr (s\<lparr>kmem := m\<rparr>))
              else map_section_loop pd to_map pool (i + 1) n stream True (sync_window pd v_addr (s\<lparr>kmem := m\<rparr>))))))"

definition map_section :: "u32 \<Rightarrow> section_rec \<Rightarrow> kstate \<Rightarrow> (bool \<times> section_rec \<times> kstate) kres" where
  "map_section uspace_pd_phy to_map s =
     (if mapping_size to_map = 0 then Inr (True, to_map, s)
      else let pt_count = mapping_size to_map div PAGE_SIZE;
               has_data = (data_start to_map \<noteq> 0 \<and> 0 < data_size to_map);
               bad = (\<lambda>pool stream window s.
                 kbind (k_free_block pool s) (\<lambda>s. kbind (io_close stream s) (\<lambda>s.
                 kbind (if window then k_kunmap s else Inr s) (\<lambda>s. Inr (False, to_map, s))))) in
        kbind (k_alloc_pages (mapping_size to_map) HIGHMEM_ZONE s) (\<lambda>(p_pool_addr, s).
        if p_pool_addr = 0 then Inr (False, to_map, s)
        else kbind (if has_data then section_create_reader to_map s else Inr (None, s)) (\<lambda>(stream, s).
          if has_data \<and> stream = None then bad p_pool_addr None False s
          else kbind (map_section_loop uspace_pd_phy to_map p_pool_addr 0 (unat pt_count) stream False s) (\<lambda>(ok, stream, window, s).
            if ok then kbind (io_close stream s) (\<lambda>s. kbind (k_kunmap s) (\<lambda>s.
              Inr (True, to_map\<lparr>sec_p_addr := p_pool_addr\<rparr>, s)))
            else bad p_pool_addr stream window s))))"

text \<open>\<^verbatim>\<open>map_section\<close> of one of the sections of a task.\<close>

definition map_task_section :: "u32 \<Rightarrow> (task \<Rightarrow> section_rec) \<Rightarrow> (section_rec \<Rightarrow> task \<Rightarrow> task) \<Rightarrow> u32 \<Rightarrow> kstate \<Rightarrow> (bool \<times> kstate) kres" where
  "map_task_section pd get put a s = with_task a s (\<lambda>t.
     kbind (map_section pd (get t) s) (\<lambda>(ok, sec, s). Inr (ok, upd_task a (put sec) s)))"

text \<open>The sections of a new program, before they are mapped; \<open>None\<close> when they are refused.\<close>

definition layout_text :: "task \<Rightarrow> task option" where
  "layout_text t =
     (let text = text_sec t in
      if data_size text = 0 \<or> KERNEL_START \<le> sec_v_addr text then None
      else Some (t\<lparr>text_sec := text\<lparr>
        sec_v_addr := (if sec_v_addr text = 0 then USER_TEXT_START
                       else if \<not> IS_ALIGNED (sec_v_addr text) PAGE_SIZE then ALIGN_DOWN (sec_v_addr text) PAGE_SIZE
                       else sec_v_addr text),
        sec_flags := USER_SECTION_RO, mapping_size := ALIGN (data_size text) PAGE_SIZE\<rparr>\<rparr>))"

definition layout_data :: "task \<Rightarrow> task option" where
  "layout_data t =
     (let text = text_sec t; dat = data_sec t in
      if 0 < data_size dat then
        if sec_v_addr dat \<noteq> 0 \<and> KERNEL_START \<le> sec_v_addr dat then None
        else Some (t\<lparr>data_sec := dat\<lparr>
          sec_v_addr := (if sec_v_addr dat = 0 then get_next_section_start (sec_v_addr text) (mapping_size text) else sec_v_addr dat),
          mapping_size := ALIGN (data_size dat) PAGE_SIZE, sec_flags := USER_SECTION_RW\<rparr>\<rparr>)
      else Some t)"

definition layout_rest :: "task \<Rightarrow> task" where
  "layout_rest t =
     (let last_sec = (if 0 < data_size (data_sec t) then data_sec t else text_sec t) in
      t\<lparr>heap_sec := init_heap_section last_sec, stack_sec := init_stack_section\<rparr>)"

fun map_all :: "(kstate \<Rightarrow> (bool \<times> kstate) kres) list \<Rightarrow> kstate \<Rightarrow> (bool \<times> kstate) kres" where
  "map_all [] s = Inr (True, s)"
| "map_all (f # fs) s = kbind (f s) (\<lambda>(ok, s). if ok then map_all fs s else Inr (False, s))"

fun free_blocks :: "u32 list \<Rightarrow> kstate \<Rightarrow> kstate kres" where
  "free_blocks [] s = Inr s"
| "free_blocks (p # ps) s = kbind (if p \<noteq> 0 then k_free_block p s else Inr s) (free_blocks ps)"

definition userspace_create_new :: "u32 \<Rightarrow> kstate \<Rightarrow> (bool \<times> kstate) kres" where
  "userspace_create_new a s = with_task a s (\<lambda>t.
     case layout_text t of None \<Rightarrow> Inr (False, s)
     | Some t \<Rightarrow> let s = upd_task a (\<lambda>_. t) s in
        (case layout_data t of None \<Rightarrow> Inr (False, s)
         | Some t \<Rightarrow> let s = upd_task a (\<lambda>_. layout_rest t) s in
            kbind (k_alloc_pages PAGE_SIZE LOWMEM_ZONE s) (\<lambda>(uspace_pd_phy, s).
            if uspace_pd_phy = 0 then Inr (False, s)
            else kbind (map_all
                ([userspace_map_kernel uspace_pd_phy,
                  map_task_section uspace_pd_phy text_sec (\<lambda>x t. t\<lparr>text_sec := x\<rparr>) a,
                  map_task_section uspace_pd_phy stack_sec (\<lambda>x t. t\<lparr>stack_sec := x\<rparr>) a] @
                 (if 0 < data_size (data_sec t) then [map_task_section uspace_pd_phy data_sec (\<lambda>x t. t\<lparr>data_sec := x\<rparr>) a] else []) @
                 [map_task_section uspace_pd_phy sig_trampoline (\<lambda>x t. t\<lparr>sig_trampoline := x\<rparr>) a]) s) (\<lambda>(ok, s).
              if ok then Inr (True, upd_task a (\<lambda>t. t\<lparr>task_cr3 := uspace_pd_phy\<rparr>) s)
              else with_task a s (\<lambda>t.
                kbind (free_blocks [sec_p_addr (text_sec t), sec_p_addr (data_sec t), sec_p_addr (stack_sec t), sec_p_addr (sig_trampoline t)] s)
                  (\<lambda>s. kbind (k_destroy_user_pd uspace_pd_phy s) (\<lambda>s. Inr (False, s))))))))"

end
