(* ===== verification/Process.thy ===== *)
theory Process
  imports Userspace
begin

text \<open>
  The life of a task: \<^verbatim>\<open>task_get_new\<close>, \<^verbatim>\<open>task_clone\<close>, \<^verbatim>\<open>task_exit_cleanup\<close>, \<^verbatim>\<open>task_release\<close>, \<^verbatim>\<open>task_craft_context\<close> and the
  start-up of \<^verbatim>\<open>src/proc/task.c\<close>, the delivery of signals of \<^verbatim>\<open>src/proc/signal.c\<close> and the system calls of
  \<^verbatim>\<open>src/syscalls\<close>. A \<^verbatim>\<open>struct task\<close> at an address that already holds a live one has no
  meaning in this model and is a fault.
\<close>

section \<open>Trap frames\<close>

text \<open>The fields of \<^verbatim>\<open>struct trap_frame\<close> and their offsets; the frame is at the top of the kernel stack.\<close>

datatype tf_field = Tf_gs | Tf_fs | Tf_es | Tf_ds | Tf_edi | Tf_esi | Tf_ebp | Tf_esp | Tf_ebx | Tf_edx | Tf_ecx | Tf_eax
  | Tf_int_no | Tf_err_code | Tf_eip | Tf_cs | Tf_eflags | Tf_user_esp | Tf_user_ss

fun tf_off :: "tf_field \<Rightarrow> u32" where
  "tf_off Tf_gs = 0" | "tf_off Tf_fs = 4" | "tf_off Tf_es = 8" | "tf_off Tf_ds = 12"
| "tf_off Tf_edi = 16" | "tf_off Tf_esi = 20" | "tf_off Tf_ebp = 24" | "tf_off Tf_esp = 28"
| "tf_off Tf_ebx = 32" | "tf_off Tf_edx = 36" | "tf_off Tf_ecx = 40" | "tf_off Tf_eax = 44"
| "tf_off Tf_int_no = 48" | "tf_off Tf_err_code = 52" | "tf_off Tf_eip = 56" | "tf_off Tf_cs = 60"
| "tf_off Tf_eflags = 64" | "tf_off Tf_user_esp = 68" | "tf_off Tf_user_ss = 72"

definition sizeof_trap_frame :: u32 where "sizeof_trap_frame = 76"

definition tf_base :: "task \<Rightarrow> u32" where
  "tf_base t = kernel_stack_base t - sizeof_trap_frame"

definition get_tf :: "task \<Rightarrow> tf_field \<Rightarrow> kstate \<Rightarrow> u32" where
  "get_tf t f s = rd32 (kmem s) (tf_base t + tf_off f)"

definition set_tf :: "task \<Rightarrow> tf_field \<Rightarrow> u32 \<Rightarrow> kstate \<Rightarrow> kstate" where
  "set_tf t f v s = s\<lparr>kmem := wr32 (tf_base t + tf_off f) v (kmem s)\<rparr>"

definition USER_CS :: u32 where "USER_CS = 0x1B"
definition USER_DS :: u32 where "USER_DS = 0x23"
definition EFLAGS_USER_DEFAULT :: u32 where "EFLAGS_USER_DEFAULT = 0x202"

text \<open>\<open>push_words\<close>: \<^verbatim>\<open>*(--kstack) = v\<close> for each of the values.\<close>

fun push_words :: "u32 list \<Rightarrow> u32 \<Rightarrow> bmem \<Rightarrow> u32 \<times> bmem" where
  "push_words [] sp m = (sp, m)"
| "push_words (v # vs) sp m = push_words vs (sp - 4) (wr32 (sp - 4) v m)"

definition task_craft_context :: "u32 \<Rightarrow> bool \<Rightarrow> u32 \<Rightarrow> kstate \<Rightarrow> kstate kres" where
  "task_craft_context a userspace entry s = with_task a s (\<lambda>t.
     let s = (if userspace then
                set_tf t Tf_gs USER_DS (set_tf t Tf_fs USER_DS (set_tf t Tf_es USER_DS (set_tf t Tf_ds USER_DS
                (set_tf t Tf_eip entry (set_tf t Tf_cs USER_CS (set_tf t Tf_eflags EFLAGS_USER_DEFAULT
                (set_tf t Tf_user_esp (sec_v_addr (stack_sec t) + mapping_size (stack_sec t)) (set_tf t Tf_user_ss USER_DS
                (s\<lparr>kmem := ft_bzero (tf_base t) sizeof_trap_frame (kmem s)\<rparr>)))))))))
              else s);
         kstack = (if userspace then tf_base t else kernel_stack_base t);
         (esp, m) = push_words [if userspace then interrupt_exit (img s) else entry, 0, 0, 0, 0] kstack (kmem s) in
     Inr (upd_task a (\<lambda>t. t\<lparr>task_esp := esp, resume_at := At_entry\<rparr>) (s\<lparr>kmem := m\<rparr>)))"

section \<open>Creation\<close>

definition sizeof_task :: u32 where "sizeof_task = 288"
definition sizeof_section :: u32 where "sizeof_section = 24"

text \<open>The zeroed memory of a new task.\<close>

definition zero_task :: task where
  "zero_task = \<lparr>pid = 0, uid = 0, gid = 0, real_parent = 0, parent = 0, children = [], siblings = 0, task_esp = 0, task_cr3 = 0,
     kernel_stack_pointer = 0, kernel_stack_base = 0, text_sec = zero_section, data_sec = zero_section, stack_sec = zero_section,
     heap_sec = zero_section, vma_areas = [], signals_map = 0, sig_trampoline = zero_section, sig_handlers = (\<lambda>_. 0), task_name = [],
     name_in_heap = False, ring = 0, need_resched = False, exit_code = 0, task_state = TASK_NEW,
     wq_data = wq_entry_init TASK_INTERRUPTIBLE, child_wq = [], tick_to_wake = 0, quantum_remaining = 0, resume_at = At_entry\<rparr>"

definition new_task :: "u32 \<Rightarrow> task \<Rightarrow> kstate \<Rightarrow> kstate kres" where
  "new_task a t s = (if tasks s a \<noteq> None then Inl OutOfBounds else Inr (s\<lparr>tasks := (tasks s)(a \<mapsto> t)\<rparr>))"

definition drop_task :: "u32 \<Rightarrow> kstate \<Rightarrow> kstate" where
  "drop_task a s = s\<lparr>tasks := (tasks s)(a := None)\<rparr>"

definition pid_alloc :: "kstate \<Rightarrow> (u32 \<times> kstate) kres" where
  "pid_alloc s = kbind (id_manager_alloc (pid_manager s)) (\<lambda>(p, m). Inr (p, s\<lparr>pid_manager := m\<rparr>))"

definition pid_free :: "u32 \<Rightarrow> kstate \<Rightarrow> kstate kres" where
  "pid_free p s = kbind (id_manager_free (pid_manager s) p) (\<lambda>m. Inr (s\<lparr>pid_manager := m\<rparr>))"

text \<open>The labels \<^verbatim>\<open>free_kstack\<close>, \<^verbatim>\<open>free_pid\<close> and \<^verbatim>\<open>free_task\<close>.\<close>

definition fail_task :: "u32 \<Rightarrow> kstate \<Rightarrow> (u32 \<times> kstate) kres" where
  "fail_task a s = kbind (k_kfree a (drop_task a s)) (\<lambda>s. Inr (0, s))"

definition fail_pid :: "u32 \<Rightarrow> u32 \<Rightarrow> kstate \<Rightarrow> (u32 \<times> kstate) kres" where
  "fail_pid p a s = kbind (pid_free p s) (fail_task a)"

definition fail_kstack :: "u32 \<Rightarrow> u32 \<Rightarrow> u32 \<Rightarrow> kstate \<Rightarrow> (u32 \<times> kstate) kres" where
  "fail_kstack kstack p a s = kbind (k_kfree kstack s) (fail_pid p a)"

text \<open>The last part of \<^verbatim>\<open>task_get_new\<close>, once the task has its address space.\<close>

definition task_finish_new :: "u8 list \<Rightarrow> u32 \<Rightarrow> u32 \<Rightarrow> kstate \<Rightarrow> (u32 \<times> kstate) kres" where
  "task_finish_new nm rng a s =
     (let s = upd_task a (\<lambda>t. t\<lparr>task_state := TASK_NEW, task_name := nm, name_in_heap := False,
                wq_data := wq_entry_init TASK_INTERRUPTIBLE, child_wq := []\<rparr>) s;
          s = s\<lparr>info_queue := info_queue s @ [a]\<rparr>;
          s = upd_task a (\<lambda>t. t\<lparr>vma_areas := []\<rparr>) (signal_init_default_handlers a s) in
      if rng = 3 then with_task a s (\<lambda>t.
        kbind (vma_init_area (sec_v_addr (heap_sec t)) (sec_v_addr (stack_sec t) - PAGE_SIZE) [] (kmm s)) (\<lambda>(areas, k).
        Inr (a, upd_task a (\<lambda>t. t\<lparr>vma_areas := areas\<rparr>) (s\<lparr>kmm := k\<rparr>))))
      else Inr (a, s))"

definition task_get_new :: "u8 list option \<Rightarrow> u32 \<Rightarrow> section_rec option \<Rightarrow> section_rec option \<Rightarrow> kstate \<Rightarrow> (u32 \<times> kstate) kres" where
  "task_get_new name_ptr rng text dat s =
     (case name_ptr of None \<Rightarrow> Inr (0, s) | Some nm \<Rightarrow>
      let nm = take 16 nm in
      if pid_manager s = None then Inr (0, s)
      else kbind (k_zalloc (sizeof_task + sizeof_section * 5 + of_nat (length nm) + 1) s) (\<lambda>(new, s).
        if new = 0 then Inr (0, s)
        else kbind (new_task new (zero_task\<lparr>text_sec := (case text of None \<Rightarrow> zero_section | Some x \<Rightarrow> x),
                       data_sec := (case dat of None \<Rightarrow> zero_section | Some x \<Rightarrow> x)\<rparr>) s) (\<lambda>s.
          kbind (pid_alloc s) (\<lambda>(p, s).
          let s = upd_task new (\<lambda>t. t\<lparr>pid := p\<rparr>) s in
          if p = - 1 then fail_task new s
          else kbind (k_zalloc DEFAULT_STACK_SIZE s) (\<lambda>(kstack, s).
            if kstack = 0 then fail_pid p new s
            else let s = s\<lparr>kmem := wr32 kstack STACK_CANARY_MAGIC (kmem s)\<rparr>;
                     s = upd_task new (\<lambda>t. t\<lparr>kernel_stack_pointer := kstack, kernel_stack_base := kstack + DEFAULT_STACK_SIZE,
                           task_esp := kstack + DEFAULT_STACK_SIZE\<rparr>) s in
              (case section_init_from_buffer USER_TRAMPOLINE_VADDR (sig_trampoline_start (img s))
                      (sig_trampoline_end (img s) - sig_trampoline_start (img s)) USER_SECTION_RO of
                 None \<Rightarrow> fail_kstack kstack p new s
               | Some tramp \<Rightarrow>
                   let s = upd_task new (\<lambda>t. t\<lparr>sig_trampoline := tramp, ring := rng\<rparr>) s in
                   if rng = 3 then kbind (userspace_create_new new s) (\<lambda>(ok, s).
                     if ok then task_finish_new nm rng new s else fail_kstack kstack p new s)
                   else if rng = 0 then
                     task_finish_new nm rng new (upd_task new (\<lambda>t. t\<lparr>task_cr3 := k_kernel_directory s\<rparr>) s)
                   else Inl (Panic ''task_get_new'')))))))"

text \<open>
  The name of a task. In a task made by \<^verbatim>\<open>task_clone\<close> the pointers to the sections are in the order text, data, stack,
  trampoline, heap, and \<^verbatim>\<open>name\<close> is the address after the trampoline: that of the heap section, whose bytes the name overwrites.
\<close>

definition word_bytes :: "u32 \<Rightarrow> u8 list" where
  "word_bytes w = [ucast w, ucast (drop_bit 8 w), ucast (drop_bit 16 w), ucast (drop_bit 24 w)]"

definition section_bytes :: "section_rec \<Rightarrow> u8 list" where
  "section_bytes x = concat (map word_bytes [sec_v_addr x, sec_p_addr x, data_start x, data_size x, mapping_size x, sec_flags x])"

definition word_at :: "u8 list \<Rightarrow> nat \<Rightarrow> u32" where
  "word_at bs i = rd32 (\<lambda>a. bs ! unat a) (of_nat (4 * i))"

definition section_of_bytes :: "u8 list \<Rightarrow> section_rec" where
  "section_of_bytes bs = \<lparr>sec_v_addr = word_at bs 0, sec_p_addr = word_at bs 1, data_start = word_at bs 2,
     data_size = word_at bs 3, mapping_size = word_at bs 4, sec_flags = word_at bs 5\<rparr>"

definition name_of :: "task \<Rightarrow> u8 list" where
  "name_of t = (if name_in_heap t then takeWhile (\<lambda>c. c \<noteq> 0) (section_bytes (heap_sec t)) else takeWhile (\<lambda>c. c \<noteq> 0) (task_name t))"

definition write_name :: "u8 list \<Rightarrow> task \<Rightarrow> task" where
  "write_name nm t =
     (if name_in_heap t then t\<lparr>heap_sec := section_of_bytes (nm @ [0] @ drop (length nm + 1) (section_bytes (heap_sec t)))\<rparr>
      else t\<lparr>task_name := nm\<rparr>)"

definition task_clone :: "u32 \<Rightarrow> kstate \<Rightarrow> (u32 \<times> kstate) kres" where
  "task_clone a s = with_task a s (\<lambda>t.
     kbind (k_zalloc (sizeof_task + sizeof_section * 5 + of_nat (length (name_of t)) + 1) s) (\<lambda>(new, s).
     if new = 0 then Inr (0, s)
     else kbind (new_task new (write_name (name_of t) (t\<lparr>children := [], siblings := 0, vma_areas := [],
              wq_data := wq_entry_init TASK_INTERRUPTIBLE, child_wq := [], kernel_stack_pointer := 0, kernel_stack_base := 0,
              name_in_heap := True\<rparr>)) s) (\<lambda>s.
       kbind (pid_alloc s) (\<lambda>(p, s).
       let s = upd_task new (\<lambda>t. t\<lparr>pid := p\<rparr>) s in
       if p <s 0 then fail_task new s
       else kbind (k_alloc_pages PAGE_SIZE LOWMEM_ZONE s) (\<lambda>(pd, s).
         let s = upd_task new (\<lambda>t. t\<lparr>task_cr3 := pd\<rparr>) s in
         if pd = 0 then fail_pid p new s
         else kbind (PHYS_TO_VIRT_LINEAR pd) (\<lambda>virt.
           kbind (k_vmm (\<lambda>v. Inr (bzero_page virt v)) s) (\<lambda>s. Inr (new, s))))))))"

section \<open>End\<close>

text \<open>
  \<^verbatim>\<open>ft_bzero(task->text_sec, sizeof(struct section) * 4)\<close> clears the first four sections in memory: all but the trampoline in a
  task of \<^verbatim>\<open>task_get_new\<close>, all but the heap in a clone.
\<close>

definition task_exit_cleanup :: "u32 \<Rightarrow> kstate \<Rightarrow> kstate kres" where
  "task_exit_cleanup a s = with_task a s (\<lambda>t.
     kbind (free_blocks [sec_p_addr (task_text t), sec_p_addr (task_data t), sec_p_addr (task_stack t), sec_p_addr (sig_trampoline t)] s) (\<lambda>s.
     kbind (if 0 < ring t then lift_mm' (vma_destroy_areas (task_cr3 t) (vma_areas t)) s else Inr s) (\<lambda>s.
     let s = upd_task a (\<lambda>t. (if 0 < ring t then t\<lparr>vma_areas := []\<rparr> else t)) s;
         s = upd_task a (\<lambda>t. let t = t\<lparr>text_sec := zero_section, data_sec := zero_section, stack_sec := zero_section\<rparr> in
               if name_in_heap t then t\<lparr>sig_trampoline := zero_section\<rparr> else t\<lparr>heap_sec := zero_section\<rparr>) s in
     if ring t \<noteq> 0 then k_destroy_user_pd (task_cr3 t) s else Inr s)))"

definition task_release :: "u32 \<Rightarrow> kstate \<Rightarrow> kstate kres" where
  "task_release a s = with_task a s (\<lambda>t.
     let s = sib_unlink a s; s = s\<lparr>info_queue := remove1 a (info_queue s)\<rparr> in
     kbind (pid_free (pid t) s) (\<lambda>s.
     kbind (k_kfree (kernel_stack_pointer t) s) (\<lambda>s.
     k_kfree a (drop_task a s))))"

text \<open>\<^verbatim>\<open>do_exit\<close> never returns: it ends in \<^verbatim>\<open>schedule\<close>.\<close>

definition do_exit :: "u32 \<Rightarrow> kstate \<Rightarrow> kstate kres" where
  "do_exit status s =
     (let cur = current_task s in
      with_task cur s (\<lambda>cur_task.
      let par = real_parent cur_task in
      if cur = idle_task s \<or> cur = kitoxD_task s then Inl (Panic ''do_exit'')
      else let s = upd_task cur (\<lambda>t. t\<lparr>exit_code := push_bit 8 (status AND 0xff)\<rparr>) s;
               s = sched_unlink cur s in
        kbind (task_reparent_children cur s) (\<lambda>s.
        let s = upd_task cur (\<lambda>t. t\<lparr>task_state := TASK_ZOMBIE\<rparr>) s in
        with_task par s (\<lambda>_.
        kbind (wq_wake_all (Child_wq par) s) (\<lambda>s.
        let s = k_reload_cr3 (k_kernel_directory s) s in
        kbind (task_exit_cleanup cur s) (\<lambda>s.
        kbind (schedule In_exit s) (\<lambda>(switched, s).
        if switched then Inr s else Inl (Panic ''Returned after task_exit_cleanup()''))))))))"

section \<open>Signal delivery\<close>

definition k_copy_to_user :: "u32 \<Rightarrow> u32 \<Rightarrow> u32 \<Rightarrow> kstate \<Rightarrow> (u32 \<times> kstate) kres" where
  "k_copy_to_user dst src n s = with_task (current_task s) s (\<lambda>t.
     kbind (copy_to_user (task_cr3 t) (vmm_of (kmm s)) dst src n (view s (task_cr3 t))) (\<lambda>(r, m).
     Inr (r, put_view (task_cr3 t) m s)))"

definition k_copy_from_user :: "u32 \<Rightarrow> u32 \<Rightarrow> u32 \<Rightarrow> kstate \<Rightarrow> (u32 \<times> kstate) kres" where
  "k_copy_from_user dst src n s = with_task (current_task s) s (\<lambda>t.
     kbind (copy_from_user (task_cr3 t) (vmm_of (kmm s)) dst src n (view s (task_cr3 t))) (\<lambda>(r, m).
     Inr (r, put_view (task_cr3 t) m s)))"

definition ESP_ALIGN :: u32 where "ESP_ALIGN = 16"
definition sizeof_sigframe :: u32 where "sizeof_sigframe = 84"

text \<open>The delivery to a handler in user memory: the frame is built in the local \<^verbatim>\<open>kframe\<close> and copied to the user stack.\<close>

definition deliver_signal :: "nat \<Rightarrow> u32 \<Rightarrow> task \<Rightarrow> kstate \<Rightarrow> (bool \<times> kstate) kres" where
  "deliver_signal i handler t s =
     (let new_esp = ALIGN_DOWN (get_tf t Tf_user_esp s - sizeof_sigframe) ESP_ALIGN;
          kframe = kernel_stack_base t - kframe_depth (img s);
          m = wr32 (kframe + 4) (of_nat i) (wr32 kframe USER_TRAMPOLINE_VADDR (kmem s));
          s = s\<lparr>kmem := ft_memcpy (kframe + 8) (tf_base t) sizeof_trap_frame m\<rparr> in
      kbind (k_copy_to_user new_esp kframe sizeof_sigframe s) (\<lambda>(r, s).
      if r \<noteq> 0 then kbind (do_exit (- EFAULT) s) (\<lambda>s. Inr (False, s))
      else Inr (True, set_tf t Tf_user_esp new_esp (set_tf t Tf_eip handler s))))"

definition default_msg :: "nat \<Rightarrow> string" where
  "default_msg sig = (['''', ''Hangup'', ''Interrupt'', ''Quit'', ''Illegal instruction'', ''Trace/breakpoint trap'', ''Aborted'',
     ''Bus error'', ''Floating point exception'', ''Killed'', ''User defined signal 1'', ''Segmentation fault'',
     ''User defined signal 2'', ''Broken pipe'', ''Alarm clock'', ''Terminated'', ''Stack fault'', ''Child exited'', ''Continued'',
     ''Stopped (signal)'', ''Stopped (user)'', ''Stopped (tty input)'', ''Stopped (tty output)'', ''Urgent I/O condition'',
     ''CPU time limit exceeded'', ''File size limit exceeded'', ''Virtual timer expired'', ''Profiling timer expired'',
     ''Window changed'', ''I/O possible'', ''Power failure'', ''Bad system call''] ! sig)"

definition run_default_handler :: "nat \<Rightarrow> kstate \<Rightarrow> kstate kres" where
  "run_default_handler sig s = do_exit (- 1) (s\<lparr>console := map of_char (default_msg sig @ [CHR 0x0A]) # console s\<rparr>)"

text \<open>\<^verbatim>\<open>signal_call_curtask_handlers\<close>: \<open>False\<close> when a signal ended the task, and another one is current.\<close>

fun call_handlers_loop :: "nat list \<Rightarrow> kstate \<Rightarrow> (bool \<times> kstate) kres" where
  "call_handlers_loop [] s = Inr (True, s)"
| "call_handlers_loop (i # is) s =
     (let cur = current_task s in
      kbind (signal_is_set (of_nat i) cur s) (\<lambda>set.
      if \<not> set then call_handlers_loop is s
      else kbind (signal_dequeue (of_nat i) cur s) (\<lambda>s.
        with_task cur s (\<lambda>t.
        let handler = sig_handlers t i in
        if KERNEL_VADDR_BASE \<le> handler then
          if pid t = 0 \<or> pid t = 1 then call_handlers_loop is s
          else if handler = signal_ignore_handler (img s) then call_handlers_loop is s
          else if handler = signal_default_handler (img s) then kbind (run_default_handler i s) (\<lambda>s. Inr (False, s))
          else Inl OutOfBounds
        else deliver_signal i handler t s))))"

definition signal_call_curtask_handlers :: "kstate \<Rightarrow> (bool \<times> kstate) kres" where
  "signal_call_curtask_handlers s = (if current_task s = 0 then Inr (True, s) else call_handlers_loop [1..<32] s)"

end
