(* ===== verification/Syscalls.thy ===== *)
theory Syscalls
  imports Process
begin

text \<open>
  The system calls of \<^verbatim>\<open>src/syscalls\<close>, their dispatch, the return from interrupts (\<^verbatim>\<open>interrupt_exit\<close> of \<^verbatim>\<open>src/arch/x86/irq.s\<close>) and the
  start-up of the process code. A system call gives \<open>Some r\<close> when it returns \<open>r\<close> to its caller, and \<open>None\<close> when the CPU
  has left it for another context: the call blocks, ends the task or replaces its program.
\<close>

type_synonym sysret = "(u32 option \<times> kstate) kres"

definition ret :: "u32 \<Rightarrow> kstate \<Rightarrow> sysret" where
  "ret r s = Inr (Some r, s)"

section \<open>Simple calls\<close>

definition sys_getpid :: "kstate \<Rightarrow> sysret" where
  "sys_getpid s = with_task (current_task s) s (\<lambda>t. ret (pid t) s)"

definition sys_getuid :: "kstate \<Rightarrow> sysret" where
  "sys_getuid s = with_task (current_task s) s (\<lambda>t. ret (uid t) s)"

definition sys_exit :: "u32 \<Rightarrow> kstate \<Rightarrow> sysret" where
  "sys_exit status s = kbind (do_exit status s) (\<lambda>s. Inr (None, s))"

definition sys_sleep :: "u32 \<Rightarrow> kstate \<Rightarrow> sysret" where
  "sys_sleep seconds s = kbind (timer_ksleep seconds s) (\<lambda>(switched, s). Inr (if switched then None else Some 0, s))"

definition sys_kill :: "u32 \<Rightarrow> u32 \<Rightarrow> kstate \<Rightarrow> sysret" where
  "sys_kill p sig s = kbind (kill_pid p sig s) (\<lambda>(r, s). ret r s)"

definition sys_signal :: "u32 \<Rightarrow> u32 \<Rightarrow> kstate \<Rightarrow> sysret" where
  "sys_signal signum handler s =
     (if \<not> signal_is_valid signum \<or> handler = 0 then ret (- EINVAL) s
      else if signum = SIGKILL \<or> signum = SIGSTOP then ret (- EINVAL) s
      else if KERNEL_VADDR_BASE \<le> handler then ret (- EINVAL) s
      else with_task (current_task s) s (\<lambda>t.
        ret (sig_handlers t (unat signum)) (upd_task (current_task s) (\<lambda>t. t\<lparr>sig_handlers := (sig_handlers t)(unat signum := handler)\<rparr>) s)))"

text \<open>
  \<^verbatim>\<open>sigreturn\<close>: the user stack pointer is at the field \<^verbatim>\<open>sig_num\<close> of the frame, 4 bytes into it, and the saved registers are 8 bytes into it.
\<close>

definition sys_sigreturn :: "kstate \<Rightarrow> sysret" where
  "sys_sigreturn s =
     (if current_task s = 0 then ret (- EINVAL) s
      else with_task (current_task s) s (\<lambda>t.
        let old_frame = get_tf t Tf_user_esp s - 4 in
        kbind (k_copy_from_user (tf_base t) (old_frame + 8) sizeof_trap_frame s) (\<lambda>(r, s).
        if r \<noteq> 0 then kbind (do_exit (- EFAULT) s) (\<lambda>s. Inr (None, s))
        else let s = set_tf t Tf_user_ss USER_DS s;
                 s = set_tf t Tf_eflags ((get_tf t Tf_eflags s AND 0x00000DD5) OR 0x202) s;
                 s = set_tf t Tf_cs USER_CS s;
                 s = set_tf t Tf_ds USER_DS s;
                 s = set_tf t Tf_es USER_DS s;
                 s = set_tf t Tf_fs USER_DS s;
                 s = set_tf t Tf_gs USER_DS s in
          ret (get_tf t Tf_eax s) s)))"

definition PROT_WRITE :: u32 where "PROT_WRITE = 2"

definition sys_mmap :: "u32 \<Rightarrow> u32 \<Rightarrow> u32 \<Rightarrow> u32 \<Rightarrow> u32 \<Rightarrow> u32 \<Rightarrow> kstate \<Rightarrow> sysret" where
  "sys_mmap addr len prot fl fd off s =
     (if len = 0 then ret (- EINVAL) s
      else with_task (current_task s) s (\<lambda>t.
        let pte = PTE_PRESENT_BIT OR PTE_US_BIT; pte = (if prot AND PROT_WRITE \<noteq> 0 then pte OR PTE_RW_BIT else pte) in
        kbind (vma_alloc (task_cr3 t) len pte addr VMA_LAZY (vma_areas t) (kmm s)) (\<lambda>(r, areas, k).
        let s = upd_task (current_task s) (\<lambda>t. t\<lparr>vma_areas := areas\<rparr>) (s\<lparr>kmm := k\<rparr>) in
        case r of None \<Rightarrow> ret (- ENOMEM) s | Some i \<Rightarrow> ret (start_vaddr (areas ! i)) s)))"

definition sys_munmap :: "u32 \<Rightarrow> u32 \<Rightarrow> kstate \<Rightarrow> sysret" where
  "sys_munmap addr len s =
     (if addr = 0 \<or> len = 0 then ret (- EINVAL) s
      else with_task (current_task s) s (\<lambda>t.
        kbind (vma_find_by_start addr (vma_areas t)) (\<lambda>r.
        case r of None \<Rightarrow> ret (- EINVAL) s
        | Some i \<Rightarrow>
            if area_state (vma_areas t ! i) \<noteq> VM_AREA_ALLOCATED \<and> area_state (vma_areas t ! i) \<noteq> VM_AREA_LAZY then ret (- EINVAL) s
            else kbind (vma_destroy_area (task_cr3 t) i (vma_areas t) (kmm s)) (\<lambda>(areas, k).
              ret 0 (upd_task (current_task s) (\<lambda>t. t\<lparr>vma_areas := areas\<rparr>) (s\<lparr>kmm := k\<rparr>))))))"

text \<open>The bytes of the string at an address, up to its null byte, at most \<open>n\<close> of them.\<close>

definition str_at :: "bmem \<Rightarrow> u32 \<Rightarrow> nat \<Rightarrow> u8 list" where
  "str_at m p n = takeWhile (\<lambda>c. c \<noteq> 0) (map (\<lambda>i. m (p + of_nat i)) [0..<n])"

definition sys_write :: "u32 \<Rightarrow> u32 \<Rightarrow> u32 \<Rightarrow> kstate \<Rightarrow> sysret" where
  "sys_write fd str sz s =
     (if MAX_KMALLOC_SIZE \<le> sz then ret (- EINVAL) s
      else kbind (lift_mm (mm_kmalloc (sz + 1) GFP_KERNEL) s) (\<lambda>(dup, s).
        if dup = 0 then ret (- ENOMEM) s
        else kbind (k_copy_from_user dup str sz s) (\<lambda>(r, s).
          if r \<noteq> 0 then kbind (k_kfree dup s) (ret (- EFAULT))
          else let s = s\<lparr>kmem := (kmem s)(dup + sz := 0)\<rparr>;
                   s = s\<lparr>console := str_at (kmem s) dup (unat sz) # console s\<rparr> in
            kbind (k_kfree dup s) (ret sz))))"

section \<open>Waiting for children\<close>

definition find_zombie_child :: "task \<Rightarrow> u32 \<Rightarrow> kstate \<Rightarrow> u32 kres" where
  "find_zombie_child par p s = find_task s (\<lambda>c. task_state c = TASK_ZOMBIE \<and> (p = - 1 \<or> pid c = p)) (children par)"

text \<open>\<^verbatim>\<open>wq_prepare\<close> and \<^verbatim>\<open>schedule\<close> of the waiting loop; a schedule that comes back at once leaves the state as it is, so that the loop never ends.\<close>

definition wait_for_child :: "u32 \<Rightarrow> u32 \<Rightarrow> kstate \<Rightarrow> sysret" where
  "wait_for_child p status s =
     (let cur = current_task s in
      kbind (wq_prepare (Child_wq cur) cur s) (\<lambda>s.
      kbind (schedule (In_waitpid p status) s) (\<lambda>(switched, s).
      if switched then Inr (None, s) else Inl Diverges)))"

text \<open>The offset of \<^verbatim>\<open>exit_code\<close> in \<^verbatim>\<open>struct task\<close>; the copy to the user reads the field in the memory of the task.\<close>

definition exit_code_off :: u32 where "exit_code_off = 224"

definition reap_zombie :: "u32 \<Rightarrow> u32 \<Rightarrow> kstate \<Rightarrow> sysret" where
  "reap_zombie zombie status s = with_task zombie s (\<lambda>z.
     kbind (if status \<noteq> 0
            then k_copy_to_user status (zombie + exit_code_off) 4 (s\<lparr>kmem := wr32 (zombie + exit_code_off) (exit_code z) (kmem s)\<rparr>)
            else Inr (0, s)) (\<lambda>(r, s).
     if r \<noteq> 0 then ret (- EFAULT) s
     else kbind (task_release zombie s) (ret (pid z))))"

text \<open>One round of the loop of \<^verbatim>\<open>waitpid\<close>.\<close>

definition waitpid_loop :: "u32 \<Rightarrow> u32 \<Rightarrow> kstate \<Rightarrow> sysret" where
  "waitpid_loop p status s =
     (let cur = current_task s in
      with_task cur s (\<lambda>t.
      if children t = [] then
        if cur \<noteq> kitoxD_task s then ret (- ECHILD) s else wait_for_child p status s
      else kbind (if 0 <s p then task_has_child_pid t p s else Inr True) (\<lambda>has.
        if \<not> has then ret (- ECHILD) s
        else kbind (find_zombie_child t p s) (\<lambda>zombie.
          if zombie \<noteq> 0 then reap_zombie zombie status s else wait_for_child p status s))))"

definition sys_waitpid :: "u32 \<Rightarrow> u32 \<Rightarrow> u32 \<Rightarrow> kstate \<Rightarrow> sysret" where
  "sys_waitpid p status options s = (if p = 0 \<or> p <s - 1 then ret (- EINVAL) s else waitpid_loop p status s)"

section \<open>Fork\<close>

text \<open>\<^verbatim>\<open>fork\<close> of one page: a page of the child for each page the parent maps.\<close>

definition fork_page :: "u32 \<Rightarrow> u32 \<Rightarrow> u32 \<Rightarrow> u32 \<Rightarrow> kstate \<Rightarrow> (bool \<times> kstate) kres" where
  "fork_page cur_pd new_pd vaddr pte s =
     kbind (k_alloc_pages PAGE_SIZE HIGHMEM_ZONE s) (\<lambda>(page, s).
     if page = 0 then Inr (False, s)
     else kbind (k_kmap page s) (\<lambda>(window, s).
       if window = 0 then kbind (k_free_block page s) (\<lambda>s. Inr (False, s))
       else kbind (k_map_page new_pd vaddr page (GET_ENTRY_FLAGS pte) s) (\<lambda>(ok, s).
         if \<not> ok then kbind (k_kunmap s) (\<lambda>s. kbind (k_free_block page s) (\<lambda>s. Inr (False, s)))
         else let s = sync_window new_pd vaddr (s\<lparr>kmem := (let m = ft_memcpy window vaddr PAGE_SIZE (view s cur_pd) in
                        (\<lambda>a. if KERNEL_VADDR_BASE \<le> a then m a else kmem s a))\<rparr>) in
           kbind (k_kunmap s) (\<lambda>s. Inr (True, s)))))"

fun fork_pages :: "u32 \<Rightarrow> u32 \<Rightarrow> u32 \<Rightarrow> nat \<Rightarrow> nat list \<Rightarrow> kstate \<Rightarrow> (bool \<times> kstate) kres" where
  "fork_pages cur_pd new_pd cur_pt i [] s = Inr (True, s)"
| "fork_pages cur_pd new_pd cur_pt i (j # js) s =
     (let pte = ld (mm_vmm (kmm s)) cur_pt (of_nat j) in
      if FLAG_IS_SET pte PTE_PRESENT_BIT then
        kbind (fork_page cur_pd new_pd (push_bit 22 (of_nat i) OR push_bit 12 (of_nat j)) pte s) (\<lambda>(ok, s).
        if ok then fork_pages cur_pd new_pd cur_pt i js s else Inr (False, s))
      else fork_pages cur_pd new_pd cur_pt i js s)"

fun fork_tables :: "u32 \<Rightarrow> u32 \<Rightarrow> nat list \<Rightarrow> kstate \<Rightarrow> (bool \<times> kstate) kres" where
  "fork_tables cur_pd new_pd [] s = Inr (True, s)"
| "fork_tables cur_pd new_pd (i # is) s =
     kbind (PHYS_TO_VIRT_LINEAR cur_pd) (\<lambda>cur_virt. kbind (PHYS_TO_VIRT_LINEAR new_pd) (\<lambda>new_virt.
     let pde = ld (mm_vmm (kmm s)) cur_virt (of_nat i) in
     if FLAG_IS_SET pde PDE_PRESENT_BIT then
       kbind (k_alloc_pages PAGE_SIZE LOWMEM_ZONE s) (\<lambda>(new_pt_phys, s).
       if new_pt_phys = 0 then Inr (False, s)
       else let new_pde = GET_ENTRY_ADDR new_pt_phys OR GET_ENTRY_FLAGS pde in
         kbind (k_vmm (\<lambda>v. Inr (sto new_virt (of_nat i) new_pde v)) s) (\<lambda>s.
         kbind (PHYS_TO_VIRT_LINEAR (GET_ENTRY_ADDR pde)) (\<lambda>cur_pt.
         kbind (PHYS_TO_VIRT_LINEAR (GET_ENTRY_ADDR new_pde)) (\<lambda>new_pt.
         kbind (k_vmm (\<lambda>v. Inr (bzero_page new_pt v)) s) (\<lambda>s.
         kbind (fork_pages cur_pd new_pd cur_pt i [0..<1024] s) (\<lambda>(ok, s).
         if ok then fork_tables cur_pd new_pd is s else Inr (False, s)))))))
     else fork_tables cur_pd new_pd is s))"

text \<open>The labels \<^verbatim>\<open>fail_page_copy\<close> and \<^verbatim>\<open>fail_kernel_stack\<close>.\<close>

definition fork_fail_kernel_stack :: "u32 \<Rightarrow> kstate \<Rightarrow> sysret" where
  "fork_fail_kernel_stack new s = with_task new s (\<lambda>n.
     kbind (k_destroy_user_pd (task_cr3 n) s) (\<lambda>s. kbind (task_release new s) (ret (- ENOMEM))))"

definition fork_fail_page_copy :: "u32 \<Rightarrow> kstate \<Rightarrow> sysret" where
  "fork_fail_page_copy new s = with_task new s (\<lambda>n.
     kbind (k_kfree (kernel_stack_pointer n) s) (fork_fail_kernel_stack new))"

text \<open>
  The end of \<^verbatim>\<open>fork\<close>, once the memory is copied. The stack pointer of the child is computed from the one \<^verbatim>\<open>switch_to\<close> last saved for
  the parent; the context of the child is written below its trap frame.
\<close>

definition fork_start_child :: "u32 \<Rightarrow> u32 \<Rightarrow> kstate \<Rightarrow> sysret" where
  "fork_start_child cur new s = with_task cur s (\<lambda>c. with_task new s (\<lambda>n.
     let s = s\<lparr>kmem := ft_memcpy (kernel_stack_pointer n) (kernel_stack_pointer c) DEFAULT_STACK_SIZE (kmem s)\<rparr> in
     kassert ''canary'' (rd32 (kmem s) (kernel_stack_pointer n) = STACK_CANARY_MAGIC)
     (kassert ''stack top'' (rd32 (kmem s) (kernel_stack_base c - 4) = rd32 (kmem s) (kernel_stack_base n - 4))
     (kassert ''trap frame'' (ft_memcmp (tf_base n) (tf_base c) sizeof_trap_frame (kmem s) = 0)
     (let s = set_tf n Tf_eax 0 s in
      kbind (task_append_child cur new s) (\<lambda>s.
      let esp = kernel_stack_pointer n - (kernel_stack_pointer c - task_esp c);
          s = upd_task new (\<lambda>t. t\<lparr>task_esp := esp, task_state := TASK_RUNNING\<rparr>) s in
      kbind (sched_enqueue new s) (\<lambda>(_, s).
      let (stack, m) = push_words [interrupt_exit (img s), 0, 0, 0, 0] (tf_base n) (kmem s);
          s = upd_task new (\<lambda>t. t\<lparr>resume_at := (if esp = stack then At_entry else Stale_frame)\<rparr>) (s\<lparr>kmem := m\<rparr>) in
      ret (pid n) s)))))))"

definition sys_fork :: "kstate \<Rightarrow> sysret" where
  "sys_fork s =
     (let cur = current_task s in
      kassert ''current'' (cur \<noteq> 0)
      (kbind (task_clone cur s) (\<lambda>(new, s).
       if new = 0 then ret (- ENOMEM) s
       else kbind (k_zalloc DEFAULT_STACK_SIZE s) (\<lambda>(kstack, s).
         let s = upd_task new (\<lambda>t. t\<lparr>kernel_stack_pointer := kstack\<rparr>) s in
         if kstack = 0 then fork_fail_kernel_stack new s
         else let s = upd_task new (\<lambda>t. t\<lparr>kernel_stack_base := kstack + DEFAULT_STACK_SIZE,
                 text_sec := (text_sec t)\<lparr>sec_p_addr := 0\<rparr>, data_sec := (data_sec t)\<lparr>sec_p_addr := 0\<rparr>,
                 heap_sec := (heap_sec t)\<lparr>sec_p_addr := 0\<rparr>, stack_sec := (stack_sec t)\<lparr>sec_p_addr := 0\<rparr>\<rparr>) s in
           with_task cur s (\<lambda>c. with_task new s (\<lambda>n.
           kbind (fork_tables (task_cr3 c) (task_cr3 n) [0..<768] s) (\<lambda>(ok, s).
           if \<not> ok then fork_fail_page_copy new s
           else kbind (PHYS_TO_VIRT_LINEAR (task_cr3 c)) (\<lambda>cv. kbind (PHYS_TO_VIRT_LINEAR (task_cr3 n)) (\<lambda>nv.
             kbind (k_vmm (\<lambda>v. Inr (fold (\<lambda>i v. sto nv (of_nat i) (ld v cv (of_nat i)) v) [768..<768 + 224] v)) s)
               (fork_start_child cur new))))))))))"

section \<open>Replacing the program\<close>

definition mok_registry :: "image \<Rightarrow> (string \<times> u32 \<times> u32) list" where
  "mok_registry im = [(''cafe'', user_cafe_start im, user_cafe_end im), (''dead'', user_dead_start im, user_dead_end im)]"

definition sys_execve :: "u32 \<Rightarrow> kstate \<Rightarrow> sysret" where
  "sys_execve index s =
     (if index <s 0 \<or> 2 \<le>s index then ret (- EINVAL) s
      else let (nm, start, fin) = mok_registry (img s) ! unat index; cur = current_task s in
        case section_init_from_buffer 0 start (fin - start) 0 of
          None \<Rightarrow> ret (- EFAULT) s
        | Some text \<Rightarrow> with_task cur s (\<lambda>_.
            let s = upd_task cur (\<lambda>t. t\<lparr>text_sec := text\<rparr>) (k_reload_cr3 (k_kernel_directory s) s) in
            kbind (userspace_create_new cur s) (\<lambda>(ok, s).
            if \<not> ok then Inl (Panic ''Failed to create new clean userspace'')
            else with_task cur s (\<lambda>t.
              kbind (vma_init_area (sec_v_addr (heap_sec t)) (sec_v_addr (stack_sec t) - PAGE_SIZE) [] (kmm s)) (\<lambda>(areas, k).
              let s = upd_task cur (write_name (map of_char (take 15 nm)) \<circ> (\<lambda>t. t\<lparr>vma_areas := areas\<rparr>)) (s\<lparr>kmm := k\<rparr>) in
              kbind (task_craft_context cur True (sec_v_addr (text_sec t)) s) (\<lambda>s.
              Inr (None, (k_reload_cr3 (task_cr3 t) s)\<lparr>resuming := True\<rparr>)))))))"

section \<open>Dispatch\<close>

type_synonym syscall_handler = "u32 \<Rightarrow> u32 \<Rightarrow> u32 \<Rightarrow> u32 \<Rightarrow> u32 \<Rightarrow> u32 \<Rightarrow> kstate \<Rightarrow> sysret"

definition MAX_SYSCALL :: u32 where "MAX_SYSCALL = 200"

text \<open>
  The table that \<^verbatim>\<open>scripts/generate_table.py\<close> makes from \<^verbatim>\<open>src/syscalls/syscall.tbl\<close>: 200 entries, those without a line in the file are \<^verbatim>\<open>NULL\<close>.
\<close>

definition syscall_entry :: "nat \<Rightarrow> syscall_handler option" where
  "syscall_entry n =
     (if n = 1 then Some (\<lambda>a b c d e f. sys_exit a)
      else if n = 2 then Some (\<lambda>a b c d e f. sys_fork)
      else if n = 4 then Some (\<lambda>a b c d e f. sys_write a b c)
      else if n = 7 then Some (\<lambda>a b c d e f. sys_waitpid a b c)
      else if n = 11 then Some (\<lambda>a b c d e f. sys_execve a)
      else if n = 20 then Some (\<lambda>a b c d e f. sys_getpid)
      else if n = 24 then Some (\<lambda>a b c d e f. sys_getuid)
      else if n = 37 then Some (\<lambda>a b c d e f. sys_kill a b)
      else if n = 48 then Some (\<lambda>a b c d e f. sys_signal a b)
      else if n = 90 then Some sys_mmap
      else if n = 91 then Some (\<lambda>a b c d e f. sys_munmap a b)
      else if n = 119 then Some (\<lambda>a b c d e f. sys_sigreturn)
      else if n = 162 then Some (\<lambda>a b c d e f. sys_sleep a)
      else None)"

definition syscall_table :: "syscall_handler option list" where
  "syscall_table = map syscall_entry [0..<200]"

text \<open>\<^verbatim>\<open>do_syscall\<close> on the trap frame of the current task; \<open>False\<close> when the CPU has left the call.\<close>

definition do_syscall :: "kstate \<Rightarrow> (bool \<times> kstate) kres" where
  "do_syscall s = with_task (current_task s) s (\<lambda>t.
     let sys_id = get_tf t Tf_eax s; bad = Inr (True, set_tf t Tf_eax (- ENOSYS) s) in
     if MAX_SYSCALL < sys_id then bad
     else if length syscall_table \<le> unat sys_id then Inl OutOfBounds
     else case syscall_table ! unat sys_id of None \<Rightarrow> bad
       | Some handler \<Rightarrow>
           kbind (handler (get_tf t Tf_ebx s) (get_tf t Tf_ecx s) (get_tf t Tf_edx s) (get_tf t Tf_esi s) (get_tf t Tf_edi s) (get_tf t Tf_ebp s) s)
             (\<lambda>(r, s). case r of None \<Rightarrow> Inr (False, s) | Some v \<Rightarrow> Inr (True, set_tf t Tf_eax v s)))"

text \<open>\<^verbatim>\<open>interrupt_exit\<close>: pending signals are delivered before the CPU leaves the kernel.\<close>

definition irq_return :: "kstate \<Rightarrow> kstate kres" where
  "irq_return s = kbind (signal_call_curtask_handlers s) (\<lambda>(_, s). Inr s)"

text \<open>
  What a task does that has just been switched in: the rest of \<^verbatim>\<open>schedule\<close>, of its caller, and the return from the interrupt. A task of
  ring 0 starts in its function and sleeps in \<^verbatim>\<open>timer_ksleep\<close> without a system call.
\<close>

definition set_cur_eax :: "u32 \<Rightarrow> kstate \<Rightarrow> kstate kres" where
  "set_cur_eax v s = with_task (current_task s) s (\<lambda>t. Inr (set_tf t Tf_eax v s))"

definition resume_rest :: "resume_point \<Rightarrow> kstate \<Rightarrow> kstate kres" where
  "resume_rest rp s = (case rp of
       In_sleep \<Rightarrow> with_task (current_task s) s (\<lambda>t.
         let s = timer_ksleep_end (current_task s) s in
         if ring t = 0 then Inr s else kbind (set_cur_eax 0 s) irq_return)
     | In_waitpid p status \<Rightarrow> kbind (waitpid_loop p status s) (\<lambda>(r, s).
         case r of None \<Rightarrow> Inr s | Some v \<Rightarrow> kbind (set_cur_eax v s) irq_return)
     | In_exit \<Rightarrow> Inl (Panic ''Returned after task_exit_cleanup()'')
     | _ \<Rightarrow> irq_return s)"

definition resume_current :: "kstate \<Rightarrow> kstate kres" where
  "resume_current s = with_task (current_task s) s (\<lambda>t.
     let s = s\<lparr>resuming := False\<rparr> in
     case resume_at t of
       Stale_frame \<Rightarrow> Inl OutOfBounds
     | At_entry \<Rightarrow> if ring t = 0 then Inr s else irq_return s
     | rp \<Rightarrow> kbind (signal_call_curtask_handlers s) (\<lambda>(alive, s). if alive then resume_rest rp s else Inr s))"

section \<open>Start-up\<close>

definition task_init_dummy :: "u32 \<Rightarrow> kstate \<Rightarrow> kstate" where
  "task_init_dummy esp_val s =
     (let a = Task.dummy_task (img s);
          t = zero_task\<lparr>task_name := map of_char ''BootThread'', pid := 0, task_state := TASK_RUNNING, task_cr3 := k_kernel_directory s,
                kernel_stack_pointer := dummy_canary_val (img s), task_esp := esp_val, kernel_stack_base := esp_val\<rparr> in
      s\<lparr>tasks := (tasks s)(a \<mapsto> t), current_task := a\<rparr>)"

definition task_init_idle :: "kstate \<Rightarrow> kstate kres" where
  "task_init_idle s = kbind (task_get_new (Some (map of_char ''Idle'')) 0 None None s) (\<lambda>(a, s).
     let s = s\<lparr>idle_task := a\<rparr> in
     if a = 0 then Inl (Panic ''Failed to init Idle'')
     else kbind (task_craft_context a False (cpu_idle_loop (img s)) s) (\<lambda>s.
       Inr (upd_task a (\<lambda>t. t\<lparr>task_state := TASK_NEW\<rparr>) s)))"

definition task_init_kitoxD :: "kstate \<Rightarrow> kstate kres" where
  "task_init_kitoxD s =
     (case section_init_from_buffer 0 (kitoxD_start (img s)) (kitoxD_end (img s) - kitoxD_start (img s)) 0 of
        None \<Rightarrow> Inl (Panic ''Failed to init kitoxD sections'')
      | Some text \<Rightarrow> kbind (task_get_new (Some (map of_char ''kitoxD'')) 3 (Some text) None s) (\<lambda>(a, s).
          let s = s\<lparr>kitoxD_task := a\<rparr> in
          if a = 0 then Inl (Panic ''Failed to init kitoxD'')
          else let s = upd_task a (\<lambda>t. t\<lparr>task_state := TASK_NEW\<rparr>) s in
            with_task a s (\<lambda>t.
            kbind (task_craft_context a True (sec_v_addr (text_sec t)) s) (\<lambda>s.
            kbind (sched_enqueue a s) (\<lambda>(_, s). Inr s)))))"

text \<open>\<^verbatim>\<open>task_init_process\<close>, without the registration of the timer interrupt in the table of handlers.\<close>

definition task_init_process :: "u32 \<Rightarrow> kstate \<Rightarrow> kstate kres" where
  "task_init_process esp_val s =
     kbind (task_init_idle (task_init_dummy esp_val s)) (\<lambda>s.
     kbind (task_init_kitoxD s) (\<lambda>s. Inr (timer_set_cycle TIMER_HZ s)))"

definition exec_fn_start :: "bool \<Rightarrow> u32 \<Rightarrow> u32 \<Rightarrow> kstate \<Rightarrow> kstate kres" where
  "exec_fn_start is_user fn a s =
     (if a = 0 then Inr s
      else with_task a s (\<lambda>t.
        kbind (task_craft_context a is_user (if is_user then sec_v_addr (text_sec t) else fn) s) (\<lambda>s.
        let s = upd_task a (\<lambda>t. t\<lparr>task_state := TASK_RUNNING\<rparr>) s in
        kbind (task_append_child (kitoxD_task s) a s) (\<lambda>s.
        kbind (sched_enqueue a s) (\<lambda>(_, s). Inr s)))))"

definition exec_fn :: "u32 \<Rightarrow> u32 \<Rightarrow> u32 \<Rightarrow> kstate \<Rightarrow> kstate kres" where
  "exec_fn addr fn sz s =
     (let is_user = (0 < sz) in
      case (if is_user then map_option Some (section_init_from_buffer addr fn sz 0) else Some None) of
        None \<Rightarrow> Inr s
      | Some text_ptr \<Rightarrow>
          kbind (task_get_new (Some (map of_char ''Sloppy'')) (if is_user then 3 else 0) text_ptr None s)
            (\<lambda>(a, s). exec_fn_start is_user fn a s))"

end
