(* ===== verification/Proc_Frame.thy ===== *)
theory Proc_Frame
  imports Syscalls
begin

text \<open>
  What the operations on memory, address spaces, trap frames and the family tree leave alone: the run queue, the wait queues, the
  states of the tasks, their signal handlers and the current task (\<open>sched_view\<close>). The lemmas are collected in
  \<open>frame\<close> and chained by rewriting.
\<close>

named_theorems frame "operations that keep the scheduler's view of the state"

text \<open>\<open>okr P m\<close>: if \<open>m\<close> returns a value, it satisfies \<open>P\<close>.\<close>

definition okr :: "('a \<Rightarrow> bool) \<Rightarrow> 'a kres \<Rightarrow> bool" where
  "okr P m = (case m of Inl _ \<Rightarrow> True | Inr x \<Rightarrow> P x)"

lemma okr_simps [simp]:
  "okr P (Inl e)" "okr P (Inr x) = P x" "okr P (kbind m f) = okr (\<lambda>x. okr P (f x)) m"
  "okr P (with_task a s g) = (\<forall>t. tasks s a = Some t \<longrightarrow> okr P (g t))" "okr P (kassert w b k) = (b \<longrightarrow> okr P k)"
  by (auto simp: okr_def kbind_def with_task_def kassert_def split: sum.splits option.splits)

lemma okr_mono: "okr Q m \<Longrightarrow> (\<And>x. Q x \<Longrightarrow> P x) \<Longrightarrow> okr P m"
  by (auto simp: okr_def split: sum.splits)

lemma okr_all: "(\<And>x. P x) \<Longrightarrow> okr P m"
  by (simp add: okr_def split: sum.splits)

lemma okrI: "(\<And>x. m = Inr x \<Longrightarrow> P x) \<Longrightarrow> okr P m"
  by (simp add: okr_def split: sum.splits)

lemma okrD: "okr P m \<Longrightarrow> m = Inr x \<Longrightarrow> P x"
  by (simp add: okr_def)

definition core :: "task \<Rightarrow> process_states \<times> wq_entry \<times> u32 list \<times> (nat \<Rightarrow> u32)" where
  "core t = (task_state t, wq_data t, child_wq t, sig_handlers t)"

definition sched_view where
  "sched_view s = (\<lambda>a. map_option core (tasks s a), ready_queue s, sleep_wq s, current_task s, idle_task s, kitoxD_task s, img s)"

lemma with_task_eq_Inr [kres_simps]: "with_task a s f = Inr x \<longleftrightarrow> (\<exists>t. tasks s a = Some t \<and> f t = Inr x)"
  by (simp add: with_task_def split: option.splits)

lemma with_task_Some [simp]: "tasks s a = Some t \<Longrightarrow> with_task a s f = f t"
  by (simp add: with_task_def)

lemma sched_view_simps [simp]:
  "sched_view (s\<lparr>kmm := k\<rparr>) = sched_view s" "sched_view (s\<lparr>kmem := m\<rparr>) = sched_view s"
  "sched_view (s\<lparr>umem := u\<rparr>) = sched_view s" "sched_view (s\<lparr>pid_manager := p\<rparr>) = sched_view s"
  "sched_view (s\<lparr>info_queue := iq\<rparr>) = sched_view s" "sched_view (s\<lparr>console := c\<rparr>) = sched_view s"
  "sched_view (s\<lparr>resuming := b\<rparr>) = sched_view s" "sched_view (s\<lparr>port_log := pl\<rparr>) = sched_view s"
  "sched_view (s\<lparr>global_ticks := g\<rparr>) = sched_view s" "sched_view (s\<lparr>tss_esp0 := e\<rparr>) = sched_view s"
  by (simp_all add: sched_view_def)

lemma sched_view_upd: "(\<And>t. core (f t) = core t) \<Longrightarrow> sched_view (upd_task a f s) = sched_view s"
  by (auto simp: sched_view_def upd_task_def fun_eq_iff option.map_comp comp_def)

lemma sched_view_upd_simps [simp]:
  "sched_view (upd_task a (\<lambda>t. t\<lparr>pid := x1 t\<rparr>) s) = sched_view s"
  "sched_view (upd_task a (\<lambda>t. t\<lparr>children := x2 t\<rparr>) s) = sched_view s"
  "sched_view (upd_task a (\<lambda>t. t\<lparr>siblings := x3 t\<rparr>) s) = sched_view s"
  "sched_view (upd_task a (\<lambda>t. t\<lparr>task_cr3 := x4 t\<rparr>) s) = sched_view s"
  "sched_view (upd_task a (\<lambda>t. t\<lparr>vma_areas := x5 t\<rparr>) s) = sched_view s"
  "sched_view (upd_task a (\<lambda>t. t\<lparr>signals_map := x6 t\<rparr>) s) = sched_view s"
  "sched_view (upd_task a (\<lambda>t. t\<lparr>exit_code := x7 t\<rparr>) s) = sched_view s"
  "sched_view (upd_task a (\<lambda>t. t\<lparr>tick_to_wake := x8 t\<rparr>) s) = sched_view s"
  "sched_view (upd_task a (\<lambda>t. t\<lparr>quantum_remaining := x9 t\<rparr>) s) = sched_view s"
  "sched_view (upd_task a (\<lambda>t. t\<lparr>text_sec := y1 t\<rparr>) s) = sched_view s"
  "sched_view (upd_task a (\<lambda>t. t\<lparr>data_sec := y2 t\<rparr>) s) = sched_view s"
  "sched_view (upd_task a (\<lambda>t. t\<lparr>stack_sec := y3 t\<rparr>) s) = sched_view s"
  "sched_view (upd_task a (\<lambda>t. t\<lparr>sig_trampoline := y4 t\<rparr>) s) = sched_view s"
  "sched_view (upd_task a (\<lambda>t. t\<lparr>parent := z1 t, real_parent := z2 t\<rparr>) s) = sched_view s"
  "sched_view (upd_task a (\<lambda>t. t\<lparr>task_esp := z3 t, resume_at := z4 t\<rparr>) s) = sched_view s"
  "sched_view (upd_task a (\<lambda>t. t\<lparr>resume_at := z4 t\<rparr>) s) = sched_view s"
  "sched_view (upd_task a (\<lambda>t. t\<lparr>resume_at := z4 t, task_esp := z3 t\<rparr>) s) = sched_view s"
  "sched_view (upd_task a (\<lambda>t. t\<lparr>kernel_stack_pointer := z5 t\<rparr>) s) = sched_view s"
  "sched_view (upd_task a (\<lambda>t. t\<lparr>sig_trampoline := z6 t, ring := z7 t\<rparr>) s) = sched_view s"
  by (rule sched_view_upd, simp add: core_def)+


abbreviation keeps :: "kstate \<Rightarrow> ('a \<times> kstate) kres \<Rightarrow> bool" where
  "keeps s \<equiv> okr (\<lambda>(r, s'). sched_view s' = sched_view s)"

abbreviation keeps1 :: "kstate \<Rightarrow> kstate kres \<Rightarrow> bool" where
  "keeps1 s \<equiv> okr (\<lambda>s'. sched_view s' = sched_view s)"

lemma keepsE: "keeps s m \<Longrightarrow> (\<And>r s'. sched_view s' = sched_view s \<Longrightarrow> P (r, s')) \<Longrightarrow> okr P m"
  by (erule okr_mono) auto

lemma keeps1E: "keeps1 s m \<Longrightarrow> (\<And>s'. sched_view s' = sched_view s \<Longrightarrow> P s') \<Longrightarrow> okr P m"
  by (erule okr_mono) auto

declare upt_rec_numeral [simp del]

section \<open>Memory\<close>

lemma k_keeps:
  "keeps s (lift_mm f s)" "keeps1 s (lift_mm' g s)" "keeps s (k_alloc_pages sz z s)" "keeps1 s (k_free_block p s)" "keeps1 s (k_kfree p s)"
  "keeps1 s (k_vmm h s)" "keeps s (k_map_page pd v p fl s)" "keeps s (k_kmap p s)" "keeps1 s (k_kunmap s)" "keeps1 s (k_destroy_user_pd p s)"
  by (auto simp: k_alloc_pages_def k_free_block_def k_kfree_def k_vmm_def k_map_page_def k_kmap_def k_kunmap_def k_destroy_user_pd_def
      lift_mm_def lift_mm'_def okr_def kbind_def split: sum.splits prod.splits)

lemmas [frame] = k_keeps(1,3,7,8) [THEN keepsE] k_keeps(2,4,5,6,9,10) [THEN keeps1E]

lemma k_zalloc_keeps: "keeps s (k_zalloc sz s)"
  by (auto simp: k_zalloc_def intro!: frame)

lemma k_small_frame [simp]:
  "sched_view (k_reload_cr3 pd s) = sched_view s" "sched_view (put_view d m s) = sched_view s"
  "sched_view (sync_window d v s) = sched_view s" "sched_view (set_tf t f w s) = sched_view s"
  by (simp_all add: k_reload_cr3_def put_view_def sync_window_def set_tf_def)

lemma k_copy_keeps: "keeps s (k_copy_to_user d p n s)" "keeps s (k_copy_from_user d p n s)"
  by (simp_all add: k_copy_to_user_def k_copy_from_user_def okr_all split: prod.split)

lemmas [frame] = k_zalloc_keeps [THEN keepsE] k_copy_keeps [THEN keepsE]

lemma free_blocks_keeps: "keeps1 s (free_blocks ps s)"
proof (induction ps arbitrary: s)
  case (Cons p ps)
  show ?case by (auto intro!: frame Cons.IH [THEN keeps1E])
qed simp

section \<open>Address spaces\<close>

lemma io_keeps: "keeps1 s (io_close st s)" "keeps s (section_create_reader sec s)"
  by (auto simp: io_close_def section_create_reader_def io_stream_get_new_def intro!: frame split: option.splits)

lemma map_kernel_keeps: "keeps s (userspace_map_kernel pd s)"
  by (auto simp: userspace_map_kernel_def Let_def PHYS_TO_VIRT_LINEAR_def intro!: frame)

lemmas [frame] = free_blocks_keeps [THEN keeps1E] io_keeps(1) [THEN keeps1E] io_keeps(2) [THEN keepsE] map_kernel_keeps [THEN keepsE]

lemma map_section_loop_keeps:
  "okr (\<lambda>(ok, st', w', s'). sched_view s' = sched_view s) (map_section_loop pd sec pool i n st w s)"
proof (induction n arbitrary: i st w s)
  case (Suc n)
  show ?case by (auto simp: Let_def intro!: frame Suc.IH [THEN okr_mono] split: option.splits prod.splits)
qed simp

lemma map_section_keeps: "okr (\<lambda>(ok, sec', s'). sched_view s' = sched_view s) (map_section pd sec s)"
  by (auto simp: map_section_def Let_def intro!: frame map_section_loop_keeps [THEN okr_mono])

lemma map_task_section_keeps: "(\<And>x t. core (put x t) = core t) \<Longrightarrow> keeps s (map_task_section pd get put a s)"
  using sched_view_upd [of "put _"] by (auto simp: map_task_section_def intro!: map_section_keeps [THEN okr_mono])

lemma map_all_keeps: "(\<And>f s. f \<in> set fs \<Longrightarrow> keeps s (f s)) \<Longrightarrow> keeps s (map_all fs s)"
proof (induction fs arbitrary: s)
  case (Cons f fs)
  have IH: "keeps s (map_all fs s)" for s using Cons.prems by (intro Cons.IH) simp
  show ?case using Cons.prems [of f s] by (auto intro!: IH [THEN keepsE] elim!: keepsE)
qed simp

lemma layout_core:
  "layout_text t = Some t' \<Longrightarrow> core t' = core t" "layout_data t = Some t' \<Longrightarrow> core t' = core t" "core (layout_rest t) = core t"
  by (auto simp: layout_text_def layout_data_def layout_rest_def Let_def core_def split: if_splits)

lemma sched_view_set: "tasks s a = Some t \<Longrightarrow> core t' = core t \<Longrightarrow> sched_view (upd_task a (\<lambda>_. t') s) = sched_view s"
  by (auto simp: sched_view_def upd_task_def fun_eq_iff)

lemma userspace_keeps: "keeps s (userspace_create_new a s)"
proof -
  note map_all.simps [simp del]
  have *: "keeps s (map_all (userspace_map_kernel pd # map_task_section pd text_sec (\<lambda>x t. t\<lparr>text_sec := x\<rparr>) a #
      map_task_section pd stack_sec (\<lambda>x t. t\<lparr>stack_sec := x\<rparr>) a #
      (if b then [map_task_section pd data_sec (\<lambda>x t. t\<lparr>data_sec := x\<rparr>) a] else []) @
      [map_task_section pd sig_trampoline (\<lambda>x t. t\<lparr>sig_trampoline := x\<rparr>) a]) s)" for s pd b
    by (rule map_all_keeps) (auto simp: core_def intro!: map_kernel_keeps map_task_section_keeps split: if_splits)
  have **: "sched_view (upd_task a (\<lambda>_. layout_rest t2) (upd_task a (\<lambda>_. t1) s)) = sched_view s"
    if "tasks s a = Some t" "layout_text t = Some t1" "layout_data t1 = Some t2" for t t1 t2
    using that layout_core sched_view_set [of s a t t1] sched_view_set [of "upd_task a (\<lambda>_. t1) s" a t1 "layout_rest t2"]
    by (auto simp: upd_task_def)
  show ?thesis
    using ** by (auto simp: userspace_create_new_def Let_def layout_core(1) sched_view_set simp del: map_all.simps
        intro!: frame * [of _ _ True, simplified, THEN keepsE] * [of _ _ False, simplified, THEN keepsE] split: option.splits)
qed

lemmas [frame] = userspace_keeps [THEN keepsE]

end
