(* ===== verification/Sched_Inv.thy ===== *)
theory Sched_Inv
  imports Proc_Frame
begin

text \<open>
  The run queue and the wait queues: what each operation of \<^verbatim>\<open>scheduler.c\<close> and \<^verbatim>\<open>waitqueue.c\<close> does to them, and the invariant between
  the queues and the states of the tasks that all of them keep.
\<close>

section \<open>Abstraction\<close>

text \<open>The state of a task and the wait queue it is on; \<open>None\<close> for an address that is no task.\<close>

definition runst :: "kstate \<Rightarrow> u32 \<Rightarrow> process_states option" where
  "runst s a = map_option task_state (tasks s a)"

definition queued :: "kstate \<Rightarrow> u32 \<Rightarrow> wq_id option" where
  "queued s a = (case tasks s a of None \<Rightarrow> None | Some t \<Rightarrow> wq_node (wq_data t))"

definition waiters :: "kstate \<Rightarrow> wq_id \<Rightarrow> u32 list" where
  "waiters s q = get_wq q s"

definition handlers_of :: "kstate \<Rightarrow> u32 \<Rightarrow> (nat \<Rightarrow> u32) option" where
  "handlers_of s a = map_option sig_handlers (tasks s a)"

lemma view_abs:
  assumes "sched_view s' = sched_view s"
  shows "runst s' = runst s" "queued s' = queued s" "waiters s' = waiters s" "handlers_of s' = handlers_of s" "ready_queue s' = ready_queue s"
    "current_task s' = current_task s" "idle_task s' = idle_task s" "kitoxD_task s' = kitoxD_task s" "img s' = img s"
    "\<And>a. (tasks s' a = None) = (tasks s a = None)"
proof -
  have c: "map_option core (tasks s' a) = map_option core (tasks s a)" for a
    using assms by (simp add: sched_view_def fun_eq_iff)
  show "ready_queue s' = ready_queue s" "current_task s' = current_task s" "idle_task s' = idle_task s"
    "kitoxD_task s' = kitoxD_task s" "img s' = img s"
    using assms by (auto simp: sched_view_def)
  have l: "sleep_wq s' = sleep_wq s" using assms by (auto simp: sched_view_def)
  have r: "runst s' a = runst s a \<and> queued s' a = queued s a \<and> handlers_of s' a = handlers_of s a \<and> (tasks s' a = None) = (tasks s a = None)" for a
    using c [of a] by (cases "tasks s a"; cases "tasks s' a") (auto simp: runst_def queued_def handlers_of_def core_def)
  then show "runst s' = runst s" "queued s' = queued s" "handlers_of s' = handlers_of s" "\<And>a. (tasks s' a = None) = (tasks s a = None)" by auto
  show "waiters s' = waiters s"
  proof
    fix q
    show "waiters s' q = waiters s q"
    proof (cases q)
      case (Child_wq p)
      then show ?thesis using c [of p] by (cases "tasks s p"; cases "tasks s' p") (auto simp: waiters_def get_wq_def core_def)
    qed (simp add: l waiters_def get_wq_def)
  qed
qed

lemma runst_None: "runst s a = None \<longleftrightarrow> tasks s a = None" "tasks s a = None \<Longrightarrow> queued s a = None"
  by (auto simp: runst_def queued_def)

section \<open>Effects\<close>

text \<open>Setting the state of a task.\<close>

lemma set_state_effect [simp]:
  fixes s :: kstate and a :: u32 and st :: process_states
  defines "u \<equiv> upd_task a (\<lambda>t. t\<lparr>task_state := st\<rparr>) s"
  shows "runst u = (if tasks s a = None then runst s else (runst s)(a \<mapsto> st))" "queued u = queued s" "waiters u = waiters s"
    "handlers_of u = handlers_of s" "ready_queue u = ready_queue s" "current_task u = current_task s" "idle_task u = idle_task s"
    "kitoxD_task u = kitoxD_task s" "img u = img s" "\<And>b. (tasks u b = None) = (tasks s b = None)"
proof -
  show "waiters u = waiters s"
  proof
    fix q
    show "waiters u q = waiters s q"
      by (cases q) (auto simp: u_def upd_task_def waiters_def get_wq_def split: option.splits)
  qed
qed (auto simp: u_def upd_task_def runst_def queued_def handlers_of_def fun_eq_iff option.map_comp comp_def option.case_eq_if)

lemma queue_fields [simp]:
  "runst (s\<lparr>ready_queue := q\<rparr>) = runst s" "queued (s\<lparr>ready_queue := q\<rparr>) = queued s" "waiters (s\<lparr>ready_queue := q\<rparr>) = waiters s"
  "handlers_of (s\<lparr>ready_queue := q\<rparr>) = handlers_of s"
  "runst (s\<lparr>current_task := c\<rparr>) = runst s" "queued (s\<lparr>current_task := c\<rparr>) = queued s" "waiters (s\<lparr>current_task := c\<rparr>) = waiters s"
  "handlers_of (s\<lparr>current_task := c\<rparr>) = handlers_of s"
  by (auto simp: runst_def queued_def waiters_def handlers_of_def get_wq_def fun_eq_iff split: wq_id.splits)

text \<open>What an operation leaves alone besides the queues.\<close>

definition same_rest :: "kstate \<Rightarrow> kstate \<Rightarrow> bool" where
  "same_rest s s' \<longleftrightarrow> current_task s' = current_task s \<and> idle_task s' = idle_task s \<and> kitoxD_task s' = kitoxD_task s \<and> img s' = img s \<and>
     handlers_of s' = handlers_of s"

lemma sched_enqueue_effect:
  "okr (\<lambda>(r, s'). same_rest s s' \<and> queued s' = queued s \<and> waiters s' = waiters s \<and>
      (if a = 0 \<or> a \<in> set (ready_queue s) then s' = s
       else tasks s a \<noteq> None \<and> ready_queue s' = ready_queue s @ [a] \<and> runst s' = (runst s)(a \<mapsto> TASK_RUNNING)))
    (sched_enqueue a s)"
  by (auto simp: sched_enqueue_def same_rest_def)

lemma wq_unlink_effect:
  assumes "queued s a = Some q"
  shows "runst (wq_unlink a s) = runst s" "queued (wq_unlink a s) = (queued s)(a := None)" "ready_queue (wq_unlink a s) = ready_queue s"
    "waiters (wq_unlink a s) = (waiters s)(q := remove1 a (waiters s q))" "same_rest s (wq_unlink a s)"
    "\<And>b. (tasks (wq_unlink a s) b = None) = (tasks s b = None)"
proof -
  obtain t where t: "tasks s a = Some t" "wq_node (wq_data t) = Some q" using assms by (auto simp: queued_def split: option.splits)
  note d = wq_unlink_def upd_wq_def upd_task_def
  show "runst (wq_unlink a s) = runst s" "queued (wq_unlink a s) = (queued s)(a := None)"
    using t by (auto simp: d runst_def queued_def fun_eq_iff option.map_comp comp_def split: wq_id.splits option.splits)
  show "ready_queue (wq_unlink a s) = ready_queue s" using t by (simp add: d split: wq_id.splits)
  show "same_rest s (wq_unlink a s)"
    using t by (auto simp: d same_rest_def handlers_of_def fun_eq_iff option.map_comp comp_def split: wq_id.splits)
  show "\<And>b. (tasks (wq_unlink a s) b = None) = (tasks s b = None)" using t by (auto simp: d split: wq_id.splits)
  show "waiters (wq_unlink a s) = (waiters s)(q := remove1 a (waiters s q))"
  proof
    fix q'
    show "waiters (wq_unlink a s) q' = ((waiters s)(q := remove1 a (waiters s q))) q'"
      using t by (cases q; cases q') (auto simp: d waiters_def get_wq_def split: option.splits)
  qed
qed

lemma wq_finish_effect:
  "okr (\<lambda>s'. if queued s a = None then s' = s
     else same_rest s s' \<and> runst s' = (runst s)(a \<mapsto> TASK_RUNNING) \<and> queued s' = (queued s)(a := None) \<and>
       (\<forall>q. queued s a = Some q \<longrightarrow> waiters s' = (waiters s)(q := remove1 a (waiters s q))) \<and>
       ready_queue s' = (if a = 0 \<or> a \<in> set (ready_queue s) then ready_queue s else ready_queue s @ [a]))
    (wq_finish a s)"
proof (cases "queued s a")
  case None
  then show ?thesis by (auto simp: wq_finish_def queued_def)
next
  case (Some q)
  let ?s = "upd_task a (\<lambda>t. t\<lparr>task_state := TASK_RUNNING\<rparr>) (wq_unlink a s)"
  note u = wq_unlink_effect [OF Some]
  obtain t where t: "tasks s a = Some t" "wq_node (wq_data t) = Some q" using Some by (auto simp: queued_def split: option.splits)
  have r: "runst ?s = (runst s)(a \<mapsto> TASK_RUNNING)" using t u(6) [of a] by (auto simp: u(1))
  have init: "runst (upd_task a (\<lambda>t. t\<lparr>wq_data := wq_entry_init (wq_st (wq_data t))\<rparr>) x) = runst x"
      "queued (upd_task a (\<lambda>t. t\<lparr>wq_data := wq_entry_init (wq_st (wq_data t))\<rparr>) x) = (queued x)(a := None)"
      "waiters (upd_task a (\<lambda>t. t\<lparr>wq_data := wq_entry_init (wq_st (wq_data t))\<rparr>) x) = waiters x"
      "same_rest x (upd_task a (\<lambda>t. t\<lparr>wq_data := wq_entry_init (wq_st (wq_data t))\<rparr>) x)"
      "ready_queue (upd_task a (\<lambda>t. t\<lparr>wq_data := wq_entry_init (wq_st (wq_data t))\<rparr>) x) = ready_queue x" for x
  proof -
    show "waiters (upd_task a (\<lambda>t. t\<lparr>wq_data := wq_entry_init (wq_st (wq_data t))\<rparr>) x) = waiters x"
    proof
      fix q
      show "waiters (upd_task a (\<lambda>t. t\<lparr>wq_data := wq_entry_init (wq_st (wq_data t))\<rparr>) x) q = waiters x q"
        by (cases q) (auto simp: waiters_def get_wq_def upd_task_def split: option.splits)
    qed
  qed (auto simp: runst_def queued_def same_rest_def handlers_of_def upd_task_def wq_entry_init_def fun_eq_iff option.map_comp comp_def split: option.splits)
  have sr: "same_rest s ?s" using u(5) by (simp add: same_rest_def)
  have "wq_finish a s = kbind (sched_enqueue a ?s) (\<lambda>(_, s). Inr (upd_task a (\<lambda>t. t\<lparr>wq_data := wq_entry_init (wq_st (wq_data t))\<rparr>) s))"
    using t by (simp add: wq_finish_def Let_def)
  then show ?thesis
    by (simp only: okr_simps(3), intro sched_enqueue_effect [THEN okr_mono])
      (use Some sr r u init in \<open>auto simp: same_rest_def split: if_splits\<close>)
qed

lemma wq_link_effect:
  assumes "tasks s a \<noteq> None" "\<And>p. q = Child_wq p \<Longrightarrow> tasks s p \<noteq> None"
  shows "runst (wq_link q a s) = runst s" "queued (wq_link q a s) = (queued s)(a \<mapsto> q)" "ready_queue (wq_link q a s) = ready_queue s"
    "waiters (wq_link q a s) = (waiters s)(q := a # waiters s q)" "same_rest s (wq_link q a s)"
proof -
  obtain t where t: "tasks s a = Some t" using assms by auto
  note d = wq_link_def upd_wq_def upd_task_def
  show "runst (wq_link q a s) = runst s" "queued (wq_link q a s) = (queued s)(a \<mapsto> q)"
    using t by (auto simp: d runst_def queued_def fun_eq_iff option.map_comp comp_def split: wq_id.splits option.splits)
  show "ready_queue (wq_link q a s) = ready_queue s" by (simp add: d split: wq_id.splits)
  show "same_rest s (wq_link q a s)" by (auto simp: d same_rest_def handlers_of_def fun_eq_iff option.map_comp comp_def split: wq_id.splits)
  show "waiters (wq_link q a s) = (waiters s)(q := a # waiters s q)"
  proof
    fix q'
    show "waiters (wq_link q a s) q' = ((waiters s)(q := a # waiters s q)) q'"
      using t assms(2) by (cases q; cases q') (auto simp: d waiters_def get_wq_def split: option.splits)
  qed
qed

section \<open>Invariant\<close>

text \<open>
  Every task on the run queue is running and waits for nothing; the lists of waiters are what the tasks say they are on; a task that is on one is waiting,
  and waits to be woken by the timer or by one of its own children. The idle task is on no queue. The
  current task is on none either, unless it is about to give up the CPU; neither of the two is a zombie.
\<close>

definition queues_ok :: "kstate \<Rightarrow> bool" where
  "queues_ok s \<longleftrightarrow>
     distinct (ready_queue s) \<and>
     (\<forall>a \<in> set (ready_queue s). a \<noteq> 0 \<and> a \<noteq> idle_task s \<and> runst s a = Some TASK_RUNNING \<and> queued s a = None) \<and>
     (\<forall>q. distinct (waiters s q) \<and> (\<forall>a. a \<in> set (waiters s q) \<longleftrightarrow> queued s a = Some q)) \<and>
     (\<forall>a q. queued s a = Some q \<longrightarrow> runst s a = Some TASK_WAITING \<and> a \<noteq> 0 \<and> a \<noteq> idle_task s \<and> (q = Sleep_wq \<or> q = Child_wq a)) \<and>
     (idle_task s \<noteq> 0 \<longrightarrow> runst s (idle_task s) \<noteq> None \<and> runst s (idle_task s) \<noteq> Some TASK_ZOMBIE) \<and>
     runst s 0 = None"

definition current_ok :: "kstate \<Rightarrow> bool" where
  "current_ok s \<longleftrightarrow> current_task s \<notin> set (ready_queue s) \<and> queued s (current_task s) = None \<and>
     runst s (current_task s) \<noteq> None \<and> runst s (current_task s) \<noteq> Some TASK_ZOMBIE"

definition sched_inv :: "kstate \<Rightarrow> bool" where
  "sched_inv s \<longleftrightarrow> queues_ok s \<and> current_ok s"

text \<open>
  No task is lost: one that waits is on a wait queue, and one that can run is on the run queue. The idle task and the boot thread are never on it, and the tasks of \<open>E\<close> may
  be off it for the moment.
\<close>

definition lossless :: "u32 set \<Rightarrow> kstate \<Rightarrow> bool" where
  "lossless E s \<longleftrightarrow> (\<forall>a. (runst s a = Some TASK_WAITING \<longrightarrow> queued s a \<noteq> None) \<and>
     (runst s a = Some TASK_RUNNING \<longrightarrow> a \<in> set (ready_queue s) \<or> a \<in> E \<or> a = idle_task s \<or> a = task_get_dummy s))"

lemma lossless_mono: "lossless E s \<Longrightarrow> E \<subseteq> F \<Longrightarrow> lossless F s"
  unfolding lossless_def by blast

lemma lossless_drop: "lossless (insert a E) s \<Longrightarrow> runst s a \<noteq> Some TASK_RUNNING \<Longrightarrow> lossless E s"
  unfolding lossless_def by blast

lemma queues_okD:
  assumes "queues_ok s"
  shows "distinct (ready_queue s)" "\<And>a. a \<in> set (ready_queue s) \<Longrightarrow> a \<noteq> 0" "\<And>a. a \<in> set (ready_queue s) \<Longrightarrow> a \<noteq> idle_task s"
    "\<And>a. a \<in> set (ready_queue s) \<Longrightarrow> runst s a = Some TASK_RUNNING" "\<And>a. a \<in> set (ready_queue s) \<Longrightarrow> queued s a = None"
    "\<And>q. distinct (waiters s q)" "\<And>a q. a \<in> set (waiters s q) \<longleftrightarrow> queued s a = Some q"
    "\<And>a q. queued s a = Some q \<Longrightarrow> runst s a = Some TASK_WAITING" "\<And>a q. queued s a = Some q \<Longrightarrow> a \<noteq> 0"
    "\<And>a q. queued s a = Some q \<Longrightarrow> a \<noteq> idle_task s" "\<And>a q. queued s a = Some q \<Longrightarrow> q = Sleep_wq \<or> q = Child_wq a"
    "idle_task s \<noteq> 0 \<Longrightarrow> runst s (idle_task s) \<noteq> None \<and> runst s (idle_task s) \<noteq> Some TASK_ZOMBIE" "runst s 0 = None"
  using assms unfolding queues_ok_def by blast+

lemma view_inv:
  assumes "sched_view s' = sched_view s"
  shows "queues_ok s' = queues_ok s" "current_ok s' = current_ok s" "sched_inv s' = sched_inv s" "same_rest s s'" "lossless E s' = lossless E s"
  by (simp_all add: queues_ok_def current_ok_def sched_inv_def same_rest_def lossless_def task_get_dummy_def view_abs [OF assms])

text \<open>Waking a task up.\<close>

lemma queues_ok_wake:
  assumes q: "queues_ok s" and qa: "queued s a = Some q" and "idle_task s' = idle_task s"
    and "runst s' = (runst s)(a \<mapsto> TASK_RUNNING)" "queued s' = (queued s)(a := None)"
      "waiters s' = (waiters s)(q := remove1 a (waiters s q))" "ready_queue s' = ready_queue s @ [a]"
  shows "queues_ok s'"
proof -
  note d = queues_okD [OF q]
  have a: "a \<notin> set (ready_queue s)" using d(5) qa by force
  have w: "distinct (waiters s' p) \<and> (\<forall>b. b \<in> set (waiters s' p) \<longleftrightarrow> queued s' b = Some p)" for p
    using d(6) [of p] d(6) [of q] d(7) [of _ p] qa assms by (auto simp: distinct_remove1)
  show ?thesis
    unfolding queues_ok_def using w assms a d(1-5) d(8-13) qa
    by (auto simp del: fun_upd_apply simp: fun_upd_apply)
qed

lemma wq_finish_ok:
  assumes "queues_ok s"
  shows "okr (\<lambda>s'. queues_ok s' \<and> same_rest s s' \<and> (current_ok s \<longrightarrow> current_ok s') \<and>
      queued s' = (queued s)(a := None) \<and> (\<forall>b. b \<noteq> a \<longrightarrow> runst s' b = runst s b) \<and>
      set (ready_queue s) \<subseteq> set (ready_queue s') \<and> (\<forall>b. b \<noteq> a \<longrightarrow> b \<notin> set (ready_queue s) \<longrightarrow> b \<notin> set (ready_queue s')))
    (wq_finish a s)"
proof (cases "queued s a")
  case None
  have "okr (\<lambda>s'. s' = s) (wq_finish a s)" using wq_finish_effect [of s a] None by simp
  then show ?thesis by (rule okr_mono) (use assms None in \<open>auto simp: same_rest_def\<close>)
next
  case (Some q)
  note d = queues_okD [OF assms]
  have a: "a \<noteq> 0" "a \<notin> set (ready_queue s)" using d(5,9) Some by force+
  have "okr (\<lambda>s'. same_rest s s' \<and> runst s' = (runst s)(a \<mapsto> TASK_RUNNING) \<and> queued s' = (queued s)(a := None) \<and>
      waiters s' = (waiters s)(q := remove1 a (waiters s q)) \<and> ready_queue s' = ready_queue s @ [a]) (wq_finish a s)"
    using wq_finish_effect [of s a] Some a by simp
  then show ?thesis
    by (rule okr_mono) (use queues_ok_wake [OF assms Some] Some in \<open>auto simp: same_rest_def current_ok_def\<close>)
qed

lemma wq_finish_lossless:
  assumes "queues_ok s" "lossless E s"
  shows "okr (lossless E) (wq_finish a s)"
proof (cases "queued s a")
  case None
  have "okr (\<lambda>s'. s' = s) (wq_finish a s)" using wq_finish_effect [of s a] None by simp
  then show ?thesis by (rule okr_mono) (use assms in simp)
next
  case (Some q)
  have "a \<noteq> 0" using queues_okD(9) [OF assms(1) Some] .
  then show ?thesis
    by (intro wq_finish_effect [THEN okr_mono]) (use Some assms(2) in \<open>auto simp: lossless_def same_rest_def task_get_dummy_def split: if_splits\<close>)
qed

lemma same_rest_trans: "same_rest s t \<Longrightarrow> same_rest t u \<Longrightarrow> same_rest s u"
  by (simp add: same_rest_def)

lemma same_rest_refl [simp]: "same_rest s s"
  by (simp add: same_rest_def)

text \<open>The loop of \<^verbatim>\<open>wq_wake_all\<close> ends, with an empty queue.\<close>

lemma wq_finish_total: "queued s a = Some q \<Longrightarrow> \<exists>s'. wq_finish a s = Inr s'"
proof -
  assume "queued s a = Some q"
  then obtain t where t: "tasks s a = Some t" "wq_node (wq_data t) = Some q" by (auto simp: queued_def split: option.splits)
  moreover obtain t' where "tasks (wq_unlink a s) a = Some t'"
    using wq_unlink_effect(6) [OF \<open>queued s a = Some q\<close>, of a] t by auto
  ultimately show ?thesis by (auto simp: wq_finish_def Let_def sched_enqueue_def upd_task_def kbind_def)
qed

lemma wake_all_total:
  assumes "queues_ok s"
  shows "\<exists>s'. wq_wake_all_loop q s = Some (Inr s') \<and> waiters s' q = [] \<and> queues_ok s' \<and> same_rest s s' \<and> (current_ok s \<longrightarrow> current_ok s') \<and>
    (\<forall>b. queued s b = None \<longrightarrow> runst s' b = runst s b \<and> queued s' b = None) \<and>
    (\<forall>b. queued s b = None \<longrightarrow> b \<notin> set (ready_queue s) \<longrightarrow> b \<notin> set (ready_queue s')) \<and> (\<forall>E. lossless E s \<longrightarrow> lossless E s')"
  using assms
proof (induction "length (waiters s q)" arbitrary: s)
  case 0
  then show ?case by (subst wq_wake_all_loop.simps) (simp add: waiters_def)
next
  case (Suc n)
  then obtain a as where w: "waiters s q = a # as" by (cases "waiters s q") auto
  have qa: "queued s a = Some q" using queues_okD(7) [OF Suc.prems, of a q] w by simp
  obtain s1 where s1: "wq_finish a s = Inr s1" using wq_finish_total [OF qa] by blast
  note ok = wq_finish_ok [OF Suc.prems, of a, THEN okrD, OF s1]
  have "waiters s1 q = as" using wq_finish_effect [of s a, THEN okrD, OF s1] qa w by simp
  then obtain s' where s': "wq_wake_all_loop q s1 = Some (Inr s')" "waiters s' q = []" "queues_ok s'" "same_rest s1 s'" "current_ok s1 \<longrightarrow> current_ok s'"
      "\<forall>b. queued s1 b = None \<longrightarrow> runst s' b = runst s1 b \<and> queued s' b = None"
      "\<forall>b. queued s1 b = None \<longrightarrow> b \<notin> set (ready_queue s1) \<longrightarrow> b \<notin> set (ready_queue s')" "\<forall>E. lossless E s1 \<longrightarrow> lossless E s'"
    using Suc.hyps(1) [of s1] Suc.hyps(2) w ok by auto
  have "wq_wake_all_loop q s = Some (Inr s')"
    using w s1 s'(1) by (subst wq_wake_all_loop.simps) (simp add: waiters_def)
  moreover have "b \<noteq> a" if "queued s b = None" for b using that qa by auto
  moreover have "lossless E s1" if "lossless E s" for E using wq_finish_lossless [OF Suc.prems that, of a, THEN okrD, OF s1] .
  ultimately show ?case using ok s' by (intro exI [of _ s']) (auto intro: same_rest_trans)
qed

lemma wq_wake_all_ok:
  assumes "queues_ok s"
  shows "okr (\<lambda>s'. queues_ok s' \<and> same_rest s s' \<and> (current_ok s \<longrightarrow> current_ok s') \<and>
     (\<forall>b. queued s b = None \<longrightarrow> runst s' b = runst s b \<and> queued s' b = None) \<and>
     (\<forall>b. queued s b = None \<longrightarrow> b \<notin> set (ready_queue s) \<longrightarrow> b \<notin> set (ready_queue s')) \<and> (\<forall>E. lossless E s \<longrightarrow> lossless E s')) (wq_wake_all q s)"
  using wake_all_total [OF assms, of q] by (auto simp: wq_wake_all_def)

text \<open>What the operations that wake tasks keep.\<close>

abbreviation kept :: "kstate \<Rightarrow> kstate \<Rightarrow> bool" where
  "kept s s' \<equiv> sched_inv s' \<and> same_rest s s' \<and> (\<forall>E. lossless E s \<longrightarrow> lossless E s')"

lemma kept_trans: "kept s t \<Longrightarrow> kept t u \<Longrightarrow> kept s u"
  by (auto intro: same_rest_trans)

lemma inv_finish: "sched_inv s \<Longrightarrow> okr (kept s) (wq_finish a s)"
proof (rule okrI)
  fix s'
  assume h: "sched_inv s" "wq_finish a s = Inr s'"
  then have q: "queues_ok s" "current_ok s" by (simp_all add: sched_inv_def)
  show "kept s s'"
    using wq_finish_ok [OF q(1), of a, THEN okrD, OF h(2)] wq_finish_lossless [OF q(1), of _ a, THEN okrD, OF _ h(2)] q(2)
    by (auto simp: sched_inv_def)
qed

lemma inv_wake_sleepers: "sched_inv s \<Longrightarrow> okr (kept s) (wake_sleepers_loop as s)"
proof (induction as arbitrary: s)
  case (Cons a as)
  have *: "okr (kept s) (wake_sleepers_loop as s1)" if "kept s s1" for s1
    using that by (intro Cons.IH [of s1, THEN okr_mono]) (auto intro: same_rest_trans)
  show ?case
    using Cons.IH [OF Cons.prems] by (auto intro!: inv_finish [OF Cons.prems, THEN okr_mono] *)
qed simp

lemma inv_signal_send: "sched_inv s \<Longrightarrow> okr (kept s) (signal_send sig a s)"
proof -
  assume h: "sched_inv s"
  let ?u = "\<lambda>s. upd_task a (\<lambda>t. t\<lparr>signals_map := signals_map t OR push_bit (unat sig) 1\<rparr>) s"
  have u: "kept s (?u s)" using h by (simp add: view_inv(3,4,5) [OF sched_view_upd_simps(6)])
  have *: "okr (kept s) (wq_finish a (?u s))"
    using u by (intro inv_finish [THEN okr_mono]) (auto intro: same_rest_trans)
  show ?thesis using h u * by (auto simp: signal_send_def wq_signal_wake_up_def wq_wake_specifiq_def)
qed

text \<open>Giving up the CPU.\<close>

lemma wq_prepare_ok:
  assumes "queues_ok s" and "queued s a = None" and "a \<noteq> 0" and "a \<noteq> idle_task s" and q: "q = Sleep_wq \<or> q = Child_wq a"
  shows "okr (\<lambda>s'. queues_ok s' \<and> same_rest s s' \<and> a \<notin> set (ready_queue s') \<and> queued s' = (queued s)(a \<mapsto> q) \<and>
    ready_queue s' = remove1 a (ready_queue s) \<and> waiters s' = (waiters s)(q := a # waiters s q) \<and>
    (\<forall>E. lossless E s \<longrightarrow> lossless (E - {a}) s')) (wq_prepare q a s)"
proof -
  note d = queues_okD [OF assms(1)]
  have *: "queues_ok s' \<and> same_rest s s' \<and> a \<notin> set (ready_queue s') \<and> queued s' = (queued s)(a \<mapsto> q) \<and>
      ready_queue s' = remove1 a (ready_queue s) \<and> waiters s' = (waiters s)(q := a # waiters s q) \<and>
      (\<forall>E. lossless E s \<longrightarrow> lossless (E - {a}) s')"
    if s': "wq_prepare q a s = Inr s'" for s'
  proof -
    let ?f = "\<lambda>t. t\<lparr>wq_data := (wq_data t)\<lparr>wq_head := Some q\<rparr>, task_state := TASK_WAITING, need_resched := True\<rparr>"
    let ?s1 = "sched_unlink a (upd_task a ?f s)"
    obtain t where t: "tasks s a = Some t" using s' by (auto simp: wq_prepare_def kres_simps)
    have wq: "wq_node (wq_data t) = None" using assms(2) t by (simp add: queued_def)
    have u: "wq_unlink a ?s1 = ?s1" using t wq by (simp add: wq_unlink_def sched_unlink_def upd_task_def)
    have e: "runst ?s1 = (runst s)(a \<mapsto> TASK_WAITING)" "queued ?s1 = queued s" "waiters ?s1 = waiters s" "same_rest s ?s1"
      "ready_queue ?s1 = remove1 a (ready_queue s)" "tasks ?s1 a \<noteq> None"
    proof -
      show "waiters ?s1 = waiters s"
      proof
        fix p
        show "waiters ?s1 p = waiters s p"
          using t by (cases p) (auto simp: waiters_def get_wq_def sched_unlink_def upd_task_def split: option.splits)
      qed
    qed (use t in \<open>auto simp: runst_def queued_def same_rest_def handlers_of_def sched_unlink_def upd_task_def fun_eq_iff\<close>)
    have "s' = wq_link q a ?s1" using s' t u by (simp add: wq_prepare_def Let_def)
    moreover have "\<And>p. q = Child_wq p \<Longrightarrow> tasks ?s1 p \<noteq> None" using q e(6) by auto
    ultimately have l: "runst s' = (runst s)(a \<mapsto> TASK_WAITING)" "queued s' = (queued s)(a \<mapsto> q)" "ready_queue s' = remove1 a (ready_queue s)"
        "waiters s' = (waiters s)(q := a # waiters s q)" "same_rest s s'"
      using wq_link_effect [of ?s1 a q] e by (auto intro: same_rest_trans)
    have idle: "idle_task s' = idle_task s" using l(5) by (simp add: same_rest_def)
    have r: "b \<noteq> 0 \<and> b \<noteq> idle_task s' \<and> runst s' b = Some TASK_RUNNING \<and> queued s' b = None" if "b \<in> set (ready_queue s')" for b
    proof -
      have "b \<in> set (ready_queue s)" "b \<noteq> a" using that l(3) d(1) by (auto simp: set_remove1_eq)
      then show ?thesis using d(2-5) [of b] l idle by simp
    qed
    have w: "distinct (waiters s' p) \<and> (\<forall>b. b \<in> set (waiters s' p) \<longleftrightarrow> queued s' b = Some p)" for p
      using d(6) [of p] d(7) [of _ p] l(2,4) assms(2) by auto
    have z: "runst s' b = Some TASK_WAITING \<and> b \<noteq> 0 \<and> b \<noteq> idle_task s' \<and> (p = Sleep_wq \<or> p = Child_wq b)" if "queued s' b = Some p" for b p
    proof (cases "b = a")
      case True
      then show ?thesis using that l assms(3,4) q idle by auto
    next
      case False
      then have "queued s b = Some p" using that l(2) by simp
      then show ?thesis using d(8-11) [of b p] l idle False by simp
    qed
    have i: "idle_task s' \<noteq> 0 \<longrightarrow> runst s' (idle_task s') \<noteq> None \<and> runst s' (idle_task s') \<noteq> Some TASK_ZOMBIE"
      using d(12) l(1) idle assms(4) by simp
    have "queues_ok s'" unfolding queues_ok_def using r w z i l(1,3) d(1,13) assms(3) by (simp add: distinct_remove1)
    moreover have "a \<notin> set (ready_queue s')" using l(3) d(1) by (simp add: set_remove1_eq)
    moreover have "lossless (E - {a}) s'" if "lossless E s" for E
      using that l by (auto simp: lossless_def same_rest_def task_get_dummy_def)
    ultimately show ?thesis using l by blast
  qed
  then show ?thesis by (rule okrI)
qed

lemma current_enqueue_ok:
  assumes "queues_ok s" and "current_task s \<notin> set (ready_queue s)" and "current_task s \<noteq> 0"
    and "runst s (current_task s) = Some TASK_RUNNING" and "current_task s \<noteq> idle_task s"
  shows "okr (\<lambda>(r, s'). queues_ok s' \<and> same_rest s s' \<and> ready_queue s' = ready_queue s @ [current_task s] \<and> runst s' = runst s \<and>
      queued s' = queued s \<and> waiters s' = waiters s) (sched_enqueue (current_task s) s)"
proof (rule sched_enqueue_effect [THEN okr_mono], clarify)
  fix r s'
  assume h: "same_rest s s'" "queued s' = queued s" "waiters s' = waiters s" and
    c: "if current_task s = 0 \<or> current_task s \<in> set (ready_queue s) then s' = s
        else tasks s (current_task s) \<noteq> None \<and> ready_queue s' = ready_queue s @ [current_task s] \<and> runst s' = (runst s)(current_task s \<mapsto> TASK_RUNNING)"
  have rq: "ready_queue s' = ready_queue s @ [current_task s]" and rs: "runst s' = runst s"
    using c assms(2,3,4) by (auto simp: fun_eq_iff)
  have "queued s (current_task s) = None"
    using queues_okD(8) [OF assms(1), of "current_task s"] assms(4) by (cases "queued s (current_task s)") auto
  then have "queues_ok s'"
    using assms h rq rs by (auto simp: queues_ok_def same_rest_def)
  then show "queues_ok s' \<and> same_rest s s' \<and> ready_queue s' = ready_queue s @ [current_task s] \<and> runst s' = runst s \<and>
      queued s' = queued s \<and> waiters s' = waiters s"
    using h rq rs by blast
qed

lemma sched_choose_ok:
  assumes "queues_ok s" and "idle_task s \<noteq> 0"
  shows "okr (\<lambda>(nxt, s'). queues_ok s' \<and> same_rest s s' \<and> nxt \<notin> set (ready_queue s') \<and> queued s' nxt = None \<and>
      (nxt \<noteq> 0 \<longrightarrow> runst s' nxt = Some TASK_RUNNING) \<and> (nxt = 0 \<longrightarrow> current_task s = idle_task s \<and> ready_queue s = [])) (sched_choose s)"
proof (cases "ready_queue s")
  case Nil
  have i: "queued s (idle_task s) = None" using queues_okD(10) [OF assms(1)] by (cases "queued s (idle_task s)") auto
  have z: "queued s 0 = None" using queues_okD(9) [OF assms(1)] by (cases "queued s 0") auto
  have *: "queues_ok (upd_task (idle_task s) (\<lambda>t. t\<lparr>task_state := TASK_RUNNING\<rparr>) s)"
    using assms i Nil by (auto simp: queues_ok_def)
  have "tasks s (idle_task s) \<noteq> None" using queues_okD(12) [OF assms] by (simp add: runst_None)
  then show ?thesis using Nil assms i z * by (auto simp: sched_choose_def pick_next_def Let_def same_rest_def)
next
  case (Cons a as)
  have "a \<noteq> 0" "queued s a = None" "runst s a = Some TASK_RUNNING" using queues_okD(2,4,5) [OF assms(1), of a] Cons by auto
  moreover have "queues_ok (s\<lparr>ready_queue := as\<rparr>)" "a \<notin> set as" using assms Cons by (auto simp: queues_ok_def)
  moreover have "same_rest s (s\<lparr>ready_queue := as\<rparr>)" by (simp add: same_rest_def)
  ultimately show ?thesis using Cons by (auto simp: sched_choose_def pick_next_def Let_def same_rest_def)
qed

lemma switch_to_keeps: "keeps1 s (switch_to cur nxt rp s)"
  by (simp add: switch_to_def Let_def)

text \<open>After \<^verbatim>\<open>schedule\<close> the invariant holds in full for the task that now has the CPU.\<close>

definition same_rest' :: "kstate \<Rightarrow> kstate \<Rightarrow> bool" where
  "same_rest' s s' \<longleftrightarrow> idle_task s' = idle_task s \<and> kitoxD_task s' = kitoxD_task s \<and> img s' = img s \<and> handlers_of s' = handlers_of s"

lemma same_rest'_trans: "same_rest' s t \<Longrightarrow> same_rest' t u \<Longrightarrow> same_rest' s u"
  by (simp add: same_rest'_def)

lemma same_rest_weaken: "same_rest s t \<Longrightarrow> same_rest' s t"
  by (simp add: same_rest_def same_rest'_def)

lemma sched_requeue_ok:
  assumes "queues_ok s" and "current_task s \<notin> set (ready_queue s)" and "tasks s (current_task s) = Some t" and "current_task s \<noteq> 0"
  shows "okr (\<lambda>s'. queues_ok s' \<and> same_rest s s' \<and> (lossless {current_task s} s \<longrightarrow> lossless {} s')) (sched_requeue t s)"
proof (cases "task_state t = TASK_RUNNING \<and> current_task s \<noteq> idle_task s \<and> current_task s \<noteq> task_get_dummy s")
  case True
  then have r: "runst s (current_task s) = Some TASK_RUNNING" "current_task s \<noteq> idle_task s" using assms(3) by (simp_all add: runst_def)
  show ?thesis
    using True by (auto simp: sched_requeue_def lossless_def same_rest_def task_get_dummy_def intro!: current_enqueue_ok [OF assms(1,2,4) r, THEN okr_mono])
next
  case False
  then have "sched_requeue t s = Inr s" by (auto simp: sched_requeue_def)
  moreover have "lossless {} s" if "lossless {current_task s} s" using that False assms(3) by (auto simp: lossless_def runst_def)
  ultimately show ?thesis using assms(1) by simp
qed

lemma sched_choose_lossless: "queues_ok s \<Longrightarrow> lossless {} s \<Longrightarrow> okr (\<lambda>(nxt, s'). lossless {nxt} s') (sched_choose s)"
proof (cases "ready_queue s")
  case Nil
  assume l: "lossless {} s"
  have "lossless {idle_task s} (upd_task (idle_task s) (\<lambda>t. t\<lparr>task_state := TASK_RUNNING\<rparr>) s)"
    using l unfolding lossless_def task_get_dummy_def by simp blast
  then show ?thesis
    using Nil lossless_mono [OF l, of "{0}"] by (simp add: sched_choose_def pick_next_def Let_def)
next
  case (Cons a as)
  assume q: "queues_ok s" and l: "lossless {} s"
  have "lossless {a} (s\<lparr>ready_queue := as\<rparr>)"
    using l Cons unfolding lossless_def task_get_dummy_def by simp blast
  moreover have "a \<noteq> 0" using queues_okD(2) [OF q] Cons by simp
  ultimately show ?thesis using Cons by (auto simp: sched_choose_def pick_next_def Let_def)
qed

lemma sched_run_ok:
  assumes "queues_ok s" and "nxt \<notin> set (ready_queue s)" and "queued s nxt = None" and "nxt = 0 \<longrightarrow> current_task s = idle_task s"
    and "nxt \<noteq> 0 \<longrightarrow> runst s nxt = Some TASK_RUNNING" and "idle_task s \<noteq> 0"
  shows "okr (\<lambda>(sw, s'). sched_inv s' \<and> same_rest' s s' \<and> (\<not> sw \<longrightarrow> current_task s' = idle_task s) \<and>
    (lossless {nxt} s \<longrightarrow> lossless {current_task s'} s')) (sched_run cur nxt rp s)"
proof (cases "nxt = 0")
  case True
  then have c: "current_task s = idle_task s" using assms by simp
  have "queued s (idle_task s) = None" using queues_okD(10) [OF assms(1)] by (cases "queued s (idle_task s)") auto
  moreover have "idle_task s \<notin> set (ready_queue s)" using queues_okD(3) [OF assms(1)] by blast
  ultimately have "sched_inv s" using assms(1) c queues_okD(12) [OF assms(1,6)] by (simp add: sched_inv_def current_ok_def)
  moreover have "lossless {idle_task s} s" if "lossless {0} s"
    using lossless_mono [OF lossless_drop [OF that]] queues_okD(13) [OF assms(1)] by simp
  ultimately show ?thesis using True c by (simp add: sched_run_def same_rest'_def)
next
  case False
  let ?s1 = "task_set_current_task nxt s"
  let ?s2 = "upd_task nxt (\<lambda>t. t\<lparr>quantum_remaining := DEFAULT_QUANTUM\<rparr>) ?s1"
  have "sched_inv ?s1"
    using assms(1-3,5) False by (simp add: sched_inv_def current_ok_def task_set_current_task_def queues_ok_def)
  then have 1: "sched_inv ?s2" by (simp only: view_inv(3) [OF sched_view_upd_simps(9)])
  have 2: "same_rest' s ?s2"
    using view_inv(4) [OF sched_view_upd_simps(9) [of nxt "\<lambda>_. DEFAULT_QUANTUM" ?s1]]
    by (simp add: same_rest_def same_rest'_def task_set_current_task_def)
  have "lossless {nxt} s \<longrightarrow> lossless {nxt} ?s1" by (simp add: lossless_def task_get_dummy_def task_set_current_task_def)
  then have 3: "lossless {nxt} s \<longrightarrow> lossless {nxt} ?s2" by (simp only: view_inv(5) [OF sched_view_upd_simps(9)])
  have c: "current_task ?s2 = nxt" by (simp add: upd_task_def task_set_current_task_def)
  have "sched_inv s4 \<and> same_rest' s s4 \<and> (lossless {nxt} s \<longrightarrow> lossless {current_task s4} s4)" if "sched_view s4 = sched_view ?s2" for s4
  proof -
    have "same_rest' s s4" using same_rest'_trans [OF 2 same_rest_weaken [OF view_inv(4) [OF that]]] .
    moreover have "sched_inv s4" using 1 by (simp only: view_inv(3) [OF that])
    moreover have "current_task s4 = nxt" using view_abs(6) [OF that] c by simp
    ultimately show ?thesis using 3 by (simp only: view_inv(5) [OF that])
  qed
  then show ?thesis using False by (auto simp: sched_run_def intro!: switch_to_keeps [THEN keeps1E])
qed

lemma schedule_ok:
  assumes "queues_ok s" and "current_task s \<notin> set (ready_queue s)"
  shows "okr (\<lambda>(sw, s'). sched_inv s' \<and> same_rest' s s' \<and> (\<not> sw \<longrightarrow> current_task s' = idle_task s) \<and>
    (lossless {current_task s} s \<longrightarrow> lossless {current_task s'} s')) (schedule rp s)"
proof (rule okrI, clarify)
  fix sw s'
  assume "schedule rp s = Inr (sw, s')"
  then obtain t s1 nxt s2 where h: "idle_task s \<noteq> 0" "current_task s \<noteq> 0" "tasks s (current_task s) = Some t" "sched_requeue t s = Inr s1"
      "sched_choose s1 = Inr (nxt, s2)" "sched_run (current_task s) nxt rp s2 = Inr (sw, s')"
    by (auto simp: schedule_def Let_def kres_simps split: if_splits)
  have 1: "queues_ok s1" "same_rest s s1" "lossless {current_task s} s \<longrightarrow> lossless {} s1"
    using sched_requeue_ok [OF assms h(3,2), THEN okrD, OF h(4)] by auto
  then have "idle_task s1 \<noteq> 0" using h(1) by (simp add: same_rest_def)
  note 2 = sched_choose_ok [OF 1(1) this, THEN okrD, OF h(5), simplified]
  have l2: "lossless {} s1 \<longrightarrow> lossless {nxt} s2" using sched_choose_lossless [OF 1(1), THEN okrD, OF _ h(5)] by auto
  have "nxt = 0 \<longrightarrow> current_task s2 = idle_task s2" using 2 by (simp add: same_rest_def)
  moreover have "idle_task s2 \<noteq> 0" using 2 \<open>idle_task s1 \<noteq> 0\<close> by (simp add: same_rest_def)
  ultimately have "sched_inv s'" "same_rest' s2 s'" "\<not> sw \<longrightarrow> current_task s' = idle_task s2" "lossless {nxt} s2 \<longrightarrow> lossless {current_task s'} s'"
    using sched_run_ok [of s2 nxt "current_task s" rp, THEN okrD, OF _ _ _ _ _ _ h(6)] 2 by simp_all
  moreover have "same_rest s s2" using 1 2 by (auto intro: same_rest_trans)
  ultimately show "sched_inv s' \<and> same_rest' s s' \<and> (\<not> sw \<longrightarrow> current_task s' = idle_task s) \<and> (lossless {current_task s} s \<longrightarrow> lossless {current_task s'} s')"
    using 1(3) l2 by (auto simp: same_rest_def same_rest'_def)
qed

end
