(* ===== verification/Proc_Ops.thy ===== *)
theory Proc_Ops
  imports Sched_Inv
begin

text \<open>
  Creation, duplication and release of tasks, and signal delivery, as the scheduler sees them: a new task is added on no queue, a released one is taken away, and
  everything else these operations do is invisible to it.
\<close>

section \<open>Operations that change no queue\<close>

lemma craft_keeps: "keeps1 s (task_craft_context a b e s)"
  by (auto simp: task_craft_context_def Let_def split: prod.split)

lemma pid_keeps: "keeps s (pid_alloc s)" "keeps1 s (pid_free p s)"
  by (simp_all add: pid_alloc_def pid_free_def okr_all split: prod.split)

lemma sib_keeps [simp]: "sched_view (sib_unlink a s) = sched_view s" "sched_view (sib_link a p s) = sched_view s"
  by (simp_all add: sib_unlink_def sib_link_def split: option.split)

lemma append_child_keeps: "keeps1 s (task_append_child p c s)"
  by (simp add: task_append_child_def)

lemma reparent_loop_keeps: "keeps1 s (reparent_loop k cs s)"
proof (induction cs arbitrary: s)
  case (Cons c cs)
  show ?case by (auto intro!: Cons.IH [THEN okr_mono])
qed simp

lemma reparent_keeps: "keeps1 s (task_reparent_children p s)"
  by (simp add: task_reparent_children_def reparent_loop_keeps)

lemma dequeue_keeps: "keeps1 s (signal_dequeue sig a s)"
  by (simp add: signal_dequeue_def)

lemmas [frame] = craft_keeps [THEN keeps1E] pid_keeps(1) [THEN keepsE] pid_keeps(2) [THEN keeps1E] append_child_keeps [THEN keeps1E]
  reparent_keeps [THEN keeps1E] dequeue_keeps [THEN keeps1E]

lemma exit_cleanup_keeps: "keeps1 s (task_exit_cleanup a s)"
proof -
  have *: "sched_view (upd_task a (\<lambda>t. if 0 < ring t then t\<lparr>vma_areas := []\<rparr> else t) s) = sched_view s"
    "sched_view (upd_task a (\<lambda>t. if name_in_heap t then t\<lparr>text_sec := zero_section, data_sec := zero_section, stack_sec := zero_section, sig_trampoline := zero_section\<rparr>
       else t\<lparr>text_sec := zero_section, data_sec := zero_section, stack_sec := zero_section, heap_sec := zero_section\<rparr>) s) = sched_view s" for s
    by (auto intro!: sched_view_upd simp: core_def)
  show ?thesis by (auto simp: task_exit_cleanup_def Let_def * intro!: frame cong: if_cong)
qed

lemmas [frame] = exit_cleanup_keeps [THEN keeps1E]

section \<open>Adding and removing tasks\<close>

definition add_task :: "u32 \<Rightarrow> task \<Rightarrow> kstate \<Rightarrow> kstate" where
  "add_task a t s = s\<lparr>tasks := (tasks s)(a \<mapsto> t)\<rparr>"

lemma sched_view_add_cong: "sched_view s' = sched_view s \<Longrightarrow> core t' = core t \<Longrightarrow> sched_view (add_task a t' s') = sched_view (add_task a t s)"
  by (auto simp: sched_view_def add_task_def fun_eq_iff)

lemma sched_view_drop_cong: "sched_view s' = sched_view s \<Longrightarrow> sched_view (drop_task a s') = sched_view (drop_task a s)"
  by (auto simp: sched_view_def drop_task_def fun_eq_iff)

lemma sched_view_drop_add: "tasks s a = None \<Longrightarrow> sched_view (drop_task a (add_task a t s)) = sched_view s"
  by (auto simp: sched_view_def add_task_def drop_task_def fun_eq_iff)

lemma add_task_abs [simp]:
  "runst (add_task a t s) = (runst s)(a \<mapsto> task_state t)" "queued (add_task a t s) = (queued s)(a := wq_node (wq_data t))"
  "handlers_of (add_task a t s) = (handlers_of s)(a \<mapsto> sig_handlers t)" "ready_queue (add_task a t s) = ready_queue s"
  "current_task (add_task a t s) = current_task s" "idle_task (add_task a t s) = idle_task s"
  "kitoxD_task (add_task a t s) = kitoxD_task s" "img (add_task a t s) = img s"
  by (auto simp: runst_def queued_def handlers_of_def add_task_def fun_eq_iff)

lemma waiters_add: "waiters (add_task a t s) = (waiters s)(Child_wq a := child_wq t)"
proof
  fix q
  show "waiters (add_task a t s) q = ((waiters s)(Child_wq a := child_wq t)) q"
    by (cases q) (auto simp: waiters_def get_wq_def add_task_def)
qed

lemma drop_task_abs [simp]:
  "runst (drop_task a s) = (runst s)(a := None)" "queued (drop_task a s) = (queued s)(a := None)"
  "handlers_of (drop_task a s) = (handlers_of s)(a := None)" "ready_queue (drop_task a s) = ready_queue s"
  "current_task (drop_task a s) = current_task s" "idle_task (drop_task a s) = idle_task s"
  "kitoxD_task (drop_task a s) = kitoxD_task s" "img (drop_task a s) = img s"
  by (auto simp: runst_def queued_def handlers_of_def drop_task_def fun_eq_iff)

lemma waiters_drop: "waiters (drop_task a s) = (waiters s)(Child_wq a := [])"
proof
  fix q
  show "waiters (drop_task a s) q = ((waiters s)(Child_wq a := [])) q"
    by (cases q) (auto simp: waiters_def get_wq_def drop_task_def)
qed

lemma sched_inv_add:
  assumes "sched_inv s" and "tasks s a = None" and "wq_node (wq_data t) = None" and "child_wq t = []" and "a \<noteq> 0"
  shows "sched_inv (add_task a t s)"
proof -
  have q: "queues_ok s" using assms(1) by (simp add: sched_inv_def)
  note d = queues_okD [OF q]
  have na: "runst s a = None" "queued s a = None" using assms(2) by (simp_all add: runst_None)
  then have r: "b \<in> set (ready_queue s) \<Longrightarrow> b \<noteq> a" for b using d(4) [of b] by auto
  have w: "waiters s (Child_wq a) = []" using assms(2) by (simp add: waiters_def get_wq_def)
  have "waiters (add_task a t s) = waiters s" using w assms(4) by (auto simp: waiters_add fun_eq_iff)
  moreover have "queued (add_task a t s) = queued s" using na assms(3) by (auto simp: fun_eq_iff)
  ultimately have "queues_ok (add_task a t s)" using q na r d(8,12,13) assms(5) by (auto simp: queues_ok_def)
  moreover have "current_ok (add_task a t s)" using assms(1,3) na by (auto simp: sched_inv_def current_ok_def)
  ultimately show ?thesis by (simp add: sched_inv_def)
qed

lemma sched_inv_drop:
  assumes "sched_inv s" and "runst s a = Some TASK_ZOMBIE"
  shows "sched_inv (drop_task a s)"
proof -
  have q: "queues_ok s" using assms(1) by (simp add: sched_inv_def)
  note d = queues_okD [OF q]
  have na: "queued s a = None" using d(8) [of a] assms(2) by (cases "queued s a") auto
  have r: "b \<in> set (ready_queue s) \<Longrightarrow> b \<noteq> a" for b using d(4) [of b] assms(2) by auto
  have "waiters s (Child_wq a) = []"
  proof (rule ccontr)
    assume "waiters s (Child_wq a) \<noteq> []"
    then obtain b where "b \<in> set (waiters s (Child_wq a))" by (cases "waiters s (Child_wq a)") auto
    then have "queued s b = Some (Child_wq a)" by (simp add: d(7))
    then have "b = a" using d(11) [of b] by blast
    then show False using \<open>queued s b = Some (Child_wq a)\<close> na by simp
  qed
  then have "waiters (drop_task a s) = waiters s" by (auto simp: waiters_drop fun_eq_iff)
  moreover have "queued (drop_task a s) = queued s" using na by (auto simp: fun_eq_iff)
  moreover have "idle_task s \<noteq> 0 \<longrightarrow> idle_task s \<noteq> a" using d(12) assms(2) by auto
  ultimately have "queues_ok (drop_task a s)" using q r d(8,12) na by (auto simp: queues_ok_def)
  moreover have "current_ok (drop_task a s)" using assms by (auto simp: sched_inv_def current_ok_def)
  ultimately show ?thesis by (simp add: sched_inv_def)
qed

lemma lossless_add:
  assumes "lossless E s" "task_state t \<noteq> TASK_WAITING" "tasks s a = None"
  shows "lossless (insert a E) (add_task a t s)" "task_state t \<noteq> TASK_RUNNING \<Longrightarrow> lossless E (add_task a t s)"
proof -
  show "lossless (insert a E) (add_task a t s)" using assms(1,2) unfolding lossless_def task_get_dummy_def by simp
  then show "lossless E (add_task a t s)" if "task_state t \<noteq> TASK_RUNNING" by (rule lossless_drop) (use that in simp)
qed

lemma lossless_drop_task: "lossless E s \<Longrightarrow> lossless E (drop_task a s)"
  unfolding lossless_def task_get_dummy_def by simp

lemma task_release_view: "okr (\<lambda>s'. sched_view s' = sched_view (drop_task a s)) (task_release a s)"
  by (auto simp: task_release_def Let_def intro!: frame sched_view_drop_cong)

section \<open>New tasks\<close>

lemma fail_views:
  "okr (\<lambda>(r, s'). r = 0 \<and> sched_view s' = sched_view (drop_task a s)) (fail_task a s)"
  "okr (\<lambda>(r, s'). r = 0 \<and> sched_view s' = sched_view (drop_task a s)) (fail_pid p a s)"
  "okr (\<lambda>(r, s'). r = 0 \<and> sched_view s' = sched_view (drop_task a s)) (fail_kstack k p a s)"
  by (auto simp: fail_task_def fail_pid_def fail_kstack_def intro!: frame sched_view_drop_cong)

text \<open>A task of \<^verbatim>\<open>task_get_new\<close>: not on any queue, with the default signal handlers.\<close>

definition fresh_task :: "image \<Rightarrow> task" where
  "fresh_task im = zero_task\<lparr>sig_handlers := (\<lambda>i. if i < 32 then default_handlers im i else 0)\<rparr>"

lemma upd_task_comp: "upd_task a f (upd_task a g s) = upd_task a (\<lambda>t. f (g t)) s"
  by (simp add: upd_task_def option.map_comp comp_def)

lemma init_handlers_view:
  "signal_init_default_handlers a s = upd_task a (\<lambda>t. t\<lparr>sig_handlers := (\<lambda>i. if i < 32 then default_handlers (img s) i else sig_handlers t i)\<rparr>) s"
proof -
  have "fold (\<lambda>i. upd_task a (\<lambda>t. t\<lparr>sig_handlers := (sig_handlers t)(i := g i)\<rparr>)) [0..<n] s =
      upd_task a (\<lambda>t. t\<lparr>sig_handlers := (\<lambda>i. if i < n then g i else sig_handlers t i)\<rparr>) s" for n g
  proof (induction n)
    case 0
    show ?case by (simp add: upd_task_def option.map_ident)
  next
    case (Suc n)
    have "(\<lambda>i. if i < n then g i else h i)(n := g n) = (\<lambda>i. if i < Suc n then g i else h i)" for h by (auto simp: fun_eq_iff less_Suc_eq)
    then show ?case by (simp add: Suc upd_task_comp del: fun_upd_apply)
  qed
  then show ?thesis by (simp add: signal_init_default_handlers_def)
qed

lemma view_upd_core:
  assumes "sched_view s = sched_view (add_task a t s0)" and "\<And>t1. core t1 = core t \<Longrightarrow> core (f t1) = core t'"
  shows "sched_view (upd_task a f s) = sched_view (add_task a t' s0)"
proof -
  have c: "map_option core (tasks s b) = map_option core (tasks (add_task a t s0) b)" for b
    using assms(1) by (simp add: sched_view_def fun_eq_iff)
  obtain t1 where t1: "tasks s a = Some t1" "core t1 = core t" using c [of a] by (auto simp: add_task_def)
  have "map_option core (tasks (upd_task a f s) b) = map_option core (tasks (add_task a t' s0) b)" for b
    using c [of b] t1 assms(2) [of t1] by (cases "b = a") (auto simp: upd_task_def add_task_def)
  then show ?thesis using assms(1) by (simp add: sched_view_def fun_eq_iff upd_task_def add_task_def)
qed

lemma finish_new_view:
  assumes "sched_view s = sched_view (add_task a t s0)" and "core t = core zero_task"
  shows "okr (\<lambda>(r, s'). r = a \<and> sched_view s' = sched_view (add_task a (fresh_task (img s0)) s0)) (task_finish_new nm rng a s)"
proof -
  let ?s1 = "upd_task a (\<lambda>t. t\<lparr>task_state := TASK_NEW, task_name := nm, name_in_heap := False,
                wq_data := wq_entry_init TASK_INTERRUPTIBLE, child_wq := []\<rparr>) s"
  let ?s2 = "signal_init_default_handlers a (?s1\<lparr>info_queue := info_queue ?s1 @ [a]\<rparr>)"
  have im: "img s = img s0" using view_abs(9) [OF assms(1)] by simp
  have "sched_view ?s1 = sched_view (add_task a t s0)"
    by (rule view_upd_core [OF assms(1)]) (use assms(2) in \<open>auto simp: core_def zero_task_def\<close>)
  then have 1: "sched_view (?s1\<lparr>info_queue := info_queue ?s1 @ [a]\<rparr>) = sched_view (add_task a t s0)" by simp
  have "sched_view ?s2 = sched_view (add_task a (fresh_task (img s0)) s0)"
    unfolding init_handlers_view
    by (rule view_upd_core [OF 1]) (use assms(2) im in \<open>auto simp: core_def zero_task_def fresh_task_def fun_eq_iff upd_task_def\<close>)
  then show ?thesis by (auto simp: task_finish_new_def Let_def intro!: okr_all split: prod.split)
qed

text \<open>While a task is being made, the scheduler sees the old state with one more task.\<close>

lemma fail_view_add:
  assumes "sched_view s = sched_view (add_task a t s0)" and "tasks s0 a = None"
  shows "sched_view (drop_task a s) = sched_view s0"
  using sched_view_drop_cong [OF assms(1), of a] sched_view_drop_add [OF assms(2)] by simp

definition made :: "kstate \<Rightarrow> task \<Rightarrow> u32 \<times> kstate \<Rightarrow> bool" where
  "made s0 t = (\<lambda>(r, s'). if r = 0 then sched_view s' = sched_view s0
     else tasks s0 r = None \<and> sched_view s' = sched_view (add_task r t s0))"

lemma made_fail:
  assumes "sched_view s = sched_view (add_task a t s0)" and "tasks s0 a = None"
  shows "okr (made s0 t') (fail_task a s)" "okr (made s0 t') (fail_pid p a s)" "okr (made s0 t') (fail_kstack k p a s)"
  by (rule fail_views [THEN okr_mono], use fail_view_add [OF assms] in \<open>auto simp: made_def\<close>)+

lemma new_task_view:
  "okr (\<lambda>s'. tasks s a = None \<and> s' = add_task a t s) (new_task a t s)"
  by (simp add: new_task_def add_task_def)

lemma task_get_new_stage2:
  assumes "sched_view s = sched_view (add_task a t s0)" and "core t = core zero_task" and "tasks s0 a = None" and "a \<noteq> 0"
  shows "okr (made s0 (fresh_task (img s0))) (task_finish_new nm rng a s)"
  by (rule finish_new_view [OF assms(1,2), THEN okr_mono]) (use assms(3,4) in \<open>auto simp: made_def\<close>)

lemma task_get_new_view: "okr (made s (fresh_task (img s))) (task_get_new nm rng text dat s)"
proof (cases nm)
  case (Some n)
  let ?t = "zero_task\<lparr>text_sec := (case text of None \<Rightarrow> zero_section | Some x \<Rightarrow> x), data_sec := (case dat of None \<Rightarrow> zero_section | Some x \<Rightarrow> x)\<rparr>"
  have t: "core ?t = core zero_task" by (simp add: core_def)
  have kst: "sched_view (upd_task a (\<lambda>t. t\<lparr>kernel_stack_pointer := x, kernel_stack_base := y, task_esp := z\<rparr>) s1) = sched_view s1" for a x y z s1
    by (rule sched_view_upd) (simp add: core_def)
  have nil: "okr (made s (fresh_task (img s))) (Inr (0, s1))" if "sched_view s1 = sched_view s" for s1 using that by (simp add: made_def)
  have *: "okr (made s (fresh_task (img s))) (kbind (new_task a ?t s1) f)"
    if "sched_view s1 = sched_view s" "a \<noteq> 0" "\<And>s2. sched_view s2 = sched_view (add_task a ?t s) \<Longrightarrow> tasks s a = None \<Longrightarrow> okr (made s (fresh_task (img s))) (f s2)" for s1 a f
    using that(2,3) view_abs(10) [OF that(1), of a] sched_view_add_cong [OF that(1) refl, of a ?t]
    by (auto intro!: new_task_view [THEN okr_mono])
  show ?thesis
    unfolding task_get_new_def Some option.case Let_def
    apply (split if_split, intro conjI impI)
     apply (rule nil, simp)
    apply (simp only: okr_simps(3), rule k_zalloc_keeps [THEN keepsE])
    apply (clarsimp simp only: prod.case)
    apply (split if_split, intro conjI impI)
     apply (rule nil, assumption)
    apply (rule *, assumption, assumption)
    apply (simp only: okr_simps(3), rule pid_keeps(1) [THEN keepsE])
    apply (clarsimp simp only: prod.case)
    apply (split if_split, intro conjI impI)
     apply (rule made_fail(1) [of _ _ ?t], simp, assumption)
    apply (simp only: okr_simps(3), rule k_zalloc_keeps [THEN keepsE])
    apply (clarsimp simp only: prod.case)
    apply (split if_split, intro conjI impI)
     apply (rule made_fail(2) [of _ _ ?t], simp, assumption)
    apply (split option.split, intro conjI impI allI)
     apply (rule made_fail(3) [of _ _ ?t], simp add: kst, assumption)
    apply (split if_split, intro conjI impI)
     apply (simp only: okr_simps(3), rule userspace_keeps [THEN keepsE])
     apply (clarsimp simp only: prod.case)
     apply (split if_split, intro conjI impI)
      apply (rule task_get_new_stage2 [of _ _ ?t, OF _ t], simp add: kst, assumption, assumption)
     apply (rule made_fail(3) [of _ _ ?t], simp add: kst, assumption)
    apply (split if_split, intro conjI impI)
     apply (rule task_get_new_stage2 [of _ _ ?t, OF _ t], simp add: kst, assumption, assumption)
    apply simp
    done
qed (simp add: task_get_new_def made_def)

section \<open>Fork\<close>

text \<open>The child as the scheduler sees it: the state and handlers of its parent, on no queue.\<close>

definition child_of :: "task \<Rightarrow> task" where
  "child_of t = t\<lparr>wq_data := wq_entry_init TASK_INTERRUPTIBLE, child_wq := []\<rparr>"

lemma write_name_core [simp]: "core (write_name nm t) = core t"
  by (simp add: write_name_def core_def)

lemma task_clone_view: "tasks s a = Some t \<Longrightarrow> okr (made s (child_of t)) (task_clone a s)"
proof -
  assume h: "tasks s a = Some t"
  let ?t = "write_name (name_of t) (t\<lparr>children := [], siblings := 0, vma_areas := [],
              wq_data := wq_entry_init TASK_INTERRUPTIBLE, child_wq := [], kernel_stack_pointer := 0, kernel_stack_base := 0,
              name_in_heap := True\<rparr>)"
  have t: "core ?t = core (child_of t)" by (simp add: core_def child_of_def write_name_def)
  have nil: "okr (made s (child_of t)) (Inr (0, s1))" if "sched_view s1 = sched_view s" for s1 using that by (simp add: made_def)
  have fin: "okr (made s (child_of t)) (Inr (b, s1))" if "sched_view s1 = sched_view (add_task b ?t s)" "tasks s b = None" "b \<noteq> 0" for b s1
    using that sched_view_add_cong [OF refl t, of b s] by (simp add: made_def)
  have *: "okr (made s (child_of t)) (kbind (new_task b ?t s1) f)"
    if "sched_view s1 = sched_view s" "b \<noteq> 0" "\<And>s2. sched_view s2 = sched_view (add_task b ?t s) \<Longrightarrow> tasks s b = None \<Longrightarrow> okr (made s (child_of t)) (f s2)" for s1 b f
    using that(2,3) view_abs(10) [OF that(1), of b] sched_view_add_cong [OF that(1) refl, of b ?t]
    by (auto intro!: new_task_view [THEN okr_mono])
  show ?thesis
    unfolding task_clone_def with_task_Some [OF h] Let_def
    apply (simp only: okr_simps(3), rule k_zalloc_keeps [THEN keepsE])
    apply (clarsimp simp only: prod.case)
    apply (split if_split, intro conjI impI)
     apply (rule nil, assumption)
    apply (rule *, assumption, assumption)
    apply (simp only: okr_simps(3), rule pid_keeps(1) [THEN keepsE])
    apply (clarsimp simp only: prod.case)
    apply (split if_split, intro conjI impI)
     apply (rule made_fail(1) [of _ _ ?t], simp, assumption)
    apply (simp only: okr_simps(3), rule k_keeps(3) [THEN keepsE])
    apply (clarsimp simp only: prod.case)
    apply (split if_split, intro conjI impI)
     apply (rule made_fail(2) [of _ _ ?t], simp, assumption)
    apply (simp only: okr_simps(3), rule okr_all, rule k_keeps(6) [THEN keeps1E], rule fin, simp, assumption, assumption)
    done
qed

lemma fork_page_keeps: "keeps s (fork_page c n v pte s)"
  by (auto simp: fork_page_def Let_def intro!: frame)

lemma fork_pages_keeps: "keeps s (fork_pages c n pt i js s)"
proof (induction js arbitrary: s)
  case (Cons j js)
  show ?case by (auto simp: Let_def intro!: fork_page_keeps [THEN keepsE] Cons.IH [THEN okr_mono])
qed simp

lemma fork_tables_keeps: "keeps s (fork_tables c n is s)"
proof (induction "is" arbitrary: s)
  case (Cons i "is")
  show ?case
    by (auto simp: Let_def PHYS_TO_VIRT_LINEAR_def intro!: frame fork_pages_keeps [THEN keepsE] Cons.IH [THEN okr_mono] simp del: fork_pages.simps)
qed simp

lemma fork_fail_view:
  assumes "sched_view s = sched_view (add_task a t s0)" and "tasks s0 a = None"
  shows "okr (\<lambda>(r, s'). sched_view s' = sched_view s0) (fork_fail_kernel_stack a s)"
    "okr (\<lambda>(r, s'). sched_view s' = sched_view s0) (fork_fail_page_copy a s)"
proof -
  have *: "okr (\<lambda>(r, s'). sched_view s' = sched_view s0) (fork_fail_kernel_stack a s)"
    if "sched_view s = sched_view (add_task a t s0)" for s
    by (auto simp: fork_fail_kernel_stack_def ret_def intro!: frame task_release_view [THEN okr_mono] fail_view_add [OF _ assms(2)] simp: that)
  show "okr (\<lambda>(r, s'). sched_view s' = sched_view s0) (fork_fail_page_copy a s)"
    using assms(1) by (auto simp: fork_fail_page_copy_def intro!: frame *)
  show "okr (\<lambda>(r, s'). sched_view s' = sched_view s0) (fork_fail_kernel_stack a s)" using * assms(1) .
qed

end
