(* ===== verification/Kernel_Inv.thy ===== *)
theory Kernel_Inv
  imports Proc_Ops
begin

text \<open>
  The invariant of the kernel: the queues agree with the states of the tasks, the signal handlers of a task are those of the kernel or
  addresses in user memory, and no task is lost. The theory shows it for the operations of the scheduler, the wait queues and
  the signals and for the system calls built from them; \<open>good s s'\<close> says that \<open>s'\<close> has the
  invariant and belongs to the same run of the kernel as \<open>s\<close>.
\<close>

section \<open>Invariant\<close>

text \<open>
  The handlers of a task: \<^verbatim>\<open>SIGKILL\<close> and \<^verbatim>\<open>SIGSTOP\<close> have the ones of the kernel, every other signal the one of the kernel or an address in user memory. The boot thread has
  none and takes no signals.
\<close>

definition handler_set_ok :: "image \<Rightarrow> (nat \<Rightarrow> u32) \<Rightarrow> bool" where
  "handler_set_ok im h \<longleftrightarrow> h 9 = signal_default_handler im \<and> h 19 = signal_ignore_handler im \<and>
     (\<forall>i < 32. h i = default_handlers im i \<or> h i \<noteq> 0 \<and> h i < KERNEL_VADDR_BASE)"

definition handlers_ok :: "kstate \<Rightarrow> bool" where
  "handlers_ok s \<longleftrightarrow> (\<forall>a h. a \<noteq> task_get_dummy s \<longrightarrow> handlers_of s a = Some h \<longrightarrow> handler_set_ok (img s) h)"

definition kinv :: "kstate \<Rightarrow> bool" where
  "kinv s \<longleftrightarrow> sched_inv s \<and> handlers_ok s \<and> lossless {current_task s} s"

lemma kinvD: "kinv s \<Longrightarrow> sched_inv s" "kinv s \<Longrightarrow> handlers_ok s" "kinv s \<Longrightarrow> lossless {current_task s} s"
  by (simp_all add: kinv_def)

definition konst :: "kstate \<Rightarrow> kstate \<Rightarrow> bool" where
  "konst s s' \<longleftrightarrow> img s' = img s \<and> idle_task s' = idle_task s \<and> kitoxD_task s' = kitoxD_task s"

abbreviation good :: "kstate \<Rightarrow> kstate \<Rightarrow> bool" where
  "good s s' \<equiv> kinv s' \<and> konst s s'"

lemma konst_refl [simp]: "konst s s"
  by (simp add: konst_def)

lemma konst_trans: "konst s t \<Longrightarrow> konst t u \<Longrightarrow> konst s u"
  by (simp add: konst_def)

lemma handlers_same: "same_rest' s s' \<Longrightarrow> handlers_ok s' = handlers_ok s" "same_rest s s' \<Longrightarrow> handlers_ok s' = handlers_ok s"
  by (simp_all add: handlers_ok_def same_rest'_def same_rest_def task_get_dummy_def)

lemma good_rest:
  shows "kinv s \<Longrightarrow> sched_inv s' \<Longrightarrow> same_rest' s s' \<Longrightarrow> lossless {current_task s'} s' \<Longrightarrow> good s s'"
    and "kinv s \<Longrightarrow> kept s s' \<Longrightarrow> good s s'"
proof -
  show *: "good s s'" if "kinv s" "sched_inv s'" "same_rest' s s'" "lossless {current_task s'} s'"
    using that handlers_same(1) [OF that(3)] unfolding kinv_def konst_def same_rest'_def by simp
  show "good s s'" if "kinv s" "kept s s'"
    using * [OF that(1)] same_rest_weaken [of s s'] that(2) kinvD(3) [OF that(1)] by (simp add: same_rest_def)
qed

lemma good_view:
  assumes "sched_view s' = sched_view s" and "kinv s"
  shows "good s s'"
  using good_rest(2) [OF assms(2)] view_inv(3,4,5) [OF assms(1)] kinvD(1) [OF assms(2)] by blast

lemma good_trans: "good s t \<Longrightarrow> good t u \<Longrightarrow> good s u"
  by (auto intro: konst_trans)

lemma keeps_good: "keeps s m \<Longrightarrow> kinv s \<Longrightarrow> okr (\<lambda>(r, s'). good s s') m"
  by (erule keepsE) (simp add: good_view)

lemma default_handlers_9_19: "default_handlers im 9 = signal_default_handler im" "default_handlers im 19 = signal_ignore_handler im"
proof -
  have "\<not> bit SIG_IGN_MASK 9" "bit SIG_IGN_MASK 19" by (simp_all add: SIG_IGN_MASK_def bit_simps)
  then show "default_handlers im 9 = signal_default_handler im" "default_handlers im 19 = signal_ignore_handler im"
    by (simp_all add: default_handlers_def bit_iff_odd_drop_bit and_one_eq odd_iff_mod_2_eq_one)
qed

text \<open>Adding a task.\<close>

lemma kinv_add:
  assumes "kinv s" "tasks s a = None" "wq_node (wq_data t) = None" "child_wq t = []" "a \<noteq> 0"
    and "handlers_ok (add_task a t s)" "task_state t = TASK_NEW"
  shows "good s (add_task a t s)"
  using assms(6) sched_inv_add [OF kinvD(1) [OF assms(1)] assms(2-5)] lossless_add(2) [OF kinvD(3) [OF assms(1)] _ assms(2)] assms(7)
  by (simp add: kinv_def konst_def)

lemma handlers_ok_fresh: "handlers_ok s \<Longrightarrow> handlers_ok (add_task a (fresh_task (img s)) s)"
  by (auto simp: handlers_ok_def task_get_dummy_def fresh_task_def default_handlers_9_19 handler_set_ok_def)

lemma handlers_ok_child: "handlers_ok s \<Longrightarrow> tasks s p = Some t \<Longrightarrow> p \<noteq> task_get_dummy s \<Longrightarrow> handlers_ok (add_task a (child_of t) s)"
proof -
  assume h: "handlers_ok s" "tasks s p = Some t" "p \<noteq> task_get_dummy s"
  then have "handlers_of s p = Some (sig_handlers t)" by (simp add: handlers_of_def)
  then have "handler_set_ok (img s) (sig_handlers t)" using h(1,3) by (simp add: handlers_ok_def)
  then show ?thesis using h(1) unfolding handlers_ok_def by (simp add: child_of_def task_get_dummy_def)
qed

lemma handlers_ok_drop: "handlers_ok s \<Longrightarrow> handlers_ok (drop_task a s)"
  by (auto simp: handlers_ok_def task_get_dummy_def)

section \<open>Scheduling\<close>

lemma schedule_good: "kinv s \<Longrightarrow> okr (\<lambda>(sw, s'). good s s') (schedule rp s)"
proof -
  assume h: "kinv s"
  then have "queues_ok s" "current_task s \<notin> set (ready_queue s)" by (auto simp: kinv_def sched_inv_def current_ok_def)
  from schedule_ok [OF this] show ?thesis by (rule okr_mono) (use good_rest(1) [OF h] kinvD(3) [OF h] in auto)
qed

text \<open>A task that is not on the run queue is put on it.\<close>

lemma enqueue_inv:
  assumes "sched_inv s" "lossless (insert a E) s" "a \<noteq> 0" "a \<noteq> current_task s" "a \<noteq> idle_task s" "queued s a = None"
  shows "okr (\<lambda>(r, s'). sched_inv s' \<and> same_rest s s' \<and> lossless E s') (sched_enqueue a s)"
proof (rule sched_enqueue_effect [THEN okr_mono], clarify)
  fix r s'
  assume h: "same_rest s s'" "queued s' = queued s" "waiters s' = waiters s" and
    c: "if a = 0 \<or> a \<in> set (ready_queue s) then s' = s
        else tasks s a \<noteq> None \<and> ready_queue s' = ready_queue s @ [a] \<and> runst s' = (runst s)(a \<mapsto> TASK_RUNNING)"
  show "sched_inv s' \<and> same_rest s s' \<and> lossless E s'"
  proof (cases "a \<in> set (ready_queue s)")
    case True
    then have "lossless E s" using assms(2) unfolding lossless_def by blast
    then show ?thesis using True c assms(1) by simp
  next
    case False
    have "sched_inv s'" using False c h assms by (auto simp: sched_inv_def queues_ok_def current_ok_def same_rest_def)
    moreover have "lossless E s'" using False c h assms(2,3) by (auto simp: lossless_def same_rest_def task_get_dummy_def)
    ultimately show ?thesis using h(1) by blast
  qed
qed

lemma prepare_schedule_good:
  assumes "kinv s" "current_task s \<noteq> 0" "current_task s \<noteq> idle_task s" "q = Sleep_wq \<or> q = Child_wq (current_task s)"
  shows "okr (\<lambda>s1. okr (\<lambda>(sw, s'). good s s' \<and> (\<not> sw \<longrightarrow> current_task s' = idle_task s)) (schedule rp s1)) (wq_prepare q (current_task s) s)"
proof -
  have "queues_ok s" "queued s (current_task s) = None" using assms(1) by (auto simp: kinv_def sched_inv_def current_ok_def)
  from wq_prepare_ok [OF this assms(2-4)] show ?thesis
  proof (rule okr_mono)
    fix s1
    assume h: "queues_ok s1 \<and> same_rest s s1 \<and> current_task s \<notin> set (ready_queue s1) \<and> queued s1 = (queued s)(current_task s \<mapsto> q) \<and>
      ready_queue s1 = remove1 (current_task s) (ready_queue s) \<and> waiters s1 = (waiters s)(q := current_task s # waiters s q) \<and>
      (\<forall>E. lossless E s \<longrightarrow> lossless (E - {current_task s}) s1)"
    have c: "current_task s1 = current_task s" using h by (simp add: same_rest_def)
    moreover have "current_task s \<notin> set (ready_queue s1)" using h by (elim conjE)
    ultimately have "current_task s1 \<notin> set (ready_queue s1)" by simp
    then have "okr (\<lambda>(sw, s'). sched_inv s' \<and> same_rest' s1 s' \<and> (\<not> sw \<longrightarrow> current_task s' = idle_task s1) \<and>
        (lossless {current_task s1} s1 \<longrightarrow> lossless {current_task s'} s')) (schedule rp s1)"
      using h by (intro schedule_ok) blast+
    moreover have "same_rest' s s1" "idle_task s1 = idle_task s" using h by (simp_all add: same_rest_def same_rest'_def)
    moreover have "lossless ({current_task s} - {current_task s}) s1" using h kinvD(3) [OF assms(1)] by blast
    then have "lossless {current_task s1} s1" by (rule lossless_mono) simp
    ultimately show "okr (\<lambda>(sw, s'). good s s' \<and> (\<not> sw \<longrightarrow> current_task s' = idle_task s)) (schedule rp s1)"
      using good_rest(1) [OF assms(1)] by (auto intro: same_rest'_trans elim!: okr_mono)
  qed
qed

lemma timer_handle_good: "kinv s \<Longrightarrow> okr (\<lambda>(sw, s'). good s s') (timer_handle s)"
proof -
  assume h: "kinv s"
  have 0: "good s (s\<lparr>global_ticks := g\<rparr>)" for g using h by (intro good_view) simp_all
  have 1: "okr (\<lambda>s'. good s s') (task_wake_up_sleepers (s\<lparr>global_ticks := g\<rparr>))" for g
    unfolding task_wake_up_sleepers_def
  proof (rule inv_wake_sleepers [THEN okr_mono])
    show "sched_inv (s\<lparr>global_ticks := g\<rparr>)" using 0 [of g] kinvD(1) by blast
    show "good s s'" if "kept (s\<lparr>global_ticks := g\<rparr>) s'" for s' using good_trans [OF 0 good_rest(2) [OF _ that]] 0 [of g] by blast
  qed
  show ?thesis
    unfolding timer_handle_def okr_simps(3)
  proof (rule 1 [THEN okr_mono])
    fix s1
    assume s1: "good s s1"
    have s2: "good s (upd_task a (\<lambda>t. t\<lparr>quantum_remaining := q\<rparr>) s1)" for a q
      using s1 good_trans [OF s1 good_view] by simp
    show "okr (\<lambda>(sw, s'). good s s') (let current = current_task s1 in
      if current \<noteq> idle_task s1 then with_task current s1 (\<lambda>t.
         let q = quantum_remaining t - 1; s = upd_task current (\<lambda>t. t\<lparr>quantum_remaining := q\<rparr>) s1 in
         if 0 < q then Inr (False, s) else schedule In_timer s)
      else schedule In_timer s1)"
      using s1 s2 by (auto simp: Let_def intro!: schedule_good [THEN okr_mono] intro: konst_trans)
  qed
qed

section \<open>Exit and signals\<close>

text \<open>The current task becomes a zombie.\<close>

lemma zombie_ok:
  assumes "sched_inv s" "current_task s \<noteq> idle_task s"
  shows "queues_ok (upd_task (current_task s) (\<lambda>t. t\<lparr>task_state := TASK_ZOMBIE\<rparr>) s)"
    "same_rest s (upd_task (current_task s) (\<lambda>t. t\<lparr>task_state := TASK_ZOMBIE\<rparr>) s)"
    "lossless E s \<Longrightarrow> lossless E (upd_task (current_task s) (\<lambda>t. t\<lparr>task_state := TASK_ZOMBIE\<rparr>) s)"
  using assms by (auto simp: sched_inv_def current_ok_def queues_ok_def same_rest_def lossless_def task_get_dummy_def)

lemma do_exit_good: "kinv s \<Longrightarrow> okr (\<lambda>s'. good s s') (do_exit status s)"
proof (rule okrI)
  fix s'
  assume k: "kinv s" and e: "do_exit status s = Inr s'"
  let ?cur = "current_task s"
  let ?s0 = "sched_unlink ?cur (upd_task ?cur (\<lambda>t. t\<lparr>exit_code := push_bit 8 (status AND 0xff)\<rparr>) s)"
  let ?z = "\<lambda>s. upd_task ?cur (\<lambda>t. t\<lparr>task_state := TASK_ZOMBIE\<rparr>) s"
  from e obtain t s1 s3 s4 sw where h: "tasks s ?cur = Some t" "?cur \<noteq> idle_task s" "task_reparent_children ?cur ?s0 = Inr s1"
      "wq_wake_all (Child_wq (real_parent t)) (?z s1) = Inr s3" "task_exit_cleanup ?cur (k_reload_cr3 (k_kernel_directory s3) s3) = Inr s4"
      "schedule In_exit s4 = Inr (sw, s')"
    by (auto simp: do_exit_def Let_def kres_simps split: if_splits)
  have c: "?cur \<notin> set (ready_queue s)" using k by (simp add: kinv_def sched_inv_def current_ok_def)
  have "sched_view ?s0 = sched_view s"
    using c sched_view_upd_simps(7) [of ?cur "\<lambda>_. push_bit 8 (status AND 0xff)" s]
    by (simp add: sched_unlink_def sched_view_def upd_task_def remove1_idem)
  then have v1: "sched_view s1 = sched_view s" using reparent_keeps [THEN okrD, OF h(3)] by simp
  have i1: "sched_inv s1" "same_rest s s1" "lossless {?cur} s1" using view_inv(3,4,5) [OF v1] k by (simp_all add: kinv_def)
  have c1: "current_task s1 = ?cur" "idle_task s1 = idle_task s" using i1(2) by (simp_all add: same_rest_def)
  have q2: "queues_ok (?z s1)" "same_rest s1 (?z s1)" "lossless {?cur} (?z s1)" using zombie_ok [OF i1(1)] i1(3) c1 h(2) by simp_all
  have n2: "queued (?z s1) ?cur = None" "?cur \<notin> set (ready_queue (?z s1))" using i1(1) c1 by (simp_all add: sched_inv_def current_ok_def)
  have 3: "queues_ok s3" "same_rest (?z s1) s3" "?cur \<notin> set (ready_queue s3)" "lossless {?cur} s3"
    using wq_wake_all_ok [OF q2(1), THEN okrD, OF h(4)] n2 q2(3) by blast+
  have v4: "sched_view s4 = sched_view s3" using exit_cleanup_keeps [THEN okrD, OF h(5)] by simp
  have q4: "queues_ok s4" "same_rest s3 s4" "lossless {?cur} s4" using view_inv(1,4,5) [OF v4] 3 by simp_all
  have r4: "same_rest s s4" using i1(2) q2(2) 3(2) q4(2) by (auto intro: same_rest_trans)
  have "current_task s4 \<notin> set (ready_queue s4)" using 3(3) r4 view_abs(5) [OF v4] by (simp add: same_rest_def)
  moreover have "lossless {current_task s4} s4" using q4(3) r4 by (simp add: same_rest_def)
  ultimately have "sched_inv s'" "same_rest' s4 s'" "lossless {current_task s'} s'" using schedule_ok [OF q4(1), THEN okrD, OF _ h(6)] by auto
  then show "good s s'" using good_rest(1) [OF k] r4 by (auto intro: same_rest'_trans dest: same_rest_weaken)
qed

lemma goodV: "good s0 s \<Longrightarrow> sched_view s' = sched_view s \<Longrightarrow> good s0 s'"
  using good_view konst_trans by blast

lemma good_chain: "(kinv s \<Longrightarrow> okr (\<lambda>(r, s'). good s s') m) \<Longrightarrow> good s0 s \<Longrightarrow> okr (\<lambda>(r, s'). good s0 s') m"
  by (rule okr_mono [of "\<lambda>(r, s'). good s s'"]) (auto intro: konst_trans)

lemma good_chain1: "(kinv s \<Longrightarrow> okr (\<lambda>s'. good s s') m) \<Longrightarrow> good s0 s \<Longrightarrow> okr (\<lambda>s'. good s0 s') m"
  by (rule okr_mono [of "\<lambda>s'. good s s'"]) (auto intro: konst_trans)

lemma schedule_g: "good s0 s \<Longrightarrow> okr (\<lambda>(r, s'). good s0 s') (schedule rp s)"
  by (rule good_chain [OF schedule_good])

lemma do_exit_g: "good s0 s \<Longrightarrow> okr (\<lambda>s'. good s0 s') (do_exit status s)"
  by (rule good_chain1 [OF do_exit_good])

lemma deliver_g: "good s0 s \<Longrightarrow> okr (\<lambda>(r, s'). good s0 s' \<and> (r \<longrightarrow> current_task s' = current_task s)) (deliver_signal i h t s)"
proof -
  assume g: "good s0 s"
  show ?thesis
    unfolding deliver_signal_def Let_def okr_simps(3)
  proof (rule k_copy_keeps(1) [THEN keepsE], simp only: prod.case)
    fix r and s1 :: kstate
    assume "sched_view s1 = sched_view (s\<lparr>kmem := ft_memcpy (kernel_stack_base t - kframe_depth (img s) + 8) (tf_base t) sizeof_trap_frame
       (wr32 (kernel_stack_base t - kframe_depth (img s) + 4) (of_nat i) (wr32 (kernel_stack_base t - kframe_depth (img s)) USER_TRAMPOLINE_VADDR (kmem s)))\<rparr>)"
    then have v: "sched_view s1 = sched_view s" by simp
    have "good s0 s1" using goodV [OF g v] .
    moreover have "good s0 (set_tf t f x (set_tf t f' y s1)) \<and> current_task (set_tf t f x (set_tf t f' y s1)) = current_task s" for f f' x y
      using goodV [OF g, of "set_tf t f x (set_tf t f' y s1)"] view_abs(6) [OF v] v by (simp add: set_tf_def)
    ultimately show "okr (\<lambda>(r, s'). good s0 s' \<and> (r \<longrightarrow> current_task s' = current_task s)) (if r \<noteq> 0 then kbind (do_exit (- EFAULT) s1) (\<lambda>s. Inr (False, s))
        else Inr (True, set_tf t Tf_user_esp (ALIGN_DOWN (get_tf t Tf_user_esp s - sizeof_sigframe) ESP_ALIGN) (set_tf t Tf_eip h s1)))"
      using do_exit_g [of s1 s0] by auto
  qed
qed

lemma handlers_loop_g:
  "good s0 s \<Longrightarrow> okr (\<lambda>(r, s'). good s0 s' \<and> (r \<longrightarrow> current_task s' = current_task s)) (call_handlers_loop is s)"
proof (induction "is" arbitrary: s)
  case (Cons i "is")
  let ?P = "\<lambda>(r, s'). good s0 s' \<and> (r \<longrightarrow> current_task s' = current_task s)"
  let ?f = "\<lambda>a s1. with_task a s1 (\<lambda>t. let handler = sig_handlers t i in
        if KERNEL_VADDR_BASE \<le> handler then
          if pid t = 0 \<or> pid t = 1 then call_handlers_loop is s1
          else if handler = signal_ignore_handler (img s1) then call_handlers_loop is s1
          else if handler = signal_default_handler (img s1) then kbind (run_default_handler i s1) (\<lambda>s. Inr (False, s))
          else Inl OutOfBounds
        else deliver_signal i handler t s1)"
  have exit: "okr (\<lambda>s'. good s0 s') (run_default_handler i s1)" if "good s0 s1" for s1
    unfolding run_default_handler_def by (rule do_exit_g, rule goodV [OF that]) simp
  have 1: "okr ?P (?f a s1)" if "good s0 s1" "current_task s1 = current_task s" for s1 a
  proof -
    have "okr ?P (call_handlers_loop is s1)" "okr ?P (deliver_signal i h t s1)" for h t
      using Cons.IH [OF that(1)] deliver_g [OF that(1)] that(2) by simp_all
    moreover have "okr ?P (kbind (run_default_handler i s1) (\<lambda>s. Inr (False, s)))" using exit [OF that(1)] by simp
    ultimately show ?thesis by (simp add: Let_def)
  qed
  have *: "okr (\<lambda>s1. okr ?P (?f a s1)) (signal_dequeue (of_nat i) a s)" for a
    by (rule dequeue_keeps [THEN keeps1E], rule 1, erule goodV [OF Cons.prems], erule view_abs(6))
  show ?case
    unfolding call_handlers_loop.simps Let_def
    by (simp only: okr_simps(3), rule okr_all) (use * Cons in \<open>simp add: Let_def\<close>)
qed simp

lemma signals_g: "good s0 s \<Longrightarrow> okr (\<lambda>(r, s'). good s0 s' \<and> (r \<longrightarrow> current_task s' = current_task s)) (signal_call_curtask_handlers s)"
  using handlers_loop_g [of s s0 "[1..<32]"] by (simp add: signal_call_curtask_handlers_def)

lemma irq_return_g: "good s0 s \<Longrightarrow> okr (\<lambda>s'. good s0 s') (irq_return s)"
  unfolding irq_return_def by (simp, rule signals_g [THEN okr_mono]) auto

lemma kill_g: "good s0 s \<Longrightarrow> okr (\<lambda>(r, s'). good s0 s') (kill_pid p sig s)"
proof -
  assume g: "good s0 s"
  have "okr (\<lambda>s'. good s s') (signal_send sig a s)" if "kinv s" for a s
    by (rule inv_signal_send [THEN okr_mono]) (use that good_rest(2) [OF that] in \<open>auto simp: kinv_def\<close>)
  from good_chain1 [OF this g] have "okr (\<lambda>s'. good s0 s') (signal_send sig a s)" for a .
  then show ?thesis using g by (auto simp: kill_pid_def intro!: okr_all)
qed

section \<open>System calls\<close>

text \<open>System calls are made by tasks that run in user mode: neither the idle task nor the boot thread.\<close>

definition caller_ok :: "kstate \<Rightarrow> bool" where
  "caller_ok s \<longleftrightarrow> current_task s \<noteq> 0 \<and> current_task s \<noteq> idle_task s \<and> current_task s \<noteq> task_get_dummy s"

lemma caller_view: "sched_view s' = sched_view s \<Longrightarrow> caller_ok s' = caller_ok s"
  by (simp add: caller_ok_def task_get_dummy_def sched_view_def)

abbreviation gok :: "kstate \<Rightarrow> ('a \<times> kstate) kres \<Rightarrow> bool" where
  "gok s0 \<equiv> okr (\<lambda>(r, s'). good s0 s')"

lemma gokV:
  assumes "good s0 s" and "keeps s m"
  shows "gok s0 m"
  by (rule keepsE [OF assms(2)]) (simp add: goodV [OF assms(1)])

lemma simple_calls_g:
  assumes "good s0 s"
  shows "gok s0 (sys_getpid s)" "gok s0 (sys_getuid s)" "gok s0 (sys_exit a s)" "gok s0 (sys_kill a b s)"
    "gok s0 (sys_mmap a b c d e f s)" "gok s0 (sys_munmap a b s)" "gok s0 (sys_write a b c s)"
proof -
  show "gok s0 (sys_getpid s)" "gok s0 (sys_getuid s)" using assms by (simp_all add: sys_getpid_def sys_getuid_def ret_def)
  show "gok s0 (sys_exit a s)" using do_exit_g [OF assms] by (simp add: sys_exit_def)
  show "gok s0 (sys_kill a b s)" unfolding sys_kill_def ret_def by (simp, rule kill_g [OF assms, THEN okr_mono]) auto
  show "gok s0 (sys_mmap a b c d e f s)"
    by (rule gokV [OF assms]) (auto simp: sys_mmap_def ret_def Let_def intro!: okr_all split: prod.splits option.splits)
  show "gok s0 (sys_munmap a b s)"
    by (rule gokV [OF assms]) (auto simp: sys_munmap_def ret_def intro!: okr_all split: prod.splits option.splits)
  show "gok s0 (sys_write a b c s)"
    by (rule gokV [OF assms]) (auto simp: sys_write_def ret_def Let_def intro!: frame)
qed

lemma signal_g:
  assumes "good s0 s" "caller_ok s"
  shows "gok s0 (sys_signal n h s)"
proof -
  let ?s = "upd_task (current_task s) (\<lambda>t. t\<lparr>sig_handlers := (sig_handlers t)(unat n := h)\<rparr>) s"
  have "good s0 ?s" if n: "signal_is_valid n" "n \<noteq> SIGKILL" "n \<noteq> SIGSTOP" and h: "h \<noteq> 0" "\<not> KERNEL_VADDR_BASE \<le> h"
  proof -
    have k: "unat n < 32" "unat n \<noteq> 9" "unat n \<noteq> 19"
      using n by (auto simp: signal_is_valid_def SIG_Sentinel_def SIGKILL_def SIGSTOP_def word_less_nat_alt word_unat_eq_iff)
    have a: "runst ?s = runst s" "queued ?s = queued s" "ready_queue ?s = ready_queue s" "waiters ?s = waiters s"
    proof -
      show "waiters ?s = waiters s"
      proof
        fix q
        show "waiters ?s q = waiters s q" by (cases q) (auto simp: waiters_def get_wq_def upd_task_def split: option.splits)
      qed
    qed (auto simp: runst_def queued_def upd_task_def fun_eq_iff option.map_comp comp_def option.case_eq_if)
    have b: "current_task ?s = current_task s" "idle_task ?s = idle_task s" "img ?s = img s" "kitoxD_task ?s = kitoxD_task s"
      by (simp_all add: upd_task_def)
    have "sched_inv ?s" "lossless {current_task ?s} ?s"
      using assms(1) a b by (simp_all add: kinv_def sched_inv_def queues_ok_def current_ok_def lossless_def task_get_dummy_def)
    moreover have "handlers_ok ?s"
    proof -
      have "handler_set_ok (img s) (g(unat n := h))" if "handler_set_ok (img s) g" for g
        using that k h by (auto simp: handler_set_ok_def not_le)
      then show ?thesis using assms(1) by (auto simp: kinv_def handlers_ok_def task_get_dummy_def handlers_of_def upd_task_def)
    qed
    ultimately show ?thesis using assms(1) b by (auto simp: kinv_def konst_def)
  qed
  then show ?thesis using assms(1) by (auto simp: sys_signal_def ret_def)
qed

lemma sigreturn_g: "good s0 s \<Longrightarrow> gok s0 (sys_sigreturn s)"
proof -
  assume g: "good s0 s"
  have 1: "good s0 s1" "okr (\<lambda>s'. good s0 s') (do_exit x s1)" if "sched_view s1 = sched_view s" for s1 x
    using goodV [OF g that] do_exit_g by auto
  show ?thesis
    using g unfolding sys_sigreturn_def ret_def
    by (auto simp: Let_def intro!: k_copy_keeps(2) [THEN keepsE] 1)
qed

lemma sleep_g:
  assumes "good s0 s" "caller_ok s"
  shows "okr (\<lambda>(r, s'). good s0 s') (timer_ksleep n s)"
proof -
  let ?s = "upd_task (current_task s) (\<lambda>t. t\<lparr>tick_to_wake := global_ticks s + SECONDS_TO_TICKS n\<rparr>) s"
  have v: "sched_view ?s = sched_view s" by simp
  have g: "good s0 ?s" using goodV [OF assms(1) v] .
  have c: "current_task ?s = current_task s" "caller_ok ?s" using assms(2) caller_view [OF v] by (simp_all add: upd_task_def)
  have "okr (\<lambda>s1. okr (\<lambda>(sw, s'). good ?s s' \<and> (\<not> sw \<longrightarrow> current_task s' = idle_task ?s)) (schedule In_sleep s1)) (wq_prepare Sleep_wq (current_task s) ?s)"
    using prepare_schedule_good [of ?s Sleep_wq In_sleep] g c by (simp add: caller_ok_def)
  moreover have "good s0 (timer_ksleep_end a s')" "good s0 s'" if "good ?s s'" for a s'
    using goodV [of s' s0 "timer_ksleep_end a s'"] that g by (auto simp: timer_ksleep_end_def intro: konst_trans)
  ultimately show ?thesis
    unfolding timer_ksleep_def Let_def okr_simps(3) by (elim okr_mono) auto
qed

end
