(* ===== verification/Kernel_Run.thy ===== *)
theory Kernel_Run
  imports Kernel_Inv
begin

text \<open>
  The invariant of the kernel for the system calls that wait for, duplicate and replace tasks, and for the dispatch of system calls.
\<close>

section \<open>Waiting for children\<close>

lemma wait_for_child_g:
  assumes "good s0 s" "caller_ok s"
  shows "gok s0 (wait_for_child p st s)"
proof -
  have "okr (\<lambda>s1. okr (\<lambda>(sw, s'). good s s' \<and> (\<not> sw \<longrightarrow> current_task s' = idle_task s)) (schedule (In_waitpid p st) s1))
      (wq_prepare (Child_wq (current_task s)) (current_task s) s)"
    using prepare_schedule_good [of s "Child_wq (current_task s)"] assms by (simp add: caller_ok_def)
  then show ?thesis
    unfolding wait_for_child_def Let_def okr_simps(3)
    by (elim okr_mono) (use assms(1) in \<open>auto intro: konst_trans\<close>)
qed

lemma find_task_spec: "find_task s P as = Inr a \<Longrightarrow> a \<noteq> 0 \<Longrightarrow> \<exists>t. tasks s a = Some t \<and> P t"
  by (induction as) (auto simp: kres_simps split: if_splits)

lemma reap_g:
  assumes "good s0 s" "runst s z = Some TASK_ZOMBIE"
  shows "gok s0 (reap_zombie z st s)"
proof -
  have *: "okr (\<lambda>s'. good s0 s') (task_release z s1)" if v: "sched_view s1 = sched_view s" for s1
  proof (rule task_release_view [THEN okr_mono])
    fix s' :: kstate
    assume "sched_view s' = sched_view (drop_task z s1)"
    then have "sched_view s' = sched_view (drop_task z s)" using sched_view_drop_cong [OF v] by simp
    moreover have "good s0 (drop_task z s)"
      using assms sched_inv_drop handlers_ok_drop lossless_drop_task [of "{current_task s}" s z] by (simp add: kinv_def konst_def)
    ultimately show "good s0 s'" by (rule goodV [rotated])
  qed
  have "good s0 s1" if "sched_view s1 = sched_view s" for s1 using goodV [OF assms(1) that] .
  then show ?thesis
    by (auto simp: reap_zombie_def ret_def intro!: k_copy_keeps(1) [THEN keepsE] *)
qed

lemma okr_query: "(\<And>x. m = Inr x \<Longrightarrow> okr P (f x)) \<Longrightarrow> okr P (kbind m f)"
  by (cases m) auto

lemma waitpid_loop_g:
  assumes "good s0 s" "caller_ok s"
  shows "gok s0 (waitpid_loop p st s)"
proof -
  have z: "gok s0 (reap_zombie z st s)" if "find_zombie_child t p s = Inr z" "z \<noteq> 0" for z t
    using find_task_spec that by (intro reap_g [OF assms(1)]) (fastforce simp: find_zombie_child_def runst_def)
  have 1: "gok s0 (kbind (find_zombie_child t p s) (\<lambda>zombie. if zombie \<noteq> 0 then reap_zombie zombie st s else wait_for_child p st s))" for t
    using z wait_for_child_g [OF assms] by (intro okr_query) simp
  have "gok s0 (kbind q (\<lambda>has. if \<not> has then ret (- ECHILD) s
      else kbind (find_zombie_child t p s) (\<lambda>zombie. if zombie \<noteq> 0 then reap_zombie zombie st s else wait_for_child p st s)))" for q t
    using 1 assms(1) by (intro okr_query) (simp add: ret_def del: okr_simps(3))
  then show ?thesis
    using assms(1) wait_for_child_g [OF assms] unfolding waitpid_loop_def Let_def by (simp add: ret_def del: okr_simps(3))
qed

lemma waitpid_g: "good s0 s \<Longrightarrow> caller_ok s \<Longrightarrow> gok s0 (sys_waitpid p st opt s)"
  using waitpid_loop_g by (auto simp: sys_waitpid_def ret_def)

section \<open>Fork and execve\<close>

lemma current_exists: "kinv s \<Longrightarrow> tasks s (current_task s) \<noteq> None"
  by (simp add: kinv_def sched_inv_def current_ok_def runst_None)

lemma idle_exists: "kinv s \<Longrightarrow> idle_task s \<noteq> 0 \<Longrightarrow> tasks s (idle_task s) \<noteq> None"
  using queues_okD(12) [of s] by (simp add: kinv_def sched_inv_def runst_None)

text \<open>A task that has just been added is put on the run queue.\<close>

lemma enqueue_added_g:
  assumes "good s0 s" "tasks s a = None" "a \<noteq> 0" "idle_task s \<noteq> 0" "handlers_ok (add_task a t s)"
    "wq_node (wq_data t) = None" "child_wq t = []" "task_state t \<noteq> TASK_WAITING"
    and v: "sched_view s1 = sched_view (add_task a t s)"
  shows "gok s0 (sched_enqueue a s1)"
proof -
  have k: "kinv s" using assms(1) by blast
  have "a \<noteq> current_task s" "a \<noteq> idle_task s" using current_exists [of s] idle_exists [of s] assms(1,2,4) by auto
  then have n: "a \<noteq> current_task s1" "a \<noteq> idle_task s1" "queued s1 a = None" using view_abs(2,6,7) [OF v] assms(6) by simp_all
  have c: "current_task s1 = current_task s" using view_abs(6) [OF v] by simp
  have i: "sched_inv s1" "lossless (insert a {current_task s1}) s1"
    using sched_inv_add [OF kinvD(1) [OF k] assms(2,6,7,3)] lossless_add(1) [OF kinvD(3) [OF k] assms(8,2)] c
    by (simp_all only: view_inv(3,5) [OF v])
  have h: "handlers_ok s1" using assms(5) handlers_same(2) [OF view_inv(4) [OF v]] by simp
  have ks: "konst s0 s1" using assms(1) view_abs(7,8,9) [OF v] by (simp add: konst_def)
  show ?thesis
  proof (rule enqueue_inv [OF i assms(3) n, THEN okr_mono], clarify)
    fix r s'
    assume s': "sched_inv s'" "same_rest s1 s'" "lossless {current_task s1} s'"
    then have "kinv s'" using h handlers_same(2) [OF s'(2)] by (simp add: kinv_def same_rest_def)
    then show "good s0 s'" using ks s'(2) by (simp add: konst_def same_rest_def)
  qed
qed

lemma fork_start_g:
  assumes "good s0 s" "caller_ok s" "idle_task s \<noteq> 0" "tasks s (current_task s) = Some c" "tasks s a = None" "a \<noteq> 0"
    and v: "sched_view s1 = sched_view (add_task a (child_of c) s)"
  shows "gok s0 (fork_start_child (current_task s) a s1)"
proof -
  let ?c = "(child_of c)\<lparr>task_state := TASK_RUNNING\<rparr>"
  have w: "wq_node (wq_data ?c) = None" "child_wq ?c = []" by (simp_all add: child_of_def wq_entry_init_def)
  have "handlers_ok (add_task a (child_of c) s)"
    using handlers_ok_child [OF _ assms(4), of a] assms(1,2) by (simp add: kinv_def caller_ok_def)
  then have h: "handlers_ok (add_task a ?c s)" by (simp add: handlers_ok_def task_get_dummy_def)
  have run: "sched_view (upd_task a (\<lambda>t. t\<lparr>task_esp := e, task_state := TASK_RUNNING\<rparr>) s2) = sched_view (add_task a ?c s)"
    if "sched_view s2 = sched_view s1" for s2 e
    by (rule view_upd_core) (use that v in \<open>auto simp: core_def\<close>)
  have enq: "okr Q (sched_enqueue a s3)"
    if "sched_view s3 = sched_view (add_task a ?c s)" "\<And>r s'. good s0 s' \<Longrightarrow> Q (r, s')" for s3 Q
    by (rule enqueue_added_g [OF assms(1,5,6,3) h w _ that(1), THEN okr_mono]) (use that(2) in auto)
  have fin: "good s0 (upd_task a (\<lambda>t. t\<lparr>resume_at := y\<rparr>) (s4\<lparr>kmem := m\<rparr>))" if "good s0 s4" for s4 y m
    by (rule goodV [OF that]) simp
  show ?thesis
    unfolding fork_start_child_def
    apply (simp add: Let_def ret_def case_prod_unfold del: push_words.simps)
    apply (intro allI impI append_child_keeps [THEN keeps1E])
    apply (rule enq, rule run, simp)
    apply (simp add: fin)
    done
qed

lemma fork_g:
  assumes "good s0 s" "caller_ok s" "idle_task s \<noteq> 0"
  shows "gok s0 (sys_fork s)"
proof (rule okrI, clarify)
  fix r s'
  assume f: "sys_fork s = Inr (r, s')"
  obtain c where c: "tasks s (current_task s) = Some c" using current_exists [of s] assms(1) by auto
  obtain a s1 where cl: "task_clone (current_task s) s = Inr (a, s1)" using f by (auto simp: sys_fork_def Let_def kres_simps)
  have m: "made s (child_of c) (a, s1)" using task_clone_view [OF c, THEN okrD, OF cl] .
  show "good s0 s'"
  proof (cases "a = 0")
    case True
    then have "s' = s1" using f cl by (auto simp: sys_fork_def Let_def kres_simps ret_def)
    then show ?thesis using m True goodV [OF assms(1)] by (simp add: made_def)
  next
    case False
    then have n: "tasks s a = None" and v: "sched_view s1 = sched_view (add_task a (child_of c) s)" using m by (simp_all add: made_def)
    have fail: "gok s0 (fork_fail_kernel_stack a s2)" "gok s0 (fork_fail_page_copy a s2)"
      if "sched_view s2 = sched_view (add_task a (child_of c) s)" for s2
      using fork_fail_view [OF that n] gokV [OF assms(1)] by auto
    have start: "gok s0 (fork_start_child (current_task s) a s2)"
      if "sched_view s2 = sched_view (add_task a (child_of c) s)" for s2
      using fork_start_g [OF assms c n False that] .
    have upd: "sched_view (upd_task a (\<lambda>t. t\<lparr>kernel_stack_base := x, text_sec := (text_sec t)\<lparr>sec_p_addr := 0\<rparr>, data_sec := (data_sec t)\<lparr>sec_p_addr := 0\<rparr>,
          heap_sec := (heap_sec t)\<lparr>sec_p_addr := 0\<rparr>, stack_sec := (stack_sec t)\<lparr>sec_p_addr := 0\<rparr>\<rparr>) s2) = sched_view s2" for s2 x
      by (rule sched_view_upd) (simp add: core_def)
    have "gok s0 (sys_fork s)"
      using cl False
      apply (simp add: sys_fork_def Let_def kassert_def del: fork_tables.simps)
      apply (intro impI k_zalloc_keeps [THEN keepsE])
      apply (simp add: v del: fork_tables.simps)
      apply (intro conjI impI fail(1))
       apply (simp add: v)
      apply (simp add: Let_def)
      apply (intro allI impI fork_tables_keeps [THEN keepsE])
      apply (simp add: v upd)
      apply (intro conjI impI fail(2))
       apply simp
      apply (rule okr_all, rule okr_all, rule k_keeps(6) [THEN keeps1E], rule start, simp)
      done
    then show ?thesis using okrD [OF _ f] by fastforce
  qed
qed

lemma execve_g: "good s0 s \<Longrightarrow> gok s0 (sys_execve i s)"
proof -
  assume g: "good s0 s"
  have *: "sched_view (upd_task a (write_name nm \<circ> (\<lambda>t. t\<lparr>vma_areas := x\<rparr>)) s1) = sched_view s1" for a nm x and s1 :: kstate
    by (rule sched_view_upd) (simp add: core_def write_name_def)
  note any = okr_all [of _ "vma_init_area _ _ _ _"]
  show ?thesis
    by (rule gokV [OF g]) (auto simp: sys_execve_def ret_def Let_def * case_prod_unfold intro!: frame any split: option.splits)
qed

section \<open>Dispatch\<close>

lemma syscall_g:
  assumes "good s0 s" "caller_ok s" "idle_task s \<noteq> 0" "syscall_entry n = Some h"
  shows "gok s0 (h a b c d e f s)"
proof -
  have sl: "gok s0 (sys_sleep x s)" for x
    unfolding sys_sleep_def by (simp, rule sleep_g [OF assms(1,2), THEN okr_mono]) auto
  note g = simple_calls_g [OF assms(1)] signal_g [OF assms(1,2)] sigreturn_g [OF assms(1)] sl waitpid_g [OF assms(1,2)]
    fork_g [OF assms(1-3)] execve_g [OF assms(1)]
  show ?thesis using assms(4) g by (auto simp: syscall_entry_def split: if_splits)
qed

lemma do_syscall_g:
  assumes "good s0 s" "caller_ok s" "idle_task s \<noteq> 0"
  shows "okr (\<lambda>(r, s'). good s0 s') (do_syscall s)"
proof -
  have tf: "good s0 (set_tf t f v s1)" if "good s0 s1" for t f v s1 by (rule goodV [OF that]) simp
  have *: "gok s0 (kbind (h a b c d e f s) (\<lambda>(r, s). case r of None \<Rightarrow> Inr (False, s) | Some v \<Rightarrow> Inr (True, set_tf t Tf_eax v s)))"
    if "syscall_table ! n = Some h" "n < length syscall_table" for n h a b c d e f t
  proof -
    have "syscall_entry n = Some h" using that by (simp add: syscall_table_def)
    from syscall_g [OF assms this] show ?thesis
      unfolding okr_simps(3) by (rule okr_mono) (auto intro!: tf split: option.split)
  qed
  show ?thesis
    using tf [OF assms(1)] * by (auto simp: do_syscall_def Let_def simp del: okr_simps(3) split: option.split)
qed

end
