(* ===== verification/Kernel_Steps.thy ===== *)
theory Kernel_Steps
  imports Kernel_Run
begin

text \<open>
  The invariant of the kernel for the continuation of a task that has been switched in, for the creation of tasks from
  programs of the kernel image, and for the start of the process code.
\<close>

section \<open>Continuations\<close>

lemma resume_g:
  assumes "good s0 s" "caller_ok s"
  shows "okr (\<lambda>s'. good s0 s') (resume_current s)"
proof -
  let ?s = "s\<lparr>resuming := False\<rparr>"
  have g: "good s0 ?s" by (rule goodV [OF assms(1)]) simp
  have rest: "okr (\<lambda>s'. good s0 s') (resume_rest rp s1)" if h: "good s0 s1" "current_task s1 = current_task s" for s1 rp
  proof -
    have c: "caller_ok s1" using assms h by (simp add: caller_ok_def konst_def task_get_dummy_def)
    have eax: "okr (\<lambda>s'. good s0 s') (kbind (set_cur_eax v s2) irq_return)" if "good s0 s2" for s2 v
    proof -
      have "okr (\<lambda>s'. good s0 s') (irq_return (set_tf t Tf_eax v s2))" for t
        by (rule irq_return_g, rule goodV [OF that]) simp
      then show ?thesis by (simp add: set_cur_eax_def)
    qed
    have sl: "good s0 (timer_ksleep_end a s1)" for a by (rule goodV [OF h(1)]) (simp add: timer_ksleep_end_def)
    have wp: "okr (\<lambda>s'. good s0 s') (kbind (waitpid_loop p st s1) (\<lambda>(r, s). case r of None \<Rightarrow> Inr s | Some v \<Rightarrow> kbind (set_cur_eax v s) irq_return))" for p st
      unfolding okr_simps(3) [of _ "waitpid_loop p st s1"]
      by (rule waitpid_loop_g [OF h(1) c, THEN okr_mono]) (use eax in \<open>auto split: option.split\<close>)
    show ?thesis
      using eax sl wp irq_return_g [OF h(1)] by (cases rp) (auto simp: resume_rest_def Let_def simp del: okr_simps(3))
  qed
  have sig: "okr (\<lambda>s'. good s0 s') (kbind (signal_call_curtask_handlers ?s) (\<lambda>(alive, s). if alive then resume_rest rp s else Inr s))" for rp
    unfolding okr_simps(3) by (rule signals_g [OF g, THEN okr_mono]) (use rest in auto)
  show ?thesis
    using g sig irq_return_g [OF g]
    by (auto simp: resume_current_def Let_def simp del: okr_simps(3) split: resume_point.split)
qed

section \<open>New tasks\<close>

lemma fresh_queues: "wq_node (wq_data (fresh_task im)) = None" "child_wq (fresh_task im) = []"
  by (simp_all add: fresh_task_def zero_task_def wq_entry_init_def)

text \<open>A new task, with a context, put on the run queue.\<close>

lemma start_new_g:
  assumes "good s0 s" "tasks s a = None" "a \<noteq> 0" "idle_task s \<noteq> 0"
    "sched_view s1 = sched_view (add_task a ((fresh_task (img s))\<lparr>task_state := st\<rparr>) s)" "st \<noteq> TASK_WAITING"
  shows "okr (\<lambda>(r, s'). good s0 s') (sched_enqueue a s1)"
proof -
  have "handlers_ok (add_task a ((fresh_task (img s))\<lparr>task_state := st\<rparr>) s)"
    using handlers_ok_fresh [of s a] assms(1) by (simp add: kinv_def handlers_ok_def task_get_dummy_def)
  then show ?thesis by (rule enqueue_added_g [OF assms(1-4) _ _ _ _ assms(5)]) (simp_all add: fresh_queues assms(6))
qed

lemma exec_fn_g:
  assumes "good s0 s" "idle_task s \<noteq> 0"
  shows "okr (\<lambda>s'. good s0 s') (exec_fn addr fn sz s)"
proof -
  have *: "okr (\<lambda>s'. good s0 s') (exec_fn_start u fn a s1)" if m: "made s (fresh_task (img s)) (a, s1)" for a s1 u
  proof (cases "a = 0")
    case True
    then show ?thesis using m goodV [OF assms(1)] by (simp add: made_def exec_fn_start_def)
  next
    case False
    then have n: "tasks s a = None" and v: "sched_view s1 = sched_view (add_task a (fresh_task (img s)) s)" using m by (simp_all add: made_def)
    have run: "sched_view (upd_task a (\<lambda>t. t\<lparr>task_state := TASK_RUNNING\<rparr>) s2) = sched_view (add_task a ((fresh_task (img s))\<lparr>task_state := TASK_RUNNING\<rparr>) s)"
      if "sched_view s2 = sched_view s1" for s2
      by (rule view_upd_core) (use that v in \<open>auto simp: core_def\<close>)
    have enq: "okr (\<lambda>x. okr (\<lambda>s'. good s0 s') (case x of (_, s) \<Rightarrow> Inr s)) (sched_enqueue a s3)"
      if "sched_view s3 = sched_view (add_task a ((fresh_task (img s))\<lparr>task_state := TASK_RUNNING\<rparr>) s)" for s3
      by (rule start_new_g [OF assms(1) n False assms(2) that, THEN okr_mono]) auto
    show ?thesis
      using False by (auto simp: exec_fn_start_def Let_def intro!: craft_keeps [THEN keeps1E] append_child_keeps [THEN keeps1E] enq run)
  qed
  show ?thesis
    using assms(1) by (auto simp: exec_fn_def Let_def intro!: task_get_new_view [THEN okr_mono] * split: option.split)
qed

section \<open>Start\<close>

text \<open>
  The state \<^verbatim>\<open>task_init_process\<close> leaves: the boot thread is current, \<^verbatim>\<open>kitoxD\<close> is on the run queue and the idle task waits beside it. \<open>start_view\<close>
  is that state as the scheduler sees it.
\<close>

definition boot_thread :: task where
  "boot_thread = zero_task\<lparr>task_state := TASK_RUNNING\<rparr>"

definition start_view :: "u32 \<Rightarrow> u32 \<Rightarrow> kstate \<Rightarrow> kstate" where
  "start_view i k s = (add_task k ((fresh_task (img s))\<lparr>task_state := TASK_RUNNING\<rparr>) (add_task i (fresh_task (img s))
     (add_task (task_get_dummy s) boot_thread (s\<lparr>tasks := Map.empty\<rparr>))))
     \<lparr>ready_queue := [k], sleep_wq := [], current_task := task_get_dummy s, idle_task := i, kitoxD_task := k\<rparr>"

definition kstart :: "kstate \<Rightarrow> bool" where
  "kstart s \<longleftrightarrow> (let d = task_get_dummy s; i = idle_task s; k = kitoxD_task s in
     d \<noteq> 0 \<and> i \<noteq> 0 \<and> k \<noteq> 0 \<and> d \<noteq> i \<and> d \<noteq> k \<and> i \<noteq> k \<and> sched_view s = sched_view (start_view i k s))"

lemma waiters_empty: "tasks s = Map.empty \<Longrightarrow> sleep_wq s = [] \<Longrightarrow> waiters s q = []"
  by (cases q) (simp_all add: waiters_def get_wq_def)

lemma kstart_kinv: "kstart s \<Longrightarrow> kinv s \<and> idle_task s \<noteq> 0"
proof -
  assume h: "kstart s"
  define d i k where dik: "d = task_get_dummy s" "i = idle_task s" "k = kitoxD_task s"
  let ?s = "start_view i k s"
  have n: "d \<noteq> 0" "i \<noteq> 0" "k \<noteq> 0" "d \<noteq> i" "d \<noteq> k" "i \<noteq> k" and v: "sched_view s = sched_view ?s"
    using h unfolding kstart_def Let_def dik by auto
  have t: "tasks ?s = (\<lambda>_. None)(d \<mapsto> boot_thread, i \<mapsto> fresh_task (img s), k \<mapsto> (fresh_task (img s))\<lparr>task_state := TASK_RUNNING\<rparr>)"
    by (simp add: start_view_def add_task_def dik)
  have f: "ready_queue ?s = [k]" "sleep_wq ?s = []" "current_task ?s = d" "idle_task ?s = i" "img ?s = img s" "task_get_dummy ?s = d"
    by (simp_all add: start_view_def add_task_def dik task_get_dummy_def)
  have q: "queued ?s = (\<lambda>_. None)" "waiters ?s = (\<lambda>_. [])" "runst ?s k = Some TASK_RUNNING" "runst ?s i = Some TASK_NEW" "runst ?s d = Some TASK_RUNNING" "runst ?s 0 = None"
  proof -
    show "waiters ?s = (\<lambda>_. [])"
    proof
      fix q
      show "waiters ?s q = []"
        using n by (cases q) (auto simp: waiters_def get_wq_def t f(2) boot_thread_def fresh_task_def zero_task_def)
    qed
  qed (use n in \<open>auto simp: queued_def runst_def t boot_thread_def fresh_task_def zero_task_def wq_entry_init_def\<close>)
  have "sched_inv ?s" using n q by (simp add: sched_inv_def queues_ok_def current_ok_def f)
  moreover have "lossless {current_task ?s} ?s"
    using n by (auto simp: lossless_def f t runst_def fresh_task_def zero_task_def boot_thread_def split: if_splits)
  moreover have "handlers_ok ?s"
    using n by (auto simp: handlers_ok_def f handlers_of_def t fresh_task_def handler_set_ok_def default_handlers_9_19)
  ultimately show ?thesis using good_view [OF v] n(2) by (simp add: kinv_def dik)
qed

end
