(* ===== verification/Kernel_Reach.thy ===== *)
theory Kernel_Reach
  imports Kernel_Steps
begin

text \<open>
  The kernel as a transition system. \<^verbatim>\<open>task_init_process\<close> leads to a start state; from there the CPU takes timer interrupts, system calls,
  page faults and keyboard interrupts with their shell commands, runs user code and kernel threads, and
  continues tasks that have been switched in. The invariant of the queues and handlers holds in every state that is reached.
\<close>

section \<open>Start-up\<close>

lemma view_fields_cong:
  assumes "sched_view s' = sched_view s"
  shows "sched_view (s'\<lparr>idle_task := a\<rparr>) = sched_view (s\<lparr>idle_task := a\<rparr>)"
    "sched_view (s'\<lparr>kitoxD_task := a\<rparr>) = sched_view (s\<lparr>kitoxD_task := a\<rparr>)"
    "sched_view (s'\<lparr>ready_queue := q\<rparr>) = sched_view (s\<lparr>ready_queue := q\<rparr>)"
  using assms by (simp_all add: sched_view_def)

lemma init_idle_view:
  "okr (\<lambda>s'. \<exists>i. i \<noteq> 0 \<and> tasks s i = None \<and> sched_view s' = sched_view (add_task i (fresh_task (img s)) (s\<lparr>idle_task := i\<rparr>))) (task_init_idle s)"
proof -
  have *: "okr (\<lambda>s'. \<exists>i. i \<noteq> 0 \<and> tasks s i = None \<and> sched_view s' = sched_view (add_task i (fresh_task (img s)) (s\<lparr>idle_task := i\<rparr>)))
      (kbind (task_craft_context a False e (s1\<lparr>idle_task := a\<rparr>)) (\<lambda>s. Inr (upd_task a (\<lambda>t. t\<lparr>task_state := TASK_NEW\<rparr>) s)))"
    if m: "made s (fresh_task (img s)) (a, s1)" "a \<noteq> 0" for a s1 e
  proof -
    have n: "tasks s a = None" and v: "sched_view s1 = sched_view (add_task a (fresh_task (img s)) s)" using m by (simp_all add: made_def)
    have "sched_view (s1\<lparr>idle_task := a\<rparr>) = sched_view (add_task a (fresh_task (img s)) (s\<lparr>idle_task := a\<rparr>))"
      using view_fields_cong(1) [OF v, of a] by (simp add: add_task_def sched_view_def)
    then have "sched_view (upd_task a (\<lambda>t. t\<lparr>task_state := TASK_NEW\<rparr>) s2) = sched_view (add_task a (fresh_task (img s)) (s\<lparr>idle_task := a\<rparr>))"
      if "sched_view s2 = sched_view (s1\<lparr>idle_task := a\<rparr>)" for s2
      by (intro view_upd_core [of s2 a "fresh_task (img s)"]) (use that in \<open>auto simp: core_def fresh_task_def zero_task_def\<close>)
    then show ?thesis using m(2) n by (auto intro!: craft_keeps [THEN keeps1E] exI [of _ a])
  qed
  show ?thesis
    unfolding task_init_idle_def okr_simps(3) [of _ "task_get_new _ _ _ _ _"]
    by (rule task_get_new_view [THEN okr_mono]) (use * in \<open>auto simp: Let_def simp del: okr_simps(3)\<close>)
qed

lemma init_kitoxD_view:
  assumes "ready_queue s = []"
  shows "okr (\<lambda>s'. \<exists>k. k \<noteq> 0 \<and> tasks s k = None \<and> sched_view s' = sched_view (add_task k ((fresh_task (img s))\<lparr>task_state := TASK_RUNNING\<rparr>)
    (s\<lparr>kitoxD_task := k, ready_queue := [k]\<rparr>))) (task_init_kitoxD s)"
proof -
  let ?P = "\<lambda>s'. \<exists>k. k \<noteq> 0 \<and> tasks s k = None \<and> sched_view s' = sched_view (add_task k ((fresh_task (img s))\<lparr>task_state := TASK_RUNNING\<rparr>)
    (s\<lparr>kitoxD_task := k, ready_queue := [k]\<rparr>))"
  have enq: "okr (\<lambda>x. ?P (snd x)) (sched_enqueue a s2)"
    if a: "a \<noteq> 0" "tasks s a = None" and v: "sched_view s2 = sched_view (add_task a (fresh_task (img s)) (s\<lparr>kitoxD_task := a\<rparr>))" for a s2
  proof -
    have q: "ready_queue s2 = []" using view_abs(5) [OF v] assms by simp
    have "sched_view (upd_task a (\<lambda>t. t\<lparr>task_state := TASK_RUNNING\<rparr>) s2) =
        sched_view (add_task a ((fresh_task (img s))\<lparr>task_state := TASK_RUNNING\<rparr>) (s\<lparr>kitoxD_task := a\<rparr>))"
      by (rule view_upd_core [OF v]) (simp add: core_def)
    from view_fields_cong(3) [OF this, of "[a]"]
    have "sched_view ((upd_task a (\<lambda>t. t\<lparr>task_state := TASK_RUNNING\<rparr>) s2)\<lparr>ready_queue := [a]\<rparr>) =
        sched_view (add_task a ((fresh_task (img s))\<lparr>task_state := TASK_RUNNING\<rparr>) (s\<lparr>kitoxD_task := a, ready_queue := [a]\<rparr>))"
      by (simp add: add_task_def sched_view_def)
    then show ?thesis using a q by (auto simp: sched_enqueue_def intro!: exI [of _ a])
  qed
  have *: "okr ?P (let s = s1\<lparr>kitoxD_task := a\<rparr> in if a = 0 then Inl (Panic ''Failed to init kitoxD'')
          else let s = upd_task a (\<lambda>t. t\<lparr>task_state := TASK_NEW\<rparr>) s in
            with_task a s (\<lambda>t. kbind (task_craft_context a True (sec_v_addr (text_sec t)) s) (\<lambda>s. kbind (sched_enqueue a s) (\<lambda>(_, s). Inr s))))"
    if m: "made s (fresh_task (img s)) (a, s1)" for a s1
  proof (cases "a = 0")
    case False
    then have n: "tasks s a = None" and v: "sched_view s1 = sched_view (add_task a (fresh_task (img s)) s)" using m by (simp_all add: made_def)
    have "sched_view (s1\<lparr>kitoxD_task := a\<rparr>) = sched_view (add_task a (fresh_task (img s)) (s\<lparr>kitoxD_task := a\<rparr>))"
      using view_fields_cong(2) [OF v, of a] by (simp add: add_task_def sched_view_def)
    then have "sched_view (upd_task a (\<lambda>t. t\<lparr>task_state := TASK_NEW\<rparr>) (s1\<lparr>kitoxD_task := a\<rparr>)) =
        sched_view (add_task a (fresh_task (img s)) (s\<lparr>kitoxD_task := a\<rparr>))"
      by (rule view_upd_core) (simp add: core_def fresh_task_def zero_task_def)
    then have "okr (\<lambda>x. ?P (snd x)) (sched_enqueue a s2)"
      if "sched_view s2 = sched_view (upd_task a (\<lambda>t. t\<lparr>task_state := TASK_NEW\<rparr>) (s1\<lparr>kitoxD_task := a\<rparr>))" for s2
      using enq [OF False n] that by simp
    then show ?thesis
      using False by (auto simp: Let_def case_prod_unfold intro!: craft_keeps [THEN keeps1E])
  qed simp
  show ?thesis
    unfolding task_init_kitoxD_def
  proof (split option.split, intro conjI allI impI)
    fix x
    show "okr ?P (kbind (task_get_new (Some (map of_char ''kitoxD'')) 3 (Some x) None s) (\<lambda>(a, s).
        let s = s\<lparr>kitoxD_task := a\<rparr> in if a = 0 then Inl (Panic ''Failed to init kitoxD'')
          else let s = upd_task a (\<lambda>t. t\<lparr>task_state := TASK_NEW\<rparr>) s in
            with_task a s (\<lambda>t. kbind (task_craft_context a True (sec_v_addr (text_sec t)) s) (\<lambda>s. kbind (sched_enqueue a s) (\<lambda>(_, s). Inr s)))))"
      unfolding okr_simps(3) [of _ "task_get_new _ _ _ _ _"]
      by (rule task_get_new_view [THEN okr_mono], case_tac x, simp only: prod.case, erule *)
  qed simp
qed

lemma init_process_kstart:
  assumes "tasks s = Map.empty" "ready_queue s = []" "sleep_wq s = []" "task_get_dummy s \<noteq> 0"
  shows "okr kstart (task_init_process esp_val s)"
proof -
  let ?d = "task_get_dummy s"
  let ?s0 = "task_init_dummy esp_val s"
  have v0: "sched_view ?s0 = sched_view (add_task ?d boot_thread (s\<lparr>current_task := ?d\<rparr>))"
    using assms(1) by (simp add: task_init_dummy_def Let_def sched_view_def add_task_def boot_thread_def task_get_dummy_def core_def fun_eq_iff)
  have t0: "tasks ?s0 a = None \<longleftrightarrow> a \<noteq> ?d" for a using assms(1) by (simp add: task_init_dummy_def Let_def task_get_dummy_def)
  have i0: "img ?s0 = img s" "ready_queue ?s0 = []" using assms by (simp_all add: task_init_dummy_def Let_def)
  have "kstart (timer_set_cycle TIMER_HZ s2)"
    if i: "i \<noteq> 0" "tasks ?s0 i = None" and v1: "sched_view s1 = sched_view (add_task i (fresh_task (img ?s0)) (?s0\<lparr>idle_task := i\<rparr>))"
      and k: "k \<noteq> 0" "tasks s1 k = None"
      and v2: "sched_view s2 = sched_view (add_task k ((fresh_task (img s1))\<lparr>task_state := TASK_RUNNING\<rparr>) (s1\<lparr>kitoxD_task := k, ready_queue := [k]\<rparr>))"
    for i s1 k s2
  proof -
    have im: "img s1 = img s" "tasks s1 a = None \<longleftrightarrow> a \<noteq> i \<and> a \<noteq> ?d" for a
      using view_abs(9,10) [OF v1] i0(1) t0 by (auto simp: add_task_def)
    have ne: "i \<noteq> ?d" "k \<noteq> i" "k \<noteq> ?d" using i(2) t0 k(2) im(2) by auto
    have f: "current_task s2 = ?d" "idle_task s2 = i" "kitoxD_task s2 = k" "img s2 = img s"
      using view_abs(6,7,8,9) [OF v2] view_abs(6,7) [OF v1] view_abs(6) [OF v0] im(1) by (simp_all add: task_init_dummy_def Let_def task_get_dummy_def)
    have "sched_view s2 = sched_view (start_view i k s2)"
    proof -
      have c1: "map_option core (tasks s1 b) = map_option core (tasks (add_task i (fresh_task (img ?s0)) (?s0\<lparr>idle_task := i\<rparr>)) b)" for b
        using v1 by (simp add: sched_view_def fun_eq_iff)
      have c0: "map_option core (tasks ?s0 b) = map_option core (tasks (add_task ?d boot_thread (s\<lparr>current_task := ?d\<rparr>)) b)" for b
        using v0 by (simp add: sched_view_def fun_eq_iff)
      have "map_option core (tasks s2 b) = map_option core (tasks (start_view i k s2) b)" for b
      proof -
        have "map_option core (tasks s2 b) = map_option core (tasks (add_task k ((fresh_task (img s1))\<lparr>task_state := TASK_RUNNING\<rparr>) (s1\<lparr>kitoxD_task := k, ready_queue := [k]\<rparr>)) b)"
          using v2 by (simp add: sched_view_def fun_eq_iff)
        then show ?thesis
          using c0 [of b] c1 [of b] ne assms(1) im(1) i0(1) f(4) by (auto simp: start_view_def add_task_def task_get_dummy_def split: if_splits)
      qed
      moreover have "ready_queue s2 = [k]" "sleep_wq s2 = []"
        using v0 v1 v2 assms(3) by (auto simp: sched_view_def add_task_def)
      ultimately show ?thesis using f by (simp add: sched_view_def fun_eq_iff start_view_def add_task_def task_get_dummy_def)
    qed
    moreover have "sched_view (timer_set_cycle TIMER_HZ s2) = sched_view s2" by (simp add: timer_set_cycle_def k_outb_def Let_def)
    moreover have "sched_view (start_view i k s2) = sched_view (start_view i k (timer_set_cycle TIMER_HZ s2))"
      by (simp add: start_view_def add_task_def sched_view_def task_get_dummy_def timer_set_cycle_def k_outb_def Let_def)
    ultimately show ?thesis
      using f ne i(1) k(1) assms(4) by (simp add: kstart_def Let_def task_get_dummy_def timer_set_cycle_def k_outb_def)
  qed note start = this
  have "okr kstart (kbind (task_init_kitoxD s1) (\<lambda>s. Inr (timer_set_cycle TIMER_HZ s)))"
    if i: "i \<noteq> 0" "tasks ?s0 i = None" and v1: "sched_view s1 = sched_view (add_task i (fresh_task (img ?s0)) (?s0\<lparr>idle_task := i\<rparr>))" for i s1
  proof -
    have "ready_queue s1 = []" using view_abs(5) [OF v1] i0(2) by simp
    from init_kitoxD_view [OF this] show ?thesis unfolding okr_simps(3) by (rule okr_mono) (use start [OF i v1] in auto)
  qed note kit = this
  show ?thesis
    unfolding task_init_process_def okr_simps(3) [of _ "task_init_idle _"]
    by (rule init_idle_view [THEN okr_mono]) (elim exE conjE, rule kit)
qed

section \<open>Steps\<close>

text \<open>
  The end of an interrupt, when the handler comes back: \<^verbatim>\<open>interrupt_exit\<close>. Page faults come in through \<^verbatim>\<open>isr.s\<close>, which returns without looking at signals.
\<close>

definition handler_end :: "(bool \<times> kstate) kres \<Rightarrow> kstate kres" where
  "handler_end r = kbind r (\<lambda>(returned, s). if returned then irq_return s else Inr s)"

definition on_tick :: "kstate \<Rightarrow> kstate kres" where
  "on_tick s = handler_end (kbind (timer_handle s) (\<lambda>(switched, s). Inr (\<not> switched, s)))"

definition on_syscall :: "kstate \<Rightarrow> kstate kres" where
  "on_syscall s = handler_end (do_syscall s)"

definition on_page_fault :: "u32 \<Rightarrow> kstate \<Rightarrow> kstate kres" where
  "on_page_fault faulting_address s = with_task (current_task s) s (\<lambda>t.
     kbind (page_fault_handler (task_cr3 t) faulting_address (vma_areas t) (kmm s)) (\<lambda>(areas, k).
     Inr (upd_task (current_task s) (\<lambda>t. t\<lparr>vma_areas := areas\<rparr>) (s\<lparr>kmm := k\<rparr>))))"

text \<open>The commands of the shell that reach the process code, run by the keyboard interrupt.\<close>

definition shell_exec :: "u32 \<Rightarrow> u32 \<Rightarrow> u32 \<Rightarrow> kstate \<Rightarrow> kstate kres" where
  "shell_exec addr fn sz s = handler_end (kbind (exec_fn addr fn sz s) (\<lambda>s. Inr (True, s)))"

definition sys_kill_wrapper :: "u32 \<Rightarrow> u32 \<Rightarrow> kstate \<Rightarrow> kstate kres" where
  "sys_kill_wrapper sig p s = handler_end (kbind (kill_pid p sig s) (\<lambda>(_, s). Inr (True, s)))"

text \<open>User code writes its own memory and leaves its registers in the trap frame of its next interrupt.\<close>

definition user_run :: "bmem \<Rightarrow> bmem \<Rightarrow> task \<Rightarrow> kstate \<Rightarrow> kstate" where
  "user_run um regs t s = s\<lparr>umem := (umem s)(task_cr3 t := um),
     kmem := (\<lambda>a. if a - tf_base t < sizeof_trap_frame then regs a else kmem s a)\<rparr>"

text \<open>
  One step of the machine. While \<open>resuming\<close> holds, the CPU is in the kernel with interrupts off, on the stack it has just switched to. The boot thread gives up the CPU
  at the end of \<^verbatim>\<open>init\<close>, and \<^verbatim>\<open>schedule\<close> never takes it again; the idle task makes no calls and is only ever switched out by the timer.
\<close>

inductive kstep :: "kstate \<Rightarrow> kstate \<Rightarrow> bool" where
  boot_done: "\<not> resuming s \<Longrightarrow> current_task s = task_get_dummy s \<Longrightarrow> schedule In_boot s = Inr (sw, s') \<Longrightarrow> kstep s s'"
| tick: "\<not> resuming s \<Longrightarrow> on_tick s = Inr s' \<Longrightarrow> kstep s s'"
| syscall: "\<not> resuming s \<Longrightarrow> caller_ok s \<Longrightarrow> on_syscall s = Inr s' \<Longrightarrow> kstep s s'"
| page_fault: "\<not> resuming s \<Longrightarrow> on_page_fault a s = Inr s' \<Longrightarrow> kstep s s'"
| exec: "\<not> resuming s \<Longrightarrow> shell_exec a fn sz s = Inr s' \<Longrightarrow> kstep s s'"
| kill: "\<not> resuming s \<Longrightarrow> sys_kill_wrapper sig p s = Inr s' \<Longrightarrow> kstep s s'"
| user: "\<not> resuming s \<Longrightarrow> tasks s (current_task s) = Some t \<Longrightarrow> ring t = 3 \<Longrightarrow> kstep s (user_run um regs t s)"
| kthread_sleep: "\<not> resuming s \<Longrightarrow> caller_ok s \<Longrightarrow> timer_ksleep n s = Inr (sw, s') \<Longrightarrow> kstep s s'"
| kthread_exit: "\<not> resuming s \<Longrightarrow> caller_ok s \<Longrightarrow> do_exit st s = Inr s' \<Longrightarrow> kstep s s'"
| resume: "resuming s \<Longrightarrow> caller_ok s \<Longrightarrow> resume_current s = Inr s' \<Longrightarrow> kstep s s'"
| resume_idle_first: "resuming s \<Longrightarrow> current_task s = idle_task s \<Longrightarrow> kstep s (s\<lparr>resuming := False\<rparr>)"
| resume_idle: "resuming s \<Longrightarrow> current_task s = idle_task s \<Longrightarrow>
    kbind (signal_call_curtask_handlers (s\<lparr>resuming := False\<rparr>)) (\<lambda>(alive, s). if alive then irq_return s else Inr s) = Inr s' \<Longrightarrow> kstep s s'"

inductive kreach :: "kstate \<Rightarrow> bool" where
  start: "kstart s \<Longrightarrow> kreach s"
| step: "kreach s \<Longrightarrow> kstep s s' \<Longrightarrow> kreach s'"

lemma handler_end_g: "okr (\<lambda>(r, s'). good s0 s') m \<Longrightarrow> okr (\<lambda>s'. good s0 s') (handler_end m)"
  unfolding handler_end_def okr_simps(3) by (erule okr_mono) (auto intro!: irq_return_g)

lemma kstep_good:
  assumes "kstep s s'" "kinv s" "idle_task s \<noteq> 0"
  shows "good s s'"
proof -
  have g: "good s s" using assms(2) by simp
  have v: "good s s1" if "sched_view s1 = sched_view s" for s1 by (rule goodV [OF g that])
  show ?thesis
    using assms(1)
  proof cases
    case (boot_done sw)
    then show ?thesis using schedule_good [OF assms(2), THEN okrD] by fastforce
  next
    case tick
    have "okr (\<lambda>s'. good s s') (on_tick s)"
      unfolding on_tick_def by (rule handler_end_g, simp, rule timer_handle_good [OF assms(2), THEN okr_mono]) auto
    then show ?thesis using tick(2) by (rule okrD)
  next
    case syscall
    then show ?thesis using handler_end_g [OF do_syscall_g [OF g syscall(2) assms(3)], THEN okrD] by (simp add: on_syscall_def)
  next
    case (page_fault a)
    have "okr (\<lambda>s'. good s s') (on_page_fault a s)"
      unfolding on_page_fault_def by (auto intro!: okr_all [of _ "page_fault_handler _ _ _ _"] v split: prod.split)
    then show ?thesis using page_fault(2) by (rule okrD)
  next
    case (exec a fn sz)
    have "okr (\<lambda>s'. good s s') (shell_exec a fn sz s)"
      unfolding shell_exec_def by (rule handler_end_g) (use exec_fn_g [OF g assms(3)] in simp)
    then show ?thesis using exec(2) by (rule okrD)
  next
    case (kill sig p)
    have "okr (\<lambda>s'. good s s') (sys_kill_wrapper sig p s)"
      unfolding sys_kill_wrapper_def by (rule handler_end_g, simp, rule kill_g [OF g, THEN okr_mono]) auto
    then show ?thesis using kill(2) by (rule okrD)
  next
    case (user t um regs)
    then show ?thesis using v [of "user_run um regs t s"] by (simp add: user_run_def)
  next
    case (kthread_sleep n sw)
    then show ?thesis using sleep_g [OF g kthread_sleep(2), THEN okrD] by fastforce
  next
    case (kthread_exit st)
    then show ?thesis using do_exit_g [OF g, THEN okrD] by blast
  next
    case resume
    then show ?thesis using resume_g [OF g resume(2), THEN okrD] by blast
  next
    case resume_idle_first
    then show ?thesis using v [of "s\<lparr>resuming := False\<rparr>"] by simp
  next
    case resume_idle
    have 1: "good s (s\<lparr>resuming := False\<rparr>)" using v [of "s\<lparr>resuming := False\<rparr>"] by simp
    have "okr (\<lambda>s'. good s s') (kbind (signal_call_curtask_handlers (s\<lparr>resuming := False\<rparr>)) (\<lambda>(alive, s). if alive then irq_return s else Inr s))"
      unfolding okr_simps(3) by (rule signals_g [OF 1, THEN okr_mono]) (auto intro!: irq_return_g)
    then show ?thesis using resume_idle(3) by (rule okrD)
  qed
qed

lemma kreach_kinv: "kreach s \<Longrightarrow> kinv s \<and> idle_task s \<noteq> 0"
proof (induction rule: kreach.induct)
  case (start s)
  then show ?case by (rule kstart_kinv)
next
  case (step s s')
  then show ?case using kstep_good [OF step.hyps(2)] by (auto simp: konst_def)
qed

end
