(* ===== verification/Kernel_Spec.thy ===== *)
theory Kernel_Spec
  imports Kernel_Reach
begin

text \<open>
  What the process code guarantees in every reachable state: the queues agree with the states of the tasks, signal handlers cannot be pointed into the kernel, and
  the scheduler takes the tasks in turn.
\<close>

section \<open>A small kernel\<close>

text \<open>Three tasks with intact stacks, the boot thread, the idle task and \<^verbatim>\<open>kitoxD\<close>, as \<^verbatim>\<open>task_init_process\<close> leaves them.\<close>

definition example_image :: image where
  "example_image = \<lparr>dummy_task = 0xC0100000, dummy_canary_val = 0xC0100200, signal_default_handler = 0xC0110000, signal_ignore_handler = 0xC0110100,
     interrupt_exit = 0xC0110200, cpu_idle_loop = 0xC0110300, sig_trampoline_start = 0xC0110400, sig_trampoline_end = 0xC0110408,
     kitoxD_start = 0xC0110500, kitoxD_end = 0xC0110600, user_cafe_start = 0xC0110700, user_cafe_end = 0xC0110800,
     user_dead_start = 0xC0110900, user_dead_end = 0xC0110A00, switch_depth = (\<lambda>_. 0x100), kframe_depth = 0x200\<rparr>"

definition example_kernel :: "kmm \<Rightarrow> kstate" where
  "example_kernel k = \<lparr>
     tasks = [0xC0100000 \<mapsto> boot_thread\<lparr>kernel_stack_pointer := 0xC0100200, kernel_stack_base := 0xC0200000\<rparr>,
              0xC0300000 \<mapsto> (fresh_task example_image)\<lparr>pid := 1, kernel_stack_pointer := 0xC0301000, kernel_stack_base := 0xC0303000\<rparr>,
              0xC0400000 \<mapsto> (fresh_task example_image)\<lparr>pid := 2, kernel_stack_pointer := 0xC0401000, kernel_stack_base := 0xC0403000,
                task_state := TASK_RUNNING, ring := 3, task_cr3 := 0x5000\<rparr>],
     ready_queue = [0xC0400000], sleep_wq = [], info_queue = [0xC0300000, 0xC0400000], current_task = 0xC0100000, idle_task = 0xC0300000,
     kitoxD_task = 0xC0400000, pid_manager = None, global_ticks = 0, preempt_count = 0, irq_on = True, tss_esp0 = 0, resuming = False, port_log = [],
     console = [], kmm = k,
     kmem = wr32 0xC0100200 STACK_CANARY_MAGIC (wr32 0xC0301000 STACK_CANARY_MAGIC (wr32 0xC0401000 STACK_CANARY_MAGIC (\<lambda>_. 0))),
     umem = (\<lambda>_ _. 0), img = example_image\<rparr>"

lemma example_start: "kstart (example_kernel k)"
proof -
  have "map_option core (tasks (example_kernel k) b) = map_option core (tasks (start_view 0xC0300000 0xC0400000 (example_kernel k)) b)" for b
    by (simp add: example_kernel_def start_view_def add_task_def task_get_dummy_def core_def) (simp add: example_image_def)
  then show ?thesis
    by (simp add: kstart_def Let_def sched_view_def fun_eq_iff)
      (simp add: start_view_def add_task_def example_kernel_def task_get_dummy_def example_image_def)
qed

lemma example_reach: "kreach (example_kernel k)"
  by (rule kreach.start, rule example_start)

section \<open>Invariants\<close>

lemma queued_Some: "queued s a = Some q \<longleftrightarrow> (\<exists>t. tasks s a = Some t \<and> wq_node (wq_data t) = Some q)"
  by (auto simp: queued_def split: option.splits)

lemma runst_Some: "runst s a = Some st \<longleftrightarrow> (\<exists>t. tasks s a = Some t \<and> task_state t = st)"
  by (auto simp: runst_def)

text \<open>C2. In every state the kernel reaches: (1) the run queue has no duplicates and holds only running tasks that wait for nothing, never the current
  task or the idle task; (2) each wait queue has no duplicates and holds exactly the tasks whose node is linked in it; (3) those are waiting, not on the run queue, and can be woken by the timer or by
  their own children only; (4) no task is lost: one that waits is on a wait queue, one that can run is on the run queue, unless it is the current task, the idle task or the
  boot thread; (5) the current task is a live one, on no queue.\<close>

theorem kernel_queues_invariant:
  assumes "kreach s"
  shows "(distinct (ready_queue s) \<and> (\<forall>a \<in> set (ready_queue s). a \<noteq> current_task s \<and> a \<noteq> idle_task s \<and>
      (\<exists>t. tasks s a = Some t \<and> task_state t = TASK_RUNNING \<and> wq_node (wq_data t) = None))) \<and>
    (\<forall>q. distinct (get_wq q s) \<and> (\<forall>a. a \<in> set (get_wq q s) \<longleftrightarrow> (\<exists>t. tasks s a = Some t \<and> wq_node (wq_data t) = Some q))) \<and>
    (\<forall>q. \<forall>a \<in> set (get_wq q s). (q = Sleep_wq \<or> q = Child_wq a) \<and> a \<notin> set (ready_queue s) \<and> (\<exists>t. tasks s a = Some t \<and> task_state t = TASK_WAITING)) \<and>
    (\<forall>a t. tasks s a = Some t \<longrightarrow> (task_state t = TASK_WAITING \<longrightarrow> (\<exists>q. a \<in> set (get_wq q s))) \<and>
       (task_state t = TASK_RUNNING \<longrightarrow> a \<in> set (ready_queue s) \<or> a = current_task s \<or> a = idle_task s \<or> a = task_get_dummy s)) \<and>
    (\<exists>t. tasks s (current_task s) = Some t \<and> task_state t \<noteq> TASK_ZOMBIE \<and> wq_node (wq_data t) = None)"
proof (intro conjI)
  have k: "kinv s" using kreach_kinv [OF assms] by simp
  then have q: "queues_ok s" and c: "current_ok s" and l: "lossless {current_task s} s" by (simp_all add: sched_inv_def kinv_def)
  note d = queues_okD [OF q]
  show "distinct (ready_queue s)" using d(1) .
  show "\<forall>a \<in> set (ready_queue s). a \<noteq> current_task s \<and> a \<noteq> idle_task s \<and>
      (\<exists>t. tasks s a = Some t \<and> task_state t = TASK_RUNNING \<and> wq_node (wq_data t) = None)"
  proof
    fix a
    assume a: "a \<in> set (ready_queue s)"
    then obtain t where "tasks s a = Some t" "task_state t = TASK_RUNNING" "wq_node (wq_data t) = None"
      using d(4,5) [OF a] by (auto simp: runst_def queued_def)
    then show "a \<noteq> current_task s \<and> a \<noteq> idle_task s \<and> (\<exists>t. tasks s a = Some t \<and> task_state t = TASK_RUNNING \<and> wq_node (wq_data t) = None)"
      using a c d(3) [OF a] by (auto simp: current_ok_def)
  qed
  show "\<forall>q. distinct (get_wq q s) \<and> (\<forall>a. a \<in> set (get_wq q s) \<longleftrightarrow> (\<exists>t. tasks s a = Some t \<and> wq_node (wq_data t) = Some q))"
    using d(6,7) by (simp add: waiters_def queued_Some)
  show "\<forall>q. \<forall>a \<in> set (get_wq q s). (q = Sleep_wq \<or> q = Child_wq a) \<and> a \<notin> set (ready_queue s) \<and> (\<exists>t. tasks s a = Some t \<and> task_state t = TASK_WAITING)"
  proof (intro allI ballI)
    fix q a
    assume "a \<in> set (get_wq q s)"
    then have w: "queued s a = Some q" using d(7) by (simp add: waiters_def)
    moreover have "a \<notin> set (ready_queue s)" using d(5) w by fastforce
    ultimately show "(q = Sleep_wq \<or> q = Child_wq a) \<and> a \<notin> set (ready_queue s) \<and> (\<exists>t. tasks s a = Some t \<and> task_state t = TASK_WAITING)"
      using d(8,11) [OF w] by (simp add: runst_Some)
  qed
  show "\<forall>a t. tasks s a = Some t \<longrightarrow> (task_state t = TASK_WAITING \<longrightarrow> (\<exists>q. a \<in> set (get_wq q s))) \<and>
       (task_state t = TASK_RUNNING \<longrightarrow> a \<in> set (ready_queue s) \<or> a = current_task s \<or> a = idle_task s \<or> a = task_get_dummy s)"
  proof (intro allI impI)
    fix a t
    assume t: "tasks s a = Some t"
    have "\<exists>q. a \<in> set (get_wq q s)" if "task_state t = TASK_WAITING"
      using l that t d(7) by (auto simp: lossless_def runst_def waiters_def)
    moreover have "a \<in> set (ready_queue s) \<or> a = current_task s \<or> a = idle_task s \<or> a = task_get_dummy s" if "task_state t = TASK_RUNNING"
      using l that t by (auto simp: lossless_def runst_def)
    ultimately show "(task_state t = TASK_WAITING \<longrightarrow> (\<exists>q. a \<in> set (get_wq q s))) \<and>
       (task_state t = TASK_RUNNING \<longrightarrow> a \<in> set (ready_queue s) \<or> a = current_task s \<or> a = idle_task s \<or> a = task_get_dummy s)" by blast
  qed
  show "\<exists>t. tasks s (current_task s) = Some t \<and> task_state t \<noteq> TASK_ZOMBIE \<and> wq_node (wq_data t) = None"
    using c by (auto simp: current_ok_def runst_def queued_def)
qed

theorem kernel_queues_invariant_witness:
  "\<exists>k. ready_queue (example_kernel k) = [0xC0400000] \<and> (\<exists>t. tasks (example_kernel k) 0xC0400000 = Some t \<and> task_state t = TASK_RUNNING)"
proof -
  fix k
  have "0xC0400000 \<in> set (ready_queue (example_kernel k))" "ready_queue (example_kernel k) = [0xC0400000]" by (simp_all add: example_kernel_def)
  then show ?thesis using kernel_queues_invariant [OF example_reach, of k] by (intro exI [of _ k]) auto
qed

text \<open>C7. No system call, fork, signal or interrupt can take \<^verbatim>\<open>SIGKILL\<close> and \<^verbatim>\<open>SIGSTOP\<close> away from the kernel or make the kernel call an address of its own that a program chose: in
  every reachable state, each handler of each task (the boot thread has none) is the kernel's own handler for that signal or a non-null address in user memory, and for these two signals it is
  the kernel's.\<close>

theorem signal_handlers_typed:
  assumes "kreach s" "tasks s a = Some t" "a \<noteq> task_get_dummy s"
  shows "sig_handlers t (unat SIGKILL) = signal_default_handler (img s) \<and> sig_handlers t (unat SIGSTOP) = signal_ignore_handler (img s) \<and>
    (\<forall>i < 32. sig_handlers t i = default_handlers (img s) i \<or> sig_handlers t i \<noteq> 0 \<and> sig_handlers t i < KERNEL_VADDR_BASE)"
proof -
  have "handlers_ok s" using kreach_kinv [OF assms(1)] by (simp add: kinv_def)
  then have "handler_set_ok (img s) (sig_handlers t)" using assms(2,3) by (auto simp: handlers_ok_def handlers_of_def)
  then show ?thesis by (simp add: handler_set_ok_def SIGKILL_def SIGSTOP_def)
qed

theorem signal_handlers_typed_witness:
  "\<exists>k t. tasks (example_kernel k) 0xC0400000 = Some t \<and> sig_handlers t (unat SIGKILL) = 0xC0110000"
proof -
  fix k
  obtain t where t: "tasks (example_kernel k) 0xC0400000 = Some t" by (simp add: example_kernel_def)
  have "0xC0400000 \<noteq> task_get_dummy (example_kernel k)" "signal_default_handler (img (example_kernel k)) = 0xC0110000"
    by (simp_all add: example_kernel_def task_get_dummy_def example_image_def)
  then show ?thesis using signal_handlers_typed [OF example_reach t] t by auto
qed

end
