(* ===== verification/Sched_Spec.thy ===== *)
theory Sched_Spec
  imports Kernel_Spec
begin

text \<open>
  What \<^verbatim>\<open>schedule\<close> and the timer do in a reachable state whose stacks are intact: the next task is the first of the run queue, sleepers
  are woken exactly when their time has come, and no task on the run queue waits longer than the tasks before it may run.
\<close>

section \<open>Choosing the next task\<close>

text \<open>The canaries of all kernel stacks are in place.\<close>

definition stacks_intact :: "kstate \<Rightarrow> bool" where
  "stacks_intact s \<longleftrightarrow> (\<forall>a t. tasks s a = Some t \<longrightarrow> \<not> task_stack_overflow s t)"

text \<open>The run queue once the current task, if it can go on running, has been put at its end.\<close>

definition turn_queue :: "kstate \<Rightarrow> u32 list" where
  "turn_queue s = ready_queue s @ (if runst s (current_task s) = Some TASK_RUNNING \<and> current_task s \<noteq> idle_task s \<and> current_task s \<noteq> task_get_dummy s
     then [current_task s] else [])"

text \<open>Fields of a task that scheduling leaves alone.\<close>

definition stack_of :: "task \<Rightarrow> u32 \<times> u32 \<times> u32 \<times> u32" where
  "stack_of t = (kernel_stack_pointer t, kernel_stack_base t, task_cr3 t, tick_to_wake t)"

definition stacks :: "kstate \<Rightarrow> bmem \<times> (u32 \<Rightarrow> (u32 \<times> u32 \<times> u32 \<times> u32) option)" where
  "stacks s = (kmem s, \<lambda>a. map_option stack_of (tasks s a))"

lemma stacks_intact_cong:
  assumes "stacks s' = stacks s" "stacks_intact s"
  shows "stacks_intact s'"
proof -
  have k: "kmem s' = kmem s" and m: "\<And>a. map_option stack_of (tasks s' a) = map_option stack_of (tasks s a)"
    using assms(1) by (simp_all add: stacks_def fun_eq_iff)
  show ?thesis
    unfolding stacks_intact_def
  proof (intro allI impI)
    fix a t
    assume t: "tasks s' a = Some t"
    then obtain t0 where t0: "tasks s a = Some t0" "stack_of t = stack_of t0" using m [of a] by (cases "tasks s a") auto
    then have "\<not> task_stack_overflow s t0" using assms(2) by (simp add: stacks_intact_def)
    then show "\<not> task_stack_overflow s' t" using t0(2) k by (simp add: task_stack_overflow_def stack_of_def)
  qed
qed

lemma stacks_upd: "(\<And>t. stack_of (f t) = stack_of t) \<Longrightarrow> stacks (upd_task a f s) = stacks s"
  by (auto simp: stacks_def upd_task_def fun_eq_iff option.map_comp comp_def)

lemma stacks_simps [simp]:
  "stacks (s\<lparr>ready_queue := q\<rparr>) = stacks s" "stacks (s\<lparr>current_task := c\<rparr>) = stacks s" "stacks (s\<lparr>kmm := k\<rparr>) = stacks s"
  "stacks (s\<lparr>tss_esp0 := e\<rparr>) = stacks s" "stacks (s\<lparr>resuming := r\<rparr>) = stacks s" "stacks (s\<lparr>global_ticks := g\<rparr>) = stacks s" "stacks (s\<lparr>sleep_wq := w\<rparr>) = stacks s"
  by (simp_all add: stacks_def)

lemma stacks_upd_simps [simp]:
  "stacks (upd_task a (\<lambda>t. t\<lparr>task_state := st\<rparr>) s) = stacks s" "stacks (upd_task a (\<lambda>t. t\<lparr>quantum_remaining := u\<rparr>) s) = stacks s"
  "stacks (upd_task a (\<lambda>t. t\<lparr>resume_at := x, task_esp := y t\<rparr>) s) = stacks s"
  by (rule stacks_upd, simp add: stack_of_def)+

lemma upd_task_fields [simp]:
  "current_task (upd_task a f s) = current_task s" "idle_task (upd_task a f s) = idle_task s" "ready_queue (upd_task a f s) = ready_queue s"
  "img (upd_task a f s) = img s" "kmem (upd_task a f s) = kmem s" "kmm (upd_task a f s) = kmm s" "sleep_wq (upd_task a f s) = sleep_wq s"
  "global_ticks (upd_task a f s) = global_ticks s" "tss_esp0 (upd_task a f s) = tss_esp0 s"
  "tasks (upd_task a f s) b = (if b = a then map_option f (tasks s a) else tasks s b)"
  by (simp_all add: upd_task_def)

text \<open>The switch itself.\<close>

lemma sched_run_effect:
  assumes "nxt \<noteq> 0" "tasks s nxt = Some t" "\<not> task_stack_overflow s t"
  shows "\<exists>s'. sched_run cur nxt rp s = Inr (True, s') \<and> current_task s' = nxt \<and> ready_queue s' = ready_queue s \<and> stacks s' = stacks s \<and>
    idle_task s' = idle_task s \<and> img s' = img s \<and> tss_esp0 s' = kernel_stack_base t \<and> cr3 (mm_vmm (kmm s')) = task_cr3 t \<and>
    (\<exists>t'. tasks s' nxt = Some t' \<and> task_state t' = task_state t \<and> quantum_remaining t' = DEFAULT_QUANTUM)"
proof -
  let ?s = "upd_task nxt (\<lambda>t. t\<lparr>quantum_remaining := DEFAULT_QUANTUM\<rparr>) (task_set_current_task nxt s)"
  let ?u = "upd_task cur (\<lambda>t. t\<lparr>resume_at := rp, task_esp := kernel_stack_base t - switch_depth (img ?s) rp\<rparr>) ?s"
  let ?v = "?u\<lparr>tss_esp0 := kernel_stack_base t, resuming := True, kmm := (kmm ?u)\<lparr>mm_vmm := paging_reload_cr3 (task_cr3 t) (mm_vmm (kmm ?u))\<rparr>\<rparr>"
  have "sched_run cur nxt rp s = Inr (True, ?v)"
    using assms by (auto simp: sched_run_def switch_to_def Let_def task_set_current_task_def with_task_def kbind_def)
  moreover have "stacks ?v = stacks s" by (simp add: task_set_current_task_def)
  ultimately show ?thesis
    using assms(2) by (auto simp: task_set_current_task_def paging_reload_cr3_def)
qed


lemma requeue_effect:
  assumes "kinv s" "tasks s (current_task s) = Some t" "current_task s \<noteq> 0"
  shows "\<exists>s1. sched_requeue t s = Inr s1 \<and> ready_queue s1 = turn_queue s \<and> stacks s1 = stacks s \<and> current_task s1 = current_task s \<and> idle_task s1 = idle_task s \<and>
    img s1 = img s \<and> tasks s1 = tasks s"
proof -
  have c: "current_task s \<notin> set (ready_queue s)" using assms(1) by (simp add: kinv_def sched_inv_def current_ok_def)
  have r: "runst s (current_task s) = Some (task_state t)" using assms(2) by (simp add: runst_def)
  show ?thesis
  proof (cases "task_state t = TASK_RUNNING \<and> current_task s \<noteq> idle_task s \<and> current_task s \<noteq> task_get_dummy s")
    case True
    have "tasks (upd_task (current_task s) (\<lambda>t. t\<lparr>task_state := TASK_RUNNING\<rparr>) s) = tasks s"
      using True assms(2) by (auto simp: fun_eq_iff)
    then show ?thesis
      using True c r assms(2,3) by (simp add: sched_requeue_def sched_enqueue_def turn_queue_def kbind_def)
  next
    case False
    then show ?thesis using r by (auto simp: sched_requeue_def turn_queue_def)
  qed
qed

lemma turn_queue_member:
  assumes "kinv s" "a \<in> set (turn_queue s)" "current_task s \<noteq> 0"
  shows "a \<noteq> 0 \<and> a \<noteq> idle_task s \<and> (\<exists>t. tasks s a = Some t \<and> task_state t = TASK_RUNNING)"
proof -
  have q: "queues_ok s" using assms(1) by (simp add: kinv_def sched_inv_def)
  show ?thesis
    using assms(2,3) queues_okD(2,3,4) [OF q, of a] by (auto simp: turn_queue_def runst_Some split: if_splits)
qed

text \<open>\<^verbatim>\<open>schedule\<close> under the invariant.\<close>

lemma schedule_effect:
  assumes "kinv s" "idle_task s \<noteq> 0" "stacks_intact s"
  shows "\<exists>sw s'. schedule rp s = Inr (sw, s') \<and> stacks s' = stacks s \<and> (sw \<longleftrightarrow> turn_queue s \<noteq> [] \<or> current_task s \<noteq> idle_task s) \<and>
    current_task s' = (if turn_queue s = [] then idle_task s else hd (turn_queue s)) \<and> ready_queue s' = tl (turn_queue s) \<and>
    (sw \<longrightarrow> (\<exists>t. tasks s' (current_task s') = Some t \<and> task_state t = TASK_RUNNING \<and> quantum_remaining t = DEFAULT_QUANTUM \<and>
       tss_esp0 s' = kernel_stack_base t \<and> cr3 (mm_vmm (kmm s')) = task_cr3 t)) \<and>
    (\<not> sw \<longrightarrow> s' = s)"
proof -
  have q: "queues_ok s" using assms(1) by (simp add: kinv_def sched_inv_def)
  obtain t where t: "tasks s (current_task s) = Some t" using current_exists [OF assms(1)] by auto
  have c0: "current_task s \<noteq> 0" using queues_okD(13) [OF q] t by (auto simp: runst_def)
  obtain i where i: "tasks s (idle_task s) = Some i" using idle_exists [OF assms(1,2)] by auto
  have ov: "\<not> task_stack_overflow s t" "\<not> task_stack_overflow s i" using assms(3) t i by (auto simp: stacks_intact_def)
  obtain s1 where s1: "sched_requeue t s = Inr s1" "ready_queue s1 = turn_queue s" "stacks s1 = stacks s" "current_task s1 = current_task s"
      "idle_task s1 = idle_task s" "img s1 = img s" "tasks s1 = tasks s"
    using requeue_effect [OF assms(1) t c0] by blast
  have km: "kmem s1 = kmem s" using s1(3) by (simp add: stacks_def)
  have base: "kernel_stack_base t' = kernel_stack_base t0 \<and> task_cr3 t' = task_cr3 t0"
    if "stacks s' = stacks s" "tasks s' a = Some t'" "tasks s a = Some t0" for s' a t' t0
  proof -
    have "map_option stack_of (tasks s' a) = map_option stack_of (tasks s a)" using that(1) by (simp add: stacks_def fun_eq_iff)
    then show ?thesis using that(2,3) by (simp add: stack_of_def)
  qed
  have e: "schedule rp s = kbind (sched_choose s1) (\<lambda>(nxt, s). sched_run (current_task s) nxt rp s)" if "\<And>nxt s2. sched_choose s1 = Inr (nxt, s2) \<Longrightarrow> current_task s2 = current_task s"
    using that assms(2) c0 t ov(1) s1(1) by (auto simp: schedule_def Let_def kbind_def split: sum.splits)
  show ?thesis
  proof (cases "turn_queue s")
    case Nil
    show ?thesis
    proof (cases "current_task s = idle_task s")
      case True
      have "s1 = s" using s1(1) True by (auto simp: sched_requeue_def)
      then have ch: "sched_choose s1 = Inr (0, s)" using s1 Nil True by (simp add: sched_choose_def pick_next_def Let_def)
      have "schedule rp s = Inr (False, s)" using e ch by (simp add: kbind_def sched_run_def)
      then show ?thesis using Nil True by (auto simp: turn_queue_def)
    next
      case False
      let ?s2 = "upd_task (idle_task s) (\<lambda>t. t\<lparr>task_state := TASK_RUNNING\<rparr>) s1"
      have ch: "sched_choose s1 = Inr (idle_task s, ?s2)" using s1 Nil False by (simp add: sched_choose_def pick_next_def Let_def)
      have ti: "tasks ?s2 (idle_task s) = Some (i\<lparr>task_state := TASK_RUNNING\<rparr>)" using i s1(7) by simp
      have "\<not> task_stack_overflow ?s2 (i\<lparr>task_state := TASK_RUNNING\<rparr>)" using ov(2) km by (simp add: task_stack_overflow_def)
      from sched_run_effect [OF assms(2) ti this, of "current_task s" rp] obtain s' t' where
        s': "sched_run (current_task s) (idle_task s) rp ?s2 = Inr (True, s')" "current_task s' = idle_task s" "ready_queue s' = []" "stacks s' = stacks s"
          "tss_esp0 s' = kernel_stack_base i" "cr3 (mm_vmm (kmm s')) = task_cr3 i" "tasks s' (idle_task s) = Some t'" "task_state t' = TASK_RUNNING"
          "quantum_remaining t' = DEFAULT_QUANTUM"
        using s1 Nil by auto
      have "schedule rp s = Inr (True, s')" using e ch s'(1) s1(4) by (simp add: kbind_def)
      then show ?thesis using Nil False s' base [OF s'(4,7) i] by auto
    qed
  next
    case (Cons a as)
    then obtain t0 where a: "a \<noteq> 0" "tasks s a = Some t0" "task_state t0 = TASK_RUNNING" using turn_queue_member [OF assms(1) _ c0, of a] by auto
    let ?s2 = "s1\<lparr>ready_queue := as\<rparr>"
    have ch: "sched_choose s1 = Inr (a, ?s2)" using s1(2,7) Cons a by (simp add: sched_choose_def pick_next_def Let_def)
    have "\<not> task_stack_overflow ?s2 t0" using assms(3) a(2) km by (auto simp: stacks_intact_def task_stack_overflow_def)
    moreover have "tasks ?s2 a = Some t0" using a(2) s1(7) by simp
    ultimately obtain s' t' where
      s': "sched_run (current_task s) a rp ?s2 = Inr (True, s')" "current_task s' = a" "ready_queue s' = as" "stacks s' = stacks s"
        "tss_esp0 s' = kernel_stack_base t0" "cr3 (mm_vmm (kmm s')) = task_cr3 t0" "tasks s' a = Some t'" "task_state t' = TASK_RUNNING" "quantum_remaining t' = DEFAULT_QUANTUM"
      using sched_run_effect [OF a(1), of ?s2 t0 "current_task s" rp] s1(3) a(3) by auto
    have "schedule rp s = Inr (True, s')" using e ch s'(1) s1(4) by (simp add: kbind_def)
    then show ?thesis using Cons s' base [OF s'(4,7) a(2)] by auto
  qed
qed


text \<open>C4. In every reachable state whose kernel stacks are intact, \<^verbatim>\<open>schedule\<close> stops in none of its panics. It gives the CPU to the first task of the run queue once the current task, if it
  can go on, has been put at its end, and to the idle task if there is none; the new task gets a full quantum, its kernel stack is the one interrupts will use, and its page directory is loaded. Only
  when the idle task is current and nothing else can run does it return at once, having changed nothing.\<close>

theorem schedule_correct:
  assumes "kreach s" "stacks_intact s"
  shows "\<exists>sw s'. schedule rp s = Inr (sw, s') \<and> (sw \<longleftrightarrow> turn_queue s \<noteq> [] \<or> current_task s \<noteq> idle_task s) \<and>
    current_task s' = (if turn_queue s = [] then idle_task s else hd (turn_queue s)) \<and> ready_queue s' = tl (turn_queue s) \<and>
    (sw \<longrightarrow> (\<exists>t. tasks s' (current_task s') = Some t \<and> task_state t = TASK_RUNNING \<and> quantum_remaining t = DEFAULT_QUANTUM \<and>
       tss_esp0 s' = kernel_stack_base t \<and> cr3 (mm_vmm (kmm s')) = task_cr3 t)) \<and>
    (\<not> sw \<longrightarrow> s' = s)"
  using schedule_effect [OF _ _ assms(2), of rp] kreach_kinv [OF assms(1)] by blast

lemma example_stacks: "stacks_intact (example_kernel k)"
  by (simp add: stacks_intact_def example_kernel_def task_stack_overflow_def rd32_def wr32_def STACK_CANARY_MAGIC_def)

theorem schedule_correct_witness:
  "\<exists>k s'. schedule In_boot (example_kernel k) = Inr (True, s') \<and> current_task s' = 0xC0400000 \<and> ready_queue s' = [] \<and> tss_esp0 s' = 0xC0403000"
proof -
  fix k
  have "turn_queue (example_kernel k) = [0xC0400000]"
    by (simp add: turn_queue_def example_kernel_def task_get_dummy_def example_image_def)
  then obtain s' t where s': "schedule In_boot (example_kernel k) = Inr (True, s')" "current_task s' = 0xC0400000" "ready_queue s' = []"
    "tasks s' 0xC0400000 = Some t" "tss_esp0 s' = kernel_stack_base t"
    using schedule_correct [OF example_reach example_stacks, of In_boot k] by fastforce
  have "stacks s' = stacks (example_kernel k)"
    using schedule_effect [OF _ _ example_stacks, of k In_boot] kreach_kinv [OF example_reach, of k] s'(1) by auto
  then have "map_option stack_of (tasks s' 0xC0400000) = map_option stack_of (tasks (example_kernel k) 0xC0400000)" by (simp add: stacks_def fun_eq_iff)
  then have "kernel_stack_base t = 0xC0403000" using s'(4) by (simp add: stack_of_def example_kernel_def)
  then show ?thesis using s' by auto
qed

section \<open>Sleepers\<close>

text \<open>The time of a sleeper has come, and what waking makes of a task.\<close>

definition is_due :: "kstate \<Rightarrow> u32 \<Rightarrow> bool" where
  "is_due s a \<longleftrightarrow> (\<exists>t. tasks s a = Some t \<and> tick_to_wake t \<le> global_ticks s)"

definition woken :: "task \<Rightarrow> task" where
  "woken t = t\<lparr>task_state := TASK_RUNNING, wq_data := wq_entry_init (wq_st (wq_data t))\<rparr>"

lemma wq_finish_sleeper:
  assumes "tasks s a = Some t" "wq_node (wq_data t) = Some Sleep_wq" "a \<notin> set (ready_queue s)" "a \<noteq> 0"
  shows "wq_finish a s = Inr (s\<lparr>tasks := (tasks s)(a \<mapsto> woken t), sleep_wq := remove1 a (sleep_wq s), ready_queue := ready_queue s @ [a]\<rparr>)"
  using assms by (simp add: wq_finish_def Let_def wq_unlink_def upd_wq_def upd_task_def sched_enqueue_def kbind_def woken_def with_task_def)

lemma wake_sleepers_effect:
  assumes "distinct as" "\<And>a. a \<in> set as \<Longrightarrow> a \<noteq> 0 \<and> a \<notin> set (ready_queue s) \<and> (\<exists>t. tasks s a = Some t \<and> wq_node (wq_data t) = Some Sleep_wq)"
  shows "wake_sleepers_loop as s = Inr (s\<lparr>tasks := (\<lambda>b. if b \<in> set (filter (is_due s) as) then map_option woken (tasks s b) else tasks s b),
     sleep_wq := fold remove1 (filter (is_due s) as) (sleep_wq s), ready_queue := ready_queue s @ filter (is_due s) as\<rparr>)"
  using assms
proof (induction as arbitrary: s)
  case (Cons a as)
  obtain t where t: "tasks s a = Some t" "wq_node (wq_data t) = Some Sleep_wq" "a \<noteq> 0" "a \<notin> set (ready_queue s)" using Cons.prems(2) [of a] by auto
  show ?case
  proof (cases "tick_to_wake t \<le> global_ticks s")
    case False
    then have "\<not> is_due s a" using t(1) by (simp add: is_due_def)
    moreover have "wake_sleepers_loop (a # as) s = wake_sleepers_loop as s" using t(1) False by simp
    ultimately show ?thesis using Cons.IH [of s] Cons.prems by simp
  next
    case True
    let ?s = "s\<lparr>tasks := (tasks s)(a \<mapsto> woken t), sleep_wq := remove1 a (sleep_wq s), ready_queue := ready_queue s @ [a]\<rparr>"
    have d: "is_due s a" "filter (is_due ?s) as = filter (is_due s) as"
      using t(1) True Cons.prems(1) by (auto simp: is_due_def intro!: filter_cong split: if_splits)
    have "wake_sleepers_loop (a # as) s = wake_sleepers_loop as ?s"
      using t True wq_finish_sleeper [OF t(1,2,4,3)] by (simp add: kbind_def)
    also have "\<dots> = Inr (?s\<lparr>tasks := (\<lambda>b. if b \<in> set (filter (is_due ?s) as) then map_option woken (tasks ?s b) else tasks ?s b),
        sleep_wq := fold remove1 (filter (is_due ?s) as) (sleep_wq ?s), ready_queue := ready_queue ?s @ filter (is_due ?s) as\<rparr>)"
      using Cons.prems by (intro Cons.IH) auto
    also have "\<dots> = Inr (s\<lparr>tasks := (\<lambda>b. if b \<in> set (filter (is_due s) (a # as)) then map_option woken (tasks s b) else tasks s b),
        sleep_wq := fold remove1 (filter (is_due s) (a # as)) (sleep_wq s), ready_queue := ready_queue s @ filter (is_due s) (a # as)\<rparr>)"
      unfolding d(2) using d(1) t(1) Cons.prems(1) by (auto simp: fun_eq_iff)
    finally show ?thesis .
  qed
qed (simp add: fun_eq_iff)

lemma fold_remove1: "distinct ys \<Longrightarrow> fold remove1 zs ys = filter (\<lambda>x. x \<notin> set zs) ys"
  by (induction zs arbitrary: ys) (auto simp: distinct_remove1_removeAll removeAll_filter_not_eq intro: filter_cong)

lemma fold_remove1_filter: "distinct xs \<Longrightarrow> fold remove1 (filter P xs) xs = filter (\<lambda>x. \<not> P x) xs"
  by (auto simp: fold_remove1 intro: filter_cong)

lemma sleepers_effect:
  assumes "kinv s"
  shows "task_wake_up_sleepers s = Inr (s\<lparr>tasks := (\<lambda>b. if b \<in> set (sleep_wq s) \<and> is_due s b then map_option woken (tasks s b) else tasks s b),
     sleep_wq := filter (\<lambda>a. \<not> is_due s a) (sleep_wq s), ready_queue := ready_queue s @ filter (is_due s) (sleep_wq s)\<rparr>)"
proof -
  have q: "queues_ok s" using assms by (simp add: kinv_def sched_inv_def)
  note d = queues_okD [OF q]
  have w: "waiters s Sleep_wq = sleep_wq s" by (simp add: waiters_def get_wq_def)
  have di: "distinct (sleep_wq s)" using d(6) [of Sleep_wq] w by simp
  have "a \<noteq> 0 \<and> a \<notin> set (ready_queue s) \<and> (\<exists>t. tasks s a = Some t \<and> wq_node (wq_data t) = Some Sleep_wq)" if "a \<in> set (sleep_wq s)" for a
  proof -
    have qa: "queued s a = Some Sleep_wq" using d(7) [of a Sleep_wq] w that by simp
    then have "a \<notin> set (ready_queue s)" using d(5) by fastforce
    then show ?thesis using d(9) [OF qa] qa by (simp add: queued_Some)
  qed
  from wake_sleepers_effect [OF di this]
  show ?thesis unfolding task_wake_up_sleepers_def fold_remove1_filter [OF di] by simp
qed


text \<open>C17. The timer wakes exactly the sleepers whose time has come: in a reachable state, a tick takes all of them, and nobody else, off the queue of sleepers, appends them in the order of that queue to the run queue and
  marks them running; every other task, and everything else of the state, stays as it is.\<close>

theorem timer_wakes_due_sleepers:
  assumes "kreach s"
  shows "\<exists>s'. task_wake_up_sleepers s = Inr s' \<and> sleep_wq s' = filter (\<lambda>a. \<not> is_due s a) (sleep_wq s) \<and>
    ready_queue s' = ready_queue s @ filter (is_due s) (sleep_wq s) \<and>
    (\<forall>a. tasks s' a = (if a \<in> set (sleep_wq s) \<and> is_due s a then map_option woken (tasks s a) else tasks s a)) \<and>
    s'\<lparr>tasks := tasks s, sleep_wq := sleep_wq s, ready_queue := ready_queue s\<rparr> = s"
  using sleepers_effect [of s] kreach_kinv [OF assms] by simp

section \<open>Waiting for the CPU\<close>

text \<open>
  What a task does between two ticks while it only computes: the queues, the states of the tasks, their quanta and their stacks stay as they are. \<open>timer_run\<close>
  is a run of \<open>n\<close> ticks with such computations in between.
\<close>

definition quiet :: "kstate \<Rightarrow> kstate \<Rightarrow> bool" where
  "quiet s s' \<longleftrightarrow> sched_view s' = sched_view s \<and> (stacks_intact s \<longrightarrow> stacks_intact s') \<and>
     (\<forall>a. map_option quantum_remaining (tasks s' a) = map_option quantum_remaining (tasks s a))"

fun timer_run :: "(nat \<Rightarrow> kstate \<Rightarrow> kstate) \<Rightarrow> nat \<Rightarrow> kstate \<Rightarrow> kstate kres" where
  "timer_run compute 0 s = Inr s"
| "timer_run compute (Suc n) s = kbind (timer_handle (compute n s)) (\<lambda>(_, s). timer_run compute n s)"

text \<open>Ticks the current task has left, at least one.\<close>

definition ticks_left :: "kstate \<Rightarrow> nat" where
  "ticks_left s = (if current_task s = idle_task s then 1
     else case tasks s (current_task s) of None \<Rightarrow> 0 | Some t \<Rightarrow> unat (quantum_remaining t))"

lemma timer_handle_effect:
  assumes "kinv s" "idle_task s \<noteq> 0" "stacks_intact s" "0 < ticks_left s" "ready_queue s = x # xs"
  shows "\<exists>sw s' ys. timer_handle s = Inr (sw, s') \<and> kinv s' \<and> idle_task s' = idle_task s \<and> stacks_intact s' \<and>
    (if ticks_left s = 1 then current_task s' = x \<and> ready_queue s' = xs @ ys \<and> ticks_left s' = 10
     else current_task s' = current_task s \<and> ready_queue s' = (x # xs) @ ys \<and> ticks_left s' = ticks_left s - 1)"
proof -
  let ?g = "s\<lparr>global_ticks := global_ticks s + 1\<rparr>"
  have g: "kinv ?g" using good_view [of ?g s] assms(1) by simp
  define s1 where "s1 = ?g\<lparr>tasks := (\<lambda>b. if b \<in> set (sleep_wq ?g) \<and> is_due ?g b then map_option woken (tasks ?g b) else tasks ?g b),
     sleep_wq := filter (\<lambda>a. \<not> is_due ?g a) (sleep_wq ?g), ready_queue := ready_queue ?g @ filter (is_due ?g) (sleep_wq ?g)\<rparr>"
  have w: "task_wake_up_sleepers ?g = Inr s1" unfolding s1_def by (rule sleepers_effect [OF g])
  have k1: "kinv s1" "idle_task s1 = idle_task s" "current_task s1 = current_task s"
  proof -
    have "kept ?g s1" using inv_wake_sleepers [OF kinvD(1) [OF g], of "sleep_wq ?g", THEN okrD] w unfolding task_wake_up_sleepers_def by blast
    then show "kinv s1" "idle_task s1 = idle_task s" "current_task s1 = current_task s" using good_rest(2) [OF g] by (auto simp: same_rest_def)
  qed
  have st: "stacks s1 = stacks s" by (auto simp: s1_def stacks_def fun_eq_iff stack_of_def woken_def option.map_comp comp_def intro!: option.map_cong)
  obtain ys where rq: "ready_queue s1 = x # xs @ ys" using assms(5) by (simp add: s1_def)
  have qu: "map_option quantum_remaining (tasks s1 a) = map_option quantum_remaining (tasks s a)" for a
    by (simp add: s1_def woken_def option.map_comp comp_def)
  have tl: "ticks_left s1 = ticks_left s" unfolding ticks_left_def k1(2,3) using qu [of "current_task s"]
    by (auto split: option.splits)
  obtain t where t: "tasks s1 (current_task s1) = Some t" using current_exists [OF k1(1)] by auto
  let ?s2 = "upd_task (current_task s1) (\<lambda>t. t\<lparr>quantum_remaining := quantum_remaining t - 1\<rparr>) s1"
  define s2 where "s2 = (if current_task s1 = idle_task s1 then s1 else ?s2)"
  have k2: "kinv s2" "idle_task s2 = idle_task s" "current_task s2 = current_task s" "stacks s2 = stacks s" "ready_queue s2 = x # xs @ ys"
    using k1 st rq good_view [of ?s2 s1] stacks_upd [of "\<lambda>t. t\<lparr>quantum_remaining := quantum_remaining t - 1\<rparr>" "current_task s1" s1]
    by (auto simp: s2_def stack_of_def)
  have i2: "stacks_intact s2" using stacks_intact_cong [OF k2(4) assms(3)] .
  have e: "timer_handle s = (if current_task s1 \<noteq> idle_task s1 \<and> 0 < quantum_remaining t - 1 then Inr (False, s2) else schedule In_timer s2)"
    using w t by (simp add: timer_handle_def kbind_def Let_def s2_def upd_task_def)
  have q1: "current_task s1 \<noteq> idle_task s1 \<Longrightarrow> unat (quantum_remaining t) = ticks_left s" using tl t by (simp add: ticks_left_def)
  show ?thesis
  proof (cases "ticks_left s = 1")
    case True
    have "quantum_remaining t = 1" if "current_task s1 \<noteq> idle_task s1"
      using q1 [OF that] True word_unat_eq_iff [of "quantum_remaining t" 1] by simp
    then have e': "timer_handle s = schedule In_timer s2" using e by auto
    obtain zs where tq: "turn_queue s2 = x # xs @ zs" using k2(5) by (auto simp: turn_queue_def)
    obtain sw s' t' where s': "schedule In_timer s2 = Inr (sw, s')" "stacks s' = stacks s2" "current_task s' = x" "ready_queue s' = xs @ zs"
        "tasks s' x = Some t'" "quantum_remaining t' = DEFAULT_QUANTUM"
      using schedule_effect [OF k2(1) _ i2, of In_timer] assms(2) k2(2) tq by auto
    have gd: "good s2 s'" using schedule_good [OF k2(1), of In_timer, THEN okrD, OF s'(1)] by simp
    have "x \<noteq> idle_task s'" using gd k1 assms(1,5) queues_okD(3) [of s x] k2(2) by (auto simp: kinv_def sched_inv_def konst_def)
    then have "ticks_left s' = 10" using s' by (simp add: ticks_left_def DEFAULT_QUANTUM_def)
    then show ?thesis using e' s' True gd k2(2) stacks_intact_cong [OF s'(2) i2] by (auto simp: konst_def)
  next
    case False
    then have n: "current_task s1 \<noteq> idle_task s1" "2 \<le> ticks_left s" using assms(4) k1 by (auto simp: ticks_left_def)
    have q: "unat (quantum_remaining t - 1) = ticks_left s - 1" using n q1 by (simp add: unat_sub_if' word_le_nat_alt)
    then have "0 < quantum_remaining t - 1" using n(2) by (simp add: word_less_nat_alt)
    then have e': "timer_handle s = Inr (False, s2)" using e n(1) by simp
    have "ticks_left s2 = ticks_left s - 1" using n(1) t q k1 by (simp add: s2_def ticks_left_def)
    then show ?thesis using e' False k2 i2 by (auto simp: k1(3))
  qed
qed


text \<open>
  What a clock promises to those who wait in a queue. A tick takes one from what is left of the turn, or, at the end of the turn, gives a new one to the first in the queue; others may join the queue at its end at any time.
\<close>

locale turn_taking =
  fixes inv :: "'s \<Rightarrow> bool" and queue :: "'s \<Rightarrow> 'a list" and holder :: "'s \<Rightarrow> 'a" and left :: "'s \<Rightarrow> nat" and quantum :: nat
    and tick :: "'s \<Rightarrow> (bool \<times> 's) kres" and idle_change :: "'s \<Rightarrow> 's \<Rightarrow> bool"
  assumes tick_law: "inv s \<Longrightarrow> 0 < left s \<Longrightarrow> queue s = x # xs \<Longrightarrow> \<exists>sw s' ys. tick s = Inr (sw, s') \<and> inv s' \<and>
      (if left s = 1 then holder s' = x \<and> queue s' = xs @ ys \<and> left s' = quantum
       else holder s' = holder s \<and> queue s' = (x # xs) @ ys \<and> left s' = left s - 1)"
    and idle_law: "inv s \<Longrightarrow> idle_change s s' \<Longrightarrow> inv s' \<and> queue s' = queue s \<and> holder s' = holder s \<and> left s' = left s"
    and quantum_pos: "0 < quantum"
begin

text \<open>A run of \<open>n\<close> ticks, with changes in between.\<close>

fun run_ticks :: "(nat \<Rightarrow> 's \<Rightarrow> 's) \<Rightarrow> nat \<Rightarrow> 's \<Rightarrow> 's kres" where
  "run_ticks c 0 s = Inr s"
| "run_ticks c (Suc n) s = kbind (tick (c n s)) (\<lambda>(_, s). run_ticks c n s)"

lemma turn_comes:
  assumes "\<And>i s. idle_change s (c i s)"
  shows "inv s \<Longrightarrow> 0 < left s \<Longrightarrow> n < length (queue s) \<Longrightarrow> m = left s + quantum * n \<Longrightarrow>
    \<exists>s'. run_ticks c m s = Inr s' \<and> holder s' = queue s ! n"
proof (induction m arbitrary: s n)
  case (Suc m)
  obtain x xs where rq: "queue s = x # xs" using Suc.prems(3) by (cases "queue s") auto
  have c: "inv (c m s)" "queue (c m s) = x # xs" "left (c m s) = left s" using idle_law [OF Suc.prems(1) assms] rq by simp_all
  obtain sw s1 ys where h: "tick (c m s) = Inr (sw, s1)" "inv s1"
      "if left s = 1 then holder s1 = x \<and> queue s1 = xs @ ys \<and> left s1 = quantum else queue s1 = (x # xs) @ ys \<and> left s1 = left s - 1"
    using tick_law [OF c(1) _ c(2)] c(3) Suc.prems(2) by (auto split: if_splits)
  have r: "run_ticks c (Suc m) s = run_ticks c m s1" using h(1) by (simp add: kbind_def)
  show ?case
  proof (cases "left s = 1")
    case False
    have "((x # xs) @ ys) ! n = (x # xs) ! n" using Suc.prems(3) rq by (subst nth_append) simp
    moreover have "m = left s1 + quantum * n" "0 < left s1" using False h(3) Suc.prems(2,4) by auto
    ultimately show ?thesis unfolding r using Suc.IH [of s1 n] False h(2,3) Suc.prems(3) rq by simp
  next
    case True
    show ?thesis
    proof (cases n)
      case 0
      then show ?thesis using True h(1,3) Suc.prems(4) rq by (auto simp: kbind_def)
    next
      case (Suc n')
      then show ?thesis unfolding r using Suc.IH [of s1 n'] True h(2,3) Suc.prems rq quantum_pos by (auto simp: nth_append)
    qed
  qed
qed simp

end

lemma quiet_keeps:
  assumes "kinv s \<and> idle_task s \<noteq> 0 \<and> stacks_intact s" "quiet s s'"
  shows "(kinv s' \<and> idle_task s' \<noteq> 0 \<and> stacks_intact s') \<and> ready_queue s' = ready_queue s \<and> current_task s' = current_task s \<and> ticks_left s' = ticks_left s"
proof -
  have q: "sched_view s' = sched_view s" "stacks_intact s'" "\<And>a. map_option quantum_remaining (tasks s' a) = map_option quantum_remaining (tasks s a)"
    using assms by (simp_all add: quiet_def)
  have v: "current_task s' = current_task s" "idle_task s' = idle_task s" "ready_queue s' = ready_queue s" using view_abs(5,6,7) [OF q(1)] by simp_all
  have "ticks_left s' = ticks_left s" unfolding ticks_left_def v using q(3) [of "current_task s"] by (auto split: option.splits)
  then show ?thesis using good_view [OF q(1)] assms(1) q(2) v by simp
qed

interpretation clock: turn_taking "\<lambda>s. kinv s \<and> idle_task s \<noteq> 0 \<and> stacks_intact s" ready_queue current_task ticks_left 10 timer_handle quiet
proof
  fix s x and xs :: "u32 list"
  assume s: "kinv s \<and> idle_task s \<noteq> 0 \<and> stacks_intact s" "0 < ticks_left s" "ready_queue s = x # xs"
  show "\<exists>sw s' ys. timer_handle s = Inr (sw, s') \<and> (kinv s' \<and> idle_task s' \<noteq> 0 \<and> stacks_intact s') \<and>
      (if ticks_left s = 1 then current_task s' = x \<and> ready_queue s' = xs @ ys \<and> ticks_left s' = 10
       else current_task s' = current_task s \<and> ready_queue s' = (x # xs) @ ys \<and> ticks_left s' = ticks_left s - 1)"
    using timer_handle_effect [of s x xs] s by auto
qed (use quiet_keeps in blast, simp)

lemma timer_run_clock: "timer_run c n s = clock.run_ticks c n s"
  by (induction n arbitrary: s) (simp_all add: case_prod_unfold)

text \<open>C8. No task starves: in a reachable state with intact stacks, let a task be at position \<open>n\<close> of the run queue, counted from 0, and let the current task have the rest of a quantum left (or be the idle task). Whatever
  the tasks compute meanwhile, as long as they neither block nor call the kernel, and whoever wakes up, the task is given the CPU after the rest of the current quantum and one quantum of 10 ticks for each task before it, so after
  at most \<open>10 * (n + 1)\<close> ticks, and no tick on the way panics.\<close>

theorem timer_bounded_wait:
  assumes "kreach s" "stacks_intact s" "n < length (ready_queue s)" "0 < ticks_left s" "ticks_left s \<le> unat DEFAULT_QUANTUM"
    and "\<And>i s. quiet s (compute i s)"
  shows "\<exists>m s'. m \<le> unat DEFAULT_QUANTUM * (n + 1) \<and> timer_run compute m s = Inr s' \<and> current_task s' = ready_queue s ! n"
proof -
  obtain s' where "timer_run compute (ticks_left s + 10 * n) s = Inr s'" "current_task s' = ready_queue s ! n"
    unfolding timer_run_clock using clock.turn_comes [of compute s n, OF assms(6) _ assms(4,3) refl] kreach_kinv [OF assms(1)] assms(2) by blast
  moreover have "ticks_left s + 10 * n \<le> unat DEFAULT_QUANTUM * (n + 1)" using assms(5) by (simp add: DEFAULT_QUANTUM_def)
  ultimately show ?thesis by blast
qed

text \<open>
  A run of the example: \<^verbatim>\<open>init\<close> ends, \<^verbatim>\<open>kitoxD\<close> runs and goes to sleep, the idle task runs, and a signal from the shell wakes the sleeper.
\<close>

lemma no_signals:
  assumes "\<exists>t. tasks s (current_task s) = Some t \<and> signals_map t = 0"
  shows "signal_call_curtask_handlers s = Inr (True, s)"
proof -
  have "call_handlers_loop is s = Inr (True, s)" for "is"
    using assms by (induction "is") (auto simp: signal_is_set_def kbind_def Let_def)
  then show ?thesis by (simp add: signal_call_curtask_handlers_def)
qed

definition example_idle :: "kmm \<Rightarrow> kstate" where
  "example_idle k = (let s = example_kernel k in s\<lparr>tasks := (tasks s)(
      0xC0100000 \<mapsto> boot_thread\<lparr>kernel_stack_pointer := 0xC0100200, kernel_stack_base := 0xC0200000, resume_at := In_boot, task_esp := 0xC01FFF00\<rparr>,
      0xC0300000 \<mapsto> (fresh_task example_image)\<lparr>pid := 1, kernel_stack_pointer := 0xC0301000, kernel_stack_base := 0xC0303000, task_state := TASK_RUNNING,
         quantum_remaining := 10\<rparr>,
      0xC0400000 \<mapsto> (fresh_task example_image)\<lparr>pid := 2, kernel_stack_pointer := 0xC0401000, kernel_stack_base := 0xC0403000,
         task_state := TASK_WAITING, ring := 3, task_cr3 := 0x5000, quantum_remaining := 10, need_resched := True,
         wq_data := \<lparr>wq_head = Some Sleep_wq, wq_node = Some Sleep_wq, wq_st = TASK_INTERRUPTIBLE\<rparr>,
         resume_at := In_sleep, task_esp := 0xC0402F00\<rparr>),
      ready_queue := [], sleep_wq := [0xC0400000], current_task := 0xC0300000, tss_esp0 := 0xC0303000,
      kmm := k\<lparr>mm_vmm := paging_reload_cr3 0 (paging_reload_cr3 0x5000 (mm_vmm k))\<rparr>\<rparr>)"

definition example_run :: "kmm \<Rightarrow> kstate" where
  "example_run k = (let s = example_kernel k in s\<lparr>tasks := (tasks s)(
      0xC0100000 \<mapsto> boot_thread\<lparr>kernel_stack_pointer := 0xC0100200, kernel_stack_base := 0xC0200000, resume_at := In_boot, task_esp := 0xC01FFF00\<rparr>,
      0xC0400000 \<mapsto> (fresh_task example_image)\<lparr>pid := 2, kernel_stack_pointer := 0xC0401000, kernel_stack_base := 0xC0403000,
         task_state := TASK_RUNNING, ring := 3, task_cr3 := 0x5000, quantum_remaining := 10\<rparr>),
      ready_queue := [], current_task := 0xC0400000, tss_esp0 := 0xC0403000, kmm := k\<lparr>mm_vmm := paging_reload_cr3 0x5000 (mm_vmm k)\<rparr>\<rparr>)"

lemmas example_defs = example_kernel_def example_image_def with_task_def kbind_def upd_task_def Let_def task_stack_overflow_def rd32_def wr32_def STACK_CANARY_MAGIC_def
  task_get_dummy_def fresh_task_def zero_task_def boot_thread_def DEFAULT_QUANTUM_def

lemma example_run_step: "schedule In_boot (example_kernel k) = Inr (True, (example_run k)\<lparr>resuming := True\<rparr>)"
  by (simp add: example_run_def schedule_def sched_requeue_def sched_choose_def pick_next_def sched_run_def switch_to_def task_set_current_task_def example_defs fun_eq_iff)

lemma example_idle_step: "timer_ksleep 0 (example_run k) = Inr (True, (example_idle k)\<lparr>resuming := True\<rparr>)"
  by (simp add: example_idle_def example_run_def timer_ksleep_def wq_prepare_def sched_unlink_def wq_unlink_def wq_link_def upd_wq_def wq_entry_init_def
     SECONDS_TO_TICKS_def TIMER_HZ_def schedule_def sched_requeue_def sched_choose_def pick_next_def sched_run_def switch_to_def task_set_current_task_def example_defs fun_eq_iff)


definition example_woken :: "kmm \<Rightarrow> kstate" where
  "example_woken k = (example_idle k)\<lparr>tasks := (tasks (example_idle k))(
      0xC0400000 \<mapsto> (fresh_task example_image)\<lparr>pid := 2, kernel_stack_pointer := 0xC0401000, kernel_stack_base := 0xC0403000,
         task_state := TASK_RUNNING, ring := 3, task_cr3 := 0x5000, quantum_remaining := 10, need_resched := True, signals_map := 1024,
         resume_at := In_sleep, task_esp := 0xC0402F00\<rparr>), ready_queue := [0xC0400000], sleep_wq := []\<rparr>"

lemma example_woken_step: "kill_pid 2 10 (example_idle k) = Inr (0, example_woken k)"
  by (simp add: example_woken_def example_idle_def kill_pid_def task_find_by_pid_def signal_is_valid_def SIG_Sentinel_def signal_check_perm_def signal_send_def
     wq_signal_wake_up_def wq_wake_specifiq_def wq_finish_def wq_unlink_def upd_wq_def wq_entry_init_def sched_enqueue_def example_defs fun_eq_iff)

lemma example_quiet_signals:
  "signal_call_curtask_handlers (example_run k) = Inr (True, example_run k)" "signal_call_curtask_handlers (example_woken k) = Inr (True, example_woken k)"
proof -
  show "signal_call_curtask_handlers (example_run k) = Inr (True, example_run k)"
    by (rule no_signals) (simp add: example_run_def example_defs)
  show "signal_call_curtask_handlers (example_woken k) = Inr (True, example_woken k)"
    by (rule no_signals) (simp add: example_woken_def example_idle_def example_defs)
qed

lemma example_idle_reach: "kreach (example_idle k)"
proof -
  have 0: "kreach ((example_run k)\<lparr>resuming := True\<rparr>)"
    by (rule kreach.step [OF example_reach], rule kstep.boot_done [OF _ _ example_run_step]) (simp_all add: example_defs)
  have "resume_current ((example_run k)\<lparr>resuming := True\<rparr>) = irq_return (example_run k)"
    by (simp add: resume_current_def example_run_def example_defs)
  then have "resume_current ((example_run k)\<lparr>resuming := True\<rparr>) = Inr (example_run k)"
    by (simp add: irq_return_def example_quiet_signals kbind_def)
  then have 1: "kreach (example_run k)"
    by (intro kreach.step [OF 0] kstep.resume) (simp_all add: caller_ok_def example_run_def example_defs)
  have "kreach ((example_idle k)\<lparr>resuming := True\<rparr>)"
    by (rule kreach.step [OF 1], rule kstep.kthread_sleep [OF _ _ example_idle_step]) (simp_all add: caller_ok_def example_run_def example_defs)
  then show ?thesis
    using kstep.resume_idle_first [of "(example_idle k)\<lparr>resuming := True\<rparr>"] by (auto simp: example_idle_def example_defs intro: kreach.step)
qed

lemma example_woken_reach: "kreach (example_woken k)"
proof -
  have "sys_kill_wrapper 10 2 (example_idle k) = Inr (example_woken k)"
    by (simp add: sys_kill_wrapper_def handler_end_def example_woken_step kbind_def irq_return_def example_quiet_signals)
  then show ?thesis
    by (intro kreach.step [OF example_idle_reach] kstep.kill) (simp_all add: example_idle_def example_defs)
qed

theorem timer_wakes_due_sleepers_witness:
  "\<exists>k s'. task_wake_up_sleepers (example_idle k) = Inr s' \<and> sleep_wq (example_idle k) = [0xC0400000] \<and> sleep_wq s' = [] \<and> ready_queue s' = [0xC0400000]"
proof -
  fix k
  have w: "sleep_wq (example_idle k) = [0xC0400000]" "ready_queue (example_idle k) = []" by (simp_all add: example_idle_def example_defs)
  have d: "is_due (example_idle k) 0xC0400000" by (simp add: is_due_def example_idle_def example_defs)
  show ?thesis
    using timer_wakes_due_sleepers [OF example_idle_reach, of k] w d by auto
qed

theorem timer_bounded_wait_witness:
  "\<exists>k m s'. m \<le> 10 \<and> timer_run (\<lambda>_ s. s) m (example_woken k) = Inr s' \<and> current_task s' = 0xC0400000"
proof -
  fix k
  have "stacks_intact (example_woken k)"
    by (simp add: stacks_intact_def example_woken_def example_idle_def example_defs)
  moreover have "ready_queue (example_woken k) = [0xC0400000]" "ticks_left (example_woken k) = 1"
    by (simp_all add: example_woken_def example_idle_def ticks_left_def example_defs)
  moreover have "quiet s s" for s by (simp add: quiet_def)
  ultimately show ?thesis
    using timer_bounded_wait [OF example_woken_reach, of k 0 "\<lambda>_ s. s"] by (auto simp: DEFAULT_QUANTUM_def)
qed

end
