(* ===== verification/Syscall_Spec.thy ===== *)
theory Syscall_Spec
  imports Sched_Spec Slab_Spec
begin

text \<open>
  Two properties of the system call interface: what \<^verbatim>\<open>sigreturn\<close> can do to the registers of a task and to kernel memory, and what the dispatch does with every call number.
\<close>

section \<open>Words in memory\<close>

lemma rd32_bits: "bit (rd32 m a) i \<longleftrightarrow> (if i < 8 then bit (m a) i else if i < 16 then bit (m (a + 1)) (i - 8)
   else if i < 24 then bit (m (a + 2)) (i - 16) else if i < 32 then bit (m (a + 3)) (i - 24) else False)"
  unfolding rd32_def by (auto simp: bit_simps dest: bit_imp_le_length)

lemma word_offset_neq: "(a :: u32) + 1 \<noteq> a" "a + 2 \<noteq> a" "a + 3 \<noteq> a" "a + 2 \<noteq> a + 1" "a + 3 \<noteq> a + 1" "a + 3 \<noteq> a + 2"
  by simp_all

lemma rd32_wr32: "rd32 (wr32 a v m) a = v"
proof (rule bit_word_eqI)
  fix i
  assume "i < LENGTH(32)"
  then show "bit (rd32 (wr32 a v m) a) i = bit v i"
    by (auto simp: rd32_bits wr32_def bit_simps word_offset_neq)
qed

lemma rd32_wr32_other:
  assumes "x \<notin> {0, 1, 2, 3, - 1, - 2, - 3}"
  shows "rd32 (wr32 a v m) (a + x) = rd32 m (a + x)"
proof -
  have "a + x + i \<noteq> a + j" if "i \<in> {0, 1, 2, 3}" "j \<in> {0, 1, 2, 3}" for i j
  proof
    assume "a + x + i = a + j"
    then have "x = j - i" by (simp add: algebra_simps)
    then show False using assms that by auto
  qed
  from this [of 0 0] this [of 0 1] this [of 0 2] this [of 0 3] this [of 1 0] this [of 1 1] this [of 1 2] this [of 1 3]
    this [of 2 0] this [of 2 1] this [of 2 2] this [of 2 3] this [of 3 0] this [of 3 1] this [of 3 2] this [of 3 3]
  show ?thesis unfolding rd32_def wr32_def by simp
qed

lemma tf_off_diff: "f \<noteq> g \<Longrightarrow> tf_off f - tf_off g \<notin> {0, 1, 2, 3, - 1, - 2, - 3}"
  by (cases f; cases g; simp)

lemma get_set_tf [simp]: "get_tf t f (set_tf t g v s) = (if f = g then v else get_tf t f s)"
proof (cases "f = g")
  case True
  then show ?thesis by (simp add: get_tf_def set_tf_def rd32_wr32)
next
  case False
  have "tf_base t + tf_off f = (tf_base t + tf_off g) + (tf_off f - tf_off g)" by simp
  then show ?thesis
    using False rd32_wr32_other [OF tf_off_diff [OF False], of "tf_base t + tf_off g" v "kmem s"] by (simp add: get_tf_def set_tf_def)
qed


lemma set_tf_simps [simp]: "umem (set_tf t g v s) = umem s" "current_task (set_tf t g v s) = current_task s" "tasks (set_tf t g v s) = tasks s"
  by (simp_all add: set_tf_def)

lemma tf_off_bound: "unat (tf_off f) \<le> 72"
  by (cases f) simp_all

lemma set_tf_frame:
  assumes "unat (tf_base t) + 76 \<le> 2 ^ 32" "\<not> within (tf_base t) 76 a"
  shows "kmem (set_tf t g v s) a = kmem s a"
proof -
  have ne: "a \<noteq> tf_base t + tf_off g + j" if "unat j < 4" for j
  proof
    assume a: "a = tf_base t + tf_off g + j"
    have "unat (tf_off g + j) = unat (tf_off g) + unat j" using tf_off_bound [of g] that by (intro unat_add_nowrap) simp
    then have "unat a = unat (tf_base t) + (unat (tf_off g) + unat j)"
      unfolding a add.assoc using assms(1) tf_off_bound [of g] that by (subst unat_add_nowrap) simp_all
    then show False using assms(2) tf_off_bound [of g] that by (simp add: within_def)
  qed
  from ne [of 0] ne [of 1] ne [of 2] ne [of 3] show ?thesis by (simp add: set_tf_def wr32_def)
qed

section \<open>Return from a signal handler\<close>

text \<open>A copy from user memory into a kernel buffer that succeeds changes the buffer only.\<close>

lemma k_copy_from_user_frame:
  assumes "k_copy_from_user dst src n s = Inr (0, s')" "n \<noteq> 0" "unat KERNEL_VADDR_BASE \<le> unat dst" "unat dst + unat n \<le> 2 ^ 32"
  shows "umem s' = umem s \<and> (\<forall>a. \<not> within dst (unat n) a \<longrightarrow> kmem s' a = kmem s a) \<and> current_task s' = current_task s \<and> tasks s' = tasks s"
proof -
  let ?K = "KERNEL_VADDR_BASE"
  obtain t m where t: "tasks s (current_task s) = Some t" and c: "copy_from_user (task_cr3 t) (vmm_of (kmm s)) dst src n (view s (task_cr3 t)) = Inr (0, m)"
    and s': "s' = put_view (task_cr3 t) m s"
    using assms(1) by (auto simp: k_copy_from_user_def kres_simps)
  have m: "m = ft_memcpy dst src n (view s (task_cr3 t))" "access_ok src n"
    using c assms(2) by (auto simp: copy_from_user_def usercopy_def Let_def kres_simps split: if_splits)
  have "unat src + unat n \<le> unat ?K" using m(2) by (simp add: access_ok_iff KERNEL_VADDR_BASE_def)
  then have mm: "m a = (if within dst (unat n) a then view s (task_cr3 t) (src + (a - dst)) else view s (task_cr3 t) a)" for a
    unfolding m(1) ft_memcpy_def using assms(3,4) by (intro memcpy_loop_spec) simp_all
  have "umem s' d a = umem s d a" for d a
    using mm [of a] assms(3) by (auto simp: s' put_view_def view_def within_def word_le_nat_alt)
  moreover have "kmem s' a = kmem s a" if "\<not> within dst (unat n) a" for a
    using mm [of a] that by (simp add: s' put_view_def view_def)
  ultimately show ?thesis by (auto simp: s' put_view_def fun_eq_iff)
qed

text \<open>C6. A program cannot leave user mode through \<^verbatim>\<open>sigreturn\<close>, whatever it put in the frame on its stack: when the call returns, every segment register in the trap frame holds the user selector, the
  interrupt flag is set, all flags outside \<^verbatim>\<open>0xFD7\<close> (the I/O privilege level, nested task, resume and virtual-8086 flags among them) are clear, the value returned is the saved \<^verbatim>\<open>eax\<close>, and no byte of kernel memory outside
  the trap frame of the task and no byte of user memory has changed.\<close>

theorem sigreturn_user_mode:
  assumes "tasks s (current_task s) = Some t" "unat KERNEL_VADDR_BASE \<le> unat (tf_base t)" "unat (tf_base t) + 76 \<le> 2 ^ 32"
    and "sys_sigreturn s = Inr (Some r, s')" "current_task s \<noteq> 0"
  shows "get_tf t Tf_cs s' = USER_CS \<and> get_tf t Tf_user_ss s' = USER_DS \<and> get_tf t Tf_ds s' = USER_DS \<and> get_tf t Tf_es s' = USER_DS \<and>
    get_tf t Tf_fs s' = USER_DS \<and> get_tf t Tf_gs s' = USER_DS \<and> get_tf t Tf_eflags s' AND 0x202 = 0x202 \<and> get_tf t Tf_eflags s' AND NOT 0xFD7 = 0 \<and>
    r = get_tf t Tf_eax s' \<and> umem s' = umem s \<and> (\<forall>a. \<not> within (tf_base t) 76 a \<longrightarrow> kmem s' a = kmem s a)"
proof -
  obtain s1 where c: "k_copy_from_user (tf_base t) (4 + get_tf t Tf_user_esp s) sizeof_trap_frame s = Inr (0, s1)"
    and r: "r = get_tf t Tf_eax s'"
    and s': "s' = set_tf t Tf_gs USER_DS (set_tf t Tf_fs USER_DS (set_tf t Tf_es USER_DS (set_tf t Tf_ds USER_DS (set_tf t Tf_cs USER_CS
       (set_tf t Tf_eflags ((get_tf t Tf_eflags s1 AND 0xDD5) OR 0x202) (set_tf t Tf_user_ss USER_DS s1))))))"
    using assms(1,4,5) by (auto simp: sys_sigreturn_def Let_def ret_def kres_simps split: if_splits)
  have fr: "umem s1 = umem s" "\<not> within (tf_base t) 76 a \<Longrightarrow> kmem s1 a = kmem s a" for a
    using k_copy_from_user_frame [OF c _ assms(2)] assms(3) by (simp_all add: sizeof_trap_frame_def)
  have fl: "((x AND 0xDD5) OR 0x202) AND 0x202 = (0x202 :: u32)" "((x AND 0xDD5) OR 0x202) AND NOT 0xFD7 = (0 :: u32)" for x
  proof -
    have "((x AND 0xDD5) OR 0x202) AND 0x202 = (x AND (0xDD5 AND 0x202)) OR 0x202"
      by (simp add: bit_eq_iff bit_simps)
    then show "((x AND 0xDD5) OR 0x202) AND 0x202 = (0x202 :: u32)" by simp
    have "((x AND p) OR q) AND NOT (p OR q) = 0" for p q :: u32 by (auto simp: bit_eq_iff bit_simps)
    from this [of "0xDD5" "0x202"] show "((x AND 0xDD5) OR 0x202) AND NOT 0xFD7 = (0 :: u32)" by simp
  qed
  have "kmem s' a = kmem s a" if "\<not> within (tf_base t) 76 a" for a
    unfolding s' using fr(2) [OF that] set_tf_frame [OF assms(3) that] by simp
  then show ?thesis unfolding r using fr(1) fl by (simp add: s')
qed


text \<open>An address space in which page 0 is mapped for the user.\<close>

definition example_mm :: kmm where
  "example_mm = \<lparr>mm_slab = example_slab_state, mm_vmm = \<lparr>vm_buddy = sl_buddy example_slab_state,
     mem = (\<lambda>_. 0)(0x5000 := 0x6007, 0x6000 := 0x40000007), cr3 = 0x5000, tlb_log = [], kpage_dir = 0\<rparr>\<rparr>"

lemma example_mm_ent:
  "ent (mem (mm_vmm example_mm)) 0x5000 i = (if i = 0 then 0x6007 else 0)" if "unat i < 1024" for i
proof -
  have "unat (i * 4) = unat i * 4" using that by (simp add: unat_word_ariths)
  then have u: "unat (0x5000 + i * 4) = 0x5000 + unat i * 4" using that by (subst unat_add_nowrap) simp_all
  have "i = 0" if "0x5000 + i * 4 = 0x5000"
  proof -
    have "unat (0x5000 + i * 4) = 0x5000" unfolding that by simp
    then show ?thesis using u by (simp add: unat_eq_zero)
  qed
  moreover have "0x5000 + i * 4 \<noteq> 0x6000"
  proof
    assume e: "0x5000 + i * 4 = 0x6000"
    have "unat (0x5000 + i * 4) = 0x6000" unfolding e by simp
    then show False using u that by simp
  qed
  ultimately show ?thesis by (auto simp: ent_def example_mm_def)
qed

lemma example_mm_wf:
  assumes "mem v = mem (mm_vmm example_mm)" "vm_buddy v = sl_buddy example_slab_state"
  shows "pd_wf 0x5000 v"
proof -
  have f: "free_pages (sl_buddy example_slab_state) = {}"
    by (simp add: free_pages_def pstate_def example_slab_state_def PAGE_GET_STATE_def PAGE_STATE_MASK_def page_state_defs)
  have p: "present 0x6007" "\<not> present 0" by (simp_all add: present_def FLAG_IS_SET_def PDE_PRESENT_BIT_def)
  have t: "pt_of (mem (mm_vmm example_mm)) 0x5000 0 = 0x6000" by (simp add: pt_of_def example_mm_ent GET_ENTRY_ADDR_def ENTRY_FLAGS_MASK_def)
  have i: "present (ent (mem (mm_vmm example_mm)) 0x5000 i) \<longleftrightarrow> i = 0" if "unat i < 1024" for i using p by (simp add: example_mm_ent [OF that])
  show ?thesis
    unfolding pd_wf_def assms using f t i by (auto simp: tbl_def)
qed

lemma example_user_range:
  assumes "mem v = mem (mm_vmm example_mm)"
  shows "user_range 0x5000 v 4 76 True"
proof -
  have "addr_flags (mem v) 0x5000 (usercopy_flags True OR PDE_PRESENT_BIT) (usercopy_flags True OR PTE_PRESENT_BIT) a" if "within 4 76 a" for a
  proof -
    have "GET_PDE_INDEX a = 0" "GET_PTE_INDEX a = 0"
      using that index_nat [of a] by (simp_all add: within_def word_unat_eq_iff)
    moreover have "ent (mem v) 0x5000 0 = 0x6007" "ent (mem v) 0x6000 0 = 0x40000007" by (simp_all add: ent_def example_mm_def assms)
    ultimately show ?thesis
      by (simp add: addr_flags_def has_flags_def pt_of_def GET_ENTRY_ADDR_def ENTRY_FLAGS_MASK_def usercopy_flags_def PDE_US_BIT_def PDE_PRESENT_BIT_def PTE_PRESENT_BIT_def)
  qed
  then show ?thesis by (simp add: user_range_def)
qed

theorem sigreturn_user_mode_witness:
  "\<exists>t r s'. tasks (example_run example_mm) 0xC0400000 = Some t \<and> sys_sigreturn (example_run example_mm) = Inr (Some r, s') \<and> get_tf t Tf_cs s' = USER_CS"
proof -
  let ?s = "example_run example_mm"
  have c: "current_task ?s = 0xC0400000" by (simp add: example_run_def example_defs)
  obtain t where t: "tasks ?s (current_task ?s) = Some t" "kernel_stack_base t = 0xC0403000" "task_cr3 t = 0x5000" by (simp add: example_run_def example_defs)
  have b: "tf_base t = 0xC0402FB4" using t(2) by (simp add: tf_base_def sizeof_trap_frame_def)
  have e: "get_tf t Tf_user_esp ?s = 0" by (simp add: get_tf_def b example_run_def example_defs)
  let ?v = "vmm_of (kmm ?s)"
  have v: "mem ?v = mem (mm_vmm example_mm)" "vm_buddy ?v = sl_buddy example_slab_state"
    by (simp_all add: vmm_of_def example_run_def example_kernel_def Let_def paging_reload_cr3_def example_mm_def)
  obtain m where "copy_from_user 0x5000 ?v (tf_base t) 4 76 (view ?s 0x5000) = Inr (0, m)"
    using usercopy_spec [OF example_mm_wf [OF v], of "tf_base t" 76 4 True "view ?s 0x5000"] example_user_range [OF v(1)] b
    by (auto simp: copy_from_user_def)
  then have "k_copy_from_user (tf_base t) 4 sizeof_trap_frame ?s = Inr (0, put_view 0x5000 m ?s)"
    using t by (simp add: k_copy_from_user_def sizeof_trap_frame_def kbind_def)
  then obtain r s' where r: "sys_sigreturn ?s = Inr (Some r, s')"
    using t e c by (simp add: sys_sigreturn_def Let_def kbind_def ret_def)
  show ?thesis using sigreturn_user_mode [OF t(1) _ _ r] r t(1) c b by (auto simp: KERNEL_VADDR_BASE_def)
qed

section \<open>Dispatch\<close>

text \<open>C22. The dispatch of system calls on every call number in \<^verbatim>\<open>eax\<close>: a number with an entry in the table runs that call on the six argument registers and stores what it returns in \<^verbatim>\<open>eax\<close>; a number without one, however large, only
  sets \<^verbatim>\<open>eax\<close> to \<^verbatim>\<open>-ENOSYS\<close>; but the number 200, which the check \<^verbatim>\<open>sys_id > MAX_SYSCALL\<close> lets through, reads past the end of the table of 200 entries.\<close>

theorem do_syscall_dispatch:
  assumes "tasks s (current_task s) = Some t"
  shows "do_syscall s =
    (if get_tf t Tf_eax s = 200 then Inl OutOfBounds
     else case syscall_entry (unat (get_tf t Tf_eax s)) of None \<Rightarrow> Inr (True, set_tf t Tf_eax (- ENOSYS) s)
       | Some handler \<Rightarrow>
           kbind (handler (get_tf t Tf_ebx s) (get_tf t Tf_ecx s) (get_tf t Tf_edx s) (get_tf t Tf_esi s) (get_tf t Tf_edi s) (get_tf t Tf_ebp s) s)
             (\<lambda>(r, s). case r of None \<Rightarrow> Inr (False, s) | Some v \<Rightarrow> Inr (True, set_tf t Tf_eax v s)))"
proof -
  let ?n = "get_tf t Tf_eax s"
  consider "unat ?n < 200" | "?n = 200" | "200 < unat ?n" using word_unat_eq_iff [of ?n 200] by fastforce
  then show ?thesis
  proof cases
    case 1
    then have "\<not> MAX_SYSCALL < ?n" "?n \<noteq> 200" "syscall_table ! unat ?n = syscall_entry (unat ?n)" "length syscall_table = 200"
      by (auto simp: MAX_SYSCALL_def word_less_nat_alt syscall_table_def)
    then show ?thesis using assms 1 by (simp add: do_syscall_def Let_def)
  next
    case 2
    then show ?thesis using assms by (simp add: do_syscall_def Let_def MAX_SYSCALL_def syscall_table_def)
  next
    case 3
    then have "MAX_SYSCALL < ?n" "?n \<noteq> 200" "syscall_entry (unat ?n) = None" by (auto simp: MAX_SYSCALL_def word_less_nat_alt syscall_entry_def)
    then show ?thesis using assms by (simp add: do_syscall_def Let_def)
  qed
qed

theorem do_syscall_dispatch_witness:
  "\<exists>k t. tasks (example_run k) 0xC0400000 = Some t \<and> do_syscall (set_tf t Tf_eax 200 (example_run k)) = Inl OutOfBounds"
proof -
  fix k
  have c: "current_task (example_run k) = 0xC0400000" by (simp add: example_run_def example_defs)
  obtain t where t: "tasks (example_run k) 0xC0400000 = Some t" by (simp add: example_run_def example_defs)
  show ?thesis using do_syscall_dispatch [of "set_tf t Tf_eax 200 (example_run k)" t] t c by auto
qed

end
