(* ===== verification/Port_Io.thy ===== *)
theory Port_Io
  imports KPrelude
begin

text \<open>
  \<^verbatim>\<open>include/arch/io.h\<close>: the I/O ports. The devices behind the ports are not part of the kernel: they
  are a parameter that answers a read from the accesses made so far. The accesses themselves are kept
  as a trace, the most recent first, which is the effect of the port instructions.
\<close>

datatype io_event = Out8 u16 u8 | Out16 u16 u16 | Out32 u16 u32 | In8 u16 | In16 u16 | In32 u16

type_synonym io_trace = "io_event list"

text \<open>What the hardware answers to a read of a port after a trace, for each width.\<close>

record ports =
  in8 :: "io_trace \<Rightarrow> u16 \<Rightarrow> u8"
  in16 :: "io_trace \<Rightarrow> u16 \<Rightarrow> u16"
  in32 :: "io_trace \<Rightarrow> u16 \<Rightarrow> u32"

definition outl :: "u16 \<Rightarrow> u32 \<Rightarrow> io_trace \<Rightarrow> io_trace" where
  "outl port value t = Out32 port value # t"

definition outw :: "u16 \<Rightarrow> u16 \<Rightarrow> io_trace \<Rightarrow> io_trace" where
  "outw port value t = Out16 port value # t"

definition outb :: "u16 \<Rightarrow> u8 \<Rightarrow> io_trace \<Rightarrow> io_trace" where
  "outb port value t = Out8 port value # t"

definition inl :: "ports \<Rightarrow> u16 \<Rightarrow> io_trace \<Rightarrow> u32 \<times> io_trace" where
  "inl P port t = (in32 P t port, In32 port # t)"

definition inw :: "ports \<Rightarrow> u16 \<Rightarrow> io_trace \<Rightarrow> u16 \<times> io_trace" where
  "inw P port t = (in16 P t port, In16 port # t)"

definition inb :: "ports \<Rightarrow> u16 \<Rightarrow> io_trace \<Rightarrow> u8 \<times> io_trace" where
  "inb P port t = (in8 P t port, In8 port # t)"

text \<open>\<^verbatim>\<open>rep insl\<close>, \<^verbatim>\<open>rep insw\<close> and \<^verbatim>\<open>rep outsw\<close>: as many transfers as the count says; the values read are
  returned in the order they come in.\<close>

fun insl :: "ports \<Rightarrow> u16 \<Rightarrow> nat \<Rightarrow> io_trace \<Rightarrow> u32 list \<times> io_trace" where
  "insl P port 0 t = ([], t)"
| "insl P port (Suc n) t =
     (let (v, t) = inl P port t; (vs, t) = insl P port n t in (v # vs, t))"

fun insw :: "ports \<Rightarrow> u16 \<Rightarrow> nat \<Rightarrow> io_trace \<Rightarrow> u16 list \<times> io_trace" where
  "insw P port 0 t = ([], t)"
| "insw P port (Suc n) t =
     (let (v, t) = inw P port t; (vs, t) = insw P port n t in (v # vs, t))"

fun outsw :: "u16 \<Rightarrow> u16 list \<Rightarrow> io_trace \<Rightarrow> io_trace" where
  "outsw port [] t = t"
| "outsw port (v # vs) t = outsw port vs (outw port v t)"

lemmas io_defs = outl_def outw_def outb_def inl_def inw_def inb_def

lemma length_insl [simp]: "length (fst (insl P port n t)) = n"
  by (induction n arbitrary: t) (simp_all add: Let_def inl_def split_def)

lemma length_insw [simp]: "length (fst (insw P port n t)) = n"
  by (induction n arbitrary: t) (simp_all add: Let_def inw_def split_def)

lemma outsw_trace: "outsw port vs t = rev (map (Out16 port) vs) @ t"
  by (induction vs arbitrary: t) (auto simp: outw_def)

lemma insw_trace: "snd (insw P port n t) = replicate n (In16 port) @ t"
  by (induction n arbitrary: t) (auto simp: Let_def inw_def split_def replicate_app_Cons_same)

end
