(* ===== verification/Terminal.thy ===== *)
theory Terminal
  imports Port_Io Libk
begin

text \<open>
  \<^verbatim>\<open>drivers/vga\<close> and \<^verbatim>\<open>drivers/tty\<close>: twelve virtual terminals, each a ring of 256 lines of 80 cells,
  of which the 25 lines from \<^verbatim>\<open>top_line_index\<close> on are copied to the VGA text memory, and the formatted
  output on the current terminal. All indices of lines are 8 bits wide and wrap, which is what makes the
  buffer a ring. A terminal is an index into \<^verbatim>\<open>ttys\<close>. The build is the debug build: every
  character also goes to the serial port.
\<close>

section \<open>State\<close>

definition VGA_WIDTH :: nat where
  "VGA_WIDTH = 80"

definition VGA_HEIGHT :: nat where
  "VGA_HEIGHT = 25"

definition TTY_HIST_SIZE :: nat where
  "TTY_HIST_SIZE = 256"

definition MAX_TTY :: nat where
  "MAX_TTY = 12"

definition VGA_COLOR :: "u8 \<Rightarrow> u8 \<Rightarrow> u8" where
  "VGA_COLOR bg fg = push_bit 4 bg OR fg"

definition VGA_DEFAULT_MODE :: u8 where
  "VGA_DEFAULT_MODE = VGA_COLOR 1 15"

record vga_entry =
  character :: u8
  e_mode :: u8

record s_cursor =
  cur_x :: u8
  cur_y :: u8

record tty_history =
  status :: bool
  stop_scroll :: bool
  top_line_save :: u32

record tty =
  framebuffer :: "vga_entry list option"
  framebuffer_size :: u32
  top_line_index :: u8
  history :: tty_history
  cursor :: s_cursor
  mode :: u8
  cli :: "u8 list"

text \<open>The terminals, which of them is the current one, the VGA text memory and the ports.\<close>

record console =
  ttys :: "tty list"
  current_tty :: nat
  vga_buffer :: "vga_entry list"
  io :: io_trace

definition the_tty :: "console \<Rightarrow> tty" where
  "the_tty S = ttys S ! current_tty S"

definition upd_nth :: "nat \<Rightarrow> (tty \<Rightarrow> tty) \<Rightarrow> console \<Rightarrow> console" where
  "upd_nth i f S = S\<lparr>ttys := (ttys S)[i := f (ttys S ! i)]\<rparr>"

definition upd_tty :: "(tty \<Rightarrow> tty) \<Rightarrow> console \<Rightarrow> console" where
  "upd_tty f S = upd_nth (current_tty S) f S"

definition upd_io :: "(io_trace \<Rightarrow> io_trace) \<Rightarrow> console \<Rightarrow> console" where
  "upd_io f S = S\<lparr>io := f (io S)\<rparr>"

definition blank_entry :: "u8 \<Rightarrow> vga_entry" where
  "blank_entry m = \<lparr>character = 0, e_mode = m\<rparr>"

section \<open>The VGA registers\<close>

definition vga_enable_cursor :: "ports \<Rightarrow> u8 \<Rightarrow> u8 \<Rightarrow> io_trace \<Rightarrow> io_trace" where
  "vga_enable_cursor P cursor_start cursor_end t =
     (let t = outb 0x3D4 0x0A t;
          (v, t) = inb P 0x3D5 t;
          t = outb 0x3D5 ((v AND 0xC0) OR cursor_start) t;
          t = outb 0x3D4 0x0B t;
          (v, t) = inb P 0x3D5 t
      in outb 0x3D5 ((v AND 0xE0) OR cursor_end) t)"

definition vga_disable_cursor :: "io_trace \<Rightarrow> io_trace" where
  "vga_disable_cursor t = outb 0x3D5 0x20 (outb 0x3D4 0x0A t)"

definition vga_set_cursor_position :: "u8 \<Rightarrow> u8 \<Rightarrow> io_trace \<Rightarrow> io_trace" where
  "vga_set_cursor_position x y t =
     (let pos = (ucast y * 80 + ucast x :: u16);
          t = outb 0x3D4 0x0F t;
          t = outb 0x3D5 (ucast pos) t;
          t = outb 0x3D4 0x0E t
      in outb 0x3D5 (ucast (drop_bit 8 pos)) t)"

section \<open>The frame buffer\<close>

text \<open>A store of one cell, through a pointer that may be null.\<close>

definition fb_store :: "nat \<Rightarrow> vga_entry \<Rightarrow> tty \<Rightarrow> tty kres" where
  "fb_store off e t = (case framebuffer t of
     None \<Rightarrow> Inl NullDeref
   | Some fb \<Rightarrow> if off < length fb then Inr (t\<lparr>framebuffer := Some (fb[off := e])\<rparr>) else Inl OutOfBounds)"

text \<open>The loop over all cells; \<open>f\<close> is the new cell.\<close>

definition fb_all :: "(vga_entry \<Rightarrow> vga_entry) \<Rightarrow> tty \<Rightarrow> tty kres" where
  "fb_all f t = (case framebuffer t of
     None \<Rightarrow> Inl NullDeref
   | Some fb \<Rightarrow>
       if length fb < VGA_WIDTH * TTY_HIST_SIZE then Inl OutOfBounds
       else Inr (t\<lparr>framebuffer := Some (map f (take (VGA_WIDTH * TTY_HIST_SIZE) fb) @ drop (VGA_WIDTH * TTY_HIST_SIZE) fb)\<rparr>))"

definition tty_framebuffer_set_screen_mode :: "tty \<Rightarrow> u8 \<Rightarrow> tty kres" where
  "tty_framebuffer_set_screen_mode t m = fb_all (\<lambda>e. e\<lparr>e_mode := m\<rparr>) (t\<lparr>mode := m\<rparr>)"

definition tty_framebuffer_clear :: "tty \<Rightarrow> tty kres" where
  "tty_framebuffer_clear t =
     kbind (fb_all (\<lambda>_. blank_entry (mode t)) t) (\<lambda>t.
     Inr (t\<lparr>top_line_index := 0, cursor := \<lparr>cur_x = 0, cur_y = 0\<rparr>\<rparr>))"

text \<open>The operations on \<^verbatim>\<open>current_tty\<close>.\<close>

definition tty_history_enable :: "console \<Rightarrow> console" where
  "tty_history_enable S =
     upd_tty (\<lambda>t. t\<lparr>history := (history t)\<lparr>status := True, top_line_save := ucast (top_line_index t)\<rparr>\<rparr>)
       (upd_io vga_disable_cursor S)"

definition tty_history_disable :: "ports \<Rightarrow> console \<Rightarrow> console" where
  "tty_history_disable P S =
     upd_tty (\<lambda>t. t\<lparr>history := (history t)\<lparr>status := False\<rparr>, top_line_index := ucast (top_line_save (history t))\<rparr>)
       (upd_io (vga_enable_cursor P 14 15) S)"

text \<open>The comparison of \<^verbatim>\<open>top_line_index\<close> with \<^verbatim>\<open>oldest_line\<close> is one of bytes.\<close>

definition tty_history_scroll_up :: "console \<Rightarrow> console" where
  "tty_history_scroll_up S =
     (let t = the_tty S;
          oldest_line = (if stop_scroll (history t) then 0 else ucast (top_line_save (history t)) + 1 :: u8) in
      if \<not> status (history t) then S
      else if top_line_index t = oldest_line then S
      else upd_tty (\<lambda>t. t\<lparr>top_line_index := top_line_index t - 1\<rparr>) S)"

definition tty_history_scroll_down :: "console \<Rightarrow> console" where
  "tty_history_scroll_down S =
     (let t = the_tty S;
          real_y = (ucast (top_line_save (history t)) + cur_y (cursor t) :: u8);
          now_y = top_line_index t + cur_y (cursor t) in
      if \<not> status (history t) then S
      else if real_y = now_y then S
      else upd_tty (\<lambda>t. t\<lparr>top_line_index := top_line_index t + 1\<rparr>) S)"

fun clear_cells :: "nat \<Rightarrow> nat \<Rightarrow> tty \<Rightarrow> tty kres" where
  "clear_cells off 0 t = Inr t"
| "clear_cells off (Suc n) t = kbind (fb_store off (blank_entry (mode t)) t) (clear_cells (off + 1) n)"

definition tty_scroll :: "tty \<Rightarrow> tty kres" where
  "tty_scroll t =
     (let t = t\<lparr>top_line_index := top_line_index t + 1\<rparr>;
          t = (if top_line_index t = 0 then t\<lparr>history := (history t)\<lparr>stop_scroll := False\<rparr>\<rparr> else t);
          bottom_line = top_line_index t + of_nat (VGA_HEIGHT - 1)
      in clear_cells (unat bottom_line * VGA_WIDTH) VGA_WIDTH t)"

definition tty_framebuffer_scroll_down :: "console \<Rightarrow> console kres" where
  "tty_framebuffer_scroll_down S = kbind (tty_scroll (the_tty S)) (\<lambda>t. Inr (upd_tty (\<lambda>_. t) S))"

definition tty_framebuffer_write :: "ports \<Rightarrow> nat \<Rightarrow> u8 \<Rightarrow> console \<Rightarrow> console kres" where
  "tty_framebuffer_write P i c S =
     (if framebuffer (ttys S ! i) = None then Inr S
      else
        let S = (if status (history (ttys S ! i)) then tty_history_disable P S else S);
            t = ttys S ! i;
            real_y = top_line_index t + cur_y (cursor t);
            offset = unat real_y * VGA_WIDTH + unat (cur_x (cursor t)) in
        kbind (fb_store offset \<lparr>character = c, e_mode = mode t\<rparr> t) (\<lambda>t. Inr (upd_nth i (\<lambda>_. t) S)))"

section \<open>Characters\<close>

definition cursor_x :: "console \<Rightarrow> u8" where
  "cursor_x S = cur_x (cursor (the_tty S))"

definition cursor_y :: "console \<Rightarrow> u8" where
  "cursor_y S = cur_y (cursor (the_tty S))"

definition set_x :: "u8 \<Rightarrow> console \<Rightarrow> console" where
  "set_x x S = upd_tty (\<lambda>t. t\<lparr>cursor := (cursor t)\<lparr>cur_x := x\<rparr>\<rparr>) S"

definition set_y :: "u8 \<Rightarrow> console \<Rightarrow> console" where
  "set_y y S = upd_tty (\<lambda>t. t\<lparr>cursor := (cursor t)\<lparr>cur_y := y\<rparr>\<rparr>) S"

text \<open>The loop over the columns, on the two coordinates it changes.\<close>

function wrap_columns :: "u8 \<Rightarrow> u8 \<Rightarrow> u8 \<times> u8" where
  "wrap_columns x y = (if 80 \<le> x then wrap_columns (x - 80) (y + 1) else (x, y))"
  by auto
termination
  by (relation "measure (\<lambda>(x, y). unat x)") (auto simp: unat_sub word_le_nat_alt)

declare wrap_columns.simps [simp del]

function scroll_rows :: "u8 \<Rightarrow> console \<Rightarrow> console kres" where
  "scroll_rows y S =
     (if 25 \<le> y then kbind (tty_framebuffer_scroll_down S) (\<lambda>S. scroll_rows (y - 1) (set_y (y - 1) S))
      else Inr S)"
  by auto
termination
  by (relation "measure (\<lambda>(y, S). unat y)") (auto simp: unat_sub word_le_nat_alt)

declare scroll_rows.simps [simp del]

definition fix_cursor :: "console \<Rightarrow> console kres" where
  "fix_cursor S =
     (let (x, y) = wrap_columns (cursor_x S) (cursor_y S) in scroll_rows y (set_y y (set_x x S)))"

text \<open>The branches of the switch other than the tabulator.\<close>

definition put_plain :: "ports \<Rightarrow> u8 \<Rightarrow> console \<Rightarrow> console kres" where
  "put_plain P c S =
     (if c = 10 then Inr (set_x 0 (set_y (cursor_y S + 1) S))
      else if c = 13 then Inr (set_x 0 S)
      else kbind (tty_framebuffer_write P (current_tty S) c S) (\<lambda>S. Inr (set_x (cursor_x S + 1) S)))"

definition put_space :: "ports \<Rightarrow> console \<Rightarrow> console kres" where
  "put_space P S = kbind (put_plain P 32 (upd_io (outb 0x3F8 32) S)) fix_cursor"

text \<open>\<^verbatim>\<open>do ft_putchar(' '); while (cursor.x % 4)\<close>; the column grows by 1 modulo 4 each time, so that four
  iterations are enough (\<open>tab_enough\<close>).\<close>

fun put_tab :: "nat \<Rightarrow> ports \<Rightarrow> console \<Rightarrow> console kres" where
  "put_tab 0 P S = Inl Diverges"
| "put_tab (Suc n) P S =
     kbind (put_space P S) (\<lambda>S. if cursor_x S mod 4 \<noteq> 0 then put_tab n P S else Inr S)"

definition ft_putchar :: "ports \<Rightarrow> u8 \<Rightarrow> console \<Rightarrow> console kres" where
  "ft_putchar P c S =
     kbind (if c = 9 then put_tab 4 P (upd_io (outb 0x3F8 c) S)
            else put_plain P c (upd_io (outb 0x3F8 c) S)) fix_cursor"

section \<open>Strings and numbers\<close>

text \<open>Printing a known text.\<close>

fun put_all :: "ports \<Rightarrow> u8 list \<Rightarrow> console \<Rightarrow> console kres" where
  "put_all P [] S = Inr S"
| "put_all P (c # cs) S = kbind (ft_putchar P c S) (put_all P cs)"

definition ascii :: "string \<Rightarrow> u8 list" where
  "ascii s = map of_char s"

text \<open>\<^verbatim>\<open>ft_putstr\<close> reads the memory up to a null byte; the literal \<^verbatim>\<open>"(null)"\<close> is in the read-only data.
  The functions return the number of characters as well, which no caller uses.\<close>

partial_function (option) putstr_from :: "ports \<Rightarrow> bmem \<Rightarrow> u32 \<Rightarrow> console \<Rightarrow> console kres option" where
  "putstr_from P m p S =
     (if m p = 0 then Some (Inr S)
      else case ft_putchar P (m p) S of Inl e \<Rightarrow> Some (Inl e) | Inr S \<Rightarrow> putstr_from P m (p + 1) S)"

definition ft_putstr :: "ports \<Rightarrow> bmem \<Rightarrow> u32 \<Rightarrow> console \<Rightarrow> console kres option" where
  "ft_putstr P m str S =
     (if str = 0 then Some (put_all P (ascii ''(null)'') S) else putstr_from P m str S)"

text \<open>\<^verbatim>\<open>ft_putnbr\<close> of an \<^verbatim>\<open>int\<close>; C divides towards 0, and the operands are not negative.\<close>

function ft_putnbr :: "ports \<Rightarrow> int \<Rightarrow> console \<Rightarrow> console kres" where
  "ft_putnbr P nb S =
     (if nb = -2147483648 then kbind (ft_putnbr P (-21474) S) (ft_putnbr P 83648)
      else if nb < 0 then kbind (ft_putchar P 45 S) (ft_putnbr P (nb * -1))
      else if 10 \<le> nb then kbind (ft_putnbr P (nb div 10) S) (ft_putnbr P (nb mod 10))
      else ft_putchar P (of_int (nb + 48)) S)"
  by auto
termination
  by (relation "measure (\<lambda>(P, nb, S). nat (if nb < 0 then 1 - 2 * nb else 2 * nb))") auto

declare ft_putnbr.simps [simp del]

definition ft_putunsignednbr :: "ports \<Rightarrow> u32 \<Rightarrow> console \<Rightarrow> console kres" where
  "ft_putunsignednbr P nb S =
     (if 10 \<le> nb then kbind (ft_putnbr P (sint (nb div 10)) S) (ft_putnbr P (sint (nb mod 10)))
      else ft_putchar P (ucast nb + 48) S)"

definition hex_digit :: "bool \<Rightarrow> nat \<Rightarrow> u8" where
  "hex_digit upper d = ascii (if upper then ''0123456789ABCDEF'' else ''0123456789abcdef'') ! d"

function puthexa_digits :: "ports \<Rightarrow> nat \<Rightarrow> bool \<Rightarrow> console \<Rightarrow> console kres" where
  "puthexa_digits P nb upper S =
     (if nb < 16 then ft_putchar P (hex_digit upper nb) S
      else kbind (puthexa_digits P (nb div 16) upper S) (puthexa_digits P (nb mod 16) upper))"
  by auto
termination
  by (relation "measure (\<lambda>(P, nb, u, S). nb)") auto

declare puthexa_digits.simps [simp del]

definition ft_puthexa :: "ports \<Rightarrow> u32 \<Rightarrow> bool \<Rightarrow> bool \<Rightarrow> console \<Rightarrow> console kres" where
  "ft_puthexa P nb upper addr S =
     (if addr then kbind (put_all P (ascii ''0x'') S) (puthexa_digits P (unat nb) upper)
      else puthexa_digits P (unat nb) upper S)"

section \<open>The screen\<close>

text \<open>Copying one line of the ring to line \<open>y\<close> of the VGA memory.\<close>

definition refresh_line :: "tty \<Rightarrow> nat \<Rightarrow> vga_entry list \<Rightarrow> vga_entry list kres" where
  "refresh_line t y vga = (case framebuffer t of
     None \<Rightarrow> Inl NullDeref
   | Some fb \<Rightarrow>
       let line_buffer = unat (top_line_index t + of_nat y) * VGA_WIDTH in
       if length fb < line_buffer + VGA_WIDTH then Inl OutOfBounds
       else Inr (take (y * VGA_WIDTH) vga @ take VGA_WIDTH (drop line_buffer fb) @ drop (y * VGA_WIDTH + VGA_WIDTH) vga))"

fun refresh_lines :: "tty \<Rightarrow> nat list \<Rightarrow> vga_entry list \<Rightarrow> vga_entry list kres" where
  "refresh_lines t [] vga = Inr vga"
| "refresh_lines t (y # ys) vga = kbind (refresh_line t y vga) (refresh_lines t ys)"

definition vga_refresh_screen :: "console \<Rightarrow> console kres" where
  "vga_refresh_screen S =
     (if framebuffer (the_tty S) = None then Inr S
      else kbind (refresh_lines (the_tty S) [0..<VGA_HEIGHT] (vga_buffer S)) (\<lambda>vga.
        Inr (upd_io (vga_set_cursor_position (cursor_x S) (cursor_y S)) (S\<lparr>vga_buffer := vga\<rparr>))))"

section \<open>Formatted output\<close>

text \<open>
  The arguments are the 32-bit words of the variable part of the call. \<open>tk\<close> gives the fields \<^verbatim>\<open>name\<close> and
  \<^verbatim>\<open>pid\<close> of the task at an address. \<open>then_put\<close> runs a string after a result.
\<close>

definition then_put :: "console kres option \<Rightarrow> (console \<Rightarrow> console kres option) \<Rightarrow> console kres option" where
  "then_put r f = Option.bind r (\<lambda>r. case r of Inl e \<Rightarrow> Some (Inl e) | Inr S \<Rightarrow> f S)"

definition put_task :: "ports \<Rightarrow> bmem \<Rightarrow> (u32 \<Rightarrow> u32 \<times> int) \<Rightarrow> u32 \<Rightarrow> console \<Rightarrow> console kres option" where
  "put_task P m tk a S =
     then_put (Some (put_all P (ascii ''task<'') S)) (\<lambda>S.
     then_put
       (if a \<noteq> 0 then
          then_put (Some (ft_puthexa P a False True S)) (\<lambda>S.
          then_put (Some (put_all P (ascii '',name='' @ [34]) S)) (\<lambda>S.
          then_put (ft_putstr P m (fst (tk a)) S) (\<lambda>S.
          then_put (Some (put_all P (34 # ascii '',pid='') S)) (\<lambda>S.
          Some (ft_putnbr P (snd (tk a)) S)))))
        else Some (put_all P (ascii ''null'') S)) (\<lambda>S.
     Some (ft_putchar P 62 S)))"

text \<open>The conversions that take an argument.\<close>

definition is_conv :: "u8 \<Rightarrow> bool" where
  "is_conv c \<longleftrightarrow> c \<in> set (ascii ''siduxXpct'')"

definition put_conv :: "ports \<Rightarrow> bmem \<Rightarrow> (u32 \<Rightarrow> u32 \<times> int) \<Rightarrow> u8 \<Rightarrow> u32 \<Rightarrow> console \<Rightarrow> console kres option" where
  "put_conv P m tk c a S =
     (if c = 115 then ft_putstr P m a S
      else if c = 105 \<or> c = 100 then Some (ft_putnbr P (sint a) S)
      else if c = 117 then Some (ft_putunsignednbr P a S)
      else if c = 120 then Some (ft_puthexa P a False False S)
      else if c = 88 then Some (ft_puthexa P a True False S)
      else if c = 112 then Some (ft_puthexa P a False True S)
      else if c = 99 then Some (ft_putchar P (ucast a) S)
      else put_task P m tk a S)"

text \<open>The loop over the format, with the index \<^verbatim>\<open>i\<close> as the pointer \<^verbatim>\<open>fmt + i\<close>. After a conversion the loop
  continues behind the character it ended with, the null byte included.\<close>

partial_function (option) vprintf_from ::
  "ports \<Rightarrow> bmem \<Rightarrow> (u32 \<Rightarrow> u32 \<times> int) \<Rightarrow> u32 \<Rightarrow> u32 list \<Rightarrow> console \<Rightarrow> console kres option" where
  "vprintf_from P m tk p ap S =
     (if m p = 0 then Some (Inr S)
      else if m p = 37 then
        (if is_conv (m (p + 1)) then
           (case ap of [] \<Rightarrow> Some (Inl OutOfBounds)
            | a # ap \<Rightarrow> Option.bind (put_conv P m tk (m (p + 1)) a S) (\<lambda>r.
                case r of Inl e \<Rightarrow> Some (Inl e) | Inr S \<Rightarrow> vprintf_from P m tk (p + 2) ap S))
         else case (if m (p + 1) = 37 then ft_putchar P 37 S else Inr S) of
                Inl e \<Rightarrow> Some (Inl e) | Inr S \<Rightarrow> vprintf_from P m tk (p + 2) ap S)
      else case ft_putchar P (m p) S of Inl e \<Rightarrow> Some (Inl e) | Inr S \<Rightarrow> vprintf_from P m tk (p + 1) ap S)"

definition vga_vprintf ::
  "ports \<Rightarrow> bmem \<Rightarrow> (u32 \<Rightarrow> u32 \<times> int) \<Rightarrow> u32 \<Rightarrow> u32 list \<Rightarrow> console \<Rightarrow> console kres option" where
  "vga_vprintf P m tk fmt ap S =
     then_put (vprintf_from P m tk fmt ap S) (\<lambda>S. Some (vga_refresh_screen S))"

end
