(* ===== verification/Tty.thy ===== *)
theory Tty
  imports Terminal Libutils
begin

text \<open>
  \<^verbatim>\<open>drivers/tty/tty.c\<close>, the parts above the frame buffer: creating and switching terminals, and the command
  line. Printing a literal is \<open>vga_puts\<close>: the text followed by a refresh of the screen, which is what
  \<^verbatim>\<open>vga_printf\<close> does with it. The memory for a frame buffer comes from \<^verbatim>\<open>kmalloc\<close>; \<open>mem\<close> says whether there was
  any.
\<close>

definition vga_puts :: "ports \<Rightarrow> u8 list \<Rightarrow> console \<Rightarrow> console kres" where
  "vga_puts P cs S = kbind (put_all P cs S) vga_refresh_screen"

text \<open>The banner; 92 is the code of the backslash.\<close>

definition KERNEL_BANNER :: "u8 list" where
  "KERNEL_BANNER = (let bs = [92] in
     [10] @
     ascii ''  /$$   /$$   /$$   /$$               /$$   /$$'' @ [10] @
     ascii '' | $$  /$$/ /$$$$  | $$              | $$  / $$'' @ [10] @
     ascii '' | $$ /$$/ |_  $$ /$$$$$$    /$$$$$$ |  $$/ $$/'' @ [10] @
     ascii '' | $$$$$/    | $$|_  $$_/   /$$__  $$ '' @ bs @ ascii ''  $$$$/ '' @ [10] @
     ascii '' | $$  $$    | $$  | $$    | $$  '' @ bs @ ascii '' $$  >$$  $$ '' @ [10] @
     ascii '' | $$'' @ bs @ ascii ''  $$   | $$  | $$ /$$| $$  | $$ /$$/'' @ bs @ ascii ''  $$'' @ [10] @
     ascii '' | $$ '' @ bs @ ascii ''  $$ /$$$$$$|  $$$$/|  $$$$$$/| $$  '' @ bs @ ascii '' $$'' @ [10] @
     ascii '' |__/  '' @ bs @ ascii ''__/|______/ '' @ bs @ ascii ''___/   '' @ bs @ ascii ''______/ |__/  |__/'' @ [10] @
     [10])"

definition TTY_PROMPT :: "u8 list" where
  "TTY_PROMPT = ascii ''$> ''"

definition vga_setup_default_screen :: "ports \<Rightarrow> console \<Rightarrow> console kres" where
  "vga_setup_default_screen P S = vga_puts P KERNEL_BANNER S"

definition tty_print_prompt :: "ports \<Rightarrow> console \<Rightarrow> console kres" where
  "tty_print_prompt P S = vga_puts P TTY_PROMPT S"

section \<open>Creating and switching terminals\<close>

definition tty_init :: "tty \<Rightarrow> tty" where
  "tty_init t = t\<lparr>top_line_index := 0, cursor := \<lparr>cur_x = 0, cur_y = 0\<rparr>,
     history := \<lparr>status = False, stop_scroll = True, top_line_save = 0\<rparr>, mode := VGA_DEFAULT_MODE,
     framebuffer_size := of_nat (VGA_WIDTH * TTY_HIST_SIZE * 2), framebuffer := None,
     cli := replicate 256 0\<rparr>"

definition tty_framebuffer_init :: "bool \<Rightarrow> tty \<Rightarrow> tty kres" where
  "tty_framebuffer_init mem t =
     (if \<not> mem then Inl (Panic ''tty_framebuffer_init'')
      else let t = t\<lparr>framebuffer := Some (replicate (unat (framebuffer_size t) div 2) (blank_entry 0))\<rparr> in
        kbind (tty_framebuffer_set_screen_mode t (mode t)) tty_framebuffer_clear)"

text \<open>The banner and the prompt of a new terminal are printed before \<^verbatim>\<open>current_tty\<close> is switched to it.\<close>

definition tty_load :: "ports \<Rightarrow> bool \<Rightarrow> nat \<Rightarrow> console \<Rightarrow> console kres" where
  "tty_load P mem i S =
     (if length (ttys S) \<le> i then Inl OutOfBounds
      else kbind
        (if framebuffer (ttys S ! i) = None then
           kbind (tty_framebuffer_init mem (ttys S ! i)) (\<lambda>t.
           kbind (vga_setup_default_screen P (upd_nth i (\<lambda>_. t) S)) (tty_print_prompt P))
         else Inr S) (\<lambda>S.
        vga_refresh_screen (S\<lparr>current_tty := i\<rparr>)))"

definition ttys_init :: "ports \<Rightarrow> bool \<Rightarrow> console \<Rightarrow> console kres" where
  "ttys_init P mem S =
     kbind (tty_load P mem 0 (S\<lparr>ttys := map tty_init (ttys S)\<rparr>)) (\<lambda>S.
     Inr (upd_io (vga_enable_cursor P 0 16) S))"

definition tty_current_tty_clear :: "console \<Rightarrow> console kres" where
  "tty_current_tty_clear S = kbind (tty_framebuffer_clear (the_tty S)) (\<lambda>t. Inr (upd_tty (\<lambda>_. t) S))"

section \<open>The command line\<close>

datatype shell_func = Tty_handle_kprimitive | Tty_current_tty_clear | Exec_mok string | Task_cmd_print_info
  | Sys_kill_wrapper | Lspci_cmd | Lside_cmd | Lsblk_cmd | Print_help

definition shell_commands :: "(string \<times> string \<times> shell_func) list" where
  "shell_commands =
    [(''poweroff'', ''Power off the system.'', Tty_handle_kprimitive),
     (''reboot'', ''Reboot the system.'', Tty_handle_kprimitive),
     (''halt'', ''Halt the system.'', Tty_handle_kprimitive),
     (''ps'', ''Display existing process.'', Tty_handle_kprimitive),
     (''clear'', ''Clear the current tty.'', Tty_current_tty_clear),
     (''cafe'', ''Run the mok process: cafe.'', Exec_mok ''cafe''),
     (''dead'', ''Run the mok process: dead.'', Exec_mok ''dead''),
     (''fibo'', ''Run the mok process: fibo.'', Exec_mok ''fibo''),
     (''hello'', ''Run the mok process: hello.'', Exec_mok ''hello''),
     (''pid'', ''Run the mok process: pid.'', Exec_mok ''pid''),
     (''task_info'', ''Print task data using pid.'', Task_cmd_print_info),
     (''kill'', ''Send signal to process.'', Sys_kill_wrapper),
     (''lspci'', ''List PCI devices.'', Lspci_cmd),
     (''lside'', ''List IDE/ATA drives.'', Lside_cmd),
     (''lsblk'', ''List block devices.'', Lsblk_cmd),
     (''help'', ''Print this help message.'', Print_help)]"

fun find_command :: "u8 list \<Rightarrow> (string \<times> string \<times> shell_func) list \<Rightarrow> shell_func option" where
  "find_command name [] = None"
| "find_command name ((cmd, descr, f) # cs) = (if ascii cmd = name then Some f else find_command name cs)"

fun help_lines :: "ports \<Rightarrow> (string \<times> string \<times> shell_func) list \<Rightarrow> console \<Rightarrow> console kres" where
  "help_lines P [] S = Inr S"
| "help_lines P ((cmd, descr, f) # cs) S =
     kbind (vga_puts P ([9] @ ascii cmd @ [9, 9] @ ascii descr @ [10]) S) (help_lines P cs)"

definition print_help :: "ports \<Rightarrow> console \<Rightarrow> console kres" where
  "print_help P S =
     kbind (vga_puts P (ascii ''Usage: [command] [options]'' @ [10, 10] @ ascii ''Available commands:'' @ [10]) S)
       (help_lines P shell_commands)"

text \<open>The string at a pointer.\<close>

partial_function (option) read_str :: "bmem \<Rightarrow> u32 \<Rightarrow> u8 list option" where
  "read_str m p = (if m p = 0 then Some [] else Option.bind (read_str m (p + 1)) (\<lambda>cs. Some (m p # cs)))"

definition write_bytes :: "u32 \<Rightarrow> u8 list \<Rightarrow> bmem \<Rightarrow> bmem" where
  "write_bytes a xs m = (\<lambda>p. if unat (p - a) < length xs then xs ! unat (p - a) else m p)"

text \<open>
  \<^verbatim>\<open>tty_cli_handle_nl\<close>: the line is at the address \<open>a\<close> of \<^verbatim>\<open>current_tty->cli\<close> in the memory \<open>m\<close> that \<^verbatim>\<open>ft_split\<close>
  reads and allocates from (\<open>km\<close>, \<open>kmz\<close>); \<open>run\<close> is the call through the function pointer of a command, with the
  arguments. What \<^verbatim>\<open>ft_free_strs\<close> gives back to the heap is not part of the console.
\<close>

definition run_line ::
  "ports \<Rightarrow> (shell_func \<Rightarrow> u32 list \<Rightarrow> console \<Rightarrow> console kres) \<Rightarrow> u32 list option \<Rightarrow> bmem \<Rightarrow> console \<Rightarrow> console kres option" where
  "run_line P run argv m S = (case argv of
     None \<Rightarrow> Some (Inr S)
   | Some [] \<Rightarrow> Some (Inr S)
   | Some (arg0 # args) \<Rightarrow>
       if arg0 = 0 then Some (Inr S)
       else Option.bind (read_str m arg0) (\<lambda>name.
         Some (case find_command name shell_commands of
             Some f \<Rightarrow> run f (arg0 # args) S
           | None \<Rightarrow> vga_puts P (ascii ''k1tOS: command not found: '' @ name @ [10]) S)))"

definition tty_cli_handle_nl ::
  "ports \<Rightarrow> (shell_func \<Rightarrow> u32 list \<Rightarrow> console \<Rightarrow> console kres) \<Rightarrow> allocator \<Rightarrow> allocator \<Rightarrow> u32 \<Rightarrow> bmem \<Rightarrow> console \<Rightarrow>
   console kres option" where
  "tty_cli_handle_nl P run km kmz a m S =
     then_put (Some (vga_puts P [10] S)) (\<lambda>S.
     then_put
       (if cli (the_tty S) ! 0 \<noteq> 0 then
          Option.bind (ft_split km kmz a 32 (write_bytes a (cli (the_tty S)) m)) (\<lambda>(argv, m).
          then_put (run_line P run argv m S) (\<lambda>S.
          Some (Inr (upd_tty (\<lambda>t. t\<lparr>cli := replicate 256 0\<rparr>) S))))
        else Some (Inr S)) (\<lambda>S.
     Some (tty_print_prompt P S)))"

section \<open>Panic\<close>

text \<open>\<^verbatim>\<open>__kpanic\<close> of \<^verbatim>\<open>kernel/panic.c\<close>: the console at the moment the machine is halted.\<close>

definition kpanic_screen ::
  "ports \<Rightarrow> bmem \<Rightarrow> (u32 \<Rightarrow> u32 \<times> int) \<Rightarrow> u32 \<Rightarrow> u32 list \<Rightarrow> console \<Rightarrow> console kres option" where
  "kpanic_screen P m tk fmt ap S =
     then_put (Some (kbind (tty_framebuffer_set_screen_mode (the_tty S) (VGA_COLOR 4 15)) (\<lambda>t.
       Inr (upd_io vga_disable_cursor (upd_tty (\<lambda>_. t) S))))) (\<lambda>S.
     vga_vprintf P m tk fmt ap S)"

text \<open>\<^verbatim>\<open>memory_dump\<close>: the bytes from \<open>hi\<close> down to \<open>lo\<close>; the address wraps below 0.\<close>

definition dump_byte :: "ports \<Rightarrow> bmem \<Rightarrow> u32 \<Rightarrow> u32 \<Rightarrow> console \<Rightarrow> console kres" where
  "dump_byte P m lo a S =
     kbind (if a mod 8 = 0 \<or> a = lo then kbind (ft_puthexa P a False True S) (vga_puts P [58, 9]) else Inr S) (\<lambda>S.
     kbind (if m a < 0x10 then vga_puts P [48] S else Inr S) (\<lambda>S.
     kbind (kbind (ft_puthexa P (ucast (m a)) False False S) (vga_puts P [32])) (\<lambda>S.
     if (a - 1) mod 8 = 0 then vga_puts P [10] S else Inr S)))"

partial_function (option) dump_from :: "ports \<Rightarrow> bmem \<Rightarrow> u32 \<Rightarrow> u32 \<Rightarrow> console \<Rightarrow> console kres option" where
  "dump_from P m lo a S =
     (if lo \<le> a then
        case dump_byte P m lo a S of Inl e \<Rightarrow> Some (Inl e) | Inr S \<Rightarrow> dump_from P m lo (a - 1) S
      else Some (if a mod 8 \<noteq> 0 then vga_puts P [10] S else Inr S))"

definition memory_dump :: "ports \<Rightarrow> bmem \<Rightarrow> u32 \<Rightarrow> u32 \<Rightarrow> console \<Rightarrow> console kres option" where
  "memory_dump P m addr_start addr_end S = dump_from P m addr_start addr_end S"

end
