(* ===== verification/Terminal_Spec.thy ===== *)
theory Terminal_Spec
  imports Terminal Libk_Spec
begin

text \<open>
  The terminal as a user sees it: a grid of 25 lines of 80 cells and a cursor, on which a character is
  written, a line is started, and the grid moves up by a line when the cursor leaves it at the bottom.
  The ring of lines, its 8-bit line numbers and the copying to the VGA memory implement that screen.
\<close>

section \<open>The abstract screen\<close>

type_synonym screen = "vga_entry list list \<times> nat \<times> nat"

definition next_cell :: "u8 \<Rightarrow> screen \<Rightarrow> screen" where
  "next_cell m = (\<lambda>(g, x, y).
     let (x, y) = (if x = 80 then (0, y + 1) else (x, y)) in
     if y = 25 then (tl g @ [replicate 80 (blank_entry m)], x, 24) else (g, x, y))"

definition write_cell :: "u8 \<Rightarrow> u8 \<Rightarrow> screen \<Rightarrow> screen" where
  "write_cell m c = (\<lambda>(g, x, y). next_cell m (g[y := (g ! y)[x := \<lparr>character = c, e_mode = m\<rparr>]], x + 1, y))"

definition screen_put :: "u8 \<Rightarrow> u8 \<Rightarrow> screen \<Rightarrow> screen" where
  "screen_put m c = (\<lambda>(g, x, y).
     if c = 10 then next_cell m (g, 0, y + 1)
     else if c = 13 then (g, 0, y)
     else if c = 9 then (write_cell m 32 ^^ (4 - x mod 4)) (g, x, y)
     else write_cell m c (g, x, y))"

definition screen_text :: "u8 \<Rightarrow> u8 list \<Rightarrow> screen \<Rightarrow> screen" where
  "screen_text m cs = fold (screen_put m) cs"

section \<open>The ring shows a screen\<close>

definition fb_line :: "vga_entry list \<Rightarrow> nat \<Rightarrow> vga_entry list" where
  "fb_line fb r = take 80 (drop (80 * r) fb)"

definition grid :: "tty \<Rightarrow> vga_entry list list" where
  "grid t = map (\<lambda>y. fb_line (the (framebuffer t)) (unat (top_line_index t + of_nat y))) [0..<25]"

definition shown :: "tty \<Rightarrow> screen" where
  "shown t = (grid t, unat (cur_x (cursor t)), unat (cur_y (cursor t)))"

definition fb_ok :: "tty \<Rightarrow> bool" where
  "fb_ok t \<longleftrightarrow> (\<exists>fb. framebuffer t = Some fb \<and> length fb = 20480)"

definition tty_ok :: "tty \<Rightarrow> bool" where
  "tty_ok t \<longleftrightarrow> (framebuffer t \<noteq> None \<longrightarrow> fb_ok t) \<and> cur_x (cursor t) < 80 \<and> cur_y (cursor t) < 25 \<and>
     length (cli t) = 256"

definition console_ok :: "console \<Rightarrow> bool" where
  "console_ok S \<longleftrightarrow> length (ttys S) = 12 \<and> current_tty S < 12 \<and> length (vga_buffer S) = 2000 \<and>
     (\<forall>t\<in>set (ttys S). tty_ok t)"

text \<open>The current terminal is loaded and does not show its history.\<close>

definition live :: "console \<Rightarrow> bool" where
  "live S \<longleftrightarrow> console_ok S \<and> framebuffer (the_tty S) \<noteq> None \<and> \<not> status (history (the_tty S))"

text \<open>What printing leaves as it is: the other terminals, the VGA memory until it is refreshed, and of the
  current terminal all but its buffer, its cursor and its place in the ring.\<close>

definition rest_same :: "console \<Rightarrow> console \<Rightarrow> bool" where
  "rest_same S S' \<longleftrightarrow> current_tty S' = current_tty S \<and> vga_buffer S' = vga_buffer S \<and>
     (\<forall>i. i \<noteq> current_tty S \<longrightarrow> ttys S' ! i = ttys S ! i) \<and>
     mode (the_tty S') = mode (the_tty S) \<and> cli (the_tty S') = cli (the_tty S) \<and>
     framebuffer_size (the_tty S') = framebuffer_size (the_tty S)"

definition put_ok :: "console \<Rightarrow> console kres \<Rightarrow> screen \<Rightarrow> bool" where
  "put_ok S r sc \<longleftrightarrow> (\<exists>S'. r = Inr S' \<and> live S' \<and> rest_same S S' \<and> shown (the_tty S') = sc)"

lemma put_ok_bind:
  assumes "put_ok S r sc"
    and "\<And>S'. live S' \<Longrightarrow> rest_same S S' \<Longrightarrow> shown (the_tty S') = sc \<Longrightarrow> put_ok S' (f S') sc'"
  shows "put_ok S (kbind r f) sc'"
proof -
  obtain S' where S': "r = Inr S'" "live S'" "rest_same S S'" "shown (the_tty S') = sc"
    using assms(1) by (auto simp: put_ok_def)
  from assms(2) [OF S'(2-4)] obtain S'' where "f S' = Inr S''" "live S''" "rest_same S' S''" "shown (the_tty S'') = sc'"
    by (auto simp: put_ok_def)
  then show ?thesis using S' by (auto simp: put_ok_def rest_same_def)
qed

section \<open>Lines of the ring\<close>

lemma fb_line_length [simp]: "length fb = 20480 \<Longrightarrow> r < 256 \<Longrightarrow> length (fb_line fb r) = 80"
  by (simp add: fb_line_def)

lemma fb_line_nth: "length fb = 20480 \<Longrightarrow> r < 256 \<Longrightarrow> x < 80 \<Longrightarrow> fb_line fb r ! x = fb ! (80 * r + x)"
  by (simp add: fb_line_def)

lemma u8_bound [simp]: "unat (v :: u8) < 256"
  using unsigned_less [of v] by simp

lemma cell_inj:
  assumes "x < 80" "x' < (80 :: nat)"
  shows "80 * r + x = 80 * r' + x' \<longleftrightarrow> r = r' \<and> x = x'"
proof
  assume e: "80 * r + x = 80 * r' + x'"
  have "(80 * r + x) div 80 = r" "(80 * r' + x') div 80 = r'" using assms by simp_all
  then have "r = r'" using e by metis
  then show "r = r' \<and> x = x'" using e by simp
qed simp

lemma fb_line_update:
  assumes "length fb = 20480" "r < 256" "r' < 256" "x < 80"
  shows "fb_line (fb[80 * r + x := e]) r' = (if r' = r then (fb_line fb r)[x := e] else fb_line fb r')"
  by (rule nth_equalityI)
     (use assms in \<open>auto simp: fb_line_nth nth_list_update cell_inj\<close>)

definition cleared :: "nat \<Rightarrow> nat \<Rightarrow> vga_entry \<Rightarrow> vga_entry list \<Rightarrow> vga_entry list" where
  "cleared off n e fb = take off fb @ replicate n e @ drop (off + n) fb"

lemma clear_cells_spec:
  "framebuffer t = Some fb \<Longrightarrow> off + n \<le> length fb \<Longrightarrow>
   clear_cells off n t = Inr (t\<lparr>framebuffer := Some (cleared off n (blank_entry (mode t)) fb)\<rparr>)"
proof (induction n arbitrary: off t fb)
  case 0
  then show ?case by (simp add: cleared_def)
next
  case (Suc n)
  let ?e = "blank_entry (mode t)"
  have "cleared (off + 1) n ?e (fb[off := ?e]) = cleared off (Suc n) ?e fb"
    using Suc.prems(2) by (simp add: cleared_def take_Suc_conv_app_nth)
  then show ?case using Suc.prems by (simp add: fb_store_def Suc.IH)
qed

lemma cleared_nth:
  "off + n \<le> length fb \<Longrightarrow> i < length fb \<Longrightarrow>
   cleared off n e fb ! i = (if off \<le> i \<and> i < off + n then e else fb ! i)"
  by (auto simp: cleared_def nth_append)

lemma cleared_length [simp]: "off + n \<le> length fb \<Longrightarrow> length (cleared off n e fb) = length fb"
  by (simp add: cleared_def)

lemma fb_line_cleared:
  assumes "length fb = 20480" "r < 256" "r' < 256"
  shows "fb_line (cleared (80 * r) 80 e fb) r' = (if r' = r then replicate 80 e else fb_line fb r')"
  by (rule nth_equalityI) (use assms in \<open>auto simp: fb_line_nth cleared_nth\<close>)

lemma ring_inj:
  assumes "y < 25" "y' < 25"
  shows "unat (a + of_nat y) = unat (a + (of_nat y' :: u8)) \<longleftrightarrow> y = y'"
proof -
  have "unat (a + of_nat y) = unat (a + (of_nat y' :: u8)) \<longleftrightarrow> of_nat y = (of_nat y' :: u8)"
    by (simp flip: word_unat_eq_iff)
  also have "\<dots> \<longleftrightarrow> unat (of_nat y :: u8) = unat (of_nat y' :: u8)" by (rule word_unat_eq_iff)
  finally show ?thesis using assms by (simp add: unat_of_nat_lt)
qed

lemma grid_length [simp]: "length (grid t) = 25"
  by (simp add: grid_def)

lemma grid_nth: "y < 25 \<Longrightarrow> grid t ! y = fb_line (the (framebuffer t)) (unat (top_line_index t + of_nat y))"
  by (simp add: grid_def)

section \<open>Scrolling and the cursor\<close>

lemma grid_store:
  assumes "framebuffer t = Some fb" "length fb = 20480" "x < 80" "y < 25"
  shows "grid (t\<lparr>framebuffer := Some (fb[80 * unat (top_line_index t + of_nat y) + x := e])\<rparr>) =
    (grid t)[y := (grid t ! y)[x := e]]"
  by (rule nth_equalityI)
     (use assms in \<open>auto simp: grid_nth fb_line_update nth_list_update ring_inj\<close>)

lemma tty_scroll_spec:
  assumes "framebuffer t = Some fb" "length fb = 20480"
  obtains t' where "tty_scroll t = Inr t'" "fb_ok t'" "grid t' = tl (grid t) @ [replicate 80 (blank_entry (mode t))]"
    "cursor t' = cursor t" "mode t' = mode t" "cli t' = cli t" "framebuffer_size t' = framebuffer_size t"
    "status (history t') = status (history t)"
proof -
  define top where "top = top_line_index t + 1"
  let ?r = "unat (top + 24)"
  let ?h = "if top = 0 then (history t)\<lparr>stop_scroll := False\<rparr> else history t"
  let ?fb = "cleared (80 * ?r) 80 (blank_entry (mode t)) fb"
  let ?t = "t\<lparr>top_line_index := top, history := ?h, framebuffer := Some ?fb\<rparr>"
  have r: "?r < 256" by simp
  have room: "80 * ?r + 80 \<le> length fb" using r assms(2) by linarith
  have eq: "tty_scroll t = Inr ?t"
    using room assms(1) unfolding tty_scroll_def Let_def VGA_WIDTH_def VGA_HEIGHT_def top_def [symmetric]
    by (cases "top = 0") (simp_all add: clear_cells_spec mult.commute top_def [symmetric])
  have "grid ?t ! y = (tl (grid t) @ [replicate 80 (blank_entry (mode t))]) ! y" if "y < 25" for y
  proof -
    have inj: "unat (top + of_nat y) = ?r \<longleftrightarrow> y = 24" using ring_inj [of y 24 top] that by simp
    have nxt: "top_line_index t + of_nat (Suc y) = top + of_nat y" by (simp add: top_def)
    show ?thesis
    proof (cases "y = 24")
      case True
      then show ?thesis using assms r by (simp add: grid_nth fb_line_cleared nth_append)
    next
      case False
      then have "(tl (grid t) @ [replicate 80 (blank_entry (mode t))]) ! y = grid t ! Suc y"
        using that by (simp add: nth_append nth_tl)
      also have "\<dots> = fb_line fb (unat (top + of_nat y))"
        using False that assms(1) nxt by (simp add: grid_nth del: of_nat_Suc)
      finally show ?thesis using False that assms r inj by (simp add: grid_nth fb_line_cleared)
    qed
  qed
  then have g: "grid ?t = tl (grid t) @ [replicate 80 (blank_entry (mode t))]"
    by (intro nth_equalityI) auto
  show thesis
    by (rule that [OF eq _ g]) (use assms room in \<open>auto simp: fb_ok_def\<close>)
qed

section \<open>The current terminal of a console\<close>

lemma the_tty_upd [simp]:
  "current_tty S < length (ttys S) \<Longrightarrow> the_tty (upd_tty f S) = f (the_tty S)"
  by (simp add: the_tty_def upd_tty_def upd_nth_def)

lemma the_tty_io [simp]: "the_tty (upd_io f S) = the_tty S"
  by (simp add: the_tty_def upd_io_def)

lemma fields_upd [simp]:
  "current_tty (upd_tty f S) = current_tty S" "vga_buffer (upd_tty f S) = vga_buffer S"
  "io (upd_tty f S) = io S" "length (ttys (upd_tty f S)) = length (ttys S)"
  "ttys (upd_io g S) = ttys S" "current_tty (upd_io g S) = current_tty S" "vga_buffer (upd_io g S) = vga_buffer S"
  by (simp_all add: upd_tty_def upd_nth_def upd_io_def)

lemma other_upd [simp]: "i \<noteq> current_tty S \<Longrightarrow> ttys (upd_tty f S) ! i = ttys S ! i"
  by (simp add: upd_tty_def upd_nth_def)

lemma set_upd_tty: "t \<in> set (ttys (upd_tty f S)) \<Longrightarrow> t \<in> set (ttys S) \<or> t = f (the_tty S)"
  unfolding upd_tty_def upd_nth_def the_tty_def using set_update_subset_insert by fastforce

lemma console_ok_upd:
  "console_ok S \<Longrightarrow> tty_ok (f (the_tty S)) \<Longrightarrow> console_ok (upd_tty f S)"
  by (auto simp: console_ok_def dest!: set_upd_tty)

lemma console_ok_io [simp]: "console_ok (upd_io f S) = console_ok S"
  by (simp add: console_ok_def)

lemma console_ok_the: "console_ok S \<Longrightarrow> tty_ok (the_tty S)"
  by (simp add: console_ok_def the_tty_def)

text \<open>Between the steps of a character the cursor may be one past the last column or the last line: a
  console whose current terminal has been replaced by \<open>t\<close>.\<close>

definition with_tty :: "console \<Rightarrow> tty \<Rightarrow> console" where
  "with_tty S t = upd_tty (\<lambda>_. t) S"

lemma upd_upd: "upd_tty f (upd_tty g S) = upd_tty (\<lambda>t. f (g t)) S" if "current_tty S < length (ttys S)"
  using that by (simp add: upd_tty_def upd_nth_def)

lemma wrap_columns_eq: "x \<le> 80 \<Longrightarrow> wrap_columns x y = (if x = 80 then (0, y + 1) else (x, y))"
  by (subst wrap_columns.simps) (auto simp: wrap_columns.simps [of 0])

lemma cursor_upd:
  "c\<lparr>cur_x := x, cur_y := y\<rparr> = \<lparr>cur_x = x, cur_y = y\<rparr>" "c\<lparr>cur_y := y, cur_x := x\<rparr> = \<lparr>cur_x = x, cur_y = y\<rparr>"
  by (cases c; simp)+

text \<open>The cursor is put back into the grid; \<open>m\<close> is the mode of the cells of a new line.\<close>

lemma fix_cursor_spec:
  assumes ok: "current_tty S < length (ttys S)" and fb: "fb_ok (the_tty S)"
    and x: "cursor_x S \<le> 80" and y: "cursor_y S \<le> (if cursor_x S = 80 then 24 else 25)"
  obtains t' where "fix_cursor S = Inr (upd_tty (\<lambda>_. t') S)" "fb_ok t'"
    "shown t' = next_cell (mode (the_tty S)) (shown (the_tty S))"
    "cur_x (cursor t') < 80" "cur_y (cursor t') < 25"
    "mode t' = mode (the_tty S)" "cli t' = cli (the_tty S)"
    "framebuffer_size t' = framebuffer_size (the_tty S)" "status (history t') = status (history (the_tty S))"
proof -
  let ?t = "the_tty S"
  define x' where "x' = (if cursor_x S = 80 then 0 else cursor_x S)"
  define y' where "y' = (if cursor_x S = 80 then cursor_y S + 1 else cursor_y S)"
  define t1 where "t1 = ?t\<lparr>cursor := \<lparr>cur_x = x', cur_y = y'\<rparr>\<rparr>"
  have x'lt: "x' < 80" using x by (auto simp: x'_def)
  have y'le: "y' \<le> 25" using y by (auto simp: y'_def word_le_nat_alt unat_add_nowrap split: if_splits)
  have y'nat: "unat y' = (if cursor_x S = 80 then unat (cursor_y S) + 1 else unat (cursor_y S))"
    using y by (auto simp: y'_def word_le_nat_alt unat_add_nowrap split: if_splits)
  have x'nat: "unat x' = (if unat (cursor_x S) = 80 then 0 else unat (cursor_x S))"
    by (auto simp: x'_def word_unat_eq_iff)
  have start: "fix_cursor S = scroll_rows y' (upd_tty (\<lambda>_. t1) S)"
    using ok x by (auto simp: cursor_upd fix_cursor_def wrap_columns_eq set_x_def set_y_def upd_upd x'_def y'_def t1_def Let_def
        upd_tty_def upd_nth_def the_tty_def)
  have gs: "grid t1 = grid ?t" by (simp add: grid_def t1_def)
  have f1: "fb_ok t1" using fb by (simp add: fb_ok_def t1_def)
  show thesis
  proof (cases "y' = 25")
    case False
    then have lt: "y' < 25" using y'le by simp
    show thesis
    proof (rule that)
      show "fix_cursor S = Inr (upd_tty (\<lambda>_. t1) S)"
        using lt [unfolded not_le [symmetric]] by (simp add: start scroll_rows.simps [of y'])
      show "shown t1 = next_cell (mode ?t) (shown ?t)"
        using lt gs x'nat y'nat by (auto simp: shown_def next_cell_def t1_def cursor_x_def cursor_y_def word_less_nat_alt word_unat_eq_iff split: if_splits)
    qed (use lt x'lt f1 in \<open>simp_all add: t1_def\<close>)
  next
    case True
    from f1 obtain fb where fb: "framebuffer t1 = Some fb" "length fb = 20480" by (auto simp: fb_ok_def)
    from tty_scroll_spec [OF fb] obtain t2 where t2: "tty_scroll t1 = Inr t2" "fb_ok t2"
        "grid t2 = tl (grid t1) @ [replicate 80 (blank_entry (mode t1))]" "cursor t2 = cursor t1" "mode t2 = mode t1"
        "cli t2 = cli t1" "framebuffer_size t2 = framebuffer_size t1" "status (history t2) = status (history t1)"
      by blast
    define t3 where "t3 = t2\<lparr>cursor := (cursor t2)\<lparr>cur_y := 24\<rparr>\<rparr>"
    have "scroll_rows 25 (upd_tty (\<lambda>_. t1) S) = scroll_rows 24 (upd_tty (\<lambda>_. t3) S)"
      using ok t2(1) by (subst scroll_rows.simps) (simp add: tty_framebuffer_scroll_down_def set_y_def upd_upd t3_def)
    then have e: "fix_cursor S = Inr (upd_tty (\<lambda>_. t3) S)"
      using True by (simp add: start scroll_rows.simps [of 24])
    show thesis
    proof (rule that [OF e])
      have g: "grid t3 = tl (grid ?t) @ [replicate 80 (blank_entry (mode ?t))]"
        using t2(3) gs by (simp add: grid_def t3_def t1_def)
      have c: "cur_x (cursor t3) = x'" "cur_y (cursor t3) = 24" using t2(4) by (simp_all add: t3_def t1_def)
      have y: "(if unat (cursor_x S) = 80 then unat (cursor_y S) + 1 else unat (cursor_y S)) = 25"
        using True y'nat by (simp add: word_unat_eq_iff)
      show "shown t3 = next_cell (mode ?t) (shown ?t)"
        using y x'nat unfolding shown_def next_cell_def g c cursor_x_def cursor_y_def by (simp split: if_splits)
    qed (use t2 x'lt in \<open>simp_all add: t3_def t1_def fb_ok_def\<close>)
  qed
qed

section \<open>Characters\<close>

lemma live_facts:
  assumes "live S"
  shows "console_ok S" "current_tty S < length (ttys S)" "tty_ok (the_tty S)" "fb_ok (the_tty S)"
    "\<not> status (history (the_tty S))" "framebuffer (the_tty S) \<noteq> None"
    "cur_x (cursor (the_tty S)) < 80" "cur_y (cursor (the_tty S)) < 25"
proof -
  show "console_ok S" "\<not> status (history (the_tty S))" "framebuffer (the_tty S) \<noteq> None"
    using assms by (auto simp: live_def)
  then show "current_tty S < length (ttys S)" and t: "tty_ok (the_tty S)"
    by (auto simp: console_ok_def intro: console_ok_the)
  then show "fb_ok (the_tty S)" "cur_x (cursor (the_tty S)) < 80" "cur_y (cursor (the_tty S)) < 25"
    using assms by (auto simp: tty_ok_def live_def)
qed

text \<open>A step that replaces the current terminal, followed by the correction of the cursor.\<close>

lemma put_then_fix:
  assumes S: "live S" and t: "fb_ok t" "cur_x (cursor t) \<le> 80"
      "cur_y (cursor t) \<le> (if cur_x (cursor t) = 80 then 24 else 25)"
    and same: "mode t = mode (the_tty S)" "cli t = cli (the_tty S)"
      "framebuffer_size t = framebuffer_size (the_tty S)" "history t = history (the_tty S)"
  shows "put_ok S (fix_cursor (upd_tty (\<lambda>_. t) (upd_io f S))) (next_cell (mode (the_tty S)) (shown t))"
proof -
  note L = live_facts [OF S]
  let ?S = "upd_tty (\<lambda>_. t) (upd_io f S)"
  have the: "the_tty ?S = t" and cur: "current_tty ?S < length (ttys ?S)" using L(2) by simp_all
  obtain t' where t': "fix_cursor ?S = Inr (upd_tty (\<lambda>_. t') ?S)" "fb_ok t'"
      "shown t' = next_cell (mode t) (shown t)" "cur_x (cursor t') < 80" "cur_y (cursor t') < 25"
      "mode t' = mode t" "cli t' = cli t" "framebuffer_size t' = framebuffer_size t" "status (history t') = status (history t)"
    using fix_cursor_spec [OF cur, unfolded the cursor_x_def cursor_y_def, OF t] by blast
  let ?S' = "upd_tty (\<lambda>_. t') ?S"
  have the': "the_tty ?S' = t'" using L(2) by simp
  have "tty_ok t'" using t'(2,4,5,7) same(2) L(3) by (simp add: tty_ok_def)
  then have "console_ok ?S'" using L(1,2) by (simp add: upd_upd console_ok_upd)
  then have "live ?S'" using the' t'(2,9) same(4) L(5) by (auto simp: live_def fb_ok_def)
  moreover have "rest_same S ?S'" using the' t' same L(2) by (simp add: rest_same_def)
  ultimately show ?thesis using t'(1,3) the' same(1) by (auto simp: put_ok_def)
qed

lemma write_then_fix:
  assumes S: "live S" and c: "c \<noteq> 10" "c \<noteq> 13"
  shows "put_ok S (kbind (put_plain P c (upd_io f S)) fix_cursor) (write_cell (mode (the_tty S)) c (shown (the_tty S)))"
proof -
  note L = live_facts [OF S]
  let ?t = "the_tty S" and ?x = "unat (cur_x (cursor (the_tty S)))" and ?y = "unat (cur_y (cursor (the_tty S)))"
  let ?e = "\<lparr>character = c, e_mode = mode ?t\<rparr>"
  from L(4) obtain fb where fb: "framebuffer ?t = Some fb" "length fb = 20480" by (auto simp: fb_ok_def)
  let ?r = "unat (top_line_index ?t + cur_y (cursor ?t))"
  have xy: "?x < 80" "?y < 25" using L(7,8) by (auto simp: word_less_nat_alt)
  have yw: "of_nat ?y = cur_y (cursor ?t)" by simp
  have r: "?r < 256" by simp
  have off: "?r * 80 + ?x < length fb" using xy r fb(2) by linarith
  define t' where "t' = ?t\<lparr>framebuffer := Some (fb[80 * ?r + ?x := ?e]), cursor := (cursor ?t)\<lparr>cur_x := cur_x (cursor ?t) + 1\<rparr>\<rparr>"
  have plain: "put_plain P c (upd_io f S) = Inr (upd_tty (\<lambda>_. t') (upd_io f S))"
    using c L(2,5,6) fb off
    by (simp add: put_plain_def tty_framebuffer_write_def Let_def the_tty_def [symmetric] fb_store_def VGA_WIDTH_def
        upd_tty_def [symmetric] set_x_def cursor_x_def upd_upd t'_def mult.commute)
       (simp add: the_tty_def upd_tty_def upd_nth_def upd_io_def)
  have x1: "unat (cur_x (cursor ?t) + 1) = ?x + 1" using xy by (simp add: unat_add_nowrap)
  have "grid t' = (grid ?t)[?y := (grid ?t ! ?y)[?x := ?e]]"
    using grid_store [OF fb xy, of ?e] unfolding yw by (simp add: grid_def t'_def)
  then have v: "write_cell (mode ?t) c (shown ?t) = next_cell (mode ?t) (shown t')"
    using x1 by (simp add: write_cell_def shown_def t'_def)
  have "put_ok S (fix_cursor (upd_tty (\<lambda>_. t') (upd_io f S))) (next_cell (mode ?t) (shown t'))"
    by (rule put_then_fix [OF S])
       (use xy x1 fb in \<open>auto simp: t'_def fb_ok_def word_le_nat_alt\<close>)
  then show ?thesis using plain v by simp
qed

lemma write_cell_column:
  "fst (snd (write_cell m c (g, x, y))) = (if x + 1 = 80 then 0 else x + 1)"
  by (simp add: write_cell_def next_cell_def)

lemma shown_column: "fst (snd (shown t)) = unat (cur_x (cursor t))"
  by (simp add: shown_def)

lemma mod4: "unat (x mod 4 :: u8) = unat x mod 4"
  by (simp add: unat_mod)

text \<open>The tabulator stops after at most four spaces.\<close>

lemma put_tab_spec:
  assumes "live S" "4 - unat (cursor_x S) mod 4 \<le> n"
  shows "put_ok S (put_tab n P S)
    ((write_cell (mode (the_tty S)) 32 ^^ (4 - unat (cursor_x S) mod 4)) (shown (the_tty S)))"
  using assms
proof (induction n arbitrary: S)
  case 0
  then have "4 \<le> unat (cursor_x S) mod 4" by simp
  then show ?case using mod_less_divisor [of 4 "unat (cursor_x S)"] by linarith
next
  case (Suc n)
  note L = live_facts [OF Suc.prems(1)]
  let ?x = "unat (cursor_x S)" and ?w = "write_cell (mode (the_tty S)) 32"
  have x: "?x < 80" using L(7) by (simp add: cursor_x_def word_less_nat_alt)
  have sp: "put_ok S (put_space P S) (?w (shown (the_tty S)))"
    unfolding put_space_def by (rule write_then_fix [OF Suc.prems(1)]) simp_all
  show ?case
    unfolding put_tab.simps
  proof (rule put_ok_bind [OF sp])
    fix S' assume S': "live S'" "rest_same S S'" "shown (the_tty S') = ?w (shown (the_tty S))"
    have m: "mode (the_tty S') = mode (the_tty S)" using S'(2) by (simp add: rest_same_def)
    have "unat (cursor_x S') = (if ?x + 1 = 80 then 0 else ?x + 1)"
      using arg_cong [OF S'(3), of "\<lambda>v. fst (snd v)"] unfolding shown_column
      by (simp add: shown_def write_cell_column cursor_x_def)
    then have x': "unat (cursor_x S') mod 4 = (?x + 1) mod 4"
      by (cases "?x + 1 = 80") (simp_all del: add_2_eq_Suc')
    show "put_ok S' (if cursor_x S' mod 4 \<noteq> 0 then put_tab n P S' else Inr S') ((?w ^^ (4 - ?x mod 4)) (shown (the_tty S)))"
    proof (cases "cursor_x S' mod 4 = 0")
      case True
      then have "(?x + 1) mod 4 = 0" using x' mod4 [of "cursor_x S'"] by simp
      then have "Suc (?x mod 4) = 4" by (simp add: mod_Suc split: if_splits)
      then have "4 - ?x mod 4 = 1" by linarith
      then show ?thesis using True S' by (simp add: put_ok_def rest_same_def)
    next
      case False
      then have "(?x + 1) mod 4 \<noteq> 0" using x' mod4 [of "cursor_x S'"] by (metis unat_eq_zero)
      then have "unat (cursor_x S') mod 4 = Suc (?x mod 4)" using x' by (simp add: mod_Suc split: if_splits)
      moreover have "unat (cursor_x S') mod 4 < 4" by simp
      ultimately have k: "4 - ?x mod 4 = Suc (4 - unat (cursor_x S') mod 4)" by linarith
      have "put_ok S' (put_tab n P S') ((?w ^^ (4 - unat (cursor_x S') mod 4)) (shown (the_tty S')))"
        using Suc.IH [OF S'(1)] Suc.prems(2) k m by simp
      then show ?thesis using False S'(3) by (simp add: k funpow_Suc_right del: funpow.simps)
    qed
  qed
qed

lemma fix_cursor_idle:
  assumes "live S" shows "put_ok S (fix_cursor S) (shown (the_tty S))"
proof -
  note L = live_facts [OF assms]
  have "upd_tty (\<lambda>_. the_tty S) (upd_io (\<lambda>t. t) S) = S" by (simp add: upd_tty_def upd_nth_def upd_io_def the_tty_def)
  moreover have "next_cell (mode (the_tty S)) (shown (the_tty S)) = shown (the_tty S)"
    using L(7,8) by (auto simp: next_cell_def shown_def word_less_nat_alt)
  ultimately show ?thesis
    using put_then_fix [OF assms, of "the_tty S" "\<lambda>t. t"] L by (auto simp: less_imp_le)
qed

lemma ft_putchar_spec:
  assumes S: "live S"
  shows "put_ok S (ft_putchar P c S) (screen_put (mode (the_tty S)) c (shown (the_tty S)))"
proof -
  note L = live_facts [OF S]
  let ?t = "the_tty S"
  let ?io = "upd_io (outb 0x3F8 c) S"
  have io: "live ?io" "the_tty ?io = ?t" "cursor_x ?io = cursor_x S" using S by (simp_all add: live_def cursor_x_def)
  consider "c = 10" | "c = 13" | "c = 9" | "c \<noteq> 10" "c \<noteq> 13" "c \<noteq> 9" by blast
  then show ?thesis
  proof cases
    case 1
    let ?t' = "?t\<lparr>cursor := \<lparr>cur_x = 0, cur_y = cur_y (cursor ?t) + 1\<rparr>\<rparr>"
    have y1: "unat (cur_y (cursor ?t) + 1) = unat (cur_y (cursor ?t)) + 1"
      using L(8) by (simp add: unat_add_nowrap word_less_nat_alt)
    have "ft_putchar P c S = fix_cursor (upd_tty (\<lambda>_. ?t') ?io)"
      using 1 L(2) by (simp add: ft_putchar_def put_plain_def set_x_def set_y_def cursor_y_def upd_upd)
        (simp add: upd_tty_def upd_nth_def the_tty_def upd_io_def cursor_upd)
    moreover have "screen_put (mode ?t) c (shown ?t) = next_cell (mode ?t) (shown ?t')"
      using 1 y1 by (simp add: screen_put_def shown_def grid_def)
    ultimately show ?thesis
      using put_then_fix [OF S, of ?t' "outb 0x3F8 c"] L(4,8) y1
      by (simp add: fb_ok_def word_le_nat_alt word_less_nat_alt)
  next
    case 2
    let ?t' = "?t\<lparr>cursor := (cursor ?t)\<lparr>cur_x := 0\<rparr>\<rparr>"
    have "ft_putchar P c S = fix_cursor (upd_tty (\<lambda>_. ?t') ?io)"
      using 2 L(2) by (simp add: ft_putchar_def put_plain_def set_x_def)
        (simp add: upd_tty_def upd_nth_def the_tty_def upd_io_def)
    moreover have "screen_put (mode ?t) c (shown ?t) = next_cell (mode ?t) (shown ?t')"
      using 2 L(8) by (auto simp: screen_put_def shown_def grid_def next_cell_def word_less_nat_alt)
    ultimately show ?thesis
      using put_then_fix [OF S, of ?t' "outb 0x3F8 c"] L(4,8) by (simp add: fb_ok_def less_imp_le word_le_nat_alt word_less_nat_alt)
  next
    case 3
    have "put_ok ?io (put_tab 4 P ?io) (screen_put (mode ?t) c (shown ?t))"
      using put_tab_spec [OF io(1), of 4 P] 3 io(2,3) by (simp add: screen_put_def shown_def cursor_x_def)
    then have "put_ok ?io (ft_putchar P c S) (screen_put (mode ?t) c (shown ?t))"
      using 3 unfolding ft_putchar_def
      by simp (erule put_ok_bind, metis fix_cursor_idle)
    then show ?thesis by (simp add: put_ok_def rest_same_def io(2))
  next
    case 4
    then show ?thesis
      using write_then_fix [OF S 4(1,2), of P "outb 0x3F8 c"] by (simp add: ft_putchar_def screen_put_def shown_def)
  qed
qed

end
