(* ===== verification/Printf_Spec.thy ===== *)
theory Printf_Spec
  imports Terminal_Spec
begin

text \<open>
  Formatted output: the text a format and its arguments stand for, and that \<^verbatim>\<open>vga_vprintf\<close> puts that text
  on the screen of the current terminal and copies the screen to the VGA memory.
\<close>

section \<open>Texts\<close>

fun digits :: "nat \<Rightarrow> u8 list" where
  "digits n = (if n < 10 then [of_nat n + 48] else digits (n div 10) @ [of_nat (n mod 10) + 48])"

declare digits.simps [simp del]

definition dec_text :: "int \<Rightarrow> u8 list" where
  "dec_text nb = (if nb < 0 then 45 # digits (nat (- nb)) else digits (nat nb))"

fun hex_digits :: "bool \<Rightarrow> nat \<Rightarrow> u8 list" where
  "hex_digits upper n =
     (if n < 16 then [hex_digit upper n] else hex_digits upper (n div 16) @ [hex_digit upper (n mod 16)])"

declare hex_digits.simps [simp del]

text \<open>The text of one conversion; \<open>str\<close> gives the strings that are known to be in memory.\<close>

definition conv_text :: "(u32 \<Rightarrow> u8 list option) \<Rightarrow> (u32 \<Rightarrow> u32 \<times> int) \<Rightarrow> u8 \<Rightarrow> u32 \<Rightarrow> u8 list option" where
  "conv_text str tk c a =
     (let string = (\<lambda>p. if p = 0 then Some (ascii ''(null)'') else str p) in
      if c = 115 then string a
      else if c = 105 \<or> c = 100 then Some (dec_text (sint a))
      else if c = 117 then Some (digits (unat a))
      else if c = 120 then Some (hex_digits False (unat a))
      else if c = 88 then Some (hex_digits True (unat a))
      else if c = 112 then Some (ascii ''0x'' @ hex_digits False (unat a))
      else if c = 99 then Some [ucast a]
      else if a = 0 then Some (ascii ''task<null>'')
      else map_option (\<lambda>name. ascii ''task<0x'' @ hex_digits False (unat a) @ ascii '',name='' @ [34] @ name @ [34] @
             ascii '',pid='' @ dec_text (snd (tk a)) @ [62]) (string (fst (tk a))))"

fun format :: "(u32 \<Rightarrow> u8 list option) \<Rightarrow> (u32 \<Rightarrow> u32 \<times> int) \<Rightarrow> u8 list \<Rightarrow> u32 list \<Rightarrow> u8 list option" where
  "format str tk [] ap = Some []"
| "format str tk [c] ap = (if c = 37 then None else Some [c])"
| "format str tk (c # d # cs) ap =
     (if c \<noteq> 37 then map_option (Cons c) (format str tk (d # cs) ap)
      else if is_conv d then
        (case ap of [] \<Rightarrow> None
         | a # ap \<Rightarrow> Option.bind (conv_text str tk d a) (\<lambda>out. map_option ((@) out) (format str tk cs ap)))
      else map_option ((@) (if d = 37 then [37] else [])) (format str tk cs ap))"

section \<open>The printing functions put a text\<close>

lemma put_all_append: "put_all P (xs @ ys) S = kbind (put_all P xs S) (put_all P ys)"
proof (induction xs arbitrary: S)
  case (Cons x xs)
  then show ?case by (cases "ft_putchar P x S") simp_all
qed simp

lemma put_all_one: "ft_putchar P c S = put_all P [c] S"
  by (cases "ft_putchar P c S") simp_all

lemma puthexa_text: "puthexa_digits P n upper S = put_all P (hex_digits upper n) S"
proof (induction n arbitrary: S rule: less_induct)
  case (less n)
  show ?case
  proof (cases "n < 16")
    case True
    then show ?thesis by (simp add: puthexa_digits.simps [of P n] hex_digits.simps [of upper n] put_all_one del: put_all.simps)
  next
    case False
    have "puthexa_digits P (n mod 16) upper = put_all P [hex_digit upper (n mod 16)]"
      by (rule ext) (simp add: puthexa_digits.simps [of P "n mod 16"] put_all_one del: put_all.simps)
    then show ?thesis
      using False less.IH [of "n div 16"]
      by (simp add: puthexa_digits.simps [of P n] hex_digits.simps [of upper n] put_all_append del: put_all.simps)
  qed
qed

lemma ft_puthexa_text:
  "ft_puthexa P a upper addr S = put_all P ((if addr then ascii ''0x'' else []) @ hex_digits upper (unat a)) S"
proof -
  have "puthexa_digits P n upper = put_all P (hex_digits upper n)" for n by (rule ext) (rule puthexa_text)
  then show ?thesis by (simp add: ft_puthexa_def put_all_append)
qed

lemma putnbr_digits: "n < 2147483648 \<Longrightarrow> ft_putnbr P (int n) S = put_all P (digits n) S"
proof (induction n arbitrary: S rule: less_induct)
  case (less n)
  have one: "ft_putnbr P (int d) S = put_all P [of_nat d + 48] S" if "d < 10" for d S
    using that by (simp add: ft_putnbr.simps [of P "int d"] put_all_one del: put_all.simps)
  show ?case
  proof (cases "n < 10")
    case True
    then show ?thesis by (simp add: one digits.simps [of n] del: put_all.simps)
  next
    case False
    have "ft_putnbr P (int n) S = kbind (ft_putnbr P (int (n div 10)) S) (ft_putnbr P (int (n mod 10)))"
      using False by (simp add: ft_putnbr.simps [of P "int n"] zdiv_int zmod_int)
    moreover have "ft_putnbr P (int (n mod 10)) = put_all P [of_nat (n mod 10) + 48]"
      by (rule ext) (rule one, simp)
    ultimately show ?thesis
      using False less by (simp add: digits.simps [of n] put_all_append del: put_all.simps of_nat_mod)
  qed
qed

lemma min_int_digits: "digits 21474 @ digits 83648 = digits 2147483648"
  by (simp add: digits.simps)

lemma ft_putnbr_text:
  assumes "-2147483648 \<le> nb" "nb < 2147483648"
  shows "ft_putnbr P nb S = put_all P (dec_text nb) S"
proof -
  have pos: "ft_putnbr P k S = put_all P (digits (nat k)) S" if "0 \<le> k" "k < 2147483648" for k S
    using putnbr_digits [of "nat k" P S] that by simp
  have neg: "ft_putnbr P k S = put_all P (45 # digits (nat (- k))) S" if "k < 0" "-2147483648 < k" for k S
  proof -
    have "ft_putnbr P (- k) = put_all P (digits (nat (- k)))" by (rule ext) (rule pos, use that in simp_all)
    then show ?thesis using that by (simp add: ft_putnbr.simps [of P k])
  qed
  show ?thesis
  proof (cases "nb = -2147483648")
    case True
    have "ft_putnbr P 83648 = put_all P (digits 83648)" by (rule ext) (use pos [of 83648] in simp)
    then have "ft_putnbr P nb S = put_all P ((45 # digits 21474) @ digits 83648) S"
      using True neg [of "-21474" S] by (simp only: put_all_append) (simp add: ft_putnbr.simps [of P "-2147483648"])
    then show ?thesis using True min_int_digits by (simp add: dec_text_def)
  next
    case False
    then show ?thesis using assms pos [of nb S] neg [of nb S] by (simp add: dec_text_def del: put_all.simps)
  qed
qed

lemma ft_putunsignednbr_text: "ft_putunsignednbr P nb S = put_all P (digits (unat nb)) S"
proof (cases "10 \<le> nb")
  case True
  have n: "10 \<le> unat nb" using True by (simp add: word_le_nat_alt)
  have "unat nb < 2147483648 * 10" using unat_32_bound [of nb] by linarith
  then have d: "unat nb div 10 < 2147483648" by (rule less_mult_imp_div_less)
  moreover have "unat nb mod 10 < 2147483648" using mod_less_divisor [of 10 "unat nb"] by linarith
  moreover have "(2 ^ 31 :: int) = 2147483648" by simp
  ultimately have b: "int (unat nb div 10) < 2 ^ 31" "int (unat nb mod 10) < 2 ^ 31" by linarith+
  have s: "sint (nb div 10) = int (unat nb div 10)" "sint (nb mod 10) = int (unat nb mod 10)"
    using signed_take_bit_int_eq_self [OF _ b(1)] signed_take_bit_int_eq_self [OF _ b(2)]
    by (simp_all add: sint_uint uint_nat unat_div unat_mod)
  have "ft_putnbr P (int (unat nb mod 10)) = put_all P [of_nat (unat nb mod 10) + 48]"
    by (rule ext) (subst putnbr_digits, simp_all add: digits.simps [of "unat nb mod 10"] del: of_nat_mod)
  moreover have "ft_putnbr P (int (unat nb div 10)) S = put_all P (digits (unat nb div 10)) S"
    by (rule putnbr_digits) (rule d)
  ultimately show ?thesis
    using True n by (simp add: ft_putunsignednbr_def s digits.simps [of "unat nb"] put_all_append del: put_all.simps)
next
  case False
  then have "unat nb < 10" by (simp add: word_le_nat_alt)
  moreover have "(ucast nb :: u8) = of_nat (unat nb)" by simp
  ultimately show ?thesis using False
    by (simp add: ft_putunsignednbr_def digits.simps [of "unat nb"] put_all_one del: put_all.simps)
qed

lemma cstr_Cons:
  assumes "cstr m p (c # cs)"
  shows "m p = c" "c \<noteq> 0" "cstr m (p + 1) cs"
proof -
  have 0: "i \<le> Suc (length cs) \<Longrightarrow> m (p + of_nat i) = (if i < Suc (length cs) then (c # cs) ! i else 0)" for i
    using assms by (simp add: cstr_def)
  from 0 [of 0] show "m p = c" by simp
  show "c \<noteq> 0" using assms by (auto simp: cstr_def)
  have "m (p + 1 + of_nat i) = (if i < length cs then cs ! i else 0)" if "i \<le> length cs" for i
    using 0 [of "Suc i"] that by (simp add: add.assoc)
  moreover have "unat (p + 1) = unat p + 1" using assms by (simp add: cstr_def unat_add_nowrap)
  ultimately show "cstr m (p + 1) cs" using assms by (simp add: cstr_def)
qed

lemma putstr_from_text: "cstr m p xs \<Longrightarrow> putstr_from P m p S = Some (put_all P xs S)"
proof (induction xs arbitrary: p S)
  case Nil
  then show ?case by (simp add: putstr_from.simps [of P m p] cstr_def)
next
  case (Cons x xs)
  note c = cstr_Cons [OF Cons.prems]
  then show ?case
    using Cons.IH [OF c(3)] by (simp add: putstr_from.simps [of P m p] split: sum.split)
qed

definition strings_in :: "bmem \<Rightarrow> (u32 \<Rightarrow> u8 list option) \<Rightarrow> bool" where
  "strings_in m str \<longleftrightarrow> (\<forall>p xs. str p = Some xs \<longrightarrow> cstr m p xs)"

lemma ft_putstr_text:
  assumes "strings_in m str" "(if p = 0 then Some (ascii ''(null)'') else str p) = Some xs"
  shows "ft_putstr P m p S = Some (put_all P xs S)"
  using assms by (auto simp: ft_putstr_def strings_in_def putstr_from_text split: if_splits)

lemma then_put_all:
  "then_put (Some (put_all P xs S)) (\<lambda>S. Some (put_all P ys S)) = Some (put_all P (xs @ ys) S)"
  by (simp add: then_put_def put_all_append kbind_def split: sum.split)

lemma put_task_text:
  assumes "strings_in m str" "\<And>a. - 2147483648 \<le> snd (tk a) \<and> snd (tk a) < 2147483648"
    and "conv_text str tk 116 a = Some out"
  shows "put_task P m tk a S = Some (put_all P out S)"
proof (cases "a = 0")
  case True
  then show ?thesis
    using assms(3) by (simp add: put_task_def conv_text_def put_all_one then_put_all ascii_def del: put_all.simps)
next
  case False
  obtain name where nm: "(if fst (tk a) = 0 then Some (ascii ''(null)'') else str (fst (tk a))) = Some name"
      and out: "out = ascii ''task<0x'' @ hex_digits False (unat a) @ ascii '',name='' @ [34] @ name @ [34] @
             ascii '',pid='' @ dec_text (snd (tk a)) @ [62]"
    using assms(3) False by (auto simp: conv_text_def)
  have "ft_putstr P m (fst (tk a)) S = Some (put_all P name S)" for S by (rule ft_putstr_text [OF assms(1) nm])
  then show ?thesis
    using False assms(2) unfolding put_task_def
    by (simp add: ft_puthexa_text ft_putnbr_text put_all_one then_put_all ascii_def out del: put_all.simps)
qed

lemma is_conv_iff: "is_conv c \<longleftrightarrow> c \<in> {115, 105, 100, 117, 120, 88, 112, 99, 116}"
  by (auto simp: is_conv_def ascii_def)

lemma sint32_range: "- 2147483648 \<le> sint (a :: u32)" "sint (a :: u32) < 2147483648"
  using sint_ge [of a] sint_lt [of a] by simp_all

lemma put_conv_text:
  assumes "strings_in m str" "\<And>a. - 2147483648 \<le> snd (tk a) \<and> snd (tk a) < 2147483648"
    and "is_conv c" "conv_text str tk c a = Some out"
  shows "put_conv P m tk c a S = Some (put_all P out S)"
proof (cases "c = 116")
  case True
  then show ?thesis using put_task_text [OF assms(1,2), where a = a and out = out] assms(4) by (simp add: put_conv_def)
next
  case False
  then show ?thesis
    using assms(3,4) ft_putstr_text [OF assms(1), where p = a and xs = out]
    by (auto simp: put_conv_def conv_text_def is_conv_iff Let_def ft_putnbr_text sint32_range ft_putunsignednbr_text
        ft_puthexa_text put_all_one simp del: put_all.simps)
qed

lemma put_all_then:
  "(case put_all P xs S of Inl e \<Rightarrow> Some (Inl e) | Inr S \<Rightarrow> Some (put_all P ys S)) = Some (put_all P (xs @ ys) S)"
  by (simp add: put_all_append kbind_def split: sum.split)

lemma put_char_then:
  "(case ft_putchar P c S of Inl e \<Rightarrow> Some (Inl e) | Inr S \<Rightarrow> Some (put_all P ys S)) = Some (put_all P (c # ys) S)"
  by (simp split: sum.split)

lemma vprintf_from_text:
  assumes "strings_in m str" "\<And>a. - 2147483648 \<le> snd (tk a) \<and> snd (tk a) < 2147483648"
    and "cstr m p fs" "format str tk fs ap = Some out"
  shows "vprintf_from P m tk p ap S = Some (put_all P out S)"
  using assms
proof (induction str tk fs ap arbitrary: p out S rule: format.induct)
  case (1 str tk ap)
  then show ?case by (simp add: vprintf_from.simps [of P m tk p] cstr_def)
next
  case (2 str tk c ap)
  note c = cstr_Cons [OF 2(3)]
  then have "m (p + 1) = 0" by (simp add: cstr_def)
  then show ?case using 2(4) c
    by (auto simp: vprintf_from.simps [of P m tk p] vprintf_from.simps [of P m tk "p + 1"] split: if_splits sum.split)
next
  case (3 str tk c d cs ap)
  note hyps = 3(4,5)
  have p2: "p + 1 + 1 = p + 2" by simp
  note c = cstr_Cons [OF 3(6)]
  note d = cstr_Cons [OF c(3), unfolded p2]
  note step = vprintf_from.simps [of P m tk p]
  consider (plain) "c \<noteq> 37" | (conv) "c = 37" "is_conv d" | (other) "c = 37" "\<not> is_conv d" by blast
  then show ?case
  proof cases
    case plain
    then obtain out' where o: "out = [c] @ out'" "format str tk (d # cs) ap = Some out'" using 3(7) by auto
    have "vprintf_from P m tk (p + 1) ap = (\<lambda>S. Some (put_all P out' S))"
      by (rule ext) (rule 3(1) [OF plain hyps c(3) o(2)])
    then show ?thesis using c plain unfolding step by (simp only: put_char_then o(1)) simp
  next
    case conv
    then obtain a ap' o1 o2 where o: "ap = a # ap'" "conv_text str tk d a = Some o1" "format str tk cs ap' = Some o2" "out = o1 @ o2"
      using 3(7) by (auto split: list.splits simp: bind_eq_Some_conv)
    have "c \<noteq> 37 \<Longrightarrow> False" using conv(1) by simp
    then have ih: "vprintf_from P m tk (p + 2) ap' S = Some (put_all P o2 S)" for S
      using 3(2) [OF _ conv(2) o(1,2) hyps d(3) o(3)] conv(1) by simp
    show ?thesis
      using c d conv o ih put_conv_text [OF hyps conv(2) o(2)] unfolding step by (simp add: put_all_then cong: sum.case_cong del: put_all.simps)
  next
    case other
    then obtain o2 where o: "format str tk cs ap = Some o2" "out = (if d = 37 then [37] else []) @ o2"
      using 3(7) by auto
    have ih: "vprintf_from P m tk (p + 2) ap S = Some (put_all P o2 S)" for S
      using 3(3) [OF _ other(2) hyps d(3) o(1)] other(1) by simp
    have "(if d = 37 then ft_putchar P 37 S else Inr S) = put_all P (if d = 37 then [37] else []) S"
      by (simp add: put_all_one del: put_all.simps(2))
    then show ?thesis
      using c d other o ih unfolding step by (simp add: put_all_then cong: sum.case_cong del: put_all.simps)
  qed
qed

section \<open>The screen after formatted output\<close>

lemma put_all_spec: "live S \<Longrightarrow> put_ok S (put_all P cs S) (screen_text (mode (the_tty S)) cs (shown (the_tty S)))"
proof (induction cs arbitrary: S)
  case Nil
  then show ?case by (simp add: put_ok_def screen_text_def rest_same_def)
next
  case (Cons c cs)
  show ?case
    unfolding put_all.simps
  proof (rule put_ok_bind [OF ft_putchar_spec [OF Cons.prems]])
    fix S' assume "live S'" "rest_same S S'" "shown (the_tty S') = screen_put (mode (the_tty S)) c (shown (the_tty S))"
    then show "put_ok S' (put_all P cs S') (screen_text (mode (the_tty S)) (c # cs) (shown (the_tty S)))"
      using Cons.IH [of S'] by (simp add: screen_text_def rest_same_def)
  qed
qed

lemma refresh_lines_spec:
  assumes "fb_ok t" "length vga = 2000" "k \<le> 25"
  shows "refresh_lines t [k..<25] vga = Inr (take (80 * k) vga @ concat (drop k (grid t)))"
  using assms(2,3)
proof (induction "25 - k" arbitrary: k vga)
  case 0
  then show ?case by simp
next
  case (Suc n)
  obtain fb where fb: "framebuffer t = Some fb" "length fb = 20480" using assms(1) by (auto simp: fb_ok_def)
  have k: "k < 25" using Suc.hyps(2) by simp
  let ?r = "unat (top_line_index t + of_nat k)"
  have r: "?r < 256" by simp
  have line: "take 80 (drop (?r * 80) fb) = grid t ! k" using fb(1) k by (simp add: grid_nth fb_line_def mult.commute)
  have len: "length (grid t ! k) = 80" using k fb r by (simp add: grid_nth)
  let ?vga = "take (k * 80) vga @ grid t ! k @ drop (k * 80 + 80) vga"
  have "?r * 80 + 80 \<le> length fb" using fb(2) r by linarith
  then have "refresh_line t k vga = Inr ?vga"
    using fb(1) line unfolding refresh_line_def VGA_WIDTH_def Let_def by simp
  moreover have "length ?vga = 2000" using Suc.prems(1) k len by simp
  moreover have "take (80 * Suc k) ?vga = take (80 * k) vga @ grid t ! k"
    using Suc.prems(1) k len by (simp add: mult.commute)
  moreover have "drop k (grid t) = grid t ! k # drop (Suc k) (grid t)" using k by (simp add: Cons_nth_drop_Suc)
  ultimately show ?case
    using Suc.hyps(1) [of "Suc k" ?vga] Suc.hyps(2) k by (simp add: upt_conv_Cons)
qed

text \<open>What a call of the printing functions promises: the text is on the screen of the current terminal,
  the VGA memory holds that screen, and nothing else of the terminals has changed.\<close>

definition printed :: "u8 list \<Rightarrow> console \<Rightarrow> console \<Rightarrow> bool" where
  "printed cs S S' \<longleftrightarrow> live S' \<and> current_tty S' = current_tty S \<and>
     shown (the_tty S') = screen_text (mode (the_tty S)) cs (shown (the_tty S)) \<and>
     vga_buffer S' = concat (grid (the_tty S')) \<and>
     (\<forall>i. i \<noteq> current_tty S \<longrightarrow> ttys S' ! i = ttys S ! i) \<and>
     mode (the_tty S') = mode (the_tty S) \<and> cli (the_tty S') = cli (the_tty S)"

lemma vga_refresh_spec:
  assumes "live S"
  shows "\<exists>t. vga_refresh_screen S = Inr (upd_io t (S\<lparr>vga_buffer := concat (grid (the_tty S))\<rparr>))"
proof -
  note L = live_facts [OF assms]
  have "length (vga_buffer S) = 2000" using L(1) by (simp add: console_ok_def)
  from refresh_lines_spec [OF L(4) this, of 0] L(6) show ?thesis
    by (auto simp: vga_refresh_screen_def VGA_HEIGHT_def)
qed

lemma length_concat_grid:
  assumes "fb_ok t" shows "length (concat (grid t)) = 2000"
proof -
  have "map length (grid t) = replicate 25 80"
    by (rule nth_equalityI) (use assms in \<open>auto simp: fb_ok_def grid_nth\<close>)
  then show ?thesis by (simp add: length_concat sum_list_replicate)
qed

lemma put_then_refresh:
  assumes "live S"
  shows "\<exists>S'. kbind (put_all P cs S) vga_refresh_screen = Inr S' \<and> printed cs S S'"
proof -
  obtain S1 where S1: "put_all P cs S = Inr S1" "live S1" "rest_same S S1"
      "shown (the_tty S1) = screen_text (mode (the_tty S)) cs (shown (the_tty S))"
    using put_all_spec [OF assms, of P cs] by (auto simp: put_ok_def)
  note L = live_facts [OF S1(2)]
  obtain f where f: "vga_refresh_screen S1 = Inr (upd_io f (S1\<lparr>vga_buffer := concat (grid (the_tty S1))\<rparr>))"
    using vga_refresh_spec [OF S1(2)] by blast
  let ?S = "upd_io f (S1\<lparr>vga_buffer := concat (grid (the_tty S1))\<rparr>)"
  have the: "the_tty ?S = the_tty S1" by (simp add: the_tty_def)
  have "live ?S" using S1(2) the length_concat_grid [OF L(4)] by (simp add: live_def console_ok_def)
  then have "printed cs S ?S" using S1(3,4) the by (simp add: printed_def rest_same_def)
  then show ?thesis using S1(1) f by auto
qed

section \<open>Properties\<close>

text \<open>C11. Formatted output: for a format in memory whose directives all have their argument, and string arguments
  that are null or terminated, \<^verbatim>\<open>vga_vprintf\<close> always returns, never leaves the frame buffer, and puts on the
  screen of the current terminal exactly the text that the format and the arguments denote: decimal
  numbers (the smallest \<^verbatim>\<open>int\<close> included), hexadecimal numbers, strings, characters and tasks. New lines,
  tabulators, the wrap at column 80 and scrolling are those of the abstract screen, although the lines
  live in a ring of 256 with 8-bit numbers. Afterwards the VGA memory holds that screen; the other
  terminals and the command line are unchanged.\<close>

theorem vga_vprintf_correct:
  assumes "live S" "strings_in m str" "\<And>a. - 2147483648 \<le> snd (tk a) \<and> snd (tk a) < 2147483648"
    and "cstr m fmt fs" "format str tk fs ap = Some out"
  shows "\<exists>S'. vga_vprintf P m tk fmt ap S = Some (Inr S') \<and> printed out S S'"
proof -
  have "vga_vprintf P m tk fmt ap S = Some (kbind (put_all P out S) vga_refresh_screen)"
    by (simp add: vga_vprintf_def vprintf_from_text [OF assms(2-5)] then_put_def kbind_def split: sum.split)
  then show ?thesis using put_then_refresh [OF assms(1), of P out] by auto
qed

text \<open>A console with one loaded, empty terminal.\<close>

definition blank_tty :: tty where
  "blank_tty = \<lparr>framebuffer = None, framebuffer_size = 40960, top_line_index = 0,
     history = \<lparr>status = False, stop_scroll = True, top_line_save = 0\<rparr>, cursor = \<lparr>cur_x = 0, cur_y = 0\<rparr>,
     mode = 31, cli = replicate 256 0\<rparr>"

definition example_console :: console where
  "example_console = \<lparr>ttys = blank_tty\<lparr>framebuffer := Some (replicate 20480 (blank_entry 31))\<rparr> # replicate 11 blank_tty,
     current_tty = 0, vga_buffer = replicate 2000 (blank_entry 7), io = []\<rparr>"

lemma example_console_live: "live example_console"
  by (auto simp: live_def example_console_def console_ok_def tty_ok_def fb_ok_def blank_tty_def the_tty_def)

definition example_fmt :: bmem where
  "example_fmt = (\<lambda>_. 0)(0x1000 := 120, 0x1001 := 61, 0x1002 := 37, 0x1003 := 100, 0x1004 := 10)"

lemma example_fmt_cstr: "cstr example_fmt 0x1000 [120, 61, 37, 100, 10]"
  by (auto simp: cstr_def example_fmt_def less_Suc_eq)

theorem vga_vprintf_correct_witness:
  "\<exists>S'. vga_vprintf \<lparr>in8 = \<lambda>_ _. 0, in16 = \<lambda>_ _. 0, in32 = \<lambda>_ _. 0\<rparr> example_fmt (\<lambda>_. (0, 0)) 0x1000 [- 42] example_console
     = Some (Inr S') \<and> printed [120, 61, 45, 52, 50, 10] example_console S'"
  by (rule vga_vprintf_correct [OF example_console_live, where str = "\<lambda>_. None" and fs = "[120, 61, 37, 100, 10]"])
     (simp_all add: strings_in_def example_fmt_cstr is_conv_iff conv_text_def dec_text_def digits.simps)

end
