(* ===== verification/Tty_Spec.thy ===== *)
theory Tty_Spec
  imports Tty Printf_Spec
begin

text \<open>
  Creating the terminals at boot and loading a further one.
\<close>

definition blank_grid :: "u8 \<Rightarrow> vga_entry list list" where
  "blank_grid m = replicate 25 (replicate 80 (blank_entry m))"

definition fresh_tty :: "tty \<Rightarrow> tty" where
  "fresh_tty t = t\<lparr>framebuffer := Some (replicate 20480 (blank_entry (mode t))), top_line_index := 0,
     cursor := \<lparr>cur_x = 0, cur_y = 0\<rparr>\<rparr>"

lemma tty_framebuffer_init_spec:
  "framebuffer_size t = 40960 \<Longrightarrow> tty_framebuffer_init True t = Inr (fresh_tty t)"
  by (simp add: tty_framebuffer_init_def tty_framebuffer_set_screen_mode_def tty_framebuffer_clear_def fb_all_def
      VGA_WIDTH_def TTY_HIST_SIZE_def fresh_tty_def Let_def blank_entry_def map_replicate)

lemma fresh_line: "fb_line (replicate 20480 e) (unat (r :: u8)) = replicate 80 e"
proof (rule nth_equalityI)
  fix i assume "i < length (fb_line (replicate 20480 e) (unat r))"
  then have "i < 80" by simp
  moreover from this have "80 * unat r + i < 20480" using u8_bound [of r] by linarith
  ultimately show "fb_line (replicate 20480 e) (unat r) ! i = replicate 80 e ! i" by (simp add: fb_line_nth)
qed simp

lemma fresh_shown: "shown (fresh_tty t) = (blank_grid (mode t), 0, 0)"
  by (simp add: shown_def fresh_tty_def grid_def fresh_line blank_grid_def map_replicate_const)

lemma fresh_ok: "length (cli t) = 256 \<Longrightarrow> tty_ok (fresh_tty t)"
  by (simp add: tty_ok_def fb_ok_def fresh_tty_def)

lemma printed_append: "printed xs S S1 \<Longrightarrow> printed ys S1 S2 \<Longrightarrow> printed (xs @ ys) S S2"
  by (simp add: printed_def screen_text_def)

lemma puts_two:
  assumes "live S"
  obtains S' where "kbind (vga_puts P xs S) (vga_puts P ys) = Inr S'" "printed (xs @ ys) S S'"
proof -
  obtain S1 where S1: "vga_puts P xs S = Inr S1" "printed xs S S1"
    using put_then_refresh [OF assms, of P xs] by (auto simp: vga_puts_def)
  then have "live S1" by (simp add: printed_def)
  then obtain S2 where "vga_puts P ys S1 = Inr S2" "printed ys S1 S2"
    using put_then_refresh [of S1 P ys] by (auto simp: vga_puts_def)
  then show thesis using that S1 printed_append by auto
qed

lemma upd_nth_fields [simp]:
  "length (ttys (upd_nth i f S)) = length (ttys S)" "current_tty (upd_nth i f S) = current_tty S"
  "vga_buffer (upd_nth i f S) = vga_buffer S"
  by (simp_all add: upd_nth_def)

lemma refresh_live:
  assumes "live S"
  obtains f where "vga_refresh_screen S = Inr (upd_io f (S\<lparr>vga_buffer := concat (grid (the_tty S))\<rparr>))"
    "live (upd_io f (S\<lparr>vga_buffer := concat (grid (the_tty S))\<rparr>))"
proof -
  note L = live_facts [OF assms]
  obtain f where f: "vga_refresh_screen S = Inr (upd_io f (S\<lparr>vga_buffer := concat (grid (the_tty S))\<rparr>))"
    using vga_refresh_spec [OF assms] by blast
  have "the_tty (upd_io f (S\<lparr>vga_buffer := concat (grid (the_tty S))\<rparr>)) = the_tty S" by (simp add: the_tty_def)
  then show thesis
    using that [OF f] assms length_concat_grid [OF L(4)] by (simp add: live_def console_ok_def)
qed

text \<open>Boot: whatever the memory of the terminals held, \<^verbatim>\<open>ttys_init\<close> with memory for a frame buffer ends with the first
  terminal current, the banner and the prompt on its otherwise blank screen and in the VGA memory, and the
  other eleven terminals without a frame buffer; without memory it panics.\<close>

theorem ttys_init_correct:
  assumes "length (ttys S) = 12" "current_tty S = 0" "length (vga_buffer S) = 2000"
  shows "(\<exists>S'. ttys_init P True S = Inr S' \<and> live S' \<and> current_tty S' = 0 \<and>
      shown (the_tty S') = screen_text VGA_DEFAULT_MODE (KERNEL_BANNER @ TTY_PROMPT) (blank_grid VGA_DEFAULT_MODE, 0, 0) \<and>
      vga_buffer S' = concat (grid (the_tty S')) \<and> (\<forall>i. 0 < i \<and> i < 12 \<longrightarrow> framebuffer (ttys S' ! i) = None)) \<and>
    ttys_init P False S = Inl (Panic ''tty_framebuffer_init'')"
proof -
  let ?S0 = "S\<lparr>ttys := map tty_init (ttys S)\<rparr>"
  let ?t = "tty_init (ttys S ! 0)"
  have size: "framebuffer_size ?t = 40960" "mode ?t = VGA_DEFAULT_MODE" "cli ?t = replicate 256 0"
    "framebuffer ?t = None" "\<not> status (history ?t)"
    by (simp_all add: tty_init_def VGA_WIDTH_def TTY_HIST_SIZE_def)
  have nth: "ttys ?S0 ! i = tty_init (ttys S ! i)" if "i < 12" for i using that assms(1) by simp
  let ?S1 = "upd_nth 0 (\<lambda>_. fresh_tty ?t) ?S0"
  have the1: "the_tty ?S1 = fresh_tty ?t" using assms by (simp add: the_tty_def upd_nth_def)
  have "tty_ok (tty_init t)" for t by (simp add: tty_ok_def tty_init_def)
  then have "console_ok ?S1"
    using assms fresh_ok [of ?t] size(3) by (auto simp: console_ok_def upd_nth_def dest!: subsetD [OF set_update_subset_insert])
  moreover have "framebuffer (fresh_tty ?t) \<noteq> None" "\<not> status (history (fresh_tty ?t))"
    using size(5) by (simp_all add: fresh_tty_def)
  ultimately have l1: "live ?S1" using the1 by (simp add: live_def)
  obtain S2 where S2: "kbind (vga_puts P KERNEL_BANNER ?S1) (vga_puts P TTY_PROMPT) = Inr S2"
      "printed (KERNEL_BANNER @ TTY_PROMPT) ?S1 S2"
    using puts_two [OF l1] .
  have l2: "live S2" "current_tty S2 = 0" using S2(2) assms(2) by (simp_all add: printed_def)
  then have same: "S2\<lparr>current_tty := 0\<rparr> = S2" by (cases S2) simp
  obtain f where f: "vga_refresh_screen S2 = Inr (upd_io f (S2\<lparr>vga_buffer := concat (grid (the_tty S2))\<rparr>))"
      "live (upd_io f (S2\<lparr>vga_buffer := concat (grid (the_tty S2))\<rparr>))"
    using refresh_live [OF l2(1)] .
  let ?S3 = "upd_io (vga_enable_cursor P 0 16) (upd_io f (S2\<lparr>vga_buffer := concat (grid (the_tty S2))\<rparr>))"
  have "tty_load P True 0 ?S0 = Inr (upd_io f (S2\<lparr>vga_buffer := concat (grid (the_tty S2))\<rparr>))"
    using assms(1) nth [of 0] size tty_framebuffer_init_spec [of ?t] S2(1) f(1) same
    by (simp add: tty_load_def vga_setup_default_screen_def tty_print_prompt_def [abs_def])
  then have init: "ttys_init P True S = Inr ?S3" by (simp add: ttys_init_def)
  have the3: "the_tty ?S3 = the_tty S2" by (simp add: the_tty_def)
  have v: "shown (the_tty S2) = screen_text VGA_DEFAULT_MODE (KERNEL_BANNER @ TTY_PROMPT) (blank_grid VGA_DEFAULT_MODE, 0, 0)"
    using S2(2) the1 fresh_shown [of ?t] size(2) by (simp add: printed_def fresh_tty_def)
  have "framebuffer (ttys S2 ! i) = None" if "0 < i" "i < 12" for i
    using S2(2) that assms nth [of i] by (simp add: printed_def upd_nth_def tty_init_def)
  moreover have "live ?S3" using f(2) by (simp add: live_def)
  moreover have "ttys_init P False S = Inl (Panic ''tty_framebuffer_init'')"
    using assms(1) nth [of 0] size(4) by (simp add: ttys_init_def tty_load_def tty_framebuffer_init_def)
  ultimately show ?thesis using init l2(2) the3 v by auto
qed

theorem ttys_init_correct_witness:
  "\<exists>S'. ttys_init \<lparr>in8 = \<lambda>_ _. 0, in16 = \<lambda>_ _. 0, in32 = \<lambda>_ _. 0\<rparr> True example_console = Inr S' \<and> live S'"
  using ttys_init_correct [of example_console "\<lparr>in8 = \<lambda>_ _. 0, in16 = \<lambda>_ _. 0, in32 = \<lambda>_ _. 0\<rparr>"]
  by (auto simp: example_console_def)

text \<open>Loading a terminal for the first time from another one: the new terminal becomes current with a blank screen,
  and its banner and prompt are printed on the terminal that was current before.\<close>

theorem tty_load_banner_elsewhere:
  assumes S: "live S" "i \<noteq> current_tty S" "i < 12" and new: "ttys S ! i = tty_init t"
  shows "\<exists>S'. tty_load P True i S = Inr S' \<and> live S' \<and> current_tty S' = i \<and>
    shown (the_tty S') = (blank_grid VGA_DEFAULT_MODE, 0, 0) \<and> vga_buffer S' = concat (blank_grid VGA_DEFAULT_MODE) \<and>
    shown (ttys S' ! current_tty S) =
      screen_text (mode (the_tty S)) (KERNEL_BANNER @ TTY_PROMPT) (shown (the_tty S))"
proof -
  note L = live_facts [OF S(1)]
  let ?t = "ttys S ! i"
  have size: "framebuffer_size ?t = 40960" "mode ?t = VGA_DEFAULT_MODE" "cli ?t = replicate 256 0"
    "framebuffer ?t = None" "\<not> status (history ?t)"
    unfolding new by (simp_all add: tty_init_def VGA_WIDTH_def TTY_HIST_SIZE_def)
  let ?S1 = "upd_nth i (\<lambda>_. fresh_tty ?t) S"
  have the1: "the_tty ?S1 = the_tty S" "ttys ?S1 ! i = fresh_tty ?t" "length (ttys S) = 12"
    using S L(1) by (simp_all add: the_tty_def upd_nth_def console_ok_def)
  have "console_ok ?S1"
    using L(1) fresh_ok [of ?t] size(3) by (auto simp: console_ok_def upd_nth_def dest!: subsetD [OF set_update_subset_insert])
  then have l1: "live ?S1" using S(1) the1 by (simp add: live_def)
  obtain S2 where S2: "kbind (vga_puts P KERNEL_BANNER ?S1) (vga_puts P TTY_PROMPT) = Inr S2"
      "printed (KERNEL_BANNER @ TTY_PROMPT) ?S1 S2"
    using puts_two [OF l1] .
  let ?S3 = "S2\<lparr>current_tty := i\<rparr>"
  have the3: "the_tty ?S3 = fresh_tty ?t" using S2(2) the1(2) S(2) by (simp add: printed_def the_tty_def)
  have "console_ok S2" using S2(2) by (simp add: printed_def live_def)
  then have l3: "live ?S3" using the3 size(5) S(3) by (simp add: live_def console_ok_def fresh_tty_def)
  obtain f where f: "vga_refresh_screen ?S3 = Inr (upd_io f (?S3\<lparr>vga_buffer := concat (grid (the_tty ?S3))\<rparr>))"
      "live (upd_io f (?S3\<lparr>vga_buffer := concat (grid (the_tty ?S3))\<rparr>))"
    using refresh_live [OF l3] .
  let ?S' = "upd_io f (?S3\<lparr>vga_buffer := concat (grid (the_tty ?S3))\<rparr>)"
  have "tty_load P True i S = Inr ?S'"
    using S(3) the1(3) size tty_framebuffer_init_spec [of ?t] S2(1) f(1)
    by (simp add: tty_load_def vga_setup_default_screen_def tty_print_prompt_def [abs_def])
  moreover have v: "shown (fresh_tty ?t) = (blank_grid VGA_DEFAULT_MODE, 0, 0)" using fresh_shown [of ?t] size(2) by simp
  moreover have "the_tty ?S' = fresh_tty ?t" using the3 by (simp add: the_tty_def)
  moreover have "vga_buffer ?S' = concat (blank_grid VGA_DEFAULT_MODE)" using v unfolding the3 shown_def by simp
  moreover have "ttys ?S' ! current_tty S = the_tty S2" using S2(2) by (simp add: printed_def the_tty_def)
  moreover have "shown (the_tty S2) = screen_text (mode (the_tty S)) (KERNEL_BANNER @ TTY_PROMPT) (shown (the_tty S))"
    using S2(2) the1(1) by (simp add: printed_def)
  ultimately show ?thesis using f(2) by auto
qed

lemma blank_tty_init: "blank_tty = tty_init blank_tty"
  by (simp add: tty_init_def blank_tty_def VGA_WIDTH_def TTY_HIST_SIZE_def VGA_DEFAULT_MODE_def VGA_COLOR_def)

theorem tty_load_banner_elsewhere_witness:
  "\<exists>S'. tty_load \<lparr>in8 = \<lambda>_ _. 0, in16 = \<lambda>_ _. 0, in32 = \<lambda>_ _. 0\<rparr> True 3 example_console = Inr S' \<and>
     vga_buffer S' = concat (blank_grid VGA_DEFAULT_MODE)"
proof -
  have "ttys example_console ! 3 = tty_init blank_tty" "(3 :: nat) \<noteq> current_tty example_console"
    using blank_tty_init by (simp_all add: example_console_def)
  from tty_load_banner_elsewhere [OF example_console_live this(2) _ this(1), of "\<lparr>in8 = \<lambda>_ _. 0, in16 = \<lambda>_ _. 0, in32 = \<lambda>_ _. 0\<rparr>"]
  show ?thesis by auto
qed

section \<open>Output without a frame buffer\<close>

lemma set_screen_mode_grid:
  assumes "framebuffer t = Some fb" "length fb = 20480"
  obtains t' where "tty_framebuffer_set_screen_mode t m = Inr t'" "fb_ok t'" "mode t' = m" "cursor t' = cursor t"
    "cli t' = cli t" "history t' = history t" "grid t' = map (map (\<lambda>e. e\<lparr>e_mode := m\<rparr>)) (grid t)"
proof (rule that)
  let ?f = "\<lambda>e. e\<lparr>e_mode := m\<rparr>"
  let ?t = "t\<lparr>mode := m, framebuffer := Some (map ?f fb)\<rparr>"
  show "tty_framebuffer_set_screen_mode t m = Inr ?t"
    using assms by (simp add: tty_framebuffer_set_screen_mode_def fb_all_def VGA_WIDTH_def TTY_HIST_SIZE_def)
  show "grid ?t = map (map ?f) (grid t)"
    using assms(1) by (simp add: grid_def fb_line_def take_map drop_map)
qed (use assms in \<open>simp_all add: fb_ok_def\<close>)

text \<open>Panic: on a loaded terminal that does not show its history \<^verbatim>\<open>__kpanic\<close> recolours every cell, prints its message and shows
  it; before the terminals have memory, during the first steps of \<^verbatim>\<open>init\<close>, it writes through a null pointer
  instead, as does the line feed that leaves the bottom of the screen.\<close>

theorem kpanic_screen_correct:
  assumes "strings_in m str" "\<And>a. - 2147483648 \<le> snd (tk a) \<and> snd (tk a) < 2147483648"
    and "cstr m fmt fs" "format str tk fs ap = Some out"
  shows "(live S \<longrightarrow> (\<exists>S'. kpanic_screen P m tk fmt ap S = Some (Inr S') \<and>
      shown (the_tty S') = screen_text (VGA_COLOR 4 15) out
        (map (map (\<lambda>e. e\<lparr>e_mode := VGA_COLOR 4 15\<rparr>)) (grid (the_tty S)), snd (shown (the_tty S))) \<and>
      vga_buffer S' = concat (grid (the_tty S')))) \<and>
    (framebuffer (the_tty S) = None \<longrightarrow> kpanic_screen P m tk fmt ap S = Some (Inl NullDeref)) \<and>
    (framebuffer (the_tty S) = None \<and> current_tty S < length (ttys S) \<and> cursor_y S = 24 \<longrightarrow> ft_putchar P 10 S = Inl NullDeref)"
proof (intro conjI impI)
  assume S: "live S"
  note L = live_facts [OF S]
  obtain fb where fb: "framebuffer (the_tty S) = Some fb" "length fb = 20480" using L(4) by (auto simp: fb_ok_def)
  obtain t' where t': "tty_framebuffer_set_screen_mode (the_tty S) (VGA_COLOR 4 15) = Inr t'" "fb_ok t'" "mode t' = VGA_COLOR 4 15"
      "cursor t' = cursor (the_tty S)" "cli t' = cli (the_tty S)" "history t' = history (the_tty S)"
      "grid t' = map (map (\<lambda>e. e\<lparr>e_mode := VGA_COLOR 4 15\<rparr>)) (grid (the_tty S))"
    using set_screen_mode_grid [OF fb] .
  let ?S = "upd_io vga_disable_cursor (upd_tty (\<lambda>_. t') S)"
  have the: "the_tty ?S = t'" using L(2) by simp
  have "tty_ok t'" using L(3) t' by (simp add: tty_ok_def)
  then have live: "live ?S" using L the t'(2,6) by (auto simp: live_def console_ok_upd fb_ok_def)
  obtain S' where S': "vga_vprintf P m tk fmt ap ?S = Some (Inr S')" "printed out ?S S'"
    using put_then_refresh [OF live, of P out] vprintf_from_text [OF assms, of P ?S]
    by (auto simp: vga_vprintf_def then_put_def kbind_def split: sum.splits)
  have "kpanic_screen P m tk fmt ap S = Some (Inr S')" using t'(1) S'(1) by (simp add: kpanic_screen_def then_put_def)
  moreover have "shown t' = (grid t', snd (shown (the_tty S)))" using t'(4) by (simp add: shown_def)
  ultimately show "\<exists>S'. kpanic_screen P m tk fmt ap S = Some (Inr S') \<and>
      shown (the_tty S') = screen_text (VGA_COLOR 4 15) out
        (map (map (\<lambda>e. e\<lparr>e_mode := VGA_COLOR 4 15\<rparr>)) (grid (the_tty S)), snd (shown (the_tty S))) \<and>
      vga_buffer S' = concat (grid (the_tty S'))"
    using S'(2) the t'(3,7) by (auto simp: printed_def)
next
  assume "framebuffer (the_tty S) = None"
  then show "kpanic_screen P m tk fmt ap S = Some (Inl NullDeref)"
    by (simp add: kpanic_screen_def tty_framebuffer_set_screen_mode_def fb_all_def then_put_def)
next
  assume a: "framebuffer (the_tty S) = None \<and> current_tty S < length (ttys S) \<and> cursor_y S = 24"
  let ?S = "set_x 0 (set_y 25 (upd_io (outb 0x3F8 10) S))"
  have "cursor_x ?S = 0" "cursor_y ?S = 25" "framebuffer (the_tty ?S) = None" "current_tty ?S < length (ttys ?S)"
    using a by (simp_all add: set_x_def set_y_def cursor_x_def cursor_y_def)
  moreover from this have "tty_scroll (the_tty (set_y 25 (set_x 0 ?S))) = Inl NullDeref"
    by (simp add: tty_scroll_def Let_def VGA_WIDTH_def set_x_def set_y_def fb_store_def numeral_eq_Suc)
  ultimately have "fix_cursor ?S = Inl NullDeref"
    by (simp add: fix_cursor_def wrap_columns_eq scroll_rows.simps [of 25] tty_framebuffer_scroll_down_def)
  then show "ft_putchar P 10 S = Inl NullDeref"
    using a by (simp add: ft_putchar_def put_plain_def cursor_y_def)
qed

theorem kpanic_screen_correct_witness:
  "kpanic_screen \<lparr>in8 = \<lambda>_ _. 0, in16 = \<lambda>_ _. 0, in32 = \<lambda>_ _. 0\<rparr> example_fmt (\<lambda>_. (0, 0)) 0x1000 [3]
     (example_console\<lparr>current_tty := 5\<rparr>) = Some (Inl NullDeref)"
proof -
  have "framebuffer (the_tty (example_console\<lparr>current_tty := 5\<rparr>)) = None"
    by (simp add: the_tty_def example_console_def blank_tty_def)
  moreover have "format (\<lambda>_. None) (\<lambda>_. (0, 0)) [120, 61, 37, 100, 10] [3] = Some [120, 61, 51, 10]"
    by (simp add: is_conv_iff conv_text_def dec_text_def digits.simps)
  ultimately show ?thesis
    using kpanic_screen_correct [OF _ _ example_fmt_cstr, of "\<lambda>_. None" "\<lambda>_. (0, 0)" "[3]"] by (simp add: strings_in_def)
qed

end
