(* ===== verification/Keyboard.thy ===== *)
theory Keyboard
  imports Tty
begin

text \<open>
  \<^verbatim>\<open>drivers/keyboard\<close>: the tables of keys, the layouts, and the handlers a scan code is dispatched to. The
  modifier keys are the flags of \<^verbatim>\<open>layout.h\<close>; a key points to one of them by \<^verbatim>\<open>state_ptr\<close>.
\<close>

section \<open>Data\<close>

datatype layout = QWERTY | AZERTY

datatype key_category = KEY_ALPHANUMERIC | KEY_CONTROL | KEY_NAVIGATION | KEY_FUNCTION | KEY_SPECIAL

datatype key_undergroup = NONE | LETTER | TOP_KEY | PUNCTUATION | SPACE | NUM_PAD | PRESS | RELEASE | TOGGLE
  | BACKSPACE | ENTER | ESCAPE

datatype key_flag = Caps_lock | Left_shift | Right_shift | Left_ctrl | Left_alt | Num_lock | Scroll_lock

record keyboard_key =
  key_value :: u16
  alt_value :: u16
  keycode :: u16
  category :: key_category
  undergroup :: key_undergroup
  state_ptr :: "key_flag option"

datatype key_handler = Printable | Navigation | Function_key | Press | Release | Toggle | Enter | Escape | Backspace

record scancode_routine =
  r_key :: keyboard_key
  r_handler :: "key_handler option"

definition mk_key ::
  "u16 \<Rightarrow> u16 \<Rightarrow> u16 \<Rightarrow> key_category \<Rightarrow> key_undergroup \<Rightarrow> key_flag option \<Rightarrow> keyboard_key" where
  "mk_key v a k c u p = \<lparr>key_value = v, alt_value = a, keycode = k, category = c, undergroup = u, state_ptr = p\<rparr>"

definition UNDEFINED_KEY :: keyboard_key where
  "UNDEFINED_KEY = mk_key 0 0 0 KEY_ALPHANUMERIC NONE None"

definition UNDEFINED_ROUTINE :: scancode_routine where
  "UNDEFINED_ROUTINE = \<lparr>r_key = UNDEFINED_KEY, r_handler = None\<rparr>"

text \<open>The keyboard: its flags, the table of default keys, the current layout, and the console it types on.\<close>

record keyboard =
  key_flags :: "key_flag \<Rightarrow> bool"
  default_key_table :: "keyboard_key list"
  current_layout_type :: layout
  current_layout :: "scancode_routine list"
  con :: console

section \<open>Tables\<close>

text \<open>A printable key with its two characters.\<close>

definition chars :: "char \<Rightarrow> char \<Rightarrow> u16 \<Rightarrow> key_undergroup \<Rightarrow> keyboard_key" where
  "chars v a k u = mk_key (of_char v) (of_char a) k KEY_ALPHANUMERIC u None"

definition printable_keys :: "keyboard_key list" where
  "printable_keys =
    [chars CHR ''a'' CHR ''A'' 0x1E LETTER, chars CHR ''b'' CHR ''B'' 0x30 LETTER, chars CHR ''c'' CHR ''C'' 0x2E LETTER,
     chars CHR ''d'' CHR ''D'' 0x20 LETTER, chars CHR ''e'' CHR ''E'' 0x12 LETTER, chars CHR ''f'' CHR ''F'' 0x21 LETTER,
     chars CHR ''g'' CHR ''G'' 0x22 LETTER, chars CHR ''h'' CHR ''H'' 0x23 LETTER, chars CHR ''i'' CHR ''I'' 0x17 LETTER,
     chars CHR ''j'' CHR ''J'' 0x24 LETTER, chars CHR ''k'' CHR ''K'' 0x25 LETTER, chars CHR ''l'' CHR ''L'' 0x26 LETTER,
     chars CHR ''m'' CHR ''M'' 0x32 LETTER, chars CHR ''n'' CHR ''N'' 0x31 LETTER, chars CHR ''o'' CHR ''O'' 0x18 LETTER,
     chars CHR ''p'' CHR ''P'' 0x19 LETTER, chars CHR ''q'' CHR ''Q'' 0x10 LETTER, chars CHR ''r'' CHR ''R'' 0x13 LETTER,
     chars CHR ''s'' CHR ''S'' 0x1F LETTER, chars CHR ''t'' CHR ''T'' 0x14 LETTER, chars CHR ''u'' CHR ''U'' 0x16 LETTER,
     chars CHR ''v'' CHR ''V'' 0x2F LETTER, chars CHR ''w'' CHR ''W'' 0x11 LETTER, chars CHR ''x'' CHR ''X'' 0x2D LETTER,
     chars CHR ''y'' CHR ''Y'' 0x15 LETTER, chars CHR ''z'' CHR ''Z'' 0x2C LETTER, chars CHR ''1'' CHR ''!'' 0x02 TOP_KEY,
     chars CHR ''2'' CHR ''@'' 0x03 TOP_KEY, chars CHR ''3'' CHR ''#'' 0x04 TOP_KEY, chars CHR ''4'' CHR ''$'' 0x05 TOP_KEY,
     chars CHR ''5'' CHR ''%'' 0x06 TOP_KEY, chars CHR ''6'' CHR ''^'' 0x07 TOP_KEY, chars CHR ''7'' CHR ''&'' 0x08 TOP_KEY,
     chars CHR ''8'' CHR ''*'' 0x09 TOP_KEY, chars CHR ''9'' CHR ''('' 0x0A TOP_KEY, chars CHR ''0'' CHR '')'' 0x0B TOP_KEY,
     chars CHR ''-'' CHR ''_'' 0x0C PUNCTUATION, chars CHR ''='' CHR ''+'' 0x0D PUNCTUATION, chars CHR ''['' CHR ''{'' 0x1A PUNCTUATION,
     chars CHR '']'' CHR ''}'' 0x1B PUNCTUATION, chars CHR '';'' CHR '':'' 0x27 PUNCTUATION, chars (CHR 0x27) (CHR 0x22) 0x28 PUNCTUATION,
     chars (CHR 0x60) CHR ''~'' 0x29 PUNCTUATION, chars (CHR 0x5C) CHR ''|'' 0x2B PUNCTUATION, chars CHR '','' CHR ''<'' 0x33 PUNCTUATION,
     chars CHR ''.'' CHR ''>'' 0x34 PUNCTUATION, chars CHR ''/'' CHR ''?'' 0x35 PUNCTUATION, chars CHR '' '' CHR '' '' 0x39 SPACE,
     chars (CHR 0x09) (CHR 0x09) 0x0F SPACE, chars CHR ''*'' CHR ''*'' 0x37 NUM_PAD, chars CHR ''-'' CHR ''-'' 0x4A NUM_PAD,
     chars CHR ''+'' CHR ''+'' 0x4E NUM_PAD]"

definition control_keys :: "keyboard_key list" where
  "control_keys =
    (let ctl = (\<lambda>k u p. mk_key 0 0 k KEY_CONTROL u (Some p)) in
     [ctl 0x1D PRESS Left_ctrl, ctl 0x2A PRESS Left_shift, ctl 0x36 PRESS Right_shift, ctl 0x38 PRESS Left_alt,
      ctl 0x9D RELEASE Left_ctrl, ctl 0xAA RELEASE Left_shift, ctl 0xB6 RELEASE Right_shift, ctl 0xB8 RELEASE Left_alt,
      ctl 0xBA TOGGLE Caps_lock, ctl 0xC5 TOGGLE Num_lock, ctl 0xC6 TOGGLE Scroll_lock])"

definition nav_color :: "u8 \<Rightarrow> u8 \<Rightarrow> u16" where
  "nav_color bg fg = ucast (VGA_COLOR bg fg)"

definition COLOR_UP :: u16 where "COLOR_UP = nav_color 10 4"
definition COLOR_DOWN :: u16 where "COLOR_DOWN = nav_color 1 0"
definition COLOR_PGUP :: u16 where "COLOR_PGUP = nav_color 4 13"
definition COLOR_PGDN :: u16 where "COLOR_PGDN = nav_color 5 14"

definition navigation_keys :: "keyboard_key list" where
  "navigation_keys =
    (let nav = (\<lambda>v a k. mk_key v (of_char a) k KEY_NAVIGATION NUM_PAD (Some Num_lock)) in
     [nav COLOR_UP CHR ''8'' 0x48, nav COLOR_DOWN CHR ''2'' 0x50, nav (nav_color 10 6) CHR ''4'' 0x4B,
      nav (nav_color 0 5) CHR ''6'' 0x4D, nav (nav_color 15 2) CHR ''7'' 0x47, nav (nav_color 1 11) CHR ''1'' 0x4F,
      nav COLOR_PGUP CHR ''9'' 0x49, nav COLOR_PGDN CHR ''3'' 0x51, nav (nav_color 6 15) CHR ''0'' 0x52,
      nav (nav_color 4 14) CHR ''.'' 0x53, nav (nav_color 14 2) CHR ''5'' 0x4C])"

definition function_keys :: "keyboard_key list" where
  "function_keys =
    (let fn = (\<lambda>v k. mk_key v 0 k KEY_FUNCTION NONE None) in
     [fn 0 0x3B, fn 1 0x3C, fn 2 0x3D, fn 3 0x3E, fn 4 0x3F, fn 5 0x40, fn 6 0x41, fn 7 0x42, fn 8 0x43, fn 9 0x44,
      fn 10 0x57, fn 11 0x58])"

definition special_keys :: "keyboard_key list" where
  "special_keys =
    (let sp = (\<lambda>k u. mk_key 0 0 k KEY_SPECIAL u None) in [sp 0x0E BACKSPACE, sp 0x1C ENTER, sp 0x01 ESCAPE])"

definition azerty_layout :: "keyboard_key list" where
  "azerty_layout =
    [chars CHR ''&'' CHR ''1'' 0x02 TOP_KEY, chars CHR ''e'' CHR ''2'' 0x03 TOP_KEY, chars (CHR 0x22) CHR ''3'' 0x04 TOP_KEY,
     chars (CHR 0x27) CHR ''4'' 0x05 TOP_KEY, chars CHR ''('' CHR ''5'' 0x06 TOP_KEY, chars CHR ''-'' CHR ''6'' 0x07 TOP_KEY,
     chars CHR ''e'' CHR ''7'' 0x08 TOP_KEY, chars CHR ''_'' CHR ''8'' 0x09 TOP_KEY, chars CHR ''c'' CHR ''9'' 0x0A TOP_KEY,
     chars CHR ''a'' CHR ''0'' 0x0B TOP_KEY, chars CHR ''a'' CHR ''A'' 0x10 LETTER, chars CHR ''z'' CHR ''Z'' 0x11 LETTER,
     chars CHR ''q'' CHR ''Q'' 0x1E LETTER, chars CHR ''m'' CHR ''M'' 0x27 LETTER, chars CHR ''w'' CHR ''W'' 0x2C LETTER,
     chars CHR '','' CHR ''?'' 0x32 PUNCTUATION, chars CHR '';'' CHR ''.'' 0x33 PUNCTUATION, chars CHR '':'' CHR ''/'' 0x34 PUNCTUATION,
     chars CHR ''!'' CHR ''!'' 0x35 PUNCTUATION]"

section \<open>Layouts\<close>

definition keyboard_get_control_handler :: "key_undergroup \<Rightarrow> key_handler option" where
  "keyboard_get_control_handler u = (case u of
     PRESS \<Rightarrow> Some Press | RELEASE \<Rightarrow> Some Release | TOGGLE \<Rightarrow> Some Toggle | _ \<Rightarrow> None)"

definition keyboard_get_special_handler :: "key_undergroup \<Rightarrow> key_handler option" where
  "keyboard_get_special_handler u = (case u of
     ENTER \<Rightarrow> Some Enter | ESCAPE \<Rightarrow> Some Escape | BACKSPACE \<Rightarrow> Some Backspace | _ \<Rightarrow> None)"

definition keyboard_get_default_key_handler :: "keyboard_key \<Rightarrow> key_handler option" where
  "keyboard_get_default_key_handler k = (case category k of
     KEY_ALPHANUMERIC \<Rightarrow> Some Printable
   | KEY_NAVIGATION \<Rightarrow> Some Navigation
   | KEY_FUNCTION \<Rightarrow> Some Function_key
   | KEY_CONTROL \<Rightarrow> keyboard_get_control_handler (undergroup k)
   | KEY_SPECIAL \<Rightarrow> keyboard_get_special_handler (undergroup k))"

text \<open>The index is converted to 8 bits in the first loop; the arrays have 256 entries.\<close>

definition keyboard_init_default_table :: "keyboard_key list \<Rightarrow> keyboard_key list" where
  "keyboard_init_default_table table =
     fold (\<lambda>k t. t[unat (ucast (keycode k) :: u8) := k])
       (printable_keys @ control_keys @ navigation_keys @ function_keys @ special_keys) table"

definition keyboard_bind_key :: "key_handler option \<Rightarrow> keyboard_key \<Rightarrow> scancode_routine list \<Rightarrow> scancode_routine list kres" where
  "keyboard_bind_key h k l =
     (if unat (keycode k) < length l then Inr (l[unat (keycode k) := \<lparr>r_key = k, r_handler = h\<rparr>]) else Inl OutOfBounds)"

definition keyboard_unbind_key :: "u8 \<Rightarrow> scancode_routine list \<Rightarrow> scancode_routine list" where
  "keyboard_unbind_key kc l = l[unat kc := UNDEFINED_ROUTINE]"

text \<open>\<^verbatim>\<open>keyboard_remap_layout\<close>: the keys of a table up to its terminator, or those of the first \<open>size + 1\<close> entries that are
  defined; the tables here are the lists without their terminator.\<close>

fun bind_keys :: "keyboard_key list \<Rightarrow> scancode_routine list \<Rightarrow> scancode_routine list kres" where
  "bind_keys [] l = Inr l"
| "bind_keys (k # ks) l = kbind (keyboard_bind_key (keyboard_get_default_key_handler k) k l) (bind_keys ks)"

definition keyboard_remap_layout :: "keyboard_key list \<Rightarrow> nat \<Rightarrow> scancode_routine list \<Rightarrow> scancode_routine list kres" where
  "keyboard_remap_layout table sz l =
     (if sz = 0 then bind_keys (takeWhile (\<lambda>k. keycode k \<noteq> 0) table) l
      else if length table < sz + 1 then Inl OutOfBounds
      else bind_keys (filter (\<lambda>k. keycode k \<noteq> 0) (take (sz + 1) table)) l)"

definition keyboard_switch_layout :: "layout \<Rightarrow> keyboard \<Rightarrow> keyboard kres" where
  "keyboard_switch_layout new K =
     (if current_layout_type K = new then Inr K
      else kbind (case new of
            QWERTY \<Rightarrow> keyboard_remap_layout (default_key_table K) 255 (current_layout K)
          | AZERTY \<Rightarrow> keyboard_remap_layout azerty_layout 0 (current_layout K)) (\<lambda>l.
        Inr (K\<lparr>current_layout := l, current_layout_type := new\<rparr>)))"

definition keyboard_init :: "keyboard \<Rightarrow> keyboard kres" where
  "keyboard_init K =
     (let l = map (\<lambda>_. UNDEFINED_ROUTINE) (current_layout K);
          table = keyboard_init_default_table (default_key_table K) in
      kbind (keyboard_remap_layout table 255 l) (\<lambda>l. Inr (K\<lparr>default_key_table := table, current_layout := l\<rparr>)))"

section \<open>Handlers\<close>

definition keyboard_get_shifted_value :: "(key_flag \<Rightarrow> bool) \<Rightarrow> keyboard_key \<Rightarrow> u8" where
  "keyboard_get_shifted_value fl k =
     (let shift = fl Left_shift \<or> fl Right_shift in
      if category k = KEY_ALPHANUMERIC then ucast (if fl Caps_lock \<or> shift then alt_value k else key_value k)
      else if category k = KEY_NAVIGATION \<and> undergroup k = NUM_PAD \<and> fl Num_lock then ucast (alt_value k)
      else ucast (key_value k))"

text \<open>\<^verbatim>\<open>ft_strlen(current_tty->cli)\<close>: without a null byte in its 256 bytes it reads behind the array.\<close>

definition cli_len :: "tty \<Rightarrow> nat kres" where
  "cli_len t = (if 0 \<in> set (cli t) then Inr (length (takeWhile (\<lambda>c. c \<noteq> 0) (cli t))) else Inl OutOfBounds)"

definition MAX_CMD_LEN :: nat where
  "MAX_CMD_LEN = 256"

definition cli_append :: "u8 \<Rightarrow> tty \<Rightarrow> tty kres" where
  "cli_append c t =
     kbind (cli_len t) (\<lambda>n.
     if n < MAX_CMD_LEN then
       if n + 1 < length (cli t) then Inr (t\<lparr>cli := (cli t)[n := c, n + 1 := 0]\<rparr>) else Inl OutOfBounds
     else Inr t)"

definition keyboard_printable_handler :: "ports \<Rightarrow> keyboard_key \<Rightarrow> keyboard \<Rightarrow> keyboard kres" where
  "keyboard_printable_handler P k K =
     (let c = keyboard_get_shifted_value (key_flags K) k; S = con K in
      kbind (cli_append c (the_tty S)) (\<lambda>t.
      kbind (vga_puts P [c] (upd_tty (\<lambda>_. t) S)) (\<lambda>S. Inr (K\<lparr>con := S\<rparr>))))"

definition set_flag :: "keyboard_key \<Rightarrow> (bool \<Rightarrow> bool) \<Rightarrow> keyboard \<Rightarrow> keyboard" where
  "set_flag k f K = (case state_ptr k of
     None \<Rightarrow> K | Some p \<Rightarrow> K\<lparr>key_flags := (key_flags K)(p := f (key_flags K p))\<rparr>)"

definition keyboard_toggle_handler :: "keyboard_key \<Rightarrow> keyboard \<Rightarrow> keyboard" where
  "keyboard_toggle_handler k = set_flag k Not"

definition keyboard_press_handler :: "keyboard_key \<Rightarrow> keyboard \<Rightarrow> keyboard" where
  "keyboard_press_handler k = set_flag k (\<lambda>b. if b = False then True else b)"

definition keyboard_release_handler :: "keyboard_key \<Rightarrow> keyboard \<Rightarrow> keyboard" where
  "keyboard_release_handler k = set_flag k (\<lambda>b. if b = True then False else b)"

definition keyboard_navigation_handler :: "ports \<Rightarrow> keyboard_key \<Rightarrow> keyboard \<Rightarrow> keyboard kres" where
  "keyboard_navigation_handler P k K =
     (let S = (if key_value k = COLOR_PGUP \<or> (key_value k = COLOR_UP \<and> key_flags K Left_ctrl) then tty_history_enable (con K)
               else con K) in
      if status (history (the_tty S)) then
        Inr (K\<lparr>con := (if key_value k = COLOR_PGUP \<or> key_value k = COLOR_UP then tty_history_scroll_up S
                       else if key_value k = COLOR_PGDN \<or> key_value k = COLOR_DOWN then tty_history_scroll_down S else S)\<rparr>)
      else case state_ptr k of
        None \<Rightarrow> Inl NullDeref
      | Some p \<Rightarrow>
          if \<not> key_flags K p then
            kbind (tty_framebuffer_set_screen_mode (the_tty S) (ucast (key_value k))) (\<lambda>t.
            Inr (K\<lparr>con := upd_tty (\<lambda>_. t) S\<rparr>))
          else keyboard_printable_handler P k (K\<lparr>con := S\<rparr>))"

definition keyboard_function_handler :: "ports \<Rightarrow> bool \<Rightarrow> keyboard_key \<Rightarrow> keyboard \<Rightarrow> keyboard kres" where
  "keyboard_function_handler P mem k K =
     kbind (tty_load P mem (unat (key_value k)) (con K)) (\<lambda>S. Inr (K\<lparr>con := S\<rparr>))"

definition cursor_left :: "s_cursor \<Rightarrow> s_cursor" where
  "cursor_left c =
     (if cur_x c = 0 then if 0 < cur_y c then \<lparr>cur_x = 79, cur_y = cur_y c - 1\<rparr> else c
      else c\<lparr>cur_x := cur_x c - 1\<rparr>)"

definition keyboard_backspace_handler :: "keyboard_key \<Rightarrow> keyboard \<Rightarrow> keyboard kres" where
  "keyboard_backspace_handler k K =
     (let S = con K; t = the_tty S in
      kbind (cli_len t) (\<lambda>n.
      if n = 0 then Inr K
      else
        let t = t\<lparr>cli := (cli t)[n - 1 := 0]\<rparr>;
            c = cursor_left (cursor t);
            t = t\<lparr>cursor := c\<rparr>;
            S = upd_io (vga_set_cursor_position (cur_x c) (cur_y c)) S;
            real_y = top_line_index t + cur_y c;
            offset = unat real_y * VGA_WIDTH + unat (cur_x c) in
        case framebuffer t of
          None \<Rightarrow> Inl NullDeref
        | Some fb \<Rightarrow>
            if length fb \<le> offset then Inl OutOfBounds
            else kbind (fb_store offset ((fb ! offset)\<lparr>character := 0\<rparr>) t) (\<lambda>t. Inr (K\<lparr>con := upd_tty (\<lambda>_. t) S\<rparr>))))"

text \<open>
  The dispatch. \<open>enter\<close> is \<^verbatim>\<open>tty_cli_handle_nl\<close> with the state of the rest of the kernel; the escape key shuts the
  machine down.
\<close>

definition run_handler ::
  "ports \<Rightarrow> bool \<Rightarrow> (console \<Rightarrow> console kres option) \<Rightarrow> key_handler \<Rightarrow> keyboard_key \<Rightarrow> keyboard \<Rightarrow> keyboard kres option" where
  "run_handler P mem enter h k K = (case h of
     Printable \<Rightarrow> Some (keyboard_printable_handler P k K)
   | Navigation \<Rightarrow> Some (keyboard_navigation_handler P k K)
   | Function_key \<Rightarrow> Some (keyboard_function_handler P mem k K)
   | Press \<Rightarrow> Some (Inr (keyboard_press_handler k K))
   | Release \<Rightarrow> Some (Inr (keyboard_release_handler k K))
   | Toggle \<Rightarrow> Some (Inr (keyboard_toggle_handler k K))
   | Enter \<Rightarrow> map_option (\<lambda>r. kbind r (\<lambda>S. Inr (K\<lparr>con := S\<rparr>))) (enter (con K))
   | Escape \<Rightarrow> Some (Inl (Panic ''shutdown''))
   | Backspace \<Rightarrow> Some (keyboard_backspace_handler k K))"

definition keyboard_handle ::
  "ports \<Rightarrow> bool \<Rightarrow> (console \<Rightarrow> console kres option) \<Rightarrow> keyboard \<Rightarrow> keyboard kres option" where
  "keyboard_handle P mem enter K =
     (let (st, t) = inb P 0x64 (io (con K)); K = K\<lparr>con := (con K)\<lparr>io := t\<rparr>\<rparr> in
      map_option (\<lambda>r. kbind r (\<lambda>K. kbind (vga_refresh_screen (con K)) (\<lambda>S. Inr (K\<lparr>con := S\<rparr>))))
        (if st AND 1 \<noteq> 0 then
           let (kc, t) = inb P 0x60 (io (con K)); K = K\<lparr>con := (con K)\<lparr>io := t\<rparr>\<rparr> in
           if length (current_layout K) \<le> unat kc then Some (Inl OutOfBounds)
           else case r_handler (current_layout K ! unat kc) of
             None \<Rightarrow> Some (Inr K)
           | Some h \<Rightarrow> run_handler P mem enter h (r_key (current_layout K ! unat kc)) K
         else Some (Inr K)))"

end
