(* ===== verification/Keyboard_Spec.thy ===== *)
theory Keyboard_Spec
  imports Keyboard Printf_Spec
begin

text \<open>
  What the keyboard does: the layout that \<^verbatim>\<open>keyboard_init\<close> builds and the layouts that can be switched to,
  line editing with printable keys and backspace, and the history of a terminal.
\<close>

section \<open>Layouts\<close>

definition all_keys :: "keyboard_key list" where
  "all_keys = printable_keys @ control_keys @ navigation_keys @ function_keys @ special_keys"

definition routine :: "keyboard_key \<Rightarrow> scancode_routine" where
  "routine k = \<lparr>r_key = k, r_handler = keyboard_get_default_key_handler k\<rparr>"

text \<open>A sequence of updates by index: what is at an index that one or no element is written to.\<close>

lemma fold_update_length [simp]: "length (fold (\<lambda>k l. l[f k := R k]) ks l) = length l"
  by (induction ks arbitrary: l) auto

lemma fold_update_other: "(\<And>k. k \<in> set ks \<Longrightarrow> f k \<noteq> i) \<Longrightarrow> fold (\<lambda>k l. l[f k := R k]) ks l ! i = l ! i"
  by (induction ks arbitrary: l) auto

lemma fold_update_hit:
  assumes "k \<in> set ks" "inj_on f (set ks)" "f k < length l"
  shows "fold (\<lambda>k l. l[f k := R k]) ks l ! f k = R k"
  using assms
proof (induction ks rule: rev_induct)
  case (snoc x ks)
  show ?case
  proof (cases "f x = f k")
    case True
    then have "x = k" using snoc.prems(1,2) by (auto dest: inj_onD)
    then show ?thesis using snoc.prems(3) by simp
  next
    case False
    then have "k \<in> set ks" using snoc.prems(1) by auto
    then show ?thesis using False snoc by (auto simp: inj_on_def)
  qed
qed simp

lemma bind_keys_fold:
  "(\<And>k. k \<in> set ks \<Longrightarrow> unat (keycode k) < length l) \<Longrightarrow>
   bind_keys ks l = Inr (fold (\<lambda>k l. l[unat (keycode k) := routine k]) ks l)"
  by (induction ks arbitrary: l) (auto simp: keyboard_bind_key_def routine_def)

lemmas key_tables = printable_keys_def control_keys_def navigation_keys_def function_keys_def special_keys_def
  azerty_layout_def chars_def mk_key_def

lemma keycodes_distinct: "distinct (map keycode all_keys)"
  by (simp add: all_keys_def key_tables Let_def)

lemma keycodes_range: "\<forall>k\<in>set all_keys. keycode k \<noteq> 0 \<and> unat (keycode k) < 256"
  by (simp add: all_keys_def key_tables Let_def)

lemma azerty_codes: "\<forall>k\<in>set azerty_layout. keycode k \<in> keycode ` set all_keys \<and> unat (keycode k) < 256 \<and> keycode k \<noteq> 0"
  by (simp add: all_keys_def key_tables Let_def)

lemma all_keys_handled: "\<forall>k\<in>set all_keys. keyboard_get_default_key_handler k \<noteq> None"
  by (simp add: all_keys_def key_tables Let_def keyboard_get_default_key_handler_def keyboard_get_control_handler_def
      keyboard_get_special_handler_def)

lemma keycodes_inj: "inj_on (\<lambda>k. unat (keycode k)) (set all_keys)"
  using keycodes_distinct by (auto simp: distinct_map inj_on_def word_unat_eq_iff)

lemma keycode_byte: "unat (keycode k) < 256 \<Longrightarrow> unat (ucast (keycode k) :: u8) = unat (keycode k)"
  by (simp add: unsigned_ucast_eq take_bit_nat_eq_self)

text \<open>The table of default keys holds each key at its code.\<close>

definition key_table :: "keyboard_key list" where
  "key_table = keyboard_init_default_table (replicate 256 UNDEFINED_KEY)"

lemma key_table_fold: "key_table = fold (\<lambda>k t. t[unat (keycode k) := k]) all_keys (replicate 256 UNDEFINED_KEY)"
  unfolding key_table_def keyboard_init_default_table_def all_keys_def [symmetric]
  by (rule fold_cong) (use keycodes_range in \<open>auto simp: keycode_byte\<close>)

lemma key_table_length [simp]: "length key_table = 256"
  by (simp add: key_table_fold)

lemma key_table_nth:
  "i < 256 \<Longrightarrow> key_table ! i = UNDEFINED_KEY \<or> (key_table ! i \<in> set all_keys)"
  "k \<in> set all_keys \<Longrightarrow> key_table ! unat (keycode k) = k"
proof -
  show hit: "key_table ! unat (keycode k) = k" if "k \<in> set all_keys" for k
    unfolding key_table_fold by (rule fold_update_hit [OF that keycodes_inj]) (use that keycodes_range in auto)
  show "key_table ! i = UNDEFINED_KEY \<or> key_table ! i \<in> set all_keys" if i: "i < 256"
  proof (cases "\<exists>k\<in>set all_keys. unat (keycode k) = i")
    case True
    then show ?thesis using hit by auto
  next
    case False
    then have "key_table ! i = replicate 256 UNDEFINED_KEY ! i"
      unfolding key_table_fold by (intro fold_update_other) auto
    then show ?thesis using i by simp
  qed
qed

lemma key_table_keys: "set (filter (\<lambda>k. keycode k \<noteq> 0) (take (255 + 1) key_table)) = set all_keys"
proof -
  have "k \<in> set all_keys" if "k \<in> set key_table" "keycode k \<noteq> 0" for k
  proof -
    note k = that
    obtain i where "i < length key_table" "key_table ! i = k" using k(1) unfolding in_set_conv_nth by blast
    then show ?thesis using key_table_nth(1) [of i] k(2) by (auto simp: UNDEFINED_KEY_def mk_key_def)
  qed
  moreover have "k \<in> set key_table" if "k \<in> set all_keys" for k
    using that key_table_nth(2) [OF that] keycodes_range nth_mem [of "unat (keycode k)" key_table] by auto
  ultimately show ?thesis using keycodes_range by auto
qed

text \<open>Installing the default layout over any layout that agrees with it on the other codes.\<close>

definition default_layout :: "scancode_routine list \<Rightarrow> scancode_routine list" where
  "default_layout l = fold (\<lambda>k l. l[unat (keycode k) := routine k]) all_keys l"

lemma default_layout_nth:
  "length l = 256 \<Longrightarrow> k \<in> set all_keys \<Longrightarrow> default_layout l ! unat (keycode k) = routine k"
  "(\<And>k. k \<in> set all_keys \<Longrightarrow> unat (keycode k) \<noteq> i) \<Longrightarrow> default_layout l ! i = l ! i"
proof -
  show "default_layout l ! unat (keycode k) = routine k" if "length l = 256" "k \<in> set all_keys"
    unfolding default_layout_def by (rule fold_update_hit [OF that(2) keycodes_inj]) (use that keycodes_range in auto)
  show "default_layout l ! i = l ! i" if "\<And>k. k \<in> set all_keys \<Longrightarrow> unat (keycode k) \<noteq> i"
    unfolding default_layout_def by (rule fold_update_other) (use that in auto)
qed

lemma remap_default:
  assumes "length l = 256"
  shows "keyboard_remap_layout key_table 255 l = Inr (default_layout l)"
proof -
  let ?ks = "filter (\<lambda>k. keycode k \<noteq> 0) (take (255 + 1) key_table)"
  let ?l = "fold (\<lambda>k l. l[unat (keycode k) := routine k]) ?ks l"
  have r: "k \<in> set ?ks \<Longrightarrow> unat (keycode k) < length l" for k
    using keycodes_range assms unfolding key_table_keys by auto
  have "?l ! i = default_layout l ! i" if "i < length l" for i
  proof (cases "\<exists>k\<in>set all_keys. unat (keycode k) = i")
    case True
    then obtain k where k: "k \<in> set all_keys" "unat (keycode k) = i" by auto
    have "?l ! unat (keycode k) = routine k"
      by (rule fold_update_hit) (use k key_table_keys keycodes_inj that in \<open>auto simp del: set_filter\<close>)
    then show ?thesis using default_layout_nth(1) [OF assms k(1)] k(2) by simp
  next
    case False
    then have "?l ! i = l ! i" by (intro fold_update_other) (unfold key_table_keys, auto)
    then show ?thesis using False default_layout_nth(2) [of i l] by auto
  qed
  then have "?l = default_layout l" by (intro nth_equalityI) (auto simp: default_layout_def)
  moreover have "bind_keys ?ks l = Inr ?l" by (rule bind_keys_fold) (rule r)
  ultimately show ?thesis by (simp add: keyboard_remap_layout_def)
qed

lemma default_layout_length [simp]: "length (default_layout l) = length l"
  by (simp add: default_layout_def)

definition azerty_over :: "scancode_routine list \<Rightarrow> scancode_routine list" where
  "azerty_over l = fold (\<lambda>k l. l[unat (keycode k) := routine k]) azerty_layout l"

lemma remap_azerty:
  assumes "length l = 256"
  shows "keyboard_remap_layout azerty_layout 0 l = Inr (azerty_over l)"
proof -
  have all: "takeWhile (\<lambda>k. keycode k \<noteq> 0) azerty_layout = azerty_layout"
    using azerty_codes by (simp add: takeWhile_eq_all_conv)
  have "bind_keys azerty_layout l = Inr (azerty_over l)"
    unfolding azerty_over_def by (rule bind_keys_fold) (use azerty_codes assms in auto)
  then show ?thesis unfolding keyboard_remap_layout_def all by simp
qed

text \<open>C32. The layouts: \<^verbatim>\<open>keyboard_init\<close> binds every key of the tables, no two of which have the same scan code, to
  itself with the handler of its category and leaves every other scan code unbound; switching to the
  AZERTY layout and back succeeds and restores exactly the layout that \<^verbatim>\<open>keyboard_init\<close> installed.\<close>

theorem keyboard_layout_roundtrip:
  assumes "default_key_table K = replicate 256 UNDEFINED_KEY" "length (current_layout K) = 256"
    and "current_layout_type K = QWERTY"
  shows "\<exists>K1 K2. keyboard_init K = Inr K1 \<and> con K1 = con K \<and> key_flags K1 = key_flags K \<and>
    (\<forall>k\<in>set all_keys. current_layout K1 ! unat (keycode k) = routine k \<and> keyboard_get_default_key_handler k \<noteq> None) \<and>
    (\<forall>i < 256. (\<forall>k\<in>set all_keys. unat (keycode k) \<noteq> i) \<longrightarrow> current_layout K1 ! i = UNDEFINED_ROUTINE) \<and>
    keyboard_switch_layout AZERTY K1 = Inr K2 \<and> K2 \<noteq> K1 \<and> keyboard_switch_layout QWERTY K2 = Inr K1"
proof -
  let ?l0 = "replicate 256 UNDEFINED_ROUTINE"
  let ?l1 = "default_layout ?l0"
  let ?K1 = "K\<lparr>default_key_table := key_table, current_layout := ?l1\<rparr>"
  let ?K2 = "?K1\<lparr>current_layout := azerty_over ?l1, current_layout_type := AZERTY\<rparr>"
  have blank: "map (\<lambda>_. UNDEFINED_ROUTINE) (current_layout K) = ?l0" using assms(2) by (simp add: map_replicate_const)
  have 1: "keyboard_init K = Inr ?K1"
    using assms(1) blank remap_default [of ?l0] by (simp add: keyboard_init_def key_table_def [symmetric])
  have 2: "keyboard_switch_layout AZERTY ?K1 = Inr ?K2"
    using assms(3) remap_azerty [of ?l1] by (simp add: keyboard_switch_layout_def)
  have len: "length (azerty_over ?l1) = 256" by (simp add: azerty_over_def)
  have "default_layout (azerty_over ?l1) = ?l1"
  proof (rule nth_equalityI)
    fix i assume "i < length (default_layout (azerty_over ?l1))"
    show "default_layout (azerty_over ?l1) ! i = ?l1 ! i"
    proof (cases "\<exists>k\<in>set all_keys. unat (keycode k) = i")
      case True
      then show ?thesis using default_layout_nth(1) [OF len] default_layout_nth(1) [of ?l0] by auto
    next
      case False
      then have "default_layout (azerty_over ?l1) ! i = azerty_over ?l1 ! i" by (intro default_layout_nth(2)) auto
      also have "\<dots> = ?l1 ! i"
        unfolding azerty_over_def by (rule fold_update_other) (use False azerty_codes in \<open>metis imageE\<close>)
      finally show ?thesis .
    qed
  qed (simp add: azerty_over_def)
  then have 3: "keyboard_switch_layout QWERTY ?K2 = Inr ?K1"
    using assms(3) remap_default [OF len] by (simp add: keyboard_switch_layout_def)
  have "current_layout_type ?K2 \<noteq> current_layout_type ?K1" using assms(3) by simp
  then have "?K2 \<noteq> ?K1" by (rule contrapos_nn) (rule arg_cong)
  moreover have "\<forall>i < 256. (\<forall>k\<in>set all_keys. unat (keycode k) \<noteq> i) \<longrightarrow> ?l1 ! i = UNDEFINED_ROUTINE"
    using default_layout_nth(2) [of _ ?l0] by auto
  moreover have "\<forall>k\<in>set all_keys. ?l1 ! unat (keycode k) = routine k \<and> keyboard_get_default_key_handler k \<noteq> None"
    using default_layout_nth(1) [of ?l0] all_keys_handled by simp
  ultimately show ?thesis using 1 2 3 by (intro exI [of _ ?K1] exI [of _ ?K2]) simp
qed

definition example_keyboard :: keyboard where
  "example_keyboard = \<lparr>key_flags = \<lambda>_. False, default_key_table = replicate 256 UNDEFINED_KEY, current_layout_type = QWERTY,
     current_layout = replicate 256 UNDEFINED_ROUTINE, con = example_console\<rparr>"

theorem keyboard_layout_roundtrip_witness:
  "\<exists>K1 K2. keyboard_init example_keyboard = Inr K1 \<and> keyboard_switch_layout AZERTY K1 = Inr K2 \<and>
     keyboard_switch_layout QWERTY K2 = Inr K1"
  using keyboard_layout_roundtrip [of example_keyboard] by (auto simp: example_keyboard_def)

section \<open>The command line\<close>

text \<open>The line that has been typed.\<close>

definition line :: "tty \<Rightarrow> u8 list" where
  "line t = takeWhile (\<lambda>c. c \<noteq> 0) (cli t)"

lemma cli_split:
  assumes "0 \<in> set (cli t)"
  obtains zs where "cli t = line t @ 0 # zs"
proof -
  from split_list_first [OF assms] obtain ys zs where "cli t = ys @ 0 # zs" "0 \<notin> set ys" by blast
  moreover from this have "line t = ys" by (auto simp: line_def takeWhile_append)
  ultimately show thesis using that by simp
qed

lemma line_nz: "x \<in> set (line t) \<Longrightarrow> x \<noteq> 0"
  by (auto simp: line_def dest: set_takeWhileD)

lemma u8_pred: "x \<noteq> 0 \<Longrightarrow> unat (x - 1 :: u8) = unat x - 1"
  by (subst unat_sub_le) (simp_all add: word_le_nat_alt Suc_le_eq unat_gt_0)

lemma cli_append_spec:
  assumes z: "0 \<in> set (cli t)" and n: "length (cli t) = 256" "length (line t) < 255" and c: "c \<noteq> 0"
  obtains xs where "cli_append c t = Inr (t\<lparr>cli := xs\<rparr>)" "line (t\<lparr>cli := xs\<rparr>) = line t @ [c]" "0 \<in> set xs" "length xs = 256"
proof -
  obtain zs where zs: "cli t = line t @ 0 # zs" using cli_split [OF z] .
  then obtain z' zs' where z': "zs = z' # zs'" using n by (cases zs) (auto dest: arg_cong [of _ _ length])
  let ?xs = "line t @ c # 0 # zs'"
  have "(cli t)[length (line t) := c, length (line t) + 1 := 0] = ?xs"
    by (subst zs) (simp add: z' list_update_append)
  moreover have "cli_len t = Inr (length (line t))" using z by (simp add: cli_len_def line_def)
  moreover have "length (line t) + 1 < length (cli t)" using n by simp
  ultimately have "cli_append c t = Inr (t\<lparr>cli := ?xs\<rparr>)" using n by (simp add: cli_append_def MAX_CMD_LEN_def)
  moreover have "line (t\<lparr>cli := ?xs\<rparr>) = line t @ [c]"
    using c line_nz [of _ t] unfolding line_def [of "t\<lparr>cli := ?xs\<rparr>"] by (simp add: takeWhile_append2)
  moreover have "length ?xs = 256" using n zs z' by (metis length_Cons length_append)
  ultimately show thesis using that by simp
qed

lemma shown_cli [simp]: "shown (t\<lparr>cli := xs\<rparr>) = shown t"
  by (simp add: shown_def grid_def)

lemma live_cli:
  assumes "live S" "length xs = 256"
  shows "live (upd_tty (\<lambda>_. (the_tty S)\<lparr>cli := xs\<rparr>) S)"
proof -
  note L = live_facts [OF assms(1)]
  have "tty_ok ((the_tty S)\<lparr>cli := xs\<rparr>)" using L(3) assms(2) by (simp add: tty_ok_def fb_ok_def)
  then show ?thesis using L by (auto simp: live_def console_ok_upd)
qed

text \<open>A console with a line that can be edited.\<close>

definition editable :: "keyboard \<Rightarrow> bool" where
  "editable K \<longleftrightarrow> live (con K) \<and> 0 \<in> set (cli (the_tty (con K)))"

lemma printable_spec:
  assumes K: "editable K" "length (line (the_tty (con K))) < 255"
    and c: "keyboard_get_shifted_value (key_flags K) k = c" "c \<noteq> 0"
  obtains K' where "keyboard_printable_handler P k K = Inr K'" "editable K'"
    "line (the_tty (con K')) = line (the_tty (con K)) @ [c]"
    "shown (the_tty (con K')) = screen_put (mode (the_tty (con K))) c (shown (the_tty (con K)))"
    "vga_buffer (con K') = concat (grid (the_tty (con K')))" "mode (the_tty (con K')) = mode (the_tty (con K))"
proof -
  let ?S = "con K" and ?t = "the_tty (con K)"
  have S: "live ?S" and z: "0 \<in> set (cli ?t)" using K by (auto simp: editable_def)
  note L = live_facts [OF S]
  have len: "length (cli ?t) = 256" using L(3) by (simp add: tty_ok_def)
  obtain xs where xs: "cli_append c ?t = Inr (?t\<lparr>cli := xs\<rparr>)" "line (?t\<lparr>cli := xs\<rparr>) = line ?t @ [c]" "0 \<in> set xs" "length xs = 256"
    using cli_append_spec [OF z len K(2) c(2)] .
  let ?S1 = "upd_tty (\<lambda>_. ?t\<lparr>cli := xs\<rparr>) ?S"
  have the: "the_tty ?S1 = ?t\<lparr>cli := xs\<rparr>" using L(2) by simp
  obtain S' where S': "vga_puts P [c] ?S1 = Inr S'" "printed [c] ?S1 S'"
    using put_then_refresh [OF live_cli [OF S xs(4)], of P "[c]"] by (auto simp: vga_puts_def)
  then have l: "cli (the_tty S') = xs" using the by (simp add: printed_def)
  show thesis
  proof (rule that [of "K\<lparr>con := S'\<rparr>"])
    show "keyboard_printable_handler P k K = Inr (K\<lparr>con := S'\<rparr>)"
      using xs(1) S'(1) c(1) by (simp add: keyboard_printable_handler_def)
    show "editable (K\<lparr>con := S'\<rparr>)" using S'(2) l xs(3) by (simp add: editable_def printed_def)
    show "line (the_tty (con (K\<lparr>con := S'\<rparr>))) = line ?t @ [c]" using l xs(2) by (simp add: line_def)
    show "shown (the_tty (con (K\<lparr>con := S'\<rparr>))) = screen_put (mode ?t) c (shown ?t)"
      using S'(2) the by (simp add: printed_def screen_text_def)
  qed (use S'(2) the in \<open>simp_all add: printed_def\<close>)
qed

text \<open>Where the cursor goes back to.\<close>

definition cursor_back :: "nat \<Rightarrow> nat \<Rightarrow> nat \<times> nat" where
  "cursor_back x y = (if x = 0 then if 0 < y then (79, y - 1) else (0, 0) else (x - 1, y))"

lemma backspace_spec:
  assumes K: "editable K" "line (the_tty (con K)) = xs @ [c]"
    and v: "shown (the_tty (con K)) = (g, x, y)" and b: "cursor_back x y = (x', y')"
  obtains K' where "keyboard_backspace_handler k K = Inr K'" "editable K'" "line (the_tty (con K')) = xs"
    "shown (the_tty (con K')) = (g[y' := (g ! y')[x' := (g ! y' ! x')\<lparr>character := 0\<rparr>]], x', y')"
proof -
  let ?S = "con K" and ?t = "the_tty (con K)"
  have S: "live ?S" and z: "0 \<in> set (cli ?t)" using K by (auto simp: editable_def)
  note L = live_facts [OF S]
  have g: "g = grid ?t" "x = unat (cur_x (cursor ?t))" "y = unat (cur_y (cursor ?t))" using v by (auto simp: shown_def)
  obtain zs where zs: "cli ?t = xs @ [c] @ 0 # zs" using cli_split [OF z] K(2) by auto
  have cl: "cli_len ?t = Inr (length xs + 1)" using z K(2) by (simp add: cli_len_def line_def)
  let ?c = "cursor ?t"
  define c' where "c' = cursor_left ?c"
  have c': "unat (cur_x c') = x'" "unat (cur_y c') = y'" "x' < 80" "y' < 25"
    using b g(2,3) L(7,8) by (auto simp: c'_def cursor_left_def cursor_back_def word_less_nat_alt u8_pred unat_eq_0 unat_gt_0 split: if_splits)
  obtain fb where fb: "framebuffer ?t = Some fb" "length fb = 20480" using L(4) by (auto simp: fb_ok_def)
  let ?r = "unat (top_line_index ?t + of_nat y')"
  let ?off = "80 * ?r + x'"
  have yw: "cur_y c' = of_nat y'" using c'(2) by auto
  have r: "?r < 256" by simp
  have off: "?off < length fb" using r c'(3) fb(2) by linarith
  let ?e = "(fb ! ?off)\<lparr>character := 0\<rparr>"
  let ?ys = "xs @ 0 # 0 # zs"
  define t' where "t' = ?t\<lparr>cli := ?ys, cursor := c', framebuffer := Some (fb[?off := ?e])\<rparr>"
  have ys: "(cli ?t)[length xs := 0] = ?ys" by (simp add: zs list_update_append)
  let ?S' = "upd_tty (\<lambda>_. t') (upd_io (vga_set_cursor_position (cur_x c') (cur_y c')) ?S)"
  have h: "keyboard_backspace_handler k K = Inr (K\<lparr>con := ?S'\<rparr>)"
    using cl fb off c'(1) unfolding keyboard_backspace_handler_def Let_def c'_def [symmetric] yw
    by (simp add: ys yw fb_store_def VGA_WIDTH_def mult.commute t'_def c'_def [symmetric])
  have the: "the_tty ?S' = t'" using L(2) by simp
  have "x \<noteq> 0" if "x \<in> set xs" for x using line_nz [of x ?t] K(2) that by simp
  then have ln: "line t' = xs" unfolding line_def t'_def by (simp add: takeWhile_append2)
  have "length ?ys = 256" using zs L(3) by (simp add: tty_ok_def)
  then have "tty_ok t'" using c' fb(2) by (simp add: tty_ok_def t'_def fb_ok_def word_less_nat_alt)
  then have "live ?S'" using L the by (auto simp: live_def t'_def console_ok_upd)
  moreover have "fb ! ?off = g ! y' ! x'" using fb c'(3,4) r g(1) by (simp add: grid_nth fb_line_nth)
  moreover have "grid t' = (grid ?t)[y' := (grid ?t ! y')[x' := ?e]]"
    using grid_store [OF fb c'(3,4), of ?e] by (simp add: grid_def t'_def)
  ultimately show thesis
    using that [OF h] the ln c' g(1) by (simp add: editable_def shown_def t'_def)
qed

lemma write_cell_inside:
  "x < 79 \<Longrightarrow> y < 25 \<Longrightarrow> write_cell m c (g, x, y) = (g[y := (g ! y)[x := \<lparr>character = c, e_mode = m\<rparr>]], x + 1, y)"
  by (simp add: write_cell_def next_cell_def)

lemma write_cell_margin:
  "y < 25 \<Longrightarrow> write_cell m c (g, 79, y) =
     (let h = g[y := (g ! y)[79 := \<lparr>character = c, e_mode = m\<rparr>]] in
      if y = 24 then (tl h @ [replicate 80 (blank_entry m)], 0, 24) else (h, 0, y + 1))"
  by (simp add: write_cell_def next_cell_def Let_def)

lemma tl_update: "tl (xs[Suc i := v]) = (tl xs)[i := v]"
  by (cases xs) auto

text \<open>Setting a cell again, in place or after the screen was scrolled by one line.\<close>

lemma cell_again:
  assumes "length g = 25" "y < 25" "length (g ! y) = 80" "x < 80"
  shows "(g[y := (g ! y)[x := e]])[y := (g[y := (g ! y)[x := e]] ! y)[x := f]] = g[y := (g ! y)[x := f]]"
    "g[y := (g ! y)[x := e]] ! y ! x = e"
    "h = tl (g[24 := (g ! 24)[79 := e]]) @ [r] \<Longrightarrow> y = 24 \<Longrightarrow> h ! 23 ! 79 = e \<and>
       h[23 := (h ! 23)[79 := f]] = tl (g[24 := (g ! 24)[79 := f]]) @ [r]"
proof -
  assume h: "h = tl (g[24 := (g ! 24)[79 := e]]) @ [r]" "y = 24"
  have l: "length (tl g) = 24" using assms(1) by simp
  have t: "tl (g[24 := v]) = (tl g)[23 := v]" for v using tl_update [of g 23 v] by (simp add: eval_nat_numeral)
  have "h ! 23 = (g ! 24)[79 := e]" unfolding h(1) t using l by (simp add: nth_append)
  moreover from this have "h[23 := (h ! 23)[79 := f]] = tl (g[24 := (g ! 24)[79 := f]]) @ [r]"
    using l unfolding h(1) t by (simp add: list_update_append1)
  ultimately show "h ! 23 ! 79 = e \<and> h[23 := (h ! 23)[79 := f]] = tl (g[24 := (g ! 24)[79 := f]]) @ [r]"
    using assms(3) h(2) by simp
qed (use assms in simp_all)

text \<open>C33. Line editing: on a terminal that is not scrolled back, a key whose character is not a control character (tab, line
  feed, carriage return, null) appends its character (shifted when shift or caps lock is on) to the line, as long as that
  holds fewer than 255 characters, and shows it at the cursor, in the frame buffer and on the VGA screen. The cursor goes to the next
  cell, from the last column to the next line, and from the last cell of the screen to a new line, for which the screen scrolls.
  Backspace then removes exactly that character from the line, and the cursor goes back to its cell, wherever that is, which
  is blanked.\<close>

theorem keyboard_type_erase:
  assumes K: "editable K" "length (line (the_tty (con K))) < 255"
    and c: "keyboard_get_shifted_value (key_flags K) k = c" "c \<notin> {0, 9, 10, 13}"
    and v: "shown (the_tty (con K)) = (g, x, y)"
    and m: "m = mode (the_tty (con K))" and put: "put = (\<lambda>e. g[y := (g ! y)[x := e]])"
  shows "\<exists>K1 K2. keyboard_printable_handler P k K = Inr K1 \<and>
    line (the_tty (con K1)) = line (the_tty (con K)) @ [c] \<and>
    shown (the_tty (con K1)) =
      (if x < 79 then (put \<lparr>character = c, e_mode = m\<rparr>, x + 1, y)
       else if y < 24 then (put \<lparr>character = c, e_mode = m\<rparr>, 0, y + 1)
       else (tl (put \<lparr>character = c, e_mode = m\<rparr>) @ [replicate 80 (blank_entry m)], 0, 24)) \<and>
    vga_buffer (con K1) = concat (grid (the_tty (con K1))) \<and>
    keyboard_backspace_handler b K1 = Inr K2 \<and> editable K2 \<and>
    line (the_tty (con K2)) = line (the_tty (con K)) \<and>
    shown (the_tty (con K2)) =
      (if x < 79 \<or> y < 24 then (put (blank_entry m), x, y)
       else (tl (put (blank_entry m)) @ [replicate 80 (blank_entry m)], 79, 23))"
proof -
  let ?t = "the_tty (con K)" and ?e = "\<lparr>character = c, e_mode = m\<rparr>"
  have "live (con K)" using K by (simp add: editable_def)
  note L = live_facts [OF this]
  have y: "y < 25" "length g = 25" "x < 80" using v L(7,8) by (auto simp: shown_def word_less_nat_alt)
  have gy: "length (g ! y) = 80" using v y L(4) by (auto simp: shown_def grid_nth fb_ok_def)
  note cell = cell_again [OF y(2,1) gy y(3)]
  obtain K1 where K1: "keyboard_printable_handler P k K = Inr K1" "editable K1" "line (the_tty (con K1)) = line ?t @ [c]"
      "shown (the_tty (con K1)) = screen_put (mode ?t) c (shown ?t)" "vga_buffer (con K1) = concat (grid (the_tty (con K1)))"
    using printable_spec [OF K c(1)] c(2) by blast
  have blank: "?e\<lparr>character := 0\<rparr> = blank_entry m" by (simp add: blank_entry_def)
  consider "x < 79" | "x = 79" "y < 24" | "x = 79" "y = 24" using y by linarith
  then show ?thesis
  proof cases
    case 1
    have v1: "shown (the_tty (con K1)) = (put ?e, x + 1, y)"
      using K1(4) c(2) v y 1 by (simp add: screen_put_def write_cell_inside m put)
    obtain K2 where "keyboard_backspace_handler b K1 = Inr K2" "editable K2" "line (the_tty (con K2)) = line ?t"
        "shown (the_tty (con K2)) = ((put ?e)[y := (put ?e ! y)[x := (put ?e ! y ! x)\<lparr>character := 0\<rparr>]], x, y)"
      using backspace_spec [OF K1(2,3) v1, of x y] by (auto simp: cursor_back_def)
    then show ?thesis
      using K1(1,3,5) v1 1 cell(1) [of ?e "blank_entry m"] cell(2) [of ?e] blank by (simp add: put)
  next
    case 2
    have v1: "shown (the_tty (con K1)) = (put ?e, 0, y + 1)"
      using K1(4) c(2) v y 2 by (simp add: screen_put_def write_cell_margin m put)
    obtain K2 where "keyboard_backspace_handler b K1 = Inr K2" "editable K2" "line (the_tty (con K2)) = line ?t"
        "shown (the_tty (con K2)) = ((put ?e)[y := (put ?e ! y)[79 := (put ?e ! y ! 79)\<lparr>character := 0\<rparr>]], 79, y)"
      using backspace_spec [OF K1(2,3) v1, of 79 y] by (auto simp: cursor_back_def)
    then show ?thesis
      using K1(1,3,5) v1 2 cell(1) [of ?e "blank_entry m"] cell(2) [of ?e] blank by (simp add: put)
  next
    case 3
    let ?h = "tl (put ?e) @ [replicate 80 (blank_entry m)]"
    have v1: "shown (the_tty (con K1)) = (?h, 0, 24)"
      using K1(4) c(2) v y 3 by (simp add: screen_put_def write_cell_margin m put Let_def)
    obtain K2 where K2: "keyboard_backspace_handler b K1 = Inr K2" "editable K2" "line (the_tty (con K2)) = line ?t"
        "shown (the_tty (con K2)) = (?h[23 := (?h ! 23)[79 := (?h ! 23 ! 79)\<lparr>character := 0\<rparr>]], 79, 23)"
      using backspace_spec [OF K1(2,3) v1, of 79 23] by (auto simp: cursor_back_def)
    have "?h ! 23 ! 79 = ?e" "?h[23 := (?h ! 23)[79 := blank_entry m]] = tl (put (blank_entry m)) @ [replicate 80 (blank_entry m)]"
      using cell(3) [OF refl 3(2), of ?e "replicate 80 (blank_entry m)" "blank_entry m"] 3 by (simp_all add: put)
    then show ?thesis using K1(1,3,5) v1 3 K2 blank by simp
  qed
qed

lemma cell_range: "i < 80 \<Longrightarrow> 80 * unat (r :: u8) + i < 20480"
  using u8_bound [of r] by linarith

lemma example_shown: "shown (the_tty example_console) = (replicate 25 (replicate 80 (blank_entry 31)), 0, 0)"
proof -
  let ?t = "blank_tty\<lparr>framebuffer := Some (replicate 20480 (blank_entry 31))\<rparr>"
  have "grid ?t ! y = replicate 80 (blank_entry 31)" if "y < 25" for y
    by (rule nth_equalityI) (use that in \<open>auto simp: grid_nth fb_line_nth cell_range\<close>)
  then have "grid ?t = replicate 25 (replicate 80 (blank_entry 31))" by (intro nth_equalityI) auto
  then show ?thesis by (simp add: the_tty_def example_console_def shown_def blank_tty_def)
qed

lemma example_editable: "editable example_keyboard" "line (the_tty (con example_keyboard)) = []"
  using example_console_live
  by (simp_all add: editable_def example_keyboard_def the_tty_def example_console_def blank_tty_def line_def)

theorem keyboard_type_erase_witness:
  "\<exists>K1. keyboard_printable_handler \<lparr>in8 = \<lambda>_ _. 0, in16 = \<lambda>_ _. 0, in32 = \<lambda>_ _. 0\<rparr> (chars CHR ''a'' CHR ''A'' 0x1E LETTER)
     example_keyboard = Inr K1 \<and> line (the_tty (con K1)) = [97]"
proof -
  have v: "shown (the_tty (con example_keyboard)) = (replicate 25 (replicate 80 (blank_entry 31)), 0, 0)"
    using example_shown by (simp add: example_keyboard_def)
  have c: "keyboard_get_shifted_value (key_flags example_keyboard) (chars CHR ''a'' CHR ''A'' 0x1E LETTER) = 97"
    by (simp add: keyboard_get_shifted_value_def chars_def mk_key_def example_keyboard_def)
  show ?thesis
    using keyboard_type_erase [OF example_editable(1) _ c _ v refl refl, of "\<lparr>in8 = \<lambda>_ _. 0, in16 = \<lambda>_ _. 0, in32 = \<lambda>_ _. 0\<rparr>"]
      example_editable(2) by auto
qed

text \<open>The limit of the line: when it holds 255 characters, the next printable key passes the guard of the
  handler, which compares the length with \<^verbatim>\<open>MAX_CMD_LEN\<close>, and the terminating null byte is written one past
  the end of the array.\<close>

theorem keyboard_line_overflow:
  assumes "editable K" "length (line (the_tty (con K))) = 255"
  shows "keyboard_printable_handler P k K = Inl OutOfBounds"
proof -
  let ?t = "the_tty (con K)"
  have "live (con K)" and z: "0 \<in> set (cli ?t)" using assms by (auto simp: editable_def)
  then have "length (cli ?t) = 256" using live_facts(3) by (auto simp: tty_ok_def)
  moreover have "cli_len ?t = Inr 255" using z assms(2) by (simp add: cli_len_def line_def)
  ultimately show ?thesis by (simp add: keyboard_printable_handler_def cli_append_def MAX_CMD_LEN_def)
qed

definition full_line :: keyboard where
  "full_line = example_keyboard\<lparr>con := upd_tty (\<lambda>_. (the_tty example_console)\<lparr>cli := replicate 255 97 @ [0]\<rparr>) example_console\<rparr>"

theorem keyboard_line_overflow_witness:
  "keyboard_printable_handler \<lparr>in8 = \<lambda>_ _. 0, in16 = \<lambda>_ _. 0, in32 = \<lambda>_ _. 0\<rparr> (chars CHR ''a'' CHR ''A'' 0x1E LETTER) full_line
   = Inl OutOfBounds"
proof (rule keyboard_line_overflow)
  have the: "the_tty (con full_line) = (the_tty example_console)\<lparr>cli := replicate 255 97 @ [0]\<rparr>"
    using live_facts(2) [OF example_console_live] by (simp add: full_line_def)
  show "editable full_line"
    using live_cli [OF example_console_live, of "replicate 255 97 @ [0]"] the by (simp add: editable_def full_line_def)
  show "length (line (the_tty (con full_line))) = 255"
    unfolding the line_def by (simp add: takeWhile_append)
qed

section \<open>The history of a terminal\<close>

lemma u8_through_u32: "(ucast (ucast (x :: u8) :: u32) :: u8) = x"
  by (rule bit_eqI) (auto simp: bit_simps dest: bit_imp_le_length)

text \<open>
  The keys of a history session. Page up, and the up key with the control key, enter the history, also when it is shown
  already; up, down and page down move the view.
\<close>

definition enters :: "keyboard \<Rightarrow> keyboard_key \<Rightarrow> bool" where
  "enters K k \<longleftrightarrow> key_value k = COLOR_PGUP \<or> (key_value k = COLOR_UP \<and> key_flags K Left_ctrl)"

definition history_key :: "keyboard_key \<Rightarrow> bool" where
  "history_key k \<longleftrightarrow> key_value k \<in> {COLOR_PGUP, COLOR_UP, COLOR_PGDN, COLOR_DOWN}"

fun press_keys :: "ports \<Rightarrow> keyboard_key list \<Rightarrow> keyboard \<Rightarrow> keyboard kres" where
  "press_keys P [] K = Inr K"
| "press_keys P (k # ks) K = kbind (keyboard_navigation_handler P k K) (press_keys P ks)"

text \<open>
  What a session should do, counted in lines: the history was entered \<open>b\<close> lines above the line shown first on the terminal, and
  the view is \<open>d\<close> lines above that. There are \<open>top\<close> lines above the terminal, or, once the ring of 256 lines has been filled, always 255.
\<close>

definition lines_above :: "tty \<Rightarrow> nat \<Rightarrow> nat" where
  "lines_above t b = (if stop_scroll (history t) then unat (top_line_index t) - b else 255)"

definition view_step :: "keyboard \<Rightarrow> tty \<Rightarrow> keyboard_key \<Rightarrow> nat \<times> nat \<Rightarrow> nat \<times> nat" where
  "view_step K t k = (\<lambda>(b, d).
     if enters K k then (b + d, min 1 (lines_above t (b + d)))
     else if key_value k = COLOR_UP then (b, min (d + 1) (lines_above t b))
     else (b, d - 1))"

text \<open>A console that shows the history of its terminal, which was \<open>t\<close>: only the first line shown and the saved line differ.\<close>

definition in_history :: "tty \<Rightarrow> console \<Rightarrow> nat \<times> nat \<Rightarrow> console \<Rightarrow> bool" where
  "in_history t S bd S' \<longleftrightarrow> (\<exists>tr. S' = upd_tty (\<lambda>_. t\<lparr>
     history := (history t)\<lparr>status := True, top_line_save := ucast (top_line_index t - of_nat (fst bd))\<rparr>,
     top_line_index := top_line_index t - of_nat (fst bd + snd bd)\<rparr>) (S\<lparr>io := tr\<rparr>))"

definition view_ok :: "tty \<Rightarrow> nat \<times> nat \<Rightarrow> bool" where
  "view_ok t bd \<longleftrightarrow> snd bd \<le> lines_above t (fst bd) \<and> (stop_scroll (history t) \<longrightarrow> fst bd \<le> unat (top_line_index t))"

lemma color_keys: "COLOR_PGUP \<noteq> COLOR_UP" "COLOR_PGDN \<noteq> COLOR_UP" "COLOR_DOWN \<noteq> COLOR_UP" "COLOR_PGDN \<noteq> COLOR_PGUP" "COLOR_DOWN \<noteq> COLOR_PGUP"
  by (simp_all add: COLOR_PGUP_def COLOR_UP_def COLOR_PGDN_def COLOR_DOWN_def nav_color_def VGA_COLOR_def)

lemma unat_u8: "m < 256 \<Longrightarrow> unat (of_nat m :: u8) = m"
  by (rule unat_of_nat_lt) simp

lemma same_top: "t\<lparr>history := h, top_line_index := top_line_index t\<rparr> = t\<lparr>history := h\<rparr>"
  by (cases t) simp

lemma history_then_top: "t\<lparr>top_line_index := a, history := h\<rparr> = t\<lparr>history := h, top_line_index := a\<rparr>"
  by (cases t) simp

text \<open>The oldest line is reached exactly when no line is left above.\<close>

lemma oldest_reached:
  assumes "view_ok t (b, d)"
  shows "top_line_index t - of_nat (b + d) = (if stop_scroll (history t) then 0 else top_line_index t - of_nat b + 1) \<longleftrightarrow>
    d = lines_above t b"
proof (cases "stop_scroll (history t)")
  case True
  let ?top = "top_line_index t"
  have le: "b + d \<le> unat ?top" using True assms by (auto simp: view_ok_def lines_above_def)
  then have "b + d < 256" using u8_bound [of ?top] by linarith
  note n = unat_u8 [OF this]
  have "unat (?top - of_nat (b + d)) = unat ?top - (b + d)"
    using le n by (subst unat_sub) (simp_all add: word_le_nat_alt del: of_nat_add)
  then have "?top - of_nat (b + d) = 0 \<longleftrightarrow> unat ?top - (b + d) = 0" by (metis unat_eq_0)
  then show ?thesis using True le by (auto simp: lines_above_def simp del: of_nat_add)
next
  case False
  then have d: "d \<le> 255" using assms by (simp add: view_ok_def lines_above_def)
  have "top_line_index t - of_nat (b + d) = top_line_index t - of_nat b + 1 \<longleftrightarrow> (of_nat (d + 1) :: u8) = 0"
    by (auto simp: algebra_simps)
  also have "\<dots> \<longleftrightarrow> d = 255"
  proof
    assume "(of_nat (d + 1) :: u8) = 0"
    then have "unat (of_nat (d + 1) :: u8) = 0" by simp
    then show "d = 255" using d unat_u8 [of "d + 1"] by (cases "d = 255") auto
  qed simp
  finally show ?thesis using False by (simp add: lines_above_def)
qed

lemma enable_step:
  assumes "in_history t S (b, d) S'" "current_tty S < length (ttys S)"
  shows "in_history t S (b + d, 0) (tty_history_enable S')"
proof -
  obtain tr where "S' = upd_tty (\<lambda>_. t\<lparr>
     history := (history t)\<lparr>status := True, top_line_save := ucast (top_line_index t - of_nat b)\<rparr>,
     top_line_index := top_line_index t - of_nat (b + d)\<rparr>) (S\<lparr>io := tr\<rparr>)" using assms(1) by (auto simp: in_history_def)
  then show ?thesis
    using assms(2) unfolding in_history_def tty_history_enable_def
    by (intro exI [of _ "vga_disable_cursor tr"]) (simp add: upd_tty_def upd_nth_def upd_io_def history_then_top)
qed

lemma scroll_steps:
  assumes S': "in_history t S (b, d) S'" and cur: "current_tty S < length (ttys S)" and ok: "view_ok t (b, d)"
  shows "in_history t S (b, min (d + 1) (lines_above t b)) (tty_history_scroll_up S')"
    "in_history t S (b, d - 1) (tty_history_scroll_down S')"
    "status (history (the_tty S'))"
proof -
  let ?top = "top_line_index t"
  let ?t = "\<lambda>d. t\<lparr>history := (history t)\<lparr>status := True, top_line_save := ucast (?top - of_nat b)\<rparr>,
     top_line_index := ?top - of_nat (b + d)\<rparr>"
  obtain tr where tr: "S' = upd_tty (\<lambda>_. ?t d) (S\<lparr>io := tr\<rparr>)" using S' by (auto simp: in_history_def)
  have c: "current_tty (S\<lparr>io := tr\<rparr>) < length (ttys (S\<lparr>io := tr\<rparr>))" using cur by simp
  have the: "the_tty S' = ?t d" unfolding tr using the_tty_upd [OF c] by simp
  then show st: "status (history (the_tty S'))" by simp
  have fields: "status (history (the_tty S')) = True" "stop_scroll (history (the_tty S')) = stop_scroll (history t)"
    "top_line_index (the_tty S') = ?top - of_nat (b + d)" "(ucast (top_line_save (history (the_tty S'))) :: u8) = ?top - of_nat b"
    using the by (simp_all add: u8_through_u32)
  have again: "upd_tty f S' = upd_tty (\<lambda>_. f (?t d)) (S\<lparr>io := tr\<rparr>)" for f unfolding tr using upd_upd [OF c] by simp
  have hist: "in_history t S (b, n) (upd_tty (\<lambda>_. ?t n) (S\<lparr>io := tr\<rparr>))" for n
    unfolding in_history_def by (intro exI [of _ tr]) simp
  have le: "d \<le> lines_above t b" using ok by (simp add: view_ok_def)
  have "unat ?top - b \<le> 255" using u8_bound [of ?top] by linarith
  then have "lines_above t b \<le> 255" by (simp add: lines_above_def)
  then have d: "d \<le> 255" using le by linarith
  show "in_history t S (b, min (d + 1) (lines_above t b)) (tty_history_scroll_up S')"
  proof (cases "d = lines_above t b")
    case True
    have "?top - of_nat (b + d) = (if stop_scroll (history t) then 0 else ?top - of_nat b + 1)"
      using oldest_reached [OF ok] True by blast
    then have "tty_history_scroll_up S' = S'"
      by (simp only: tty_history_scroll_up_def Let_def fields simp_thms if_False if_True)
    then show ?thesis using S' True by simp
  next
    case False
    then have "tty_history_scroll_up S' = upd_tty (\<lambda>t. t\<lparr>top_line_index := top_line_index t - 1\<rparr>) S'"
      by (simp only: tty_history_scroll_up_def Let_def fields oldest_reached [OF ok] simp_thms if_False)
    also have "\<dots> = upd_tty (\<lambda>_. ?t (d + 1)) (S\<lparr>io := tr\<rparr>)" unfolding again by (simp add: algebra_simps)
    finally have "tty_history_scroll_up S' = upd_tty (\<lambda>_. ?t (d + 1)) (S\<lparr>io := tr\<rparr>)" .
    then show ?thesis using hist [of "d + 1"] False le by (simp add: min_def)
  qed
  show "in_history t S (b, d - 1) (tty_history_scroll_down S')"
  proof (cases d)
    case 0
    then have "tty_history_scroll_down S' = S'" by (simp add: tty_history_scroll_down_def the u8_through_u32)
    then show ?thesis using S' 0 by simp
  next
    case (Suc n)
    have "(of_nat d :: u8) \<noteq> 0" using unat_u8 [of d] d Suc by auto
    then have "tty_history_scroll_down S' = upd_tty (\<lambda>_. ?t n) (S\<lparr>io := tr\<rparr>)"
      using Suc by (simp add: tty_history_scroll_down_def the u8_through_u32 again algebra_simps)
    then show ?thesis using hist [of n] Suc by simp
  qed
qed

lemma history_key_step:
  assumes S': "in_history t S bd (con K')" and cur: "current_tty S < length (ttys S)" and ok: "view_ok t bd"
    and k: "history_key k" and fl: "key_flags K' = key_flags K"
  shows "\<exists>S''. keyboard_navigation_handler P k K' = Inr (K'\<lparr>con := S''\<rparr>) \<and> in_history t S (view_step K t k bd) S''"
    "view_ok t (view_step K t k bd)"
proof -
  obtain b d where bd: "bd = (b, d)" by (cases bd)
  note s1 = scroll_steps [OF S' [unfolded bd] cur ok [unfolded bd]]
  note e1 = enable_step [OF S' [unfolded bd] cur]
  have ok0: "view_ok t (b + d, 0)" using ok bd by (auto simp: view_ok_def lines_above_def split: if_splits)
  note s2 = scroll_steps [OF e1 cur ok0]
  show "view_ok t (view_step K t k bd)"
    using ok ok0 bd by (auto simp: view_ok_def view_step_def)
  have en: "enters K' k = enters K k" using fl by (simp add: enters_def)
  show "\<exists>S''. keyboard_navigation_handler P k K' = Inr (K'\<lparr>con := S''\<rparr>) \<and> in_history t S (view_step K t k bd) S''"
  proof (cases "enters K k")
    case True
    then have "key_value k = COLOR_PGUP \<or> key_value k = COLOR_UP" by (auto simp: enters_def)
    then have "keyboard_navigation_handler P k K' = Inr (K'\<lparr>con := tty_history_scroll_up (tty_history_enable (con K'))\<rparr>)"
      using True en s2(3) by (auto simp: keyboard_navigation_handler_def enters_def [symmetric])
    then show ?thesis
      using s2(1) True bd by (intro exI [of _ "tty_history_scroll_up (tty_history_enable (con K'))"]) (simp add: view_step_def)
  next
    case False
    have h: "keyboard_navigation_handler P k K' = Inr (K'\<lparr>con := (if key_value k = COLOR_PGUP \<or> key_value k = COLOR_UP
        then tty_history_scroll_up (con K') else if key_value k = COLOR_PGDN \<or> key_value k = COLOR_DOWN
        then tty_history_scroll_down (con K') else con K')\<rparr>)"
      using False en s1(3) by (simp add: keyboard_navigation_handler_def enters_def [symmetric])
    have "key_value k \<noteq> COLOR_PGUP" using False by (simp add: enters_def)
    then have "key_value k = COLOR_UP \<or> key_value k \<noteq> COLOR_UP \<and> (key_value k = COLOR_PGDN \<or> key_value k = COLOR_DOWN)"
      using k by (auto simp: history_key_def)
    then show ?thesis
    proof (elim disjE conjE)
      assume "key_value k = COLOR_UP"
      then show ?thesis
        using h s1(1) False bd by (intro exI [of _ "tty_history_scroll_up (con K')"]) (simp add: view_step_def)
    qed (use h s1(2) False bd \<open>key_value k \<noteq> COLOR_PGUP\<close> in
        \<open>intro exI [of _ "tty_history_scroll_down (con K')"], simp add: view_step_def\<close>)+
  qed
qed

lemma history_session:
  assumes "in_history t S bd (con K')" and "current_tty S < length (ttys S)" and "view_ok t bd"
    and "\<forall>k \<in> set ks. history_key k" and "key_flags K' = key_flags K"
  shows "\<exists>S''. press_keys P ks K' = Inr (K'\<lparr>con := S''\<rparr>) \<and> in_history t S (fold (view_step K t) ks bd) S''"
  using assms(1,3-)
proof (induction ks arbitrary: bd K')
  case Nil
  then show ?case by (intro exI [of _ "con K'"]) simp
next
  case (Cons k ks)
  note st = history_key_step [OF Cons.prems(1) assms(2) Cons.prems(2) _ Cons.prems(4), of k]
  from Cons.prems(3) obtain S1 where S1: "keyboard_navigation_handler P k K' = Inr (K'\<lparr>con := S1\<rparr>)"
    "in_history t S (view_step K t k bd) S1" using st(1) by auto
  have "\<exists>S''. press_keys P ks (K'\<lparr>con := S1\<rparr>) = Inr (K'\<lparr>con := S1, con := S''\<rparr>) \<and>
      in_history t S (fold (view_step K t) ks (view_step K t k bd)) S''"
    by (rule Cons.IH) (use S1(2) st(2) Cons.prems(3,4) in simp_all)
  then show ?case using S1(1) by auto
qed

text \<open>Leaving the history.\<close>

lemma leave_history:
  assumes "in_history t S (b, d) S'" "live S" "t = the_tty S"
  shows "live (tty_history_disable P S')" "shown (the_tty (tty_history_disable P S')) = shown (t\<lparr>top_line_index := top_line_index t - of_nat b\<rparr>)"
proof -
  note L = live_facts [OF assms(2)]
  obtain tr where tr: "S' = upd_tty (\<lambda>_. t\<lparr>
     history := (history t)\<lparr>status := True, top_line_save := ucast (top_line_index t - of_nat b)\<rparr>,
     top_line_index := top_line_index t - of_nat (b + d)\<rparr>) (upd_io (\<lambda>_. tr) S)"
    using assms(1) by (auto simp: in_history_def upd_io_def)
  let ?D = "tty_history_disable P S'" and ?top = "top_line_index t - of_nat b"
  have the: "the_tty ?D = t\<lparr>history := (history t)\<lparr>status := False, top_line_save := ucast ?top\<rparr>, top_line_index := ?top\<rparr>"
    using L(2) unfolding tr tty_history_disable_def by (simp add: u8_through_u32)
  show "shown (the_tty ?D) = shown (t\<lparr>top_line_index := ?top\<rparr>)" unfolding the by (simp add: shown_def grid_def)
  have "console_ok ?D"
    using L assms(3) unfolding tr tty_history_disable_def
    by (intro console_ok_upd) (auto simp: tty_ok_def fb_ok_def intro!: console_ok_upd)
  then show "live ?D" using the L(5,6) assms(3) by (simp add: live_def)
qed

lemma one_entry: "(\<forall>k \<in> set ks. \<not> enters K k) \<Longrightarrow> fst (fold (view_step K t) ks bd) = fst bd"
  by (induction ks arbitrary: bd) (auto simp: view_step_def split: prod.splits if_splits)


definition scrolled_keyboard :: keyboard where
  "scrolled_keyboard = example_keyboard\<lparr>con := upd_tty (\<lambda>_. (the_tty example_console)\<lparr>top_line_index := 7\<rparr>) example_console\<rparr>"

lemma scrolled_live: "live (con scrolled_keyboard)" "the_tty (con scrolled_keyboard) = (the_tty example_console)\<lparr>top_line_index := 7\<rparr>"
proof -
  note L = live_facts [OF example_console_live]
  show the: "the_tty (con scrolled_keyboard) = (the_tty example_console)\<lparr>top_line_index := 7\<rparr>"
    using L(2) by (simp add: scrolled_keyboard_def)
  have "tty_ok ((the_tty example_console)\<lparr>top_line_index := 7\<rparr>)" using L(3) by (simp add: tty_ok_def fb_ok_def)
  then show "live (con scrolled_keyboard)"
    using L the by (auto simp: live_def scrolled_keyboard_def intro!: console_ok_upd)
qed


text \<open>Page up twice: the handler of the navigation keys enters the history again at every page up, so that the
  second one saves the line that is already scrolled back; leaving the history afterwards shows the
  terminal from one line above the one it was left at.\<close>

theorem history_page_up_twice:
  assumes "live (con K)" "key_value k = COLOR_PGUP" "stop_scroll (history (the_tty (con K)))"
    and "top_line_index (the_tty (con K)) \<noteq> 0" "top_line_index (the_tty (con K)) \<noteq> 1"
  shows "\<exists>K1 K2. keyboard_navigation_handler P k K = Inr K1 \<and> keyboard_navigation_handler P k K1 = Inr K2 \<and>
    top_line_index (the_tty (tty_history_disable P (con K2))) = top_line_index (the_tty (con K)) - 1"
proof -
  note L = live_facts [OF assms(1)]
  let ?S = "con K" and ?t = "the_tty (con K)"
  have one: "keyboard_navigation_handler P k K' =
      Inr (K'\<lparr>con := tty_history_scroll_up (tty_history_enable (con K'))\<rparr>)"
    if "current_tty (con K') < length (ttys (con K'))" for K'
    using assms(2) that by (simp add: keyboard_navigation_handler_def tty_history_enable_def)
  have bk: "(ucast (ucast x :: u32) :: u8) = x" for x by (rule u8_through_u32)
  let ?K1 = "K\<lparr>con := tty_history_scroll_up (tty_history_enable ?S)\<rparr>"
  let ?K2 = "?K1\<lparr>con := tty_history_scroll_up (tty_history_enable (con ?K1))\<rparr>"
  have cur: "current_tty (con ?K1) < length (ttys (con ?K1))"
    using L(2) by (simp add: tty_history_scroll_up_def tty_history_enable_def Let_def)
  have "top_line_index (the_tty (con ?K1)) = top_line_index ?t - 1" "stop_scroll (history (the_tty (con ?K1)))"
    using L(2) assms(3,4) by (simp_all add: tty_history_scroll_up_def tty_history_enable_def Let_def)
  then have "top_line_index (the_tty (tty_history_disable P (con ?K2))) = top_line_index ?t - 1"
    using cur assms(5) by (simp add: tty_history_disable_def tty_history_scroll_up_def tty_history_enable_def Let_def bk)
  then show ?thesis using one [OF L(2)] one [OF cur] by auto
qed

theorem history_page_up_twice_witness:
  "\<exists>K1 K2. keyboard_navigation_handler \<lparr>in8 = \<lambda>_ _. 0, in16 = \<lambda>_ _. 0, in32 = \<lambda>_ _. 0\<rparr> (navigation_keys ! 6) scrolled_keyboard = Inr K1 \<and>
     keyboard_navigation_handler \<lparr>in8 = \<lambda>_ _. 0, in16 = \<lambda>_ _. 0, in32 = \<lambda>_ _. 0\<rparr> (navigation_keys ! 6) K1 = Inr K2 \<and>
     top_line_index (the_tty (tty_history_disable \<lparr>in8 = \<lambda>_ _. 0, in16 = \<lambda>_ _. 0, in32 = \<lambda>_ _. 0\<rparr> (con K2))) = 6"
proof -
  note live = scrolled_live(1) and the = scrolled_live(2)
  have stop: "stop_scroll (history (the_tty (con scrolled_keyboard)))"
    unfolding the by (simp add: the_tty_def example_console_def blank_tty_def)
  have up: "key_value (navigation_keys ! 6) = COLOR_PGUP" by (simp add: navigation_keys_def mk_key_def)
  show ?thesis
    using history_page_up_twice [OF live up stop, of "\<lparr>in8 = \<lambda>_ _. 0, in16 = \<lambda>_ _. 0, in32 = \<lambda>_ _. 0\<rparr>"] the by simp
qed

end
