(* ===== verification/Pci.thy ===== *)
theory Pci
  imports Port_Io
begin

text \<open>
  \<^verbatim>\<open>drivers/pci\<close>: access to the configuration space through the ports \<^verbatim>\<open>0xCF8\<close> and \<^verbatim>\<open>0xCFC\<close>, and the enumeration of
  the functions of all buses. A function is addressed by its bus, slot and function number. \<open>mem\<close> says
  whether the \<open>n\<close>-th allocation of the enumeration succeeds.
\<close>

section \<open>Configuration space\<close>

definition PCI_CONFIG_ADDRESS :: u16 where "PCI_CONFIG_ADDRESS = 0xCF8"
definition PCI_CONFIG_DATA :: u16 where "PCI_CONFIG_DATA = 0xCFC"

definition PCI_COMMON_VENDOR_ID :: u8 where "PCI_COMMON_VENDOR_ID = 0x00"
definition PCI_COMMON_DEVICE_ID :: u8 where "PCI_COMMON_DEVICE_ID = 0x02"
definition PCI_COMMON_COMMAND :: u8 where "PCI_COMMON_COMMAND = 0x04"
definition PCI_COMMON_PROG_IF :: u8 where "PCI_COMMON_PROG_IF = 0x09"
definition PCI_COMMON_SUBCLASS :: u8 where "PCI_COMMON_SUBCLASS = 0x0A"
definition PCI_COMMON_CLASS_CODE :: u8 where "PCI_COMMON_CLASS_CODE = 0x0B"
definition PCI_COMMON_HEADER_TYPE :: u8 where "PCI_COMMON_HEADER_TYPE = 0x0E"
definition PCI_VENDOR_ID_INVALID :: u16 where "PCI_VENDOR_ID_INVALID = 0xFFFF"
definition PCI_HEADER_TYPE_MULTIFUNCTION :: u8 where "PCI_HEADER_TYPE_MULTIFUNCTION = 0x80"

record pci_device =
  bus :: u8
  slot :: u8
  func :: u8
  vendor_id :: u16
  device_id :: u16
  class_code :: u8
  sub_class :: u8
  prog_if :: u8

text \<open>The union of \<^verbatim>\<open>type\<close> with the two bytes of the class.\<close>

definition pci_type :: "pci_device \<Rightarrow> u16" where
  "pci_type d = push_bit 8 (ucast (class_code d)) OR ucast (sub_class d)"

definition pci_address :: "pci_device \<Rightarrow> u8 \<Rightarrow> u32" where
  "pci_address d offset =
     push_bit 16 (ucast (bus d)) OR push_bit 11 (ucast (slot d)) OR push_bit 8 (ucast (func d)) OR ucast offset OR push_bit 31 1"

definition pci_config_read_dword :: "ports \<Rightarrow> pci_device \<Rightarrow> u8 \<Rightarrow> io_trace \<Rightarrow> u32 \<times> io_trace" where
  "pci_config_read_dword P d offset t =
     inl P PCI_CONFIG_DATA (outl PCI_CONFIG_ADDRESS (pci_address d offset) t)"

definition pci_config_read_word :: "ports \<Rightarrow> pci_device \<Rightarrow> u8 \<Rightarrow> io_trace \<Rightarrow> u16 \<times> io_trace" where
  "pci_config_read_word P d offset t =
     inw P (PCI_CONFIG_DATA + ucast (offset AND 1)) (outl PCI_CONFIG_ADDRESS (pci_address d (offset AND 0xFE)) t)"

definition pci_config_read_byte :: "ports \<Rightarrow> pci_device \<Rightarrow> u8 \<Rightarrow> io_trace \<Rightarrow> u8 \<times> io_trace" where
  "pci_config_read_byte P d offset t =
     inb P (PCI_CONFIG_DATA + ucast (offset AND 3)) (outl PCI_CONFIG_ADDRESS (pci_address d (offset AND 0xFC)) t)"

definition pci_config_write_dword :: "pci_device \<Rightarrow> u8 \<Rightarrow> u32 \<Rightarrow> io_trace \<Rightarrow> io_trace" where
  "pci_config_write_dword d offset v t =
     outl PCI_CONFIG_DATA v (outl PCI_CONFIG_ADDRESS (pci_address d offset) t)"

definition pci_config_write_word :: "pci_device \<Rightarrow> u8 \<Rightarrow> u16 \<Rightarrow> io_trace \<Rightarrow> io_trace" where
  "pci_config_write_word d offset v t =
     outw (PCI_CONFIG_DATA + ucast (offset AND 1)) v (outl PCI_CONFIG_ADDRESS (pci_address d (offset AND 0xFE)) t)"

definition pci_config_write_byte :: "pci_device \<Rightarrow> u8 \<Rightarrow> u8 \<Rightarrow> io_trace \<Rightarrow> io_trace" where
  "pci_config_write_byte d offset v t =
     outb (PCI_CONFIG_DATA + ucast (offset AND 3)) v (outl PCI_CONFIG_ADDRESS (pci_address d (offset AND 0xFC)) t)"

definition pci_enable_io_space :: "ports \<Rightarrow> pci_device \<Rightarrow> io_trace \<Rightarrow> io_trace" where
  "pci_enable_io_space P d t =
     (let (cmd, t) = pci_config_read_word P d PCI_COMMON_COMMAND t in
      if cmd AND 1 = 0 then pci_config_write_word d PCI_COMMON_COMMAND (cmd OR 1) t else t)"

section \<open>Enumeration\<close>

definition get_vendor_id :: "ports \<Rightarrow> pci_device \<Rightarrow> io_trace \<Rightarrow> u16 \<times> io_trace" where
  "get_vendor_id P d = pci_config_read_word P d PCI_COMMON_VENDOR_ID"

definition get_device_id :: "ports \<Rightarrow> pci_device \<Rightarrow> io_trace \<Rightarrow> u16 \<times> io_trace" where
  "get_device_id P d = pci_config_read_word P d PCI_COMMON_DEVICE_ID"

definition get_class :: "ports \<Rightarrow> pci_device \<Rightarrow> io_trace \<Rightarrow> u8 \<times> io_trace" where
  "get_class P d = pci_config_read_byte P d PCI_COMMON_CLASS_CODE"

definition get_subclass :: "ports \<Rightarrow> pci_device \<Rightarrow> io_trace \<Rightarrow> u8 \<times> io_trace" where
  "get_subclass P d = pci_config_read_byte P d PCI_COMMON_SUBCLASS"

definition get_prog_if :: "ports \<Rightarrow> pci_device \<Rightarrow> io_trace \<Rightarrow> u8 \<times> io_trace" where
  "get_prog_if P d = pci_config_read_byte P d PCI_COMMON_PROG_IF"

definition get_header_type :: "ports \<Rightarrow> pci_device \<Rightarrow> io_trace \<Rightarrow> u8 \<times> io_trace" where
  "get_header_type P d = pci_config_read_byte P d PCI_COMMON_HEADER_TYPE"

text \<open>The list of devices in the order of registration, the ports, and how many allocations were tried.\<close>

record pci_state =
  pci_devices :: "pci_device list"
  pci_io :: io_trace
  pci_allocs :: nat

text \<open>The probe: a device of which only the address is set.\<close>

definition probe_at :: "u8 \<Rightarrow> u8 \<Rightarrow> u8 \<Rightarrow> pci_device" where
  "probe_at b s f = \<lparr>bus = b, slot = s, func = f, vendor_id = 0, device_id = 0, class_code = 0, sub_class = 0, prog_if = 0\<rparr>"

definition pci_register_device ::
  "ports \<Rightarrow> (nat \<Rightarrow> bool) \<Rightarrow> pci_device \<Rightarrow> pci_state \<Rightarrow> pci_device option \<times> pci_state" where
  "pci_register_device P mem probe st =
     (let (cl, t) = get_class P probe (pci_io st);
          (sub, t) = get_subclass P probe t;
          n = pci_allocs st in
      if \<not> mem n then (None, st\<lparr>pci_io := t, pci_allocs := n + 1\<rparr>)
      else
        let d = probe_at (bus probe) (slot probe) (func probe);
            (v, t) = get_vendor_id P d t;
            (i, t) = get_device_id P d t;
            (p, t) = get_prog_if P d t;
            d = d\<lparr>vendor_id := v, device_id := i, prog_if := p, class_code := cl, sub_class := sub\<rparr> in
        (Some d, st\<lparr>pci_devices := pci_devices st @ [d], pci_io := t, pci_allocs := n + 1\<rparr>))"

definition probe_function :: "ports \<Rightarrow> (nat \<Rightarrow> bool) \<Rightarrow> pci_device \<Rightarrow> pci_state \<Rightarrow> pci_device option \<times> pci_state" where
  "probe_function P mem probe st =
     (let (v, t) = get_vendor_id P probe (pci_io st); st = st\<lparr>pci_io := t\<rparr> in
      if v = PCI_VENDOR_ID_INVALID then (None, st) else pci_register_device P mem probe st)"

text \<open>The loop over the functions 1 to 7 of a slot, from function \<open>8 - n\<close> on.\<close>

fun probe_functions :: "ports \<Rightarrow> (nat \<Rightarrow> bool) \<Rightarrow> u8 \<Rightarrow> u8 \<Rightarrow> nat \<Rightarrow> pci_state \<Rightarrow> pci_state" where
  "probe_functions P mem b s 0 st = st"
| "probe_functions P mem b s (Suc n) st =
     probe_functions P mem b s n (snd (probe_function P mem (probe_at b s (of_nat (8 - Suc n))) st))"

definition probe_slot :: "ports \<Rightarrow> (nat \<Rightarrow> bool) \<Rightarrow> u8 \<Rightarrow> u8 \<Rightarrow> pci_state \<Rightarrow> pci_state" where
  "probe_slot P mem b s st =
     (case probe_function P mem (probe_at b s 0) st of
        (None, st) \<Rightarrow> st
      | (Some d, st) \<Rightarrow>
          let (h, t) = get_header_type P d (pci_io st); st = st\<lparr>pci_io := t\<rparr> in
          if h AND PCI_HEADER_TYPE_MULTIFUNCTION = 0 then st
          else probe_functions P mem b s 7 st)"

text \<open>The loop over the 32 slots of a bus, from slot \<open>32 - n\<close> on, and the loop over the buses, which ends when
  the 8-bit number wraps to 0.\<close>

fun probe_slots :: "ports \<Rightarrow> (nat \<Rightarrow> bool) \<Rightarrow> u8 \<Rightarrow> nat \<Rightarrow> pci_state \<Rightarrow> pci_state" where
  "probe_slots P mem b 0 st = st"
| "probe_slots P mem b (Suc n) st = probe_slots P mem b n (probe_slot P mem b (of_nat (32 - Suc n)) st)"

function probe_buses :: "ports \<Rightarrow> (nat \<Rightarrow> bool) \<Rightarrow> u8 \<Rightarrow> pci_state \<Rightarrow> pci_state" where
  "probe_buses P mem b st =
     (let st = probe_slots P mem b 32 st in if b + 1 \<noteq> 0 then probe_buses P mem (b + 1) st else st)"
  by auto
termination
proof (relation "measure (\<lambda>(P, mem, b, st). 255 - unat b)")
  fix P mem st st' and b :: u8
  assume "b + 1 \<noteq> 0"
  then have "unat (b + 1) = unat b + 1" using unatSuc [of b] by (simp add: add.commute)
  moreover have "unat (b + 1) < 256" using unsigned_less [of "b + 1"] by simp
  ultimately show "((P, mem, b + 1, st'), P, mem, b, st) \<in> measure (\<lambda>(P, mem, b, st). 255 - unat b)" by simp
qed simp

declare probe_buses.simps [simp del]

definition pci_init :: "ports \<Rightarrow> (nat \<Rightarrow> bool) \<Rightarrow> pci_state \<Rightarrow> pci_state" where
  "pci_init P mem st = probe_buses P mem 0 st"

definition pci_for_each_device :: "u16 \<Rightarrow> (pci_device \<Rightarrow> 's \<Rightarrow> 's) \<Rightarrow> pci_device list \<Rightarrow> 's \<Rightarrow> 's" where
  "pci_for_each_device ty fn ds s = fold fn (filter (\<lambda>d. pci_type d = ty) ds) s"

end
