(* ===== verification/Pci_Spec.thy ===== *)
theory Pci_Spec
  imports Pci
begin

text \<open>
  The enumeration against a host bridge with configuration mechanism 1: the address register keeps the
  number of a double word, its two lowest bits read as 0, and the byte or word within it is chosen by the data port.
  \<open>cfg\<close> is the configuration space by address.
\<close>

definition pci_host :: "ports \<Rightarrow> (u32 \<Rightarrow> u8) \<Rightarrow> bool" where
  "pci_host P cfg \<longleftrightarrow>
     (\<forall>t a. in16 P (Out32 0xCF8 a # t) 0xCFC = ucast (cfg (a AND NOT 3)) OR push_bit 8 (ucast (cfg ((a AND NOT 3) + 1))) \<and>
        (\<forall>k<4. in8 P (Out32 0xCF8 a # t) (0xCFC + of_nat k) = cfg ((a AND NOT 3) + of_nat k)))"

text \<open>The functions that the configuration space describes.\<close>

definition cfg_vendor :: "(u32 \<Rightarrow> u8) \<Rightarrow> u8 \<Rightarrow> u8 \<Rightarrow> u8 \<Rightarrow> u16" where
  "cfg_vendor cfg b s f = (let a = pci_address (probe_at b s f) 0 in ucast (cfg a) OR push_bit 8 (ucast (cfg (a + 1))))"

definition cfg_device :: "(u32 \<Rightarrow> u8) \<Rightarrow> u8 \<Rightarrow> u8 \<Rightarrow> u8 \<Rightarrow> pci_device" where
  "cfg_device cfg b s f =
     (let a = pci_address (probe_at b s f) 8; v = cfg_vendor cfg b s f in
      \<lparr>bus = b, slot = s, func = f, vendor_id = v, device_id = v, class_code = cfg (a + 3), sub_class = cfg (a + 2),
       prog_if = cfg (a + 1)\<rparr>)"

definition multifunction :: "(u32 \<Rightarrow> u8) \<Rightarrow> u8 \<Rightarrow> u8 \<Rightarrow> bool" where
  "multifunction cfg b s \<longleftrightarrow> cfg (pci_address (probe_at b s 0) 12 + 2) AND 0x80 \<noteq> 0"

definition slot_devices :: "(u32 \<Rightarrow> u8) \<Rightarrow> u8 \<Rightarrow> u8 \<Rightarrow> pci_device list" where
  "slot_devices cfg b s =
     (let present = (\<lambda>f. cfg_vendor cfg b s f \<noteq> 0xFFFF) in
      if present 0 then
        cfg_device cfg b s 0 #
        (if multifunction cfg b s then map (cfg_device cfg b s) (filter present (map of_nat [1..<8])) else [])
      else [])"

definition bus_devices :: "(u32 \<Rightarrow> u8) \<Rightarrow> u8 \<Rightarrow> pci_device list" where
  "bus_devices cfg b = concat (map (slot_devices cfg b) (map of_nat [0..<32]))"

definition all_devices :: "(u32 \<Rightarrow> u8) \<Rightarrow> pci_device list" where
  "all_devices cfg = concat (map (bus_devices cfg) (map of_nat [0..<256]))"

section \<open>Reading the configuration space\<close>

lemma pci_address_probe: "pci_address d offset = pci_address (probe_at (bus d) (slot d) (func d)) offset"
  by (simp add: pci_address_def probe_at_def)

lemma bit_3: "bit (3 :: u32) n \<longleftrightarrow> n < 2"
proof -
  have e: "(3 :: u32) = mask 2" by (simp add: mask_eq_exp_minus_1)
  show ?thesis unfolding e by (simp only: bit_mask_iff) auto
qed

lemma bit_FC: "bit (0xFC :: u8) n \<longleftrightarrow> 2 \<le> n \<and> n < 8"
proof -
  have e: "(0xFC :: u8) = push_bit 2 (mask 6)" by (simp add: mask_eq_exp_minus_1)
  show ?thesis unfolding e by (simp only: bit_push_bit_iff bit_mask_iff) auto
qed

lemma pci_address_aligned: "pci_address d offset AND NOT 3 = pci_address d (offset AND 0xFC)"
proof (rule bit_word_eqI)
  fix n assume n: "n < LENGTH(32)"
  have top: "bit (push_bit 31 1 :: u32) n \<longleftrightarrow> n = 31" using n by (simp only: bit_push_bit_iff bit_1_iff) auto
  show "bit (pci_address d offset AND NOT 3) n = bit (pci_address d (offset AND 0xFC)) n"
  proof (cases "n < 2")
    case True
    then show ?thesis unfolding pci_address_def
      by (simp only: bit_and_iff bit_or_iff bit_not_iff bit_3 top bit_ucast_iff bit_FC bit_push_bit_iff) auto
  next
    case False
    then show ?thesis using n bit_imp_le_length [of offset n] unfolding pci_address_def
      by (simp only: bit_and_iff bit_or_iff bit_not_iff bit_3 top bit_ucast_iff bit_FC bit_push_bit_iff) auto
  qed
qed

lemma read_word_vendor:
  assumes "pci_host P cfg" "offset AND 1 = 0" "offset AND 0xFE AND 0xFC = 0"
  shows "fst (pci_config_read_word P d offset t) = cfg_vendor cfg (bus d) (slot d) (func d)"
proof -
  have "in16 P (Out32 0xCF8 a # t) 0xCFC = ucast (cfg (a AND NOT 3)) OR push_bit 8 (ucast (cfg ((a AND NOT 3) + 1)))" for a
    using assms(1) by (simp add: pci_host_def)
  then show ?thesis
    using assms(2,3) pci_address_probe [of d 0]
    by (simp add: pci_config_read_word_def io_defs PCI_CONFIG_DATA_def PCI_CONFIG_ADDRESS_def pci_address_aligned [simplified] cfg_vendor_def and.assoc Let_def)
qed

lemma read_byte:
  assumes "pci_host P cfg"
  shows "fst (pci_config_read_byte P d offset t) =
    cfg (pci_address (probe_at (bus d) (slot d) (func d)) (offset AND 0xFC) + ucast (offset AND 3))"
proof -
  have k: "unat (offset AND 3) < 4" 
  proof -
    have "offset AND 3 = take_bit 2 offset" by (simp add: take_bit_eq_mask mask_eq_exp_minus_1)
    then show ?thesis by (simp add: unat_mod take_bit_eq_mod)
  qed
  have "(ucast (offset AND 3) :: u16) = of_nat (unat (offset AND 3))" "(ucast (offset AND 3) :: u32) = of_nat (unat (offset AND 3))"
    by simp_all
  moreover have "in8 P (Out32 0xCF8 a # t) (0xCFC + of_nat (unat (offset AND 3))) = cfg ((a AND NOT 3) + of_nat (unat (offset AND 3)))" for a
    using assms k by (simp add: pci_host_def del: of_nat_unat)
  ultimately show ?thesis
    using pci_address_probe [of d "offset AND 0xFC"]
    by (simp add: pci_config_read_byte_def io_defs PCI_CONFIG_DATA_def PCI_CONFIG_ADDRESS_def pci_address_aligned [simplified] and.assoc)
qed

lemmas pci_reads = get_vendor_id_def get_device_id_def get_class_def get_subclass_def get_prog_if_def get_header_type_def
  PCI_COMMON_VENDOR_ID_def PCI_COMMON_DEVICE_ID_def PCI_COMMON_CLASS_CODE_def PCI_COMMON_SUBCLASS_def
  PCI_COMMON_PROG_IF_def PCI_COMMON_HEADER_TYPE_def

lemma probe_at_simps [simp]: "bus (probe_at b s f) = b" "slot (probe_at b s f) = s" "func (probe_at b s f) = f"
  by (simp_all add: probe_at_def)

lemma get_values:
  assumes "pci_host P cfg"
  shows "fst (get_vendor_id P d t) = cfg_vendor cfg (bus d) (slot d) (func d)"
    "fst (get_device_id P d t) = cfg_vendor cfg (bus d) (slot d) (func d)"
    "fst (get_class P d t) = cfg (pci_address (probe_at (bus d) (slot d) (func d)) 8 + 3)"
    "fst (get_subclass P d t) = cfg (pci_address (probe_at (bus d) (slot d) (func d)) 8 + 2)"
    "fst (get_prog_if P d t) = cfg (pci_address (probe_at (bus d) (slot d) (func d)) 8 + 1)"
    "fst (get_header_type P d t) = cfg (pci_address (probe_at (bus d) (slot d) (func d)) 12 + 2)"
  using read_word_vendor [OF assms] read_byte [OF assms] by (simp_all add: pci_reads)

section \<open>The enumeration finds every function\<close>

lemma upt_tail: "n < k \<Longrightarrow> [k - Suc n..<k] = (k - Suc n) # [k - n..<k]"
  by (metis Suc_diff_Suc diff_less less_nat_zero_code not_gr_zero upt_conv_Cons zero_less_Suc)

lemma register_spec:
  assumes "pci_host P cfg" "\<forall>n. mem n"
  obtains st' where "pci_register_device P mem (probe_at b s f) st = (Some (cfg_device cfg b s f), st')"
    "pci_devices st' = pci_devices st @ [cfg_device cfg b s f]"
  using assms(2) get_values [OF assms(1)]
  by (auto simp: pci_register_device_def Let_def split_def cfg_device_def probe_at_def)

lemma probe_function_spec:
  assumes "pci_host P cfg" "\<forall>n. mem n"
  obtains st' where
    "probe_function P mem (probe_at b s f) st = (if cfg_vendor cfg b s f \<noteq> 0xFFFF then Some (cfg_device cfg b s f) else None, st')"
    "pci_devices st' = pci_devices st @ (if cfg_vendor cfg b s f \<noteq> 0xFFFF then [cfg_device cfg b s f] else [])"
proof -
  let ?st = "st\<lparr>pci_io := snd (get_vendor_id P (probe_at b s f) (pci_io st))\<rparr>"
  obtain st' where "pci_register_device P mem (probe_at b s f) ?st = (Some (cfg_device cfg b s f), st')"
      "pci_devices st' = pci_devices ?st @ [cfg_device cfg b s f]"
    using register_spec [OF assms] .
  then show thesis
    using that get_values(1) [OF assms(1), of "probe_at b s f"]
    by (cases "cfg_vendor cfg b s f = 0xFFFF")
       (auto simp: probe_function_def Let_def split_def PCI_VENDOR_ID_INVALID_def)
qed

lemma probe_functions_spec:
  assumes "pci_host P cfg" "\<forall>n. mem n" "n \<le> 8"
  shows "pci_devices (probe_functions P mem b s n st) =
    pci_devices st @ map (cfg_device cfg b s) (filter (\<lambda>f. cfg_vendor cfg b s f \<noteq> 0xFFFF) (map of_nat [8 - n..<8]))"
  using assms(3)
proof (induction n arbitrary: st)
  case (Suc n)
  let ?f = "of_nat (8 - Suc n) :: u8"
  obtain st' where "probe_function P mem (probe_at b s ?f) st =
      (if cfg_vendor cfg b s ?f \<noteq> 0xFFFF then Some (cfg_device cfg b s ?f) else None, st')"
    "pci_devices st' = pci_devices st @ (if cfg_vendor cfg b s ?f \<noteq> 0xFFFF then [cfg_device cfg b s ?f] else [])"
    using probe_function_spec [OF assms(1,2)] .
  moreover have "[8 - Suc n..<8] = (8 - Suc n) # [8 - n..<8]" using Suc.prems by (intro upt_tail) simp
  ultimately show ?case using Suc by (simp only: probe_functions.simps) simp
qed simp

lemma probe_slot_spec:
  assumes "pci_host P cfg" "\<forall>n. mem n"
  shows "pci_devices (probe_slot P mem b s st) = pci_devices st @ slot_devices cfg b s"
proof -
  obtain st' where st': "probe_function P mem (probe_at b s 0) st =
      (if cfg_vendor cfg b s 0 \<noteq> 0xFFFF then Some (cfg_device cfg b s 0) else None, st')"
    "pci_devices st' = pci_devices st @ (if cfg_vendor cfg b s 0 \<noteq> 0xFFFF then [cfg_device cfg b s 0] else [])"
    using probe_function_spec [OF assms] .
  have d: "bus (cfg_device cfg b s 0) = b" "slot (cfg_device cfg b s 0) = s" "func (cfg_device cfg b s 0) = 0"
    by (simp_all add: cfg_device_def Let_def)
  show ?thesis
    using st' get_values(6) [OF assms(1), of "cfg_device cfg b s 0"] d probe_functions_spec [OF assms, of 7]
    by (simp add: probe_slot_def slot_devices_def Let_def split_def multifunction_def PCI_HEADER_TYPE_MULTIFUNCTION_def)
qed

lemma probe_slots_spec:
  assumes "pci_host P cfg" "\<forall>n. mem n" "n \<le> 32"
  shows "pci_devices (probe_slots P mem b n st) =
    pci_devices st @ concat (map (slot_devices cfg b) (map of_nat [32 - n..<32]))"
  using assms(3)
proof (induction n arbitrary: st)
  case (Suc n)
  have "[32 - Suc n..<32] = (32 - Suc n) # [32 - n..<32]" using Suc.prems by (intro upt_tail) simp
  then show ?case using Suc probe_slot_spec [OF assms(1,2)] by (simp only: probe_slots.simps) simp
qed simp

lemma probe_bus_spec:
  assumes "pci_host P cfg" "\<forall>n. mem n"
  shows "pci_devices (probe_slots P mem b 32 st) = pci_devices st @ bus_devices cfg b"
  unfolding bus_devices_def using probe_slots_spec [OF assms, of 32] by simp

lemma probe_buses_spec:
  assumes "pci_host P cfg" "\<forall>n. mem n"
  shows "pci_devices (probe_buses P mem b st) =
    pci_devices st @ concat (map (bus_devices cfg) (map of_nat [unat b..<256]))"
proof (induction "255 - unat b" arbitrary: b st)
  case 0
  moreover have "unat b < 256" using unsigned_less [of b] by simp
  ultimately have "unat b = 255" by simp
  moreover from this have "b = 255" by (simp add: word_unat_eq_iff)
  moreover have "[255..<256] = [255 :: nat]" by (simp add: upt_rec)
  ultimately show ?case
    using probe_bus_spec [OF assms] by (simp add: probe_buses.simps [of P mem 255])
next
  case (Suc k)
  then have lt: "unat b < 255" by simp
  then have b1: "unat (b + 1) = unat b + 1" by (simp add: unat_add_nowrap)
  then have "b + 1 \<noteq> 0" by (metis add_is_0 one_neq_zero unat_0)
  moreover have "[unat b..<256] = unat b # [unat (b + 1)..<256]" using lt b1 by (simp add: upt_conv_Cons)
  moreover have "k = 255 - unat (b + 1)" using Suc.hyps(2) b1 by simp
  ultimately show ?case
    using Suc.hyps(1) [of "b + 1"] probe_bus_spec [OF assms] by (simp add: probe_buses.simps [of P mem b])
qed

text \<open>C35. Enumeration: behind a host bridge with configuration mechanism 1 and with memory for the entries, \<^verbatim>\<open>pci_init\<close>
  terminates and registers, in the order of bus, slot and function, exactly the functions that
  answer: function 0 of every slot with a vendor, and functions 1 to 7 of the slots whose header says that
  they have several, with their class, subclass, interface and vendor. The field \<^verbatim>\<open>device_id\<close> holds the vendor
  as well, because the offset of the word within its double word is not passed to the data port.\<close>

theorem pci_init_complete:
  assumes "pci_host P cfg" "\<forall>n. mem n"
  shows "pci_devices (pci_init P mem st) = pci_devices st @ all_devices cfg \<and>
    (\<forall>d\<in>set (all_devices cfg). device_id d = vendor_id d \<and> vendor_id d \<noteq> PCI_VENDOR_ID_INVALID)"
proof
  show "pci_devices (pci_init P mem st) = pci_devices st @ all_devices cfg"
    using probe_buses_spec [OF assms, of 0] by (simp add: pci_init_def all_devices_def)
  show "\<forall>d\<in>set (all_devices cfg). device_id d = vendor_id d \<and> vendor_id d \<noteq> PCI_VENDOR_ID_INVALID"
    by (auto simp: all_devices_def bus_devices_def slot_devices_def cfg_device_def PCI_VENDOR_ID_INVALID_def Let_def
        split: if_splits)
qed

text \<open>A bridge with one function, of vendor 0x8086.\<close>

definition example_cfg :: "u32 \<Rightarrow> u8" where
  "example_cfg a = (if a = 0x80000000 then 0x86 else if a = 0x80000001 then 0x80 else if a = 0x80000002 then 0x10
     else if a AND 0xFFFFFF00 = 0x80000000 then 0 else 0xFF)"

definition example_bridge :: ports where
  "example_bridge = (let
      adr = (\<lambda>t. case t of Out32 p a # _ \<Rightarrow> a AND NOT 3 | _ \<Rightarrow> 0);
      off = (\<lambda>p. ucast (p - 0xCFC :: u16) :: u32) in
     \<lparr>in8 = \<lambda>t p. example_cfg (adr t + off p),
      in16 = \<lambda>t p. ucast (example_cfg (adr t + off p)) OR push_bit 8 (ucast (example_cfg (adr t + off p + 1))),
      in32 = \<lambda>t p. 0\<rparr>)"

lemma example_bridge_host: "pci_host example_bridge example_cfg"
proof -
  have "(ucast (of_nat k :: u16) :: u32) = of_nat k" if "k < 4" for k :: nat
  proof -
    have "k = 0 \<or> k = 1 \<or> k = 2 \<or> k = 3" using that by auto
    then show ?thesis by auto
  qed
  then show ?thesis by (simp add: pci_host_def example_bridge_def Let_def)
qed

theorem pci_init_complete_witness:
  "cfg_device example_cfg 0 0 0 \<in> set (pci_devices (pci_init example_bridge (\<lambda>_. True) \<lparr>pci_devices = [], pci_io = [], pci_allocs = 0\<rparr>))"
proof -
  have a: "pci_address (probe_at 0 0 0) 0 = 0x80000000" by (simp add: pci_address_def)
  have "cfg_vendor example_cfg 0 0 0 = 0x8086"
    unfolding cfg_vendor_def a by (simp add: example_cfg_def)
  then have "cfg_device example_cfg 0 0 0 \<in> set (slot_devices example_cfg 0 0)" by (simp add: slot_devices_def)
  then have "cfg_device example_cfg 0 0 0 \<in> set (bus_devices example_cfg 0)"
    unfolding bus_devices_def by (auto intro!: bexI [of _ 0])
  then have "cfg_device example_cfg 0 0 0 \<in> set (all_devices example_cfg)"
    unfolding all_devices_def by (auto intro!: bexI [of _ 0])
  then show ?thesis using pci_init_complete [OF example_bridge_host, of "\<lambda>_. True" "\<lparr>pci_devices = [], pci_io = [], pci_allocs = 0\<rparr>"] by simp
qed

end
