(* ===== verification/Block.thy ===== *)
theory Block
  imports Port_Io
begin

text \<open>
  \<^verbatim>\<open>block/partitions\<close>: registering a disk and its partitions. The driver of a disk is reached through the function
  pointers of \<^verbatim>\<open>struct disk_ops\<close>, so that the reading function is an argument here: it gets the disk, the first
  sector, the number of sectors and the ports, and returns the \<^verbatim>\<open>int\<close> result and the bytes, or does not return.
  \<open>mem\<close> says whether the \<open>n\<close>-th allocation succeeds.
\<close>

section \<open>Data\<close>

definition DISK_NAME_LEN :: nat where "DISK_NAME_LEN = 16"
definition MBR_SIGNATURE :: u16 where "MBR_SIGNATURE = 0xAA55"
definition MBR_PARTITION_GAP :: nat where "MBR_PARTITION_GAP = 0x1B8"
definition MBR_MAX_PARTITIONS :: nat where "MBR_MAX_PARTITIONS = 4"

record 'd generic_disk =
  disk_name :: "u8 list"
  disk_sectors :: u32
  priv :: 'd

record disk_partition =
  p_lba_start :: u32
  p_nr_sectors :: u32

record 'd block_device =
  name :: "u8 list"
  disk :: "'d generic_disk"
  parent :: "nat option"
  lba_start :: u32
  nr_sectors :: u32

type_synonym 'd reader = "'d generic_disk \<Rightarrow> u32 \<Rightarrow> u32 \<Rightarrow> io_trace \<Rightarrow> (int \<times> u8 list \<times> io_trace) kres option"

text \<open>The registered devices, which are identified by their position, the ports and the allocations.\<close>

record 'd block_state =
  block_devices :: "'d block_device list"
  blk_io :: io_trace
  blk_allocs :: nat

section \<open>The partition table\<close>

definition le16 :: "u8 list \<Rightarrow> nat \<Rightarrow> u16" where
  "le16 bs i = ucast (bs ! i) OR push_bit 8 (ucast (bs ! (i + 1)))"

definition le32 :: "u8 list \<Rightarrow> nat \<Rightarrow> u32" where
  "le32 bs i = ucast (bs ! i) OR push_bit 8 (ucast (bs ! (i + 1))) OR push_bit 16 (ucast (bs ! (i + 2))) OR
     push_bit 24 (ucast (bs ! (i + 3)))"

record mbr_partition =
  partition_type :: u8
  mbr_lba_start :: u32
  mbr_nr_sectors :: u32

text \<open>Entry \<open>i\<close> of \<^verbatim>\<open>struct mbr_table\<close>, which is packed: 6 bytes, four entries of 16 bytes, the signature.\<close>

definition mbr_entry :: "u8 list \<Rightarrow> nat \<Rightarrow> mbr_partition" where
  "mbr_entry sector i =
     (let e = MBR_PARTITION_GAP + 6 + 16 * i in
      \<lparr>partition_type = sector ! (e + 4), mbr_lba_start = le32 sector (e + 8), mbr_nr_sectors = le32 sector (e + 12)\<rparr>)"

definition mbr_signature :: "u8 list \<Rightarrow> u16" where
  "mbr_signature sector = le16 sector (MBR_PARTITION_GAP + 6 + 64)"

text \<open>The loop over the entries from \<open>i\<close> on; it returns the array and the number of partitions found.\<close>

fun mbr_loop :: "u8 list \<Rightarrow> nat \<Rightarrow> nat \<Rightarrow> disk_partition list \<Rightarrow> int \<Rightarrow> int \<times> disk_partition list" where
  "mbr_loop sector i 0 parts found = (found, parts)"
| "mbr_loop sector i (Suc n) parts found =
     (let e = mbr_entry sector i in
      if partition_type e = 0 then mbr_loop sector (i + 1) n parts found
      else mbr_loop sector (i + 1) n
        (parts[i := \<lparr>p_lba_start = mbr_lba_start e, p_nr_sectors = mbr_nr_sectors e\<rparr>]) (found + 1))"

text \<open>\<open>buf\<close> is what the 512 bytes of \<^verbatim>\<open>sector\<close> hold before the driver writes into them.\<close>

definition mbr_parse ::
  "'d reader \<Rightarrow> u8 list \<Rightarrow> 'd generic_disk \<Rightarrow> disk_partition list \<Rightarrow> nat \<Rightarrow> io_trace \<Rightarrow>
   (int \<times> disk_partition list \<times> io_trace) kres option" where
  "mbr_parse read_sectors buf dsk parts maxp t =
     map_option (\<lambda>r. kbind r (\<lambda>(res, bs, t).
       let sector = bs @ drop (length bs) buf in
       if res < 0 then Inr (-1, parts, t)
       else if mbr_signature sector \<noteq> MBR_SIGNATURE then Inr (0, parts, t)
       else let (found, parts) = mbr_loop sector 0 (min maxp MBR_MAX_PARTITIONS) parts 0 in Inr (found, parts, t)))
     (read_sectors dsk 0 1 t)"

section \<open>Registering a disk\<close>

definition hex_names :: "u8 list" where
  "hex_names = map of_char ''0123456789abcdef''"

text \<open>The name of partition \<open>i\<close>; the index into the name must stay inside its 16 bytes.\<close>

definition part_name :: "u8 list \<Rightarrow> nat \<Rightarrow> nat \<Rightarrow> u8 list kres" where
  "part_name nm len i =
     (if DISK_NAME_LEN \<le> len + 2 \<or> length hex_names \<le> i then Inl OutOfBounds
      else Inr (nm[len := 112, len + 1 := hex_names ! i, len + 2 := 0]))"

text \<open>The loop over the partitions; \<open>dev\<close> is the position of the disk. The result of \<^verbatim>\<open>kmalloc\<close> is not tested.\<close>

fun add_parts ::
  "(nat \<Rightarrow> bool) \<Rightarrow> 'd generic_disk \<Rightarrow> nat \<Rightarrow> nat \<Rightarrow> disk_partition list \<Rightarrow> nat \<Rightarrow> nat \<Rightarrow> 'd block_state \<Rightarrow> 'd block_state kres" where
  "add_parts mem dsk dev len parts i 0 st = Inr st"
| "add_parts mem dsk dev len parts i (Suc n) st =
     (if \<not> mem (blk_allocs st) then Inl NullDeref
      else if length parts \<le> i then Inl OutOfBounds
      else kbind (part_name (disk_name dsk) len i) (\<lambda>nm.
        add_parts mem dsk dev len parts (i + 1) n
          (st\<lparr>block_devices := block_devices st @ [\<lparr>name = nm, disk = dsk, parent = Some dev,
                lba_start = p_lba_start (parts ! i), nr_sectors = p_nr_sectors (parts ! i)\<rparr>],
             blk_allocs := blk_allocs st + 1\<rparr>)))"

text \<open>\<open>stack\<close> is what the array of partitions holds before it is written. A name without a null byte makes
  \<^verbatim>\<open>ft_strlen\<close> read behind it.\<close>

definition add_disk ::
  "'d reader \<Rightarrow> (nat \<Rightarrow> bool) \<Rightarrow> u8 list \<Rightarrow> disk_partition list \<Rightarrow> 'd generic_disk \<Rightarrow> 'd block_state \<Rightarrow>
   (int \<times> 'd block_state) kres option" where
  "add_disk read_sectors mem buf stack dsk st =
     (let n = blk_allocs st; st = st\<lparr>blk_allocs := n + 1\<rparr> in
      if \<not> mem n then Some (Inr (-1, st))
      else if 0 \<notin> set (disk_name dsk) then Some (Inl OutOfBounds)
      else
        let dev = length (block_devices st);
            len = length (takeWhile (\<lambda>c. c \<noteq> 0) (disk_name dsk));
            st = st\<lparr>block_devices := block_devices st @ [\<lparr>name = disk_name dsk, disk = dsk, parent = None,
                      lba_start = 0, nr_sectors = disk_sectors dsk\<rparr>]\<rparr> in
        map_option (\<lambda>r. kbind r (\<lambda>(nr_parts, parts, t).
          kbind (add_parts mem dsk dev len parts 0 (nat nr_parts) (st\<lparr>blk_io := t\<rparr>)) (\<lambda>st. Inr (0, st))))
        (mbr_parse read_sectors buf dsk stack 16 (blk_io st)))"

end
