(* ===== verification/Ata.thy ===== *)
theory Ata
  imports Block Pci
begin

text \<open>
  \<^verbatim>\<open>drivers/ata\<close>: the registers of an IDE channel, identification of the drives, and transfers of sectors by
  programmed I/O with 28-bit addresses. A loop that waits for the drive is a partial function: a drive that
  stays busy is the result \<open>None\<close>.
\<close>

section \<open>Registers\<close>

definition ATA_SR_BSY :: u8 where "ATA_SR_BSY = 0x80"
definition ATA_SR_DF :: u8 where "ATA_SR_DF = 0x20"
definition ATA_SR_DRQ :: u8 where "ATA_SR_DRQ = 0x08"
definition ATA_SR_ERR :: u8 where "ATA_SR_ERR = 0x01"

definition ATA_CMD_READ_PIO :: u8 where "ATA_CMD_READ_PIO = 0x20"
definition ATA_CMD_WRITE_PIO :: u8 where "ATA_CMD_WRITE_PIO = 0x30"
definition ATA_CMD_CACHE_FLUSH :: u8 where "ATA_CMD_CACHE_FLUSH = 0xE7"
definition ATA_CMD_IDENTIFY :: u8 where "ATA_CMD_IDENTIFY = 0xEC"

definition ATA_REG_DATA :: u8 where "ATA_REG_DATA = 0x00"
definition ATA_REG_SECCOUNT0 :: u8 where "ATA_REG_SECCOUNT0 = 0x02"
definition ATA_REG_LBA0 :: u8 where "ATA_REG_LBA0 = 0x03"
definition ATA_REG_LBA1 :: u8 where "ATA_REG_LBA1 = 0x04"
definition ATA_REG_LBA2 :: u8 where "ATA_REG_LBA2 = 0x05"
definition ATA_REG_HDDEVSEL :: u8 where "ATA_REG_HDDEVSEL = 0x06"
definition ATA_REG_COMMAND :: u8 where "ATA_REG_COMMAND = 0x07"
definition ATA_REG_STATUS :: u8 where "ATA_REG_STATUS = 0x07"
definition ATA_REG_CONTROL :: u8 where "ATA_REG_CONTROL = 0x0C"
definition ATA_REG_ALTSTATUS :: u8 where "ATA_REG_ALTSTATUS = 0x0C"

record ide_channel =
  base_port :: u16
  control_port :: u16
  bmide :: u16
  nIEN :: u8

record ide_device =
  channel :: ide_channel
  slave :: u8
  present :: bool
  model :: "u8 list"
  serial :: "u8 list"
  dev_type :: u8
  cylinders :: u16
  heads :: u8
  sectors :: u8
  lba_max_sectors :: u32
  capabilities :: u16
  field_valid :: u8
  lba_ext_max_sectors :: u32

text \<open>The port of a register: the chain of tests that both access functions have; \<open>None\<close> is a register that is not
  there.\<close>

definition reg_port :: "ide_channel \<Rightarrow> u8 \<Rightarrow> u16 option" where
  "reg_port ch reg =
     (if reg < 0x08 then Some (base_port ch + ucast reg)
      else if reg < 0x0C then Some (base_port ch + ucast reg - 0x06)
      else if reg < 0x0E then Some (control_port ch + ucast reg - 0x0A)
      else if bmide ch \<noteq> 0 then Some (bmide ch + ucast reg - 0x0E)
      else None)"

definition write_port :: "ide_channel \<Rightarrow> u8 \<Rightarrow> u8 \<Rightarrow> io_trace \<Rightarrow> io_trace" where
  "write_port ch reg v t = (case reg_port ch reg of None \<Rightarrow> t | Some p \<Rightarrow> outb p v t)"

text \<open>The inner calls for the registers 8 to 11 are calls for the control register, which is not one of them.\<close>

definition ide_write_reg :: "ide_channel \<Rightarrow> u8 \<Rightarrow> u8 \<Rightarrow> io_trace \<Rightarrow> io_trace" where
  "ide_write_reg ch reg v t =
     (let high = 0x07 < reg \<and> reg < 0x0C;
          t = (if high then write_port ch ATA_REG_CONTROL (0x80 OR nIEN ch) t else t);
          t = write_port ch reg v t
      in if high then write_port ch ATA_REG_CONTROL (nIEN ch) t else t)"

definition ide_read_reg :: "ports \<Rightarrow> ide_channel \<Rightarrow> u8 \<Rightarrow> io_trace \<Rightarrow> u8 \<times> io_trace" where
  "ide_read_reg P ch reg t =
     (let high = 0x07 < reg \<and> reg < 0x0C;
          t = (if high then ide_write_reg ch ATA_REG_CONTROL (0x80 OR nIEN ch) t else t);
          (v, t) = (case reg_port ch reg of None \<Rightarrow> (0xFF, t) | Some p \<Rightarrow> inb P p t)
      in (v, if high then ide_write_reg ch ATA_REG_CONTROL (nIEN ch) t else t))"

text \<open>\<^verbatim>\<open>while (ide_read_reg(channel, ATA_REG_STATUS) & ATA_SR_BSY);\<close>\<close>

partial_function (option) wait_not_busy :: "ports \<Rightarrow> ide_channel \<Rightarrow> io_trace \<Rightarrow> io_trace option" where
  "wait_not_busy P ch t =
     (if fst (ide_read_reg P ch ATA_REG_STATUS t) AND ATA_SR_BSY \<noteq> 0
      then wait_not_busy P ch (snd (ide_read_reg P ch ATA_REG_STATUS t))
      else Some (snd (ide_read_reg P ch ATA_REG_STATUS t)))"

fun alt_status_reads :: "ports \<Rightarrow> ide_channel \<Rightarrow> nat \<Rightarrow> io_trace \<Rightarrow> io_trace" where
  "alt_status_reads P ch 0 t = t"
| "alt_status_reads P ch (Suc n) t = alt_status_reads P ch n (snd (ide_read_reg P ch ATA_REG_ALTSTATUS t))"

definition ide_polling :: "ports \<Rightarrow> ide_channel \<Rightarrow> bool \<Rightarrow> io_trace \<Rightarrow> (u8 \<times> io_trace) option" where
  "ide_polling P ch advanced_check t =
     map_option (\<lambda>t.
       if advanced_check then
         let (state, t) = ide_read_reg P ch ATA_REG_STATUS t in
         if state AND ATA_SR_DF \<noteq> 0 then (1, t)
         else if state AND ATA_SR_ERR \<noteq> 0 then (2, t)
         else if state AND ATA_SR_DRQ = 0 then (3, t)
         else (0, t)
       else (0, t))
     (wait_not_busy P ch (alt_status_reads P ch 4 t))"

section \<open>Identification\<close>

text \<open>The loop that copies the words of a string with their bytes swapped, \<open>n\<close> words from word \<open>i\<close> on.\<close>

fun extract_words :: "u8 list \<Rightarrow> nat \<Rightarrow> nat \<Rightarrow> nat \<Rightarrow> nat \<Rightarrow> u8 list \<Rightarrow> u8 list" where
  "extract_words buf off max_len i 0 out = out"
| "extract_words buf off max_len i (Suc n) out =
     (if length out + 1 < max_len then
        let out = out @ [buf ! (off + 2 * i + 1)];
            out = (if length out < max_len - 1 then out @ [buf ! (off + 2 * i)] else out)
        in extract_words buf off max_len (i + 1) n out
      else out)"

definition ide_id_extract_string :: "u8 list \<Rightarrow> nat \<Rightarrow> nat \<Rightarrow> u8 list" where
  "ide_id_extract_string buf byte_off max_len =
     rev (dropWhile (\<lambda>c. c = 32 \<or> c = 0) (rev (extract_words buf byte_off max_len 0 (max_len div 2) [])))"

text \<open>The waiting loops of \<^verbatim>\<open>ide_identify\<close>, which are bounded; they return the last status.\<close>

fun identify_wait :: "ports \<Rightarrow> ide_channel \<Rightarrow> nat \<Rightarrow> io_trace \<Rightarrow> u8 \<times> io_trace" where
  "identify_wait P ch 0 t = (ATA_SR_BSY, t)"
| "identify_wait P ch (Suc n) t =
     (let (st, t) = ide_read_reg P ch ATA_REG_STATUS t in
      if st AND ATA_SR_BSY = 0 \<or> n = 0 then (st, t) else identify_wait P ch n t)"

fun identify_drq :: "ports \<Rightarrow> ide_channel \<Rightarrow> nat \<Rightarrow> io_trace \<Rightarrow> u8 option \<times> io_trace" where
  "identify_drq P ch 0 t = (None, t)"
| "identify_drq P ch (Suc n) t =
     (let (st, t) = ide_read_reg P ch ATA_REG_STATUS t in
      if st AND ATA_SR_BSY = 0 \<and> st AND ATA_SR_DRQ \<noteq> 0 then (Some st, t)
      else if st AND ATA_SR_ERR \<noteq> 0 then (None, t)
      else if n = 0 then (Some st, t)
      else identify_drq P ch n t)"

definition dword_bytes :: "u32 \<Rightarrow> u8 list" where
  "dword_bytes w = [ucast w, ucast (drop_bit 8 w), ucast (drop_bit 16 w), ucast (drop_bit 24 w)]"

text \<open>The result \<^verbatim>\<open>-1\<close> is \<open>None\<close>, \<^verbatim>\<open>0\<close> the 512 bytes of the buffer.\<close>

definition ide_identify :: "ports \<Rightarrow> ide_channel \<Rightarrow> u8 \<Rightarrow> io_trace \<Rightarrow> u8 list option \<times> io_trace" where
  "ide_identify P ch slv t =
     (let (st, t) = identify_wait P ch 1000 t in
      if st AND ATA_SR_BSY \<noteq> 0 then (None, t)
      else
        let t = ide_write_reg ch ATA_REG_HDDEVSEL (0xA0 OR push_bit 4 slv) t;
            t = ide_write_reg ch ATA_REG_COMMAND ATA_CMD_IDENTIFY t in
        case identify_drq P ch 10000 t of
          (None, t) \<Rightarrow> (None, t)
        | (Some st, t) \<Rightarrow>
            if st AND ATA_SR_DRQ = 0 then (None, t)
            else
              let (ws, t) = insl P (base_port ch + ucast ATA_REG_DATA) 128 t;
                  (st, t) = ide_read_reg P ch ATA_REG_STATUS t in
              if st AND ATA_SR_ERR \<noteq> 0 then (None, t) else (Some (concat (map dword_bytes ws)), t))"

definition ide_populate_drive :: "ports \<Rightarrow> ide_channel \<Rightarrow> ide_device \<Rightarrow> io_trace \<Rightarrow> ide_device option \<times> io_trace" where
  "ide_populate_drive P ch d t =
     (case ide_identify P ch (slave d) t of
        (None, t) \<Rightarrow> (None, t)
      | (Some id_buf, t) \<Rightarrow>
          (Some (d\<lparr>dev_type := id_buf ! 0, cylinders := le16 id_buf 2, heads := id_buf ! 6, sectors := id_buf ! 12,
             lba_max_sectors := le32 id_buf 120, capabilities := le16 id_buf 98, field_valid := id_buf ! 106,
             lba_ext_max_sectors := le32 id_buf 200,
             model := ide_id_extract_string id_buf 54 21, serial := ide_id_extract_string id_buf 20 21\<rparr>), t))"

record ide_state =
  ide_channels :: "ide_channel list"
  ide_devices :: "ide_device list"
  ide_io :: io_trace
  ide_allocs :: nat

text \<open>The base addresses of the controller; the result of \<^verbatim>\<open>kmalloc\<close> is not tested.\<close>

definition or_default :: "u32 \<Rightarrow> u32 \<Rightarrow> u16" where
  "or_default v d = ucast (if v = 0 then d else v)"

definition ide_probe_controller :: "ports \<Rightarrow> (nat \<Rightarrow> bool) \<Rightarrow> pci_device \<Rightarrow> ide_state \<Rightarrow> ide_state kres" where
  "ide_probe_controller P mem d st =
     (let n = ide_allocs st;
          (b0, t) = pci_config_read_dword P d 0x10 (ide_io st);
          (b1, t) = pci_config_read_dword P d 0x14 t;
          (b2, t) = pci_config_read_dword P d 0x18 t;
          (b3, t) = pci_config_read_dword P d 0x1C t;
          (b4, t) = pci_config_read_dword P d 0x20 t;
          (b5, t) = pci_config_read_dword P d 0x24 t in
      if \<not> mem n then Inl NullDeref
      else Inr (st\<lparr>ide_channels := ide_channels st @
             [\<lparr>base_port = or_default b0 0x1F0, control_port = or_default b1 0x3F6, bmide = ucast b4, nIEN = 2\<rparr>,
              \<lparr>base_port = or_default b2 0x170, control_port = or_default b3 0x376, bmide = ucast b5, nIEN = 2\<rparr>],
           ide_io := t, ide_allocs := n + 1\<rparr>))"

definition new_device :: "ide_channel \<Rightarrow> u8 \<Rightarrow> ide_device" where
  "new_device ch slv = \<lparr>channel = ch, slave = slv, present = False, model = [], serial = [], dev_type = 0, cylinders = 0,
     heads = 0, sectors = 0, lba_max_sectors = 0, capabilities = 0, field_valid = 0, lba_ext_max_sectors = 0\<rparr>"

definition probe_drive :: "ports \<Rightarrow> (nat \<Rightarrow> bool) \<Rightarrow> ide_channel \<Rightarrow> u8 \<Rightarrow> ide_state \<Rightarrow> ide_state" where
  "probe_drive P mem ch slv st =
     (let n = ide_allocs st; st = st\<lparr>ide_allocs := n + 1\<rparr> in
      if \<not> mem n then st
      else case ide_populate_drive P ch (new_device ch slv) (ide_io st) of
        (None, t) \<Rightarrow> st\<lparr>ide_io := t\<rparr>
      | (Some d, t) \<Rightarrow> st\<lparr>ide_io := t, ide_devices := ide_devices st @ [d\<lparr>present := True\<rparr>]\<rparr>)"

fun probe_channel_list :: "ports \<Rightarrow> (nat \<Rightarrow> bool) \<Rightarrow> ide_channel list \<Rightarrow> ide_state \<Rightarrow> ide_state" where
  "probe_channel_list P mem [] st = st"
| "probe_channel_list P mem (ch # chs) st =
     probe_channel_list P mem chs (probe_drive P mem ch 1 (probe_drive P mem ch 0 st))"

definition ide_probe_channels :: "ports \<Rightarrow> (nat \<Rightarrow> bool) \<Rightarrow> ide_state \<Rightarrow> ide_state" where
  "ide_probe_channels P mem st = probe_channel_list P mem (ide_channels st) st"

section \<open>Sectors\<close>

datatype ide_access_direction = IDE_ACCESS_READ | IDE_ACCESS_WRITE

definition io_word_bytes :: "u16 \<Rightarrow> u8 list" where
  "io_word_bytes w = [ucast w, ucast (drop_bit 8 w)]"

fun bytes_words :: "u8 list \<Rightarrow> u16 list" where
  "bytes_words (a # b # bs) = (ucast a OR push_bit 8 (ucast b)) # bytes_words bs"
| "bytes_words bs = []"

text \<open>The loops over the sectors: the error of the drive, the bytes read, and the ports.\<close>

fun read_loop :: "ports \<Rightarrow> ide_channel \<Rightarrow> nat \<Rightarrow> io_trace \<Rightarrow> (u8 \<times> u8 list \<times> io_trace) option" where
  "read_loop P ch 0 t = Some (0, [], t)"
| "read_loop P ch (Suc n) t =
     Option.bind (ide_polling P ch True t) (\<lambda>(err, t).
     if err \<noteq> 0 then Some (err, [], t)
     else let (ws, t) = insw P (base_port ch) 256 t in
       map_option (\<lambda>(err, bs, t). (err, concat (map io_word_bytes ws) @ bs, t)) (read_loop P ch n t))"

fun write_loop :: "ports \<Rightarrow> ide_channel \<Rightarrow> nat \<Rightarrow> u8 list \<Rightarrow> io_trace \<Rightarrow> io_trace option" where
  "write_loop P ch 0 buf t = Some t"
| "write_loop P ch (Suc n) buf t =
     Option.bind (ide_polling P ch False t) (\<lambda>(err, t).
     write_loop P ch n (drop 512 buf) (outsw (base_port ch) (bytes_words (take 512 buf)) t))"

text \<open>The registers that select the drive and the sectors, and the command.\<close>

definition ata_command :: "ide_device \<Rightarrow> u32 \<Rightarrow> u8 \<Rightarrow> u8 \<Rightarrow> io_trace \<Rightarrow> io_trace" where
  "ata_command d lba count cmd t =
     (let ch = channel d;
          head = ucast (drop_bit 24 (lba AND 0xF000000)) :: u8;
          t = ide_write_reg ch ATA_REG_HDDEVSEL (0xE0 OR push_bit 4 (slave d) OR head) t;
          t = ide_write_reg ch ATA_REG_SECCOUNT0 count t;
          t = ide_write_reg ch ATA_REG_LBA0 (ucast (lba AND 0xFF)) t;
          t = ide_write_reg ch ATA_REG_LBA1 (ucast (drop_bit 8 (lba AND 0xFF00))) t;
          t = ide_write_reg ch ATA_REG_LBA2 (ucast (drop_bit 16 (lba AND 0xFF0000))) t
      in ide_write_reg ch ATA_REG_COMMAND cmd t)"

definition ata_access_sector ::
  "ports \<Rightarrow> ide_device \<Rightarrow> u32 \<Rightarrow> ide_access_direction \<Rightarrow> u8 \<Rightarrow> u8 list \<Rightarrow> io_trace \<Rightarrow> (u8 \<times> u8 list \<times> io_trace) kres option" where
  "ata_access_sector P d lba direction count edi t =
     (let ch = channel d; t = ide_write_reg ch ATA_REG_CONTROL 0x02 t in
      if 0x10000000 \<le> lba then Some (Inl (Panic ''LBA48 not implemented''))
      else if capabilities d AND 0x200 = 0 then Some (Inl (Panic ''CHS not implemented''))
      else Option.bind (wait_not_busy P ch t) (\<lambda>t.
        case direction of
          IDE_ACCESS_READ \<Rightarrow>
            map_option Inr (read_loop P ch (unat count) (ata_command d lba count ATA_CMD_READ_PIO t))
        | IDE_ACCESS_WRITE \<Rightarrow>
            Option.bind (write_loop P ch (unat count) edi (ata_command d lba count ATA_CMD_WRITE_PIO t)) (\<lambda>t.
            map_option (\<lambda>(err, t). Inr (0, edi, t))
              (ide_polling P ch False (ide_write_reg ch ATA_REG_COMMAND ATA_CMD_CACHE_FLUSH t)))))"

text \<open>The functions of \<^verbatim>\<open>ide_ops\<close>: the number of sectors is converted to 8 bits, the result to \<^verbatim>\<open>int\<close>.\<close>

definition ata_read_sector :: "ports \<Rightarrow> ide_device reader" where
  "ata_read_sector P dsk lba count t =
     map_option (\<lambda>r. kbind r (\<lambda>(err, bs, t). Inr (uint err, bs, t)))
       (ata_access_sector P (priv dsk) lba IDE_ACCESS_READ (ucast count) [] t)"

definition ata_write_sector ::
  "ports \<Rightarrow> ide_device generic_disk \<Rightarrow> u32 \<Rightarrow> u32 \<Rightarrow> u8 list \<Rightarrow> io_trace \<Rightarrow> (int \<times> io_trace) kres option" where
  "ata_write_sector P dsk lba count edi t =
     map_option (\<lambda>r. kbind r (\<lambda>(err, bs, t). Inr (uint err, t)))
       (ata_access_sector P (priv dsk) lba IDE_ACCESS_WRITE (ucast count) edi t)"

section \<open>Registering the drives\<close>

text \<open>\<open>buf\<close> and \<open>stack\<close> are the memory of the sector and of the partition array, \<open>junk\<close> that of the rest of the name, which is not cleared.\<close>

fun add_disks ::
  "ports \<Rightarrow> (nat \<Rightarrow> bool) \<Rightarrow> u8 list \<Rightarrow> disk_partition list \<Rightarrow> u8 list \<Rightarrow> u8 \<Rightarrow> ide_device list \<Rightarrow> ide_device block_state \<Rightarrow>
   ide_device block_state kres option" where
  "add_disks P mem buf stack junk i [] st = Some (Inr st)"
| "add_disks P mem buf stack junk i (d # ds) st =
     (let n = blk_allocs st; st = st\<lparr>blk_allocs := n + 1\<rparr> in
      if \<not> mem n then add_disks P mem buf stack junk i ds st
      else
        let dsk = \<lparr>disk_name = [104, 100, 48 + i, 0] @ junk, disk_sectors = ucast (sectors d), priv = d\<rparr> in
        Option.bind (add_disk (ata_read_sector P) mem buf stack dsk st) (\<lambda>r.
        case r of Inl e \<Rightarrow> Some (Inl e) | Inr (res, st) \<Rightarrow> add_disks P mem buf stack junk (i + 1) ds st))"

definition PCI_DEVICE_IDE_CONTROLLER :: u16 where "PCI_DEVICE_IDE_CONTROLLER = 0x0101"

definition ide_init ::
  "ports \<Rightarrow> (nat \<Rightarrow> bool) \<Rightarrow> u8 list \<Rightarrow> disk_partition list \<Rightarrow> u8 list \<Rightarrow> pci_device list \<Rightarrow> ide_state \<Rightarrow> ide_device block_device list \<Rightarrow>
   (ide_state \<times> ide_device block_state) kres option" where
  "ide_init P mem buf stack junk devs st blks =
     (case pci_for_each_device PCI_DEVICE_IDE_CONTROLLER (\<lambda>d r. kbind r (ide_probe_controller P mem d)) devs (Inr st) of
        Inl e \<Rightarrow> Some (Inl e)
      | Inr st \<Rightarrow>
          let st = ide_probe_channels P mem st in
          map_option (\<lambda>r. kbind r (\<lambda>b. Inr (st, b)))
            (add_disks P mem buf stack junk 0 (ide_devices st)
              \<lparr>block_devices = blks, blk_io = ide_io st, blk_allocs = ide_allocs st\<rparr>))"

end
