(* ===== verification/Ata_Spec.thy ===== *)
theory Ata_Spec
  imports Ata
begin

text \<open>
  The driver against the drives of a channel: the registers the drives see at a command, the protocol of a
  transfer by programmed I/O, the behaviour that the ATA standard documents for a read command, and what reading
  sectors returns with it.
\<close>

section \<open>What the drive sees\<close>

text \<open>The last value written to a port.\<close>

fun out_val :: "u16 \<Rightarrow> io_trace \<Rightarrow> u8" where
  "out_val p [] = 0"
| "out_val p (Out8 q v # t) = (if q = p then v else out_val p t)"
| "out_val p (e # t) = out_val p t"

text \<open>The 28-bit address in the registers.\<close>

definition regs_lba :: "ide_channel \<Rightarrow> io_trace \<Rightarrow> u32" where
  "regs_lba ch t = ucast (out_val (base_port ch + 3) t) OR push_bit 8 (ucast (out_val (base_port ch + 4) t)) OR
     push_bit 16 (ucast (out_val (base_port ch + 5) t)) OR push_bit 24 (ucast (out_val (base_port ch + 6) t AND 0xF))"

definition regs_slave :: "ide_channel \<Rightarrow> io_trace \<Rightarrow> bool" where
  "regs_slave ch t \<longleftrightarrow> bit (out_val (base_port ch + 6) t) 4"

text \<open>
  The transfer a channel is in: the last command, the trace of the registers before it, how many words of data were read since, how
  many reads of a port were made since the command or since the last complete sector, and whether the status was read
  without the busy bit since then. A drive may take 400 ns to raise the busy bit, which is the time of four reads of a
  port; a status that is read before is not valid. Any other write to the registers of the channel while a
  transfer runs leaves it in an unknown state.
\<close>

record ata_xfer =
  x_cmd :: u8
  x_regs :: io_trace
  x_words :: nat
  x_reads :: nat
  x_ready :: bool

definition own_port :: "ide_channel \<Rightarrow> u16 \<Rightarrow> bool" where
  "own_port ch p \<longleftrightarrow> p - base_port ch < 8 \<or> p = control_port ch + 2"

definition word_read :: "ata_xfer \<Rightarrow> ata_xfer" where
  "word_read x = (let n = x_words x + 1 in
     if n mod 256 = 0 then x\<lparr>x_words := n, x_reads := 0, x_ready := False\<rparr> else x\<lparr>x_words := n\<rparr>)"

fun xfer :: "ports \<Rightarrow> ide_channel \<Rightarrow> io_trace \<Rightarrow> ata_xfer option" where
  "xfer P ch [] = None"
| "xfer P ch (Out8 p v # t) =
     (if p = base_port ch + 7 then Some \<lparr>x_cmd = v, x_regs = t, x_words = 0, x_reads = 0, x_ready = False\<rparr>
      else if own_port ch p then None else xfer P ch t)"
| "xfer P ch (In8 p # t) = map_option (\<lambda>x. x\<lparr>x_reads := x_reads x + 1,
       x_ready := x_ready x \<or> (p = base_port ch + 7 \<and> 4 \<le> x_reads x \<and> in8 P t p AND ATA_SR_BSY = 0)\<rparr>) (xfer P ch t)"
| "xfer P ch (In16 p # t) = map_option (if p = base_port ch then word_read else id) (xfer P ch t)"
| "xfer P ch (Out16 p v # t) = (if own_port ch p then None else xfer P ch t)"
| "xfer P ch (Out32 p v # t) = (if own_port ch p then None else xfer P ch t)"
| "xfer P ch (In32 p # t) = (if own_port ch p then None else xfer P ch t)"

text \<open>What the registers at the command ask for: the drive, the first sector, and the number of sectors, where 0 stands for 256;
  bit 6 of the drive register selects block addresses.\<close>

definition read_cmd :: "ide_channel \<Rightarrow> ata_xfer \<Rightarrow> bool" where
  "read_cmd ch x \<longleftrightarrow> x_cmd x = 0x20 \<and> bit (out_val (base_port ch + 6) (x_regs x)) 6"

definition cmd_count :: "ide_channel \<Rightarrow> ata_xfer \<Rightarrow> nat" where
  "cmd_count ch x = (let n = unat (out_val (base_port ch + 2) (x_regs x)) in if n = 0 then 256 else n)"

abbreviation (input) cmd_slave :: "ide_channel \<Rightarrow> ata_xfer \<Rightarrow> bool" where
  "cmd_slave ch x \<equiv> regs_slave ch (x_regs x)"

abbreviation (input) cmd_lba :: "ide_channel \<Rightarrow> ata_xfer \<Rightarrow> nat" where
  "cmd_lba ch x \<equiv> unat (regs_lba ch (x_regs x))"

text \<open>
  The drives of a channel, the master and the slave, as they are documented for the read command: \<open>cap\<close> is the number of
  sectors of each, \<open>D\<close> its contents. The busy bit goes away after finitely many reads of the status. While words
  of a read command are outstanding and the drive is not busy, it offers data without an error when the sectors lie
  on the drive, and reports an error when the first sector does not. Once it was seen ready it stays so until
  the sector is transferred, and the data register then gives the next word of the sectors asked for. Nothing is assumed
  about other commands, about a range that leaves the drive, or about data that is read before the drive was ready.
\<close>

definition ata_drives :: "ports \<Rightarrow> ide_channel \<Rightarrow> (bool \<Rightarrow> nat) \<Rightarrow> (bool \<Rightarrow> nat \<Rightarrow> nat \<Rightarrow> u16) \<Rightarrow> bool" where
  "ata_drives P ch cap D \<longleftrightarrow>
     (\<forall>t. \<exists>n. in8 P (replicate n (In8 (base_port ch + 7)) @ t) (base_port ch + 7) AND ATA_SR_BSY = 0) \<and>
     (\<forall>t x. xfer P ch t = Some x \<and> read_cmd ch x \<and> x_words x < 256 * cmd_count ch x \<longrightarrow>
        (x_ready x \<longrightarrow> in8 P t (base_port ch + 7) AND ATA_SR_BSY = 0) \<and>
        (4 \<le> x_reads x \<and> in8 P t (base_port ch + 7) AND ATA_SR_BSY = 0 \<longrightarrow>
           in8 P t (base_port ch + 7) AND ATA_SR_DF = 0 \<and>
           (cmd_lba ch x + cmd_count ch x \<le> cap (cmd_slave ch x) \<longrightarrow>
              in8 P t (base_port ch + 7) AND ATA_SR_ERR = 0 \<and> in8 P t (base_port ch + 7) AND ATA_SR_DRQ \<noteq> 0) \<and>
           (cap (cmd_slave ch x) \<le> cmd_lba ch x \<longrightarrow> in8 P t (base_port ch + 7) AND ATA_SR_ERR \<noteq> 0)) \<and>
        (x_ready x \<and> cmd_lba ch x + cmd_count ch x \<le> cap (cmd_slave ch x) \<longrightarrow>
           in16 P t (base_port ch) = D (cmd_slave ch x) (cmd_lba ch x + x_words x div 256) (x_words x mod 256)))"

section \<open>The address registers\<close>

lemma bit_field: "bit (push_bit k (mask m) :: 'a::len word) n \<longleftrightarrow> k \<le> n \<and> n < k + m \<and> n < LENGTH('a)"
  by (simp only: bit_push_bit_iff bit_mask_iff) auto

lemma field_consts:
  "(0xFF :: u32) = push_bit 0 (mask 8)" "(0xFF00 :: u32) = push_bit 8 (mask 8)" "(0xFF0000 :: u32) = push_bit 16 (mask 8)"
  "(0xF000000 :: u32) = push_bit 24 (mask 4)" "(0xF :: u8) = push_bit 0 (mask 4)" "(0xE0 :: u8) = push_bit 5 (mask 3)"
  by (simp_all add: mask_eq_exp_minus_1)

lemma bit_above:
  assumes "lba < 0x10000000" "28 \<le> n"
  shows "\<not> bit (lba :: u32) n"
proof -
  have "unat lba < 2 ^ 28" using assms(1) by (simp add: word_less_nat_alt)
  also have "(2 :: nat) ^ 28 \<le> 2 ^ n" using assms(2) by (rule power_increasing) simp
  finally have "\<not> bit (unat lba) n" by (simp add: bit_iff_odd)
  then show ?thesis by (simp add: bit_unsigned_iff)
qed

text \<open>The four registers hold the address.\<close>

lemma lba_registers:
  assumes "lba < 0x10000000" "slv = 0 \<or> slv = 1"
  shows "ucast (ucast (lba AND 0xFF) :: u8) OR push_bit 8 (ucast (ucast (drop_bit 8 (lba AND 0xFF00)) :: u8)) OR
     push_bit 16 (ucast (ucast (drop_bit 16 (lba AND 0xFF0000)) :: u8)) OR
     push_bit 24 (ucast ((0xE0 OR push_bit 4 slv OR ucast (drop_bit 24 (lba AND 0xF000000))) AND 0xF :: u8)) = (lba :: u32)"
    (is "?l = lba")
proof (rule bit_word_eqI)
  fix n assume n: "n < LENGTH(32)"
  have s: "bit (push_bit 4 slv :: u8) k \<longleftrightarrow> k = 4 \<and> slv = 1" for k
    using assms(2) by (auto simp: bit_push_bit_iff bit_1_iff)
  note bits = bit_or_iff bit_ucast_iff bit_and_iff bit_drop_bit_eq comp_apply bit_field s
  consider "n < 8" | "8 \<le> n" "n < 16" | "16 \<le> n" "n < 24" | "24 \<le> n" "n < 28" | "28 \<le> n" by linarith
  then have "bit ?l n \<longleftrightarrow> bit lba n \<and> n < 28"
    using n unfolding field_consts by cases (simp only: bits, simp only: bit_push_bit_iff bits, auto simp: bit_mask_iff)+
  then show "bit ?l n = bit lba n" using bit_above [OF assms(1), of n] by (auto simp: not_less)
qed

section \<open>A transfer\<close>

lemmas reg_defs = ATA_REG_DATA_def ATA_REG_SECCOUNT0_def ATA_REG_LBA0_def ATA_REG_LBA1_def ATA_REG_LBA2_def
  ATA_REG_HDDEVSEL_def ATA_REG_COMMAND_def ATA_REG_STATUS_def ATA_REG_CONTROL_def ATA_REG_ALTSTATUS_def
lemmas status_defs = ATA_SR_BSY_def ATA_SR_DF_def ATA_SR_DRQ_def ATA_SR_ERR_def

lemma write_low: "reg < 8 \<Longrightarrow> ide_write_reg ch reg v t = Out8 (base_port ch + ucast reg) v # t"
proof -
  assume r: "reg < 8"
  then have "\<not> 7 < reg" by (simp add: word_less_nat_alt)
  then show ?thesis using r by (simp add: ide_write_reg_def write_port_def reg_port_def outb_def)
qed

lemma read_status: "ide_read_reg P ch 7 t = (in8 P t (base_port ch + 7), In8 (base_port ch + 7) # t)"
  by (simp add: ide_read_reg_def reg_port_def inb_def)

lemma read_alt: "snd (ide_read_reg P ch 0x0C t) = In8 (control_port ch + 2) # t"
  by (simp add: ide_read_reg_def reg_port_def inb_def)

lemma alt_reads_trace: "alt_status_reads P ch n t = replicate n (In8 (control_port ch + 2)) @ t"
  by (induction n arbitrary: t) (simp_all add: ATA_REG_ALTSTATUS_def read_alt replicate_app_Cons_same)

lemma cmd_count_pos: "0 < cmd_count ch x"
  by (simp add: cmd_count_def Let_def)

lemma xfer_status: "xfer P ch t = Some x \<Longrightarrow> x_ready x \<Longrightarrow> xfer P ch (In8 p # t) = Some (x\<lparr>x_reads := x_reads x + 1\<rparr>)"
  by (cases x) simp

text \<open>Reads of ports only add to the number of reads and can only find the drive ready.\<close>

lemma xfer_reads:
  assumes "xfer P ch t = Some x"
  obtains b where "xfer P ch (replicate n (In8 p) @ t) = Some (x\<lparr>x_reads := x_reads x + n, x_ready := b\<rparr>)" "x_ready x \<longrightarrow> b"
proof -
  have "\<exists>b. xfer P ch (replicate n (In8 p) @ t) = Some (x\<lparr>x_reads := x_reads x + n, x_ready := b\<rparr>) \<and> (x_ready x \<longrightarrow> b)"
    using assms by (induction n) (auto intro: exI [of _ "x_ready x"])
  then show thesis using that by blast
qed

lemma wait_ends:
  assumes "in8 P (replicate n (In8 (base_port ch + 7)) @ t) (base_port ch + 7) AND ATA_SR_BSY = 0"
  shows "\<exists>k. wait_not_busy P ch t = Some (In8 (base_port ch + 7) # replicate k (In8 (base_port ch + 7)) @ t) \<and>
    in8 P (replicate k (In8 (base_port ch + 7)) @ t) (base_port ch + 7) AND ATA_SR_BSY = 0"
  using assms
proof (induction n arbitrary: t)
  case 0
  then show ?case
    by (intro exI [of _ 0]) (simp add: wait_not_busy.simps [of P ch t] ATA_REG_STATUS_def read_status)
next
  case (Suc n)
  let ?p = "base_port ch + 7"
  show ?case
  proof (cases "in8 P t ?p AND ATA_SR_BSY = 0")
    case True
    then show ?thesis
      by (intro exI [of _ 0]) (simp add: wait_not_busy.simps [of P ch t] ATA_REG_STATUS_def read_status)
  next
    case False
    have "in8 P (replicate n (In8 ?p) @ In8 ?p # t) ?p AND ATA_SR_BSY = 0"
      using Suc.prems by (simp add: replicate_app_Cons_same)
    from Suc.IH [OF this] obtain k where
      "wait_not_busy P ch (In8 ?p # t) = Some (In8 ?p # replicate k (In8 ?p) @ In8 ?p # t)"
      "in8 P (replicate k (In8 ?p) @ In8 ?p # t) ?p AND ATA_SR_BSY = 0" by blast
    then show ?thesis
      using False
      by (intro exI [of _ "Suc k"])
        (simp add: wait_not_busy.simps [of P ch t] ATA_REG_STATUS_def read_status replicate_app_Cons_same)
  qed
qed

lemma drives_wait:
  assumes "ata_drives P ch cap D"
  obtains k where "wait_not_busy P ch t = Some (In8 (base_port ch + 7) # replicate k (In8 (base_port ch + 7)) @ t)"
    "in8 P (replicate k (In8 (base_port ch + 7)) @ t) (base_port ch + 7) AND ATA_SR_BSY = 0"
  using assms wait_ends unfolding ata_drives_def by blast

lemma drivesD:
  assumes "ata_drives P ch cap D" "xfer P ch t = Some x" "read_cmd ch x" "x_words x < 256 * cmd_count ch x"
  shows "x_ready x \<Longrightarrow> in8 P t (base_port ch + 7) AND ATA_SR_BSY = 0"
    and "4 \<le> x_reads x \<Longrightarrow> in8 P t (base_port ch + 7) AND ATA_SR_BSY = 0 \<Longrightarrow> in8 P t (base_port ch + 7) AND ATA_SR_DF = 0"
    and "4 \<le> x_reads x \<Longrightarrow> in8 P t (base_port ch + 7) AND ATA_SR_BSY = 0 \<Longrightarrow>
      cmd_lba ch x + cmd_count ch x \<le> cap (cmd_slave ch x) \<Longrightarrow>
      in8 P t (base_port ch + 7) AND ATA_SR_ERR = 0 \<and> in8 P t (base_port ch + 7) AND ATA_SR_DRQ \<noteq> 0"
    and "4 \<le> x_reads x \<Longrightarrow> in8 P t (base_port ch + 7) AND ATA_SR_BSY = 0 \<Longrightarrow> cap (cmd_slave ch x) \<le> cmd_lba ch x \<Longrightarrow>
      in8 P t (base_port ch + 7) AND ATA_SR_ERR \<noteq> 0"
    and "x_ready x \<Longrightarrow> cmd_lba ch x + cmd_count ch x \<le> cap (cmd_slave ch x) \<Longrightarrow>
      in16 P t (base_port ch) = D (cmd_slave ch x) (cmd_lba ch x + x_words x div 256) (x_words x mod 256)"
  using assms unfolding ata_drives_def by blast+

text \<open>Polling before a sector of a read command that runs.\<close>

lemma poll_read:
  assumes d: "ata_drives P ch cap D" and x: "xfer P ch t = Some x" "read_cmd ch x" "x_words x < 256 * cmd_count ch x"
  obtains t' r where "xfer P ch t' = Some (x\<lparr>x_reads := r, x_ready := True\<rparr>)"
    "cmd_lba ch x + cmd_count ch x \<le> cap (cmd_slave ch x) \<Longrightarrow> ide_polling P ch True t = Some (0, t')"
    "cap (cmd_slave ch x) \<le> cmd_lba ch x \<Longrightarrow> ide_polling P ch True t = Some (2, t')"
proof -
  let ?p = "base_port ch + 7" and ?t1 = "alt_status_reads P ch 4 t"
  obtain k where k: "wait_not_busy P ch ?t1 = Some (In8 ?p # replicate k (In8 ?p) @ ?t1)"
    "in8 P (replicate k (In8 ?p) @ ?t1) ?p AND ATA_SR_BSY = 0" using drives_wait [OF d] .
  let ?t2 = "In8 ?p # replicate k (In8 ?p) @ ?t1"
  obtain b1 where b1: "xfer P ch ?t1 = Some (x\<lparr>x_reads := x_reads x + 4, x_ready := b1\<rparr>)"
    unfolding alt_reads_trace using xfer_reads [OF x(1), where n = 4] by metis
  let ?x1 = "x\<lparr>x_reads := x_reads x + 4, x_ready := b1\<rparr>"
  obtain b2 where "xfer P ch (replicate k (In8 ?p) @ ?t1) = Some (?x1\<lparr>x_reads := x_reads ?x1 + k, x_ready := b2\<rparr>)"
    using xfer_reads [OF b1, where n = k and p = ?p] by blast
  then have x2: "xfer P ch ?t2 = Some (x\<lparr>x_reads := x_reads x + 5 + k, x_ready := True\<rparr>)" using k(2) by simp
  let ?x2 = "x\<lparr>x_reads := x_reads x + 5 + k, x_ready := True\<rparr>"
  have c2: "read_cmd ch ?x2" "x_words ?x2 < 256 * cmd_count ch ?x2" using x(2,3) by (simp_all add: read_cmd_def cmd_count_def)
  note s = drivesD [OF d x2 c2]
  have x3: "xfer P ch (In8 ?p # ?t2) = Some (x\<lparr>x_reads := x_reads x + 6 + k, x_ready := True\<rparr>)"
    using xfer_status [OF x2, of ?p] by (simp del: xfer.simps)
  have e: "ide_polling P ch True t = Some (if in8 P ?t2 ?p AND ATA_SR_ERR \<noteq> 0 then 2
      else if in8 P ?t2 ?p AND ATA_SR_DRQ = 0 then 3 else 0, In8 ?p # ?t2)"
    using s(1,2) k(1) by (simp add: ide_polling_def ATA_REG_STATUS_def read_status)
  show thesis
  proof (rule that [OF x3])
    assume "cmd_lba ch x + cmd_count ch x \<le> cap (cmd_slave ch x)"
    then show "ide_polling P ch True t = Some (0, In8 ?p # ?t2)" unfolding e using s(1,3) by (simp add: cmd_count_def)
  next
    assume "cap (cmd_slave ch x) \<le> cmd_lba ch x"
    then show "ide_polling P ch True t = Some (2, In8 ?p # ?t2)" unfolding e using s(1,4) by simp
  qed
qed

text \<open>The words of the sectors from \<open>s\<close> on, as one sequence.\<close>

definition stream :: "(nat \<Rightarrow> nat \<Rightarrow> u16) \<Rightarrow> nat \<Rightarrow> nat \<Rightarrow> u16" where
  "stream D s n = D (s + n div 256) (n mod 256)"

lemma read_words:
  assumes d: "ata_drives P ch cap D" and r: "cmd_lba ch x + cmd_count ch x \<le> cap (cmd_slave ch x)"
    and "xfer P ch t = Some x" "read_cmd ch x" "x_ready x" "x_words x + n = 256 * (j + 1)" "0 < n" "n \<le> 256" "j < cmd_count ch x"
  shows "fst (insw P (base_port ch) n t) = map (stream (D (cmd_slave ch x)) (cmd_lba ch x)) [x_words x..<256 * (j + 1)] \<and>
    xfer P ch (snd (insw P (base_port ch) n t)) = Some (x\<lparr>x_words := 256 * (j + 1), x_reads := 0, x_ready := False\<rparr>)"
  using r assms(3-)
proof (induction n arbitrary: t x)
  case (Suc n)
  let ?w = "x_words x"
  have w: "?w < 256 * cmd_count ch x" using Suc.prems(5,6,8) by simp
  have v: "in16 P t (base_port ch) = stream (D (cmd_slave ch x)) (cmd_lba ch x) ?w"
    using drivesD(5) [OF d Suc.prems(2,3) w Suc.prems(4,1)] by (simp add: stream_def)
  have up: "[?w..<256 * (j + 1)] = ?w # [Suc ?w..<256 * (j + 1)]" using Suc.prems(5) by (intro upt_conv_Cons) simp
  let ?t = "In16 (base_port ch) # t"
  show ?case
  proof (cases "n = 0")
    case True
    then have "?w + 1 = 256 * (j + 1)" using Suc.prems(5) by simp
    then have "xfer P ch ?t = Some (x\<lparr>x_words := 256 * (j + 1), x_reads := 0, x_ready := False\<rparr>)"
      using Suc.prems(2) by (simp add: word_read_def Let_def)
    then show ?thesis using True v up \<open>?w + 1 = 256 * (j + 1)\<close> by (simp add: inw_def split_def Let_def)
  next
    case False
    have "(?w + 1) mod 256 \<noteq> 0"
    proof
      assume "(?w + 1) mod 256 = 0"
      then obtain q where "?w + 1 = 256 * q" by auto
      then have "256 * (j + 1) = 256 * q + n" using Suc.prems(5) by simp
      then have "n mod 256 = 0" by (metis mod_mult_self1_is_0 mod_mult_self4)
      then show False using Suc.prems(7) False by simp
    qed
    then have x1: "xfer P ch ?t = Some (x\<lparr>x_words := ?w + 1\<rparr>)" using Suc.prems(2) by (simp add: word_read_def Let_def)
    let ?x = "x\<lparr>x_words := ?w + 1\<rparr>"
    have c: "cmd_count ch ?x = cmd_count ch x" by (simp add: cmd_count_def)
    have "cmd_lba ch ?x + cmd_count ch ?x \<le> cap (cmd_slave ch ?x)" "read_cmd ch ?x" "x_ready ?x"
      using Suc.prems(1,3,4) unfolding c by (simp_all add: read_cmd_def)
    moreover have "x_words ?x + n = 256 * (j + 1)" "0 < n" "n \<le> 256" "j < cmd_count ch ?x"
      using Suc.prems(5,7,8) False unfolding c by simp_all
    ultimately have "fst (insw P (base_port ch) n ?t) = map (stream (D (cmd_slave ch x)) (cmd_lba ch x)) [?w + 1..<256 * (j + 1)] \<and>
        xfer P ch (snd (insw P (base_port ch) n ?t)) = Some (x\<lparr>x_words := 256 * (j + 1), x_reads := 0, x_ready := False\<rparr>)"
      using Suc.IH [OF _ x1] by (simp del: xfer.simps)
    then show ?thesis using v up by (simp add: inw_def split_def Let_def)
  qed
qed simp

definition sector_bytes :: "(nat \<Rightarrow> nat \<Rightarrow> u16) \<Rightarrow> nat \<Rightarrow> u8 list" where
  "sector_bytes D s = concat (map io_word_bytes (map (D s) [0..<256]))"

lemma stream_sector: "map (stream D s) [256 * j..<256 * (j + 1)] = map (D (s + j)) [0..<256]"
proof (rule nth_equalityI)
  fix i assume "i < length (map (stream D s) [256 * j..<256 * (j + 1)])"
  then have "i < 256" by simp
  then show "map (stream D s) [256 * j..<256 * (j + 1)] ! i = map (D (s + j)) [0..<256] ! i"
    by (simp add: stream_def)
qed simp

lemma read_loop_sectors:
  assumes d: "ata_drives P ch cap D" and "cmd_lba ch x + cmd_count ch x \<le> cap (cmd_slave ch x)"
    and "xfer P ch t = Some x" "read_cmd ch x" "x_words x = 256 * j" "j + n \<le> cmd_count ch x"
  shows "\<exists>t' r b. read_loop P ch n t =
      Some (0, concat (map (\<lambda>i. sector_bytes (D (cmd_slave ch x)) (cmd_lba ch x + i)) [j..<j + n]), t') \<and>
    xfer P ch t' = Some (x\<lparr>x_words := 256 * (j + n), x_reads := r, x_ready := b\<rparr>)"
  using assms(2-)
proof (induction n arbitrary: t x j)
  case 0
  then show ?case by (intro exI [of _ t] exI [of _ "x_reads x"] exI [of _ "x_ready x"]) simp
next
  case (Suc n)
  have w: "x_words x < 256 * cmd_count ch x" using Suc.prems(4,5) by simp
  obtain t1 r where t1: "xfer P ch t1 = Some (x\<lparr>x_reads := r, x_ready := True\<rparr>)" "ide_polling P ch True t = Some (0, t1)"
    using poll_read [OF d Suc.prems(2,3) w] Suc.prems(1) by metis
  let ?x1 = "x\<lparr>x_reads := r, x_ready := True\<rparr>" and ?x2 = "x\<lparr>x_words := 256 * (j + 1), x_reads := 0, x_ready := False\<rparr>"
  let ?t2 = "snd (insw P (base_port ch) 256 t1)"
  have i: "fst (insw P (base_port ch) 256 t1) = map (stream (D (cmd_slave ch x)) (cmd_lba ch x)) [256 * j..<256 * (j + 1)]"
    "xfer P ch ?t2 = Some ?x2"
    using read_words [OF d _ t1(1), of 256 j] Suc.prems by (simp_all add: read_cmd_def cmd_count_def)
  obtain t' r' b where "read_loop P ch n ?t2 =
      Some (0, concat (map (\<lambda>i. sector_bytes (D (cmd_slave ch x)) (cmd_lba ch x + i)) [j + 1..<j + 1 + n]), t')"
    "xfer P ch t' = Some (x\<lparr>x_words := 256 * (j + Suc n), x_reads := r', x_ready := b\<rparr>)"
    using Suc.IH [OF _ i(2), of "j + 1"] Suc.prems by (auto simp: read_cmd_def cmd_count_def)
  moreover have "concat (map io_word_bytes (fst (insw P (base_port ch) 256 t1))) =
      sector_bytes (D (cmd_slave ch x)) (cmd_lba ch x + j)"
    unfolding i(1) stream_sector sector_bytes_def ..
  ultimately show ?case
    using t1(2) by (intro exI [of _ t'] exI [of _ r'] exI [of _ b]) (simp add: split_def Let_def upt_conv_Cons del: upt_Suc)
qed

lemma ata_command_trace:
  "ata_command d lba count cmd t =
    [Out8 (base_port (channel d) + 7) cmd,
     Out8 (base_port (channel d) + 5) (ucast (drop_bit 16 (lba AND 0xFF0000))),
     Out8 (base_port (channel d) + 4) (ucast (drop_bit 8 (lba AND 0xFF00))),
     Out8 (base_port (channel d) + 3) (ucast (lba AND 0xFF)),
     Out8 (base_port (channel d) + 2) count,
     Out8 (base_port (channel d) + 6) (0xE0 OR push_bit 4 (slave d) OR ucast (drop_bit 24 (lba AND 0xF000000)))] @ t"
  by (simp add: ata_command_def Let_def reg_defs write_low)

text \<open>What a channel was told last and how far it is: the command, the drive, the address, the value of the sector count, in
  the mode of block addresses, and the number of words read since.\<close>

definition commanded :: "ports \<Rightarrow> ide_channel \<Rightarrow> io_trace \<Rightarrow> u8 \<Rightarrow> bool \<Rightarrow> u32 \<Rightarrow> u8 \<Rightarrow> nat \<Rightarrow> bool" where
  "commanded P ch t cmd slv lba count n \<longleftrightarrow> (case xfer P ch t of None \<Rightarrow> False
     | Some x \<Rightarrow> x_cmd x = cmd \<and> bit (out_val (base_port ch + 6) (x_regs x)) 6 \<and> regs_slave ch (x_regs x) = slv \<and>
         regs_lba ch (x_regs x) = lba \<and> out_val (base_port ch + 2) (x_regs x) = count \<and> x_words x = n)"

lemma ata_command_xfer:
  assumes "lba < 0x10000000" "slave d = 0 \<or> slave d = 1"
  shows "commanded P (channel d) (ata_command d lba count cmd t) cmd (slave d = 1) lba count 0"
proof -
  let ?h = "0xE0 OR push_bit 4 (slave d) OR ucast (drop_bit 24 (lba AND 0xF000000)) :: u8"
  have "bit ?h 4 \<longleftrightarrow> slave d = 1" "bit ?h 6"
    unfolding field_consts using assms(2)
    by (auto simp: bit_or_iff bit_push_bit_iff bit_1_iff bit_ucast_iff bit_drop_bit_eq bit_and_iff bit_mask_iff)
  then show ?thesis
    using lba_registers [OF assms] unfolding ata_command_trace by (simp add: commanded_def regs_lba_def regs_slave_def)
qed


section \<open>Drives that keep the protocol\<close>

text \<open>A channel with two drives of 1000 and 10 sectors that are never busy.\<close>

definition example_channel :: ide_channel where
  "example_channel = \<lparr>base_port = 0x1F0, control_port = 0x3F6, bmide = 0, nIEN = 2\<rparr>"

definition example_words :: "bool \<Rightarrow> nat \<Rightarrow> nat \<Rightarrow> u16" where
  "example_words slv s w = (if slv then 0 else 0x8000) + of_nat (s * 256 + w)"

definition example_cap :: "bool \<Rightarrow> nat" where
  "example_cap slv = (if slv then 10 else 1000)"

definition quiet_ports :: ports where
  "quiet_ports = \<lparr>in8 = \<lambda>_ _. 0, in16 = \<lambda>_ _. 0, in32 = \<lambda>_ _. 0\<rparr>"

text \<open>The command, the registers and the words of a transfer do not depend on the answers of the drive.\<close>

definition answer :: "('a \<Rightarrow> ata_xfer \<Rightarrow> 'a) \<Rightarrow> 'a \<Rightarrow> io_trace \<Rightarrow> 'a" where
  "answer f v t = (case xfer quiet_ports example_channel t of None \<Rightarrow> v | Some x \<Rightarrow> f v x)"

definition example_drive :: ports where
  "example_drive = \<lparr>
     in8 = \<lambda>t p. answer (\<lambda>v x. if cmd_lba example_channel x + cmd_count example_channel x \<le> example_cap (cmd_slave example_channel x)
       then 0x58 else 0x51) 0x50 t,
     in16 = \<lambda>t p. answer (\<lambda>v x. example_words (cmd_slave example_channel x)
       (cmd_lba example_channel x + x_words x div 256) (x_words x mod 256)) 0 t,
     in32 = \<lambda>t p. 0\<rparr>"

definition same_xfer :: "ata_xfer \<Rightarrow> ata_xfer \<Rightarrow> bool" where
  "same_xfer x y \<longleftrightarrow> x_cmd x = x_cmd y \<and> x_regs x = x_regs y \<and> x_words x = x_words y"

lemma xfer_same: "rel_option same_xfer (xfer P ch t) (xfer Q ch t)"
proof (induction t)
  case (Cons e t)
  show ?case
  proof (cases e)
    case (Out8 p v)
    then show ?thesis using Cons by (simp add: same_xfer_def)
  next
    case (In16 p)
    then show ?thesis
      using Cons by (cases "xfer P ch t"; cases "xfer Q ch t") (auto simp: same_xfer_def word_read_def Let_def)
  next
    case (In8 p)
    then show ?thesis using Cons by (cases "xfer P ch t"; cases "xfer Q ch t") (auto simp: same_xfer_def)
  qed (use Cons in simp_all)
qed simp

lemma example_answer:
  assumes "xfer P example_channel t = Some x" and "\<And>v x y. same_xfer x y \<Longrightarrow> f v x = f v y"
  shows "answer f v t = f v x"
proof -
  obtain y where "xfer quiet_ports example_channel t = Some y" "same_xfer x y"
    using xfer_same [of P example_channel t quiet_ports] assms(1) by (cases "xfer quiet_ports example_channel t") auto
  then show ?thesis using assms(2) by (simp add: answer_def)
qed

lemma example_status:
  "in8 example_drive t p \<in> {0x50, 0x51, 0x58}"
  "xfer example_drive example_channel t = Some x \<Longrightarrow> in8 example_drive t p =
     (if cmd_lba example_channel x + cmd_count example_channel x \<le> example_cap (cmd_slave example_channel x) then 0x58 else 0x51)"
  "xfer example_drive example_channel t = Some x \<Longrightarrow> in16 example_drive t p =
     example_words (cmd_slave example_channel x) (cmd_lba example_channel x + x_words x div 256) (x_words x mod 256)"
proof -
  show "in8 example_drive t p \<in> {0x50, 0x51, 0x58}"
    by (auto simp: example_drive_def answer_def split: option.splits)
  assume x: "xfer example_drive example_channel t = Some x"
  show "in8 example_drive t p =
     (if cmd_lba example_channel x + cmd_count example_channel x \<le> example_cap (cmd_slave example_channel x) then 0x58 else 0x51)"
    unfolding example_drive_def ports.simps
    by (rule example_answer [OF x]) (simp add: same_xfer_def cmd_count_def)
  show "in16 example_drive t p =
     example_words (cmd_slave example_channel x) (cmd_lba example_channel x + x_words x div 256) (x_words x mod 256)"
    unfolding example_drive_def ports.simps
    by (rule example_answer [OF x]) (simp add: same_xfer_def)
qed

lemma example_drives: "ata_drives example_drive example_channel example_cap example_words"
proof -
  have idle: "in8 example_drive t p AND ATA_SR_BSY = 0" "in8 example_drive t p AND ATA_SR_DF = 0" for t p
    using example_status(1) [of t p] by (auto simp: ATA_SR_BSY_def ATA_SR_DF_def)
  have "cap \<le> a \<Longrightarrow> \<not> a + cmd_count example_channel x \<le> cap" for cap a x using cmd_count_pos [of example_channel x] by linarith
  then show ?thesis
    unfolding ata_drives_def
    by (auto simp: idle [unfolded ATA_SR_BSY_def] example_status(2,3) status_defs)
qed

definition example_disk :: "ide_device generic_disk" where
  "example_disk = \<lparr>disk_name = [104, 100, 48, 0], disk_sectors = 100,
     priv = (new_device example_channel 0)\<lparr>capabilities := 0x200\<rparr>\<rparr>"


text \<open>The control register of a channel whose base address register 1 reads as 0 is accessed through the port of the
  first serial line: \<^verbatim>\<open>ATA_PRIMARY_CONTROL\<close> is already the port of the register, and 2 is added to it.\<close>

lemma default_control_port:
  "reg_port \<lparr>base_port = or_default 0 0x1F0, control_port = or_default 0 0x3F6, bmide = b, nIEN = 2\<rparr> ATA_REG_CONTROL = Some 0x3F8"
  by (simp add: reg_port_def or_default_def ATA_REG_CONTROL_def)

end
