(* ===== verification/Block_Spec.thy ===== *)
theory Block_Spec
  imports Block Ata_Spec
begin

text \<open>
  What registering a disk does, for every content of its first sector.
\<close>

definition used_entry :: "u8 list \<Rightarrow> nat \<Rightarrow> bool" where
  "used_entry sector i \<longleftrightarrow> partition_type (mbr_entry sector i) \<noteq> 0"

definition part_of :: "u8 list \<Rightarrow> nat \<Rightarrow> disk_partition" where
  "part_of sector i = \<lparr>p_lba_start = mbr_lba_start (mbr_entry sector i), p_nr_sectors = mbr_nr_sectors (mbr_entry sector i)\<rparr>"

text \<open>The array after the loop: the slots of used entries are written, the others keep what they held.\<close>

definition slots :: "u8 list \<Rightarrow> disk_partition list \<Rightarrow> nat \<Rightarrow> disk_partition" where
  "slots sector stack j = (if j < 4 \<and> used_entry sector j then part_of sector j else stack ! j)"

lemma mbr_loop_spec:
  assumes "i + n \<le> length parts"
  shows "fst (mbr_loop sector i n parts f) = f + int (length (filter (used_entry sector) [i..<i + n])) \<and>
    length (snd (mbr_loop sector i n parts f)) = length parts \<and>
    (\<forall>j < length parts. snd (mbr_loop sector i n parts f) ! j =
       (if i \<le> j \<and> j < i + n \<and> used_entry sector j then part_of sector j else parts ! j))"
  using assms
proof (induction n arbitrary: i parts f)
  case (Suc n)
  have u: "[i..<i + Suc n] = i # [i + 1..<i + 1 + n]" by (simp add: upt_conv_Cons del: upt_Suc)
  show ?case
  proof (cases "used_entry sector i")
    case False
    then have "mbr_loop sector i (Suc n) parts f = mbr_loop sector (i + 1) n parts f" by (simp add: used_entry_def Let_def)
    moreover have "i \<le> j \<and> j < i + Suc n \<and> used_entry sector j \<longleftrightarrow> i + 1 \<le> j \<and> j < i + 1 + n \<and> used_entry sector j" for j
      using False by (cases "j = i") auto
    ultimately show ?thesis using Suc.IH [of "i + 1" parts f] Suc.prems False unfolding u by simp
  next
    case True
    let ?parts = "parts[i := part_of sector i]"
    have "mbr_loop sector i (Suc n) parts f = mbr_loop sector (i + 1) n ?parts (f + 1)"
      using True by (simp add: used_entry_def Let_def part_of_def)
    moreover have "(if i \<le> j \<and> j < i + Suc n \<and> used_entry sector j then part_of sector j else parts ! j) =
        (if i + 1 \<le> j \<and> j < i + 1 + n \<and> used_entry sector j then part_of sector j else ?parts ! j)" if "j < length parts" for j
      using True that by (cases "j = i") auto
    ultimately show ?thesis using Suc.IH [of "i + 1" ?parts "f + 1"] Suc.prems True unfolding u by simp
  qed
qed auto

definition part_device :: "'d generic_disk \<Rightarrow> nat \<Rightarrow> (nat \<Rightarrow> disk_partition) \<Rightarrow> nat \<Rightarrow> 'd block_device" where
  "part_device dsk dev p i =
     (let len = length (takeWhile (\<lambda>c. c \<noteq> 0) (disk_name dsk)) in
      \<lparr>name = (disk_name dsk)[len := 112, len + 1 := hex_names ! i, len + 2 := 0], disk = dsk, parent = Some dev,
       lba_start = p_lba_start (p i), nr_sectors = p_nr_sectors (p i)\<rparr>)"

lemma add_parts_spec:
  assumes "\<forall>n. mem n" "length parts = 16" "i + n \<le> 16" "len + 2 < 16"
    and "len = length (takeWhile (\<lambda>c. c \<noteq> 0) (disk_name dsk))"
  shows "\<exists>st'. add_parts mem dsk dev len parts i n st = Inr st' \<and> blk_io st' = blk_io st \<and>
    block_devices st' = block_devices st @ map (part_device dsk dev (\<lambda>j. parts ! j)) [i..<i + n]"
  using assms(3)
proof (induction n arbitrary: i st)
  case (Suc n)
  let ?st = "st\<lparr>block_devices := block_devices st @ [part_device dsk dev (\<lambda>j. parts ! j) i], blk_allocs := blk_allocs st + 1\<rparr>"
  have "part_name (disk_name dsk) len i = Inr ((disk_name dsk)[len := 112, len + 1 := hex_names ! i, len + 2 := 0])"
    using assms(4) Suc.prems by (simp add: part_name_def DISK_NAME_LEN_def hex_names_def)
  then have step: "add_parts mem dsk dev len parts i (Suc n) st = add_parts mem dsk dev len parts (i + 1) n ?st"
    using assms(1,2,5) Suc.prems by (simp add: part_device_def Let_def)
  obtain st' where "add_parts mem dsk dev len parts (i + 1) n ?st = Inr st'" "blk_io st' = blk_io ?st"
      "block_devices st' = block_devices ?st @ map (part_device dsk dev (\<lambda>j. parts ! j)) [i + 1..<i + 1 + n]"
    using Suc.IH [of "i + 1" ?st] Suc.prems by auto
  moreover have "[i..<i + Suc n] = i # [i + 1..<i + 1 + n]" by (simp add: upt_conv_Cons del: upt_Suc)
  ultimately show ?case unfolding step by simp
qed simp

text \<open>C36. Registering a disk: if the first sector can be read and has the signature, \<^verbatim>\<open>add_disk\<close> registers the disk and as many
  partitions as the table has used entries. The \<open>i\<close>-th of them is entry \<open>i\<close> of the table if that entry is used, so
  that a table without gaps gives exactly its partitions, named \<^verbatim>\<open>hd0p0\<close> and so on; behind an unused entry it is
  whatever the array on the stack held.\<close>

theorem add_disk_partitions:
  assumes "\<forall>n. mem n" "length stack = 16" "0 \<in> set (disk_name dsk)"
    and "length (takeWhile (\<lambda>c. c \<noteq> 0) (disk_name dsk)) + 2 < 16"
    and "read_sectors dsk 0 1 (blk_io st) = Some (Inr (r, sector, t))" "0 \<le> r" "length sector = 512" "length buf = 512"
    and "mbr_signature sector = MBR_SIGNATURE"
  shows "\<exists>st'. add_disk read_sectors mem buf stack dsk st = Some (Inr (0, st')) \<and>
    block_devices st' = block_devices st @
      \<lparr>name = disk_name dsk, disk = dsk, parent = None, lba_start = 0, nr_sectors = disk_sectors dsk\<rparr> #
      map (part_device dsk (length (block_devices st)) (slots sector stack)) [0..<length (filter (used_entry sector) [0..<4])] \<and>
    ((\<exists>k\<le>4. \<forall>i<4. used_entry sector i \<longleftrightarrow> i < k) \<longrightarrow>
      (\<forall>i < length (filter (used_entry sector) [0..<4]). slots sector stack i = part_of sector i))"
proof -
  let ?k = "length (filter (used_entry sector) [0..<4])"
  let ?st = "st\<lparr>blk_allocs := blk_allocs st + 1, block_devices := block_devices st @
      [\<lparr>name = disk_name dsk, disk = dsk, parent = None, lba_start = 0, nr_sectors = disk_sectors dsk\<rparr>], blk_io := t\<rparr>"
  let ?len = "length (takeWhile (\<lambda>c. c \<noteq> 0) (disk_name dsk))"
  let ?res = "mbr_loop sector 0 4 stack 0"
  have loop: "fst ?res = int ?k" "length (snd ?res) = 16" "j < 16 \<Longrightarrow> snd ?res ! j = slots sector stack j" for j
    using mbr_loop_spec [of 0 4 stack sector 0] assms(2) by (auto simp: slots_def)
  have k4: "?k \<le> 4" using length_filter_le [of "used_entry sector" "[0..<4]"] by simp
  have parse: "mbr_parse read_sectors buf dsk stack 16 (blk_io st) = Some (Inr (int ?k, snd ?res, t))"
    using assms(5-9) loop(1) by (simp add: mbr_parse_def MBR_MAX_PARTITIONS_def split_def)
  obtain st' where st': "add_parts mem dsk (length (block_devices st)) ?len (snd ?res) 0 ?k ?st = Inr st'"
      "block_devices st' = block_devices ?st @ map (part_device dsk (length (block_devices st)) (\<lambda>j. snd ?res ! j)) [0..<?k]"
    using add_parts_spec [OF assms(1) loop(2) _ assms(4) refl, of 0 ?k "length (block_devices st)" ?st] k4 by auto
  have "map (part_device dsk (length (block_devices st)) (\<lambda>j. snd ?res ! j)) [0..<?k] =
      map (part_device dsk (length (block_devices st)) (slots sector stack)) [0..<?k]"
    using k4 loop(3) by (auto simp: part_device_def Let_def)
  moreover have "add_disk read_sectors mem buf stack dsk st = Some (Inr (0, st'))"
    using assms(1,3) parse st'(1) by (simp add: add_disk_def Let_def)
  moreover have "slots sector stack i = part_of sector i" if "k \<le> 4" "\<forall>i<4. used_entry sector i \<longleftrightarrow> i < k" "i < ?k" for k i
  proof -
    have "filter (used_entry sector) [0..<4] = filter (\<lambda>i. i < k) [0..<4]" using that(2) by (intro filter_cong) auto
    also have "\<dots> = [0..<k]"
    proof -
      have "[0..<4] = [0..<k] @ [k..<4]" using that(1) by (metis le0 le_add_diff_inverse upt_add_eq_append)
      then show ?thesis by simp
    qed
    finally have "i < k" using that(3) by simp
    then show ?thesis using that by (simp add: slots_def)
  qed
  ultimately show ?thesis using st'(2) by auto
qed

definition example_sector :: "u8 list" where
  "example_sector = (replicate 512 0)[0x1C2 := 0x83, 0x1C6 := 1, 0x1CA := 50, 510 := 0x55, 511 := 0xAA]"

lemma example_sector_nth:
  "j < 512 \<Longrightarrow> example_sector ! j = (if j = 511 then 0xAA else if j = 510 then 0x55 else if j = 0x1CA then 50 else
      if j = 0x1C6 then 1 else if j = 0x1C2 then 0x83 else 0)"
  by (simp add: example_sector_def nth_list_update)

lemma example_sector_facts:
  "length example_sector = 512" "mbr_signature example_sector = MBR_SIGNATURE"
  by (simp_all add: example_sector_nth mbr_signature_def le16_def MBR_PARTITION_GAP_def MBR_SIGNATURE_def)
     (simp add: example_sector_def)

lemma example_sector_used: "i < 4 \<Longrightarrow> used_entry example_sector i \<longleftrightarrow> i = 0"
  by (auto simp: used_entry_def mbr_entry_def Let_def example_sector_nth MBR_PARTITION_GAP_def)

definition example_stack :: "disk_partition list" where
  "example_stack = replicate 16 \<lparr>p_lba_start = 0xDEAD, p_nr_sectors = 0xBEEF\<rparr>"

definition memory_disk :: "unit generic_disk" where
  "memory_disk = \<lparr>disk_name = [104, 100, 48] @ replicate 13 0, disk_sectors = 100, priv = ()\<rparr>"

theorem add_disk_partitions_witness:
  "\<exists>st'. add_disk (\<lambda>dsk lba count t. Some (Inr (0, example_sector, t))) (\<lambda>_. True) (replicate 512 0) example_stack memory_disk
     \<lparr>block_devices = [], blk_io = [], blk_allocs = 0\<rparr> = Some (Inr (0, st')) \<and> length (block_devices st') = 2"
proof -
  have f: "filter (used_entry example_sector) [0..<4] = [0]"
    using example_sector_used by (simp add: upt_rec)
  show ?thesis
    using add_disk_partitions [of "\<lambda>_. True" example_stack memory_disk "\<lambda>dsk lba count t. Some (Inr (0, example_sector, t))"
        "\<lparr>block_devices = [], blk_io = [], blk_allocs = 0\<rparr>" 0 example_sector "[]" "replicate 512 0"] f
      example_sector_facts(1,2)
    by (auto simp: example_stack_def memory_disk_def)
qed

section \<open>Read errors\<close>

text \<open>Read errors of a drive: \<^verbatim>\<open>ata_read_sector\<close> reports them as 1, 2 or 3, and never as the negative value that
  \<^verbatim>\<open>mbr_parse\<close> tests for, so that with a drive that answers every command with an error the partition table is taken from
  what happened to be in the buffer.\<close>

theorem ata_errors_unnoticed:
  assumes "\<forall>t. in8 P t (base_port (channel (priv dsk)) + 7) = 0x51" "capabilities (priv dsk) AND 0x200 \<noteq> 0"
  shows "\<exists>t'. ata_read_sector P dsk 0 1 t = Some (Inr (2, [], t')) \<and>
    mbr_parse (ata_read_sector P) buf dsk parts 16 t =
      Some (Inr (if mbr_signature buf \<noteq> MBR_SIGNATURE then (0, parts, t')
                 else (fst (mbr_loop buf 0 4 parts 0), snd (mbr_loop buf 0 4 parts 0), t')))"
proof -
  let ?ch = "channel (priv dsk)"
  have w: "wait_not_busy P ?ch t = Some (In8 (base_port ?ch + 7) # t)" for t
    using assms(1) by (simp add: wait_not_busy.simps [of P ?ch t] reg_defs status_defs read_status)
  have "\<exists>t'. ide_polling P ?ch True t = Some (2, t')" for t
    using assms(1) by (simp add: ide_polling_def w reg_defs status_defs read_status)
  then obtain t' where "ide_polling P ?ch True
      (ata_command (priv dsk) 0 1 ATA_CMD_READ_PIO (In8 (base_port ?ch + 7) # ide_write_reg ?ch ATA_REG_CONTROL 2 t)) = Some (2, t')"
    by blast
  then have "read_loop P ?ch (Suc 0)
      (ata_command (priv dsk) 0 1 ATA_CMD_READ_PIO (In8 (base_port ?ch + 7) # ide_write_reg ?ch ATA_REG_CONTROL 2 t)) = Some (2, [], t')"
    by simp
  then have r: "ata_read_sector P dsk 0 1 t = Some (Inr (2, [], t'))"
    using assms(2) w by (simp add: ata_read_sector_def ata_access_sector_def Let_def)
  then show ?thesis by (auto simp: mbr_parse_def MBR_MAX_PARTITIONS_def split_def Let_def)
qed

theorem ata_errors_unnoticed_witness:
  "\<exists>t'. ata_read_sector \<lparr>in8 = \<lambda>_ _. 0x51, in16 = \<lambda>_ _. 0, in32 = \<lambda>_ _. 0\<rparr> example_disk 0 1 [] = Some (Inr (2, [], t'))"
  using ata_errors_unnoticed [of "\<lparr>in8 = \<lambda>_ _. 0x51, in16 = \<lambda>_ _. 0, in32 = \<lambda>_ _. 0\<rparr>" example_disk "[]" "[]" "[]"]
  by (auto simp: example_disk_def)

end
