(* ===== verification/X86.thy ===== *)
theory X86
  imports Port_Io
begin

text \<open>
  \<^verbatim>\<open>arch/x86/gdt.c\<close> and \<^verbatim>\<open>arch/x86/idt.c\<close>: the descriptor tables, as the processor reads them, the interrupt
  controllers and the dispatch of interrupts. The addresses of the linked symbols are arguments.
\<close>

section \<open>Segments\<close>

record segment_descriptor =
  limit_low :: u16
  base_low :: u16
  base_middle :: u8
  access :: u8
  limit_high :: u8
  seg_flags :: u8
  base_high :: u8

record descriptor_register =
  dr_limit :: u16
  dr_base :: u32

record tss =
  link :: u16
  esp0 :: u32
  ss0 :: u16
  esp1 :: u32
  ss1 :: u16
  esp2 :: u32
  ss2 :: u16
  tss_cr3 :: u32
  tss_eip :: u32
  tss_eflags :: u32
  tss_regs :: "u32 list"
  tss_segments :: "u16 list"
  ldt :: u16
  iomap :: u16

definition sizeof_tss :: u32 where "sizeof_tss = 104"

definition ACCESS_BIT :: u8 where "ACCESS_BIT = 0x01"
definition RW_BIT :: u8 where "RW_BIT = 0x02"
definition EXECUTABLE_BIT :: u8 where "EXECUTABLE_BIT = 0x08"
definition DESCRIPTOR_TYPE :: u8 where "DESCRIPTOR_TYPE = 0x10"
definition DPL_RING0 :: u8 where "DPL_RING0 = 0x00"
definition DPL_RING3 :: u8 where "DPL_RING3 = 0x60"
definition PRESENT_BIT :: u8 where "PRESENT_BIT = 0x80"
definition SEGMENT_SIZE_BIT :: u8 where "SEGMENT_SIZE_BIT = 0x04"
definition GRANULARITY_BIT :: u8 where "GRANULARITY_BIT = 0x08"

definition GDT_SELECTOR :: "u16 \<Rightarrow> u16 \<Rightarrow> u16" where
  "GDT_SELECTOR idx ring = push_bit 3 idx OR ring"

text \<open>The two bit fields of 4 bits share a byte; each is kept by itself.\<close>

definition gdt_set_entry :: "u32 \<Rightarrow> u32 \<Rightarrow> u8 \<Rightarrow> u8 \<Rightarrow> segment_descriptor" where
  "gdt_set_entry base limit acc fl =
     \<lparr>limit_low = ucast (limit AND 0xFFFF), base_low = ucast (base AND 0xFFFF),
      base_middle = ucast (drop_bit 16 base AND 0xFF), access = acc,
      limit_high = ucast (drop_bit 16 limit AND 0x0F), seg_flags = fl AND 0x0F,
      base_high = ucast (drop_bit 24 base AND 0xFF)\<rparr>"

record x86_state =
  gdt_entries :: "segment_descriptor list"
  gdtr :: descriptor_register
  g_tss :: tss

definition gdt_init :: "u32 \<Rightarrow> u32 \<Rightarrow> u32 \<Rightarrow> x86_state \<Rightarrow> x86_state" where
  "gdt_init tss_addr gdt_addr kernel_stack_top s =
     (let common = ACCESS_BIT OR RW_BIT OR PRESENT_BIT OR DESCRIPTOR_TYPE;
          fl = SEGMENT_SIZE_BIT OR GRANULARITY_BIT;
          kernel = common OR DPL_RING0;
          user = common OR DPL_RING3 in
      s\<lparr>gdt_entries :=
          [gdt_set_entry 0 0 0 0,
           gdt_set_entry 0 0xFFFFFF (kernel OR EXECUTABLE_BIT) fl,
           gdt_set_entry 0 0xFFFFFF kernel fl,
           gdt_set_entry 0 0xFFFFFF (user OR EXECUTABLE_BIT) fl,
           gdt_set_entry 0 0xFFFFFF user fl,
           gdt_set_entry tss_addr (sizeof_tss - 1) (PRESENT_BIT OR DPL_RING0 OR EXECUTABLE_BIT OR ACCESS_BIT) 0],
        gdtr := \<lparr>dr_limit = 8 * 6 - 1, dr_base = gdt_addr\<rparr>,
        g_tss := (g_tss s)\<lparr>ss0 := 0x10, esp0 := kernel_stack_top, iomap := ucast sizeof_tss\<rparr>\<rparr>)"

definition set_tss_to_kstack_top :: "u32 \<Rightarrow> x86_state \<Rightarrow> x86_state" where
  "set_tss_to_kstack_top stack_top s = s\<lparr>g_tss := (g_tss s)\<lparr>esp0 := stack_top\<rparr>\<rparr>"

section \<open>Interrupts\<close>

record idt_entry =
  offset_1 :: u16
  selector :: u16
  zero_byte :: u8
  type_attributes :: u8
  offset_2 :: u16

definition IntGate_32 :: u8 where "IntGate_32 = 0x0E"
definition CPU_Ring0 :: u8 where "CPU_Ring0 = 0x00"
definition CPU_Ring3 :: u8 where "CPU_Ring3 = push_bit 5 0x03"
definition PresentBit :: u8 where "PresentBit = push_bit 7 0x01"

definition init_pic :: "io_trace \<Rightarrow> io_trace" where
  "init_pic t =
     (let t = outb 0x20 0x11 t; t = outb 0xA0 0x11 t;
          t = outb 0x21 0x20 t; t = outb 0xA1 0x28 t;
          t = outb 0x21 0x04 t; t = outb 0xA1 0x02 t;
          t = outb 0x21 0x01 t; t = outb 0xA1 0x01 t;
          t = outb 0x21 0x00 t
      in outb 0xA1 0x00 t)"

definition blank_gate :: idt_entry where
  "blank_gate = \<lparr>offset_1 = 0, selector = 0, zero_byte = 0, type_attributes = 0, offset_2 = 0\<rparr>"

definition idt_set_entry :: "u16 \<Rightarrow> u8 \<Rightarrow> u32 \<Rightarrow> idt_entry \<Rightarrow> idt_entry" where
  "idt_set_entry sel ty offset e =
     e\<lparr>offset_1 := ucast (offset AND 0xFFFF), offset_2 := ucast (drop_bit 16 (offset AND 0xFFFF0000)), selector := sel,
       type_attributes := ty\<rparr>"

text \<open>The gates of the 32 exceptions and the 16 lines of the controllers, in order, and that of the system
  calls; \<open>isr n\<close> is the address of the stub \<^verbatim>\<open>isr_n\<close> or \<^verbatim>\<open>irq_n\<close>.\<close>

definition idt_init :: "(nat \<Rightarrow> u32) \<Rightarrow> io_trace \<Rightarrow> idt_entry list \<times> io_trace" where
  "idt_init isr t =
     (let t = init_pic t;
          idt = replicate 256 blank_gate;
          set_gate = (\<lambda>n ring idt. idt[n := idt_set_entry 0x08 (PresentBit OR IntGate_32 OR ring) (isr n) (idt ! n)]);
          idt = fold (\<lambda>n. set_gate n CPU_Ring0) [0..<48] idt
      in (set_gate 0x80 CPU_Ring3 idt, t))"

definition interrupt_names :: "string list" where
  "interrupt_names =
    [''Divide Error'', ''Debug Exception'', ''NMI Interrupt'', ''Breakpoint'', ''Overflow'', ''BOUND Range Exceeded'',
     ''Invalid Opcode (Undefined Opcode)'', ''Device Not Available (Math Coprocessor)'', ''Double Fault'',
     ''Coprocessor Segment Overrun (reserved)'', ''Invalid TSS'', ''Segment Not Present'', ''Stack-Segment Fault'',
     ''General Protection'', ''Page Fault'', ''Reserved'', ''x87 FPU Floating-Point Error (Math Fault)'', ''Alignment Check'',
     ''Machine Check'', ''SIMD Floating-Point Exception'', ''Virtualization Exception'', ''Control Protection Exception'',
     ''Reserved'', ''Reserved'', ''Reserved'', ''Reserved'', ''Reserved'', ''Reserved'', ''Hypervisor Injection Exception'',
     ''VMM Communication Exception'', ''Security Exception'', ''Reserved'']"

text \<open>\<open>run h s\<close> is the call of the handler \<open>h\<close>; a handler that is not there is a panic that names the exception.\<close>

definition exception_handler :: "('h \<Rightarrow> 's \<Rightarrow> 's kres) \<Rightarrow> 'h option list \<Rightarrow> u32 \<Rightarrow> 's \<Rightarrow> 's kres" where
  "exception_handler run interrupt_handlers int_no s =
     (let n = unat int_no in
      if length interrupt_handlers \<le> n then Inl OutOfBounds
      else case interrupt_handlers ! n of
        Some h \<Rightarrow> run h s
      | None \<Rightarrow>
          if n < length interrupt_names then Inl (Panic (''Exception: '' @ interrupt_names ! n))
          else Inl (Panic ''Unknown Exception''))"

definition idt_register_interrupt_handlers :: "u8 \<Rightarrow> 'h \<Rightarrow> 'h option list \<Rightarrow> 'h option list" where
  "idt_register_interrupt_handlers num h hs = hs[unat num := Some h]"

section \<open>As the processor reads them\<close>

definition seg_base :: "segment_descriptor \<Rightarrow> u32" where
  "seg_base d = ucast (base_low d) OR push_bit 16 (ucast (base_middle d)) OR push_bit 24 (ucast (base_high d))"

definition seg_limit :: "segment_descriptor \<Rightarrow> u32" where
  "seg_limit d = ucast (limit_low d) OR push_bit 16 (ucast (limit_high d))"

definition seg_dpl :: "segment_descriptor \<Rightarrow> u8" where
  "seg_dpl d = drop_bit 5 (access d) AND 3"

definition seg_bytes :: "segment_descriptor \<Rightarrow> nat" where
  "seg_bytes d = (unat (seg_limit d) + 1) * (if seg_flags d AND 8 \<noteq> 0 then 4096 else 1)"

definition gate_offset :: "idt_entry \<Rightarrow> u32" where
  "gate_offset e = ucast (offset_1 e) OR push_bit 16 (ucast (offset_2 e))"

definition gate_dpl :: "idt_entry \<Rightarrow> u8" where
  "gate_dpl e = drop_bit 5 (type_attributes e) AND 3"

definition gate_present :: "idt_entry \<Rightarrow> bool" where
  "gate_present e \<longleftrightarrow> bit (type_attributes e) 7"

lemma x86_consts:
  "(0xFFFF :: u32) = push_bit 0 (mask 16)" "(0xFF :: u32) = push_bit 0 (mask 8)" "(0xF :: u32) = push_bit 0 (mask 4)"
  "(0xFFFF0000 :: u32) = push_bit 16 (mask 16)"
  by (simp_all add: mask_eq_exp_minus_1)

lemma bit_run: "bit (push_bit k (mask m) :: 'a::len word) n \<longleftrightarrow> k \<le> n \<and> n < k + m \<and> n < LENGTH('a)"
  by (simp only: bit_push_bit_iff bit_mask_iff) auto

lemmas run_bits = bit_or_iff bit_ucast_iff bit_and_iff bit_drop_bit_eq comp_apply bit_run

lemma seg_base_set: "seg_base (gdt_set_entry b l a f) = b"
proof (rule bit_word_eqI)
  fix n assume n: "n < LENGTH(32)"
  consider "n < 16" | "16 \<le> n" "n < 24" | "24 \<le> n" by linarith
  then show "bit (seg_base (gdt_set_entry b l a f)) n = bit b n"
    using n unfolding seg_base_def gdt_set_entry_def segment_descriptor.simps x86_consts
    by cases (simp only: run_bits, simp only: bit_push_bit_iff run_bits, auto simp: bit_mask_iff)+
qed

lemma seg_limit_set: "seg_limit (gdt_set_entry b l a f) = take_bit 20 l"
proof (rule bit_word_eqI)
  fix n assume n: "n < LENGTH(32)"
  consider "n < 16" | "16 \<le> n" "n < 20" | "20 \<le> n" by linarith
  then show "bit (seg_limit (gdt_set_entry b l a f)) n = bit (take_bit 20 l) n"
    using n unfolding seg_limit_def gdt_set_entry_def segment_descriptor.simps x86_consts
    by cases (simp only: run_bits bit_take_bit_iff, simp only: bit_push_bit_iff run_bits, auto simp: bit_mask_iff)+
qed

lemma gate_offset_set: "gate_offset (idt_set_entry sel ty off e) = off"
proof (rule bit_word_eqI)
  fix n assume n: "n < LENGTH(32)"
  consider "n < 16" | "16 \<le> n" by linarith
  then show "bit (gate_offset (idt_set_entry sel ty off e)) n = bit off n"
    using n unfolding gate_offset_def idt_set_entry_def x86_consts
    by cases (simp add: bit_simps bit_run; auto simp: bit_simps)+
qed

section \<open>Properties\<close>

text \<open>Segments: read back as the processor does, the descriptors that \<^verbatim>\<open>gdt_init\<close> writes are a null descriptor, code and data
  segments of the kernel (privilege 0) and of user programs (privilege 3), all of which start at 0 and span
  4 GiB although the limit is given with 24 bits, and an available 32-bit task state segment at the address and with the
  size of \<^verbatim>\<open>g_tss\<close>, whose stack is the kernel stack in the kernel data segment.\<close>

theorem gdt_init_correct:
  "map seg_base (gdt_entries (gdt_init tss_addr gdt_addr stack s)) = [0, 0, 0, 0, 0, tss_addr] \<and>
   map seg_bytes (gdt_entries (gdt_init tss_addr gdt_addr stack s)) = [1, 2 ^ 32, 2 ^ 32, 2 ^ 32, 2 ^ 32, 104] \<and>
   map access (gdt_entries (gdt_init tss_addr gdt_addr stack s)) = [0, 0x9B, 0x93, 0xFB, 0xF3, 0x89] \<and>
   map seg_dpl (gdt_entries (gdt_init tss_addr gdt_addr stack s)) = [0, 0, 0, 3, 3, 0] \<and>
   unat (dr_limit (gdtr (gdt_init tss_addr gdt_addr stack s))) + 1 = 8 * length (gdt_entries (gdt_init tss_addr gdt_addr stack s)) \<and>
   esp0 (g_tss (gdt_init tss_addr gdt_addr stack s)) = stack \<and>
   ss0 (g_tss (gdt_init tss_addr gdt_addr stack s)) = GDT_SELECTOR 2 0"
proof -
  have acc: "access (gdt_set_entry b l a f) = a" "seg_flags (gdt_set_entry b l a f) = f AND 0x0F" for b l a f
    by (simp_all add: gdt_set_entry_def)
  note cs = ACCESS_BIT_def RW_BIT_def EXECUTABLE_BIT_def DESCRIPTOR_TYPE_def DPL_RING0_def DPL_RING3_def PRESENT_BIT_def
    SEGMENT_SIZE_BIT_def GRANULARITY_BIT_def sizeof_tss_def
  show ?thesis
    by (simp add: gdt_init_def Let_def seg_base_set seg_bytes_def seg_limit_set acc seg_dpl_def cs take_bit_eq_mod GDT_SELECTOR_def)
qed

lemma fold_gates_length: "length (fold (\<lambda>n idt. idt[n := g n (idt ! n)]) ns idt) = length idt"
  by (induction ns arbitrary: idt) auto

lemma fold_gates_nth:
  "distinct ns \<Longrightarrow> i < length idt \<Longrightarrow>
   fold (\<lambda>n idt. idt[n := g n (idt ! n)]) ns idt ! i = (if i \<in> set ns then g i (idt ! i) else idt ! i)"
proof (induction ns arbitrary: idt)
  case (Cons a ns)
  then show ?case by (cases "a = i") auto
qed simp

text \<open>C37. Interrupt gates: after \<^verbatim>\<open>idt_init\<close> exactly the gates of the 32 exceptions, the 16 interrupt lines and the system call
  are present; each leads to its own stub in the kernel code segment, and the only one that a user program
  may enter by itself is that of the system call.\<close>

theorem idt_init_correct:
  assumes "n < 256"
  shows "length (fst (idt_init isr t)) = 256 \<and>
    (gate_present (fst (idt_init isr t) ! n) \<longleftrightarrow> n < 48 \<or> n = 0x80) \<and>
    (n < 48 \<or> n = 0x80 \<longrightarrow> gate_offset (fst (idt_init isr t) ! n) = isr n \<and> selector (fst (idt_init isr t) ! n) = GDT_SELECTOR 1 0) \<and>
    (gate_dpl (fst (idt_init isr t) ! n) = 3 \<longleftrightarrow> n = 0x80)"
proof -
  let ?g = "\<lambda>n. idt_set_entry 0x08 (PresentBit OR IntGate_32 OR CPU_Ring0) (isr n)"
  let ?idt = "fold (\<lambda>n idt. idt[n := ?g n (idt ! n)]) [0..<48] (replicate 256 blank_gate)"
  have len: "length ?idt = 256" using fold_gates_length [where ns = "[0..<48]" and g = ?g] by (simp del: upt_rec_numeral)
  have nth: "?idt ! i = (if i < 48 then ?g i blank_gate else blank_gate)" if "i < 256" for i
    using that fold_gates_nth [where ns = "[0..<48]" and g = ?g and idt = "replicate 256 blank_gate" and i = i]
    by (simp del: upt_rec_numeral)
  have idt: "fst (idt_init isr t) = ?idt[0x80 := idt_set_entry 0x08 (PresentBit OR IntGate_32 OR CPU_Ring3) (isr 0x80) (?idt ! 0x80)]"
    by (simp add: idt_init_def Let_def)
  have b7: "bit (0x8E :: u8) 7" "bit (0xEE :: u8) 7" "\<not> bit (0 :: u8) 7" by (simp_all add: bit_iff_odd)
  show ?thesis
  proof (cases "n = 0x80")
    case True
    then have "fst (idt_init isr t) ! n = idt_set_entry 0x08 0xEE (isr n) blank_gate"
      using len nth [of 128] by (simp add: idt PresentBit_def IntGate_32_def CPU_Ring3_def)
    then show ?thesis using True len b7 gate_offset_set
      by (simp add: idt gate_present_def gate_dpl_def GDT_SELECTOR_def) (simp add: idt_set_entry_def)
  next
    case False
    then have "fst (idt_init isr t) ! n = (if n < 48 then idt_set_entry 0x08 0x8E (isr n) blank_gate else blank_gate)"
      using nth [OF assms] by (simp add: idt PresentBit_def IntGate_32_def CPU_Ring0_def)
    then show ?thesis using False len b7 gate_offset_set
      by (simp add: idt gate_present_def gate_dpl_def GDT_SELECTOR_def) (simp add: idt_set_entry_def blank_gate_def)
  qed
qed

theorem idt_init_correct_witness:
  "gate_dpl (fst (idt_init (\<lambda>n. 0xC0100000 + of_nat n) []) ! 0x80) = 3 \<and>
   gate_offset (fst (idt_init (\<lambda>n. 0xC0100000 + of_nat n) []) ! 0x80) = 0xC0100080"
  using idt_init_correct [of 128 "\<lambda>n. 0xC0100000 + of_nat n" "[]"] by simp

end
