(* ===== verification/Power_Off.thy ===== *)
theory Power_Off
  imports Port_Io
begin

text \<open>
  \<^verbatim>\<open>include/arch/acpi.h\<close>: the three ways to stop the machine, as the accesses to the ports that are made until the processor
  is halted. \<^verbatim>\<open>reboot\<close> waits for the keyboard controller first.
\<close>

definition halt :: "io_trace \<Rightarrow> io_trace" where
  "halt t = t"

definition shutdown :: "io_trace \<Rightarrow> io_trace" where
  "shutdown t = halt (outw 0x604 0x2000 t)"

partial_function (option) reboot_wait :: "ports \<Rightarrow> io_trace \<Rightarrow> io_trace option" where
  "reboot_wait P t =
     (if fst (inb P 0x64 t) AND 0x02 \<noteq> 0 then reboot_wait P (snd (inb P 0x64 t)) else Some (snd (inb P 0x64 t)))"

definition reboot :: "ports \<Rightarrow> io_trace \<Rightarrow> io_trace option" where
  "reboot P t = map_option (\<lambda>t. halt (outb 0x64 0xFE t)) (reboot_wait P t)"

text \<open>The controller has taken its input after \<open>n\<close> more reads of its status, and not before.\<close>

definition ready_after :: "ports \<Rightarrow> io_trace \<Rightarrow> nat \<Rightarrow> bool" where
  "ready_after P t n \<longleftrightarrow> in8 P (replicate n (In8 0x64) @ t) 0x64 AND 2 = 0 \<and>
     (\<forall>m < n. in8 P (replicate m (In8 0x64) @ t) 0x64 AND 2 \<noteq> 0)"

text \<open>\<^verbatim>\<open>reboot\<close> sends the reset command exactly once, after the last of the reads.\<close>

theorem reboot_correct:
  assumes "ready_after P t n"
  shows "reboot P t = Some (Out8 0x64 0xFE # replicate (Suc n) (In8 0x64) @ t)"
proof -
  have "reboot_wait P (replicate k (In8 0x64) @ t) = Some (replicate (Suc n) (In8 0x64) @ t)" if "k \<le> n" for k
    using that
  proof (induction "n - k" arbitrary: k)
    case 0
    then show ?case using assms by (subst reboot_wait.simps) (simp add: inb_def ready_after_def)
  next
    case (Suc d)
    then have "in8 P (replicate k (In8 0x64) @ t) 0x64 AND 2 \<noteq> 0" using assms by (simp add: ready_after_def)
    then show ?case using Suc(1) [of "Suc k"] Suc(2) by (subst reboot_wait.simps) (simp add: inb_def)
  qed
  from this [of 0] show ?thesis by (simp add: reboot_def halt_def outb_def)
qed

theorem reboot_correct_witness:
  "reboot \<lparr>in8 = (\<lambda>t _. if length t < 2 then 2 else 0), in16 = (\<lambda>_ _. 0), in32 = (\<lambda>_ _. 0)\<rparr> [] =
     Some [Out8 0x64 0xFE, In8 0x64, In8 0x64, In8 0x64]"
  using reboot_correct [of "\<lparr>in8 = (\<lambda>t _. if length t < 2 then 2 else 0), in16 = (\<lambda>_ _. 0), in32 = (\<lambda>_ _. 0)\<rparr>" "[]" 2]
  by (simp add: ready_after_def numeral_2_eq_2)

end
