(* ===== verification/Spec2Isabelle.thy ===== *)
theory Spec2Isabelle
  imports List_Head Lst Number_Text Boot_Memory Buddy_Test Vma_Inv Syscall_Spec Tty_Spec Keyboard_Spec Pci_Spec Block_Spec X86 Power_Off
begin

text \<open>
  A verification library for the K1tox kernel, a 32-bit x86 kernel in C.

  The kernel boots from a multiboot2 loader, builds tables of the physical memory, hands the free memory to a buddy
  allocator, puts a slab allocator and page tables on top of it, and runs tasks with separate address spaces, a
  round-robin scheduler, signals and system calls. The drivers write text to the VGA memory, read the
  keyboard, enumerate the PCI bus, transfer sectors of ATA disks and read their partition tables.

  Paths below are relative to the source tree (\<^verbatim>\<open>src/\<close> of the repository is \<^verbatim>\<open>src/src/\<close> there, its \<^verbatim>\<open>include/\<close> is
  \<^verbatim>\<open>src/include/\<close>).

  \<^bold>\<open>How the program is modelled\<close>

  \<^item> C integers are words of their width (\<^verbatim>\<open>size_t\<close>, \<^verbatim>\<open>uintptr_t\<close> and pointers have 32 bits), so that all wrap-around of the
    code is in the model. Structures are records, enumerations datatypes.
  \<^item> An operation takes the state of its component and returns it updated. \<^verbatim>\<open>kpanic\<close>, a failed \<^verbatim>\<open>assert\<close>, an access
    through a null pointer and an access outside an array are values of the result type \<open>kres\<close> (\<open>Inl\<close> with the reason).
  \<^item> An intrusive list is a HOL list of what it links. \<open>List_Head\<close> justifies that once for all components:
    there the nodes are in a heap of pointers, and every operation of \<^verbatim>\<open>include/list.h\<close> is shown to
    implement the operation on the HOL list.
  \<^item> A loop with a bound is a recursion with a termination proof. A loop without one (strings up to a null byte, a drive that
    is busy) is a partial function with \<open>None\<close> for not returning, and its theorems state when it returns.
  \<^item> What is outside of the C code is a parameter: the devices behind the I/O ports answer a read from the trace
    of accesses made before (\<open>Port_Io\<close>), the addresses of linked symbols are arguments (\<open>image\<close>), the contents
    of uninitialised memory are arguments, and where a driver allocates memory, \<open>mem\<close> says which of its allocations succeed.
  \<^item> The build is the default one: debug, with assertions, without \<^verbatim>\<open>NDEBUG\<close>.

  \<^bold>\<open>Foundations\<close>

  \<^item> \<open>KPrelude\<close>: types, results and their rewrite rules (\<open>kres_simps\<close>, \<open>unat_simps\<close>), the macros of
    \<^verbatim>\<open>include/utils/kmacro.h\<close>.
  \<^item> \<open>List_Head\<close>: \<^verbatim>\<open>include/list.h\<close>; the locale \<open>intrusive_list\<close> and its interpretation on the heap.
  \<^item> \<open>Lst\<close>: \<^verbatim>\<open>lib/data_structs/lst\<close>, singly linked lists with explicit nodes, related to HOL lists.
  \<^item> \<open>Bitmap\<close>: \<^verbatim>\<open>lib/data_structs/bitmap\<close>; a bitmap is a finite set of numbers (locale \<open>bit_set\<close>), the search for
    a zero bit finds the least one.
  \<^item> \<open>Id_Manager\<close>: \<^verbatim>\<open>src/utils/id_manager.c\<close>; the cached next id agrees with the bitmap, ids in use are distinct
    (locale \<open>id_pool\<close>).
  \<^item> \<open>Libk\<close>, \<open>Libutils\<close>, \<open>Libk_Spec\<close>, \<open>Number_Text\<close>: \<^verbatim>\<open>lib/libk\<close> and \<^verbatim>\<open>lib/libutils\<close> over a byte memory; overlapping moves,
    bounded copies, the round trip of \<^verbatim>\<open>ft_itoa\<close> and \<^verbatim>\<open>ft_atoi\<close>.

  \<^bold>\<open>Memory\<close>

  \<^item> \<open>Boot_Allocator\<close>: \<^verbatim>\<open>src/memory/boot_allocator.c\<close>, \<^verbatim>\<open>src/kernel/mb2_info.c\<close>; sorting and merging keep the addresses
    a table covers, free memory is the complement of the reserved regions, an allocation moves one block. \<open>Boot_Init\<close>: the initialisation as a
    whole, from the memory map and the ranges the kernel keeps to the tables of the zones. \<open>Boot_At\<close>: allocation inside a range.
  \<^item> \<open>Page\<close>: \<^verbatim>\<open>src/memory/page.c\<close>, one descriptor per frame.
  \<^item> \<open>Buddy\<close>, \<open>Buddy_Blocks\<close>, \<open>Buddy_Inv\<close>, \<open>Buddy_Ops\<close>, \<open>Buddy_Spec\<close>: \<^verbatim>\<open>src/memory/buddy.c\<close>; the operations, the arithmetic of
    blocks, the invariant of lists, counters and descriptors, what each operation does, and the contract
    for clients (locale \<open>page_allocator\<close>): blocks handed out are disjoint, a release restores the free lists, an
    address that was not allocated is refused or detected. \<open>Buddy_Test\<close>: the self test at the end of the file, when it passes and when it
    stops the kernel.
  \<^item> \<open>Vmm\<close>, \<open>Vmm_Map\<close>, \<open>Vmm_Range\<close>, \<open>Vmm_Spec\<close>: \<^verbatim>\<open>src/memory/vmm.c\<close>; two-level page tables in physical memory and the translation they
    stand for (locale \<open>address_space\<close>): mapping changes one page, unmapping undoes it, the check of a range is
    the check of each of its pages. \<open>Vmm_Boot\<close>: the tables \<^verbatim>\<open>vmm_finalize\<close> makes map low memory linearly.
  \<^item> \<open>Boot_Memory\<close>: the memory part of \<^verbatim>\<open>init\<close> in \<^verbatim>\<open>src/arch/x86/x86.c\<close>, from the memory map to the page allocator: with enough memory it does
    not panic, it establishes the invariants of the page allocator and of the page tables, and the free pages
    are the RAM outside of what was kept and taken.
  \<^item> \<open>Usercopy\<close>: \<^verbatim>\<open>src/memory/usercopy.c\<close>; copies touch user memory only where the page tables allow it.
  \<^item> \<open>Slab\<close>, \<open>Slab_Spec\<close>: \<^verbatim>\<open>src/memory/slab.c\<close>, \<^verbatim>\<open>src/memory/kmalloc.c\<close>. \<^verbatim>\<open>kmalloc\<close> calls itself for the descriptor of a slab of large objects;
    the model has this call two levels deep and a theorem shows that no third level is ever reached. Taking an object and freeing
    it restores the heap, with the lists of the caches; using the list of empty slabs after its descriptors were freed is an error.
  \<^item> \<open>Vma\<close>, \<open>Vma_Inv\<close>: \<^verbatim>\<open>src/memory/vma.c\<close>, \<^verbatim>\<open>src/memory/vmalloc.c\<close>, the page fault handler; the areas of an address space tile their range in
    every reachable state, none of them empty.

  \<^bold>\<open>Tasks\<close>

  \<^item> \<open>Task\<close>: \<^verbatim>\<open>include/proc/task.h\<close>, \<^verbatim>\<open>src/proc/waitqueue.c\<close>, \<^verbatim>\<open>src/proc/scheduler.c\<close>, \<^verbatim>\<open>src/proc/timer.c\<close>, \<^verbatim>\<open>src/proc/lock.c\<close> and the state \<open>kstate\<close> of the
    kernel. \<open>Userspace\<close>: \<^verbatim>\<open>src/proc/section.c\<close>, \<^verbatim>\<open>src/proc/userspace.c\<close>. \<open>Process\<close>: \<^verbatim>\<open>src/proc/task.c\<close>, \<^verbatim>\<open>src/proc/signal.c\<close>. \<open>Syscalls\<close>:
    \<^verbatim>\<open>src/syscalls\<close> and the way out of an interrupt.
  \<^item> \<open>Proc_Frame\<close>, \<open>Sched_Inv\<close>, \<open>Proc_Ops\<close>, \<open>Kernel_Inv\<close>, \<open>Kernel_Run\<close>, \<open>Kernel_Steps\<close>: the invariant between queues, task states and signal
    handlers, kept by every operation. What an operation leaves alone is collected in \<open>frame\<close>.
  \<^item> \<open>Kernel_Reach\<close>, \<open>Kernel_Spec\<close>: the kernel as a transition system (\<open>kstep\<close>, \<open>kreach\<close>) from the end of
    \<^verbatim>\<open>task_init_process\<close> on, with interrupts, system calls, page faults, user code, kernel threads and shell commands as
    steps; the invariant holds in every reachable state.
  \<^item> \<open>Sched_Spec\<close>, \<open>Syscall_Spec\<close>: round robin and its bound (locale \<open>turn_taking\<close>), sleepers, what \<^verbatim>\<open>sigreturn\<close> can do to the
    registers of a task, the dispatch of system calls.

  \<^bold>\<open>Drivers\<close>

  \<^item> \<open>Port_Io\<close>: \<^verbatim>\<open>include/arch/io.h\<close>. \<open>Power_Off\<close>: \<^verbatim>\<open>include/arch/acpi.h\<close>, the ways to stop the machine. \<open>X86\<close>: \<^verbatim>\<open>src/arch/x86/gdt.c\<close>, \<^verbatim>\<open>src/arch/x86/idt.c\<close>; the descriptors decode to the flat segments, only the
    gate of the system call is open to user mode.
  \<^item> \<open>Terminal\<close>, \<open>Terminal_Spec\<close>, \<open>Printf_Spec\<close>: \<^verbatim>\<open>src/drivers/vga/vga.c\<close> and the frame buffers of \<^verbatim>\<open>src/drivers/tty/tty.c\<close>, against an abstract
    screen of 25 lines; formatted output puts the text of its format there. The loop of a tabulator writes at most four
    spaces, so that its recursion has the fuel 4.
  \<^item> \<open>Tty\<close>, \<open>Tty_Spec\<close>: creating and switching terminals, the command line, \<^verbatim>\<open>src/kernel/panic.c\<close>.
  \<^item> \<open>Keyboard\<close>, \<open>Keyboard_Spec\<close>: \<^verbatim>\<open>src/drivers/keyboard\<close>; layouts, line editing, sessions in the history of a terminal.
  \<^item> \<open>Pci\<close>, \<open>Pci_Spec\<close>: \<^verbatim>\<open>src/drivers/pci\<close>; the enumeration against a host bridge given by its configuration space.
  \<^item> \<open>Ata\<close>, \<open>Ata_Spec\<close>: \<^verbatim>\<open>src/drivers/ata\<close>; reading sectors against drives that are a parameter, with the protocol that
    the ATA standard documents for the read command as the hypothesis, as a function of the accesses to the ports.
  \<^item> \<open>Block\<close>, \<open>Block_Spec\<close>: \<^verbatim>\<open>src/block/partitions\<close>; registering a disk, for every content of its first sector.

  \<^bold>\<open>Not modelled\<close>

  \<^item> Assembly: the entry from the loader with its first page tables, the stubs of the interrupts and the context
    switch. What the C code needs of them (the layout of the trap frame, the pushes of the
    switch, the return through \<^verbatim>\<open>interrupt_exit\<close>) is in \<open>Task\<close> and \<open>Syscalls\<close>. The bodies of the example programs
    in assembly are user code, which may do anything in the transition system.
  \<^item> The rest of \<^verbatim>\<open>init\<close> of \<^verbatim>\<open>src/arch/x86/x86.c\<close>: the initialisations of descriptor tables, tasks and drivers are modelled in their own components,
    whose states are separate.
  \<^item> \<^verbatim>\<open>include/multiboot2.h\<close>, the constants of the boot protocol; the fields that are read are in \<open>Boot_Allocator\<close>.
  \<^item> Functions that only print (\<^verbatim>\<open>buddy_print\<close>, \<^verbatim>\<open>slab_print_summary\<close>, \<^verbatim>\<open>task_ps\<close>, the listing commands of the shell):
    they change no state but the screen.
    Within the modelled operations, messages of the log are left out, except in the drivers of the terminal.
  \<^item> The terminal and the process code are two models: the shell commands that act on tasks are steps of the
    transition system, and the command line reaches them through a parameter.
\<close>

end
